(* ===== verification/Prelude.thy ===== *)
theory Prelude
  imports Complex_Main "HOL-Library.AList" "HOL-Library.Char_ord"
    "HOL-Library.List_Lexorder" "HOL-Library.Product_Lexorder"
begin

text \<open>
  Shared vocabulary of the development: the Python built-ins the source uses, as executable
  HOL functions, and the generic facts about them that the component theories share.

  \<^item> exceptions are values of \<open>py_error\<close>; a fallible function returns
    \<open>'a result = py_error + 'a\<close> and \<open>bindE\<close> sequences two of them;
  \<^item> \<open>str\<close> methods (\<open>lower\<close>, \<open>upper\<close>, \<open>strip\<close>, \<open>rstrip\<close>, \<open>startswith\<close>, \<open>split\<close>,
    \<open>partition\<close>) over ASCII text, a \<open>char list\<close>;
  \<^item> \<open>int(...)\<close> of a text and the \<open>f"{n:0wd}"\<close> rendering of an integer;
  \<^item> \<open>dict\<close> in insertion order: \<open>map_of\<close> looks up, \<open>AList.update\<close> writes in place or appends;
  \<^item> \<open>float\<close>: a real number, an infinity or NaN, with Python's comparisons (every
    comparison with NaN is false). Rounding of float arithmetic is not modelled.
\<close>

named_theorems pystr "facts about Python string operations"
named_theorems pyres "facts about results and binding"

subsection \<open>Exceptions and results\<close>

datatype py_error =
    ValueError string
  | TypeError string
  | KeyError string
  | IndexError string
  | ZeroDivisionError
  | OverflowError string
  | IdxParseError nat string
  | DomainError string string

type_synonym 'a result = "py_error + 'a"

definition bindE :: "'a result \<Rightarrow> ('a \<Rightarrow> 'b result) \<Rightarrow> 'b result" where
  "bindE m f = (case m of Inl e \<Rightarrow> Inl e | Inr x \<Rightarrow> f x)"

lemma bindE_simps [simp, pyres]:
  "bindE (Inl e) f = Inl e" "bindE (Inr x) f = f x"
  by (simp_all add: bindE_def)

lemma bindE_eq_Inr [pyres]:
  "bindE m f = Inr y \<longleftrightarrow> (\<exists>x. m = Inr x \<and> f x = Inr y)"
  by (cases m) auto

lemma bindE_eq_Inl [pyres]:
  "bindE m f = Inl e \<longleftrightarrow> m = Inl e \<or> (\<exists>x. m = Inr x \<and> f x = Inl e)"
  by (cases m) auto

text \<open>\<open>[f x for x in xs]\<close> where \<open>f\<close> may raise: the first exception wins.\<close>

fun mapE :: "('a \<Rightarrow> 'b result) \<Rightarrow> 'a list \<Rightarrow> 'b list result" where
  "mapE f [] = Inr []"
| "mapE f (x # xs) = bindE (f x) (\<lambda>y. bindE (mapE f xs) (\<lambda>ys. Inr (y # ys)))"

lemma mapE_Inr_iff: "mapE f xs = Inr ys \<longleftrightarrow> list_all2 (\<lambda>x y. f x = Inr y) xs ys"
  by (induction xs arbitrary: ys) (auto simp: bindE_eq_Inr list_all2_Cons1)

lemma mapE_total: "(\<And>x. x \<in> set xs \<Longrightarrow> f x = Inr (g x)) \<Longrightarrow> mapE f xs = Inr (map g xs)"
  by (induction xs) auto

text \<open>The values present in a list of options\<close>

definition somes :: "'a option list \<Rightarrow> 'a list" where
  "somes xs = map the (filter (\<lambda>x. x \<noteq> None) xs)"

lemma set_somes: "x \<in> set (somes xs) \<longleftrightarrow> Some x \<in> set xs"
  by (induction xs) (auto simp: somes_def)

lemma mapE_set_D: "mapE f xs = Inr ys \<Longrightarrow> y \<in> set ys \<Longrightarrow> \<exists>x \<in> set xs. f x = Inr y"
  by (induction f xs arbitrary: ys rule: mapE.induct) (auto simp: bindE_eq_Inr)

lemma find_SomeD:
  "find P xs = Some x \<Longrightarrow> \<exists>ys zs. xs = ys @ x # zs \<and> P x \<and> (\<forall>y \<in> set ys. \<not> P y)"
proof (induction xs)
  case (Cons a xs)
  show ?case
  proof (cases "P a")
    case True
    with Cons.prems show ?thesis by (intro exI [of _ "[]"] exI [of _ xs]) auto
  next
    case False
    with Cons obtain ys zs where "xs = ys @ x # zs" "P x" "\<forall>y \<in> set ys. \<not> P y" by auto
    with False have "a # xs = (a # ys) @ x # zs \<and> P x \<and> (\<forall>y \<in> set (a # ys). \<not> P y)" by simp
    then show ?thesis by blast
  qed
qed simp

text \<open>\<open>for x in xs: acc = f(acc, x)\<close> where the body may raise.\<close>

fun foldE :: "('a \<Rightarrow> 'b \<Rightarrow> 'b result) \<Rightarrow> 'a list \<Rightarrow> 'b \<Rightarrow> 'b result" where
  "foldE f [] acc = Inr acc"
| "foldE f (x # xs) acc = bindE (f x acc) (foldE f xs)"

lemma foldE_total:
  "(\<And>x a. x \<in> set xs \<Longrightarrow> f x a = Inr (g x a)) \<Longrightarrow> foldE f xs acc = Inr (fold g xs acc)"
  by (induction xs arbitrary: acc) auto

lemma foldE_invariant:
  assumes "foldE f xs acc = Inr r" and "P acc"
    and "\<And>x a b. x \<in> set xs \<Longrightarrow> P a \<Longrightarrow> f x a = Inr b \<Longrightarrow> P b"
  shows "P r"
  using assms
proof (induction xs arbitrary: acc)
  case Nil
  then show ?case by simp
next
  case (Cons x xs)
  from Cons.prems(1) obtain b where b: "f x acc = Inr b" "foldE f xs b = Inr r"
    by (auto simp: bindE_eq_Inr)
  have "P b" using Cons.prems(3) [OF _ Cons.prems(2) b(1)] by simp
  then show ?case using Cons.IH [OF b(2)] Cons.prems(3) by auto
qed

subsection \<open>Text\<close>

definition upper_letters :: string where
  "upper_letters = ''ABCDEFGHIJKLMNOPQRSTUVWXYZ''"

definition lower_letters :: string where
  "lower_letters = ''abcdefghijklmnopqrstuvwxyz''"

definition lower_char :: "char \<Rightarrow> char" where
  "lower_char c = (case map_of (zip upper_letters lower_letters) c of Some d \<Rightarrow> d | None \<Rightarrow> c)"

definition upper_char :: "char \<Rightarrow> char" where
  "upper_char c = (case map_of (zip lower_letters upper_letters) c of Some d \<Rightarrow> d | None \<Rightarrow> c)"

definition py_lower :: "string \<Rightarrow> string" where "py_lower s = map lower_char s"

definition py_upper :: "string \<Rightarrow> string" where "py_upper s = map upper_char s"

text \<open>The ASCII characters \<open>str.strip()\<close> removes: tab, LF, VT, FF, CR, FS, GS, RS, US, space.\<close>

definition space_chars :: string where
  "space_chars = [CHR 0x09, CHR 0x0A, CHR 0x0B, CHR 0x0C, CHR 0x0D,
                  CHR 0x1C, CHR 0x1D, CHR 0x1E, CHR 0x1F, CHR '' '']"

definition is_space :: "char \<Rightarrow> bool" where "is_space c = (c \<in> set space_chars)"

definition rdropWhile :: "('a \<Rightarrow> bool) \<Rightarrow> 'a list \<Rightarrow> 'a list" where
  "rdropWhile P xs = rev (dropWhile P (rev xs))"

definition py_strip :: "string \<Rightarrow> string" where
  "py_strip s = rdropWhile is_space (dropWhile is_space s)"

definition py_rstrip_char :: "char \<Rightarrow> string \<Rightarrow> string" where
  "py_rstrip_char c s = rdropWhile (\<lambda>d. d = c) s"

definition py_strip_char :: "char \<Rightarrow> string \<Rightarrow> string" where
  "py_strip_char c s = rdropWhile (\<lambda>d. d = c) (dropWhile (\<lambda>d. d = c) s)"

fun startswith :: "string \<Rightarrow> string \<Rightarrow> bool" where
  "startswith s [] = True"
| "startswith [] (p # ps) = False"
| "startswith (c # cs) (p # ps) = (c = p \<and> startswith cs ps)"

definition endswith :: "string \<Rightarrow> string \<Rightarrow> bool" where
  "endswith s p = startswith (rev s) (rev p)"

text \<open>\<open>sub in s\<close>\<close>

fun contains_str :: "string \<Rightarrow> string \<Rightarrow> bool" where
  "contains_str sub [] = (sub = [])"
| "contains_str sub (c # cs) = (startswith (c # cs) sub \<or> contains_str sub cs)"

text \<open>\<open>s.split(c)\<close> for a one-character separator: never empty, keeps empty fields.\<close>

fun py_split :: "char \<Rightarrow> string \<Rightarrow> string list" where
  "py_split c [] = [[]]"
| "py_split c (d # ds) =
     (if d = c then [] # py_split c ds
      else (case py_split c ds of [] \<Rightarrow> [[d]] | w # ws \<Rightarrow> (d # w) # ws))"

text \<open>\<open>c.join(ws)\<close>\<close>

fun py_join :: "string \<Rightarrow> string list \<Rightarrow> string" where
  "py_join sep [] = []"
| "py_join sep [w] = w"
| "py_join sep (w # v # ws) = w @ sep @ py_join sep (v # ws)"

text \<open>\<open>s.splitlines()\<close> over ASCII: the line ends are LF, CR, CR LF, VT, FF, FS, GS, RS.\<close>

definition line_ends :: string where
  "line_ends = [CHR 0x0A, CHR 0x0B, CHR 0x0C, CHR 0x0D, CHR 0x1C, CHR 0x1D, CHR 0x1E]"

fun splitlines_acc :: "string \<Rightarrow> string \<Rightarrow> string list" where
  "splitlines_acc cur [] = (if cur = [] then [] else [rev cur])"
| "splitlines_acc cur [c] =
     (if c \<in> set line_ends then [rev cur] else [rev (c # cur)])"
| "splitlines_acc cur (c # d # ds) =
     (if c = CHR 0x0D \<and> d = CHR 0x0A then rev cur # splitlines_acc [] ds
      else if c \<in> set line_ends then rev cur # splitlines_acc [] (d # ds)
      else splitlines_acc (c # cur) (d # ds))"

definition py_splitlines :: "string \<Rightarrow> string list" where
  "py_splitlines s = splitlines_acc [] s"

text \<open>The key normalisation of the registries: \<open>s.lower().strip()\<close>.\<close>

definition norm_key :: "string \<Rightarrow> string" where "norm_key s = py_strip (py_lower s)"

lemma lower_char_cases:
  "lower_char c = c \<or> (c \<in> set upper_letters \<and> lower_char c \<in> set lower_letters)"
  by (auto simp: lower_char_def split: option.split dest!: map_of_SomeD
      intro: set_zip_leftD set_zip_rightD)

lemma letters_disjoint: "set upper_letters \<inter> set lower_letters = {}"
  by (simp add: upper_letters_def lower_letters_def)

lemma lower_char_lower: "c \<in> set lower_letters \<Longrightarrow> lower_char c = c"
  using lower_char_cases [of c] letters_disjoint by blast

lemma letters_not_space:
  "c \<in> set upper_letters \<Longrightarrow> \<not> is_space c" "c \<in> set lower_letters \<Longrightarrow> \<not> is_space c"
  by (auto simp: upper_letters_def lower_letters_def is_space_def space_chars_def)

lemma lower_char_idem [simp]: "lower_char (lower_char c) = lower_char c"
  using lower_char_cases [of c] lower_char_lower by metis

lemma is_space_lower [simp]: "is_space (lower_char c) = is_space c"
  using lower_char_cases [of c] letters_not_space by metis

lemma py_lower_idem [simp]: "py_lower (py_lower s) = py_lower s"
  by (simp add: py_lower_def)

lemma py_lower_length [simp]: "length (py_lower s) = length s"
  by (simp add: py_lower_def)

lemma rdropWhile_map: "rdropWhile P (map f xs) = map f (rdropWhile (\<lambda>x. P (f x)) xs)"
  by (simp add: rdropWhile_def rev_map dropWhile_map comp_def)

lemma py_strip_lower: "py_strip (py_lower s) = py_lower (py_strip s)"
  by (simp add: py_strip_def py_lower_def rdropWhile_map dropWhile_map comp_def)

lemma rdropWhile_idem [simp]: "rdropWhile P (rdropWhile P xs) = rdropWhile P xs"
  by (simp add: rdropWhile_def)

lemma rdropWhile_last: "rdropWhile P xs \<noteq> [] \<Longrightarrow> \<not> P (last (rdropWhile P xs))"
  by (simp add: rdropWhile_def last_rev hd_dropWhile)

lemma rdropWhile_prefix: "\<exists>ys. xs = rdropWhile P xs @ ys \<and> (\<forall>y \<in> set ys. P y)"
proof -
  have "rev xs = takeWhile P (rev xs) @ dropWhile P (rev xs)" by simp
  then have "xs = rev (dropWhile P (rev xs)) @ rev (takeWhile P (rev xs))"
    by (metis rev_append rev_rev_ident)
  then show ?thesis by (metis rdropWhile_def set_rev set_takeWhileD)
qed

lemma rdropWhile_id: "xs = [] \<or> \<not> P (last xs) \<Longrightarrow> rdropWhile P xs = xs"
  by (metis dropWhile_eq_self_iff hd_rev rdropWhile_def rev_is_Nil_conv rev_rev_ident)

lemma dropWhile_append_self:
  assumes "dropWhile P (r @ zs) = r @ zs" shows "dropWhile P r = r"
proof (cases r)
  case (Cons y ys)
  with assms hd_dropWhile [of P "r @ zs"] have "\<not> P y" by simp
  with Cons show ?thesis by simp
qed simp

lemma dropWhile_rdropWhile:
  assumes "dropWhile P xs = xs" shows "dropWhile P (rdropWhile P xs) = rdropWhile P xs"
proof -
  obtain zs where zs: "rdropWhile P xs @ zs = xs" using rdropWhile_prefix [of xs P] by metis
  show ?thesis by (rule dropWhile_append_self [where zs = zs]) (simp add: zs assms)
qed

lemma py_strip_idem [simp]: "py_strip (py_strip s) = py_strip s"
  by (simp add: py_strip_def dropWhile_rdropWhile)

lemma py_strip_Nil [simp]: "py_strip [] = []"
  by (simp add: py_strip_def rdropWhile_def)

lemma norm_key_idem [simp]: "norm_key (norm_key s) = norm_key s"
  by (simp add: norm_key_def py_strip_lower)

text \<open>The identifiers the source registers are already normalised.\<close>

lemma norm_key_literals [simp]:
  "norm_key ''gfs'' = ''gfs''" "norm_key ''gefs'' = ''gefs''" "norm_key ''v1.0'' = ''v1.0''"
  "norm_key ''det'' = ''det''" "norm_key ''mean'' = ''mean''" "norm_key ''mem'' = ''mem''"
  by code_simp+

lemma startswith_iff: "startswith s p \<longleftrightarrow> (\<exists>r. s = p @ r)"
  by (induction s p rule: startswith.induct) auto

lemma py_split_not_Nil [simp]: "py_split c s \<noteq> []"
  by (induction s) (auto split: list.split)

lemma py_join_split [pystr]: "py_join [c] (py_split c s) = s"
proof (induction s)
  case (Cons d ds)
  then show ?case
    by (cases "py_split c ds" rule: remdups_adj.cases) auto
qed simp

lemma py_split_no_sep: "c \<notin> set w \<Longrightarrow> py_split c w = [w]"
  by (induction w) auto

lemma py_split_append_sep:
  "c \<notin> set w \<Longrightarrow> py_split c (w @ c # s) = w # py_split c s"
  by (induction w) auto

lemma py_split_join:
  "ws \<noteq> [] \<Longrightarrow> (\<And>w. w \<in> set ws \<Longrightarrow> c \<notin> set w) \<Longrightarrow> py_split c (py_join [c] ws) = ws"
  by (induction "[c]" ws rule: py_join.induct) (auto simp: py_split_no_sep py_split_append_sep)

subsection \<open>Integers as text\<close>

definition digit_chars :: string where "digit_chars = ''0123456789''"

definition digit_char :: "nat \<Rightarrow> char" where "digit_char d = digit_chars ! d"

definition digit_val :: "char \<Rightarrow> nat option" where
  "digit_val c = map_of (zip digit_chars [0..<10]) c"

text \<open>\<open>str(n)\<close> for a natural number.\<close>

fun nat_str :: "nat \<Rightarrow> string" where
  "nat_str n = (if n < 10 then [digit_char n] else nat_str (n div 10) @ [digit_char (n mod 10)])"

declare nat_str.simps [simp del]

definition int_str :: "int \<Rightarrow> string" where
  "int_str n = (if n < 0 then CHR ''-'' # nat_str (nat (- n)) else nat_str (nat n))"

text \<open>\<open>f"{n:0wd}"\<close>: zero padding to width \<open>w\<close>, the sign counted in the width.\<close>

definition zero_pad :: "nat \<Rightarrow> string \<Rightarrow> string" where
  "zero_pad w s = replicate (w - length s) (CHR ''0'') @ s"

definition fmt0 :: "nat \<Rightarrow> int \<Rightarrow> string" where
  "fmt0 w n = (if n < 0 then CHR ''-'' # zero_pad (w - 1) (nat_str (nat (- n)))
               else zero_pad w (nat_str (nat n)))"

text \<open>
  \<open>int(s)\<close> for a text: surrounding space is dropped, one optional sign, decimal digits with
  single underscores between digits; anything else raises (here \<open>None\<close>).
\<close>

fun digits_acc :: "nat \<Rightarrow> bool \<Rightarrow> string \<Rightarrow> nat option" where
  "digits_acc acc prev [] = (if prev then Some acc else None)"
| "digits_acc acc prev (c # cs) =
     (case digit_val c of
        Some d \<Rightarrow> digits_acc (acc * 10 + d) True cs
      | None \<Rightarrow> (if c = CHR ''_'' \<and> prev \<and> cs \<noteq> [] then digits_acc acc False cs else None))"

definition parse_int :: "string \<Rightarrow> int option" where
  "parse_int s = (case py_strip s of
       [] \<Rightarrow> None
     | c # cs \<Rightarrow> (if c = CHR ''-'' then map_option (\<lambda>n. - int n) (digits_acc 0 False cs)
                else if c = CHR ''+'' then map_option int (digits_acc 0 False cs)
                else map_option int (digits_acc 0 False (c # cs))))"

lemma digit_cases: "d < 10 \<Longrightarrow> d \<in> {0, 1, 2, 3, 4, 5, 6, 7, 8, 9 :: nat}"
  by auto

lemma digit_val_char [simp]: "d < 10 \<Longrightarrow> digit_val (digit_char d) = Some d"
  by (drule digit_cases)
    (auto simp: digit_val_def digit_char_def digit_chars_def upt_rec)

lemma digit_char_digit: "d < 10 \<Longrightarrow> digit_char d \<in> set digit_chars"
  unfolding digit_char_def by (rule nth_mem) (simp add: digit_chars_def)

lemma nat_str_digits: "set (nat_str n) \<subseteq> set digit_chars"
proof (induction n rule: nat_str.induct)
  case (1 n)
  then show ?case by (subst nat_str.simps) (auto simp: digit_char_digit)
qed

lemma nat_str_not_Nil [simp]: "nat_str n \<noteq> []"
  by (subst nat_str.simps) simp

lemma digits_acc_nat_str:
  "digits_acc a p (nat_str n @ t) = digits_acc (a * 10 ^ length (nat_str n) + n) True t"
proof (induction n arbitrary: t rule: nat_str.induct)
  case (1 n)
  show ?case
  proof (cases "n < 10")
    case True
    then show ?thesis by (simp add: nat_str.simps [of n])
  next
    case False
    have "(k + n div 10) * 10 + n mod 10 = k * 10 + n" for k :: nat
      by (metis add.assoc add_mult_distrib div_mult_mod_eq)
    with False "1.IH" show ?thesis by (simp add: nat_str.simps [of n] ac_simps)
  qed
qed

lemma digits_acc_zeros:
  "digits_acc 0 p (replicate k (CHR ''0'') @ nat_str n @ t) = digits_acc n True t"
proof (induction k arbitrary: p)
  case 0
  show ?case using digits_acc_nat_str [of 0 p n t] by simp
next
  case (Suc k)
  have "digit_val (CHR ''0'') = Some 0" by (simp add: digit_val_def digit_chars_def upt_rec)
  with Suc show ?case by simp
qed

lemma digits_acc_zero_pad [simp]: "digits_acc 0 p (zero_pad w (nat_str n)) = Some n"
  using digits_acc_zeros [of p _ n "[]"] by (simp add: zero_pad_def)

lemma zero_pad_digits: "set (zero_pad w (nat_str n)) \<subseteq> set digit_chars"
  using nat_str_digits by (auto simp: zero_pad_def digit_chars_def)

lemma zero_pad_not_Nil [simp]: "zero_pad w (nat_str n) \<noteq> []"
  by (simp add: zero_pad_def)

definition number_char :: "char \<Rightarrow> bool" where
  "number_char c = (c \<in> set digit_chars \<or> c = CHR ''-'')"

lemma fmt0_chars: "c \<in> set (fmt0 w n) \<Longrightarrow> number_char c"
  using zero_pad_digits by (auto simp: fmt0_def number_char_def split: if_splits)

lemma int_str_chars: "c \<in> set (int_str n) \<Longrightarrow> number_char c"
  using nat_str_digits by (auto simp: int_str_def number_char_def split: if_splits)

lemma number_char_not_space: "number_char c \<Longrightarrow> \<not> is_space c"
  by (auto simp: number_char_def digit_chars_def is_space_def space_chars_def)

lemma py_strip_no_space: "(\<And>c. c \<in> set s \<Longrightarrow> \<not> is_space c) \<Longrightarrow> py_strip s = s"
  by (metis dropWhile_eq_self_iff hd_in_set last_in_set py_strip_def rdropWhile_id)

text \<open>Reading back a rendered integer gives the integer.\<close>

lemma parse_int_nonneg:
  assumes "s \<noteq> []" "set s \<subseteq> set digit_chars"
  shows "parse_int s = map_option int (digits_acc 0 False s)"
proof -
  have "py_strip s = s" by (rule py_strip_no_space)
      (use assms number_char_not_space in \<open>auto simp: number_char_def\<close>)
  moreover obtain c cs where "s = c # cs" "c \<in> set digit_chars"
    using assms by (cases s) auto
  ultimately show ?thesis by (auto simp: parse_int_def digit_chars_def)
qed

lemma parse_int_neg:
  assumes "set s \<subseteq> set digit_chars"
  shows "parse_int (CHR ''-'' # s) = map_option (\<lambda>n. - int n) (digits_acc 0 False s)"
proof -
  have "py_strip (CHR ''-'' # s) = CHR ''-'' # s" by (rule py_strip_no_space)
      (use assms number_char_not_space in \<open>auto simp: number_char_def\<close>)
  then show ?thesis by (simp add: parse_int_def)
qed

lemma parse_int_fmt0: "parse_int (fmt0 w n) = Some n"
  by (simp add: fmt0_def parse_int_nonneg parse_int_neg zero_pad_digits)

lemma parse_int_int_str: "parse_int (int_str n) = Some n"
  using digits_acc_nat_str [of 0 False _ "[]"]
  by (simp add: int_str_def parse_int_nonneg parse_int_neg nat_str_digits)

lemma fmt0_inject [simp]: "fmt0 w m = fmt0 w n \<longleftrightarrow> m = n"
  by (metis option.inject parse_int_fmt0)

lemma int_str_inject [simp]: "int_str m = int_str n \<longleftrightarrow> m = n"
  by (metis option.inject parse_int_int_str)

lemma takeWhile_append_stop:
  "(\<And>c. c \<in> set s \<Longrightarrow> P c) \<Longrightarrow> \<not> P d \<Longrightarrow> takeWhile P (s @ d # r) = s"
  by (induction s) auto

lemma append_stop_inject:
  assumes "s @ d # r = t @ e # q" "\<not> P d" "\<not> P e"
    "\<And>c. c \<in> set s \<Longrightarrow> P c" "\<And>c. c \<in> set t \<Longrightarrow> P c"
  shows "s = t \<and> d = e \<and> r = q"
proof -
  have "takeWhile P (s @ d # r) = s" by (rule takeWhile_append_stop) (use assms in auto)
  moreover have "takeWhile P (t @ e # q) = t" by (rule takeWhile_append_stop) (use assms in auto)
  ultimately have "s = t" using assms(1) by simp
  then show ?thesis using assms(1) by simp
qed

lemma fmt0_append_inject:
  assumes "\<not> number_char d" "\<not> number_char e"
  shows "fmt0 w m @ d # r = fmt0 w n @ e # q \<longleftrightarrow> m = n \<and> d = e \<and> r = q"
  using append_stop_inject [of "fmt0 w m" d r "fmt0 w n" e q number_char] fmt0_chars assms
  by auto

subsection \<open>Ranges\<close>

text \<open>\<open>range(start, stop, step)\<close> as a list; a zero step raises.\<close>

definition range_count :: "int \<Rightarrow> int \<Rightarrow> int \<Rightarrow> nat" where
  "range_count start stop step =
     (if 0 < step then nat ((stop - start + step - 1) div step)
      else nat ((start - stop - step - 1) div (- step)))"

definition py_range :: "int \<Rightarrow> int \<Rightarrow> int \<Rightarrow> int list" where
  "py_range start stop step = map (\<lambda>i. start + step * int i) [0..<range_count start stop step]"

definition py_rangeE :: "int \<Rightarrow> int \<Rightarrow> int \<Rightarrow> int list result" where
  "py_rangeE start stop step =
     (if step = 0 then Inl (ValueError ''range() arg 3 must not be zero'')
      else Inr (py_range start stop step))"

lemma py_range_sorted: "0 < step \<Longrightarrow> sorted_wrt (<) (py_range start stop step)"
  by (simp add: py_range_def sorted_wrt_map sorted_wrt_iff_nth_less)

lemma set_py_range:
  assumes "0 < step"
  shows "x \<in> set (py_range start stop step) \<longleftrightarrow>
    start \<le> x \<and> x < stop \<and> (x - start) mod step = 0"
proof
  assume "x \<in> set (py_range start stop step)"
  then obtain i where x: "x = start + step * int i"
    and "i \<in> set [0..<range_count start stop step]"
    unfolding py_range_def set_map by blast
  then have i: "i < range_count start stop step" by simp
  from i assms have "int i < (stop - start + step - 1) div step"
    by (simp add: range_count_def zless_nat_eq_int_zless)
  then have "int i + 1 \<le> (stop - start + step - 1) div step" by simp
  then have "step * (int i + 1) \<le> step * ((stop - start + step - 1) div step)"
    using assms by (simp add: mult_left_mono)
  also have "\<dots> \<le> stop - start + step - 1"
    using pos_mod_sign [OF assms, of "stop - start + step - 1"]
      mult_div_mod_eq [of step "stop - start + step - 1"] by linarith
  finally have "start + step * int i < stop" by (simp add: algebra_simps)
  with x assms show "start \<le> x \<and> x < stop \<and> (x - start) mod step = 0" by simp
next
  assume a: "start \<le> x \<and> x < stop \<and> (x - start) mod step = 0"
  define k where "k = (x - start) div step"
  have xk: "x = start + step * k" using a by (simp add: k_def algebra_simps minus_mod_eq_mult_div [symmetric])
  have "0 \<le> k" using a assms by (simp add: k_def pos_imp_zdiv_nonneg_iff)
  have "(x - start + step) div step \<le> (stop - start + step - 1) div step"
    by (rule zdiv_mono1) (use a assms in auto)
  then have "k + 1 \<le> (stop - start + step - 1) div step"
    using assms by (simp add: k_def)
  then have "nat k < range_count start stop step"
    using assms \<open>0 \<le> k\<close> by (simp add: range_count_def)
  then show "x \<in> set (py_range start stop step)"
    using xk \<open>0 \<le> k\<close> by (auto simp: py_range_def intro!: image_eqI [where x = "nat k"])
qed

end
