(* ===== verification/Registry.thy ===== *)
theory Registry
  imports Prelude
begin

text \<open>
  The contract the model registries share (cycle cadence, expected members, canonical lead
  horizon): a module-level dictionary keyed by the normalised model identifier, a lookup that
  raises for an unknown model, a registration that validates its value, and a predicate that
  tells a registered model from an assumed one. The registration audit is proved against this
  contract; each registry interprets it on its own definitions.
\<close>

locale registry =
  fixes lookup :: "'r \<Rightarrow> string \<Rightarrow> 'v result"
    and registered :: "'r \<Rightarrow> string \<Rightarrow> bool"
    and store :: "string \<Rightarrow> 'v \<Rightarrow> 'r \<Rightarrow> 'r result"
    and valid :: "'v \<Rightarrow> bool"
  assumes lookup_norm: "lookup r (norm_key m) = lookup r m"
    and registered_lookup: "registered r m \<longleftrightarrow> (\<exists>v. lookup r m = Inr v)"
    and store_valid: "valid v \<Longrightarrow> \<exists>r'. store m v r = Inr r'"
    and store_invalid: "\<not> valid v \<Longrightarrow> \<exists>e. store m v r = Inl e"
    and lookup_store: "store m v r = Inr r' \<Longrightarrow>
        (lookup r' n = (if norm_key n = norm_key m then Inr v else lookup r n))"
begin

lemma unregistered_raises: "\<not> registered r m \<longleftrightarrow> (\<exists>e. lookup r m = Inl e)"
  unfolding registered_lookup by (cases "lookup r m") auto

lemma registered_norm: "norm_key m = norm_key n \<Longrightarrow> registered r m = registered r n"
  by (metis lookup_norm registered_lookup)

lemma registered_norm_key [simp]: "registered r (norm_key m) = registered r m"
  by (rule registered_norm) simp

lemma registered_store:
  "store m v r = Inr r' \<Longrightarrow> registered r' n \<longleftrightarrow> norm_key n = norm_key m \<or> registered r n"
  using lookup_store [of m v r r' n] by (auto simp: registered_lookup)

lemma store_frame:
  "store m v r = Inr r' \<Longrightarrow> norm_key n \<noteq> norm_key m \<Longrightarrow> lookup r' n = lookup r n"
  by (simp add: lookup_store)

text \<open>The later of two registrations of a model wins.\<close>

lemma store_overrides:
  assumes "store m v r = Inr r1" "store m' w r1 = Inr r2" "norm_key m = norm_key m'"
  shows "lookup r2 m = Inr w"
  using assms by (simp add: lookup_store)

text \<open>Registering a list of models makes exactly those models newly registered.\<close>

lemma store_all_registered:
  assumes "foldE (\<lambda>(m, v) r. store m v r) ms r = Inr r'"
  shows "registered r' n \<longleftrightarrow> norm_key n \<in> norm_key ` fst ` set ms \<or> registered r n"
  using assms
proof (induction ms arbitrary: r)
  case Nil
  then show ?case by simp
next
  case (Cons p ms)
  obtain m v where p: "p = (m, v)" by (cases p)
  with Cons.prems obtain r1 where "store m v r = Inr r1"
    and rest: "foldE (\<lambda>(m, v) r. store m v r) ms r1 = Inr r'"
    by (auto simp: bindE_eq_Inr)
  with Cons.IH [OF rest] p show ?case by (auto simp: registered_store)
qed

end

end
