(* ===== verification/PyTime.thy ===== *)
theory PyTime
  imports Prelude
begin

text \<open>
  Python \<open>datetime\<close> and \<open>timedelta\<close> as the source uses them. A \<open>timedelta\<close> is a number of
  microseconds (\<open>int\<close>). A \<open>datetime\<close> is its wall clock, in microseconds since
  1970-01-01T00:00:00, and the UTC offset of its \<open>tzinfo\<close> (\<open>None\<close> for a naive datetime).
  Two aware datetimes compare by their UTC instant. The code normalises to UTC first
  (\<open>_ensure_utc\<close>, \<open>astimezone(UTC)\<close>); an \<open>instant\<close> is the wall clock of a UTC datetime.
  The range limits of \<open>datetime\<close> (years 1 to 9999) are not modelled.
\<close>

named_theorems pytime "facts about instants"

type_synonym instant = int

record datetime =
  wall :: int
  tzinfo :: "int option"

definition us_per_hour :: int where "us_per_hour = 3600000000"
definition us_per_day :: int where "us_per_day = 86400000000"

abbreviation hours :: "int \<Rightarrow> int" where "hours h \<equiv> h * us_per_hour"
abbreviation days :: "int \<Rightarrow> int" where "days d \<equiv> d * us_per_day"

definition utc_datetime :: "instant \<Rightarrow> datetime" where
  "utc_datetime t = \<lparr>wall = t, tzinfo = Some 0\<rparr>"

text \<open>\<open>dt.astimezone(UTC)\<close>, for an aware datetime.\<close>

definition astimezone_utc :: "datetime \<Rightarrow> instant" where
  "astimezone_utc dt = (case tzinfo dt of None \<Rightarrow> wall dt | Some off \<Rightarrow> wall dt - off)"

text \<open>\<open>_ensure_utc\<close>: a naive datetime is read as UTC, an aware one is converted.\<close>

definition ensure_utc :: "datetime \<Rightarrow> instant" where
  "ensure_utc dt = (if tzinfo dt = None then wall dt else astimezone_utc dt)"

lemma ensure_utc_utc [simp]: "ensure_utc (utc_datetime t) = t"
  by (simp add: ensure_utc_def utc_datetime_def astimezone_utc_def)

lemma astimezone_utc_utc [simp]: "astimezone_utc (utc_datetime t) = t"
  by (simp add: utc_datetime_def astimezone_utc_def)

lemma tzinfo_utc [simp]: "tzinfo (utc_datetime t) = Some 0"
  by (simp add: utc_datetime_def)

subsection \<open>Fields of a UTC instant\<close>

definition day_start :: "instant \<Rightarrow> instant" where
  "day_start t = t - t mod us_per_day"

definition hour_of :: "instant \<Rightarrow> int" where
  "hour_of t = (t mod us_per_day) div us_per_hour"

definition minute_of :: "instant \<Rightarrow> int" where
  "minute_of t = (t mod us_per_hour) div 60000000"

definition second_of :: "instant \<Rightarrow> int" where
  "second_of t = (t mod 60000000) div 1000000"

definition microsecond_of :: "instant \<Rightarrow> int" where
  "microsecond_of t = t mod 1000000"

lemma us_pos [simp]: "0 < us_per_hour" "0 < us_per_day"
  by (simp_all add: us_per_hour_def us_per_day_def)

lemma us_nonzero [simp]: "us_per_hour \<noteq> 0" "us_per_day \<noteq> 0"
  by (simp_all add: us_per_hour_def us_per_day_def)

lemma us_per_day_hours: "us_per_day = 24 * us_per_hour"
  by (simp add: us_per_day_def us_per_hour_def)

lemma hours_le_iff [simp]: "hours a \<le> hours b \<longleftrightarrow> a \<le> b" "hours a < hours b \<longleftrightarrow> a < b"
  by (simp_all add: us_per_hour_def)

lemma day_start_alt: "day_start t = us_per_day * (t div us_per_day)"
  by (simp add: day_start_def minus_mod_eq_mult_div)

lemma mod_day: "t mod us_per_day = us_per_hour * ((t div us_per_hour) mod 24) + t mod us_per_hour"
  using zmod_zmult2_eq [of 24 t us_per_hour] by (simp add: us_per_day_hours mult.commute)

lemma hour_of_alt: "hour_of t = (t div us_per_hour) mod 24"
  unfolding hour_of_def mod_day
  using pos_mod_sign [of us_per_hour t] pos_mod_bound [of us_per_hour t]
  by (simp add: div_pos_pos_trivial del: pos_mod_sign pos_mod_bound)

lemma div_day: "t div us_per_day = (t div us_per_hour) div 24"
  using zdiv_zmult2_eq [of 24 t us_per_hour] by (simp add: us_per_day_hours mult.commute)

lemma hour_of_bounds: "0 \<le> hour_of t" "hour_of t < 24"
  by (simp_all add: hour_of_alt)

lemma day_start_le: "day_start t \<le> t"
  by (simp add: day_start_def)

lemma day_start_mono: "s \<le> t \<Longrightarrow> day_start s \<le> day_start t"
  by (simp add: day_start_alt zdiv_mono1)

lemma instant_split: "t = day_start t + hours (hour_of t) + t mod us_per_hour"
  using mod_day [of t] by (simp add: day_start_def hour_of_alt)

lemma instant_bounds: "day_start t + hours (hour_of t) \<le> t"
    "t < day_start t + hours (hour_of t) + us_per_hour"
  using instant_split [of t] pos_mod_sign [of us_per_hour t] pos_mod_bound [of us_per_hour t]
  by (simp_all del: pos_mod_sign pos_mod_bound)

lemma on_the_hour_iff:
  "minute_of t = 0 \<and> second_of t = 0 \<and> microsecond_of t = 0 \<longleftrightarrow> t mod us_per_hour = 0"
proof -
  have m: "t mod 60000000 = (t mod us_per_hour) mod 60000000"
    and s: "t mod 1000000 = (t mod 60000000) mod 1000000"
    by (simp_all add: us_per_hour_def mod_mod_cancel)
  have eq: "t mod us_per_hour
      = 60000000 * minute_of t + (1000000 * second_of t + microsecond_of t)"
    unfolding minute_of_def second_of_def microsecond_of_def
    by (metis m s mult_div_mod_eq)
  moreover have "0 \<le> minute_of t" "0 \<le> second_of t" "0 \<le> microsecond_of t"
    unfolding minute_of_def second_of_def microsecond_of_def us_per_hour_def by auto
  ultimately show ?thesis by auto
qed

text \<open>A day start plus whole hours below 24 has that hour and no smaller fields.\<close>

lemma day_start_hours:
  assumes "0 \<le> h" "h < 24"
  shows "hour_of (day_start t + hours h) = h"
    and "(day_start t + hours h) mod us_per_hour = 0"
    and "day_start (day_start t + hours h) = day_start t"
proof -
  have *: "day_start t + hours h = us_per_hour * (24 * (t div us_per_day) + h)"
    by (simp add: day_start_alt us_per_day_hours algebra_simps)
  show "hour_of (day_start t + hours h) = h"
    unfolding hour_of_alt * using assms by simp
  show "(day_start t + hours h) mod us_per_hour = 0"
    unfolding * by simp
  define q where "q = t div us_per_day"
  have "us_per_hour * (24 * q + h) div us_per_day = q"
    unfolding div_day using assms by simp
  then show "day_start (day_start t + hours h) = day_start t"
    unfolding day_start_alt [of "day_start t + hours h"] * by (simp add: day_start_alt q_def)
qed

lemma day_gap:
  assumes "day_start s < day_start t" shows "day_start s + us_per_day \<le> day_start t"
proof -
  have "s div us_per_day < t div us_per_day" using assms by (simp add: day_start_alt)
  then have "us_per_day * (s div us_per_day + 1) \<le> us_per_day * (t div us_per_day)"
    by (intro mult_left_mono) (auto simp: us_per_day_def)
  then show ?thesis by (simp add: day_start_alt algebra_simps)
qed

lemma hour_of_mono: "s \<le> t \<Longrightarrow> day_start s = day_start t \<Longrightarrow> hour_of s \<le> hour_of t"
  by (simp add: day_start_def hour_of_def zdiv_mono1)

subsection \<open>Calendar date\<close>

text \<open>
  The proleptic Gregorian date of a day number (days since 1970-01-01), by the
  era/day-of-era arithmetic: what \<open>strftime("%Y-%m-%d")\<close> prints.
\<close>

definition civil_of_days :: "int \<Rightarrow> int \<times> int \<times> int" where
  "civil_of_days z0 =
     (let z = z0 + 719468;
          era = z div 146097;
          doe = z - era * 146097;
          yoe = (doe - doe div 1460 + doe div 36524 - doe div 146096) div 365;
          doy = doe - (365 * yoe + yoe div 4 - yoe div 100);
          mp = (5 * doy + 2) div 153;
          d = doy - (153 * mp + 2) div 5 + 1;
          m = (if mp < 10 then mp + 3 else mp - 9);
          y = yoe + era * 400 + (if m \<le> 2 then 1 else 0)
      in (y, m, d))"

definition date_str :: "instant \<Rightarrow> string" where
  "date_str t = (case civil_of_days (t div us_per_day) of
     (y, m, d) \<Rightarrow> fmt0 4 y @ ''-'' @ fmt0 2 m @ ''-'' @ fmt0 2 d)"

end
