(* ===== verification/Cadence.thy ===== *)
theory Cadence
  imports Registry PyTime
begin

text \<open>
  \<open>domain/cadence.py\<close>: the cycle cadence registry \<open>MODEL_CYCLE_CADENCE_HOURS\<close>, a map from the
  normalised model identifier to hours.
\<close>

type_synonym cadence_registry = "string \<rightharpoonup> int"

definition default_cadences :: cadence_registry where
  "default_cadences = [''gfs'' \<mapsto> 6, ''gefs'' \<mapsto> 6]"

definition canonical_cycle_cadence_hours ::
    "cadence_registry \<Rightarrow> string \<Rightarrow> int option \<Rightarrow> int result" where
  "canonical_cycle_cadence_hours reg model_id default_if_unknown =
     (case reg (norm_key model_id) of
        Some h \<Rightarrow> Inr h
      | None \<Rightarrow>
          (case default_if_unknown of
             Some d \<Rightarrow> if d \<le> 0 then Inl (ValueError ''Cadence must be positive'') else Inr d
           | None \<Rightarrow> Inl (ValueError ''Unknown model identifier'')))"

text \<open>The \<open>timedelta\<close> variant: a default is first floored to whole hours.\<close>

definition canonical_cycle_cadence ::
    "cadence_registry \<Rightarrow> string \<Rightarrow> int option \<Rightarrow> int result" where
  "canonical_cycle_cadence reg model_id default_if_unknown =
     bindE (canonical_cycle_cadence_hours reg model_id
             (map_option (\<lambda>us. us div us_per_hour) default_if_unknown))
           (\<lambda>h. Inr (hours h))"

definition register_canonical_cycle_cadence ::
    "string \<Rightarrow> int \<Rightarrow> cadence_registry \<Rightarrow> cadence_registry result" where
  "register_canonical_cycle_cadence model_id cadence_hours reg =
     (if cadence_hours \<le> 0 then Inl (ValueError ''Cycle cadence must be strictly positive'')
      else Inr (reg(norm_key model_id \<mapsto> cadence_hours)))"

definition is_cycle_cadence_registered :: "cadence_registry \<Rightarrow> string \<Rightarrow> bool" where
  "is_cycle_cadence_registered reg model_id = (norm_key model_id \<in> dom reg)"

interpretation cadence: registry
  "\<lambda>reg m. canonical_cycle_cadence_hours reg m None" is_cycle_cadence_registered
  register_canonical_cycle_cadence "\<lambda>h. 0 < h"
  by unfold_locales
    (auto simp: canonical_cycle_cadence_hours_def is_cycle_cadence_registered_def
      register_canonical_cycle_cadence_def domIff split: option.splits if_splits)

definition cadence_wf :: "cadence_registry \<Rightarrow> bool" where
  "cadence_wf reg = (\<forall>h \<in> ran reg. 0 < h)"

lemma cadence_wf_default: "cadence_wf default_cadences"
  by (auto simp: cadence_wf_def default_cadences_def ran_def split: if_splits)

lemma cadence_wf_register:
  "cadence_wf reg \<Longrightarrow> register_canonical_cycle_cadence m h reg = Inr reg' \<Longrightarrow> cadence_wf reg'"
  unfolding cadence_wf_def register_canonical_cycle_cadence_def ran_def
  by (simp split: if_splits) (metis (mono_tags, lifting) fun_upd_apply not_less option.inject)

lemma cadence_hours_positive:
  "cadence_wf reg \<Longrightarrow> canonical_cycle_cadence_hours reg m d = Inr h \<Longrightarrow> 0 < h"
  by (auto simp: cadence_wf_def canonical_cycle_cadence_hours_def ran_def
      split: option.splits if_splits)

end
