(* ===== verification/Horizon.thy ===== *)
theory Horizon
  imports Registry PyTime
begin

text \<open>
  \<open>domain/horizon.py\<close>: the canonical lead horizon registry, one ordered lead sequence per
  model (\<open>MODEL_CANONICAL_HORIZONS\<close>) and per (model, version) (\<open>MODEL_VERSION_HORIZONS\<close>).
  The invariant \<open>horizon_wf\<close> says every registered sequence is non-empty, non-negative and
  strictly increasing; the defaults satisfy it and every registration keeps it.
\<close>

definition CANONICAL_LEAD_CADENCE_HOURS :: int where "CANONICAL_LEAD_CADENCE_HOURS = 3"

definition CANONICAL_MAX_LEAD_HOURS :: int where "CANONICAL_MAX_LEAD_HOURS = 240"

definition build_lead_sequence :: "int \<Rightarrow> int \<Rightarrow> int \<Rightarrow> int list" where
  "build_lead_sequence start_hour cadence_hours max_hour =
     py_range start_hour (max_hour + 1) cadence_hours"

record horizon_registry =
  model_horizons :: "string \<rightharpoonup> int list"
  version_horizons :: "string \<times> string \<rightharpoonup> int list"

definition canonical_sequence :: "int list" where
  "canonical_sequence =
     build_lead_sequence 0 CANONICAL_LEAD_CADENCE_HOURS CANONICAL_MAX_LEAD_HOURS"

definition default_horizons :: horizon_registry where
  "default_horizons = \<lparr>
     model_horizons = [''gfs'' \<mapsto> canonical_sequence, ''gefs'' \<mapsto> canonical_sequence],
     version_horizons = [(''gfs'', ''v1.0'') \<mapsto> canonical_sequence,
                         (''gefs'', ''v1.0'') \<mapsto> canonical_sequence]\<rparr>"

definition register_canonical_lead_horizon ::
    "string \<Rightarrow> int list \<Rightarrow> string option \<Rightarrow> horizon_registry \<Rightarrow> horizon_registry result" where
  "register_canonical_lead_horizon model_id leads version_string reg =
     (if leads = [] then Inl (ValueError ''canonical lead horizon must not be empty'')
      else if \<exists>l \<in> set leads. l < 0
        then Inl (ValueError ''canonical lead horizon must be non-negative'')
      else if \<exists>(a, b) \<in> set (zip leads (tl leads)). b \<le> a
        then Inl (ValueError ''canonical lead horizon must be strictly increasing'')
      else
        let m = norm_key model_id;
            reg1 = (case version_string of
                      None \<Rightarrow> reg
                    | Some v \<Rightarrow> reg\<lparr>version_horizons :=
                        (version_horizons reg)((m, norm_key v) \<mapsto> leads)\<rparr>)
        in Inr (reg1\<lparr>model_horizons := (model_horizons reg1)(m \<mapsto> leads)\<rparr>))"

definition is_canonical_lead_horizon_registered :: "horizon_registry \<Rightarrow> string \<Rightarrow> bool" where
  "is_canonical_lead_horizon_registered reg model_id =
     (norm_key model_id \<in> dom (model_horizons reg))"

definition canonical_lead_time_hours ::
    "horizon_registry \<Rightarrow> string \<Rightarrow> string option \<Rightarrow> int list option \<Rightarrow> int list result" where
  "canonical_lead_time_hours reg model_id version_string default_if_unknown =
     (let m = norm_key model_id;
          by_model = (case model_horizons reg m of
              Some leads \<Rightarrow> Inr leads
            | None \<Rightarrow> (case default_if_unknown of
                Some leads \<Rightarrow> Inr leads
              | None \<Rightarrow> Inl (ValueError ''Unknown model identifier'')))
      in case version_string of
           None \<Rightarrow> by_model
         | Some v \<Rightarrow> (case version_horizons reg (m, norm_key v) of
               Some leads \<Rightarrow> Inr leads
             | None \<Rightarrow> by_model))"

text \<open>\<open>leads[-1]\<close>\<close>

definition last_index :: "'a list \<Rightarrow> 'a result" where
  "last_index xs = (if xs = [] then Inl (IndexError ''tuple index out of range'') else Inr (last xs))"

definition model_max_lead_hours ::
    "horizon_registry \<Rightarrow> string \<Rightarrow> string option \<Rightarrow> int option \<Rightarrow> int result" where
  "model_max_lead_hours reg model_id version_string default_if_unknown =
     bindE (canonical_lead_time_hours reg model_id version_string
             (map_option (\<lambda>d. [0, d]) default_if_unknown))
           last_index"

definition max_model_lead_hours ::
    "horizon_registry \<Rightarrow> string list \<Rightarrow> string option \<Rightarrow> int option \<Rightarrow> int result" where
  "max_model_lead_hours reg model_ids version_string default_if_unknown =
     bindE (mapE (\<lambda>m. model_max_lead_hours reg m version_string default_if_unknown) model_ids)
           (\<lambda>leads. if leads = [] then Inl (ValueError ''model_ids must not be empty'')
                    else Inr (Max (set leads)))"

subsection \<open>Well-formed horizons\<close>

definition valid_horizon :: "int list \<Rightarrow> bool" where
  "valid_horizon leads \<longleftrightarrow> leads \<noteq> [] \<and> (\<forall>l \<in> set leads. 0 \<le> l) \<and> sorted_wrt (<) leads"

definition horizon_wf :: "horizon_registry \<Rightarrow> bool" where
  "horizon_wf reg \<longleftrightarrow> (\<forall>leads \<in> ran (model_horizons reg) \<union> ran (version_horizons reg).
     valid_horizon leads)"

lemma adjacent_increasing_iff:
  "(\<forall>(a, b) \<in> set (zip xs (tl xs)). a < b) \<longleftrightarrow> sorted_wrt (<) (xs :: int list)"
proof (induction xs)
  case (Cons x xs)
  show ?case
  proof (cases xs)
    case (Cons y ys)
    with Cons.IH show ?thesis by (simp add: sorted_wrt2 del: sorted_wrt.simps(2))
  qed simp
qed simp

lemma register_horizon_valid_iff:
  "(\<exists>r'. register_canonical_lead_horizon m leads v r = Inr r') \<longleftrightarrow> valid_horizon leads"
proof -
  have "(\<exists>(a, b) \<in> set (zip leads (tl leads)). b \<le> a) \<longleftrightarrow> \<not> sorted_wrt (<) leads"
    unfolding adjacent_increasing_iff [symmetric] by fastforce
  moreover have "(\<exists>l \<in> set leads. l < 0) \<longleftrightarrow> \<not> (\<forall>l \<in> set leads. 0 \<le> l)" by force
  ultimately show ?thesis
    by (simp add: register_canonical_lead_horizon_def valid_horizon_def Let_def)
qed

lemma register_horizon_eq:
  assumes "register_canonical_lead_horizon m leads v r = Inr r'"
  shows "valid_horizon leads"
    and "model_horizons r' = (model_horizons r)(norm_key m \<mapsto> leads)"
    and "version_horizons r' = (case v of None \<Rightarrow> version_horizons r
           | Some w \<Rightarrow> (version_horizons r)((norm_key m, norm_key w) \<mapsto> leads))"
proof -
  show "valid_horizon leads" using assms register_horizon_valid_iff by blast
  show "model_horizons r' = (model_horizons r)(norm_key m \<mapsto> leads)"
    "version_horizons r' = (case v of None \<Rightarrow> version_horizons r
       | Some w \<Rightarrow> (version_horizons r)((norm_key m, norm_key w) \<mapsto> leads))"
    using assms by (auto simp: register_canonical_lead_horizon_def Let_def
        split: if_splits option.splits)
qed

interpretation horizon: registry
  "\<lambda>reg m. canonical_lead_time_hours reg m None None" is_canonical_lead_horizon_registered
  "\<lambda>m leads. register_canonical_lead_horizon m leads None" valid_horizon
proof unfold_locales
  show "valid_horizon v \<Longrightarrow> \<exists>r'. register_canonical_lead_horizon m v None r = Inr r'" for v m r
    by (simp add: register_horizon_valid_iff)
  show "\<not> valid_horizon v \<Longrightarrow> \<exists>e. register_canonical_lead_horizon m v None r = Inl e" for v m r
    using register_horizon_valid_iff [of m v None r]
    by (cases "register_canonical_lead_horizon m v None r") auto
qed (auto simp: canonical_lead_time_hours_def is_canonical_lead_horizon_registered_def
    Let_def domIff register_horizon_eq(2) split: option.splits)

lemma ran_upd_subset: "ran (f(k \<mapsto> v)) \<subseteq> insert v (ran f)"
  by (auto simp: ran_def)

lemma register_horizon_wf:
  assumes "horizon_wf r" "register_canonical_lead_horizon m leads v r = Inr r'"
  shows "horizon_wf r'"
proof -
  have "ran (model_horizons r') \<subseteq> insert leads (ran (model_horizons r))"
    "ran (version_horizons r') \<subseteq> insert leads (ran (version_horizons r))"
    unfolding register_horizon_eq(2,3) [OF assms(2)]
    by (auto simp: ran_upd_subset split: option.split intro: subsetD [OF ran_upd_subset])
  with assms(1) register_horizon_eq(1) [OF assms(2)] show ?thesis
    unfolding horizon_wf_def by blast
qed

lemma set_canonical_sequence:
  "l \<in> set canonical_sequence \<longleftrightarrow> 0 \<le> l \<and> l \<le> 240 \<and> l mod 3 = 0"
  by (auto simp: canonical_sequence_def build_lead_sequence_def set_py_range
      CANONICAL_LEAD_CADENCE_HOURS_def CANONICAL_MAX_LEAD_HOURS_def)

lemma canonical_sequence_valid: "valid_horizon canonical_sequence"
proof -
  have "canonical_sequence \<noteq> []" using set_canonical_sequence [of 0] by auto
  moreover have "sorted_wrt (<) canonical_sequence"
    by (simp add: canonical_sequence_def build_lead_sequence_def py_range_sorted
        CANONICAL_LEAD_CADENCE_HOURS_def)
  ultimately show ?thesis by (simp add: valid_horizon_def set_canonical_sequence)
qed

lemma horizon_wf_default: "horizon_wf default_horizons"
  using canonical_sequence_valid
  by (auto simp: horizon_wf_def default_horizons_def ran_def split: if_splits)

lemma canonical_lead_valid:
  assumes "horizon_wf r" "canonical_lead_time_hours r m v None = Inr leads"
  shows "valid_horizon leads"
  using assms
  by (fastforce simp: horizon_wf_def canonical_lead_time_hours_def Let_def ran_def
      split: option.splits)

lemma valid_horizon_last: "valid_horizon leads \<Longrightarrow> l \<in> set leads \<Longrightarrow> l \<le> last leads"
proof (induction leads rule: rev_induct)
  case (snoc x xs)
  then show ?case by (cases "xs = []") (auto simp: valid_horizon_def sorted_wrt_append)
qed simp

lemma canonical_sequence_length: "length canonical_sequence = 81"
  by (simp add: canonical_sequence_def build_lead_sequence_def py_range_def range_count_def
      CANONICAL_LEAD_CADENCE_HOURS_def CANONICAL_MAX_LEAD_HOURS_def)

lemma canonical_sequence_nth: "i < 81 \<Longrightarrow> canonical_sequence ! i = 3 * int i"
  by (simp add: canonical_sequence_def build_lead_sequence_def py_range_def range_count_def
      CANONICAL_LEAD_CADENCE_HOURS_def CANONICAL_MAX_LEAD_HOURS_def)

lemma last_canonical_sequence: "last canonical_sequence = 240"
  using canonical_sequence_length canonical_sequence_nth [of 80]
  by (subst last_conv_nth) auto

lemma model_max_lead_eq:
  "model_max_lead_hours r m v None = Inr x \<longleftrightarrow>
     (\<exists>leads. canonical_lead_time_hours r m v None = Inr leads \<and> leads \<noteq> [] \<and> x = last leads)"
  by (auto simp: model_max_lead_hours_def bindE_eq_Inr last_index_def)

end
