(* ===== verification/PyFloat.thy ===== *)
theory PyFloat
  imports Prelude
begin

text \<open>
  Python \<open>float\<close> values: a real number, an infinity, or NaN. Comparisons follow IEEE 754
  (any comparison with NaN is false); arithmetic on finite values is exact (rounding is not
  modelled), and the infinities and NaN propagate as IEEE prescribes.
\<close>

datatype pyfloat = Fin real | PInf | NInf | NaN

fun f_le :: "pyfloat \<Rightarrow> pyfloat \<Rightarrow> bool" where
  "f_le NaN y = False"
| "f_le x NaN = False"
| "f_le NInf y = True"
| "f_le x PInf = True"
| "f_le (Fin a) (Fin b) = (a \<le> b)"
| "f_le x y = False"

definition f_lt :: "pyfloat \<Rightarrow> pyfloat \<Rightarrow> bool" where
  "f_lt x y = (f_le x y \<and> \<not> f_le y x)"

definition is_nan :: "pyfloat \<Rightarrow> bool" where "is_nan x = (x = NaN)"

definition is_finite :: "pyfloat \<Rightarrow> bool" where
  "is_finite x = (case x of Fin r \<Rightarrow> True | _ \<Rightarrow> False)"

fun f_neg :: "pyfloat \<Rightarrow> pyfloat" where
  "f_neg (Fin a) = Fin (- a)"
| "f_neg PInf = NInf"
| "f_neg NInf = PInf"
| "f_neg NaN = NaN"

fun f_add :: "pyfloat \<Rightarrow> pyfloat \<Rightarrow> pyfloat" where
  "f_add (Fin a) (Fin b) = Fin (a + b)"
| "f_add NaN y = NaN"
| "f_add x NaN = NaN"
| "f_add PInf NInf = NaN"
| "f_add NInf PInf = NaN"
| "f_add PInf y = PInf"
| "f_add NInf y = NInf"
| "f_add (Fin a) y = y"

definition f_sub :: "pyfloat \<Rightarrow> pyfloat \<Rightarrow> pyfloat" where
  "f_sub x y = f_add x (f_neg y)"

text \<open>Multiplication and division by a finite real scalar.\<close>

definition f_scale :: "real \<Rightarrow> pyfloat \<Rightarrow> pyfloat" where
  "f_scale c x = (case x of
      Fin a \<Rightarrow> Fin (c * a)
    | NaN \<Rightarrow> NaN
    | PInf \<Rightarrow> (if c = 0 then NaN else if 0 < c then PInf else NInf)
    | NInf \<Rightarrow> (if c = 0 then NaN else if 0 < c then NInf else PInf))"

text \<open>\<open>round(x)\<close> of a float: to the nearest integer, ties to even.\<close>

definition py_round :: "real \<Rightarrow> int" where
  "py_round x = (let f = \<lfloor>x\<rfloor>; d = x - of_int f
     in if d < 1/2 then f else if 1/2 < d then f + 1 else if even f then f else f + 1)"

text \<open>\<open>int(round(x))\<close> for any float: NaN and the infinities raise.\<close>

definition int_round :: "pyfloat \<Rightarrow> int result" where
  "int_round x = (case x of
      Fin r \<Rightarrow> Inr (py_round r)
    | NaN \<Rightarrow> Inl (ValueError ''cannot convert float NaN to integer'')
    | PInf \<Rightarrow> Inl (OverflowError ''cannot convert float infinity to integer'')
    | NInf \<Rightarrow> Inl (OverflowError ''cannot convert float infinity to integer''))"

lemma f_lt_Fin [simp]: "f_lt (Fin a) (Fin b) \<longleftrightarrow> a < b"
  by (auto simp: f_lt_def)

lemma f_le_NaN [simp]: "f_le x NaN = False" "f_lt x NaN = False" "f_lt NaN x = False"
  by (cases x; simp add: f_lt_def)+

lemma py_round_of_int [simp]: "py_round (of_int k) = k"
  by (simp add: py_round_def)

lemma py_round_bounds: "of_int (py_round x) \<le> x + 1/2" "x - 1/2 \<le> of_int (py_round x)"
  unfolding py_round_def Let_def by (auto; linarith)+

lemma py_round_ge_int: "of_int k \<le> x \<Longrightarrow> k \<le> py_round x"
  unfolding py_round_def Let_def by (auto simp: le_floor_iff; linarith)

lemma py_round_le_int: "x \<le> of_int k \<Longrightarrow> py_round x \<le> k"
  unfolding py_round_def Let_def
  by (cases "of_int \<lfloor>x\<rfloor> = x") (auto simp: le_floor_iff floor_le_iff; linarith)+

end
