(* ===== verification/Coverage.thy ===== *)
theory Coverage
  imports Registry PyFloat
begin

text \<open>
  \<open>domain/coverage.py\<close>: expected members per model, the coverage threshold and the serving
  rules over them. \<open>MODEL_EXPECTED_MEMBERS\<close> and \<open>_current_min_coverage_ratio\<close> are the two
  module-level variables of \<open>coverage_state\<close>. The environment lookup of the initial ratio is
  not modelled: a state is whatever \<open>set_min_coverage_ratio\<close> accepted, the default 0.85 first.
  Ratios are \<open>pyfloat\<close>; \<open>int(round(NaN))\<close> raises, so the rules return a \<open>result\<close>.
\<close>

definition DEFAULT_MIN_COVERAGE_RATIO :: pyfloat where
  "DEFAULT_MIN_COVERAGE_RATIO = Fin (85/100)"

record coverage_state =
  expected_members_map :: "string \<rightharpoonup> int"
  min_coverage_ratio :: pyfloat

definition default_coverage :: coverage_state where
  "default_coverage = \<lparr>expected_members_map = [''gfs'' \<mapsto> 1, ''gefs'' \<mapsto> 30],
                       min_coverage_ratio = DEFAULT_MIN_COVERAGE_RATIO\<rparr>"

definition validate_coverage_ratio :: "pyfloat \<Rightarrow> pyfloat result" where
  "validate_coverage_ratio ratio =
     (if f_le ratio (Fin 0) \<or> f_lt (Fin 1) ratio
      then Inl (ValueError ''ENSEMBLE_MIN_COVERAGE_RATIO must be in (0, 1]'') else Inr ratio)"

definition get_min_coverage_ratio :: "coverage_state \<Rightarrow> pyfloat" where
  "get_min_coverage_ratio cov = min_coverage_ratio cov"

definition set_min_coverage_ratio :: "pyfloat \<Rightarrow> coverage_state \<Rightarrow> coverage_state result" where
  "set_min_coverage_ratio ratio cov =
     bindE (validate_coverage_ratio ratio) (\<lambda>r. Inr (cov\<lparr>min_coverage_ratio := r\<rparr>))"

definition register_expected_members ::
    "string \<Rightarrow> int \<Rightarrow> coverage_state \<Rightarrow> coverage_state result" where
  "register_expected_members model_id count cov =
     (if count \<le> 0 then Inl (ValueError ''expected_members must be positive'')
      else Inr (cov\<lparr>expected_members_map :=
                  (expected_members_map cov)(norm_key model_id \<mapsto> count)\<rparr>))"

definition is_expected_members_registered :: "coverage_state \<Rightarrow> string \<Rightarrow> bool" where
  "is_expected_members_registered cov model_id =
     (norm_key model_id \<in> dom (expected_members_map cov))"

definition get_expected_members ::
    "coverage_state \<Rightarrow> string \<Rightarrow> int option \<Rightarrow> int result" where
  "get_expected_members cov model_id default_if_unknown =
     (case expected_members_map cov (norm_key model_id) of
        Some n \<Rightarrow> Inr n
      | None \<Rightarrow> (case default_if_unknown of
            Some d \<Rightarrow> Inr d
          | None \<Rightarrow> Inl (ValueError ''Unknown model identifier'')))"

interpretation members: registry
  "\<lambda>cov m. get_expected_members cov m None" is_expected_members_registered
  register_expected_members "\<lambda>n. 0 < n"
  by unfold_locales
    (auto simp: get_expected_members_def is_expected_members_registered_def
      register_expected_members_def domIff split: option.splits if_splits)

text \<open>\<open>int(round(threshold * 10000))\<close>\<close>

definition threshold_scaled :: "coverage_state \<Rightarrow> pyfloat option \<Rightarrow> int result" where
  "threshold_scaled cov override =
     int_round (f_scale 10000
       (case override of Some r \<Rightarrow> r | None \<Rightarrow> get_min_coverage_ratio cov))"

definition is_lead_servable ::
    "coverage_state \<Rightarrow> int \<Rightarrow> int \<Rightarrow> pyfloat option \<Rightarrow> bool result" where
  "is_lead_servable cov available_members expected_members override =
     (if expected_members \<le> 0 \<or> available_members < 0 then Inr False
      else bindE (threshold_scaled cov override)
             (\<lambda>t. Inr (expected_members * t \<le> available_members * 10000)))"

definition is_cell_statistically_valid ::
    "coverage_state \<Rightarrow> int \<Rightarrow> int \<Rightarrow> pyfloat option \<Rightarrow> bool result" where
  "is_cell_statistically_valid cov finite_cell_count expected_members override =
     (if expected_members \<le> 0 then Inr False
      else bindE (threshold_scaled cov override)
             (\<lambda>t. if finite_cell_count < 0 then Inr False
                  else Inr (expected_members * t \<le> finite_cell_count * 10000)))"

text \<open>\<open>round(x, 4)\<close>\<close>

definition round4 :: "real \<Rightarrow> real" where "round4 x = of_int (py_round (x * 10000)) / 10000"

definition compute_coverage_ratio :: "int \<Rightarrow> int \<Rightarrow> real" where
  "compute_coverage_ratio available_members expected_members =
     (if expected_members \<le> 0 \<or> available_members \<le> 0 then 0
      else round4 (min 1 (max 0 (of_int available_members / of_int expected_members))))"

record lead_coverage =
  lc_lead_time_hours :: int
  lc_available_members :: int
  lc_expected_members :: int
  lc_coverage_ratio :: real
  lc_servable :: bool
  lc_available_member_indices :: "int list"

definition build_lead_coverage ::
    "coverage_state \<Rightarrow> int \<Rightarrow> int list \<Rightarrow> int \<Rightarrow> pyfloat option \<Rightarrow> lead_coverage result" where
  "build_lead_coverage cov lead_time_hours available_member_indices expected_members override =
     (let sorted_indices = sort available_member_indices;
          avail_count = int (length sorted_indices);
          ratio = compute_coverage_ratio avail_count expected_members
      in bindE (is_lead_servable cov avail_count expected_members override)
           (\<lambda>servable. Inr \<lparr>lc_lead_time_hours = lead_time_hours,
              lc_available_members = avail_count,
              lc_expected_members = expected_members,
              lc_coverage_ratio = ratio,
              lc_servable = servable,
              lc_available_member_indices = sorted_indices\<rparr>))"

subsection \<open>The threshold\<close>

definition coverage_ok :: "coverage_state \<Rightarrow> bool" where
  "coverage_ok cov \<longleftrightarrow> (\<exists>r. min_coverage_ratio cov = Fin r \<and> 0 < r \<and> r \<le> 1)"

definition ratio_in_range :: "pyfloat \<Rightarrow> bool" where
  "ratio_in_range x \<longleftrightarrow> (\<exists>r. x = Fin r \<and> 0 < r \<and> r \<le> 1)"

lemma coverage_ok_default: "coverage_ok default_coverage"
  unfolding coverage_ok_def
  by (rule exI [of _ "85/100"]) (simp add: default_coverage_def DEFAULT_MIN_COVERAGE_RATIO_def)

lemma threshold_default: "threshold_scaled default_coverage None = Inr 8500"
  by (simp add: threshold_scaled_def default_coverage_def DEFAULT_MIN_COVERAGE_RATIO_def
      get_min_coverage_ratio_def f_scale_def int_round_def py_round_def)

lemma int_round_Fin [simp]: "int_round (f_scale c (Fin r)) = Inr (py_round (c * r))"
  by (simp add: int_round_def f_scale_def)

lemma threshold_scaled_ok:
  assumes "coverage_ok cov" "\<And>x. override = Some x \<Longrightarrow> ratio_in_range x"
  shows "\<exists>t. threshold_scaled cov override = Inr t \<and> 0 \<le> t \<and> t \<le> 10000"
proof -
  obtain r where "(case override of Some r \<Rightarrow> r | None \<Rightarrow> get_min_coverage_ratio cov) = Fin r"
    and r: "0 < r" "r \<le> 1"
    using assms by (cases override)
      (auto simp: coverage_ok_def ratio_in_range_def get_min_coverage_ratio_def)
  then have "threshold_scaled cov override = Inr (py_round (10000 * r))"
    by (simp add: threshold_scaled_def)
  moreover have "0 \<le> py_round (10000 * r)" using r by (intro py_round_ge_int) simp
  moreover have "py_round (10000 * r) \<le> 10000" using r by (intro py_round_le_int) simp
  ultimately show ?thesis by blast
qed

lemma is_lead_servable_total:
  assumes "coverage_ok cov" "\<And>x. override = Some x \<Longrightarrow> ratio_in_range x"
  shows "\<exists>b. is_lead_servable cov a e override = Inr b"
proof -
  from assms obtain t where "threshold_scaled cov override = Inr t"
    using threshold_scaled_ok by blast
  then show ?thesis by (cases "e \<le> 0 \<or> a < 0") (auto simp: is_lead_servable_def)
qed

lemma is_lead_servable_mono:
  assumes "is_lead_servable cov a e ov = Inr True" "a \<le> a'"
  shows "is_lead_servable cov a' e ov = Inr True"
  using assms by (auto simp: is_lead_servable_def bindE_eq_Inr split: if_splits)

lemma servable_default_iff:
  "is_lead_servable default_coverage a e None = Inr (0 < e \<and> 0 \<le> a \<and> 85 * e \<le> 100 * a)"
  by (auto simp: is_lead_servable_def threshold_default)

lemma compute_coverage_ratio_bounds:
  "0 \<le> compute_coverage_ratio a e" "compute_coverage_ratio a e \<le> 1"
proof -
  have "0 \<le> round4 x \<and> round4 x \<le> 1" if "0 \<le> x" "x \<le> 1" for x
  proof -
    have "0 \<le> py_round (x * 10000)" "py_round (x * 10000) \<le> 10000"
      using that by (auto intro: py_round_ge_int py_round_le_int)
    then show ?thesis by (simp add: round4_def)
  qed
  then show "0 \<le> compute_coverage_ratio a e" "compute_coverage_ratio a e \<le> 1"
    by (simp_all add: compute_coverage_ratio_def)
qed

text \<open>A servable lead never reports a ratio below the threshold.\<close>

lemma servable_ratio:
  assumes "is_lead_servable cov a e ov = Inr True" "threshold_scaled cov ov = Inr t"
    "t \<le> 10000" "0 < t"
  shows "of_int t / 10000 \<le> compute_coverage_ratio a e"
proof -
  from assms(1,2) have e: "0 < e" and a: "0 \<le> a" and le: "e * t \<le> a * 10000"
    by (auto simp: is_lead_servable_def split: if_splits)
  from e assms(4) have "0 < e * t" by simp
  with le have "0 < a" by linarith
  have "of_int t * (of_int e :: real) \<le> of_int a * 10000"
    using le by (metis mult.commute of_int_le_iff of_int_mult of_int_numeral)
  then have "of_int t \<le> (of_int a / of_int e :: real) * 10000"
    using e by (simp add: field_simps)
  then have "of_int t \<le> min 1 (max 0 (of_int a / of_int e :: real)) * 10000"
    using assms(3) \<open>0 < a\<close> e by (simp add: min_def max_def)
  then have "t \<le> py_round (min 1 (max 0 (of_int a / of_int e)) * 10000)"
    by (rule py_round_ge_int)
  then show ?thesis
    using \<open>0 < a\<close> e by (simp add: compute_coverage_ratio_def round4_def divide_right_mono)
qed

end
