(* ===== verification/Registration.thy ===== *)
theory Registration
  imports Cadence Horizon Coverage
begin

text \<open>
  \<open>domain/model_registration.py\<close>: the audit that reports, per registry, which models are
  missing. \<open>audit_model_registration\<close> reads the three registries through their membership
  predicates; the registry contract turns its verdict into "the lookup raises".
\<close>

record model_registration_audit =
  missing_horizon :: "string list"
  missing_cadence :: "string list"
  missing_expected_members :: "string list"

definition audit_is_clean :: "model_registration_audit \<Rightarrow> bool" where
  "audit_is_clean a =
     (\<not> (missing_horizon a \<noteq> [] \<or> missing_cadence a \<noteq> [] \<or> missing_expected_members a \<noteq> []))"

definition audit_has_fatal :: "model_registration_audit \<Rightarrow> bool" where
  "audit_has_fatal a = (missing_horizon a \<noteq> [])"

definition audited_models :: "model_registration_audit \<Rightarrow> string list" where
  "audited_models a = sorted_list_of_set
     (set (missing_horizon a) \<union> set (missing_cadence a) \<union> set (missing_expected_members a))"

definition audit_describe :: "model_registration_audit \<Rightarrow> string" where
  "audit_describe a =
     (if audit_is_clean a then ''all audited models are registered''
      else ''unregistered model contracts: '' @ py_join ''; ''
        ((if missing_horizon a \<noteq> [] then
            [''canonical horizon (FATAL: ingestion and reclamation raise) for ''
               @ py_join '', '' (missing_horizon a)] else [])
         @ (if missing_cadence a \<noteq> [] then
            [''cycle cadence (assumes 6h) for '' @ py_join '', '' (missing_cadence a)] else [])
         @ (if missing_expected_members a \<noteq> [] then
            [''expected members (assumes caller default) for ''
               @ py_join '', '' (missing_expected_members a)] else [])))"

definition audit_model_registration ::
    "horizon_registry \<Rightarrow> cadence_registry \<Rightarrow> coverage_state \<Rightarrow> string list
       \<Rightarrow> model_registration_audit" where
  "audit_model_registration hz cad cov model_ids =
     (let normalized = sorted_list_of_set (norm_key ` {m \<in> set model_ids. m \<noteq> []})
      in \<lparr>missing_horizon =
            filter (\<lambda>m. \<not> is_canonical_lead_horizon_registered hz m) normalized,
          missing_cadence = filter (\<lambda>m. \<not> is_cycle_cadence_registered cad m) normalized,
          missing_expected_members =
            filter (\<lambda>m. \<not> is_expected_members_registered cov m) normalized\<rparr>)"

lemma set_normalized: "set (sorted_list_of_set (norm_key ` {m \<in> set ids. m \<noteq> []}))
    = norm_key ` {m \<in> set ids. m \<noteq> []}"
  by simp

lemma set_missing:
  "set (missing_horizon (audit_model_registration hz cad cov ids)) =
     norm_key ` {m \<in> set ids. m \<noteq> [] \<and> \<not> is_canonical_lead_horizon_registered hz m}"
  "set (missing_cadence (audit_model_registration hz cad cov ids)) =
     norm_key ` {m \<in> set ids. m \<noteq> [] \<and> \<not> is_cycle_cadence_registered cad m}"
  "set (missing_expected_members (audit_model_registration hz cad cov ids)) =
     norm_key ` {m \<in> set ids. m \<noteq> [] \<and> \<not> is_expected_members_registered cov m}"
  by (auto simp: audit_model_registration_def Let_def)

lemma audit_missing_empty_iff:
  "missing_horizon (audit_model_registration hz cad cov ids) = [] \<longleftrightarrow>
     (\<forall>m \<in> set ids. m \<noteq> [] \<longrightarrow> is_canonical_lead_horizon_registered hz m)"
  "missing_cadence (audit_model_registration hz cad cov ids) = [] \<longleftrightarrow>
     (\<forall>m \<in> set ids. m \<noteq> [] \<longrightarrow> is_cycle_cadence_registered cad m)"
  "missing_expected_members (audit_model_registration hz cad cov ids) = [] \<longleftrightarrow>
     (\<forall>m \<in> set ids. m \<noteq> [] \<longrightarrow> is_expected_members_registered cov m)"
  by (simp_all add: set_empty [symmetric] set_missing del: set_empty) auto

end
