(* ===== verification/Temporal.thy ===== *)
theory Temporal
  imports Horizon
begin

text \<open>
  \<open>domain/temporal.py\<close>: interval variables and their lead-0 fallback, the serving-window left
  boundary, and the protected valid-time set. Functions that take a datetime check it is aware
  before converting it; the arithmetic is on UTC instants.
\<close>

subsection \<open>Interval variables\<close>

definition INTERVAL_LEAD0_FALLBACK_VARIABLES :: "string set" where
  "INTERVAL_LEAD0_FALLBACK_VARIABLES = {''precipitation_amount_3h'', ''cloud_cover_3h''}"

definition PRECIPITATION_COMPANION_VARIABLES :: "string set" where
  "PRECIPITATION_COMPANION_VARIABLES = {''crain'', ''csnow'', ''cfrzr'', ''cicep''}"

text \<open>\<open>variable.strip().lower()\<close>\<close>

definition clean_variable :: "string \<Rightarrow> string" where
  "clean_variable v = py_lower (py_strip v)"

definition requires_lead0_display_fallback :: "string option \<Rightarrow> bool" where
  "requires_lead0_display_fallback variable = (case variable of None \<Rightarrow> False
     | Some v \<Rightarrow> clean_variable v \<in> INTERVAL_LEAD0_FALLBACK_VARIABLES)"

definition is_precipitation_companion :: "string option \<Rightarrow> bool" where
  "is_precipitation_companion variable = (case variable of None \<Rightarrow> False
     | Some v \<Rightarrow> clean_variable v \<in> PRECIPITATION_COMPANION_VARIABLES)"

record variable_temporal_metadata =
  vtm_interval_width_hours :: int
  vtm_reset_period_hours :: int

definition VARIABLE_TEMPORAL_METADATA :: "string \<rightharpoonup> variable_temporal_metadata" where
  "VARIABLE_TEMPORAL_METADATA =
     [''precipitation_amount_3h'' \<mapsto> \<lparr>vtm_interval_width_hours = 3, vtm_reset_period_hours = 6\<rparr>,
      ''cloud_cover_3h'' \<mapsto> \<lparr>vtm_interval_width_hours = 3, vtm_reset_period_hours = 6\<rparr>]"

definition get_variable_temporal_metadata ::
    "string option \<Rightarrow> variable_temporal_metadata result" where
  "get_variable_temporal_metadata variable = (case variable of
      None \<Rightarrow> Inl (ValueError ''variable must not be None'')
    | Some v \<Rightarrow> (case VARIABLE_TEMPORAL_METADATA (clean_variable v) of
        None \<Rightarrow> Inl (ValueError ''No temporal metadata registered'')
      | Some md \<Rightarrow> Inr md))"

subsection \<open>The serving window\<close>

definition serving_start_valid_time :: "datetime \<Rightarrow> int \<Rightarrow> instant result" where
  "serving_start_valid_time now_utc cadence_hours =
     (if tzinfo now_utc = None
        then Inl (ValueError ''now_utc must be a timezone-aware datetime in UTC'')
      else if cadence_hours \<le> 0
        then Inl (ValueError ''cadence_hours must be strictly positive'')
      else
        let utc_dt = astimezone_utc now_utc;
            floored_hour = (hour_of utc_dt div cadence_hours) * cadence_hours
        in Inr (day_start utc_dt + hours floored_hour))"

text \<open>\<open>leads[1] - leads[0] if len(leads) > 1 else CANONICAL_LEAD_CADENCE_HOURS\<close>\<close>

definition grid_cadence :: "int list \<Rightarrow> int" where
  "grid_cadence leads = (case leads of
      l0 # l1 # ls \<Rightarrow> l1 - l0
    | _ \<Rightarrow> CANONICAL_LEAD_CADENCE_HOURS)"

definition model_serving_start_valid_time ::
    "horizon_registry \<Rightarrow> string \<Rightarrow> datetime \<Rightarrow> instant result" where
  "model_serving_start_valid_time reg model_id now_utc =
     bindE (canonical_lead_time_hours reg model_id None None)
       (\<lambda>leads. serving_start_valid_time now_utc (grid_cadence leads))"

definition is_valid_time_on_horizon_grid ::
    "horizon_registry \<Rightarrow> datetime \<Rightarrow> string option \<Rightarrow> int option \<Rightarrow> bool result" where
  "is_valid_time_on_horizon_grid reg valid_time model_id cadence_hours =
     (if tzinfo valid_time = None
        then Inl (ValueError ''valid_time must be timezone-aware'')
      else
        bindE (case cadence_hours of
                 Some c \<Rightarrow> Inr c
               | None \<Rightarrow> (case model_id of
                   Some m \<Rightarrow> bindE (canonical_lead_time_hours reg m None None)
                               (\<lambda>leads. Inr (grid_cadence leads))
                 | None \<Rightarrow> Inr CANONICAL_LEAD_CADENCE_HOURS))
          (\<lambda>c. let vt = astimezone_utc valid_time
               in if minute_of vt = 0 \<and> second_of vt = 0 \<and> microsecond_of vt = 0
                  then if c = 0 then Inl ZeroDivisionError else Inr (hour_of vt mod c = 0)
                  else Inr False))"

definition is_valid_time_protected ::
    "horizon_registry \<Rightarrow> datetime \<Rightarrow> datetime \<Rightarrow> string option \<Rightarrow> int \<Rightarrow> bool result" where
  "is_valid_time_protected reg valid_time now_utc model_id cadence_hours =
     (if tzinfo valid_time = None
        then Inl (ValueError ''valid_time must be timezone-aware'')
      else
        bindE (case model_id of
                 None \<Rightarrow> Inr True
               | Some m \<Rightarrow> is_valid_time_on_horizon_grid reg valid_time (Some m) None)
          (\<lambda>on_grid. if \<not> on_grid then Inr False
             else bindE (serving_start_valid_time now_utc cadence_hours)
                    (\<lambda>start. Inr (start \<le> astimezone_utc valid_time))))"

definition protected_valid_times ::
    "horizon_registry \<Rightarrow> string \<Rightarrow> datetime \<Rightarrow> string option \<Rightarrow> instant list result" where
  "protected_valid_times reg model_id now_utc version_string =
     bindE (canonical_lead_time_hours reg model_id version_string None)
       (\<lambda>leads. bindE (serving_start_valid_time now_utc (grid_cadence leads))
         (\<lambda>start. bindE (last_index leads)
           (\<lambda>max_lead. bindE (py_rangeE 0 (max_lead + 1) (grid_cadence leads))
             (\<lambda>ls. Inr (map (\<lambda>lead. start + hours lead) ls)))))"

subsection \<open>The boundary as a function of UTC instants\<close>

definition floor_to_grid :: "int \<Rightarrow> instant \<Rightarrow> instant" where
  "floor_to_grid c t = day_start t + hours ((hour_of t div c) * c)"

lemma serving_start_eq:
  "tzinfo now = Some off \<Longrightarrow> 0 < c \<Longrightarrow>
     serving_start_valid_time now c = Inr (floor_to_grid c (astimezone_utc now))"
  by (simp add: serving_start_valid_time_def floor_to_grid_def Let_def)

lemma serving_start_InrD:
  "serving_start_valid_time now c = Inr s \<Longrightarrow>
     tzinfo now \<noteq> None \<and> 0 < c \<and> s = floor_to_grid c (astimezone_utc now)"
  by (auto simp: serving_start_valid_time_def floor_to_grid_def Let_def split: if_splits)

lemma floored_hour_bounds:
  assumes "0 < c"
  shows "0 \<le> (hour_of t div c) * c" "(hour_of t div c) * c \<le> hour_of t"
    "hour_of t < (hour_of t div c) * c + c"
proof -
  have "0 \<le> hour_of t div c"
    using assms hour_of_bounds(1) by (simp add: pos_imp_zdiv_nonneg_iff)
  with assms show "0 \<le> (hour_of t div c) * c" by simp
  show "(hour_of t div c) * c \<le> hour_of t" "hour_of t < (hour_of t div c) * c + c"
    using div_mult_mod_eq [of "hour_of t" c] pos_mod_sign [OF assms, of "hour_of t"]
      pos_mod_bound [OF assms, of "hour_of t"] by linarith+
qed

lemma floor_to_grid_le: "0 < c \<Longrightarrow> floor_to_grid c t \<le> t"
  using floored_hour_bounds(2) [of c t] instant_bounds(1) [of t]
  by (metis add_left_mono dual_order.trans floor_to_grid_def hours_le_iff(1))

lemma floor_to_grid_gt:
  assumes "0 < c" shows "t < floor_to_grid c t + hours c"
proof -
  have "hour_of t + 1 \<le> (hour_of t div c) * c + c"
    using floored_hour_bounds(3) [OF assms, of t] by simp
  then have "hours (hour_of t + 1) \<le> hours ((hour_of t div c) * c + c)"
    by (simp only: hours_le_iff)
  then show ?thesis
    using instant_bounds(2) [of t] by (simp add: floor_to_grid_def algebra_simps)
qed

lemma floor_to_grid_fields:
  assumes "0 < c"
  shows "day_start (floor_to_grid c t) = day_start t"
    "hour_of (floor_to_grid c t) = (hour_of t div c) * c"
    "floor_to_grid c t mod us_per_hour = 0"
proof -
  have *: "(hour_of t div c) * c < 24"
    using floored_hour_bounds(2) [OF assms, of t] hour_of_bounds(2) [of t] by linarith
  show "day_start (floor_to_grid c t) = day_start t"
    "hour_of (floor_to_grid c t) = (hour_of t div c) * c"
    "floor_to_grid c t mod us_per_hour = 0"
    unfolding floor_to_grid_def
    by (rule day_start_hours [OF floored_hour_bounds(1) [OF assms] *])+
qed

lemma floor_to_grid_idem:
  assumes "0 < c" shows "floor_to_grid c (floor_to_grid c t) = floor_to_grid c t"
  using assms by (simp add: floor_to_grid_def [of c "floor_to_grid c t"] floor_to_grid_fields)
    (simp add: floor_to_grid_def)

lemma floor_to_grid_mono:
  assumes "0 < c" "s \<le> t" shows "floor_to_grid c s \<le> floor_to_grid c t"
proof (cases "day_start s = day_start t")
  case True
  then have "hour_of s div c \<le> hour_of t div c"
    using hour_of_mono [OF assms(2)] assms(1) by (simp add: zdiv_mono1)
  with True assms(1) show ?thesis by (simp add: floor_to_grid_def mult_right_mono)
next
  case False
  with day_start_mono [OF assms(2)] have "day_start s + us_per_day \<le> day_start t"
    by (intro day_gap) simp
  moreover have "hours ((hour_of s div c) * c) \<le> us_per_day"
    using floored_hour_bounds(2) [OF assms(1), of s] hour_of_bounds(2) [of s]
    by (simp add: us_per_day_hours)
  moreover have "0 \<le> hours ((hour_of t div c) * c)"
    using floored_hour_bounds(1) [OF assms(1), of t] by (simp add: us_per_hour_def)
  ultimately show ?thesis by (simp add: floor_to_grid_def)
qed

subsection \<open>Grid membership\<close>

definition on_grid :: "int \<Rightarrow> instant \<Rightarrow> bool" where
  "on_grid c t \<longleftrightarrow> t mod us_per_hour = 0 \<and> hour_of t mod c = 0"

lemma on_grid_dvd_iff:
  assumes "c dvd 24" shows "on_grid c t \<longleftrightarrow> hours c dvd t"
proof
  assume "on_grid c t"
  then have t: "us_per_hour dvd t" and "c dvd (t div us_per_hour) mod 24"
    by (auto simp: on_grid_def hour_of_alt dvd_eq_mod_eq_0)
  then have "c dvd t div us_per_hour" using assms by (simp add: dvd_mod_iff)
  then have "hours c dvd (t div us_per_hour) * us_per_hour" by simp
  with t show "hours c dvd t" by simp
next
  assume "hours c dvd t"
  then obtain k where "t = hours c * k" by (rule dvdE)
  then have "t = us_per_hour * (c * k)" by simp
  then show "on_grid c t"
    using assms by (simp add: on_grid_def hour_of_alt dvd_eq_mod_eq_0 [symmetric] dvd_mod_iff)
qed

lemma on_grid_floor: "0 < c \<Longrightarrow> on_grid c (floor_to_grid c t)"
  by (simp add: on_grid_def floor_to_grid_fields)

lemma valid_time_on_grid_eq:
  assumes "canonical_lead_time_hours reg m None None = Inr leads" "tzinfo vt \<noteq> None"
    "grid_cadence leads \<noteq> 0"
  shows "is_valid_time_on_horizon_grid reg vt (Some m) None
       = Inr (on_grid (grid_cadence leads) (astimezone_utc vt))"
  using assms on_the_hour_iff [of "astimezone_utc vt"]
  by (auto simp: is_valid_time_on_horizon_grid_def on_grid_def Let_def)

lemma valid_time_protected_eq:
  assumes "canonical_lead_time_hours reg m None None = Inr leads" "tzinfo vt \<noteq> None"
    "tzinfo now \<noteq> None" "0 < c" "grid_cadence leads \<noteq> 0"
  shows "is_valid_time_protected reg vt now (Some m) c
       = Inr (on_grid (grid_cadence leads) (astimezone_utc vt)
              \<and> floor_to_grid c (astimezone_utc now) \<le> astimezone_utc vt)"
  using assms valid_time_on_grid_eq [OF assms(1,2,5)]
  by (auto simp: is_valid_time_protected_def serving_start_eq)

lemma protected_InrD:
  assumes "is_valid_time_protected reg vt now (Some m) c = Inr b"
  shows "tzinfo vt \<noteq> None" "\<exists>leads. canonical_lead_time_hours reg m None None = Inr leads"
    "b \<Longrightarrow> tzinfo now \<noteq> None \<and> 0 < c"
  using assms
  by (auto simp: is_valid_time_protected_def is_valid_time_on_horizon_grid_def bindE_eq_Inr
      serving_start_valid_time_def split: if_splits)

lemma grid_cadence_pos: "valid_horizon leads \<Longrightarrow> 0 < grid_cadence leads"
  by (auto simp: grid_cadence_def valid_horizon_def CANONICAL_LEAD_CADENCE_HOURS_def
      split: list.split)

lemma grid_cadence_canonical: "grid_cadence canonical_sequence = 3"
proof -
  have "canonical_sequence = 0 # 3 # drop 2 canonical_sequence"
    by (rule nth_equalityI)
      (auto simp: canonical_sequence_length canonical_sequence_nth nth_Cons split: nat.split)
  then show ?thesis unfolding grid_cadence_def by (metis diff_zero list.simps(5))
qed

lemma canonical_lead_gfs: "canonical_lead_time_hours default_horizons ''gfs'' None None = Inr canonical_sequence"
  by (simp add: canonical_lead_time_hours_def default_horizons_def)

lemma protected_valid_times_eq:
  assumes "canonical_lead_time_hours reg m ver None = Inr leads" "valid_horizon leads"
    "tzinfo now \<noteq> None"
  shows "protected_valid_times reg m now ver =
    Inr (map (\<lambda>lead. floor_to_grid (grid_cadence leads) (astimezone_utc now) + hours lead)
           (py_range 0 (last leads + 1) (grid_cadence leads)))"
  using assms grid_cadence_pos [OF assms(2)]
  by (auto simp: protected_valid_times_def serving_start_eq last_index_def py_rangeE_def
      valid_horizon_def)

lemma protected_range_iff:
  assumes "0 < c" "c dvd 24"
  shows "t \<in> set (map (\<lambda>lead. floor_to_grid c n + hours lead) (py_range 0 (m + 1) c)) \<longleftrightarrow>
    on_grid c t \<and> floor_to_grid c n \<le> t \<and> t \<le> floor_to_grid c n + hours m"
    (is "?L \<longleftrightarrow> ?R")
proof -
  have start: "hours c dvd floor_to_grid c n"
    using on_grid_floor [OF assms(1)] on_grid_dvd_iff [OF assms(2)] by blast
  show ?thesis
  proof
    assume ?L
    then obtain lead where t: "t = floor_to_grid c n + hours lead" "0 \<le> lead" "lead \<le> m" "c dvd lead"
      using assms(1) by (auto simp: set_py_range dvd_eq_mod_eq_0)
    then have "hours c dvd t" using start by (simp add: mult_dvd_mono)
    with t assms show ?R by (simp add: on_grid_dvd_iff us_per_hour_def)
  next
    assume R: ?R
    with assms have "hours c dvd t" by (simp add: on_grid_dvd_iff)
    with start have "hours c dvd t - floor_to_grid c n" by simp
    then obtain k where "t - floor_to_grid c n = hours c * k" by (rule dvdE)
    then have k: "t - floor_to_grid c n = hours (c * k)" by simp
    with R have "hours 0 \<le> hours (c * k)" "hours (c * k) \<le> hours m"
      by (simp_all only: mult_zero_left) linarith+
    then have "0 \<le> c * k" "c * k \<le> m" by (simp_all only: hours_le_iff)
    with k assms(1) show ?L
      by (auto simp: set_py_range image_iff intro!: bexI [of _ "c * k"])
  qed
qed

subsection \<open>Properties\<close>

text \<open>The serving-window start is the last cadence-grid instant at or before now: it never
  lies in the future, now is less than one cadence past it, it is on the grid, and flooring it
  again gives it back.\<close>

theorem serving_start_is_last_grid_instant:
  assumes "serving_start_valid_time now c = Inr s"
  shows "s \<le> astimezone_utc now \<and> astimezone_utc now < s + hours c \<and>
    s mod us_per_hour = 0 \<and> hour_of s mod c = 0 \<and>
    serving_start_valid_time (utc_datetime s) c = Inr s"
proof -
  from serving_start_InrD [OF assms] have "0 < c" "s = floor_to_grid c (astimezone_utc now)"
    by auto
  then show ?thesis
    using floor_to_grid_le [of c] floor_to_grid_gt [of c] floor_to_grid_fields(2,3) [of c]
    by (simp add: serving_start_eq floor_to_grid_idem)
qed

theorem serving_start_witness:
  "serving_start_valid_time (utc_datetime (hours 7)) 3 = Inr (hours 6) \<and>
   hours 6 \<le> (hours 7 :: int) \<and> (hours 6 :: int) mod us_per_hour = 0"
proof -
  have e: "serving_start_valid_time (utc_datetime (hours 7)) 3 = Inr (hours 6)"
    by (simp add: serving_start_eq floor_to_grid_def hour_of_def day_start_def us_per_hour_def us_per_day_def)
  show ?thesis using e serving_start_is_last_grid_instant [OF e] by simp
qed

text \<open>The grid test of \<open>is_valid_time_protected\<close>, which does not look at the clock\<close>

definition protected_grid_test ::
    "horizon_registry \<Rightarrow> datetime \<Rightarrow> string option \<Rightarrow> bool result" where
  "protected_grid_test reg vt m = (case m of
      None \<Rightarrow> Inr True
    | Some m \<Rightarrow> is_valid_time_on_horizon_grid reg vt (Some m) None)"

lemma protected_unfold:
  "is_valid_time_protected reg vt now m c =
    (if tzinfo vt = None then Inl (ValueError ''valid_time must be timezone-aware'')
     else bindE (protected_grid_test reg vt m) (\<lambda>g. if \<not> g then Inr False
            else bindE (serving_start_valid_time now c)
                   (\<lambda>start. Inr (start \<le> astimezone_utc vt))))"
  by (simp add: is_valid_time_protected_def protected_grid_test_def)

text \<open>Leaving the protected set is permanent: a valid time that is unprotected now is
  unprotected at every later time.\<close>

theorem protected_exit_is_permanent:
  assumes "is_valid_time_protected reg vt now m c = Inr False"
    and "astimezone_utc now \<le> astimezone_utc later" and "tzinfo later \<noteq> None" and "0 < c"
  shows "is_valid_time_protected reg vt later m c = Inr False"
proof -
  have vt: "tzinfo vt \<noteq> None"
    using assms(1) by (cases "tzinfo vt") (simp_all add: protected_unfold)
  obtain g where g: "protected_grid_test reg vt m = Inr g"
    using assms(1) vt by (auto simp: protected_unfold bindE_eq_Inr)
  show ?thesis
  proof (cases g)
    case False
    with g vt show ?thesis by (simp add: protected_unfold)
  next
    case True
    with assms(1) g vt obtain s where s: "serving_start_valid_time now c = Inr s"
      "\<not> s \<le> astimezone_utc vt"
      by (auto simp: protected_unfold bindE_eq_Inr)
    have "s \<le> floor_to_grid c (astimezone_utc later)"
      using serving_start_InrD [OF s(1)] floor_to_grid_mono [OF assms(4,2)] by simp
    with s(2) True g vt assms(3,4) show ?thesis
      by (auto simp: protected_unfold serving_start_eq)
  qed
qed

lemma floor_6: "floor_to_grid 3 (hours 6) = hours 6"
  by (simp add: floor_to_grid_def hour_of_def day_start_def us_per_hour_def us_per_day_def)

theorem protected_exit_witness:
  "is_valid_time_protected default_horizons (utc_datetime (hours 3)) (utc_datetime (hours 6))
      (Some ''gfs'') 3 = Inr False \<and>
   is_valid_time_protected default_horizons (utc_datetime (hours 3)) (utc_datetime (hours 9))
      (Some ''gfs'') 3 = Inr False"
proof -
  have "is_valid_time_protected default_horizons (utc_datetime (hours 3)) (utc_datetime (hours 6))
      (Some ''gfs'') 3 = Inr (on_grid (grid_cadence canonical_sequence) (hours 3)
        \<and> floor_to_grid 3 (hours 6) \<le> hours 3)"
    by (rule valid_time_protected_eq [OF canonical_lead_gfs, of "utc_datetime (hours 3)"
          "utc_datetime (hours 6)" 3, simplified astimezone_utc_utc])
      (simp_all add: grid_cadence_canonical)
  moreover have "\<not> floor_to_grid 3 (hours 6) \<le> hours 3"
    unfolding floor_6 by (simp only: hours_le_iff)
  ultimately have e: "is_valid_time_protected default_horizons (utc_datetime (hours 3))
      (utc_datetime (hours 6)) (Some ''gfs'') 3 = Inr False"
    by simp
  moreover have "astimezone_utc (utc_datetime (hours 6)) \<le> astimezone_utc (utc_datetime (hours 9))"
    by (simp only: astimezone_utc_utc hours_le_iff)
  ultimately show ?thesis
    using protected_exit_is_permanent [OF e, of "utc_datetime (hours 9)"] by simp
qed

end
