(* ===== verification/ServingWindow.thy ===== *)
theory ServingWindow
  imports Temporal Coverage
begin

text \<open>
  What the serving-window functions of \<open>domain/temporal.py\<close> promise each other: the enumerated
  protected set against the membership test, and the boundary each of them uses.
\<close>

text \<open>The enumerated protected set and the membership test agree: for a model of a
  well-formed horizon registry whose grid cadence divides the day, an instant is listed by
  \<open>protected_valid_times\<close> iff \<open>is_valid_time_protected\<close> accepts it on the model's cadence
  and it is at most the model's longest lead past the serving-window start.\<close>

theorem protected_set_matches_membership:
  assumes "canonical_lead_time_hours reg m None None = Inr leads" "horizon_wf reg"
    "tzinfo now \<noteq> None" "grid_cadence leads dvd 24"
  shows "\<exists>start vts. model_serving_start_valid_time reg m now = Inr start \<and>
    protected_valid_times reg m now None = Inr vts \<and> sorted_wrt (<) vts \<and>
    (\<forall>t. t \<in> set vts \<longleftrightarrow>
       is_valid_time_protected reg (utc_datetime t) now (Some m) (grid_cadence leads) = Inr True
       \<and> t \<le> start + hours (last leads))"
proof -
  let ?c = "grid_cadence leads" and ?n = "astimezone_utc now"
  have v: "valid_horizon leads" using canonical_lead_valid [OF assms(2,1)] .
  have c: "0 < ?c" by (rule grid_cadence_pos [OF v])
  have s: "model_serving_start_valid_time reg m now = Inr (floor_to_grid ?c ?n)"
    using assms(1,3) c by (auto simp: model_serving_start_valid_time_def serving_start_eq)
  have "is_valid_time_protected reg (utc_datetime t) now (Some m) ?c
      = Inr (on_grid ?c t \<and> floor_to_grid ?c ?n \<le> t)" for t
    using valid_time_protected_eq [OF assms(1) _ assms(3) c, of "utc_datetime t"] c by simp
  moreover have "sorted_wrt (<) (map (\<lambda>lead. floor_to_grid ?c ?n + hours lead)
      (py_range 0 (last leads + 1) ?c))"
    using py_range_sorted [OF c] by (simp add: sorted_wrt_map)
  ultimately show ?thesis
    using s protected_valid_times_eq [OF assms(1) v assms(3)]
      protected_range_iff [OF c assms(4), of _ ?n "last leads"]
    by (simp only: ex_simps(1) simp_thms) blast
qed

theorem protected_set_matches_membership_witness:
  "\<exists>start vts. model_serving_start_valid_time default_horizons ''gfs'' (utc_datetime (hours 7)) = Inr start \<and>
    protected_valid_times default_horizons ''gfs'' (utc_datetime (hours 7)) None = Inr vts \<and>
    start \<in> set vts"
proof -
  have d: "grid_cadence canonical_sequence dvd 24" by (simp add: grid_cadence_canonical)
  obtain start vts where
    s: "model_serving_start_valid_time default_horizons ''gfs'' (utc_datetime (hours 7)) = Inr start"
    and vts: "protected_valid_times default_horizons ''gfs'' (utc_datetime (hours 7)) None = Inr vts"
    "\<And>t. t \<in> set vts \<longleftrightarrow> is_valid_time_protected default_horizons (utc_datetime t)
        (utc_datetime (hours 7)) (Some ''gfs'') (grid_cadence canonical_sequence) = Inr True
       \<and> t \<le> start + hours (last canonical_sequence)"
    using protected_set_matches_membership [OF canonical_lead_gfs horizon_wf_default _ d,
        of "utc_datetime (hours 7)"] by auto
  have "start = floor_to_grid 3 (hours 7)"
    using s by (simp add: model_serving_start_valid_time_def canonical_lead_gfs
        grid_cadence_canonical serving_start_eq)
  moreover have "on_grid 3 (floor_to_grid 3 (hours 7))" by (rule on_grid_floor) simp
  moreover have "is_valid_time_protected default_horizons (utc_datetime start)
      (utc_datetime (hours 7)) (Some ''gfs'') 3
    = Inr (on_grid 3 start \<and> floor_to_grid 3 (hours 7) \<le> start)"
    using valid_time_protected_eq [OF canonical_lead_gfs, of "utc_datetime start"
        "utc_datetime (hours 7)" 3] by (simp add: grid_cadence_canonical)
  moreover have "start \<le> start + hours (last canonical_sequence)"
    by (simp add: last_canonical_sequence us_per_hour_def)
  ultimately have "start \<in> set vts"
    unfolding vts(2) by (simp add: grid_cadence_canonical)
  with s vts(1) show ?thesis by blast
qed

subsection \<open>The two boundaries of a model with another cadence\<close>

text \<open>A horizon registry in which a model on a six-hourly grid has been registered\<close>

definition six_hourly_horizons :: horizon_registry where
  "six_hourly_horizons = default_horizons\<lparr>model_horizons :=
     (model_horizons default_horizons)(''icon'' \<mapsto> [0, 6, 12])\<rparr>"

lemma norm_icon [simp]: "norm_key ''icon'' = ''icon''" by code_simp

lemma register_icon:
  "register_canonical_lead_horizon ''icon'' [0, 6, 12] None default_horizons = Inr six_hourly_horizons"
  by (simp add: register_canonical_lead_horizon_def six_hourly_horizons_def)

lemma canonical_lead_icon:
  "canonical_lead_time_hours six_hourly_horizons ''icon'' None None = Inr [0, 6, 12]"
  by (simp add: canonical_lead_time_hours_def six_hourly_horizons_def)

lemma floor_10: "floor_to_grid 6 (hours 10) = hours 6" "floor_to_grid 3 (hours 10) = hours 9"
  by (simp_all add: floor_to_grid_def hour_of_def day_start_def us_per_hour_def us_per_day_def)

text \<open>The two boundaries of a model differ once its horizon cadence is not the canonical
  three hours. After registering a model on a six-hourly grid, at 10:00 the serving window of that
  model starts at 06:00 and 06:00 is enumerated as protected, but the membership test with its
  default boundary cadence says 06:00 is not protected.\<close>

theorem membership_default_boundary_diverges:
  "register_canonical_lead_horizon ''icon'' [0, 6, 12] None default_horizons = Inr six_hourly_horizons \<and>
   model_serving_start_valid_time six_hourly_horizons ''icon'' (utc_datetime (hours 10)) = Inr (hours 6) \<and>
   (\<exists>vts. protected_valid_times six_hourly_horizons ''icon'' (utc_datetime (hours 10)) None = Inr vts
      \<and> hours 6 \<in> set vts) \<and>
   is_valid_time_protected six_hourly_horizons (utc_datetime (hours 6)) (utc_datetime (hours 10))
     (Some ''icon'') CANONICAL_LEAD_CADENCE_HOURS = Inr False"
proof -
  have g: "grid_cadence [0, 6, 12] = 6" by (simp add: grid_cadence_def)
  have v: "valid_horizon [0, 6, 12]" by (simp add: valid_horizon_def)
  have "protected_valid_times six_hourly_horizons ''icon'' (utc_datetime (hours 10)) None
      = Inr (map (\<lambda>lead. hours 6 + hours lead) (py_range 0 13 6))"
    using protected_valid_times_eq [OF canonical_lead_icon v, of "utc_datetime (hours 10)"]
    by (simp add: g floor_10)
  moreover have "hours 6 + hours 0 \<in> set (map (\<lambda>lead. hours 6 + hours lead) (py_range 0 13 6))"
    by (simp add: set_py_range image_iff)
  moreover have "is_valid_time_protected six_hourly_horizons (utc_datetime (hours 6))
      (utc_datetime (hours 10)) (Some ''icon'') 3 = Inr (on_grid 6 (hours 6) \<and> hours 9 \<le> hours 6)"
    using valid_time_protected_eq [OF canonical_lead_icon, of "utc_datetime (hours 6)"
        "utc_datetime (hours 10)" 3, unfolded floor_10 astimezone_utc_utc g] by simp
  moreover have "\<not> hours 9 \<le> hours 6" by (simp only: hours_le_iff)
  moreover have "model_serving_start_valid_time six_hourly_horizons ''icon'' (utc_datetime (hours 10))
      = Inr (hours 6)"
    by (simp add: model_serving_start_valid_time_def canonical_lead_icon g serving_start_eq floor_10)
  ultimately show ?thesis
    by (simp only: register_icon CANONICAL_LEAD_CADENCE_HOURS_def) force
qed

end
