(* ===== verification/Lifecycle.thy ===== *)
theory Lifecycle
  imports Temporal
begin

text \<open>
  \<open>domain/lifecycle.py\<close>: horizon expiry of a whole cycle, the metadata retention window, the
  canonical store path of a cycle and the lifecycle snapshot of one model cycle.
\<close>

definition METADATA_RETENTION_DAYS :: int where "METADATA_RETENTION_DAYS = 1"

definition is_cycle_horizon_expired :: "datetime \<Rightarrow> int \<Rightarrow> datetime \<Rightarrow> bool" where
  "is_cycle_horizon_expired cycle_time max_lead_hours serving_start =
     (ensure_utc cycle_time + hours max_lead_hours < ensure_utc serving_start)"

definition is_metadata_purge_eligible :: "datetime option \<Rightarrow> datetime \<Rightarrow> int \<Rightarrow> bool" where
  "is_metadata_purge_eligible deleted_at now_utc retention_days = (case deleted_at of
      None \<Rightarrow> False
    | Some d \<Rightarrow> ensure_utc d \<le> ensure_utc now_utc - days retention_days)"

definition canonical_cycle_store_path :: "string \<Rightarrow> datetime \<Rightarrow> string \<Rightarrow> string" where
  "canonical_cycle_store_path model cycle_time base_bucket =
     (let dt = ensure_utc cycle_time
      in ''s3://'' @ base_bucket @ ''/'' @ norm_key model @ ''/'' @ date_str dt @ ''/''
         @ fmt0 2 (hour_of dt) @ ''/cycle.zarr'')"

record model_lifecycle_snapshot =
  mls_model_id :: string
  mls_cycle_time :: instant
  mls_status :: "string option"
  mls_deletion_started_at :: "instant option"
  mls_deleted_at :: "instant option"

text \<open>The constructor, with the normalisations of \<open>__post_init__\<close>\<close>

definition ModelLifecycleSnapshot ::
    "string \<Rightarrow> datetime \<Rightarrow> string option \<Rightarrow> datetime option \<Rightarrow> datetime option
     \<Rightarrow> model_lifecycle_snapshot" where
  "ModelLifecycleSnapshot model_id cycle_time status deletion_started_at deleted_at =
     \<lparr>mls_model_id = norm_key model_id, mls_cycle_time = ensure_utc cycle_time,
      mls_status = status,
      mls_deletion_started_at = map_option ensure_utc deletion_started_at,
      mls_deleted_at = map_option ensure_utc deleted_at\<rparr>"

definition is_ready :: "model_lifecycle_snapshot \<Rightarrow> bool" where
  "is_ready s = (mls_status s = Some ''ready'')"

definition is_deletion_started :: "model_lifecycle_snapshot \<Rightarrow> bool" where
  "is_deletion_started s = (mls_deletion_started_at s \<noteq> None)"

definition is_deleted :: "model_lifecycle_snapshot \<Rightarrow> bool" where
  "is_deleted s = (mls_deleted_at s \<noteq> None)"

subsection \<open>Lemmas\<close>

lemma purge_eligible_mono:
  "is_metadata_purge_eligible d n r \<Longrightarrow> ensure_utc n \<le> ensure_utc n' \<Longrightarrow>
     is_metadata_purge_eligible d n' r"
  by (auto simp: is_metadata_purge_eligible_def split: option.splits)

lemma expired_mono:
  "is_cycle_horizon_expired c m s \<Longrightarrow> ensure_utc s \<le> ensure_utc s' \<Longrightarrow>
     is_cycle_horizon_expired c m s'"
  by (simp add: is_cycle_horizon_expired_def)

text \<open>C20: A cycle is horizon-expired exactly when none of its lead times is still in the model's
  protected set: for a cycle on the model's grid whose leads lie on that grid, strict expiry
  against the model's own serving-window start is the same as every lead being unprotected.\<close>

theorem cycle_expired_iff_no_lead_protected:
  assumes "canonical_lead_time_hours reg m None None = Inr leads" "horizon_wf reg"
    "grid_cadence leads dvd 24" "\<forall>l \<in> set leads. grid_cadence leads dvd l"
    "on_grid (grid_cadence leads) (ensure_utc cycle)"
    "model_serving_start_valid_time reg m now = Inr start"
  shows "is_cycle_horizon_expired cycle (last leads) (utc_datetime start) \<longleftrightarrow>
    (\<forall>l \<in> set leads. is_valid_time_protected reg (utc_datetime (ensure_utc cycle + hours l)) now
       (Some m) (grid_cadence leads) = Inr False)"
proof -
  let ?c = "grid_cadence leads" and ?n = "astimezone_utc now" and ?t = "ensure_utc cycle"
  have v: "valid_horizon leads" using canonical_lead_valid [OF assms(2,1)] .
  have c: "0 < ?c" by (rule grid_cadence_pos [OF v])
  have "serving_start_valid_time now ?c = Inr start"
    using assms(1,6) by (simp add: model_serving_start_valid_time_def)
  then have now: "tzinfo now \<noteq> None" and start: "start = floor_to_grid ?c ?n"
    using serving_start_InrD by blast+
  have grid: "on_grid ?c (?t + hours l)" if "l \<in> set leads" for l
  proof -
    have "hours ?c dvd ?t" using assms(3,5) by (simp add: on_grid_dvd_iff)
    moreover have "hours ?c dvd hours l" using assms(4) that by (simp add: mult_dvd_mono)
    ultimately show ?thesis using assms(3) by (simp add: on_grid_dvd_iff)
  qed
  have "is_valid_time_protected reg (utc_datetime (?t + hours l)) now (Some m) ?c
      = Inr (floor_to_grid ?c ?n \<le> ?t + hours l)" if "l \<in> set leads" for l
    using valid_time_protected_eq [OF assms(1) _ now c, of "utc_datetime (?t + hours l)"]
      grid [OF that] c by simp
  then have *: "(\<forall>l \<in> set leads. is_valid_time_protected reg (utc_datetime (?t + hours l)) now
      (Some m) ?c = Inr False) \<longleftrightarrow> (\<forall>l \<in> set leads. ?t + hours l < start)"
    by (simp add: start not_le)
  have "last leads \<in> set leads" using v by (simp add: valid_horizon_def)
  moreover have "?t + hours l \<le> ?t + hours (last leads)" if "l \<in> set leads" for l
    using valid_horizon_last [OF v that] by simp
  ultimately have "(\<forall>l \<in> set leads. ?t + hours l < start) \<longleftrightarrow> ?t + hours (last leads) < start"
    by (meson dual_order.strict_trans2 order.strict_trans1)
  with * show ?thesis by (simp add: is_cycle_horizon_expired_def)
qed

theorem cycle_expired_iff_witness:
  "is_cycle_horizon_expired (utc_datetime (hours (- 246))) 240 (utc_datetime 0) \<and>
   is_valid_time_protected default_horizons (utc_datetime (hours (- 6))) (utc_datetime 0)
     (Some ''gfs'') 3 = Inr False"
proof -
  have start: "model_serving_start_valid_time default_horizons ''gfs'' (utc_datetime 0) = Inr 0"
    by (simp add: model_serving_start_valid_time_def canonical_lead_gfs grid_cadence_canonical
        serving_start_eq floor_to_grid_def day_start_def hour_of_def)
  have "hours 3 dvd hours (- 246)" by (rule mult_dvd_mono) simp_all
  then have grid: "on_grid (grid_cadence canonical_sequence) (ensure_utc (utc_datetime (hours (- 246))))"
    by (simp only: grid_cadence_canonical ensure_utc_utc) (simp add: on_grid_dvd_iff)
  have "is_cycle_horizon_expired (utc_datetime (hours (- 246))) 240 (utc_datetime 0)"
    by (simp add: is_cycle_horizon_expired_def us_per_hour_def)
  moreover have "(240::int) \<in> set canonical_sequence" by (simp add: set_canonical_sequence)
  ultimately show ?thesis
    using cycle_expired_iff_no_lead_protected [OF canonical_lead_gfs horizon_wf_default _ _ grid start]
    by (auto simp: grid_cadence_canonical set_canonical_sequence last_canonical_sequence
        dvd_eq_mod_eq_0 algebra_simps dest: bspec [where x = 240])
qed

end
