(* ===== verification/Reclamation.thy ===== *)
theory Reclamation
  imports Temporal
begin

text \<open>
  \<open>domain/reclamation.py\<close>: the granular deletion unit and the region identity, the object keys
  of variable shards and of region commit markers, the predecessor rule of interval variables,
  and the registry of the variables a region must hold.
\<close>

definition TARGET_KIND_DET :: string where "TARGET_KIND_DET = ''det''"
definition TARGET_KIND_MEAN :: string where "TARGET_KIND_MEAN = ''mean''"
definition TARGET_KIND_MEM :: string where "TARGET_KIND_MEM = ''mem''"

definition VALID_TARGET_KINDS :: "string set" where
  "VALID_TARGET_KINDS = {TARGET_KIND_DET, TARGET_KIND_MEAN, TARGET_KIND_MEM}"

definition PREDECESSOR_VARIABLES :: "string set" where
  "PREDECESSOR_VARIABLES = {''precipitation_amount_3h'', ''cloud_cover_3h''}"

lemmas target_kind_defs = TARGET_KIND_DET_def TARGET_KIND_MEAN_def TARGET_KIND_MEM_def

subsection \<open>Targets and regions\<close>

definition normalize_member_index :: "string \<Rightarrow> int option \<Rightarrow> int result" where
  "normalize_member_index target_kind member_index =
     (let kind = norm_key target_kind in
      if kind = TARGET_KIND_DET then Inr 0
      else if kind = TARGET_KIND_MEAN then Inr (- 1)
      else if kind = TARGET_KIND_MEM then
        (case member_index of None \<Rightarrow> Inr 1 | Some i \<Rightarrow> Inr i)
      else Inl (ValueError ''Unknown target_kind''))"

record physical_shard_target =
  pst_run_id :: string
  pst_model_id :: string
  pst_cycle_time :: instant
  pst_lead_time_hours :: int
  pst_variable_code :: string
  pst_target_kind :: string
  pst_member_index :: int
  pst_valid_time :: instant
  pst_store_path :: string
  pst_physical_key :: string

text \<open>The constructor with its \<open>__post_init__\<close>\<close>

definition PhysicalShardTarget ::
    "string \<Rightarrow> string \<Rightarrow> datetime \<Rightarrow> int \<Rightarrow> string \<Rightarrow> string \<Rightarrow> int \<Rightarrow> datetime \<Rightarrow> string \<Rightarrow> string
     \<Rightarrow> physical_shard_target result" where
  "PhysicalShardTarget run_id model_id cycle_time lead_time_hours variable_code target_kind
       member_index valid_time store_path physical_key =
     (let kind = norm_key target_kind in
      if kind \<notin> VALID_TARGET_KINDS then Inl (ValueError ''Invalid target_kind'')
      else bindE (normalize_member_index kind (Some member_index))
        (\<lambda>normalized_mem. Inr \<lparr>pst_run_id = run_id, pst_model_id = norm_key model_id,
           pst_cycle_time = ensure_utc cycle_time, pst_lead_time_hours = lead_time_hours,
           pst_variable_code = variable_code, pst_target_kind = kind,
           pst_member_index = (if member_index \<noteq> normalized_mem then normalized_mem
                               else member_index),
           pst_valid_time = ensure_utc valid_time, pst_store_path = store_path,
           pst_physical_key = physical_key\<rparr>))"

definition target_tuple :: "physical_shard_target \<Rightarrow> string \<times> int \<times> string \<times> string \<times> int" where
  "target_tuple t = (pst_run_id t, pst_lead_time_hours t, pst_variable_code t,
     pst_target_kind t, pst_member_index t)"

record ingestion_region_identity =
  iri_run_id :: string
  iri_lead_time_hours :: int
  iri_target_kind :: string
  iri_member_index :: int

definition IngestionRegionIdentity ::
    "string \<Rightarrow> int \<Rightarrow> string \<Rightarrow> int \<Rightarrow> ingestion_region_identity result" where
  "IngestionRegionIdentity run_id lead_time_hours target_kind member_index =
     (let kind = norm_key target_kind in
      bindE (normalize_member_index kind (Some member_index))
        (\<lambda>normalized_mem. Inr \<lparr>iri_run_id = run_id, iri_lead_time_hours = lead_time_hours,
           iri_target_kind = kind, iri_member_index = normalized_mem\<rparr>))"

subsection \<open>Object keys\<close>

definition make_shard_relative_key :: "string \<Rightarrow> string \<Rightarrow> int \<Rightarrow> int \<Rightarrow> string result" where
  "make_shard_relative_key variable_code target_kind lead_time_hours member_index =
     (let kind = norm_key target_kind in
      if kind = TARGET_KIND_DET then
        Inr (variable_code @ ''/shard.det_L'' @ fmt0 4 lead_time_hours @ ''.shard'')
      else if kind = TARGET_KIND_MEAN then
        Inr (variable_code @ ''/shard.mean_L'' @ fmt0 4 lead_time_hours @ ''.shard'')
      else if kind = TARGET_KIND_MEM then
        bindE (normalize_member_index kind (Some member_index))
          (\<lambda>mem_idx. Inr (variable_code @ ''/shard.mem'' @ fmt0 3 mem_idx @ ''_L''
             @ fmt0 4 lead_time_hours @ ''.shard''))
      else Inl (ValueError ''Unknown target_kind''))"

definition make_shard_physical_key ::
    "string \<Rightarrow> string \<Rightarrow> string \<Rightarrow> int \<Rightarrow> int \<Rightarrow> string result" where
  "make_shard_physical_key store_path variable_code target_kind lead_time_hours member_index =
     bindE (make_shard_relative_key variable_code target_kind lead_time_hours member_index)
       (\<lambda>rel. Inr (py_rstrip_char (CHR ''/'') store_path @ ''/'' @ rel))"

definition make_region_marker_relative_key :: "string \<Rightarrow> int \<Rightarrow> int \<Rightarrow> string result" where
  "make_region_marker_relative_key target_kind lead_time_hours member_index =
     (let kind = norm_key target_kind in
      if kind = TARGET_KIND_DET then
        Inr (''__commit__/v1/regions/det_L'' @ fmt0 4 lead_time_hours @ ''.json'')
      else if kind = TARGET_KIND_MEAN then
        Inr (''__commit__/v1/regions/mean_L'' @ fmt0 4 lead_time_hours @ ''.json'')
      else if kind = TARGET_KIND_MEM then
        bindE (normalize_member_index kind (Some member_index))
          (\<lambda>mem_idx. Inr (''__commit__/v1/regions/mem'' @ fmt0 3 mem_idx @ ''_L''
             @ fmt0 4 lead_time_hours @ ''.json''))
      else Inl (ValueError ''Unknown target_kind''))"

definition make_region_marker_physical_key :: "string \<Rightarrow> string \<Rightarrow> int \<Rightarrow> int \<Rightarrow> string result" where
  "make_region_marker_physical_key store_path target_kind lead_time_hours member_index =
     bindE (make_region_marker_relative_key target_kind lead_time_hours member_index)
       (\<lambda>rel. Inr (py_rstrip_char (CHR ''/'') store_path @ ''/'' @ rel))"

subsection \<open>Predecessors\<close>

definition is_predecessor_dependent_lead :: "int \<Rightarrow> int \<Rightarrow> bool result" where
  "is_predecessor_dependent_lead lead_time_hours reset_period_hours =
     (if lead_time_hours \<le> 0 then Inr False
      else if reset_period_hours = 0 then Inl ZeroDivisionError
      else Inr (lead_time_hours mod reset_period_hours = 0))"

definition get_predecessor_lead :: "int \<Rightarrow> int \<Rightarrow> int \<Rightarrow> int result" where
  "get_predecessor_lead lead_time_hours interval_width_hours reset_period_hours =
     (if reset_period_hours \<le> 0 \<or> interval_width_hours \<le> 0
        then Inl (ValueError ''reset_period_hours and interval_width_hours must be positive'')
      else if interval_width_hours > reset_period_hours
        then Inl (ValueError ''interval width must not exceed reset period'')
      else bindE (is_predecessor_dependent_lead lead_time_hours reset_period_hours)
        (\<lambda>dep. if \<not> dep then Inl (ValueError ''not a reset lead'')
               else Inr (lead_time_hours - interval_width_hours)))"

definition is_predecessor_variable :: "string option \<Rightarrow> bool" where
  "is_predecessor_variable variable = (case variable of None \<Rightarrow> False
     | Some v \<Rightarrow> clean_variable v \<in> PREDECESSOR_VARIABLES)"

subsection \<open>Expected region variables\<close>

definition can_delete_region_marker :: "string set \<Rightarrow> string set \<Rightarrow> bool" where
  "can_delete_region_marker expected_variables deleted_variables =
     (if expected_variables = {} then False else expected_variables \<subseteq> deleted_variables)"

text \<open>The keys of the module dictionary: (model, version, kind) triples and (model, kind) pairs\<close>

datatype region_key = VersionKey string string string | KindKey string string

type_synonym region_registry = "region_key \<rightharpoonup> string set"

definition gefs_region_variables :: "string set" where
  "gefs_region_variables = {''temperature_2m'', ''precipitation_amount_3h'', ''crain'', ''csnow'',
     ''cfrzr'', ''cicep'', ''relative_humidity_2m'', ''wind_gust'', ''visibility'', ''snow_depth'',
     ''wind_u_10m'', ''wind_v_10m'', ''cloud_cover_3h'', ''cloud_ceiling''}"

definition gfs_region_variables :: "string set" where
  "gfs_region_variables = insert ''precipitation_rate'' gefs_region_variables"

definition DEFAULT_EXPECTED_REGION_VARIABLES :: region_registry where
  "DEFAULT_EXPECTED_REGION_VARIABLES =
     [VersionKey ''gfs'' ''v1.0'' ''det'' \<mapsto> gfs_region_variables,
      VersionKey ''gefs'' ''v1.0'' ''mean'' \<mapsto> gefs_region_variables,
      VersionKey ''gefs'' ''v1.0'' ''mem'' \<mapsto> gefs_region_variables,
      KindKey ''gfs'' ''det'' \<mapsto> gfs_region_variables,
      KindKey ''gefs'' ''mean'' \<mapsto> gefs_region_variables,
      KindKey ''gefs'' ''mem'' \<mapsto> gefs_region_variables]"

definition register_expected_region_variables ::
    "string \<Rightarrow> string \<Rightarrow> string set \<Rightarrow> string option \<Rightarrow> region_registry \<Rightarrow> region_registry" where
  "register_expected_region_variables model_id target_kind variables version_string reg =
     (let m = norm_key model_id;
          k = norm_key target_kind;
          reg1 = (case version_string of
              Some v \<Rightarrow> reg(VersionKey m (norm_key v) k \<mapsto> variables)
            | None \<Rightarrow> reg(VersionKey m ''v1.0'' k \<mapsto> variables))
      in reg1(KindKey m k \<mapsto> variables))"

definition get_expected_region_variables ::
    "region_registry \<Rightarrow> string \<Rightarrow> string \<Rightarrow> string option \<Rightarrow> string set option
     \<Rightarrow> string set result" where
  "get_expected_region_variables reg model_id target_kind version_string fallback =
     (let m = norm_key model_id;
          k = norm_key target_kind;
          unversioned = (case reg (KindKey m k) of
              Some vs \<Rightarrow> Inr vs
            | None \<Rightarrow> (case fallback of
                Some vs \<Rightarrow> Inr vs
              | None \<Rightarrow> Inl (ValueError ''No authoritative variable schema registered'')))
      in case version_string of
           None \<Rightarrow> unversioned
         | Some v \<Rightarrow> (case reg (VersionKey m (norm_key v) k) of
               Some vs \<Rightarrow> Inr vs
             | None \<Rightarrow> unversioned))"

subsection \<open>Lemmas\<close>

lemma normalize_member_index_norm [simp]:
  "normalize_member_index (norm_key k) i = normalize_member_index k i"
  by (simp add: normalize_member_index_def)

lemma normalize_member_index_idem:
  "normalize_member_index k (Some i) = Inr j \<Longrightarrow> normalize_member_index k (Some j) = Inr j"
  by (auto simp: normalize_member_index_def Let_def split: if_splits)

lemma valid_kind_cases:
  "normalize_member_index k i = Inr j \<Longrightarrow> norm_key k \<in> VALID_TARGET_KINDS"
  by (auto simp: normalize_member_index_def VALID_TARGET_KINDS_def Let_def split: if_splits)

lemma valid_kind_normalizes:
  "norm_key k \<in> VALID_TARGET_KINDS \<Longrightarrow> \<exists>j. normalize_member_index k i = Inr j"
  by (auto simp: normalize_member_index_def VALID_TARGET_KINDS_def Let_def target_kind_defs
      split: option.split)

lemma marker_key_cases:
  assumes "make_region_marker_relative_key k l i = Inr key"
  obtains (det) "norm_key k = ''det''" "key = ''__commit__/v1/regions/det_L'' @ fmt0 4 l @ ''.json''"
  | (mean) "norm_key k = ''mean''" "key = ''__commit__/v1/regions/mean_L'' @ fmt0 4 l @ ''.json''"
  | (mem) "norm_key k = ''mem''"
      "key = ''__commit__/v1/regions/mem'' @ fmt0 3 i @ ''_L'' @ fmt0 4 l @ ''.json''"
  using assms
  by (auto simp: make_region_marker_relative_key_def normalize_member_index_def Let_def
      target_kind_defs split: if_splits)

lemma shard_key_cases:
  assumes "make_shard_relative_key v k l i = Inr key"
  obtains (det) "norm_key k = ''det''" "key = v @ ''/shard.det_L'' @ fmt0 4 l @ ''.shard''"
  | (mean) "norm_key k = ''mean''" "key = v @ ''/shard.mean_L'' @ fmt0 4 l @ ''.shard''"
  | (mem) "norm_key k = ''mem''"
      "key = v @ ''/shard.mem'' @ fmt0 3 i @ ''_L'' @ fmt0 4 l @ ''.shard''"
  using assms
  by (auto simp: make_shard_relative_key_def normalize_member_index_def Let_def
      target_kind_defs split: if_splits)

lemma number_char_literals [simp]:
  "\<not> number_char (CHR ''.'')" "\<not> number_char (CHR ''_'')" "\<not> number_char (CHR ''/'')"
  by code_simp+

lemma normalize_kind_simps:
  "norm_key k = ''det'' \<Longrightarrow> normalize_member_index k i = Inr 0"
  "norm_key k = ''mean'' \<Longrightarrow> normalize_member_index k i = Inr (- 1)"
  "norm_key k = ''mem'' \<Longrightarrow> normalize_member_index k (Some j) = Inr j"
  by (simp_all add: normalize_member_index_def target_kind_defs)

text \<open>Two keys with the same head up to the first separator have the same head and tail.\<close>

lemma slash_append_inject:
  assumes "CHR ''/'' \<notin> set v" "CHR ''/'' \<notin> set w"
  shows "v @ CHR ''/'' # r = w @ CHR ''/'' # q \<longleftrightarrow> v = w \<and> r = q"
  using append_stop_inject [of v "CHR ''/''" r w "CHR ''/''" q "\<lambda>c. c \<noteq> CHR ''/''"] assms by auto

subsection \<open>Properties\<close>

text \<open>Region commit markers never alias: two regions of a store have the same marker key only
  if they have the same kind, the same lead and the same normalised member index.\<close>

theorem region_marker_key_injective:
  assumes "make_region_marker_relative_key k1 l1 i1 = Inr key"
    and "make_region_marker_relative_key k2 l2 i2 = Inr key"
  shows "norm_key k1 = norm_key k2 \<and> l1 = l2 \<and>
    normalize_member_index k1 (Some i1) = normalize_member_index k2 (Some i2)"
  using assms(1)
  by (cases rule: marker_key_cases; use assms(2) in \<open>cases rule: marker_key_cases\<close>)
    (simp_all add: fmt0_append_inject normalize_kind_simps)

theorem region_marker_key_injective_witness:
  "norm_key '' MEM '' = norm_key ''mem'' \<and> (6::int) = 6 \<and>
   normalize_member_index '' MEM '' (Some 3) = normalize_member_index ''mem'' (Some 3)"
proof (rule region_marker_key_injective)
  show "make_region_marker_relative_key '' MEM '' 6 3 = Inr ''__commit__/v1/regions/mem003_L0006.json''"
    by code_simp
  show "make_region_marker_relative_key ''mem'' 6 3 = Inr ''__commit__/v1/regions/mem003_L0006.json''"
    by code_simp
qed

text \<open>Variable shards never alias: for variable codes without a slash, two shards of a store
  have the same object key only if they have the same variable, kind, lead and member.\<close>

theorem shard_key_injective:
  assumes "make_shard_relative_key v1 k1 l1 i1 = Inr key"
    and "make_shard_relative_key v2 k2 l2 i2 = Inr key"
    and "CHR ''/'' \<notin> set v1" "CHR ''/'' \<notin> set v2"
  shows "v1 = v2 \<and> norm_key k1 = norm_key k2 \<and> l1 = l2 \<and>
    normalize_member_index k1 (Some i1) = normalize_member_index k2 (Some i2)"
  using assms(1)
  by (cases rule: shard_key_cases; use assms(2) in \<open>cases rule: shard_key_cases\<close>)
    (simp_all add: fmt0_append_inject slash_append_inject [OF assms(3,4)]
      slash_append_inject [OF assms(4,3)] normalize_kind_simps)

theorem shard_key_injective_witness:
  "''crain'' = ''crain'' \<and> norm_key ''Det'' = norm_key ''det'' \<and> (6::int) = 6 \<and>
   normalize_member_index ''Det'' (Some 3) = normalize_member_index ''det'' (Some 0)"
proof (rule shard_key_injective)
  show "make_shard_relative_key ''crain'' ''Det'' 6 3 = Inr ''crain/shard.det_L0006.shard''"
    by code_simp
  show "make_shard_relative_key ''crain'' ''det'' 6 0 = Inr ''crain/shard.det_L0006.shard''"
    by code_simp
qed simp_all

text \<open>The predecessor of a reset lead is the sample one interval width earlier inside the same
  reset period: it is not negative, earlier than the lead, at most one reset period before it,
  and, when the width is a proper part of the period, not a reset lead itself, so the dependency
  never chains.\<close>

theorem predecessor_lead_sound:
  assumes "get_predecessor_lead L W R = Inr p"
  shows "p = L - W \<and> 0 \<le> p \<and> p < L \<and> L - R \<le> p \<and> is_predecessor_dependent_lead L R = Inr True \<and>
    (W < R \<longrightarrow> is_predecessor_dependent_lead p R = Inr False)"
proof -
  have p: "p = L - W" "0 < W" "W \<le> R" "0 < L" "L mod R = 0" "0 < R"
    using assms by (auto simp: get_predecessor_lead_def is_predecessor_dependent_lead_def
        bindE_eq_Inr split: if_splits)
  have "R \<le> L" using p(4,5) by (metis dvd_eq_mod_eq_0 zdvd_imp_le)
  then have "0 \<le> p" "p < L" "L - R \<le> p" using p(1-3) by linarith+
  moreover have "(L - W) mod R \<noteq> 0" if "W < R"
  proof
    assume "(L - W) mod R = 0"
    then have "R dvd L - W" "R dvd L" using p(5) by (simp_all add: dvd_eq_mod_eq_0)
    then have "R dvd L - (L - W)" by (metis dvd_diff)
    then have "R dvd W" by simp
    with p(2) that show False using zdvd_imp_le [of R W] by simp
  qed
  moreover have "is_predecessor_dependent_lead L R = Inr True"
    using p(4-6) by (simp only: is_predecessor_dependent_lead_def) simp
  moreover have "is_predecessor_dependent_lead p R = Inr False" if "(L - W) mod R \<noteq> 0"
    using p(1,6) that by (simp only: is_predecessor_dependent_lead_def) simp
  ultimately show ?thesis using p(1) by blast
qed

theorem predecessor_lead_sound_witness:
  "is_predecessor_dependent_lead 3 6 = Inr False"
  using predecessor_lead_sound [of 12 3 6 9]
  by (simp add: get_predecessor_lead_def is_predecessor_dependent_lead_def)

text \<open>Predecessors are producible on the canonical horizon: the predecessor variables are
  exactly those with registered interval metadata, and for each of them every reset lead of the
  canonical horizon has its predecessor in the horizon too.\<close>

theorem predecessor_on_canonical_horizon:
  "(is_predecessor_variable v \<longleftrightarrow> (\<exists>md. get_variable_temporal_metadata v = Inr md)) \<and>
   (\<forall>md. get_variable_temporal_metadata v = Inr md \<longrightarrow>
     (\<forall>L \<in> set canonical_sequence.
        is_predecessor_dependent_lead L (vtm_reset_period_hours md) = Inr True \<longrightarrow>
        (\<exists>p \<in> set canonical_sequence. p < L \<and>
           get_predecessor_lead L (vtm_interval_width_hours md) (vtm_reset_period_hours md) = Inr p)))"
proof -
  have md: "vtm_interval_width_hours md = 3 \<and> vtm_reset_period_hours md = 6"
    if "get_variable_temporal_metadata v = Inr md" for md
    using that by (auto simp: get_variable_temporal_metadata_def VARIABLE_TEMPORAL_METADATA_def
        split: option.splits if_splits)
  have "is_predecessor_variable v \<longleftrightarrow> (\<exists>md. get_variable_temporal_metadata v = Inr md)"
    by (auto simp: is_predecessor_variable_def get_variable_temporal_metadata_def
        VARIABLE_TEMPORAL_METADATA_def PREDECESSOR_VARIABLES_def split: option.split)
  moreover have "L - 3 \<in> set canonical_sequence \<and> L - 3 < L \<and> get_predecessor_lead L 3 6 = Inr (L - 3)"
    if "L \<in> set canonical_sequence" "is_predecessor_dependent_lead L 6 = Inr True" for L
    using that by (auto simp: set_canonical_sequence is_predecessor_dependent_lead_def
        get_predecessor_lead_def split: if_splits)
  ultimately show ?thesis using md by metis
qed

theorem predecessor_on_canonical_horizon_witness:
  "\<exists>p \<in> set canonical_sequence. p < 6 \<and> get_predecessor_lead 6 3 6 = Inr p"
proof -
  have m: "get_variable_temporal_metadata (Some ''cloud_cover_3h'') =
      Inr \<lparr>vtm_interval_width_hours = 3, vtm_reset_period_hours = 6\<rparr>"
    by code_simp
  have "(6::int) \<in> set canonical_sequence" by (simp add: set_canonical_sequence)
  moreover have "is_predecessor_dependent_lead 6 6 = Inr True"
    by (simp add: is_predecessor_dependent_lead_def)
  ultimately show ?thesis
    using predecessor_on_canonical_horizon [of "Some ''cloud_cover_3h''"] m by fastforce
qed

text \<open>Registering the variables of a region kind: afterwards the lookup gives the registered
  set for the version named (\<open>v1.0\<close> when none is) and for the version-less query, every other
  registered version keeps its own set, and other models and kinds are untouched.\<close>

theorem register_region_variables_lookup:
  "get_expected_region_variables (register_expected_region_variables m k vs ver reg) m' k' ver' fb =
    (if norm_key m' = norm_key m \<and> norm_key k' = norm_key k \<and>
        (case ver' of None \<Rightarrow> True
         | Some w \<Rightarrow> norm_key w = (case ver of None \<Rightarrow> ''v1.0'' | Some x \<Rightarrow> norm_key x)
             \<or> reg (VersionKey (norm_key m) (norm_key w) (norm_key k)) = None)
     then Inr vs else get_expected_region_variables reg m' k' ver' fb)"
  by (cases ver; cases ver'; cases "norm_key m' = norm_key m"; cases "norm_key k' = norm_key k")
    (simp_all add: get_expected_region_variables_def register_expected_region_variables_def Let_def
      split: option.split)

end
