(* ===== verification/Locks.thy ===== *)
theory Locks
  imports Reclamation "HOL-Library.Word"
begin

unbundle bit_operations_syntax

text \<open>
  \<open>domain/locks.py\<close>: advisory-lock keys on 64-bit words, the canonical storage identity, and the
  encodings of logical regions and physical chunks. The digest \<open>blake2b(..., digest_size=8)\<close> and
  the local path resolution (\<open>realpath\<close> reads the file system) are parameters.
\<close>

definition NS_STORE_GATE :: "64 word" where "NS_STORE_GATE = 0x0000000000000000"
definition NS_REGION_CONFLICT :: "64 word" where "NS_REGION_CONFLICT = 0x1000000000000000"
definition NS_ADMISSION :: "64 word" where "NS_ADMISSION = 0x2000000000000000"
definition NS_SCHEDULER_LEADER :: "64 word" where "NS_SCHEDULER_LEADER = 0x3000000000000000"
definition NS_GC_LEADER :: "64 word" where "NS_GC_LEADER = 0x4000000000000000"

definition HASH_MASK :: "64 word" where "HASH_MASK = 0x0FFFFFFFFFFFFFFF"

definition REALTIME_SCHEDULER_LEADER_IDENTITY :: string where
  "REALTIME_SCHEDULER_LEADER_IDENTITY = ''ingestion-realtime-scheduler-leader''"

definition GC_LEADER_IDENTITY :: string where "GC_LEADER_IDENTITY = ''ingestion-gc-leader''"

definition namespaced_key :: "(string \<Rightarrow> 64 word) \<Rightarrow> 64 word \<Rightarrow> string \<Rightarrow> 64 word" where
  "namespaced_key blake2b namespace identity = (blake2b identity AND HASH_MASK) OR namespace"

definition scheduler_leader_key :: "(string \<Rightarrow> 64 word) \<Rightarrow> string \<Rightarrow> 64 word" where
  "scheduler_leader_key blake2b identity = namespaced_key blake2b NS_SCHEDULER_LEADER identity"

definition gc_leader_key :: "(string \<Rightarrow> 64 word) \<Rightarrow> string \<Rightarrow> 64 word" where
  "gc_leader_key blake2b identity = namespaced_key blake2b NS_GC_LEADER identity"

text \<open>\<open>if host.endswith(sfx): host = host[:-len(sfx)]\<close>\<close>

definition drop_suffix :: "string \<Rightarrow> string \<Rightarrow> string" where
  "drop_suffix s sfx = (if endswith s sfx then take (length s - length sfx) s else s)"

text \<open>\<open>s.partition("/")\<close>, without the separator\<close>

definition partition_slash :: "string \<Rightarrow> string \<times> string" where
  "partition_slash s = (takeWhile (\<lambda>c. c \<noteq> CHR ''/'') s, drop 1 (dropWhile (\<lambda>c. c \<noteq> CHR ''/'') s))"

definition canonical_storage_identity ::
    "(string \<Rightarrow> string) \<Rightarrow> string \<Rightarrow> string option \<Rightarrow> bool \<Rightarrow> string result" where
  "canonical_storage_identity resolve_path store_path endpoint secure =
     (if store_path = [] then Inl (ValueError ''store_path must be non-empty'')
      else if startswith store_path ''s3://'' then
        let rest = py_strip_char (CHR ''/'') (drop 5 store_path) in
        if rest = [] then Inl (ValueError ''Invalid S3 store URL: empty bucket/key'')
        else
          let (bucket, key0) = (if CHR ''/'' \<in> set rest then partition_slash rest else (rest, []));
              key = py_rstrip_char (CHR ''/'') key0;
              scheme = (if secure then ''https'' else ''http'');
              host0 = py_lower (case endpoint of Some e \<Rightarrow> e | None \<Rightarrow> []);
              host1 = (if scheme = ''https'' then drop_suffix host0 '':443'' else host0);
              host = (if scheme = ''http'' then drop_suffix host1 '':80'' else host1)
          in Inr (''s3://'' @ scheme @ ''://'' @ host @ ''/'' @ bucket @ ''/'' @ key)
      else
        let path = (if startswith store_path ''file://'' then drop 7 store_path else store_path)
        in Inr (''local://'' @ resolve_path path))"

definition store_gate_key ::
    "(string \<Rightarrow> 64 word) \<Rightarrow> (string \<Rightarrow> string) \<Rightarrow> string \<Rightarrow> string option \<Rightarrow> bool \<Rightarrow> 64 word result" where
  "store_gate_key blake2b resolve_path store_path endpoint secure =
     bindE (canonical_storage_identity resolve_path store_path endpoint secure)
       (\<lambda>identity. Inr (namespaced_key blake2b NS_STORE_GATE identity))"

definition admission_key ::
    "(string \<Rightarrow> 64 word) \<Rightarrow> (string \<Rightarrow> string) \<Rightarrow> string \<Rightarrow> string option \<Rightarrow> bool \<Rightarrow> 64 word result" where
  "admission_key blake2b resolve_path store_path endpoint secure =
     bindE (canonical_storage_identity resolve_path store_path endpoint secure)
       (\<lambda>identity. Inr (namespaced_key blake2b NS_ADMISSION identity))"

definition region_key ::
    "(string \<Rightarrow> 64 word) \<Rightarrow> (string \<Rightarrow> string) \<Rightarrow> string \<Rightarrow> string \<Rightarrow> string option \<Rightarrow> bool
     \<Rightarrow> 64 word result" where
  "region_key blake2b resolve_path store_path region_id endpoint secure =
     bindE (canonical_storage_identity resolve_path store_path endpoint secure)
       (\<lambda>identity. Inr (namespaced_key blake2b NS_REGION_CONFLICT
          (identity @ [CHR 0x00] @ region_id)))"

definition logical_region_encoding :: "int \<Rightarrow> int option \<Rightarrow> bool \<Rightarrow> string" where
  "logical_region_encoding lead_time_hours member is_mean =
     (let lead_token = ''L'' @ fmt0 4 lead_time_hours in
      if is_mean then ''mean_'' @ lead_token
      else (case member of
          None \<Rightarrow> ''det_'' @ lead_token
        | Some m \<Rightarrow> ''mem'' @ fmt0 3 m @ ''_'' @ lead_token))"

definition physical_conflict_identity :: "string \<Rightarrow> int list \<Rightarrow> string" where
  "physical_conflict_identity array_path chunk_coords =
     array_path @ ''/'' @ py_join ''.'' (map int_str chunk_coords)"

subsection \<open>Namespaces\<close>

definition namespaces :: "64 word list" where
  "namespaces = [NS_STORE_GATE, NS_REGION_CONFLICT, NS_ADMISSION, NS_SCHEDULER_LEADER, NS_GC_LEADER]"

lemmas namespace_defs = NS_STORE_GATE_def NS_REGION_CONFLICT_def NS_ADMISSION_def
  NS_SCHEDULER_LEADER_def NS_GC_LEADER_def

lemma namespace_outside_mask: "ns \<in> set namespaces \<Longrightarrow> ns AND NOT HASH_MASK = ns"
  by (auto simp: namespaces_def namespace_defs HASH_MASK_def)

text \<open>The bits of a key outside the mask are the namespace.\<close>

lemma namespaced_key_tag:
  assumes "ns \<in> set namespaces"
  shows "namespaced_key h ns i AND NOT HASH_MASK = ns"
proof -
  have "namespaced_key h ns i AND NOT HASH_MASK
      = (h i AND (HASH_MASK AND NOT HASH_MASK)) OR (ns AND NOT HASH_MASK)"
    by (simp add: namespaced_key_def bit.conj_disj_distrib2 and.assoc)
  then show ?thesis by (simp add: namespace_outside_mask [OF assms])
qed

lemma namespaced_key_sign:
  assumes "ns \<in> set namespaces" shows "namespaced_key h ns i < 0x5000000000000000"
proof -
  let ?x = "h i AND HASH_MASK"
  have "HASH_MASK AND ns = 0"
    using assms by (auto simp: namespaces_def namespace_defs HASH_MASK_def)
  then have "?x AND ns = 0" by (simp add: and.assoc)
  then have k: "namespaced_key h ns i = ?x + ns"
    using word_plus_and_or [of ?x ns] by (simp add: namespaced_key_def)
  have "h i AND HASH_MASK \<le> HASH_MASK" by (rule word_and_le1)
  moreover have "ns \<le> 0x4000000000000000"
    using assms by (auto simp: namespaces_def namespace_defs)
  ultimately show ?thesis
    unfolding k HASH_MASK_def by unat_arith
qed

lemma namespaced_key_distinct:
  assumes "ns \<in> set namespaces" "ns' \<in> set namespaces" "ns \<noteq> ns'"
  shows "namespaced_key h ns i \<noteq> namespaced_key h ns' j"
  using namespaced_key_tag [OF assms(1)] namespaced_key_tag [OF assms(2)] assms(3) by metis

text \<open>The facts about membership of the five namespaces\<close>

lemma namespaces_members:
  "NS_STORE_GATE \<in> set namespaces" "NS_REGION_CONFLICT \<in> set namespaces"
  "NS_ADMISSION \<in> set namespaces" "NS_SCHEDULER_LEADER \<in> set namespaces"
  "NS_GC_LEADER \<in> set namespaces"
  by (simp_all add: namespaces_def)

lemma namespaces_distinct: "distinct namespaces"
  by (simp add: namespaces_def namespace_defs)

text \<open>Advisory keys of different purposes never collide, whatever the hash: the store gate,
  region, admission, scheduler-leader and GC-leader keys are pairwise different for any stores,
  regions and identities, and each fits a non-negative 64-bit signed integer.\<close>

theorem advisory_keys_disjoint:
  assumes "store_gate_key h rp s1 e1 x1 = Inr gate" "region_key h rp s2 r e2 x2 = Inr region"
    "admission_key h rp s3 e3 x3 = Inr admission"
  shows "distinct [gate, region, admission, scheduler_leader_key h i, gc_leader_key h j] \<and>
    (\<forall>k \<in> set [gate, region, admission, scheduler_leader_key h i, gc_leader_key h j].
       k < 0x8000000000000000)"
proof -
  obtain a b c where k: "gate = namespaced_key h NS_STORE_GATE a"
    "region = namespaced_key h NS_REGION_CONFLICT b" "admission = namespaced_key h NS_ADMISSION c"
    using assms by (auto simp: store_gate_key_def region_key_def admission_key_def bindE_eq_Inr)
  have "x < 0x8000000000000000" if "x < 0x5000000000000000" for x :: "64 word"
    using that by unat_arith
  then have "namespaced_key h ns y < 0x8000000000000000" if "ns \<in> set namespaces" for ns y
    using namespaced_key_sign [OF that] by blast
  moreover have "NS_STORE_GATE \<noteq> NS_REGION_CONFLICT" "NS_STORE_GATE \<noteq> NS_ADMISSION"
    "NS_STORE_GATE \<noteq> NS_SCHEDULER_LEADER" "NS_STORE_GATE \<noteq> NS_GC_LEADER"
    "NS_REGION_CONFLICT \<noteq> NS_ADMISSION" "NS_REGION_CONFLICT \<noteq> NS_SCHEDULER_LEADER"
    "NS_REGION_CONFLICT \<noteq> NS_GC_LEADER" "NS_ADMISSION \<noteq> NS_SCHEDULER_LEADER"
    "NS_ADMISSION \<noteq> NS_GC_LEADER" "NS_SCHEDULER_LEADER \<noteq> NS_GC_LEADER"
    using namespaces_distinct by (simp_all add: namespaces_def)
  ultimately show ?thesis
    unfolding k scheduler_leader_key_def gc_leader_key_def
    by (simp add: namespaces_members namespaced_key_distinct)
qed

theorem advisory_keys_disjoint_witness:
  "distinct [namespaced_key (\<lambda>_. 7) NS_STORE_GATE ''local://a'',
     namespaced_key (\<lambda>_. 7) NS_REGION_CONFLICT (''local://a'' @ [CHR 0x00] @ ''r''),
     namespaced_key (\<lambda>_. 7) NS_ADMISSION ''local://a'', scheduler_leader_key (\<lambda>_. 7) [],
     gc_leader_key (\<lambda>_. 7) []]"
proof -
  have i: "canonical_storage_identity (\<lambda>p. p) ''a'' None False = Inr ''local://a''" by code_simp
  show ?thesis
  proof (rule conjunct1 [OF advisory_keys_disjoint])
    show "store_gate_key (\<lambda>_. 7) (\<lambda>p. p) ''a'' None False
        = Inr (namespaced_key (\<lambda>_. 7) NS_STORE_GATE ''local://a'')"
      by (simp only: store_gate_key_def i bindE_simps)
    show "region_key (\<lambda>_. 7) (\<lambda>p. p) ''a'' ''r'' None False
        = Inr (namespaced_key (\<lambda>_. 7) NS_REGION_CONFLICT (''local://a'' @ [CHR 0x00] @ ''r''))"
      by (simp only: region_key_def i bindE_simps)
    show "admission_key (\<lambda>_. 7) (\<lambda>p. p) ''a'' None False
        = Inr (namespaced_key (\<lambda>_. 7) NS_ADMISSION ''local://a'')"
      by (simp only: admission_key_def i bindE_simps)
  qed
qed

subsection \<open>Storage identities\<close>

lemma rdropWhile_not_last: "py_rstrip_char c s = [] \<or> last (py_rstrip_char c s) \<noteq> c"
  using rdropWhile_last [of "\<lambda>d. d = c" s] by (auto simp: py_rstrip_char_def)

lemma py_strip_char_last: "py_strip_char c s = [] \<or> last (py_strip_char c s) \<noteq> c"
  using rdropWhile_last [of "\<lambda>d. d = c" "dropWhile (\<lambda>d. d = c) s"] by (auto simp: py_strip_char_def)

lemma partition_slash_join:
  assumes "CHR ''/'' \<in> set s"
  shows "fst (partition_slash s) @ CHR ''/'' # snd (partition_slash s) = s"
proof -
  have "dropWhile (\<lambda>c. c \<noteq> CHR ''/'') s \<noteq> []" using assms by simp
  then have "dropWhile (\<lambda>c. c \<noteq> CHR ''/'') s
      = CHR ''/'' # drop 1 (dropWhile (\<lambda>c. c \<noteq> CHR ''/'') s)"
    using hd_dropWhile [of "\<lambda>c. c \<noteq> CHR ''/''" s] by (cases "dropWhile (\<lambda>c. c \<noteq> CHR ''/'') s") auto
  then show ?thesis
    by (simp add: partition_slash_def)
qed

lemma rstrip_id: "s = [] \<or> last s \<noteq> c \<Longrightarrow> py_rstrip_char c s = s"
  unfolding py_rstrip_char_def by (rule rdropWhile_id) simp

text \<open>The host part of an S3 identity\<close>

definition identity_host :: "string option \<Rightarrow> bool \<Rightarrow> string" where
  "identity_host endpoint secure =
     drop_suffix (py_lower (case endpoint of Some e \<Rightarrow> e | None \<Rightarrow> []))
       (if secure then '':443'' else '':80'')"

text \<open>An S3 identity is the resolved endpoint followed by the trimmed path, a slash being added
  when there is only a bucket.\<close>

lemma s3_identity_eq:
  assumes "py_strip_char (CHR ''/'') p = rest" "rest \<noteq> []"
  shows "canonical_storage_identity rp (''s3://'' @ p) e secure =
    Inr (''s3://'' @ (if secure then ''https'' else ''http'') @ ''://'' @ identity_host e secure @ ''/''
      @ (if CHR ''/'' \<in> set rest then rest else rest @ ''/''))"
proof -
  have last: "last rest \<noteq> CHR ''/''" using py_strip_char_last [of "CHR ''/''" p] assms by blast
  have "py_rstrip_char (CHR ''/'') (snd (partition_slash rest)) = snd (partition_slash rest)"
    if "CHR ''/'' \<in> set rest"
    using last partition_slash_join [OF that]
    by (intro rstrip_id) (metis last_ConsR last_appendR list.distinct(1))
  then show ?thesis
    using assms partition_slash_join [of rest]
    by (auto simp: canonical_storage_identity_def identity_host_def Let_def py_rstrip_char_def
        rdropWhile_def split: prod.split)
qed

text \<open>The canonical identity of an S3 store is exact: at one resolved endpoint two store URLs
  have the same identity (hence the same gate and admission locks) iff their paths are the same up
  to leading and trailing slashes; an empty path is rejected.\<close>

theorem s3_identity_iff:
  assumes "canonical_storage_identity rp (''s3://'' @ p) e secure = Inr i"
    and "canonical_storage_identity rp (''s3://'' @ q) e secure = Inr j"
  shows "i = j \<longleftrightarrow> py_strip_char (CHR ''/'') p = py_strip_char (CHR ''/'') q"
proof -
  let ?p = "py_strip_char (CHR ''/'') p" and ?q = "py_strip_char (CHR ''/'') q"
  have ne: "?p \<noteq> []" "?q \<noteq> []"
    using assms by (auto simp: canonical_storage_identity_def split: if_splits)
  have last: "last ?p \<noteq> CHR ''/''" "last ?q \<noteq> CHR ''/''"
    using py_strip_char_last ne by blast+
  have "i = j \<longleftrightarrow> (if CHR ''/'' \<in> set ?p then ?p else ?p @ ''/'')
      = (if CHR ''/'' \<in> set ?q then ?q else ?q @ ''/'')"
    using assms s3_identity_eq [OF refl ne(1)] s3_identity_eq [OF refl ne(2)] by auto
  also have "\<dots> \<longleftrightarrow> ?p = ?q"
    using last by (auto dest: arg_cong [where f = last])
  finally show ?thesis .
qed

theorem s3_identity_iff_witness:
  "''s3://http://minio:9000/weather/gfs'' = (''s3://http://minio:9000/weather/gfs'' :: string) \<longleftrightarrow>
     py_strip_char (CHR ''/'') ''weather/gfs/'' = py_strip_char (CHR ''/'') ''/weather/gfs''"
proof (rule s3_identity_iff)
  show "canonical_storage_identity (\<lambda>p. p) (''s3://'' @ ''weather/gfs/'') (Some ''MinIO:9000'') False
      = Inr ''s3://http://minio:9000/weather/gfs''" by code_simp
  show "canonical_storage_identity (\<lambda>p. p) (''s3://'' @ ''/weather/gfs'') (Some ''MinIO:9000'') False
      = Inr ''s3://http://minio:9000/weather/gfs''" by code_simp
qed

subsection \<open>Regions and chunks\<close>

text \<open>The writer's region encoding and the collector's marker key name the same object: the
  commit marker of a region is the encoding of the region between the marker directory and the
  suffix, for each of the three target kinds.\<close>

theorem marker_key_is_region_encoding:
  "make_region_marker_relative_key ''det'' lead m =
     Inr (''__commit__/v1/regions/'' @ logical_region_encoding lead None False @ ''.json'') \<and>
   make_region_marker_relative_key ''mean'' lead m =
     Inr (''__commit__/v1/regions/'' @ logical_region_encoding lead m' True @ ''.json'') \<and>
   make_region_marker_relative_key ''mem'' lead m =
     Inr (''__commit__/v1/regions/'' @ logical_region_encoding lead (Some m) False @ ''.json'')"
  by (simp add: make_region_marker_relative_key_def normalize_member_index_def target_kind_defs
      logical_region_encoding_def Let_def)

lemma dot_not_in_int_str: "CHR ''.'' \<notin> set (int_str n)"
  using int_str_chars [of "CHR ''.''" n] by auto

lemma slash_not_in_coords: "CHR ''/'' \<notin> set (py_join ''.'' (map int_str cs))"
proof -
  have "CHR ''/'' \<notin> set (int_str n)" for n using int_str_chars [of "CHR ''/''" n] by auto
  then show ?thesis by (induction cs rule: induct_list012) auto
qed

lemma join_coords_inject:
  assumes "py_join ''.'' (map int_str cs) = py_join ''.'' (map int_str ds)"
  shows "cs = ds"
proof -
  have ne: "int_str n \<noteq> []" for n by (simp add: int_str_def)
  have split: "py_split (CHR ''.'') (py_join ''.'' (map int_str xs)) = map int_str xs"
    if "xs \<noteq> []" for xs
    using that dot_not_in_int_str by (intro py_split_join) auto
  have nil: "py_join ''.'' (map int_str xs) = [] \<longleftrightarrow> xs = []" for xs
    by (induction xs rule: induct_list012) (auto simp: ne)
  show ?thesis
  proof (cases "cs = [] \<or> ds = []")
    case True
    with nil [of cs] nil [of ds] assms show ?thesis by auto
  next
    case False
    with split [of cs] split [of ds] assms have "map int_str cs = map int_str ds" by metis
    then show ?thesis by (simp add: inj_map_eq_map inj_def)
  qed
qed

text \<open>The physical conflict identity is injective: two writes share it only when they touch the
  same chunk of the same array.\<close>

theorem physical_conflict_identity_injective:
  "physical_conflict_identity a cs = physical_conflict_identity b ds \<longleftrightarrow> a = b \<and> cs = ds"
proof
  assume "physical_conflict_identity a cs = physical_conflict_identity b ds"
  then have "rev (py_join ''.'' (map int_str cs)) @ CHR ''/'' # rev a
      = rev (py_join ''.'' (map int_str ds)) @ CHR ''/'' # rev b"
    unfolding physical_conflict_identity_def by (drule_tac arg_cong [where f = rev]) simp
  then have "rev (py_join ''.'' (map int_str cs)) = rev (py_join ''.'' (map int_str ds)) \<and> rev a = rev b"
    by (subst (asm) slash_append_inject) (simp_all add: slash_not_in_coords)
  then show "a = b \<and> cs = ds" using join_coords_inject by auto
qed simp

end
