(* ===== verification/StorageDtype.thy ===== *)
theory StorageDtype
  imports Reclamation
begin

text \<open>
  \<open>domain/storage_dtype.py\<close>: the storage dtype of a variable per format version and product role.
\<close>

datatype storage_dtype = Float16LE | Float32LE | UInt8

definition LEGACY_UNSHARDED_FORMAT_VERSION :: string where
  "LEGACY_UNSHARDED_FORMAT_VERSION = ''v2_unsharded''"
definition SHARDED_V1_FORMAT_VERSION :: string where "SHARDED_V1_FORMAT_VERSION = ''sharded_v1''"
definition SHARDED_V2_FORMAT_VERSION :: string where "SHARDED_V2_FORMAT_VERSION = ''sharded_v2''"

definition SHARDED_PAYLOAD_FORMATS :: "string set" where
  "SHARDED_PAYLOAD_FORMATS = {SHARDED_V1_FORMAT_VERSION, SHARDED_V2_FORMAT_VERSION}"

definition V2_FLOAT16_VARIABLES :: "string set" where
  "V2_FLOAT16_VARIABLES = {''temperature_2m'', ''relative_humidity_2m'', ''wind_u_10m'',
     ''wind_v_10m'', ''wind_gust'', ''precipitation_rate'', ''cloud_cover_3h'', ''snow_depth'',
     ''visibility''}"

definition V2_FLOAT32_VARIABLES :: "string set" where
  "V2_FLOAT32_VARIABLES = {''precipitation_amount_3h'', ''cloud_ceiling''}"

definition FLAG_VARIABLES :: "string set" where
  "FLAG_VARIABLES = {''crain'', ''csnow'', ''cfrzr'', ''cicep''}"

definition SHARDED_V2_KNOWN_VARIABLES :: "string set" where
  "SHARDED_V2_KNOWN_VARIABLES = V2_FLOAT16_VARIABLES \<union> V2_FLOAT32_VARIABLES \<union> FLAG_VARIABLES"

definition SHARDED_V1_PAYLOAD_DTYPE :: storage_dtype where "SHARDED_V1_PAYLOAD_DTYPE = Float32LE"

definition is_sharded_payload_format :: "string option \<Rightarrow> bool" where
  "is_sharded_payload_format format_version =
     (case format_version of None \<Rightarrow> False | Some f \<Rightarrow> f \<in> SHARDED_PAYLOAD_FORMATS)"

definition resolve_storage_dtype :: "string \<Rightarrow> string \<Rightarrow> string \<Rightarrow> storage_dtype result" where
  "resolve_storage_dtype format_version variable product_role =
     (if format_version = SHARDED_V1_FORMAT_VERSION then Inr SHARDED_V1_PAYLOAD_DTYPE
      else if format_version \<noteq> SHARDED_V2_FORMAT_VERSION
        then Inl (ValueError ''Unknown storage format version'')
      else if product_role \<notin> {TARGET_KIND_DET, TARGET_KIND_MEM, TARGET_KIND_MEAN}
        then Inl (ValueError ''Unknown product role'')
      else if variable \<in> V2_FLOAT16_VARIABLES then Inr Float16LE
      else if variable \<in> V2_FLOAT32_VARIABLES then Inr Float32LE
      else if variable \<in> FLAG_VARIABLES
        then (if product_role = TARGET_KIND_MEAN then Inr Float32LE else Inr UInt8)
      else Inl (ValueError ''no sharded_v2 dtype decision''))"

lemmas dtype_defs = SHARDED_V1_FORMAT_VERSION_def SHARDED_V2_FORMAT_VERSION_def
  SHARDED_V2_KNOWN_VARIABLES_def SHARDED_PAYLOAD_FORMATS_def

text \<open>The dtype resolver fails closed and never guesses: under \<open>sharded_v2\<close> it gives a dtype
  exactly for a known role and a known variable, it gives none for a format that is not sharded,
  and a dtype read as raw bytes (\<open>u1\<close>) is only ever given to a precipitation flag outside the
  ensemble mean.\<close>

theorem dtype_resolver_fail_closed:
  "((\<exists>d. resolve_storage_dtype ''sharded_v2'' v r = Inr d) \<longleftrightarrow>
      r \<in> VALID_TARGET_KINDS \<and> v \<in> SHARDED_V2_KNOWN_VARIABLES) \<and>
   (\<not> is_sharded_payload_format (Some f) \<longrightarrow> (\<exists>e. resolve_storage_dtype f v r = Inl e)) \<and>
   (resolve_storage_dtype f v r = Inr UInt8 \<longrightarrow> v \<in> FLAG_VARIABLES \<and> r \<noteq> ''mean'')"
  by (auto simp: resolve_storage_dtype_def dtype_defs VALID_TARGET_KINDS_def
      is_sharded_payload_format_def SHARDED_V1_PAYLOAD_DTYPE_def target_kind_defs)

theorem dtype_resolver_fail_closed_witness:
  "\<exists>e. resolve_storage_dtype LEGACY_UNSHARDED_FORMAT_VERSION ''crain'' ''det'' = Inl e"
  using dtype_resolver_fail_closed [of "''crain''" "''det''" LEGACY_UNSHARDED_FORMAT_VERSION]
  by (simp add: is_sharded_payload_format_def LEGACY_UNSHARDED_FORMAT_VERSION_def dtype_defs)

lemma gefs_variables_known: "gefs_region_variables \<subseteq> SHARDED_V2_KNOWN_VARIABLES"
  unfolding gefs_region_variables_def dtype_defs V2_FLOAT16_VARIABLES_def V2_FLOAT32_VARIABLES_def
    FLAG_VARIABLES_def by auto

lemma gfs_variables_known: "gfs_region_variables \<subseteq> SHARDED_V2_KNOWN_VARIABLES"
  using gefs_variables_known
  by (auto simp: gfs_region_variables_def SHARDED_V2_KNOWN_VARIABLES_def V2_FLOAT16_VARIABLES_def)

lemma dtype_resolver_total:
  assumes "f \<in> SHARDED_PAYLOAD_FORMATS" "r \<in> VALID_TARGET_KINDS" "v \<in> SHARDED_V2_KNOWN_VARIABLES"
  shows "\<exists>d. resolve_storage_dtype f v r = Inr d \<and> (r = ''mean'' \<longrightarrow> d \<noteq> UInt8)"
  using assms by (auto simp: resolve_storage_dtype_def dtype_defs VALID_TARGET_KINDS_def
      SHARDED_V1_PAYLOAD_DTYPE_def target_kind_defs)

text \<open>Every variable a default region must hold can be stored: for each model, version and kind
  of the default registry, every expected variable has a dtype under both sharded formats, and the
  flags of the ensemble mean, which are probabilities, are never stored as bytes.\<close>

theorem expected_variables_have_dtype:
  assumes "get_expected_region_variables DEFAULT_EXPECTED_REGION_VARIABLES m k ver None = Inr vs"
    and "v \<in> vs" and "f \<in> SHARDED_PAYLOAD_FORMATS"
  shows "\<exists>d. resolve_storage_dtype f v (norm_key k) = Inr d \<and> (norm_key k = ''mean'' \<longrightarrow> d \<noteq> UInt8)"
proof -
  have "(norm_key k \<in> VALID_TARGET_KINDS) \<and> (vs = gfs_region_variables \<or> vs = gefs_region_variables)"
    using assms(1)
    by (auto simp: get_expected_region_variables_def DEFAULT_EXPECTED_REGION_VARIABLES_def Let_def
        VALID_TARGET_KINDS_def target_kind_defs split: option.splits if_splits)
  then have "norm_key k \<in> VALID_TARGET_KINDS" "v \<in> SHARDED_V2_KNOWN_VARIABLES"
    using assms(2) gfs_variables_known gefs_variables_known by auto
  then show ?thesis
    using assms(3) dtype_resolver_total by blast
qed

theorem expected_variables_have_dtype_witness:
  "\<exists>d. resolve_storage_dtype ''sharded_v2'' ''cloud_ceiling'' ''mean'' = Inr d \<and> d \<noteq> UInt8"
proof -
  have "get_expected_region_variables DEFAULT_EXPECTED_REGION_VARIABLES ''gefs'' ''mean'' None None
      = Inr gefs_region_variables"
    by (simp add: get_expected_region_variables_def DEFAULT_EXPECTED_REGION_VARIABLES_def)
  moreover have "''cloud_ceiling'' \<in> gefs_region_variables" by (simp add: gefs_region_variables_def)
  ultimately show ?thesis
    using expected_variables_have_dtype [of "''gefs''" "''mean''" None gefs_region_variables
        "''cloud_ceiling''" "''sharded_v2''"]
    by (simp add: dtype_defs)
qed

end
