(* ===== verification/Precipitation.thy ===== *)
theory Precipitation
  imports PyFloat
begin

text \<open>
  \<open>domain/models/precipitation.py\<close>: the phase classification of a three-hour interval from
  amounts and flags, the phase weights of a member and their ensemble aggregates. Amounts are
  \<open>pyfloat\<close> values, weights and frequencies reals.
\<close>

datatype precipitation_type = PT_NONE | PT_RAIN | PT_SNOW | PT_FREEZING_RAIN | PT_ICE_PELLETS
  | PT_MIXED | PT_UNKNOWN

datatype physical_phase = PP_DRY | PP_RAIN | PP_SNOW | PP_FREEZING_RAIN | PP_ICE_PELLETS | PP_UNKNOWN

datatype precipitation_transition = TR_NONE | TR_PERSISTENT_RAIN | TR_PERSISTENT_SNOW
  | TR_PERSISTENT_FREEZING_RAIN | TR_PERSISTENT_ICE_PELLETS | TR_DRY_TO_RAIN | TR_DRY_TO_SNOW
  | TR_DRY_TO_FREEZING_RAIN | TR_DRY_TO_ICE_PELLETS | TR_WET_TO_DRY | TR_RAIN_TO_SNOW
  | TR_SNOW_TO_RAIN | TR_RAIN_TO_FREEZING_RAIN | TR_FREEZING_RAIN_TO_RAIN
  | TR_SNOW_TO_FREEZING_RAIN | TR_FREEZING_RAIN_TO_SNOW | TR_SNOW_TO_ICE_PELLETS
  | TR_ICE_PELLETS_TO_SNOW | TR_MIXED_TRANSITION | TR_UNKNOWN

datatype evidence_state = EV_EXACT | EV_STRONGLY_INFERRED | EV_AMBIGUOUS

text \<open>The members of an enum with their values, in declaration order\<close>

definition precipitation_types :: "(string \<times> precipitation_type) list" where
  "precipitation_types = [(''none'', PT_NONE), (''rain'', PT_RAIN), (''snow'', PT_SNOW),
     (''freezing_rain'', PT_FREEZING_RAIN), (''ice_pellets'', PT_ICE_PELLETS),
     (''mixed'', PT_MIXED), (''unknown'', PT_UNKNOWN)]"

fun phase_value :: "physical_phase \<Rightarrow> string" where
  "phase_value PP_DRY = ''dry''"
| "phase_value PP_RAIN = ''rain''"
| "phase_value PP_SNOW = ''snow''"
| "phase_value PP_FREEZING_RAIN = ''freezing_rain''"
| "phase_value PP_ICE_PELLETS = ''ice_pellets''"
| "phase_value PP_UNKNOWN = ''unknown''"

definition physical_phases :: "physical_phase list" where
  "physical_phases = [PP_DRY, PP_RAIN, PP_SNOW, PP_FREEZING_RAIN, PP_ICE_PELLETS, PP_UNKNOWN]"

definition precipitation_transitions :: "(string \<times> precipitation_transition) list" where
  "precipitation_transitions = [(''none'', TR_NONE), (''persistent_rain'', TR_PERSISTENT_RAIN),
     (''persistent_snow'', TR_PERSISTENT_SNOW),
     (''persistent_freezing_rain'', TR_PERSISTENT_FREEZING_RAIN),
     (''persistent_ice_pellets'', TR_PERSISTENT_ICE_PELLETS), (''dry_to_rain'', TR_DRY_TO_RAIN),
     (''dry_to_snow'', TR_DRY_TO_SNOW), (''dry_to_freezing_rain'', TR_DRY_TO_FREEZING_RAIN),
     (''dry_to_ice_pellets'', TR_DRY_TO_ICE_PELLETS), (''wet_to_dry'', TR_WET_TO_DRY),
     (''rain_to_snow'', TR_RAIN_TO_SNOW), (''snow_to_rain'', TR_SNOW_TO_RAIN),
     (''rain_to_freezing_rain'', TR_RAIN_TO_FREEZING_RAIN),
     (''freezing_rain_to_rain'', TR_FREEZING_RAIN_TO_RAIN),
     (''snow_to_freezing_rain'', TR_SNOW_TO_FREEZING_RAIN),
     (''freezing_rain_to_snow'', TR_FREEZING_RAIN_TO_SNOW),
     (''snow_to_ice_pellets'', TR_SNOW_TO_ICE_PELLETS),
     (''ice_pellets_to_snow'', TR_ICE_PELLETS_TO_SNOW),
     (''mixed_transition'', TR_MIXED_TRANSITION), (''unknown'', TR_UNKNOWN)]"

text \<open>\<open>PrecipitationType(p.value)\<close>: it raises for a value that is not a member\<close>

definition type_of_phase :: "physical_phase \<Rightarrow> precipitation_type result" where
  "type_of_phase p = (case map_of precipitation_types (phase_value p) of
      Some t \<Rightarrow> Inr t
    | None \<Rightarrow> Inl (ValueError ''not a valid PrecipitationType''))"

text \<open>\<open>PrecipitationTransition(name) if name in _value2member_map_ else dflt\<close>\<close>

definition transition_or :: "precipitation_transition \<Rightarrow> string \<Rightarrow> precipitation_transition" where
  "transition_or dflt name = (case map_of precipitation_transitions name of
      Some t \<Rightarrow> t | None \<Rightarrow> dflt)"

definition dry_to_transition :: "physical_phase \<Rightarrow> precipitation_transition" where
  "dry_to_transition p = transition_or TR_UNKNOWN (''dry_to_'' @ phase_value p)"

definition persistent_transition :: "physical_phase \<Rightarrow> precipitation_transition" where
  "persistent_transition p = transition_or TR_UNKNOWN (''persistent_'' @ phase_value p)"

definition change_transition :: "physical_phase \<Rightarrow> physical_phase \<Rightarrow> precipitation_transition" where
  "change_transition p q =
     transition_or TR_MIXED_TRANSITION (phase_value p @ ''_to_'' @ phase_value q)"

record precipitation_phase_state =
  interval_type :: precipitation_type
  start_type :: precipitation_type
  end_type :: precipitation_type
  transition :: precipitation_transition
  evidence :: evidence_state
  active_phases :: "physical_phase set"
  amount_3h_mm :: "pyfloat option"

definition TRACE_THRESHOLD_MM :: pyfloat where "TRACE_THRESHOLD_MM = Fin (1/10)"

text \<open>Flags come as a mapping (missing keys count as 0) or as a tuple.\<close>

datatype phase_flags = FlagMap "string \<rightharpoonup> int" | FlagTuple int int int int

definition flag_get :: "(string \<rightharpoonup> int) \<Rightarrow> string \<Rightarrow> int" where
  "flag_get m k = (case m k of Some v \<Rightarrow> v | None \<Rightarrow> 0)"

fun extract_active_physical_phases :: "phase_flags option \<Rightarrow> physical_phase set" where
  "extract_active_physical_phases None = {}"
| "extract_active_physical_phases (Some (FlagMap m)) =
     (if flag_get m ''crain'' \<noteq> 0 then {PP_RAIN} else {})
     \<union> (if flag_get m ''csnow'' \<noteq> 0 then {PP_SNOW} else {})
     \<union> (if flag_get m ''cfrzr'' \<noteq> 0 then {PP_FREEZING_RAIN} else {})
     \<union> (if flag_get m ''cicep'' \<noteq> 0 then {PP_ICE_PELLETS} else {})"
| "extract_active_physical_phases (Some (FlagTuple r s fr ip)) =
     (if r \<noteq> 0 then {PP_RAIN} else {}) \<union> (if s \<noteq> 0 then {PP_SNOW} else {})
     \<union> (if fr \<noteq> 0 then {PP_FREEZING_RAIN} else {}) \<union> (if ip \<noteq> 0 then {PP_ICE_PELLETS} else {})"

text \<open>The temperatures are parameters of the function and are not read by its body.\<close>

definition classify_precipitation_phase ::
    "pyfloat option \<Rightarrow> phase_flags option \<Rightarrow> pyfloat option \<Rightarrow> phase_flags option
     \<Rightarrow> pyfloat option \<Rightarrow> pyfloat option \<Rightarrow> pyfloat \<Rightarrow> precipitation_phase_state result" where
  "classify_precipitation_phase amount_curr flags_curr amount_prev flags_prev t2m_start t2m_end thr =
     (case (case amount_curr of None \<Rightarrow> None | Some a \<Rightarrow> if is_nan a then None else Some a) of
        None \<Rightarrow> Inr \<lparr>interval_type = PT_NONE, start_type = PT_NONE, end_type = PT_NONE,
                  transition = TR_NONE, evidence = EV_EXACT, active_phases = {}, amount_3h_mm = None\<rparr>
      | Some val_curr \<Rightarrow>
        if f_le val_curr thr then
          let is_wet_prev = (case amount_prev of Some p \<Rightarrow> f_lt thr p | None \<Rightarrow> False)
          in Inr \<lparr>interval_type = PT_NONE, start_type = PT_NONE, end_type = PT_NONE,
               transition = (if is_wet_prev then TR_WET_TO_DRY else TR_NONE),
               evidence = (if is_wet_prev then EV_STRONGLY_INFERRED else EV_EXACT),
               active_phases = {}, amount_3h_mm = Some val_curr\<rparr>
        else
          let curr_phases = extract_active_physical_phases flags_curr in
          if curr_phases = {} then
            Inr \<lparr>interval_type = PT_UNKNOWN, start_type = PT_UNKNOWN, end_type = PT_UNKNOWN,
              transition = TR_UNKNOWN, evidence = EV_AMBIGUOUS, active_phases = {PP_UNKNOWN},
              amount_3h_mm = Some val_curr\<rparr>
          else
            let prev_phases = extract_active_physical_phases flags_prev;
                is_prev_dry = (case amount_prev of None \<Rightarrow> True | Some p \<Rightarrow> f_le p thr);
                is_dry_prev = (case amount_prev of None \<Rightarrow> False | Some p \<Rightarrow> f_le p thr) in
            if is_prev_dry \<or> flags_prev = None then
              if card curr_phases = 1 then
                let p = the_elem curr_phases in
                bindE (type_of_phase p) (\<lambda>t_p.
                  Inr \<lparr>interval_type = t_p,
                       start_type = (if is_dry_prev then PT_NONE else t_p), end_type = t_p,
                       transition = (if is_dry_prev then dry_to_transition p
                                     else persistent_transition p),
                       evidence = EV_EXACT, active_phases = curr_phases, amount_3h_mm = Some val_curr\<rparr>)
              else
                Inr \<lparr>interval_type = PT_MIXED,
                  start_type = (if is_dry_prev then PT_NONE else PT_MIXED), end_type = PT_MIXED,
                  transition = TR_MIXED_TRANSITION, evidence = EV_STRONGLY_INFERRED,
                  active_phases = curr_phases, amount_3h_mm = Some val_curr\<rparr>
            else if curr_phases = prev_phases \<and> card curr_phases = 1 then
              let p = the_elem curr_phases in
              bindE (type_of_phase p) (\<lambda>t_p.
                Inr \<lparr>interval_type = t_p, start_type = t_p, end_type = t_p,
                  transition = persistent_transition p,
                  evidence = EV_EXACT, active_phases = curr_phases, amount_3h_mm = Some val_curr\<rparr>)
            else
              let new_phases = curr_phases - prev_phases in
              if card prev_phases = 1 \<and> card new_phases = 1 then
                let old_p = the_elem prev_phases; new_p = the_elem new_phases in
                bindE (type_of_phase old_p) (\<lambda>t_old.
                bindE (type_of_phase new_p) (\<lambda>t_new.
                  Inr \<lparr>interval_type = PT_MIXED, start_type = t_old, end_type = t_new,
                    transition = change_transition old_p new_p,
                    evidence = EV_STRONGLY_INFERRED, active_phases = curr_phases,
                    amount_3h_mm = Some val_curr\<rparr>))
              else
                bindE (if card prev_phases = 1 then type_of_phase (the_elem prev_phases)
                       else Inr PT_MIXED) (\<lambda>start_t.
                bindE (if card new_phases = 1 then type_of_phase (the_elem new_phases)
                       else Inr PT_MIXED) (\<lambda>end_t.
                  Inr \<lparr>interval_type = PT_MIXED, start_type = start_t, end_type = end_t,
                    transition = TR_MIXED_TRANSITION, evidence = EV_AMBIGUOUS,
                    active_phases = curr_phases, amount_3h_mm = Some val_curr\<rparr>)))"

text \<open>\<open>{p: 0.0 for p in PhysicalPhase}\<close> and its updates: a function on the phases\<close>

definition compute_phase_weights :: "precipitation_phase_state \<Rightarrow> physical_phase \<Rightarrow> real" where
  "compute_phase_weights state =
     (let weights = (\<lambda>p. 0) in
      if (case amount_3h_mm state of None \<Rightarrow> True | Some a \<Rightarrow> f_le a TRACE_THRESHOLD_MM)
         \<or> interval_type state = PT_NONE then weights(PP_DRY := 1)
      else if interval_type state = PT_UNKNOWN \<or> active_phases state = {}
        then weights(PP_UNKNOWN := 1)
      else
        let known_active = active_phases state - {PP_UNKNOWN, PP_DRY} in
        if known_active = {} then weights(PP_UNKNOWN := 1)
        else let split = 1 / real (card known_active)
             in (\<lambda>p. if p \<in> known_active then split else weights p))"

definition aggregate_ensemble_phase_support ::
    "precipitation_phase_state list \<Rightarrow> (physical_phase \<Rightarrow> real) result" where
  "aggregate_ensemble_phase_support member_states =
     (if member_states = [] then Inl (ValueError ''Cannot aggregate phase support'')
      else
        let n_members = real (length member_states)
        in Inr (fold (\<lambda>state support. \<lambda>p. support p + compute_phase_weights state p / n_members)
                  member_states (\<lambda>p. 0)))"

definition compute_joint_amount_phase_support ::
    "precipitation_phase_state list \<Rightarrow> pyfloat \<Rightarrow> physical_phase \<Rightarrow> real result" where
  "compute_joint_amount_phase_support member_states threshold_mm phase =
     (if member_states = [] then Inl (ValueError ''Cannot compute joint support'')
      else if f_lt threshold_mm (Fin 0) then Inl (ValueError ''threshold_mm must be non-negative'')
      else
        let n_members = real (length member_states);
            joint_mass = fold (\<lambda>state mass.
              let amount = (case amount_3h_mm state of Some a \<Rightarrow> a | None \<Rightarrow> Fin 0) in
              if f_le threshold_mm amount then mass + compute_phase_weights state phase else mass)
              member_states 0
        in Inr (joint_mass / n_members))"

definition compute_transition_frequencies ::
    "precipitation_phase_state list \<Rightarrow> (precipitation_transition \<Rightarrow> real) result" where
  "compute_transition_frequencies member_states =
     (if member_states = [] then Inl (ValueError ''Cannot compute transition frequencies'')
      else
        let n_members = real (length member_states)
        in Inr (fold (\<lambda>state freq. freq(transition state := freq (transition state) + 1 / n_members))
                  member_states (\<lambda>t. 0)))"

subsection \<open>Weights\<close>

lemma set_physical_phases [simp]: "set physical_phases = UNIV"
  by (auto simp: physical_phases_def) (metis physical_phase.exhaust)

instance physical_phase :: finite
  by standard (metis List.finite_set set_physical_phases)

lemma sum_split: "finite A \<Longrightarrow> A \<noteq> {} \<Longrightarrow> (\<Sum>p \<in> A. 1 / real (card A)) = 1"
  by simp

text \<open>The phases a member supports; its weight is split equally among them.\<close>

definition support_phases :: "precipitation_phase_state \<Rightarrow> physical_phase set" where
  "support_phases st =
     (if (case amount_3h_mm st of None \<Rightarrow> True | Some a \<Rightarrow> f_le a TRACE_THRESHOLD_MM)
         \<or> interval_type st = PT_NONE then {PP_DRY}
      else if interval_type st = PT_UNKNOWN \<or> active_phases st - {PP_UNKNOWN, PP_DRY} = {}
        then {PP_UNKNOWN}
      else active_phases st - {PP_UNKNOWN, PP_DRY})"

lemma support_phases_not_Nil: "support_phases st \<noteq> {}"
  by (simp add: support_phases_def)

lemma phase_weights_eq:
  "compute_phase_weights st =
     (\<lambda>p. if p \<in> support_phases st then 1 / real (card (support_phases st)) else 0)"
proof (cases "(case amount_3h_mm st of None \<Rightarrow> True | Some a \<Rightarrow> f_le a TRACE_THRESHOLD_MM)
    \<or> interval_type st = PT_NONE")
  case True
  then show ?thesis by (auto simp: compute_phase_weights_def support_phases_def Let_def fun_eq_iff)
next
  case False
  show ?thesis
  proof (cases "interval_type st = PT_UNKNOWN \<or> active_phases st - {PP_UNKNOWN, PP_DRY} = {}")
    case True
    with False have "support_phases st = {PP_UNKNOWN}" by (simp add: support_phases_def)
    moreover have "compute_phase_weights st = (\<lambda>p. 0)(PP_UNKNOWN := 1)"
      using True False by (auto simp: compute_phase_weights_def Let_def)
    ultimately show ?thesis by (auto simp: fun_eq_iff)
  next
    case known: False
    with False have "support_phases st = active_phases st - {PP_UNKNOWN, PP_DRY}"
      by (simp add: support_phases_def)
    moreover from known have "active_phases st \<noteq> {}" by auto
    ultimately show ?thesis
      using False known by (simp add: compute_phase_weights_def Let_def cong: if_cong)
  qed
qed

lemma phase_weights_sum: "(\<Sum>p \<in> UNIV. compute_phase_weights st p) = 1"
  using sum_split [OF finite support_phases_not_Nil [of st]]
  by (simp add: phase_weights_eq sum.If_cases)

lemma phase_weights_bounds: "0 \<le> compute_phase_weights st p" "compute_phase_weights st p \<le> 1"
proof -
  show nonneg: "0 \<le> compute_phase_weights st p" for p by (simp add: phase_weights_eq)
  have "compute_phase_weights st p \<le> (\<Sum>q \<in> UNIV. compute_phase_weights st q)"
    using nonneg by (intro member_le_sum) auto
  then show "compute_phase_weights st p \<le> 1" by (simp add: phase_weights_sum)
qed

lemma sum_list_div: "(\<Sum>x\<leftarrow>xs. g x / c) = (\<Sum>x\<leftarrow>xs. g x) / (c :: real)"
  by (induction xs) (simp_all add: add_divide_distrib)

lemma fold_add_fun:
  "fold (\<lambda>x f. \<lambda>p. f p + g x p) xs f0 p = f0 p + (\<Sum>x\<leftarrow>xs. g x (p :: 'p) :: real)"
  by (induction xs arbitrary: f0) (simp_all add: algebra_simps)

lemma aggregate_eq:
  "aggregate_ensemble_phase_support sts = Inr f \<longleftrightarrow>
     sts \<noteq> [] \<and> f = (\<lambda>p. \<Sum>st\<leftarrow>sts. compute_phase_weights st p / real (length sts))"
  by (auto simp: aggregate_ensemble_phase_support_def fold_add_fun)

lemma fold_joint:
  "fold (\<lambda>st m. if P st then m + w st else m) sts (m0 :: real)
     = m0 + (\<Sum>st\<leftarrow>sts. if P st then w st else 0)"
  by (induction sts arbitrary: m0) auto

text \<open>Whether a member reaches the threshold\<close>

definition exceeds :: "pyfloat \<Rightarrow> precipitation_phase_state \<Rightarrow> bool" where
  "exceeds thr st = f_le thr (case amount_3h_mm st of Some a \<Rightarrow> a | None \<Rightarrow> Fin 0)"

lemma joint_eq:
  "compute_joint_amount_phase_support sts thr ph = Inr x \<longleftrightarrow>
     sts \<noteq> [] \<and> \<not> f_lt thr (Fin 0) \<and>
     x = (\<Sum>st\<leftarrow>sts. if exceeds thr st then compute_phase_weights st ph else 0) / real (length sts)"
  by (auto simp: compute_joint_amount_phase_support_def exceeds_def fold_joint Let_def)

lemma sum_list_sum_swap:
  "finite A \<Longrightarrow> (\<Sum>p \<in> A. \<Sum>x\<leftarrow>xs. g x p) = (\<Sum>x\<leftarrow>xs. \<Sum>p \<in> A. g x p :: real)"
  by (induction xs) (simp_all add: sum.distrib)

text \<open>The ensemble phase support is a probability distribution over the physical phases: every
  support is at least 0 and the supports add up to 1; only an empty ensemble has none.\<close>

theorem ensemble_support_is_distribution:
  "case aggregate_ensemble_phase_support sts of
      Inl e \<Rightarrow> sts = []
    | Inr support \<Rightarrow> (\<forall>p. 0 \<le> support p) \<and> (\<Sum>p\<leftarrow>physical_phases. support p) = 1"
proof (cases "sts = []")
  case True
  then show ?thesis by (simp add: aggregate_ensemble_phase_support_def)
next
  case False
  define f where "f = (\<lambda>p. \<Sum>st\<leftarrow>sts. compute_phase_weights st p / real (length sts))"
  have a: "aggregate_ensemble_phase_support sts = Inr f" using False by (simp add: aggregate_eq f_def)
  have "(\<Sum>p\<leftarrow>physical_phases. f p) = (\<Sum>p \<in> set physical_phases. f p)"
    by (rule sum_list_distinct_conv_sum_set) (simp add: physical_phases_def)
  also have "\<dots> = (\<Sum>st\<leftarrow>sts. \<Sum>p \<in> UNIV. compute_phase_weights st p / real (length sts))"
    unfolding f_def by (simp add: sum_list_sum_swap)
  also have "\<dots> = (\<Sum>st\<leftarrow>sts. 1 / real (length sts))"
    by (simp add: sum_divide_distrib [symmetric] phase_weights_sum)
  also have "\<dots> = 1" using False by (simp add: sum_list_triv)
  finally have "(\<Sum>p\<leftarrow>physical_phases. f p) = 1" .
  moreover have "0 \<le> f p" for p
    unfolding f_def by (intro sum_list_nonneg) (auto simp: phase_weights_bounds)
  ultimately show ?thesis using a by simp
qed

lemma f_le_trans: "f_le x y \<Longrightarrow> f_le y z \<Longrightarrow> f_le x z"
  by (cases x; cases y; cases z) auto

text \<open>Raising the amount threshold never raises the joint support of a phase, and the joint
  support never exceeds the phase's marginal ensemble support.\<close>

theorem joint_support_antitone:
  assumes "compute_joint_amount_phase_support sts lo ph = Inr x"
    and "compute_joint_amount_phase_support sts hi ph = Inr y"
    and "f_le lo hi" and "aggregate_ensemble_phase_support sts = Inr support"
  shows "0 \<le> y \<and> y \<le> x \<and> x \<le> support ph"
proof -
  let ?w = "\<lambda>st. compute_phase_weights st ph" and ?n = "real (length sts)"
  have x: "x = (\<Sum>st\<leftarrow>sts. if exceeds lo st then ?w st else 0) / ?n"
    and y: "y = (\<Sum>st\<leftarrow>sts. if exceeds hi st then ?w st else 0) / ?n"
    and s: "support ph = (\<Sum>st\<leftarrow>sts. ?w st) / ?n"
    using assms(1,2,4) by (auto simp: joint_eq aggregate_eq sum_list_div)
  have "0 \<le> (\<Sum>st\<leftarrow>sts. if exceeds hi st then ?w st else 0)"
    by (intro sum_list_nonneg) (auto simp: phase_weights_bounds)
  moreover have "exceeds hi st \<Longrightarrow> exceeds lo st" for st
    using assms(3) f_le_trans by (auto simp: exceeds_def)
  then have "(\<Sum>st\<leftarrow>sts. if exceeds hi st then ?w st else 0)
      \<le> (\<Sum>st\<leftarrow>sts. if exceeds lo st then ?w st else 0)"
    by (intro sum_list_mono) (auto simp: phase_weights_bounds)
  moreover have "(\<Sum>st\<leftarrow>sts. if exceeds lo st then ?w st else 0) \<le> (\<Sum>st\<leftarrow>sts. ?w st)"
    by (intro sum_list_mono) (auto simp: phase_weights_bounds)
  ultimately show ?thesis unfolding x y s by (simp add: divide_right_mono)
qed

text \<open>The transition frequencies count the members: the frequency of a transition is the share of
  the members in it.\<close>

theorem transition_frequencies_count:
  "compute_transition_frequencies sts =
    (if sts = [] then Inl (ValueError ''Cannot compute transition frequencies'')
     else Inr (\<lambda>t. real (length (filter (\<lambda>st. transition st = t) sts)) / real (length sts)))"
proof -
  have "fold (\<lambda>st f. f(transition st := f (transition st) + 1 / n)) xs f0 t
      = f0 t + real (length (filter (\<lambda>st. transition st = t) xs)) / n"
    for xs :: "precipitation_phase_state list" and f0 t and n :: real
    by (induction xs arbitrary: f0) (auto simp: add_divide_distrib)
  then show ?thesis by (auto simp: compute_transition_frequencies_def fun_eq_iff)
qed

theorem joint_support_antitone_witness:
  "0 \<le> (1 :: real) \<and> (1 :: real) \<le> 1"
proof -
  define st where "st = \<lparr>interval_type = PT_RAIN, start_type = PT_RAIN, end_type = PT_RAIN,
    transition = TR_PERSISTENT_RAIN, evidence = EV_EXACT, active_phases = {PP_RAIN},
    amount_3h_mm = Some (Fin 2)\<rparr>"
  have s: "support_phases st = {PP_RAIN}"
    by (simp add: support_phases_def st_def TRACE_THRESHOLD_MM_def)
  have joint: "compute_joint_amount_phase_support [st] (Fin t) PP_RAIN = Inr 1" if "0 \<le> t" "t \<le> 2" for t
    using that by (simp add: joint_eq exceeds_def phase_weights_eq s) (simp add: st_def f_lt_def)
  have "aggregate_ensemble_phase_support [st] = Inr (\<lambda>p. \<Sum>st\<leftarrow>[st]. compute_phase_weights st p / real (length [st]))"
    by (simp only: aggregate_eq) simp
  from joint_support_antitone [OF joint [of 1] joint [of 2] _ this]
  show ?thesis by (simp add: phase_weights_eq s)
qed

subsection \<open>Classification\<close>

text \<open>The amount the classification works on: none at the analysis lead\<close>

definition known_amount :: "pyfloat option \<Rightarrow> pyfloat option" where
  "known_amount a = (case a of None \<Rightarrow> None | Some x \<Rightarrow> if is_nan x then None else Some x)"

definition is_wet :: "pyfloat option \<Rightarrow> pyfloat \<Rightarrow> bool" where
  "is_wet a thr = (case known_amount a of None \<Rightarrow> False | Some x \<Rightarrow> \<not> f_le x thr)"

lemma flagged_phases: "extract_active_physical_phases fl \<subseteq> {PP_RAIN, PP_SNOW, PP_FREEZING_RAIN, PP_ICE_PELLETS}"
  by (cases fl rule: extract_active_physical_phases.cases) auto

lemma type_of_wet_phase:
  assumes "p \<in> {PP_RAIN, PP_SNOW, PP_FREEZING_RAIN, PP_ICE_PELLETS}"
  shows "\<exists>t. type_of_phase p = Inr t \<and> t \<noteq> PT_NONE \<and> t \<noteq> PT_MIXED \<and> t \<noteq> PT_UNKNOWN"
  using assms by (auto simp: type_of_phase_def precipitation_types_def)

lemma single_phase:
  assumes "card A = 1" "A \<subseteq> B" shows "the_elem A \<in> B"
  using assms by (auto simp: card_1_singleton_iff)

lemma single_flagged_type:
  assumes "card A = 1" "A \<subseteq> extract_active_physical_phases fl"
  shows "\<exists>t. type_of_phase (the_elem A) = Inr t \<and> t \<noteq> PT_NONE \<and> t \<noteq> PT_MIXED \<and> t \<noteq> PT_UNKNOWN"
  using single_phase [OF assms(1)] assms(2) flagged_phases [of fl] by (blast intro: type_of_wet_phase)

lemma classified_state:
  "\<exists>st. classify_precipitation_phase a fl ap fp t0 t1 thr = Inr st \<and>
    (interval_type st = PT_NONE \<longleftrightarrow> \<not> is_wet a thr) \<and>
    (interval_type st = PT_UNKNOWN \<longleftrightarrow> is_wet a thr \<and> extract_active_physical_phases fl = {}) \<and>
    active_phases st = (if \<not> is_wet a thr then {}
       else if extract_active_physical_phases fl = {} then {PP_UNKNOWN}
       else extract_active_physical_phases fl) \<and>
    amount_3h_mm st = known_amount a"
proof -
  let ?cur = "extract_active_physical_phases fl" and ?prev = "extract_active_physical_phases fp"
  show ?thesis
  proof (cases "is_wet a thr \<and> ?cur \<noteq> {}")
    case False
    then show ?thesis
      by (cases a) (auto simp: classify_precipitation_phase_def is_wet_def known_amount_def Let_def
          split: option.split)
  next
    case True
    then obtain v where v: "known_amount a = Some v" "\<not> f_le v thr"
      by (auto simp: is_wet_def split: option.splits)
    obtain tc where tc: "card ?cur = 1 \<Longrightarrow> type_of_phase (the_elem ?cur) = Inr tc \<and>
        tc \<noteq> PT_NONE \<and> tc \<noteq> PT_UNKNOWN"
      using single_flagged_type [of ?cur fl] by blast
    obtain tp where tp: "card ?prev = 1 \<Longrightarrow> type_of_phase (the_elem ?prev) = Inr tp \<and>
        tp \<noteq> PT_NONE \<and> tp \<noteq> PT_UNKNOWN"
      using single_flagged_type [of ?prev fp] by blast
    obtain tn where tn: "card (?cur - ?prev) = 1 \<Longrightarrow> type_of_phase (the_elem (?cur - ?prev)) = Inr tn"
      using single_flagged_type [of "?cur - ?prev" fl] by blast
    show ?thesis
      using True v tc tp tn
      unfolding classify_precipitation_phase_def known_amount_def [symmetric]
      by (simp add: Let_def)
  qed
qed

text \<open>The classification is total and its phases are the evidence: it never raises; the interval
  is \<open>none\<close> exactly when the amount is missing or at most the threshold, \<open>unknown\<close> exactly when
  it is wet without any flag, and a wet interval's active phases are exactly the flagged ones.\<close>

theorem classification_total_and_faithful:
  "\<exists>st. classify_precipitation_phase a fl ap fp t0 t1 thr = Inr st \<and>
    (interval_type st = PT_NONE \<longleftrightarrow> \<not> is_wet a thr) \<and>
    (interval_type st = PT_UNKNOWN \<longleftrightarrow> is_wet a thr \<and> extract_active_physical_phases fl = {}) \<and>
    active_phases st = (if \<not> is_wet a thr then {}
       else if extract_active_physical_phases fl = {} then {PP_UNKNOWN}
       else extract_active_physical_phases fl) \<and>
    amount_3h_mm st = known_amount a"
  by (rule classified_state)

text \<open>The phases a transition names at its two ends\<close>

fun transition_ends ::
    "precipitation_transition \<Rightarrow> (precipitation_type \<times> precipitation_type) option" where
  "transition_ends TR_PERSISTENT_RAIN = Some (PT_RAIN, PT_RAIN)"
| "transition_ends TR_PERSISTENT_SNOW = Some (PT_SNOW, PT_SNOW)"
| "transition_ends TR_PERSISTENT_FREEZING_RAIN = Some (PT_FREEZING_RAIN, PT_FREEZING_RAIN)"
| "transition_ends TR_PERSISTENT_ICE_PELLETS = Some (PT_ICE_PELLETS, PT_ICE_PELLETS)"
| "transition_ends TR_DRY_TO_RAIN = Some (PT_NONE, PT_RAIN)"
| "transition_ends TR_DRY_TO_SNOW = Some (PT_NONE, PT_SNOW)"
| "transition_ends TR_DRY_TO_FREEZING_RAIN = Some (PT_NONE, PT_FREEZING_RAIN)"
| "transition_ends TR_DRY_TO_ICE_PELLETS = Some (PT_NONE, PT_ICE_PELLETS)"
| "transition_ends TR_RAIN_TO_SNOW = Some (PT_RAIN, PT_SNOW)"
| "transition_ends TR_SNOW_TO_RAIN = Some (PT_SNOW, PT_RAIN)"
| "transition_ends TR_RAIN_TO_FREEZING_RAIN = Some (PT_RAIN, PT_FREEZING_RAIN)"
| "transition_ends TR_FREEZING_RAIN_TO_RAIN = Some (PT_FREEZING_RAIN, PT_RAIN)"
| "transition_ends TR_SNOW_TO_FREEZING_RAIN = Some (PT_SNOW, PT_FREEZING_RAIN)"
| "transition_ends TR_FREEZING_RAIN_TO_SNOW = Some (PT_FREEZING_RAIN, PT_SNOW)"
| "transition_ends TR_SNOW_TO_ICE_PELLETS = Some (PT_SNOW, PT_ICE_PELLETS)"
| "transition_ends TR_ICE_PELLETS_TO_SNOW = Some (PT_ICE_PELLETS, PT_SNOW)"
| "transition_ends _ = None"

definition transition_fits :: "precipitation_transition \<Rightarrow> precipitation_type \<Rightarrow> precipitation_type \<Rightarrow> bool" where
  "transition_fits tr s e \<longleftrightarrow> tr \<noteq> TR_UNKNOWN \<and> (\<forall>x y. transition_ends tr = Some (x, y) \<longrightarrow> x = s \<and> y = e)"

lemma transition_tables:
  "map dry_to_transition [PP_RAIN, PP_SNOW, PP_FREEZING_RAIN, PP_ICE_PELLETS]
     = [TR_DRY_TO_RAIN, TR_DRY_TO_SNOW, TR_DRY_TO_FREEZING_RAIN, TR_DRY_TO_ICE_PELLETS]"
  "map persistent_transition [PP_RAIN, PP_SNOW, PP_FREEZING_RAIN, PP_ICE_PELLETS]
     = [TR_PERSISTENT_RAIN, TR_PERSISTENT_SNOW, TR_PERSISTENT_FREEZING_RAIN, TR_PERSISTENT_ICE_PELLETS]"
  "map (change_transition PP_RAIN) [PP_SNOW, PP_FREEZING_RAIN, PP_ICE_PELLETS]
     = [TR_RAIN_TO_SNOW, TR_RAIN_TO_FREEZING_RAIN, TR_MIXED_TRANSITION]"
  "map (change_transition PP_SNOW) [PP_RAIN, PP_FREEZING_RAIN, PP_ICE_PELLETS]
     = [TR_SNOW_TO_RAIN, TR_SNOW_TO_FREEZING_RAIN, TR_SNOW_TO_ICE_PELLETS]"
  "map (change_transition PP_FREEZING_RAIN) [PP_RAIN, PP_SNOW, PP_ICE_PELLETS]
     = [TR_FREEZING_RAIN_TO_RAIN, TR_FREEZING_RAIN_TO_SNOW, TR_MIXED_TRANSITION]"
  "map (change_transition PP_ICE_PELLETS) [PP_RAIN, PP_SNOW, PP_FREEZING_RAIN]
     = [TR_MIXED_TRANSITION, TR_ICE_PELLETS_TO_SNOW, TR_MIXED_TRANSITION]"
  "map type_of_phase [PP_RAIN, PP_SNOW, PP_FREEZING_RAIN, PP_ICE_PELLETS]
     = [Inr PT_RAIN, Inr PT_SNOW, Inr PT_FREEZING_RAIN, Inr PT_ICE_PELLETS]"
  by code_simp+

lemma single_transitions:
  assumes "p \<in> {PP_RAIN, PP_SNOW, PP_FREEZING_RAIN, PP_ICE_PELLETS}" "type_of_phase p = Inr t"
  shows "transition_fits (dry_to_transition p) PT_NONE t"
    "transition_fits (persistent_transition p) t t"
  using assms transition_tables by (auto simp: transition_fits_def)

lemma change_transitions:
  assumes "p \<in> {PP_RAIN, PP_SNOW, PP_FREEZING_RAIN, PP_ICE_PELLETS}" "type_of_phase p = Inr t"
    "q \<in> {PP_RAIN, PP_SNOW, PP_FREEZING_RAIN, PP_ICE_PELLETS}" "type_of_phase q = Inr u" "p \<noteq> q"
  shows "transition_fits (change_transition p q) t u"
  using assms transition_tables by (auto simp: transition_fits_def)

lemma mixed_fits [simp]: "transition_fits TR_MIXED_TRANSITION s e" "transition_fits TR_NONE s e"
    "transition_fits TR_WET_TO_DRY s e"
  by (simp_all add: transition_fits_def)

text \<open>A classified transition names the phases at the two ends of the interval: whenever a wet
  interval carries flags, the transition is never \<open>unknown\<close> (the name built from the phases is
  always a member of the enum or replaced by the mixed transition), and a transition that names a
  start and an end phase names the state's start and end types.\<close>

theorem transition_names_its_ends:
  assumes "classify_precipitation_phase a fl ap fp t0 t1 thr = Inr st"
    and "\<not> (is_wet a thr \<and> extract_active_physical_phases fl = {})"
  shows "transition_fits (transition st) (start_type st) (end_type st)"
proof (cases "is_wet a thr")
  case False
  with assms(1) show ?thesis
    by (cases a) (auto simp: classify_precipitation_phase_def is_wet_def known_amount_def Let_def
        split: option.splits if_splits)
next
  case True
  let ?cur = "extract_active_physical_phases fl" and ?prev = "extract_active_physical_phases fp"
  let ?wet = "{PP_RAIN, PP_SNOW, PP_FREEZING_RAIN, PP_ICE_PELLETS}"
  obtain v where v: "known_amount a = Some v" "\<not> f_le v thr" "?cur \<noteq> {}"
    using True assms(2) by (auto simp: is_wet_def split: option.splits)
  have elem: "the_elem A \<in> ?wet" if "card A = 1" "A \<subseteq> extract_active_physical_phases g" for A g
    using single_phase [OF that(1)] that(2) flagged_phases [of g] by blast
  have ne: "the_elem ?prev \<noteq> the_elem (?cur - ?prev)" if "card ?prev = 1" "card (?cur - ?prev) = 1"
    using single_phase [OF that(1) subset_refl] single_phase [OF that(2) subset_refl] by auto
  obtain tc where tc: "card ?cur = 1 \<longrightarrow> type_of_phase (the_elem ?cur) = Inr tc \<and>
      transition_fits (dry_to_transition (the_elem ?cur)) PT_NONE tc \<and>
      transition_fits (persistent_transition (the_elem ?cur)) tc tc"
    using single_flagged_type [of ?cur fl] single_transitions [OF elem [of ?cur fl]] by blast
  obtain tp where tp: "card ?prev = 1 \<longrightarrow> type_of_phase (the_elem ?prev) = Inr tp"
    using single_flagged_type [of ?prev fp] by blast
  obtain tn where tn: "card (?cur - ?prev) = 1 \<longrightarrow> type_of_phase (the_elem (?cur - ?prev)) = Inr tn"
    using single_flagged_type [of "?cur - ?prev" fl] by blast
  have chg: "card ?prev = 1 \<and> card (?cur - ?prev) = 1 \<longrightarrow>
      transition_fits (change_transition (the_elem ?prev) (the_elem (?cur - ?prev))) tp tn"
    using change_transitions [OF elem [of ?prev fp] _ elem [of "?cur - ?prev" fl]] ne tp tn by blast
  show ?thesis
    using assms(1) v tc tp tn chg
    unfolding classify_precipitation_phase_def known_amount_def [symmetric]
    by (simp add: Let_def split: if_splits) (auto split: if_splits)
qed

theorem transition_names_its_ends_witness:
  "transition_fits TR_RAIN_TO_SNOW PT_RAIN PT_SNOW"
proof -
  have "classify_precipitation_phase (Some (Fin 2)) (Some (FlagTuple 0 1 0 0)) (Some (Fin 1))
      (Some (FlagTuple 1 0 0 0)) None None TRACE_THRESHOLD_MM
    = Inr \<lparr>interval_type = PT_MIXED, start_type = PT_RAIN, end_type = PT_SNOW,
        transition = TR_RAIN_TO_SNOW, evidence = EV_STRONGLY_INFERRED, active_phases = {PP_SNOW},
        amount_3h_mm = Some (Fin 2)\<rparr>"
    using transition_tables
    by (simp add: classify_precipitation_phase_def TRACE_THRESHOLD_MM_def Let_def is_nan_def)
  from transition_names_its_ends [OF this] show ?thesis by simp
qed

text \<open>The phase weights of a classified member, under the platform threshold: a dry or unknown
  amount gives all its weight to \<open>dry\<close>, a wet interval without flags to \<open>unknown\<close>, and a wet
  interval with flags splits it equally over exactly the flagged phases.\<close>

theorem weights_of_classified_member:
  "map_sum id compute_phase_weights
      (classify_precipitation_phase a fl ap fp t0 t1 TRACE_THRESHOLD_MM) =
    Inr (if \<not> is_wet a TRACE_THRESHOLD_MM then (\<lambda>p. 0)(PP_DRY := 1)
         else if extract_active_physical_phases fl = {} then (\<lambda>p. 0)(PP_UNKNOWN := 1)
         else (\<lambda>p. if p \<in> extract_active_physical_phases fl
                   then 1 / real (card (extract_active_physical_phases fl)) else 0))"
proof -
  let ?cur = "extract_active_physical_phases fl"
  obtain st where st: "classify_precipitation_phase a fl ap fp t0 t1 TRACE_THRESHOLD_MM = Inr st"
    and f: "interval_type st = PT_NONE \<longleftrightarrow> \<not> is_wet a TRACE_THRESHOLD_MM"
    "interval_type st = PT_UNKNOWN \<longleftrightarrow> is_wet a TRACE_THRESHOLD_MM \<and> ?cur = {}"
    "active_phases st = (if \<not> is_wet a TRACE_THRESHOLD_MM then {}
       else if ?cur = {} then {PP_UNKNOWN} else ?cur)"
    "amount_3h_mm st = known_amount a"
    using classified_state [of a fl ap fp t0 t1 TRACE_THRESHOLD_MM] by blast
  have cur: "?cur - {PP_UNKNOWN, PP_DRY} = ?cur" using flagged_phases [of fl] by auto
  have "support_phases st = (if \<not> is_wet a TRACE_THRESHOLD_MM then {PP_DRY}
      else if ?cur = {} then {PP_UNKNOWN} else ?cur)"
    using f cur by (auto simp: support_phases_def is_wet_def split: option.splits)
  then show ?thesis by (simp add: st phase_weights_eq fun_eq_iff)
qed

text \<open>A custom trace threshold is not carried into the weights: classified with a threshold of
  0.05 mm, 0.08 mm of rain is a rainy interval, but its phase weight is all \<open>dry\<close>, because the
  weights compare the amount with the platform threshold.\<close>

theorem custom_threshold_not_in_weights:
  "\<exists>st. classify_precipitation_phase (Some (Fin (8/100))) (Some (FlagTuple 1 0 0 0)) None None
       None None (Fin (5/100)) = Inr st \<and>
     interval_type st = PT_RAIN \<and> active_phases st = {PP_RAIN} \<and>
     compute_phase_weights st PP_DRY = 1 \<and> compute_phase_weights st PP_RAIN = 0"
  using transition_tables
  by (simp add: classify_precipitation_phase_def is_nan_def Let_def compute_phase_weights_def
      TRACE_THRESHOLD_MM_def)

end
