(* ===== verification/IdxParser.thy ===== *)
theory IdxParser
  imports Prelude
begin

text \<open>
  \<open>ingestion/providers/noaa/idx_parser.py\<close>: the strict parser of the NOMADS byte index, the
  selection of the records of each variable for GFS and GEFS, and the grouping of records into
  contiguous byte spans. The dictionary of selections is an association list in insertion order.
\<close>

datatype selection_status = SELECTED | UNSUPPORTED | REQUIRED_BUT_MISSING | AMBIGUOUS

record idx_record =
  record_number :: int
  start_offset :: int
  end_offset :: "int option"
  date_token :: string
  parameter :: string
  level_description :: string
  forecast_description :: string
  ensemble_description :: string
  raw_line :: string

definition byte_length :: "idx_record \<Rightarrow> int option" where
  "byte_length r = map_option (\<lambda>e. e - start_offset r + 1) (end_offset r)"

record variable_selection =
  vs_variable_code :: string
  vs_status :: selection_status
  vs_record :: "idx_record option"
  vs_matched_records :: "idx_record list"

record selection_result =
  sr_selected_records :: "idx_record list"
  sr_variable_selections :: "(string \<times> variable_selection) list"
  sr_missing_required :: "string list"
  sr_unsupported :: "string list"
  sr_ambiguous :: "string list"

definition is_valid :: "selection_result \<Rightarrow> bool" where
  "is_valid r = (sr_missing_required r = [] \<and> sr_ambiguous r = [])"

subsection \<open>Parsing\<close>

text \<open>The body of the loop over the numbered lines; the state is the raw records read so far (the
  end offset still open) and the previous offset.\<close>

definition parse_idx_line ::
    "nat \<times> string \<Rightarrow> idx_record list \<times> int \<Rightarrow> (idx_record list \<times> int) result" where
  "parse_idx_line item st = (case item of (idx, line) \<Rightarrow> case st of (raw_records, prev_offset) \<Rightarrow>
     (let parts = py_split (CHR '':'') line in
      if length parts < 6 then Inl (IdxParseError (idx + 1) ''expected at least 6 fields'')
      else (case parse_int (parts ! 0) of
        None \<Rightarrow> Inl (IdxParseError (idx + 1) ''Invalid record number'')
      | Some rec_no \<Rightarrow>
        if rec_no \<noteq> int (idx + 1) then Inl (IdxParseError (idx + 1) ''Non-sequential record number'')
        else (case parse_int (parts ! 1) of
          None \<Rightarrow> Inl (IdxParseError (idx + 1) ''Invalid byte offset'')
        | Some start \<Rightarrow>
          if start < 0 then Inl (IdxParseError (idx + 1) ''Negative byte offset'')
          else if idx = 0 \<and> start \<noteq> 0
            then Inl (IdxParseError (idx + 1) ''First record must start at byte offset 0'')
          else if 0 < idx \<and> start \<le> prev_offset
            then Inl (IdxParseError (idx + 1) ''Non-increasing byte offset'')
          else Inr (raw_records @ [\<lparr>record_number = rec_no, start_offset = start,
             end_offset = None, date_token = py_strip (parts ! 2), parameter = py_strip (parts ! 3),
             level_description = py_strip (parts ! 4), forecast_description = py_strip (parts ! 5),
             ensemble_description =
               (if 6 < length parts then py_strip (py_join '':'' (drop 6 parts)) else []),
             raw_line = line\<rparr>], start)))))"

text \<open>The second loop: each record ends where the next one starts.\<close>

fun bound_records :: "idx_record list \<Rightarrow> idx_record list" where
  "bound_records (r # s # rs) =
     r\<lparr>end_offset := Some (start_offset s - 1)\<rparr> # bound_records (s # rs)"
| "bound_records rs = rs"

definition parse_idx :: "string \<Rightarrow> idx_record list result" where
  "parse_idx txt =
     (let stripped = py_strip txt in
      if stripped = [] then Inl (IdxParseError 0 ''Empty or whitespace-only .idx content'')
      else
        let lns = filter (\<lambda>l. l \<noteq> []) (map py_strip (py_splitlines stripped)) in
        if lns = [] then Inl (IdxParseError 0 ''No valid record lines found in .idx'')
        else bindE (foldE parse_idx_line (zip [0..<length lns] lns) ([], - 1))
               (\<lambda>(raw_records, prev_offset). Inr (bound_records raw_records)))"

subsection \<open>Matching descriptions\<close>

definition clean_text :: "string \<Rightarrow> string" where "clean_text s = py_lower (py_strip s)"

definition matches_step :: "string \<Rightarrow> int \<Rightarrow> bool" where
  "matches_step desc lead_time_hours =
     (if lead_time_hours = 0 then clean_text desc \<in> {''anl'', ''0 hour fcst'', ''0 hour fcst:''}
      else clean_text desc = int_str lead_time_hours @ '' hour fcst'')"

definition expected_description :: "string \<Rightarrow> int \<Rightarrow> string option" where
  "expected_description kind lead =
     (if lead \<le> 0 then None
      else if lead mod 6 = 3
        then Some (int_str (lead - 3) @ ''-'' @ int_str lead @ '' hour '' @ kind @ '' fcst'')
      else if lead mod 6 = 0
        then Some (int_str (lead - 6) @ ''-'' @ int_str lead @ '' hour '' @ kind @ '' fcst'')
      else None)"

definition expected_apcp_description :: "int \<Rightarrow> string option" where
  "expected_apcp_description lead = expected_description ''acc'' lead"

definition expected_categorical_description :: "int \<Rightarrow> string option" where
  "expected_categorical_description lead = expected_description ''ave'' lead"

definition matches_gefs_member :: "string \<Rightarrow> int option \<Rightarrow> bool \<Rightarrow> bool" where
  "matches_gefs_member ens_desc target_member is_mean =
     (let clean = py_strip ens_desc in
      if is_mean then py_lower clean \<in> {''ens mean'', ''ens_mean'', []}
      else if clean = [] then True
      else (case target_member of
          None \<Rightarrow> False
        | Some m \<Rightarrow>
            clean = ''ENS=+'' @ int_str m \<or> clean = ''ENS=+'' @ fmt0 2 m
            \<or> clean = ''ENS='' @ int_str m \<or> clean = ''ENS='' @ fmt0 2 m
            \<or> (m = 0 \<and> clean \<in> {''ENS=0'', ''ENS=c00'', ''ENS=ctl''})))"

subsection \<open>Selection\<close>

text \<open>The accumulators of the selection loop\<close>

record selection_state =
  ss_selections :: "(string \<times> variable_selection) list"
  ss_selected :: "idx_record list"
  ss_missing :: "string list"
  ss_unsupported :: "string list"
  ss_ambiguous :: "string list"

definition empty_selection :: selection_state where
  "empty_selection = \<lparr>ss_selections = [], ss_selected = [], ss_missing = [], ss_unsupported = [],
     ss_ambiguous = []\<rparr>"

definition mk_selection ::
    "string \<Rightarrow> selection_status \<Rightarrow> idx_record option \<Rightarrow> idx_record list \<Rightarrow> variable_selection" where
  "mk_selection var status r ms =
     \<lparr>vs_variable_code = var, vs_status = status, vs_record = r, vs_matched_records = ms\<rparr>"

definition record_selection ::
    "string \<Rightarrow> idx_record list \<Rightarrow> selection_state \<Rightarrow> selection_state" where
  "record_selection var matches st = (case matches of
      [r] \<Rightarrow> st\<lparr>ss_selections := AList.update var (mk_selection var SELECTED (Some r) matches)
                 (ss_selections st), ss_selected := ss_selected st @ [r]\<rparr>
    | [] \<Rightarrow> st\<lparr>ss_selections := AList.update var (mk_selection var REQUIRED_BUT_MISSING None [])
                 (ss_selections st), ss_missing := ss_missing st @ [var]\<rparr>
    | _ \<Rightarrow> st\<lparr>ss_selections := AList.update var (mk_selection var AMBIGUOUS None matches)
                 (ss_selections st), ss_ambiguous := ss_ambiguous st @ [var]\<rparr>)"

definition select_unsupported :: "string \<Rightarrow> selection_state \<Rightarrow> selection_state" where
  "select_unsupported var st =
     st\<lparr>ss_selections := AList.update var (mk_selection var UNSUPPORTED None []) (ss_selections st),
        ss_unsupported := ss_unsupported st @ [var]\<rparr>"

text \<open>An interval variable: no record at lead 0, none for a lead off the three-hour grid, and of
  several matches the first\<close>

definition select_interval ::
    "string \<Rightarrow> int \<Rightarrow> string option \<Rightarrow> (string \<Rightarrow> idx_record list) \<Rightarrow> selection_state
     \<Rightarrow> selection_state" where
  "select_interval var lead expected_desc find_matches st =
     (if lead = 0 then
        st\<lparr>ss_selections := AList.update var (mk_selection var SELECTED None []) (ss_selections st)\<rparr>
      else (case expected_desc of
          None \<Rightarrow> select_unsupported var st
        | Some d \<Rightarrow>
            let matches = find_matches d in
            record_selection var (if 1 < length matches then [matches ! 0] else matches) st))"

text \<open>The records of one parameter and level, at the step or with the interval description\<close>

definition step_matches :: "(idx_record \<Rightarrow> bool) \<Rightarrow> idx_record list \<Rightarrow> string \<Rightarrow> string \<Rightarrow> int \<Rightarrow> idx_record list" where
  "step_matches keep records param level lead =
     filter (\<lambda>r. parameter r = param \<and> level_description r = level
                 \<and> matches_step (forecast_description r) lead \<and> keep r) records"

definition interval_matches ::
    "(idx_record \<Rightarrow> bool) \<Rightarrow> idx_record list \<Rightarrow> string \<Rightarrow> string \<Rightarrow> string \<Rightarrow> idx_record list" where
  "interval_matches keep records param level d =
     filter (\<lambda>r. parameter r = param \<and> level_description r = level
                 \<and> clean_text (forecast_description r) = d \<and> keep r) records"

text \<open>The body of the GFS loop\<close>

definition select_gfs_variable ::
    "idx_record list \<Rightarrow> int \<Rightarrow> string \<Rightarrow> selection_state \<Rightarrow> selection_state" where
  "select_gfs_variable records lead var st =
     (let step = (\<lambda>param level. record_selection var (step_matches (\<lambda>r. True) records param level lead) st);
          interval = (\<lambda>desc param level. select_interval var lead desc
                        (interval_matches (\<lambda>r. True) records param level) st) in
      if var = ''temperature_2m'' then step ''TMP'' ''2 m above ground''
      else if var = ''precipitation_rate'' then
        record_selection var (step_matches
          (\<lambda>r. \<not> contains_str ''ave fcst'' (forecast_description r)
               \<and> \<not> contains_str ''acc fcst'' (forecast_description r)) records ''PRATE'' ''surface'' lead) st
      else if var = ''relative_humidity_2m'' then step ''RH'' ''2 m above ground''
      else if var = ''wind_gust'' then step ''GUST'' ''surface''
      else if var = ''visibility'' then step ''VIS'' ''surface''
      else if var = ''snow_depth'' then step ''SNOD'' ''surface''
      else if var = ''wind_u_10m'' then step ''UGRD'' ''10 m above ground''
      else if var = ''wind_v_10m'' then step ''VGRD'' ''10 m above ground''
      else if var = ''precipitation_amount_3h''
        then interval (expected_apcp_description lead) ''APCP'' ''surface''
      else if var \<in> {''crain'', ''csnow'', ''cfrzr'', ''cicep''}
        then interval (expected_categorical_description lead) (py_upper var) ''surface''
      else if var = ''cloud_cover_3h''
        then interval (expected_categorical_description lead) ''TCDC'' ''entire atmosphere''
      else if var = ''cloud_ceiling'' then step ''HGT'' ''cloud ceiling''
      else select_unsupported var st)"

text \<open>The body of the GEFS loop\<close>

definition select_gefs_variable ::
    "idx_record list \<Rightarrow> int option \<Rightarrow> int \<Rightarrow> bool \<Rightarrow> string \<Rightarrow> selection_state \<Rightarrow> selection_state" where
  "select_gefs_variable records member lead is_mean var st =
     (let keep = (\<lambda>r. matches_gefs_member (ensemble_description r) member is_mean);
          step = (\<lambda>param level. record_selection var (step_matches keep records param level lead) st);
          interval = (\<lambda>desc param level. select_interval var lead desc
                        (interval_matches keep records param level) st) in
      if var = ''temperature_2m'' then step ''TMP'' ''2 m above ground''
      else if var = ''precipitation_rate'' then select_unsupported var st
      else if var = ''relative_humidity_2m'' then step ''RH'' ''2 m above ground''
      else if var = ''wind_gust'' then step ''GUST'' ''surface''
      else if var = ''visibility'' then step ''VIS'' ''surface''
      else if var = ''snow_depth'' then step ''SNOD'' ''surface''
      else if var = ''wind_u_10m'' then step ''UGRD'' ''10 m above ground''
      else if var = ''wind_v_10m'' then step ''VGRD'' ''10 m above ground''
      else if var = ''precipitation_amount_3h''
        then interval (expected_apcp_description lead) ''APCP'' ''surface''
      else if var \<in> {''crain'', ''csnow'', ''cfrzr'', ''cicep''}
        then interval (expected_categorical_description lead) (py_upper var) ''surface''
      else if var = ''cloud_cover_3h''
        then interval (expected_categorical_description lead) ''TCDC'' ''entire atmosphere''
      else if var = ''cloud_ceiling'' then step ''HGT'' ''cloud ceiling''
      else select_unsupported var st)"

definition finish_selection :: "selection_state \<Rightarrow> selection_result" where
  "finish_selection st = \<lparr>sr_selected_records = sort_key start_offset (ss_selected st),
     sr_variable_selections = ss_selections st, sr_missing_required = ss_missing st,
     sr_unsupported = ss_unsupported st, sr_ambiguous = ss_ambiguous st\<rparr>"

definition select_gfs_records :: "idx_record list \<Rightarrow> int \<Rightarrow> string list \<Rightarrow> selection_result" where
  "select_gfs_records records lead variables =
     finish_selection (fold (select_gfs_variable records lead) variables empty_selection)"

definition select_gefs_records ::
    "idx_record list \<Rightarrow> int option \<Rightarrow> int \<Rightarrow> string list \<Rightarrow> bool \<Rightarrow> selection_result" where
  "select_gefs_records records member lead variables is_mean =
     finish_selection (fold (select_gefs_variable records member lead is_mean) variables empty_selection)"

definition select_records ::
    "string \<Rightarrow> idx_record list \<Rightarrow> int \<Rightarrow> string list \<Rightarrow> int option \<Rightarrow> bool \<Rightarrow> selection_result result" where
  "select_records model records lead variables member is_mean =
     (if model = ''gfs'' then Inr (select_gfs_records records lead variables)
      else if model = ''gefs'' then
        if member = None \<and> \<not> is_mean
          then Inl (ValueError ''member must be provided for GEFS perturbed record selection'')
        else Inr (select_gefs_records records member lead variables is_mean)
      else Inl (ValueError ''Unsupported model for selective download''))"

definition DEFAULT_SELECTION_VARIABLES :: "string list" where
  "DEFAULT_SELECTION_VARIABLES = [''temperature_2m'', ''precipitation_rate'',
     ''precipitation_amount_3h'', ''crain'', ''csnow'', ''cfrzr'', ''cicep'',
     ''relative_humidity_2m'', ''wind_gust'', ''visibility'', ''snow_depth'', ''wind_u_10m'',
     ''wind_v_10m'', ''cloud_cover_3h'', ''cloud_ceiling'']"

subsection \<open>Grouping\<close>

definition gap_after :: "idx_record \<Rightarrow> idx_record \<Rightarrow> int" where
  "gap_after prev r = (case end_offset prev of
      Some e \<Rightarrow> start_offset r - (e + 1) | None \<Rightarrow> 999999999999)"

text \<open>The loop: the finished groups and the current group, whose last element is \<open>prev\<close>\<close>

fun merge_loop ::
    "int \<Rightarrow> idx_record list \<Rightarrow> idx_record list list \<Rightarrow> idx_record list \<Rightarrow> idx_record list list" where
  "merge_loop max_gap [] groups cur = (if cur \<noteq> [] then groups @ [cur] else groups)"
| "merge_loop max_gap (r # rs) groups cur =
     (if gap_after (last cur) r \<le> max_gap then merge_loop max_gap rs groups (cur @ [r])
      else merge_loop max_gap rs (groups @ [cur]) [r])"

definition merge_adjacent_records :: "idx_record list \<Rightarrow> int \<Rightarrow> idx_record list list" where
  "merge_adjacent_records records max_gap = (case records of
      [] \<Rightarrow> []
    | r # rs \<Rightarrow> merge_loop max_gap rs [] [r])"

subsection \<open>The parsed index covers the file\<close>

text \<open>What the loop keeps of the raw records\<close>

definition raw_ok :: "idx_record list \<Rightarrow> int \<Rightarrow> bool" where
  "raw_ok rs prev \<longleftrightarrow>
     (\<forall>i < length rs. record_number (rs ! i) = int i + 1 \<and> end_offset (rs ! i) = None) \<and>
     sorted_wrt (<) (map start_offset rs) \<and>
     (rs \<noteq> [] \<longrightarrow> start_offset (hd rs) = 0 \<and> prev = start_offset (last rs))"

lemma sorted_wrt_last:
  "sorted_wrt (<) xs \<Longrightarrow> x \<in> set xs \<Longrightarrow> x \<le> last (xs :: int list)"
  by (induction xs rule: rev_induct) (auto simp: sorted_wrt_append)

lemma parse_idx_line_step:
  assumes "parse_idx_line (length rs, line) (rs, prev) = Inr (rs', prev')" "raw_ok rs prev"
  shows "raw_ok rs' prev' \<and> (\<exists>r. rs' = rs @ [r] \<and> raw_line r = line)"
proof -
  define r where "r = last rs'"
  have r: "rs' = rs @ [r]" "prev' = start_offset r" "raw_line r = line"
    "record_number r = int (length rs) + 1" "end_offset r = None"
    "rs = [] \<longrightarrow> start_offset r = 0" "rs \<noteq> [] \<longrightarrow> prev < start_offset r"
    using assms(1) unfolding r_def
    by (auto simp: parse_idx_line_def Let_def split: if_splits option.splits)
  have "x < start_offset r" if "x \<in> set (map start_offset rs)" for x
    using that r(7) assms(2) sorted_wrt_last [of "map start_offset rs" x]
    by (cases "rs = []") (auto simp: raw_ok_def last_map)
  then have "sorted_wrt (<) (map start_offset rs')"
    using assms(2) by (auto simp: r(1) raw_ok_def sorted_wrt_append)
  with r assms(2) show ?thesis
    by (auto simp: raw_ok_def nth_append less_Suc_eq hd_append)
qed

lemma parse_lines_sound:
  assumes "foldE parse_idx_line (zip [length rs..<length rs + length ls] ls) (rs, prev) = Inr (out, prev')"
    and "raw_ok rs prev"
  shows "raw_ok out prev' \<and> map raw_line out = map raw_line rs @ ls"
  using assms
proof (induction ls arbitrary: rs prev)
  case (Cons l ls)
  have "zip [length rs..<length rs + length (l # ls)] (l # ls)
      = (length rs, l) # zip [Suc (length rs)..<Suc (length rs) + length ls] ls"
    by (simp add: upt_conv_Cons del: upt_Suc)
  with Cons.prems(1) obtain rs1 prev1 where
    step: "parse_idx_line (length rs, l) (rs, prev) = Inr (rs1, prev1)"
    and rest: "foldE parse_idx_line (zip [Suc (length rs)..<Suc (length rs) + length ls] ls) (rs1, prev1)
      = Inr (out, prev')"
    by (auto simp: bindE_eq_Inr)
  obtain r where r: "raw_ok rs1 prev1" "rs1 = rs @ [r]" "raw_line r = l"
    using parse_idx_line_step [OF step Cons.prems(2)] by blast
  with Cons.IH [of rs1 prev1] rest show ?case by simp
qed simp

lemma bound_records_length [simp]: "length (bound_records rs) = length rs"
  by (induction rs rule: bound_records.induct) simp_all

lemma bound_records_nth:
  "i < length rs \<Longrightarrow> bound_records rs ! i =
     (if i + 1 < length rs then (rs ! i)\<lparr>end_offset := Some (start_offset (rs ! (i + 1)) - 1)\<rparr>
      else rs ! i)"
proof (induction rs arbitrary: i rule: bound_records.induct)
  case (1 r s rs)
  then show ?case by (cases i) auto
qed simp_all

lemma bound_records_starts [simp]: "map start_offset (bound_records rs) = map start_offset rs"
  by (induction rs rule: bound_records.induct) simp_all

text \<open>The bytes of a record\<close>

definition covers :: "idx_record \<Rightarrow> int \<Rightarrow> bool" where
  "covers r b \<longleftrightarrow> start_offset r \<le> b \<and> (\<forall>e. end_offset r = Some e \<longrightarrow> b \<le> e)"

definition idx_well_formed :: "idx_record list \<Rightarrow> bool" where
  "idx_well_formed recs \<longleftrightarrow> recs \<noteq> [] \<and> start_offset (hd recs) = 0 \<and>
     sorted_wrt (<) (map start_offset recs) \<and>
     (\<forall>i < length recs. record_number (recs ! i) = int i + 1 \<and>
        end_offset (recs ! i) =
          (if i + 1 < length recs then Some (start_offset (recs ! (i + 1)) - 1) else None))"

lemma parse_idx_well_formed:
  assumes "parse_idx txt = Inr recs" shows "idx_well_formed recs"
proof -
  obtain lns raw p where lns: "lns \<noteq> []"
    and f: "foldE parse_idx_line (zip [0..<length lns] lns) ([], - 1) = Inr (raw, p)"
    and recs: "recs = bound_records raw"
    using assms by (auto simp: parse_idx_def Let_def bindE_eq_Inr split: if_splits)
  have "raw_ok raw p \<and> map raw_line raw = lns"
    using parse_lines_sound [of "[]" lns "- 1" raw p] f by (simp add: raw_ok_def)
  then have raw: "raw_ok raw p" "raw \<noteq> []" using lns by auto
  then have "hd (bound_records raw) = bound_records raw ! 0"
    by (metis bound_records_length hd_conv_nth length_0_conv)
  with raw have "start_offset (hd (bound_records raw)) = 0"
    by (simp add: bound_records_nth raw_ok_def hd_conv_nth)
  with raw show ?thesis
    unfolding idx_well_formed_def recs
    by (auto simp: bound_records_nth raw_ok_def) (metis bound_records_length length_0_conv)
qed

lemma covering_record:
  assumes "sorted_wrt (<) (map start_offset recs)" "recs \<noteq> []" "start_offset (hd recs) \<le> b"
  shows "\<exists>i < length recs. start_offset (recs ! i) \<le> b \<and>
    (i + 1 < length recs \<longrightarrow> b < start_offset (recs ! (i + 1)))"
  using assms
proof (induction recs)
  case (Cons r rs)
  show ?case
  proof (cases "rs \<noteq> [] \<and> start_offset (hd rs) \<le> b")
    case True
    with Cons obtain i where "i < length rs" "start_offset (rs ! i) \<le> b"
      "i + 1 < length rs \<longrightarrow> b < start_offset (rs ! (i + 1))" by auto
    then show ?thesis by (intro exI [of _ "Suc i"]) auto
  next
    case False
    with Cons.prems show ?thesis
      by (intro exI [of _ 0]) (auto simp: hd_conv_nth)
  qed
qed simp

text \<open>C18: A parsed index is an exact partition of the file: the records are numbered from 1 without
  gaps and every byte offset from 0 on lies in the byte range of exactly one record.\<close>

theorem parsed_index_partitions_file:
  assumes "parse_idx txt = Inr recs"
  shows "map record_number recs = map (\<lambda>i. int i + 1) [0..<length recs] \<and>
    (\<forall>b \<ge> 0. \<exists>!i. i < length recs \<and> covers (recs ! i) b)"
proof -
  have wf: "idx_well_formed recs" by (rule parse_idx_well_formed [OF assms])
  have mono: "start_offset (recs ! i) < start_offset (recs ! j)" if "i < j" "j < length recs" for i j
    using wf that sorted_wrt_nth_less [of "(<)" "map start_offset recs" i j]
    by (simp add: idx_well_formed_def)
  have cov: "covers (recs ! i) b \<longleftrightarrow> start_offset (recs ! i) \<le> b \<and>
      (i + 1 < length recs \<longrightarrow> b < start_offset (recs ! (i + 1)))" if "i < length recs" for i b
    using wf that by (auto simp: covers_def idx_well_formed_def)
  have uniq: "i = j" if "i < length recs" "covers (recs ! i) b" "j < length recs" "covers (recs ! j) b"
    for i j b
  proof (rule ccontr)
    have le: "\<not> x < y" if "x < length recs" "covers (recs ! x) b" "y < length recs" "covers (recs ! y) b"
      for x y
    proof
      assume "x < y"
      then have "start_offset (recs ! (x + 1)) \<le> start_offset (recs ! y)"
        using mono [of "x + 1" y] that(3) by (cases "x + 1 = y") auto
      with \<open>x < y\<close> that cov [of x b] cov [of y b] show False by auto
    qed
    assume "i \<noteq> j"
    with le [of i j] le [of j i] that show False by auto
  qed
  have "\<exists>!i. i < length recs \<and> covers (recs ! i) b" if b: "0 \<le> b" for b
  proof -
    obtain i where "i < length recs" "covers (recs ! i) b"
      using covering_record [of recs b] wf b cov by (auto simp: idx_well_formed_def)
    with uniq show ?thesis by (intro ex1I [of _ i]) blast+
  qed
  moreover have "map record_number recs = map (\<lambda>i. int i + 1) [0..<length recs]"
    using wf by (intro nth_equalityI) (auto simp: idx_well_formed_def)
  ultimately show ?thesis by blast
qed

text \<open>A two-line index\<close>

definition wit_idx :: string where
  "wit_idx = ''1:0:d=2026082600:TMP:2 m above ground:anl:'' @ [CHR 0x0A]
     @ ''2:90:d=2026082600:RH:2 m above ground:anl:ENS=+1'' @ [CHR 0x0A]"

definition wit_records :: "idx_record list" where
  "wit_records = [
     \<lparr>record_number = 1, start_offset = 0, end_offset = Some 89, date_token = ''d=2026082600'',
      parameter = ''TMP'', level_description = ''2 m above ground'', forecast_description = ''anl'',
      ensemble_description = [], raw_line = ''1:0:d=2026082600:TMP:2 m above ground:anl:''\<rparr>,
     \<lparr>record_number = 2, start_offset = 90, end_offset = None, date_token = ''d=2026082600'',
      parameter = ''RH'', level_description = ''2 m above ground'', forecast_description = ''anl'',
      ensemble_description = ''ENS=+1'',
      raw_line = ''2:90:d=2026082600:RH:2 m above ground:anl:ENS=+1''\<rparr>]"

lemma parse_wit_idx: "parse_idx wit_idx = Inr wit_records"
  by code_simp

theorem parsed_index_partitions_file_witness:
  "\<exists>!i. i < length wit_records \<and> covers (wit_records ! i) 95"
  using parsed_index_partitions_file [OF parse_wit_idx] by simp

subsection \<open>Parsing what is printed\<close>

definition LF :: char where "LF = CHR 0x0A"

definition render_line :: "idx_record \<Rightarrow> string" where
  "render_line r = int_str (record_number r) @ '':'' @ int_str (start_offset r) @ '':'' @ date_token r
     @ '':'' @ parameter r @ '':'' @ level_description r @ '':'' @ forecast_description r
     @ (if ensemble_description r = [] then [] else '':'' @ ensemble_description r)"

definition render_idx :: "idx_record list \<Rightarrow> string" where
  "render_idx recs = py_join [LF] (map render_line recs)"

text \<open>A field without surrounding space and line ends\<close>

definition clean_field :: "string \<Rightarrow> bool" where
  "clean_field f \<longleftrightarrow> py_strip f = f \<and> set f \<inter> set line_ends = {}"

definition printable :: "idx_record \<Rightarrow> bool" where
  "printable r \<longleftrightarrow>
     (\<forall>f \<in> {date_token r, parameter r, level_description r, forecast_description r}.
        clean_field f \<and> CHR '':'' \<notin> set f) \<and>
     clean_field (ensemble_description r) \<and> raw_line r = render_line r"

lemma py_strip_ends:
  assumes "s = [] \<or> \<not> is_space (hd s) \<and> \<not> is_space (last s)" shows "py_strip s = s"
proof (cases s)
  case (Cons c cs)
  with assms have "dropWhile is_space s = s" by simp
  with assms Cons show ?thesis by (simp add: py_strip_def rdropWhile_id)
qed simp

lemma py_strip_self_last:
  assumes "py_strip s = s" "s \<noteq> []" shows "\<not> is_space (last s)"
  using assms rdropWhile_last [of is_space "dropWhile is_space s"] by (simp add: py_strip_def)

lemma int_str_no_colon [simp]: "CHR '':'' \<notin> set (int_str n)"
proof -
  have "\<not> number_char (CHR '':'')" by code_simp
  then show ?thesis using int_str_chars by blast
qed

lemma int_str_hd: "int_str n \<noteq> []" "\<not> is_space (hd (int_str n))"
proof -
  show ne: "int_str n \<noteq> []" by (simp add: int_str_def)
  show "\<not> is_space (hd (int_str n))"
    by (rule number_char_not_space [OF int_str_chars [OF hd_in_set [OF ne]]])
qed

lemma line_ends_space: "c \<in> set line_ends \<Longrightarrow> is_space c"
  by (auto simp: line_ends_def is_space_def space_chars_def)

lemma int_str_no_line_end: "set (int_str n) \<inter> set line_ends = {}"
  using int_str_chars number_char_not_space line_ends_space by blast

lemma render_line_clean:
  assumes "printable r"
  shows "render_line r \<noteq> []" "py_strip (render_line r) = render_line r"
    "set (render_line r) \<inter> set line_ends = {}" "\<not> is_space (hd (render_line r))"
    "\<not> is_space (last (render_line r))"
proof -
  have colon: "\<not> is_space (CHR '':'')" "CHR '':'' \<notin> set line_ends" by code_simp+
  show ne: "render_line r \<noteq> []" by (simp add: render_line_def)
  show hd: "\<not> is_space (hd (render_line r))" using int_str_hd by (simp add: render_line_def hd_append)
  have f: "clean_field (forecast_description r)" "clean_field (ensemble_description r)"
    using assms by (auto simp: printable_def)
  show last: "\<not> is_space (last (render_line r))"
    using f colon py_strip_self_last by (auto simp: render_line_def clean_field_def)
  show "py_strip (render_line r) = render_line r" by (rule py_strip_ends) (use hd last in simp)
  show "set (render_line r) \<inter> set line_ends = {}"
    using assms int_str_no_line_end colon
    by (auto simp: render_line_def printable_def clean_field_def)
qed

lemma splitlines_acc_LF:
  assumes "set l \<inter> set line_ends = {}"
  shows "splitlines_acc cur (l @ LF # x # xs) = (rev cur @ l) # splitlines_acc [] (x # xs)"
  using assms
proof (induction l arbitrary: cur)
  case Nil
  then show ?case by (simp add: LF_def line_ends_def)
next
  case (Cons c l)
  have c: "c \<notin> set line_ends" "c \<noteq> CHR 0x0D" using Cons.prems by (auto simp: line_ends_def)
  show ?case
    using Cons c by (cases l) simp_all
qed

lemma splitlines_acc_end:
  assumes "set l \<inter> set line_ends = {}" "l \<noteq> []"
  shows "splitlines_acc cur l = [rev cur @ l]"
  using assms
proof (induction cur l rule: splitlines_acc.induct)
  case (3 cur c d ds)
  then have "c \<notin> set line_ends" "c \<noteq> CHR 0x0D" by (auto simp: line_ends_def)
  with 3 show ?case by simp
qed simp_all

lemma py_splitlines_join:
  assumes "\<And>l. l \<in> set ls \<Longrightarrow> l \<noteq> [] \<and> set l \<inter> set line_ends = {}"
  shows "py_splitlines (py_join [LF] ls) = ls"
  unfolding py_splitlines_def using assms
proof (induction "[LF]" ls rule: py_join.induct)
  case (3 w v ws)
  have "py_join [LF] (v # ws) \<noteq> []" using "3.prems" [of v] by (cases ws) auto
  then obtain x xs where j: "py_join [LF] (v # ws) = x # xs" by (cases "py_join [LF] (v # ws)") auto
  have "splitlines_acc [] (w @ LF # x # xs) = w # splitlines_acc [] (x # xs)"
    using "3.prems" [of w] by (simp add: splitlines_acc_LF)
  with 3 j show ?case by simp
qed (simp_all add: splitlines_acc_end)

lemma render_line_split:
  assumes "printable r"
  shows "py_split (CHR '':'') (render_line r) =
    [int_str (record_number r), int_str (start_offset r), date_token r, parameter r,
     level_description r, forecast_description r]
     @ (if ensemble_description r = [] then [] else py_split (CHR '':'') (ensemble_description r))"
  using assms
  by (auto simp: render_line_def printable_def py_split_append_sep py_split_no_sep)

lemma py_strip_clean [simp]: "clean_field f \<Longrightarrow> py_strip f = f"
  by (simp add: clean_field_def)

lemma parse_rendered_line:
  assumes "printable r" "record_number r = int n + 1" "0 \<le> start_offset r"
    "n = 0 \<longrightarrow> start_offset r = 0" "0 < n \<longrightarrow> prev < start_offset r"
  shows "parse_idx_line (n, render_line r) (rs, prev)
    = Inr (rs @ [r\<lparr>end_offset := None\<rparr>], start_offset r)"
proof -
  have fields: "clean_field (date_token r)" "clean_field (parameter r)" "clean_field (level_description r)"
    "clean_field (forecast_description r)" "clean_field (ensemble_description r)"
    "raw_line r = render_line r"
    using assms(1) by (auto simp: printable_def)
  have r: "r\<lparr>end_offset := None\<rparr> = \<lparr>record_number = record_number r, start_offset = start_offset r,
      end_offset = None, date_token = date_token r, parameter = parameter r,
      level_description = level_description r, forecast_description = forecast_description r,
      ensemble_description = ensemble_description r, raw_line = raw_line r\<rparr>"
    by simp
  show ?thesis
    unfolding r using fields assms(2-5)
    by (cases "ensemble_description r = []")
      (simp_all add: parse_idx_line_def render_line_split [OF assms(1)] parse_int_int_str
        py_join_split Let_def, (cases n, simp_all)+)
qed

definition unbounded :: "idx_record \<Rightarrow> idx_record" where "unbounded r = r\<lparr>end_offset := None\<rparr>"

lemma parse_rendered_lines:
  assumes "\<And>i. i < length rest \<Longrightarrow> record_number (rest ! i) = int (length pre + i) + 1"
    and "\<And>r. r \<in> set rest \<Longrightarrow> printable r \<and> 0 \<le> start_offset r"
    and "pre = [] \<longrightarrow> rest = [] \<or> start_offset (hd rest) = 0"
    and "sorted_wrt (<) (map start_offset rest)" "pre \<noteq> [] \<longrightarrow> (\<forall>r \<in> set rest. prev < start_offset r)"
  shows "\<exists>p. foldE parse_idx_line (zip [length pre..<length pre + length rest] (map render_line rest))
      (map unbounded pre, prev) = Inr (map unbounded (pre @ rest), p)"
  using assms
proof (induction rest arbitrary: pre prev)
  case (Cons r rest)
  have "record_number r = int (length pre) + 1" using Cons.prems(1) [of 0] by simp
  then have "parse_idx_line (length pre, render_line r) (map unbounded pre, prev)
      = Inr (map unbounded (pre @ [r]), start_offset r)"
    using Cons.prems(2-5) parse_rendered_line [of r "length pre" prev "map unbounded pre"]
    by (simp add: unbounded_def)
  moreover have "\<exists>p. foldE parse_idx_line
      (zip [length (pre @ [r])..<length (pre @ [r]) + length rest] (map render_line rest))
      (map unbounded (pre @ [r]), start_offset r) = Inr (map unbounded ((pre @ [r]) @ rest), p)"
  proof (rule Cons.IH)
    show "record_number (rest ! i) = int (length (pre @ [r]) + i) + 1" if "i < length rest" for i
      using Cons.prems(1) [of "Suc i"] that by simp
  qed (use Cons.prems in auto)
  moreover have "zip [length pre..<length pre + length (r # rest)] (map render_line (r # rest))
      = (length pre, render_line r)
        # zip [length (pre @ [r])..<length (pre @ [r]) + length rest] (map render_line rest)"
    by (simp add: upt_conv_Cons del: upt_Suc)
  ultimately show ?case by simp
qed simp

lemma bound_unbounded:
  assumes "idx_well_formed recs" shows "bound_records (map unbounded recs) = recs"
proof (rule nth_equalityI)
  fix i assume "i < length (bound_records (map unbounded recs))"
  then have i: "i < length recs" by simp
  then have "end_offset (recs ! i) =
      (if i + 1 < length recs then Some (start_offset (recs ! (i + 1)) - 1) else None)"
    using assms by (auto simp: idx_well_formed_def)
  with i show "bound_records (map unbounded recs) ! i = recs ! i"
    by (cases "i + 1 < length recs") (simp_all add: bound_records_nth unbounded_def)
qed simp

text \<open>C19: Parsing inverts printing: a well-formed list of records (numbered from 1, contiguous from
  byte 0, clean fields without a colon) printed one line each is parsed back to exactly the same
  records, offsets, fields and raw lines included.\<close>

theorem parse_idx_round_trip:
  assumes "idx_well_formed recs" and "\<forall>r \<in> set recs. printable r"
  shows "parse_idx (render_idx recs) = Inr recs"
proof -
  let ?ls = "map render_line recs"
  have clean: "l \<noteq> [] \<and> set l \<inter> set line_ends = {} \<and> py_strip l = l \<and> \<not> is_space (hd l)
      \<and> \<not> is_space (last l)" if l: "l \<in> set ?ls" for l
  proof -
    obtain r where "l = render_line r" "r \<in> set recs" using l by auto
    with assms(2) show ?thesis using render_line_clean [of r] by simp
  qed
  have ne: "?ls \<noteq> []" using assms(1) by (simp add: idx_well_formed_def)
  have lines: "py_splitlines (render_idx recs) = ?ls"
    unfolding render_idx_def by (rule py_splitlines_join) (use clean in blast)
  have heads: "py_join [LF] xs \<noteq> [] \<and> hd (py_join [LF] xs) = hd (hd xs)"
    if "xs \<noteq> []" "\<forall>x \<in> set xs. x \<noteq> []" for xs
    using that by (induction "[LF]" xs rule: py_join.induct) (simp_all add: hd_append)
  have hd: "render_idx recs \<noteq> [] \<and> hd (render_idx recs) = hd (hd ?ls)"
    unfolding render_idx_def using heads [OF ne] clean by blast
  have last: "last (py_join [LF] xs) = last (last xs)"
    if "xs \<noteq> []" "\<forall>x \<in> set xs. x \<noteq> []" for xs
    using that
  proof (induction "[LF]" xs rule: py_join.induct)
    case (3 w v ws)
    then have "py_join [LF] (v # ws) \<noteq> []" by (cases ws) auto
    with 3 show ?case by simp
  qed simp_all
  have "py_strip (render_idx recs) = render_idx recs"
  proof (rule py_strip_ends, rule disjI2, rule conjI)
    show "\<not> is_space (hd (render_idx recs))" using hd clean [OF hd_in_set [OF ne]] by simp
    show "\<not> is_space (last (render_idx recs))"
      unfolding render_idx_def using last [OF ne] clean clean [OF last_in_set [OF ne]] by auto
  qed
  moreover have "filter (\<lambda>l. l \<noteq> []) (map py_strip ?ls) = ?ls"
    using clean by (simp add: filter_id_conv map_idI)
  moreover have "\<exists>p. foldE parse_idx_line (zip [0..<length ?ls] ?ls) ([], - 1) = Inr (map unbounded recs, p)"
  proof -
    have "0 \<le> start_offset r" if r: "r \<in> set recs" for r
    proof -
      obtain i where i: "i < length recs" "recs ! i = r" using r by (auto simp: in_set_conv_nth)
      then show ?thesis
        using assms(1) sorted_wrt_nth_less [of "(<)" "map start_offset recs" 0 i]
        by (cases i) (auto simp: idx_well_formed_def hd_conv_nth)
    qed
    then show ?thesis
      using parse_rendered_lines [of recs "[]" "- 1"] assms
      by (auto simp: idx_well_formed_def)
  qed
  ultimately show ?thesis
    using lines hd ne bound_unbounded [OF assms(1)]
    by (auto simp: parse_idx_def Let_def)
qed

definition wit_printed :: "idx_record list" where
  "wit_printed = map (\<lambda>r. r\<lparr>raw_line := render_line r\<rparr>) wit_records"

theorem parse_idx_round_trip_witness:
  "parse_idx (render_idx wit_printed) = Inr wit_printed"
proof (rule parse_idx_round_trip)
  show "idx_well_formed wit_printed"
    by (auto simp: idx_well_formed_def wit_printed_def wit_records_def less_Suc_eq)
  have "list_all printable wit_printed"
    unfolding printable_def clean_field_def by code_simp
  then show "\<forall>r \<in> set wit_printed. printable r" by (simp add: list_all_iff)
qed

subsection \<open>Groups\<close>

text \<open>Consecutive records of a group are at most the gap apart\<close>

definition chained :: "int \<Rightarrow> idx_record list \<Rightarrow> bool" where
  "chained g rs \<longleftrightarrow> (\<forall>i. i + 1 < length rs \<longrightarrow> gap_after (rs ! i) (rs ! (i + 1)) \<le> g)"

lemma chained_snoc: "chained g cur \<Longrightarrow> cur \<noteq> [] \<Longrightarrow> gap_after (last cur) r \<le> g \<Longrightarrow> chained g (cur @ [r])"
  unfolding chained_def
proof (intro allI impI)
  fix i assume c: "\<forall>i. i + 1 < length cur \<longrightarrow> gap_after (cur ! i) (cur ! (i + 1)) \<le> g"
    "cur \<noteq> []" "gap_after (last cur) r \<le> g" and i: "i + 1 < length (cur @ [r])"
  show "gap_after ((cur @ [r]) ! i) ((cur @ [r]) ! (i + 1)) \<le> g"
  proof (cases "i + 1 < length cur")
    case True
    with c(1) show ?thesis by (auto simp: nth_append)
  next
    case False
    with i have "i = length cur - 1" "i + 1 = length cur" by auto
    with c(2,3) show ?thesis by (simp add: nth_append last_conv_nth)
  qed
qed

definition groups_ok :: "int \<Rightarrow> idx_record list list \<Rightarrow> bool" where
  "groups_ok g gs \<longleftrightarrow> (\<forall>x \<in> set gs. x \<noteq> [] \<and> chained g x) \<and>
     (\<forall>i. i + 1 < length gs \<longrightarrow> g < gap_after (last (gs ! i)) (hd (gs ! (i + 1))))"

lemma groups_ok_snoc:
  assumes "groups_ok g gs" "x \<noteq> []" "chained g x" "gs \<noteq> [] \<longrightarrow> g < gap_after (last (last gs)) (hd x)"
  shows "groups_ok g (gs @ [x])"
  unfolding groups_ok_def
proof (intro conjI allI impI ballI)
  fix y assume "y \<in> set (gs @ [x])"
  with assms show "y \<noteq> []" "chained g y" by (auto simp: groups_ok_def)
next
  fix i assume i: "i + 1 < length (gs @ [x])"
  show "g < gap_after (last ((gs @ [x]) ! i)) (hd ((gs @ [x]) ! (i + 1)))"
  proof (cases "i + 1 < length gs")
    case True
    with assms(1) show ?thesis by (auto simp: groups_ok_def nth_append)
  next
    case False
    with i have "gs \<noteq> []" "i = length gs - 1" "i + 1 = length gs" by auto
    with assms(4) show ?thesis by (simp add: nth_append last_conv_nth)
  qed
qed

lemma merge_loop_ok:
  assumes "cur \<noteq> []" "chained g cur" "groups_ok g gs"
    "gs \<noteq> [] \<longrightarrow> g < gap_after (last (last gs)) (hd cur)"
  shows "groups_ok g (merge_loop g rs gs cur) \<and> concat (merge_loop g rs gs cur) = concat gs @ cur @ rs"
  using assms
proof (induction g rs gs cur rule: merge_loop.induct)
  case (1 g gs cur)
  then show ?case by (simp add: groups_ok_snoc)
next
  case (2 g r rs gs cur)
  show ?case
  proof (cases "gap_after (last cur) r \<le> g")
    case True
    with 2 show ?thesis by (simp add: chained_snoc)
  next
    case False
    have "groups_ok g (gs @ [cur])" using 2(3-6) by (intro groups_ok_snoc)
    with 2(2) False show ?thesis by (simp add: chained_def)
  qed
qed

text \<open>Grouping loses nothing and groups maximally: the groups in order are the records, no group
  is empty, neighbours in a group are at most the gap apart, and the last record of a group and
  the first of the next one are more than the gap apart.\<close>

theorem merge_adjacent_groups:
  "concat (merge_adjacent_records recs g) = recs \<and>
   (\<forall>x \<in> set (merge_adjacent_records recs g). x \<noteq> [] \<and>
      (\<forall>i. i + 1 < length x \<longrightarrow> gap_after (x ! i) (x ! (i + 1)) \<le> g)) \<and>
   (\<forall>i. i + 1 < length (merge_adjacent_records recs g) \<longrightarrow>
      g < gap_after (last (merge_adjacent_records recs g ! i)) (hd (merge_adjacent_records recs g ! (i + 1))))"
proof (cases recs)
  case (Cons r rs)
  have "groups_ok g (merge_loop g rs [] [r]) \<and> concat (merge_loop g rs [] [r]) = concat [] @ [r] @ rs"
    by (rule merge_loop_ok) (simp_all add: chained_def groups_ok_def)
  then show ?thesis unfolding merge_adjacent_records_def groups_ok_def chained_def by (simp add: Cons)
qed (simp add: merge_adjacent_records_def)

theorem merge_adjacent_groups_witness:
  "length (merge_adjacent_records wit_records 0) = 1 \<and>
   [] \<notin> set (merge_adjacent_records wit_records 0)"
  using merge_adjacent_groups [of wit_records 0]
  by (simp add: merge_adjacent_records_def wit_records_def gap_after_def)

subsection \<open>Member tags\<close>

text \<open>The number a member tag names: an optional plus sign and a decimal number\<close>

definition tag_number :: "string \<Rightarrow> int option" where
  "tag_number t = parse_int (if t \<noteq> [] \<and> hd t = CHR ''+'' then tl t else t)"

lemma number_not_plus:
  "int_str m \<noteq> [] \<Longrightarrow> hd (int_str m) \<noteq> CHR ''+''" "fmt0 w m \<noteq> [] \<Longrightarrow> hd (fmt0 w m) \<noteq> CHR ''+''"
proof -
  have p: "\<not> number_char (CHR ''+'')" by code_simp
  show "int_str m \<noteq> [] \<Longrightarrow> hd (int_str m) \<noteq> CHR ''+''"
    using int_str_chars [of "CHR ''+''" m] p by (metis hd_in_set)
  show "fmt0 w m \<noteq> [] \<Longrightarrow> hd (fmt0 w m) \<noteq> CHR ''+''"
    using fmt0_chars [of "CHR ''+''" w m] p by (metis hd_in_set)
qed

lemma tag_number_forms [simp]:
  "tag_number (CHR ''+'' # int_str m) = Some m" "tag_number (CHR ''+'' # fmt0 w m) = Some m"
  "tag_number (int_str m) = Some m" "tag_number (fmt0 w m) = Some m"
  using number_not_plus by (auto simp: tag_number_def parse_int_int_str parse_int_fmt0)

lemma member_tag_names:
  assumes "matches_gefs_member tag (Some m) False" "py_strip tag \<noteq> []"
  shows "tag_number (drop 4 (py_strip tag)) = Some m \<or>
    (m = 0 \<and> tag_number (drop 4 (py_strip tag)) = None)"
proof -
  have "tag_number ''c00'' = None" "tag_number ''ctl'' = None" "tag_number ''0'' = Some 0"
    by code_simp+
  with assms show ?thesis by (auto simp: matches_gefs_member_def Let_def)
qed

text \<open>A member tag identifies one member: outside the ensemble mean, a non-empty tag never
  matches two different members, so the records selected for one member are never another's.\<close>

theorem member_tag_unique:
  assumes "matches_gefs_member tag (Some m) False" "matches_gefs_member tag (Some n) False"
    and "py_strip tag \<noteq> []"
  shows "m = n"
  using member_tag_names [OF assms(1,3)] member_tag_names [OF assms(2,3)] by auto

theorem member_tag_unique_witness: "matches_gefs_member ''ENS=+07'' (Some 7) False \<and> (7 :: int) = 7"
proof -
  have m: "matches_gefs_member ''ENS=+07'' (Some 7) False" by code_simp
  have "py_strip ''ENS=+07'' \<noteq> []" by code_simp
  from member_tag_unique [OF m m this] m show ?thesis by blast
qed

subsection \<open>Selections and buckets\<close>

text \<open>Every step of the selection loops adds the outcome of one variable.\<close>

definition add_selection :: "variable_selection \<Rightarrow> selection_state \<Rightarrow> selection_state" where
  "add_selection s st = \<lparr>
     ss_selections = AList.update (vs_variable_code s) s (ss_selections st),
     ss_selected = ss_selected st @ (case vs_record s of None \<Rightarrow> [] | Some r \<Rightarrow> [r]),
     ss_missing = ss_missing st @ (if vs_status s = REQUIRED_BUT_MISSING then [vs_variable_code s] else []),
     ss_unsupported = ss_unsupported st @ (if vs_status s = UNSUPPORTED then [vs_variable_code s] else []),
     ss_ambiguous = ss_ambiguous st @ (if vs_status s = AMBIGUOUS then [vs_variable_code s] else [])\<rparr>"

definition matches_selection :: "string \<Rightarrow> idx_record list \<Rightarrow> variable_selection" where
  "matches_selection var ms = (case ms of
      [] \<Rightarrow> mk_selection var REQUIRED_BUT_MISSING None []
    | [r] \<Rightarrow> mk_selection var SELECTED (Some r) [r]
    | _ \<Rightarrow> mk_selection var AMBIGUOUS None ms)"

definition interval_selection ::
    "string \<Rightarrow> int \<Rightarrow> string option \<Rightarrow> (string \<Rightarrow> idx_record list) \<Rightarrow> variable_selection" where
  "interval_selection var lead desc find_matches =
     (if lead = 0 then mk_selection var SELECTED None []
      else (case desc of None \<Rightarrow> mk_selection var UNSUPPORTED None []
        | Some d \<Rightarrow> matches_selection var (take 1 (find_matches d))))"

lemma mk_selection_simps [simp]:
  "vs_variable_code (mk_selection v s r m) = v" "vs_status (mk_selection v s r m) = s"
  "vs_record (mk_selection v s r m) = r" "vs_matched_records (mk_selection v s r m) = m"
  by (simp_all add: mk_selection_def)

lemma record_selection_add: "record_selection var ms = add_selection (matches_selection var ms)"
  by (rule ext) (simp add: record_selection_def matches_selection_def add_selection_def split: list.split)

lemma select_unsupported_add: "select_unsupported var = add_selection (mk_selection var UNSUPPORTED None [])"
  by (rule ext) (simp add: select_unsupported_def add_selection_def)

lemma select_interval_add:
  "select_interval var lead desc f = add_selection (interval_selection var lead desc f)"
proof (rule ext)
  fix st
  have "(if 1 < length ms then [ms ! 0] else ms) = take 1 ms" for ms :: "idx_record list"
    by (cases ms) auto
  then show "select_interval var lead desc f st = add_selection (interval_selection var lead desc f) st"
    by (auto simp: select_interval_def interval_selection_def record_selection_add
        select_unsupported_add Let_def split: option.split) (simp add: add_selection_def)
qed

lemma matches_selection_simps [simp]: "vs_variable_code (matches_selection v ms) = v"
  by (simp add: matches_selection_def split: list.split)

lemma interval_selection_code [simp]: "vs_variable_code (interval_selection v l d f) = v"
  by (simp add: interval_selection_def split: option.split)

text \<open>What the buckets say about the dictionary of selections\<close>

definition buckets_ok :: "string list \<Rightarrow> selection_state \<Rightarrow> bool" where
  "buckets_ok vars st \<longleftrightarrow> map fst (ss_selections st) = vars \<and>
     (\<forall>(v, s) \<in> set (ss_selections st). vs_variable_code s = v) \<and>
     ss_selected st = somes (map (vs_record \<circ> snd) (ss_selections st)) \<and>
     ss_missing st = filter (\<lambda>v. \<exists>s. (v, s) \<in> set (ss_selections st) \<and> vs_status s = REQUIRED_BUT_MISSING) vars \<and>
     ss_unsupported st = filter (\<lambda>v. \<exists>s. (v, s) \<in> set (ss_selections st) \<and> vs_status s = UNSUPPORTED) vars \<and>
     ss_ambiguous st = filter (\<lambda>v. \<exists>s. (v, s) \<in> set (ss_selections st) \<and> vs_status s = AMBIGUOUS) vars"

lemma update_fresh: "v \<notin> fst ` set al \<Longrightarrow> AList.update v s al = al @ [(v, s)]"
  by (induction al) auto

lemma filter_fresh:
  assumes "v \<notin> set vars" "map fst al = vars"
  shows "filter (\<lambda>w. \<exists>t. (w, t) \<in> set (al @ [(v, s)]) \<and> Q t) (vars @ [v])
    = filter (\<lambda>w. \<exists>t. (w, t) \<in> set al \<and> Q t) vars @ (if Q s then [v] else [])"
proof -
  have "(v, t) \<notin> set al" for t using assms by (metis fst_conv in_set_zipE list.set_map imageI)
  moreover have "filter (\<lambda>w. \<exists>t. (w, t) \<in> set (al @ [(v, s)]) \<and> Q t) vars
      = filter (\<lambda>w. \<exists>t. (w, t) \<in> set al \<and> Q t) vars"
    using assms(1) by (intro filter_cong) auto
  ultimately show ?thesis by auto
qed

lemma somes_append [simp]: "somes (xs @ ys) = somes xs @ somes ys"
  by (simp add: somes_def)

lemma buckets_ok_add:
  assumes "buckets_ok vars st" "vs_variable_code s = v" "v \<notin> set vars"
  shows "buckets_ok (vars @ [v]) (add_selection s st)"
proof -
  have keys: "map fst (ss_selections st) = vars" using assms(1) by (simp add: buckets_ok_def)
  have sel: "ss_selections (add_selection s st) = ss_selections st @ [(v, s)]"
    using assms(2,3) keys by (simp add: add_selection_def) (metis list.set_map update_fresh)
  show ?thesis
    unfolding buckets_ok_def sel filter_fresh [OF assms(3) keys]
    using assms(1,2) by (auto simp: buckets_ok_def add_selection_def somes_def split: option.split)
qed

lemma fold_buckets_ok:
  assumes "\<And>v. v \<in> set vs \<Longrightarrow> \<exists>s. vs_variable_code s = v \<and> f v = add_selection s"
    and "distinct (vars @ vs)" "buckets_ok vars st"
  shows "buckets_ok (vars @ vs) (fold f vs st)"
  using assms
proof (induction vs arbitrary: vars st)
  case (Cons v vs)
  obtain s where "vs_variable_code s = v" "f v = add_selection s" using Cons.prems(1) [of v] by auto
  with Cons.prems have "buckets_ok (vars @ [v]) (f v st)" by (auto intro: buckets_ok_add)
  with Cons.IH [of "vars @ [v]" "f v st"] Cons.prems show ?case by auto
qed simp

text \<open>A loop body that adds one outcome for its variable\<close>

definition adds_outcome :: "string \<Rightarrow> (selection_state \<Rightarrow> selection_state) \<Rightarrow> bool" where
  "adds_outcome v f \<longleftrightarrow> (\<exists>s. vs_variable_code s = v \<and> f = add_selection s)"

named_theorems adding "loop bodies that add one outcome"

lemma adds_outcome_if [adding]:
  "adds_outcome v f \<Longrightarrow> adds_outcome v g \<Longrightarrow> adds_outcome v (\<lambda>st. if c then f st else g st)"
  by (cases c) simp_all

lemma adds_outcome_steps [adding]:
  "adds_outcome v (\<lambda>st. record_selection v ms st)" "adds_outcome v (\<lambda>st. select_unsupported v st)"
  "adds_outcome v (\<lambda>st. select_interval v lead desc f st)"
  unfolding adds_outcome_def record_selection_add select_unsupported_add select_interval_add
  by (metis matches_selection_simps, metis mk_selection_simps(1), metis interval_selection_code)

lemma gfs_variable_add: "\<exists>s. vs_variable_code s = v \<and> select_gfs_variable records lead v = add_selection s"
proof -
  have "adds_outcome v (\<lambda>st. select_gfs_variable records lead v st)"
    unfolding select_gfs_variable_def Let_def by (intro adding)
  then show ?thesis by (simp add: adds_outcome_def)
qed

lemma gefs_variable_add:
  "\<exists>s. vs_variable_code s = v \<and> select_gefs_variable records m lead mean v = add_selection s"
proof -
  have "adds_outcome v (\<lambda>st. select_gefs_variable records m lead mean v st)"
    unfolding select_gefs_variable_def Let_def by (intro adding)
  then show ?thesis by (simp add: adds_outcome_def)
qed

lemma select_records_buckets:
  assumes "select_records model records lead vars m mean = Inr res" "distinct vars"
  obtains st where "res = finish_selection st" "buckets_ok vars st"
proof -
  have e: "buckets_ok [] empty_selection" by (simp add: buckets_ok_def empty_selection_def somes_def)
  have "buckets_ok vars (fold (select_gfs_variable records lead) vars empty_selection)"
    using fold_buckets_ok [of vars "select_gfs_variable records lead" "[]"] gfs_variable_add e assms(2)
    by simp
  moreover have "buckets_ok vars (fold (select_gefs_variable records m lead mean) vars empty_selection)"
    using fold_buckets_ok [of vars "select_gefs_variable records m lead mean" "[]"] gefs_variable_add e
      assms(2) by simp
  ultimately show thesis
    using that assms(1)
    by (auto simp: select_records_def select_gfs_records_def select_gefs_records_def split: if_splits)
qed

text \<open>The selection result is consistent: for distinct variables every one gets exactly one
  outcome, in order; the missing, unsupported and ambiguous lists are exactly the variables with
  that outcome; the download list is the selected records of the outcomes sorted by byte offset;
  and the result is valid iff every outcome is selected or unsupported.\<close>

theorem selection_result_consistent:
  assumes "select_records model records lead vars m mean = Inr res" and "distinct vars"
  shows "map fst (sr_variable_selections res) = vars \<and>
    sr_missing_required res = filter (\<lambda>v. \<exists>s. (v, s) \<in> set (sr_variable_selections res)
       \<and> vs_status s = REQUIRED_BUT_MISSING) vars \<and>
    sr_unsupported res = filter (\<lambda>v. \<exists>s. (v, s) \<in> set (sr_variable_selections res)
       \<and> vs_status s = UNSUPPORTED) vars \<and>
    sr_ambiguous res = filter (\<lambda>v. \<exists>s. (v, s) \<in> set (sr_variable_selections res)
       \<and> vs_status s = AMBIGUOUS) vars \<and>
    sorted (map start_offset (sr_selected_records res)) \<and>
    set (sr_selected_records res) = {r. \<exists>(v, s) \<in> set (sr_variable_selections res). vs_record s = Some r} \<and>
    (is_valid res \<longleftrightarrow> (\<forall>(v, s) \<in> set (sr_variable_selections res).
       vs_status s = SELECTED \<or> vs_status s = UNSUPPORTED))"
proof -
  obtain st where st: "res = finish_selection st" "buckets_ok vars st"
    by (rule select_records_buckets [OF assms])
  have "map fst (ss_selections st) = vars" using st(2) by (simp add: buckets_ok_def)
  then have vars: "set vars = fst ` set (ss_selections st)" by (metis list.set_map)
  have keys: "v \<in> set vars" if "(v, s) \<in> set (ss_selections st)" for v s
    unfolding vars by (rule image_eqI [OF _ that]) simp
  have empty: "filter (\<lambda>v. \<exists>s. (v, s) \<in> set (ss_selections st) \<and> vs_status s = x) vars = []
      \<longleftrightarrow> (\<forall>p \<in> set (ss_selections st). vs_status (snd p) \<noteq> x)" for x
  proof -
    have "filter (\<lambda>v. \<exists>s. (v, s) \<in> set (ss_selections st) \<and> vs_status s = x) vars = []
        \<longleftrightarrow> (\<forall>v s. (v, s) \<in> set (ss_selections st) \<longrightarrow> vs_status s \<noteq> x)"
      unfolding filter_empty_conv using keys by blast
    then show ?thesis by (simp add: Ball_def)
  qed
  have "s \<noteq> REQUIRED_BUT_MISSING \<and> s \<noteq> AMBIGUOUS \<longleftrightarrow> s = SELECTED \<or> s = UNSUPPORTED" for s
    by (cases s) simp_all
  moreover have "is_valid res \<longleftrightarrow> (\<forall>p \<in> set (ss_selections st). vs_status (snd p) \<noteq> REQUIRED_BUT_MISSING
      \<and> vs_status (snd p) \<noteq> AMBIGUOUS)"
    using st empty [of REQUIRED_BUT_MISSING] empty [of AMBIGUOUS]
    by (simp add: is_valid_def finish_selection_def buckets_ok_def) blast
  ultimately have "is_valid res \<longleftrightarrow> (\<forall>(v, s) \<in> set (sr_variable_selections res).
       vs_status s = SELECTED \<or> vs_status s = UNSUPPORTED)"
    by (simp add: st(1) finish_selection_def case_prod_unfold)
  moreover have "set (sr_selected_records res)
      = {r. \<exists>(v, s) \<in> set (sr_variable_selections res). vs_record s = Some r}"
  proof -
    have "sr_variable_selections res = ss_selections st" by (simp add: st(1) finish_selection_def)
    moreover have "set (sr_selected_records res) = {r. Some r \<in> (\<lambda>p. vs_record (snd p)) ` set (ss_selections st)}"
      using st by (simp add: finish_selection_def buckets_ok_def set_somes comp_def set_eq_iff)
    ultimately show ?thesis
      by (simp add: image_iff case_prod_unfold eq_commute [of "Some _"])
  qed
  ultimately show ?thesis
    using st by (simp add: finish_selection_def buckets_ok_def)
qed

theorem selection_result_consistent_witness:
  "\<exists>res. select_records ''gfs'' wit_records 0 [''temperature_2m'', ''crain'', ''wind_gust''] None False = Inr res
     \<and> map fst (sr_variable_selections res) = [''temperature_2m'', ''crain'', ''wind_gust'']
     \<and> \<not> is_valid res"
proof -
  let ?vars = "[''temperature_2m'', ''crain'', ''wind_gust'']"
  have e: "select_records ''gfs'' wit_records 0 ?vars None False
      = Inr (select_gfs_records wit_records 0 ?vars)"
    by (simp add: select_records_def)
  have "sr_missing_required (select_gfs_records wit_records 0 ?vars) = [''wind_gust'']" by code_simp
  then have "\<not> is_valid (select_gfs_records wit_records 0 ?vars)" by (simp add: is_valid_def)
  with e selection_result_consistent [OF e] show ?thesis by simp
qed

text \<open>On the three-hour grid the index provides every variable the platform expects: for any
  index, GFS marks none of the default variables as unsupported, and GEFS exactly the
  instantaneous precipitation rate.\<close>

theorem default_variables_supported:
  assumes "0 \<le> lead" "lead mod 3 = 0"
  shows "sr_unsupported (select_gfs_records records lead DEFAULT_SELECTION_VARIABLES) = [] \<and>
    sr_unsupported (select_gefs_records records m lead DEFAULT_SELECTION_VARIABLES mean)
      = [''precipitation_rate'']"
proof -
  have "lead mod 6 = 0 \<or> lead mod 6 = 3" using assms(2) by presburger
  then have d: "lead = 0 \<or> (\<exists>x. expected_description k lead = Some x)" for k
    using assms(1) by (auto simp: expected_description_def)
  have r: "ss_unsupported (record_selection v ms st) = ss_unsupported st" for v ms st
    by (simp add: record_selection_def split: list.split)
  have i: "ss_unsupported (select_interval v lead (expected_description k lead) f st) = ss_unsupported st"
    for v f st k
    using d [of k] r by (auto simp: select_interval_def Let_def)
  have u: "ss_unsupported (select_unsupported v st) = ss_unsupported st @ [v]" for v st
    by (simp add: select_unsupported_def)
  show ?thesis
    by (simp add: DEFAULT_SELECTION_VARIABLES_def select_gfs_records_def select_gefs_records_def
        finish_selection_def select_gfs_variable_def select_gefs_variable_def Let_def r i u
        expected_apcp_description_def expected_categorical_description_def empty_selection_def)
qed

theorem default_variables_supported_witness:
  "sr_unsupported (select_gfs_records wit_records 6 DEFAULT_SELECTION_VARIABLES) = []"
  using default_variables_supported [of 6 wit_records] by simp

end
