(* ===== verification/Discovery.thy ===== *)
theory Discovery
  imports Horizon
begin

text \<open>
  \<open>ingestion/providers/noaa/discovery.py\<close>: the grammar of the NOAA object keys, the snapshot of
  what one cycle has published, its availability queries, the publication diff, and the paginated
  listing. The HTTP client and the XML parser are parameters: a listing page is what
  \<open>_parse_listing_page\<close> makes of a response body. Dictionaries are association lists.
\<close>

subsection \<open>Key grammar\<close>

text \<open>The two pieces of the regular expressions: a literal and a run of \<open>n\<close> digits\<close>

definition eat :: "string \<Rightarrow> string \<Rightarrow> string option" where
  "eat p s = (if startswith s p then Some (drop (length p) s) else None)"

definition eat_digits :: "nat \<Rightarrow> string \<Rightarrow> (string \<times> string) option" where
  "eat_digits n s =
     (if n \<le> length s \<and> list_all (\<lambda>c. c \<in> set digit_chars) (take n s)
      then Some (take n s, drop n s) else None)"

text \<open>\<open>int(...)\<close> of a run of digits\<close>

definition digits_value :: "string \<Rightarrow> int" where
  "digits_value s = (case parse_int s of Some n \<Rightarrow> n | None \<Rightarrow> 0)"

text \<open>What follows the product name: the lead, an optional \<open>.idx\<close>, the end of the key (\<open>$\<close> also
  matches before a final line feed)\<close>

definition match_tail :: "string \<Rightarrow> (int \<times> bool) option" where
  "match_tail s = Option.bind (eat_digits 3 s) (\<lambda>(lead, rest).
     if rest \<in> {[], [CHR 0x0A]} then Some (digits_value lead, False)
     else if rest \<in> {''.idx'', ''.idx'' @ [CHR 0x0A]} then Some (digits_value lead, True)
     else None)"

text \<open>A match: member, hour, lead, and whether it is the sidecar\<close>

type_synonym key_match = "int option \<times> int \<times> int \<times> bool"

definition match_gfs_key :: "string \<Rightarrow> key_match option" where
  "match_gfs_key key =
     Option.bind (eat ''gfs.'' key) (\<lambda>s.
     Option.bind (eat_digits 8 s) (\<lambda>(d, s).
     Option.bind (eat ''/'' s) (\<lambda>s.
     Option.bind (eat_digits 2 s) (\<lambda>(hour, s).
     Option.bind (eat (''/atmos/gfs.t'' @ hour @ ''z.pgrb2.0p25.f'') s) (\<lambda>s.
     Option.bind (match_tail s) (\<lambda>(lead, idx).
       Some (None, digits_value hour, lead, idx)))))))"

definition match_gefs_key :: "string \<Rightarrow> key_match option" where
  "match_gefs_key key =
     Option.bind (eat ''gefs.'' key) (\<lambda>s.
     Option.bind (eat_digits 8 s) (\<lambda>(d, s).
     Option.bind (eat ''/'' s) (\<lambda>s.
     Option.bind (eat_digits 2 s) (\<lambda>(hour, s).
     Option.bind (eat ''/atmos/pgrb2sp25/gep'' s) (\<lambda>s.
     Option.bind (eat_digits 2 s) (\<lambda>(member, s).
     Option.bind (eat (''.t'' @ hour @ ''z.pgrb2s.0p25.f'') s) (\<lambda>s.
     Option.bind (match_tail s) (\<lambda>(lead, idx).
       Some (Some (digits_value member), digits_value hour, lead, idx)))))))))"

definition match_gefs_mean_key :: "string \<Rightarrow> key_match option" where
  "match_gefs_mean_key key =
     Option.bind (eat ''gefs.'' key) (\<lambda>s.
     Option.bind (eat_digits 8 s) (\<lambda>(d, s).
     Option.bind (eat ''/'' s) (\<lambda>s.
     Option.bind (eat_digits 2 s) (\<lambda>(hour, s).
     Option.bind (eat (''/atmos/pgrb2sp25/geavg.t'' @ hour @ ''z.pgrb2s.0p25.f'') s) (\<lambda>s.
     Option.bind (match_tail s) (\<lambda>(lead, idx).
       Some (None, digits_value hour, lead, idx)))))))"

subsection \<open>Snapshots\<close>

record artifact_observation =
  ao_key :: string
  ao_size :: int
  ao_etag :: "string option"
  ao_last_modified :: "instant option"

record region_artifacts =
  ra_data :: "artifact_observation option"
  ra_idx :: "artifact_observation option"

definition no_artifacts :: region_artifacts where "no_artifacts = \<lparr>ra_data = None, ra_idx = None\<rparr>"

definition ra_is_complete :: "region_artifacts \<Rightarrow> bool" where
  "ra_is_complete r = (ra_data r \<noteq> None \<and> ra_idx r \<noteq> None)"

record cycle_snapshot =
  cs_model :: string
  cs_cycle_date :: int
  cs_cycle_hour :: int
  cs_prefix :: string
  cs_regions :: "((int option \<times> int) \<times> region_artifacts) list"
  cs_ignored_key_count :: nat
  cs_ignored_key_samples :: "string list"
  cs_mean_regions :: "(int \<times> region_artifacts) list"

text \<open>\<open>tuple(sorted(set(...)))\<close>\<close>

definition sorted_set :: "int list \<Rightarrow> int list" where "sorted_set xs = sort (remdups xs)"

definition observed_leads :: "cycle_snapshot \<Rightarrow> int list" where
  "observed_leads s = sorted_set (map (\<lambda>((m, lead), r). lead) (cs_regions s))"

definition highest_observed_lead :: "cycle_snapshot \<Rightarrow> int option" where
  "highest_observed_lead s = (let leads = observed_leads s in
     if leads = [] then None else Some (last leads))"

definition region :: "cycle_snapshot \<Rightarrow> int option \<Rightarrow> int \<Rightarrow> region_artifacts" where
  "region s member lead = (case map_of (cs_regions s) (member, lead) of
      Some r \<Rightarrow> r | None \<Rightarrow> no_artifacts)"

definition is_artifact_complete :: "cycle_snapshot \<Rightarrow> int option \<Rightarrow> int \<Rightarrow> bool" where
  "is_artifact_complete s member lead = ra_is_complete (region s member lead)"

definition is_mean_complete :: "cycle_snapshot \<Rightarrow> int \<Rightarrow> bool" where
  "is_mean_complete s lead = ra_is_complete (case map_of (cs_mean_regions s) lead of
      Some r \<Rightarrow> r | None \<Rightarrow> no_artifacts)"

text \<open>The sequence given, or the model's canonical horizon\<close>

definition snapshot_sequence :: "horizon_registry \<Rightarrow> cycle_snapshot \<Rightarrow> int list option \<Rightarrow> int list result" where
  "snapshot_sequence reg s sequence = (case sequence of
      Some xs \<Rightarrow> Inr xs
    | None \<Rightarrow> canonical_lead_time_hours reg (cs_model s) None None)"

definition available_mean_leads ::
    "horizon_registry \<Rightarrow> cycle_snapshot \<Rightarrow> int list option \<Rightarrow> int list result" where
  "available_mean_leads reg s sequence =
     bindE (snapshot_sequence reg s sequence) (\<lambda>seq.
       Inr (sort (map fst (filter (\<lambda>(lead, r). lead \<in> set seq \<and> ra_is_complete r) (cs_mean_regions s)))))"

definition available_members :: "cycle_snapshot \<Rightarrow> int \<Rightarrow> int list" where
  "available_members s lead = sort (somes (map (\<lambda>((m, l), r). m)
     (filter (\<lambda>((m, l), r). l = lead \<and> m \<noteq> None \<and> ra_is_complete r) (cs_regions s))))"

definition complete_member_count :: "cycle_snapshot \<Rightarrow> int \<Rightarrow> nat" where
  "complete_member_count s lead = length (available_members s lead)"

definition missing_members :: "cycle_snapshot \<Rightarrow> int \<Rightarrow> int list \<Rightarrow> int list" where
  "missing_members s lead expected = filter (\<lambda>m. m \<notin> set (available_members s lead)) expected"

definition available_leads ::
    "horizon_registry \<Rightarrow> cycle_snapshot \<Rightarrow> int list option \<Rightarrow> int list result" where
  "available_leads reg s sequence =
     bindE (snapshot_sequence reg s sequence) (\<lambda>seq.
       Inr (sort (map (\<lambda>((m, lead), r). lead)
         (filter (\<lambda>((m, lead), r). m = None \<and> lead \<in> set seq \<and> ra_is_complete r) (cs_regions s)))))"

definition available_member_leads ::
    "horizon_registry \<Rightarrow> cycle_snapshot \<Rightarrow> int list option \<Rightarrow> (int \<times> int) list result" where
  "available_member_leads reg s sequence =
     bindE (snapshot_sequence reg s sequence) (\<lambda>seq.
       Inr (sort (map (\<lambda>((m, lead), r). (the m, lead))
         (filter (\<lambda>((m, lead), r). m \<noteq> None \<and> lead \<in> set seq \<and> ra_is_complete r) (cs_regions s)))))"

subsection \<open>Publication activity\<close>

text \<open>The tuples hashed, in the order of \<open>sorted(..., key=(member or -1, lead))\<close>; \<open>0 or -1\<close> is \<open>-1\<close>.\<close>

definition fingerprint_order :: "(int option \<times> int) \<times> region_artifacts \<Rightarrow> int \<times> int" where
  "fingerprint_order item = (case item of ((member, lead), r) \<Rightarrow>
     ((case member of None \<Rightarrow> - 1 | Some m \<Rightarrow> if m = 0 then - 1 else m), lead))"

definition fingerprint_state ::
    "(int option \<times> int) \<times> region_artifacts \<Rightarrow> int \<times> int \<times> bool \<times> int \<times> bool \<times> int" where
  "fingerprint_state item = (case item of ((member, lead), r) \<Rightarrow>
     ((case member of Some m \<Rightarrow> m | None \<Rightarrow> - 1), lead,
      ra_data r \<noteq> None, (case ra_data r of Some d \<Rightarrow> ao_size d | None \<Rightarrow> - 1),
      ra_idx r \<noteq> None, (case ra_idx r of Some d \<Rightarrow> ao_size d | None \<Rightarrow> - 1)))"

definition fingerprint ::
    "((int \<times> int \<times> bool \<times> int \<times> bool \<times> int) list \<Rightarrow> string) \<Rightarrow> cycle_snapshot \<Rightarrow> string" where
  "fingerprint sha256 s = sha256 (map fingerprint_state (sort_key fingerprint_order (cs_regions s)))"

definition publication_changed ::
    "((int \<times> int \<times> bool \<times> int \<times> bool \<times> int) list \<Rightarrow> string) \<Rightarrow> cycle_snapshot \<Rightarrow> cycle_snapshot \<Rightarrow> bool" where
  "publication_changed sha256 before after = (fingerprint sha256 before \<noteq> fingerprint sha256 after)"

definition compact_date :: "int \<Rightarrow> string" where
  "compact_date d = (case civil_of_days d of (y, m, d) \<Rightarrow> fmt0 4 y @ fmt0 2 m @ fmt0 2 d)"

definition gfs_cycle_prefix :: "int \<Rightarrow> int \<Rightarrow> string" where
  "gfs_cycle_prefix cycle_date cycle_hour =
     ''gfs.'' @ compact_date cycle_date @ ''/'' @ fmt0 2 cycle_hour @ ''/atmos/gfs.t''
     @ fmt0 2 cycle_hour @ ''z.pgrb2.0p25.f''"

definition gefs_cycle_prefix :: "int \<Rightarrow> int \<Rightarrow> string" where
  "gefs_cycle_prefix cycle_date cycle_hour =
     ''gefs.'' @ compact_date cycle_date @ ''/'' @ fmt0 2 cycle_hour @ ''/atmos/pgrb2sp25/''"

subsection \<open>Building a snapshot\<close>

text \<open>\<open>r = regions.get(k, RegionArtifacts(None, None))\<close> with one side replaced\<close>

definition put_artifact ::
    "'k \<Rightarrow> bool \<Rightarrow> artifact_observation \<Rightarrow> ('k \<times> region_artifacts) list \<Rightarrow> ('k \<times> region_artifacts) list" where
  "put_artifact k idx obs regions =
     (let existing = (case map_of regions k of Some r \<Rightarrow> r | None \<Rightarrow> no_artifacts)
      in AList.update k (if idx then existing\<lparr>ra_idx := Some obs\<rparr>
                         else existing\<lparr>ra_data := Some obs\<rparr>) regions)"

record snapshot_state =
  st_regions :: "((int option \<times> int) \<times> region_artifacts) list"
  st_mean_regions :: "(int \<times> region_artifacts) list"
  st_ignored :: "string list"

definition snapshot_entry ::
    "string \<Rightarrow> int \<Rightarrow> (string \<Rightarrow> key_match option) \<Rightarrow> bool \<Rightarrow> artifact_observation
     \<Rightarrow> snapshot_state \<Rightarrow> snapshot_state" where
  "snapshot_entry model cycle_hour key_pattern track_mean entry st =
     (let key = ao_key entry; ignore = st\<lparr>st_ignored := st_ignored st @ [key]\<rparr> in
      case key_pattern key of
        None \<Rightarrow>
          if model = ''gefs'' \<and> track_mean then
            (case match_gefs_mean_key key of
               Some (m, hour, lead, idx) \<Rightarrow>
                 if hour = cycle_hour
                 then st\<lparr>st_mean_regions := put_artifact lead idx entry (st_mean_regions st)\<rparr>
                 else ignore
             | None \<Rightarrow> ignore)
          else ignore
      | Some (member, hour, lead, idx) \<Rightarrow>
          if hour \<noteq> cycle_hour then ignore
          else st\<lparr>st_regions := put_artifact (member, lead) idx entry (st_regions st)\<rparr>)"

definition snapshot_from_keys ::
    "string \<Rightarrow> int \<Rightarrow> int \<Rightarrow> string \<Rightarrow> (string \<Rightarrow> key_match option) \<Rightarrow> artifact_observation list \<Rightarrow> bool
     \<Rightarrow> cycle_snapshot" where
  "snapshot_from_keys model cycle_date cycle_hour prefix key_pattern listed track_mean =
     (let st = fold (snapshot_entry model cycle_hour key_pattern track_mean) listed
                 \<lparr>st_regions = [], st_mean_regions = [], st_ignored = []\<rparr>
      in \<lparr>cs_model = model, cs_cycle_date = cycle_date, cs_cycle_hour = cycle_hour,
          cs_prefix = prefix, cs_regions = st_regions st,
          cs_ignored_key_count = length (st_ignored st),
          cs_ignored_key_samples = take 20 (st_ignored st),
          cs_mean_regions = st_mean_regions st\<rparr>)"

subsection \<open>Listing\<close>

text \<open>One HTTP exchange: a transport failure, or a status with the parsed body\<close>

datatype http_response = TransportError
  | Response int "(artifact_observation list \<times> string option) result"

definition MAX_LIST_PAGES :: nat where "MAX_LIST_PAGES = 64"

text \<open>
  The retry loop of one page: \<open>n\<close> attempts are left and \<open>get i\<close> is the answer to attempt \<open>i\<close>.
  The errors are told apart by the exception class name.
\<close>

fun fetch_page ::
    "(nat \<Rightarrow> http_response) \<Rightarrow> nat \<Rightarrow> nat \<Rightarrow> (artifact_observation list \<times> string option) result" where
  "fetch_page get attempt 0 =
     Inl (DomainError ''DiscoveryUnavailableError'' ''upstream listing unreachable'')"
| "fetch_page get attempt (Suc n) = (case get attempt of
      TransportError \<Rightarrow> fetch_page get (attempt + 1) n
    | Response status page \<Rightarrow>
        if 500 \<le> status then fetch_page get (attempt + 1) n
        else if status \<noteq> 200
          then Inl (DomainError ''DiscoveryInvalidResponseError'' ''upstream listing returned HTTP error'')
        else page)"

text \<open>The page loop; the fuel is the number of pages still allowed plus one.\<close>

fun list_pages ::
    "(string option \<Rightarrow> nat \<Rightarrow> http_response) \<Rightarrow> nat \<Rightarrow> nat \<Rightarrow> string option
     \<Rightarrow> artifact_observation list \<Rightarrow> nat \<Rightarrow> artifact_observation list result" where
  "list_pages get attempts 0 continuation keys pages =
     Inl (DomainError ''DiscoveryPaginationError'' ''out of fuel'')"
| "list_pages get attempts (Suc fuel) continuation keys pages =
     bindE (fetch_page (get continuation) 1 attempts) (\<lambda>(page_contents, next_token).
       if MAX_LIST_PAGES < pages + 1
         then Inl (DomainError ''DiscoveryPaginationError'' ''exceeded pages'')
       else (case next_token of
           None \<Rightarrow> Inr (keys @ page_contents)
         | Some t \<Rightarrow> list_pages get attempts fuel (Some t) (keys @ page_contents) (pages + 1)))"

definition list_all_pages ::
    "(string option \<Rightarrow> nat \<Rightarrow> http_response) \<Rightarrow> nat \<Rightarrow> artifact_observation list result" where
  "list_all_pages get download_retries =
     list_pages get (download_retries + 1) (MAX_LIST_PAGES + 1) None [] 0"

definition snapshot_cycle ::
    "string \<Rightarrow> int \<Rightarrow> int \<Rightarrow> string \<Rightarrow> (string \<Rightarrow> key_match option)
     \<Rightarrow> (string option \<Rightarrow> nat \<Rightarrow> http_response) \<Rightarrow> nat \<Rightarrow> bool \<Rightarrow> cycle_snapshot result" where
  "snapshot_cycle model cycle_date cycle_hour prefix key_pattern get download_retries track_mean =
     bindE (list_all_pages get download_retries)
       (\<lambda>listed. Inr (snapshot_from_keys model cycle_date cycle_hour prefix key_pattern listed track_mean))"

definition snapshot_gfs_cycle ::
    "int \<Rightarrow> int \<Rightarrow> (string option \<Rightarrow> nat \<Rightarrow> http_response) \<Rightarrow> nat \<Rightarrow> cycle_snapshot result" where
  "snapshot_gfs_cycle cycle_date cycle_hour get download_retries =
     snapshot_cycle ''gfs'' cycle_date cycle_hour (gfs_cycle_prefix cycle_date cycle_hour)
       match_gfs_key get download_retries False"

definition snapshot_gefs_cycle ::
    "int \<Rightarrow> int \<Rightarrow> (string option \<Rightarrow> nat \<Rightarrow> http_response) \<Rightarrow> nat \<Rightarrow> cycle_snapshot result" where
  "snapshot_gefs_cycle cycle_date cycle_hour get download_retries =
     snapshot_cycle ''gefs'' cycle_date cycle_hour (gefs_cycle_prefix cycle_date cycle_hour)
       match_gefs_key get download_retries False"

definition snapshot_gefs_mean_cycle ::
    "int \<Rightarrow> int \<Rightarrow> (string option \<Rightarrow> nat \<Rightarrow> http_response) \<Rightarrow> nat \<Rightarrow> cycle_snapshot result" where
  "snapshot_gefs_mean_cycle cycle_date cycle_hour get download_retries =
     snapshot_cycle ''gefs'' cycle_date cycle_hour (gefs_cycle_prefix cycle_date cycle_hour)
       match_gefs_key get download_retries True"

subsection \<open>What a snapshot says\<close>

definition artifacts_at :: "('k \<times> region_artifacts) list \<Rightarrow> 'k \<Rightarrow> region_artifacts" where
  "artifacts_at regions k = (case map_of regions k of Some r \<Rightarrow> r | None \<Rightarrow> no_artifacts)"

lemma artifacts_at_put:
  "artifacts_at (put_artifact k idx obs regions) j =
     (if j = k then (if idx then (artifacts_at regions k)\<lparr>ra_idx := Some obs\<rparr>
                     else (artifacts_at regions k)\<lparr>ra_data := Some obs\<rparr>)
      else artifacts_at regions j)"
  by (simp add: artifacts_at_def put_artifact_def Let_def update_conv')

lemma put_artifact_distinct: "distinct (map fst regions) \<Longrightarrow> distinct (map fst (put_artifact k idx obs regions))"
  by (simp add: put_artifact_def Let_def distinct_update)

text \<open>The entries of a listing that belong to a region\<close>

definition listed_as ::
    "(string \<Rightarrow> key_match option) \<Rightarrow> int \<Rightarrow> artifact_observation list \<Rightarrow> int option \<Rightarrow> int \<Rightarrow> bool \<Rightarrow> bool" where
  "listed_as pat hour listed member lead idx \<longleftrightarrow>
     (\<exists>e \<in> set listed. pat (ao_key e) = Some (member, hour, lead, idx))"

lemma snapshot_entry_regions:
  "st_regions (snapshot_entry model hour pat tm e st) =
     (case pat (ao_key e) of
        Some (member, h, lead, idx) \<Rightarrow>
          if h = hour then put_artifact (member, lead) idx e (st_regions st) else st_regions st
      | None \<Rightarrow> st_regions st)"
  by (auto simp: snapshot_entry_def Let_def split: option.split)

lemma fold_snapshot_regions:
  "ra_data (artifacts_at (st_regions (fold (snapshot_entry model hour pat tm) listed st)) (member, lead)) \<noteq> None
     \<longleftrightarrow> ra_data (artifacts_at (st_regions st) (member, lead)) \<noteq> None
         \<or> listed_as pat hour listed member lead False"
  "ra_idx (artifacts_at (st_regions (fold (snapshot_entry model hour pat tm) listed st)) (member, lead)) \<noteq> None
     \<longleftrightarrow> ra_idx (artifacts_at (st_regions st) (member, lead)) \<noteq> None
         \<or> listed_as pat hour listed member lead True"
proof (induction listed arbitrary: st)
  case (Cons e listed)
  {
    case 1
    show ?case
      by (simp only: fold_simps comp_def Cons(1) snapshot_entry_regions)
        (auto simp: listed_as_def artifacts_at_put split: option.split)
  next
    case 2
    show ?case
      by (simp only: fold_simps comp_def Cons(2) snapshot_entry_regions)
        (auto simp: listed_as_def artifacts_at_put split: option.split)
  }
qed (simp_all add: listed_as_def)

lemma fold_snapshot_distinct:
  "distinct (map fst (st_regions st)) \<Longrightarrow>
     distinct (map fst (st_regions (fold (snapshot_entry model hour pat tm) listed st)))"
  by (induction listed arbitrary: st)
    (auto simp: snapshot_entry_regions put_artifact_distinct split: option.split)

lemma region_artifacts_at: "region s m l = artifacts_at (cs_regions s) (m, l)"
  by (simp add: region_def artifacts_at_def)

lemma snapshot_region:
  "ra_data (region (snapshot_from_keys model d hour pre pat listed tm) m l) \<noteq> None
     \<longleftrightarrow> listed_as pat hour listed m l False"
  "ra_idx (region (snapshot_from_keys model d hour pre pat listed tm) m l) \<noteq> None
     \<longleftrightarrow> listed_as pat hour listed m l True"
  unfolding region_artifacts_at snapshot_from_keys_def Let_def
  by (simp_all only: cycle_snapshot.simps fold_snapshot_regions)
    (simp_all add: artifacts_at_def no_artifacts_def)

lemma set_available_members:
  assumes "distinct (map fst (cs_regions s))"
  shows "set (available_members s lead) = {m. is_artifact_complete s (Some m) lead}"
proof -
  have "m \<in> set (available_members s lead) \<longleftrightarrow>
      (\<exists>r. ((Some m, lead), r) \<in> set (cs_regions s) \<and> ra_is_complete r)" for m
    by (force simp: available_members_def set_somes)
  moreover have "((Some m, lead), r) \<in> set (cs_regions s) \<longleftrightarrow> map_of (cs_regions s) (Some m, lead) = Some r"
    for m r using assms by simp
  ultimately show ?thesis
    by (auto simp: is_artifact_complete_def region_def no_artifacts_def ra_is_complete_def
        split: option.splits)
qed

text \<open>A snapshot reports exactly what was listed: an artifact is complete iff the listing contains
  both its data object and its \<open>.idx\<close> sidecar for the cycle hour, whatever the order of the
  keys; and the missing members of a lead are exactly the expected ones that are not complete.\<close>

theorem snapshot_complete_iff_listed:
  "let s = snapshot_from_keys model d hour pre pat listed tm in
   (is_artifact_complete s m l \<longleftrightarrow> listed_as pat hour listed m l False \<and> listed_as pat hour listed m l True) \<and>
   missing_members s l expected = filter (\<lambda>k. \<not> is_artifact_complete s (Some k) l) expected"
proof -
  let ?s = "snapshot_from_keys model d hour pre pat listed tm"
  have "distinct (map fst (cs_regions ?s))"
    by (simp add: snapshot_from_keys_def Let_def fold_snapshot_distinct)
  then have "missing_members ?s l expected = filter (\<lambda>k. \<not> is_artifact_complete ?s (Some k) l) expected"
    by (simp add: missing_members_def set_available_members)
  moreover have "is_artifact_complete ?s m l \<longleftrightarrow>
      listed_as pat hour listed m l False \<and> listed_as pat hour listed m l True"
    unfolding is_artifact_complete_def ra_is_complete_def snapshot_region ..
  ultimately show ?thesis by (simp add: Let_def)
qed

subsection \<open>Complete listings\<close>

text \<open>A chain of pages from a continuation token to the last page\<close>

inductive page_chain ::
    "(string option \<Rightarrow> nat \<Rightarrow> http_response) \<Rightarrow> nat \<Rightarrow> string option \<Rightarrow> artifact_observation list list \<Rightarrow> bool"
  for get attempts where
  last_page: "fetch_page (get c) 1 attempts = Inr (p, None) \<Longrightarrow> page_chain get attempts c [p]"
| next_page: "fetch_page (get c) 1 attempts = Inr (p, Some t) \<Longrightarrow> page_chain get attempts (Some t) ps
     \<Longrightarrow> page_chain get attempts c (p # ps)"

inductive_cases page_chainE: "page_chain get attempts c ps"

lemma list_pages_sound:
  "list_pages get attempts fuel c keys pages = Inr res \<Longrightarrow>
     \<exists>ps. page_chain get attempts c ps \<and> res = keys @ concat ps \<and> pages + length ps \<le> MAX_LIST_PAGES"
proof (induction fuel arbitrary: c keys pages)
  case (Suc fuel)
  then obtain p nt where p: "fetch_page (get c) 1 attempts = Inr (p, nt)" "pages + 1 \<le> MAX_LIST_PAGES"
    and rest: "(case nt of None \<Rightarrow> Inr (keys @ p)
      | Some t \<Rightarrow> list_pages get attempts fuel (Some t) (keys @ p) (pages + 1)) = Inr res"
    by (auto simp: bindE_eq_Inr split: if_splits)
  show ?case
  proof (cases nt)
    case None
    with p rest show ?thesis by (intro exI [of _ "[p]"]) (auto intro: last_page)
  next
    case (Some t)
    then have "list_pages get attempts fuel (Some t) (keys @ p) (pages + 1) = Inr res"
      using rest by simp
    from Suc.IH [OF this] obtain ps where ps: "page_chain get attempts (Some t) ps"
      "res = (keys @ p) @ concat ps" "(pages + 1) + length ps \<le> MAX_LIST_PAGES" by auto
    then have "page_chain get attempts c (p # ps)" using p(1) Some by (auto intro: next_page)
    with ps show ?thesis by (intro exI [of _ "p # ps"]) auto
  qed
qed simp

lemma list_pages_complete:
  "page_chain get attempts c ps \<Longrightarrow> pages + length ps \<le> MAX_LIST_PAGES \<Longrightarrow> length ps \<le> fuel \<Longrightarrow>
     list_pages get attempts fuel c keys pages = Inr (keys @ concat ps)"
proof (induction c ps arbitrary: keys pages fuel rule: page_chain.induct)
  case (last_page c p)
  then obtain f where "fuel = Suc f" by (cases fuel) auto
  with last_page show ?case by simp
next
  case (next_page c p t ps)
  then obtain f where "fuel = Suc f" by (cases fuel) auto
  with next_page show ?case by simp
qed

text \<open>A listing is all or nothing: it succeeds exactly when following the continuation tokens
  reaches a last page within the page budget, and then it is the concatenation of all the pages;
  every other outcome is an error, never a shorter listing.\<close>

theorem listing_all_or_nothing:
  "list_all_pages get retries = Inr keys \<longleftrightarrow>
     (\<exists>ps. page_chain get (retries + 1) None ps \<and> length ps \<le> MAX_LIST_PAGES \<and> keys = concat ps)"
proof
  assume "list_all_pages get retries = Inr keys"
  then show "\<exists>ps. page_chain get (retries + 1) None ps \<and> length ps \<le> MAX_LIST_PAGES \<and> keys = concat ps"
    using list_pages_sound unfolding list_all_pages_def by fastforce
next
  assume "\<exists>ps. page_chain get (retries + 1) None ps \<and> length ps \<le> MAX_LIST_PAGES \<and> keys = concat ps"
  then obtain ps where "page_chain get (retries + 1) None ps" "length ps \<le> MAX_LIST_PAGES" "keys = concat ps"
    by blast
  then show "list_all_pages get retries = Inr keys"
    using list_pages_complete [of get "retries + 1" None ps 0 "MAX_LIST_PAGES + 1" "[]"]
    by (simp add: list_all_pages_def)
qed

theorem listing_all_or_nothing_witness:
  "\<exists>keys. list_all_pages (\<lambda>c i. if i = 1 then TransportError
      else Response 200 (Inr ([], if c = None then Some ''t'' else None))) 2 = Inr keys \<and> keys = []"
proof -
  let ?get = "\<lambda>c i. if i = (1 :: nat) then TransportError
      else Response 200 (Inr ([], if c = None then Some ''t'' else None))"
  have f: "fetch_page (?get c) 1 3 = Inr ([], if c = None then Some ''t'' else None)" for c
    by (simp add: numeral_3_eq_3)
  have "page_chain ?get (2 + 1) None [[], []]"
    using f by (intro next_page [where t = "''t''"] last_page) (simp_all add: numeral_3_eq_3)
  then have "list_all_pages ?get 2 = Inr (concat [[], []])"
    by (intro listing_all_or_nothing [THEN iffD2] exI [of _ "[[], []]"]) (simp add: MAX_LIST_PAGES_def)
  then show ?thesis by simp
qed

subsection \<open>Prefixes and keys\<close>

lemma eat_append [simp]: "eat p (p @ s) = Some s"
proof -
  have "startswith (p @ s) p" by (simp add: startswith_iff)
  then show ?thesis by (simp add: eat_def)
qed

lemma eat_digits_append:
  "length d = n \<Longrightarrow> set d \<subseteq> set digit_chars \<Longrightarrow> eat_digits n (d @ s) = Some (d, s)"
  by (auto simp: eat_digits_def list_all_iff)

text \<open>Numbers that fit the width print as exactly that many digits.\<close>

lemma nat_str_length_le: "n < 10 ^ Suc k \<Longrightarrow> length (nat_str n) \<le> Suc k"
proof (induction k arbitrary: n)
  case 0
  then show ?case by (simp add: nat_str.simps [of n])
next
  case (Suc k)
  have "n div 10 < 10 ^ Suc k" using Suc.prems by (simp add: less_mult_imp_div_less mult.commute)
  then have "length (nat_str (n div 10)) \<le> Suc k" by (rule Suc.IH)
  then show ?case by (simp add: nat_str.simps [of n])
qed

lemma fmt0_width:
  assumes "0 \<le> n" "n < 10 ^ Suc k"
  shows "length (fmt0 (Suc k) n) = Suc k" "set (fmt0 (Suc k) n) \<subseteq> set digit_chars"
proof -
  have "nat n < 10 ^ Suc k" using assms by (simp add: nat_less_iff)
  then show "length (fmt0 (Suc k) n) = Suc k"
    using assms(1) nat_str_length_le [of "nat n" k] by (simp add: fmt0_def zero_pad_def)
  show "set (fmt0 (Suc k) n) \<subseteq> set digit_chars"
    using assms(1) by (simp add: fmt0_def zero_pad_digits)
qed

lemma digits_value_fmt0 [simp]: "digits_value (fmt0 w n) = n"
  by (simp add: digits_value_def parse_int_fmt0)

lemma eat_fmt0:
  assumes "0 \<le> n" "n < 10 ^ w" "0 < w"
  shows "eat_digits w (fmt0 w n @ s) = Some (fmt0 w n, s)"
  using assms fmt0_width [of n "w - 1"] by (intro eat_digits_append) simp_all

lemma match_tail_fmt0:
  assumes "0 \<le> lead" "lead < 1000"
  shows "match_tail (fmt0 3 lead) = Some (lead, False)"
    "match_tail (fmt0 3 lead @ ''.idx'') = Some (lead, True)"
  using eat_fmt0 [of lead 3 "[]"] eat_fmt0 [of lead 3 "''.idx''"] assms
  by (simp_all add: match_tail_def)

text \<open>The year of a day number lies in the four-digit range\<close>

definition four_digit_date :: "int \<Rightarrow> bool" where
  "four_digit_date d \<longleftrightarrow> length (compact_date d) = 8 \<and> set (compact_date d) \<subseteq> set digit_chars"

text \<open>The listing prefixes and the key grammar agree: for every date with a four-digit year, hour
  and lead, the data key and the sidecar key under the cycle's prefix are recognised with exactly
  that member, hour and lead, for GFS and for each GEFS member.\<close>

theorem prefix_keys_recognised:
  assumes "four_digit_date d" "0 \<le> hour" "hour < 100" "0 \<le> lead" "lead < 1000"
    "0 \<le> member" "member < 100"
  shows "match_gfs_key (gfs_cycle_prefix d hour @ fmt0 3 lead) = Some (None, hour, lead, False) \<and>
    match_gfs_key (gfs_cycle_prefix d hour @ fmt0 3 lead @ ''.idx'') = Some (None, hour, lead, True) \<and>
    match_gefs_key (gefs_cycle_prefix d hour @ ''gep'' @ fmt0 2 member @ ''.t'' @ fmt0 2 hour
      @ ''z.pgrb2s.0p25.f'' @ fmt0 3 lead) = Some (Some member, hour, lead, False) \<and>
    match_gefs_key (gefs_cycle_prefix d hour @ ''gep'' @ fmt0 2 member @ ''.t'' @ fmt0 2 hour
      @ ''z.pgrb2s.0p25.f'' @ fmt0 3 lead @ ''.idx'') = Some (Some member, hour, lead, True)"
proof -
  have date: "eat_digits 8 (compact_date d @ s) = Some (compact_date d, s)" for s
    using assms(1) by (intro eat_digits_append) (simp_all add: four_digit_date_def)
  have two: "eat_digits 2 (fmt0 2 n @ s) = Some (fmt0 2 n, s)" if "0 \<le> n" "n < 100" for n s
    using that by (intro eat_fmt0) simp_all
  have gfs: "match_gfs_key (gfs_cycle_prefix d hour @ t) =
      Option.bind (match_tail t) (\<lambda>(lead, idx). Some (None, hour, lead, idx))" for t
  proof -
    have "eat (''/atmos/gfs.t'' @ fmt0 2 hour @ ''z.pgrb2.0p25.f'')
        (''/atmos/gfs.t'' @ fmt0 2 hour @ ''z.pgrb2.0p25.f'' @ t) = Some t"
      using eat_append [of "''/atmos/gfs.t'' @ fmt0 2 hour @ ''z.pgrb2.0p25.f''" t]
      by (simp only: append_assoc)
    then show ?thesis
      unfolding match_gfs_key_def gfs_cycle_prefix_def append_assoc
      by (simp only: eat_append date two [OF assms(2,3)] Option.bind.bind_lunit prod.case digits_value_fmt0)
  qed
  have gefs: "match_gefs_key (gefs_cycle_prefix d hour @ ''gep'' @ fmt0 2 member @ ''.t'' @ fmt0 2 hour
      @ ''z.pgrb2s.0p25.f'' @ t) =
      Option.bind (match_tail t) (\<lambda>(lead, idx). Some (Some member, hour, lead, idx))" for t
  proof -
    have p: "''/atmos/pgrb2sp25/'' @ ''gep'' @ s = ''/atmos/pgrb2sp25/gep'' @ s" for s by simp
    have "eat (''.t'' @ fmt0 2 hour @ ''z.pgrb2s.0p25.f'')
        (''.t'' @ fmt0 2 hour @ ''z.pgrb2s.0p25.f'' @ t) = Some t"
      using eat_append [of "''.t'' @ fmt0 2 hour @ ''z.pgrb2s.0p25.f''" t] by (simp only: append_assoc)
    then show ?thesis
      unfolding match_gefs_key_def gefs_cycle_prefix_def append_assoc p
      by (simp only: eat_append date two [OF assms(2,3)] two [OF assms(6,7)] Option.bind.bind_lunit
          prod.case digits_value_fmt0)
  qed
  show ?thesis using gfs gefs match_tail_fmt0 [OF assms(4,5)] by simp
qed

theorem prefix_keys_recognised_witness:
  "match_gfs_key (gfs_cycle_prefix 20698 6 @ fmt0 3 3) = Some (None, 6, 3, False) \<and>
   gfs_cycle_prefix 20698 6 = ''gfs.20260902/06/atmos/gfs.t06z.pgrb2.0p25.f''"
proof -
  have "compact_date 20698 = ''20260902''" by code_simp
  then have "four_digit_date 20698" by (simp add: four_digit_date_def digit_chars_def)
  moreover have "gfs_cycle_prefix 20698 6 = ''gfs.20260902/06/atmos/gfs.t06z.pgrb2.0p25.f''" by code_simp
  ultimately show ?thesis using prefix_keys_recognised [of 20698 6 3 0] by simp
qed

text \<open>The publication diff does not see the ensemble-mean artifacts.\<close>

lemma mean_artifacts_not_in_fingerprint:
  "\<not> publication_changed sha256 s (s\<lparr>cs_mean_regions := regions\<rparr>)"
  by (simp add: publication_changed_def fingerprint_def)

end
