(* ===== verification/WavePlanner.thy ===== *)
theory WavePlanner
  imports Discovery Coverage
begin

text \<open>
  \<open>ingestion/realtime/planner.py\<close>: one planning pass over the snapshots of both models and their
  durable committed state. Times are reals (the injected clock).
\<close>

definition BLOCK_HORIZON_COMPLETE :: string where "BLOCK_HORIZON_COMPLETE = ''horizon-complete''"
definition BLOCK_GFS_INCOMPLETE :: string where "BLOCK_GFS_INCOMPLETE = ''gfs-incomplete''"
definition BLOCK_GEFS_INCOMPLETE :: string where "BLOCK_GEFS_INCOMPLETE = ''gefs-incomplete''"
definition BLOCK_PREDECESSOR :: string where "BLOCK_PREDECESSOR = ''predecessor''"
definition BLOCK_NOT_OBSERVED :: string where "BLOCK_NOT_OBSERVED = ''not-observed''"

lemmas block_defs = BLOCK_HORIZON_COMPLETE_def BLOCK_GFS_INCOMPLETE_def BLOCK_GEFS_INCOMPLETE_def
  BLOCK_PREDECESSOR_def BLOCK_NOT_OBSERVED_def

record model_committed_state =
  mcs_leads :: "int set"
  mcs_pairs :: "(int \<times> int) set"

definition is_lead_committed ::
    "model_committed_state \<Rightarrow> int \<Rightarrow> bool \<Rightarrow> int list \<Rightarrow> bool" where
  "is_lead_committed committed lead ensemble expected_members =
     (if ensemble then \<forall>m \<in> set expected_members. (m, lead) \<in> mcs_pairs committed
      else lead \<in> mcs_leads committed)"

record wave_policy =
  wp_max_leads :: int
  wp_max_wait_seconds :: real

record frontier_plan =
  fp_cycle_label :: string
  fp_horizon :: "int list"
  fp_observed_frontier :: "int option"
  fp_complete_frontier :: "int option"
  fp_committed_frontier :: "int option"
  fp_pending_complete_leads :: "int list"
  fp_next_blocked_lead :: "int option"
  fp_blocked_reason :: "string option"
  fp_missing_gfs_artifacts :: "string list"
  fp_missing_gefs_members :: "int list"
  fp_gfs_present :: bool
  fp_gefs_present :: bool
  fp_wave_due :: bool
  fp_wave_candidate :: "int list"
  fp_wave_targets_gfs :: "int list"
  fp_wave_targets_gefs :: "int list"
  fp_oldest_pending_age_seconds :: "real option"

definition predecessor_satisfied ::
    "int \<Rightarrow> model_committed_state \<Rightarrow> bool \<Rightarrow> int list \<Rightarrow> int list \<Rightarrow> bool" where
  "predecessor_satisfied lead committed ensemble expected_members candidate_so_far =
     (if lead = 0 \<or> lead mod 6 \<noteq> 0 then True
      else is_lead_committed committed (lead - 3) ensemble expected_members
           \<or> lead - 3 \<in> set candidate_so_far)"

text \<open>The loop \<open>for lead in seq: if ok: frontier = lead else: break\<close>\<close>

fun frontier :: "(int \<Rightarrow> bool) \<Rightarrow> int list \<Rightarrow> int option \<Rightarrow> int option" where
  "frontier ok [] acc = acc"
| "frontier ok (lead # rest) acc = (if ok lead then frontier ok rest (Some lead) else acc)"

text \<open>
  The pending walk. \<open>done_both\<close>, \<open>barrier_ok\<close> and \<open>eligible\<close> are the three tests of the loop body;
  the result is the accepted leads and the blocking lead, with whether it failed the barrier.
\<close>

fun pending_walk ::
    "(int \<Rightarrow> bool) \<Rightarrow> (int \<Rightarrow> bool) \<Rightarrow> (int \<Rightarrow> int list \<Rightarrow> bool) \<Rightarrow> int list \<Rightarrow> int list
     \<Rightarrow> int list \<times> (int \<times> bool) option" where
  "pending_walk done_both barrier_ok eligible [] pending = (pending, None)"
| "pending_walk done_both barrier_ok eligible (lead # rest) pending =
     (if done_both lead then pending_walk done_both barrier_ok eligible rest pending
      else if \<not> barrier_ok lead then (pending, Some (lead, True))
      else if \<not> eligible lead pending then (pending, Some (lead, False))
      else pending_walk done_both barrier_ok eligible rest (pending @ [lead]))"

text \<open>\<open>pending[:n]\<close>\<close>

definition slice_to :: "int \<Rightarrow> 'a list \<Rightarrow> 'a list" where
  "slice_to n xs = (if 0 \<le> n then take (nat n) xs else take (length xs - nat (- n)) xs)"

definition plan_wave ::
    "horizon_registry \<Rightarrow> coverage_state \<Rightarrow> string \<Rightarrow> cycle_snapshot option \<Rightarrow> cycle_snapshot option
     \<Rightarrow> model_committed_state \<Rightarrow> model_committed_state \<Rightarrow> wave_policy \<Rightarrow> (int \<rightharpoonup> real) \<Rightarrow> real
     \<Rightarrow> int list option \<Rightarrow> int list option \<Rightarrow> frontier_plan result" where
  "plan_wave reg cov cycle_label gfs gefs committed_gfs committed_gefs policy timing now horizon
      expected_gefs_members =
     bindE (case horizon of Some h \<Rightarrow> Inr h | None \<Rightarrow> canonical_lead_time_hours reg ''gfs'' None None)
       (\<lambda>leads.
     bindE (case expected_gefs_members of
              Some ms \<Rightarrow> Inr ms
            | None \<Rightarrow> bindE (get_expected_members cov ''gefs'' None) (\<lambda>n. Inr (py_range 1 (n + 1) 1)))
       (\<lambda>members.
     (let gfs_present = (case gfs of Some s \<Rightarrow> cs_regions s \<noteq> [] | None \<Rightarrow> False);
          gefs_present = (case gefs of Some s \<Rightarrow> cs_regions s \<noteq> [] | None \<Rightarrow> False);
          observed = somes [Option.bind gfs highest_observed_lead, Option.bind gefs highest_observed_lead];
          observed_frontier = (if observed = [] then None else Some (Max (set observed)));
          gfs_complete = (\<lambda>lead. case gfs of Some s \<Rightarrow> is_artifact_complete s None lead | None \<Rightarrow> False);
          gefs_complete = (\<lambda>lead. case gefs of
             Some s \<Rightarrow> (\<forall>m \<in> set members. is_artifact_complete s (Some m) lead) | None \<Rightarrow> False);
          shared_complete = (\<lambda>lead. gfs_complete lead \<and> gefs_complete lead);
          gfs_committed = (\<lambda>lead. is_lead_committed committed_gfs lead False []);
          gefs_committed = (\<lambda>lead. is_lead_committed committed_gefs lead True members);
          both = (\<lambda>lead. gfs_committed lead \<and> gefs_committed lead);
          (pending, blocked) = pending_walk both shared_complete
             (\<lambda>lead sofar. predecessor_satisfied lead committed_gfs False [] sofar
                         \<and> predecessor_satisfied lead committed_gefs True members sofar) leads [];
          oldest_age = (if pending = [] then None
             else Some (max 0 (now - Min (set (map (\<lambda>l. case timing l of Some t \<Rightarrow> t | None \<Rightarrow> now) pending)))));
          due = (case oldest_age of None \<Rightarrow> False
             | Some age \<Rightarrow> wp_max_leads policy \<le> int (length pending) \<or> wp_max_wait_seconds policy \<le> age);
          candidate = (if due then slice_to (wp_max_leads policy) pending else [])
      in Inr \<lparr>fp_cycle_label = cycle_label, fp_horizon = leads,
           fp_observed_frontier = observed_frontier,
           fp_complete_frontier = frontier shared_complete leads None,
           fp_committed_frontier = frontier both leads None,
           fp_pending_complete_leads = pending,
           fp_next_blocked_lead = map_option fst blocked,
           fp_blocked_reason = (case blocked of
               None \<Rightarrow> if pending = [] then Some BLOCK_HORIZON_COMPLETE else None
             | Some (lead, barrier) \<Rightarrow>
                 Some (if \<not> barrier then BLOCK_PREDECESSOR
                       else if \<not> (gfs_present \<or> gefs_present) then BLOCK_NOT_OBSERVED
                       else if \<not> gfs_complete lead then BLOCK_GFS_INCOMPLETE
                       else BLOCK_GEFS_INCOMPLETE)),
           fp_missing_gfs_artifacts = (case (blocked, gfs) of
               (Some (lead, True), Some s) \<Rightarrow>
                 (if ra_data (region s None lead) = None then [''data''] else [])
                 @ (if ra_idx (region s None lead) = None then [''idx''] else [])
             | _ \<Rightarrow> []),
           fp_missing_gefs_members = (case (blocked, gefs) of
               (Some (lead, True), Some s) \<Rightarrow> missing_members s lead members
             | _ \<Rightarrow> []),
           fp_gfs_present = gfs_present, fp_gefs_present = gefs_present,
           fp_wave_due = due, fp_wave_candidate = candidate,
           fp_wave_targets_gfs = filter (\<lambda>l. \<not> gfs_committed l) candidate,
           fp_wave_targets_gefs = filter (\<lambda>l. \<not> gefs_committed l) candidate,
           fp_oldest_pending_age_seconds = oldest_age\<rparr>)))"

subsection \<open>The walk\<close>

definition shared_barrier ::
    "cycle_snapshot option \<Rightarrow> cycle_snapshot option \<Rightarrow> int list \<Rightarrow> int \<Rightarrow> bool" where
  "shared_barrier gfs gefs members lead \<longleftrightarrow>
     (\<exists>s. gfs = Some s \<and> is_artifact_complete s None lead) \<and>
     (\<exists>s. gefs = Some s \<and> (\<forall>m \<in> set members. is_artifact_complete s (Some m) lead))"

definition committed_both ::
    "model_committed_state \<Rightarrow> model_committed_state \<Rightarrow> int list \<Rightarrow> int \<Rightarrow> bool" where
  "committed_both cg ce members lead \<longleftrightarrow>
     is_lead_committed cg lead False [] \<and> is_lead_committed ce lead True members"

definition both_eligible ::
    "model_committed_state \<Rightarrow> model_committed_state \<Rightarrow> int list \<Rightarrow> int \<Rightarrow> int list \<Rightarrow> bool" where
  "both_eligible cg ce members lead sofar \<longleftrightarrow>
     predecessor_satisfied lead cg False [] sofar \<and> predecessor_satisfied lead ce True members sofar"

text \<open>The walk splits the horizon: the part passed, whose uncommitted leads are the pending ones,
  and the rest, which is empty or starts with the blocking lead.\<close>

lemma pending_walk_split:
  assumes "pending_walk D B E xs p0 = (p, blk)"
  shows "\<exists>ys zs. xs = ys @ zs \<and> p = p0 @ filter (\<lambda>l. \<not> D l) ys \<and> (\<forall>l \<in> set ys. D l \<or> B l) \<and>
    (case blk of None \<Rightarrow> zs = []
       | Some (l, bar) \<Rightarrow> zs \<noteq> [] \<and> l = hd zs \<and> \<not> D l \<and> bar = (\<not> B l) \<and> (\<not> bar \<longrightarrow> \<not> E l p)) \<and>
    (\<forall>us l vs. filter (\<lambda>l. \<not> D l) ys = us @ l # vs \<longrightarrow> E l (p0 @ us))"
  using assms
proof (induction D B E xs p0 rule: pending_walk.induct)
  case (1 D B E p0)
  then show ?case by auto
next
  case (2 D B E x xs p0)
  show ?case
  proof (cases "D x")
    case True
    with 2 obtain ys zs where "xs = ys @ zs" "p = p0 @ filter (\<lambda>l. \<not> D l) ys"
      "\<forall>l \<in> set ys. D l \<or> B l" "case blk of None \<Rightarrow> zs = []
       | Some (l, bar) \<Rightarrow> zs \<noteq> [] \<and> l = hd zs \<and> \<not> D l \<and> bar = (\<not> B l) \<and> (\<not> bar \<longrightarrow> \<not> E l p)"
      "\<forall>us l vs. filter (\<lambda>l. \<not> D l) ys = us @ l # vs \<longrightarrow> E l (p0 @ us)" by auto
    with True show ?thesis by (intro exI [of _ "x # ys"] exI [of _ zs]) simp
  next
    case notD: False
    show ?thesis
    proof (cases "B x \<and> E x p0")
      case False
      with notD 2(3) show ?thesis
        by (intro exI [of _ "[]"] exI [of _ "x # xs"]) (auto split: if_splits)
    next
      case True
      with 2 notD obtain ys zs where ys: "xs = ys @ zs" "p = (p0 @ [x]) @ filter (\<lambda>l. \<not> D l) ys"
        "\<forall>l \<in> set ys. D l \<or> B l" "case blk of None \<Rightarrow> zs = []
         | Some (l, bar) \<Rightarrow> zs \<noteq> [] \<and> l = hd zs \<and> \<not> D l \<and> bar = (\<not> B l) \<and> (\<not> bar \<longrightarrow> \<not> E l p)"
        "\<forall>us l vs. filter (\<lambda>l. \<not> D l) ys = us @ l # vs \<longrightarrow> E l ((p0 @ [x]) @ us)" by auto
      have "E l (p0 @ us)" if "filter (\<lambda>l. \<not> D l) (x # ys) = us @ l # vs" for us l vs
        using that ys(5) notD True by (cases us) auto
      with ys True notD show ?thesis by (intro exI [of _ "x # ys"] exI [of _ zs]) simp
    qed
  qed
qed

text \<open>The fields of a plan for an explicit horizon and member list\<close>

lemma plan_wave_walk:
  assumes "plan_wave reg cov lbl gfs gefs cg ce pol timing now (Some h) (Some ms) = Inr p"
  shows "\<exists>blk. pending_walk (committed_both cg ce ms) (shared_barrier gfs gefs ms)
      (both_eligible cg ce ms) h [] = (fp_pending_complete_leads p, blk) \<and>
    fp_next_blocked_lead p = map_option fst blk \<and>
    (fp_blocked_reason p = Some BLOCK_PREDECESSOR \<longleftrightarrow> (\<exists>l. blk = Some (l, False))) \<and>
    (fp_blocked_reason p = Some BLOCK_HORIZON_COMPLETE \<longleftrightarrow>
       blk = None \<and> fp_pending_complete_leads p = [])"
proof -
  have b: "(\<lambda>lead. (case gfs of Some s \<Rightarrow> is_artifact_complete s None lead | None \<Rightarrow> False) \<and>
      (case gefs of Some s \<Rightarrow> (\<forall>m \<in> set ms. is_artifact_complete s (Some m) lead) | None \<Rightarrow> False))
    = shared_barrier gfs gefs ms"
    by (auto simp: shared_barrier_def fun_eq_iff split: option.split)
  have d: "(\<lambda>lead. is_lead_committed cg lead False [] \<and> is_lead_committed ce lead True ms)
    = committed_both cg ce ms" by (simp add: committed_both_def fun_eq_iff)
  have e: "(\<lambda>lead sofar. predecessor_satisfied lead cg False [] sofar \<and>
      predecessor_satisfied lead ce True ms sofar) = both_eligible cg ce ms"
    by (simp add: both_eligible_def fun_eq_iff)
  obtain pend blk where w: "pending_walk (committed_both cg ce ms) (shared_barrier gfs gefs ms)
      (both_eligible cg ce ms) h [] = (pend, blk)" by fastforce
  note p = assms [symmetric, unfolded plan_wave_def]
  have "fp_pending_complete_leads p = pend" "fp_next_blocked_lead p = map_option fst blk"
    using p w by (simp_all add: Let_def b d e)
  moreover obtain g1 g2 where "fp_blocked_reason p = (case blk of
        None \<Rightarrow> if pend = [] then Some BLOCK_HORIZON_COMPLETE else None
      | Some (lead, barrier) \<Rightarrow>
          Some (if \<not> barrier then BLOCK_PREDECESSOR else if g1 then BLOCK_NOT_OBSERVED
                else if g2 lead then BLOCK_GFS_INCOMPLETE else BLOCK_GEFS_INCOMPLETE))"
    using p w by (simp add: Let_def b d e)
  ultimately show ?thesis
    using w by (auto simp: block_defs split: option.splits if_splits)
qed

text \<open>A lead whose predecessor was passed is eligible: it is committed for both or pending.\<close>

lemma both_eligible_passed:
  assumes "l - 3 \<in> set passed"
  shows "both_eligible cg ce ms l (filter (\<lambda>l. \<not> committed_both cg ce ms l) passed)"
proof (cases "committed_both cg ce ms (l - 3)")
  case True
  then show ?thesis
    by (simp add: both_eligible_def predecessor_satisfied_def committed_both_def)
next
  case False
  then have "l - 3 \<in> set (filter (\<lambda>l. \<not> committed_both cg ce ms l) passed)" using assms by simp
  then show ?thesis unfolding both_eligible_def predecessor_satisfied_def by presburger
qed

lemma plan_wave_batch:
  assumes "plan_wave reg cov lbl gfs gefs cg ce pol timing now (Some h) (Some ms) = Inr p"
  shows "fp_wave_candidate p =
      (if fp_wave_due p then slice_to (wp_max_leads pol) (fp_pending_complete_leads p) else [])"
    "fp_wave_targets_gfs p = filter (\<lambda>l. \<not> is_lead_committed cg l False []) (fp_wave_candidate p)"
    "fp_wave_targets_gefs p = filter (\<lambda>l. \<not> is_lead_committed ce l True ms) (fp_wave_candidate p)"
    "fp_wave_due p \<longleftrightarrow> (\<exists>age. fp_oldest_pending_age_seconds p = Some age \<and>
       (wp_max_leads pol \<le> int (length (fp_pending_complete_leads p)) \<or> wp_max_wait_seconds pol \<le> age))"
    "fp_oldest_pending_age_seconds p = None \<longleftrightarrow> fp_pending_complete_leads p = []"
    "fp_horizon p = h"
proof -
  note p = assms [symmetric, unfolded plan_wave_def]
  show "fp_wave_candidate p =
      (if fp_wave_due p then slice_to (wp_max_leads pol) (fp_pending_complete_leads p) else [])"
    "fp_wave_targets_gfs p = filter (\<lambda>l. \<not> is_lead_committed cg l False []) (fp_wave_candidate p)"
    "fp_wave_targets_gefs p = filter (\<lambda>l. \<not> is_lead_committed ce l True ms) (fp_wave_candidate p)"
    "fp_oldest_pending_age_seconds p = None \<longleftrightarrow> fp_pending_complete_leads p = []"
    "fp_horizon p = h"
    using p by (simp_all add: Let_def case_prod_unfold)
  show "fp_wave_due p \<longleftrightarrow> (\<exists>age. fp_oldest_pending_age_seconds p = Some age \<and>
       (wp_max_leads pol \<le> int (length (fp_pending_complete_leads p)) \<or> wp_max_wait_seconds pol \<le> age))"
    using p by (simp add: Let_def case_prod_unfold)
qed

lemma plan_wave_age:
  assumes "plan_wave reg cov lbl gfs gefs cg ce pol timing now (Some h) (Some ms) = Inr p"
    and "fp_oldest_pending_age_seconds p = Some age"
  shows "0 \<le> age"
proof -
  have "fp_oldest_pending_age_seconds p = (if fp_pending_complete_leads p = [] then None
      else Some (max 0 (now - Min (set (map (\<lambda>l. case timing l of Some t \<Rightarrow> t | None \<Rightarrow> now)
        (fp_pending_complete_leads p))))))"
    using assms(1) [symmetric, unfolded plan_wave_def]
    by (simp add: Let_def case_prod_unfold)
  then show ?thesis using assms(2) by (auto split: if_splits)
qed

lemma slice_to_prefix: "\<exists>ys. xs = slice_to n xs @ ys"
  unfolding slice_to_def by (metis append_take_drop_id)

lemma plan_wave_prefix:
  assumes "plan_wave reg cov lbl gfs gefs cg ce pol timing now (Some h) (Some ms) = Inr p"
  shows "\<exists>rest. fp_pending_complete_leads p = fp_wave_candidate p @ rest"
proof (cases "fp_wave_due p")
  case True
  then have "fp_wave_candidate p = slice_to (wp_max_leads pol) (fp_pending_complete_leads p)"
    by (simp add: plan_wave_batch(1) [OF assms])
  then show ?thesis using slice_to_prefix by metis
qed (simp add: plan_wave_batch(1) [OF assms])

lemma plan_wave_split:
  assumes "plan_wave reg cov lbl gfs gefs cg ce pol timing now (Some h) (Some ms) = Inr p"
  shows "\<exists>passed rest. h = passed @ rest \<and>
    fp_pending_complete_leads p = filter (\<lambda>l. \<not> committed_both cg ce ms l) passed \<and>
    (\<forall>l \<in> set passed. committed_both cg ce ms l \<or> shared_barrier gfs gefs ms l) \<and>
    (case fp_next_blocked_lead p of
       None \<Rightarrow> rest = [] \<and> fp_blocked_reason p \<noteq> Some BLOCK_PREDECESSOR
     | Some l \<Rightarrow> rest \<noteq> [] \<and> hd rest = l \<and> \<not> committed_both cg ce ms l \<and>
         (fp_blocked_reason p = Some BLOCK_PREDECESSOR \<longleftrightarrow> shared_barrier gfs gefs ms l) \<and>
         (shared_barrier gfs gefs ms l \<longrightarrow> \<not> both_eligible cg ce ms l (fp_pending_complete_leads p))) \<and>
    (\<forall>us l vs. fp_pending_complete_leads p = us @ l # vs \<longrightarrow> both_eligible cg ce ms l us) \<and>
    (fp_blocked_reason p = Some BLOCK_HORIZON_COMPLETE \<longleftrightarrow>
       fp_next_blocked_lead p = None \<and> fp_pending_complete_leads p = [])"
proof -
  obtain blk where walk: "pending_walk (committed_both cg ce ms) (shared_barrier gfs gefs ms)
      (both_eligible cg ce ms) h [] = (fp_pending_complete_leads p, blk)"
    and nb: "fp_next_blocked_lead p = map_option fst blk"
    and br: "fp_blocked_reason p = Some BLOCK_PREDECESSOR \<longleftrightarrow> (\<exists>l. blk = Some (l, False))"
    and hc: "fp_blocked_reason p = Some BLOCK_HORIZON_COMPLETE \<longleftrightarrow>
       blk = None \<and> fp_pending_complete_leads p = []"
    using plan_wave_walk [OF assms] by blast
  from pending_walk_split [OF walk] obtain ys zs where s: "h = ys @ zs"
    "fp_pending_complete_leads p = filter (\<lambda>l. \<not> committed_both cg ce ms l) ys"
    "\<forall>l \<in> set ys. committed_both cg ce ms l \<or> shared_barrier gfs gefs ms l"
    "case blk of None \<Rightarrow> zs = [] | Some (l, bar) \<Rightarrow> zs \<noteq> [] \<and> l = hd zs \<and> \<not> committed_both cg ce ms l \<and>
       bar = (\<not> shared_barrier gfs gefs ms l) \<and> (\<not> bar \<longrightarrow> \<not> both_eligible cg ce ms l (fp_pending_complete_leads p))"
    "\<forall>us l vs. filter (\<lambda>l. \<not> committed_both cg ce ms l) ys = us @ l # vs \<longrightarrow> both_eligible cg ce ms l us"
    by auto
  then show ?thesis
    unfolding nb br hc by (intro exI [of _ ys] exI [of _ zs]) (auto split: option.splits prod.splits)
qed

text \<open>C6: A wave never jumps over work: the horizon splits into a part already passed and a rest;
  the pending leads are exactly the leads of the passed part that are not committed for both
  models, in order, each of them fully published for both; and the rest is empty or starts with
  the reported blocking lead, which is not committed for both.\<close>

theorem plan_wave_no_jumping:
  assumes "plan_wave reg cov lbl gfs gefs cg ce pol timing now (Some h) (Some ms) = Inr p"
  shows "\<exists>passed rest. h = passed @ rest \<and>
    fp_pending_complete_leads p = filter (\<lambda>l. \<not> committed_both cg ce ms l) passed \<and>
    (\<forall>l \<in> set (fp_pending_complete_leads p). shared_barrier gfs gefs ms l) \<and>
    (case fp_next_blocked_lead p of
       None \<Rightarrow> rest = []
     | Some l \<Rightarrow> rest \<noteq> [] \<and> hd rest = l \<and> \<not> committed_both cg ce ms l)"
  using plan_wave_split [OF assms] by (fastforce split: option.splits)

text \<open>A wave is bounded and split by model: for a positive bound the wave is a prefix of the
  pending leads of at most that many, it is empty exactly when it is not due, and every lead of
  the wave is a target of at least one model, never of a model that already committed it.\<close>

theorem plan_wave_bounded:
  assumes "plan_wave reg cov lbl gfs gefs cg ce pol timing now (Some h) (Some ms) = Inr p"
    and "0 < wp_max_leads pol"
  shows "(\<exists>rest. fp_pending_complete_leads p = fp_wave_candidate p @ rest) \<and>
    int (length (fp_wave_candidate p)) \<le> wp_max_leads pol \<and>
    (fp_wave_candidate p \<noteq> [] \<longleftrightarrow> fp_wave_due p) \<and>
    set (fp_wave_targets_gfs p) \<union> set (fp_wave_targets_gefs p) = set (fp_wave_candidate p) \<and>
    (\<forall>l \<in> set (fp_wave_targets_gfs p). \<not> is_lead_committed cg l False []) \<and>
    (\<forall>l \<in> set (fp_wave_targets_gefs p). \<not> is_lead_committed ce l True ms)"
proof -
  note b = plan_wave_batch [OF assms(1)]
  obtain rest where prefix: "fp_pending_complete_leads p = fp_wave_candidate p @ rest"
    using plan_wave_prefix [OF assms(1)] by blast
  obtain passed where passed: "fp_pending_complete_leads p = filter (\<lambda>l. \<not> committed_both cg ce ms l) passed"
    using plan_wave_split [OF assms(1)] by blast
  have "\<not> committed_both cg ce ms l" if l: "l \<in> set (fp_wave_candidate p)" for l
  proof -
    have "l \<in> set (fp_pending_complete_leads p)" using l by (simp add: prefix)
    then show ?thesis by (simp add: passed)
  qed
  then have "set (fp_wave_targets_gfs p) \<union> set (fp_wave_targets_gefs p) = set (fp_wave_candidate p)"
    by (auto simp: b(2,3) committed_both_def)
  moreover have "int (length (fp_wave_candidate p)) \<le> wp_max_leads pol"
    using assms(2) by (auto simp: b(1) slice_to_def)
  moreover have "fp_wave_candidate p \<noteq> [] \<longleftrightarrow> fp_wave_due p"
    using assms(2) b(4,5) by (auto simp: b(1) slice_to_def)
  ultimately show ?thesis using prefix by (simp add: b(2,3))
qed

text \<open>No wave meets a missing predecessor: when a wave has a target that resets the six-hour
  accumulation, the lead three hours before it is durably committed for the same model or is an
  earlier target of the same model in the same wave.\<close>

theorem wave_predecessors_available:
  assumes "plan_wave reg cov lbl gfs gefs cg ce pol timing now (Some h) (Some ms) = Inr p"
    and "fp_wave_candidate p = us @ l # vs" and "l \<noteq> 0" and "l mod 6 = 0"
  shows "(is_lead_committed cg (l - 3) False [] \<or>
      l - 3 \<in> set (filter (\<lambda>k. \<not> is_lead_committed cg k False []) us)) \<and>
    (is_lead_committed ce (l - 3) True ms \<or>
      l - 3 \<in> set (filter (\<lambda>k. \<not> is_lead_committed ce k True ms) us)) \<and>
    fp_wave_targets_gfs p = filter (\<lambda>k. \<not> is_lead_committed cg k False []) (us @ l # vs) \<and>
    fp_wave_targets_gefs p = filter (\<lambda>k. \<not> is_lead_committed ce k True ms) (us @ l # vs)"
proof -
  note b = plan_wave_batch [OF assms(1)]
  obtain rest where "fp_pending_complete_leads p = fp_wave_candidate p @ rest"
    using plan_wave_prefix [OF assms(1)] by blast
  then have "fp_pending_complete_leads p = us @ l # (vs @ rest)" using assms(2) by simp
  then have "both_eligible cg ce ms l us" using plan_wave_split [OF assms(1)] by blast
  then show ?thesis
    using assms(3,4) unfolding b(2,3) assms(2)
    by (auto simp: both_eligible_def predecessor_satisfied_def)
qed

text \<open>Blocking for a predecessor cannot happen on a horizon that lists, before every six-hour
  lead, the lead three hours earlier: there the walk only ever stops for missing publications.\<close>

theorem predecessor_block_unreachable:
  assumes "plan_wave reg cov lbl gfs gefs cg ce pol timing now (Some h) (Some ms) = Inr p"
    and "\<forall>us l vs. h = us @ l # vs \<longrightarrow> l \<noteq> 0 \<longrightarrow> l mod 6 = 0 \<longrightarrow> l - 3 \<in> set us"
  shows "fp_blocked_reason p \<noteq> Some BLOCK_PREDECESSOR"
proof
  assume br: "fp_blocked_reason p = Some BLOCK_PREDECESSOR"
  obtain passed rest where h: "h = passed @ rest"
    and pend: "fp_pending_complete_leads p = filter (\<lambda>l. \<not> committed_both cg ce ms l) passed"
    and blk: "case fp_next_blocked_lead p of
       None \<Rightarrow> rest = [] \<and> fp_blocked_reason p \<noteq> Some BLOCK_PREDECESSOR
     | Some l \<Rightarrow> rest \<noteq> [] \<and> hd rest = l \<and> \<not> committed_both cg ce ms l \<and>
         (fp_blocked_reason p = Some BLOCK_PREDECESSOR \<longleftrightarrow> shared_barrier gfs gefs ms l) \<and>
         (shared_barrier gfs gefs ms l \<longrightarrow> \<not> both_eligible cg ce ms l (fp_pending_complete_leads p))"
    using plan_wave_split [OF assms(1)] by blast
  obtain l where l: "rest \<noteq> []" "hd rest = l"
    "\<not> both_eligible cg ce ms l (fp_pending_complete_leads p)"
    using blk br by (cases "fp_next_blocked_lead p") simp_all
  have lm: "l \<noteq> 0" "l mod 6 = 0"
    using l(3) unfolding both_eligible_def predecessor_satisfied_def by presburger+
  have "rest = l # tl rest" using l(1,2) by auto
  then have "h = passed @ l # tl rest" using h by simp
  then have "l - 3 \<in> set passed" using assms(2) [rule_format, of passed l "tl rest"] lm by simp
  then have "both_eligible cg ce ms l (fp_pending_complete_leads p)"
    unfolding pend by (rule both_eligible_passed)
  with l(3) show False by simp
qed

text \<open>The horizon is reported complete exactly when every lead of it is durably committed for
  both models, every required ensemble member included.\<close>

theorem horizon_complete_iff_committed:
  assumes "plan_wave reg cov lbl gfs gefs cg ce pol timing now (Some h) (Some ms) = Inr p"
  shows "fp_blocked_reason p = Some BLOCK_HORIZON_COMPLETE \<longleftrightarrow>
    (\<forall>l \<in> set h. l \<in> mcs_leads cg \<and> (\<forall>m \<in> set ms. (m, l) \<in> mcs_pairs ce))"
proof -
  obtain passed rest where h: "h = passed @ rest"
    and pend: "fp_pending_complete_leads p = filter (\<lambda>l. \<not> committed_both cg ce ms l) passed"
    and blk: "case fp_next_blocked_lead p of
       None \<Rightarrow> rest = [] \<and> fp_blocked_reason p \<noteq> Some BLOCK_PREDECESSOR
     | Some l \<Rightarrow> rest \<noteq> [] \<and> hd rest = l \<and> \<not> committed_both cg ce ms l \<and>
         (fp_blocked_reason p = Some BLOCK_PREDECESSOR \<longleftrightarrow> shared_barrier gfs gefs ms l) \<and>
         (shared_barrier gfs gefs ms l \<longrightarrow> \<not> both_eligible cg ce ms l (fp_pending_complete_leads p))"
    and hc: "fp_blocked_reason p = Some BLOCK_HORIZON_COMPLETE \<longleftrightarrow>
       fp_next_blocked_lead p = None \<and> fp_pending_complete_leads p = []"
    using plan_wave_split [OF assms] by blast
  have "fp_next_blocked_lead p = None \<and> fp_pending_complete_leads p = [] \<longleftrightarrow>
    (\<forall>l \<in> set h. committed_both cg ce ms l)"
  proof (cases "fp_next_blocked_lead p")
    case None
    then show ?thesis using blk by (auto simp: h pend filter_empty_conv)
  next
    case (Some l)
    then have "rest \<noteq> []" "hd rest = l" "\<not> committed_both cg ce ms l" using blk by simp_all
    then show ?thesis using Some by (auto simp: h)
  qed
  then show ?thesis by (simp add: hc committed_both_def is_lead_committed_def)
qed

text \<open>Planning makes progress: when the first uncommitted lead of the horizon is published for
  both models, its predecessor rule is met by the leads before it, and no wait is asked for, a
  wave is due and it starts with that lead.\<close>

theorem wave_progress:
  assumes "plan_wave reg cov lbl gfs gefs cg ce pol timing now (Some h) (Some ms) = Inr p"
    and "h = us @ l # vs" and "\<forall>k \<in> set us. committed_both cg ce ms k"
    and "\<not> committed_both cg ce ms l" and "shared_barrier gfs gefs ms l"
    and "l \<noteq> 0 \<longrightarrow> l mod 6 = 0 \<longrightarrow> l - 3 \<in> set us"
    and "0 < wp_max_leads pol" and "wp_max_wait_seconds pol \<le> 0"
  shows "fp_wave_due p \<and> (\<exists>rest. fp_wave_candidate p = l # rest)"
proof -
  note b = plan_wave_batch [OF assms(1)]
  obtain passed rest where h: "h = passed @ rest"
    and pend: "fp_pending_complete_leads p = filter (\<lambda>l. \<not> committed_both cg ce ms l) passed"
    and blk: "case fp_next_blocked_lead p of
       None \<Rightarrow> rest = [] \<and> fp_blocked_reason p \<noteq> Some BLOCK_PREDECESSOR
     | Some l \<Rightarrow> rest \<noteq> [] \<and> hd rest = l \<and> \<not> committed_both cg ce ms l \<and>
         (fp_blocked_reason p = Some BLOCK_PREDECESSOR \<longleftrightarrow> shared_barrier gfs gefs ms l) \<and>
         (shared_barrier gfs gefs ms l \<longrightarrow> \<not> both_eligible cg ce ms l (fp_pending_complete_leads p))"
    using plan_wave_split [OF assms(1)] by blast
  have us: "filter (\<lambda>l. \<not> committed_both cg ce ms l) us = []" using assms(3) by (simp add: filter_empty_conv)
  have "\<exists>ws. passed = us @ l # ws"
  proof (rule ccontr)
    assume no: "\<nexists>ws. passed = us @ l # ws"
    obtain ts where ts: "us = passed @ ts" "rest = ts @ l # vs"
      using h no unfolding assms(2) append_eq_append_conv2 by (auto simp: append_eq_Cons_conv Cons_eq_append_conv)
    obtain k where k: "hd rest = k" "\<not> committed_both cg ce ms k"
      "shared_barrier gfs gefs ms k \<longrightarrow> \<not> both_eligible cg ce ms k (fp_pending_complete_leads p)"
      using blk ts by (cases "fp_next_blocked_lead p") simp_all
    have "ts = []" using k(1,2) ts assms(3) by (cases ts) auto
    then have kl: "k = l" "passed = us" using k ts by simp_all
    have "both_eligible cg ce ms l (fp_pending_complete_leads p)"
    proof (cases "l \<noteq> 0 \<and> l mod 6 = 0")
      case True
      then have "l - 3 \<in> set passed" using assms(6) kl by simp
      then show ?thesis unfolding pend by (rule both_eligible_passed)
    qed (auto simp: both_eligible_def predecessor_satisfied_def)
    with k(3) kl assms(5) show False by simp
  qed
  then obtain ps where ps: "fp_pending_complete_leads p = l # ps"
    using us assms(4) by (auto simp: pend)
  obtain age where age: "fp_oldest_pending_age_seconds p = Some age"
    using b(5) ps by (cases "fp_oldest_pending_age_seconds p") auto
  then have due: "fp_wave_due p" using b(4) age plan_wave_age [OF assms(1) age] assms(8) by force
  have "slice_to (wp_max_leads pol) (l # ps) = l # take (nat (wp_max_leads pol) - 1) ps"
    using assms(7) by (simp add: slice_to_def take_Cons')
  with due show ?thesis by (simp add: b(1) ps)
qed

subsection \<open>Concrete runs\<close>

text \<open>A cycle whose first three leads are published for both models, with one required member\<close>

definition sample_snapshot :: "int option \<Rightarrow> cycle_snapshot" where
  "sample_snapshot member = (let o' = Some \<lparr>ao_key = ''k'', ao_size = 1, ao_etag = None, ao_last_modified = None\<rparr>
     in \<lparr>cs_model = ''gfs'', cs_cycle_date = 0, cs_cycle_hour = 0, cs_prefix = ''p'',
       cs_regions = map (\<lambda>l. ((member, l), \<lparr>ra_data = o', ra_idx = o'\<rparr>)) [0, 3, 6],
       cs_ignored_key_count = 0, cs_ignored_key_samples = [], cs_mean_regions = []\<rparr>)"

definition sample_plan :: "frontier_plan result" where
  "sample_plan = plan_wave default_horizons default_coverage ''gfs'' (Some (sample_snapshot None))
     (Some (sample_snapshot (Some 1))) \<lparr>mcs_leads = {0}, mcs_pairs = {}\<rparr>
     \<lparr>mcs_leads = {}, mcs_pairs = {(1, 0), (1, 3)}\<rparr> \<lparr>wp_max_leads = 2, wp_max_wait_seconds = 0\<rparr>
     Map.empty 0 (Some [0, 3, 6]) (Some [1])"

lemma sample_plan:
  "\<exists>p. sample_plan = Inr p \<and> fp_pending_complete_leads p = [3, 6] \<and> fp_wave_candidate p = [3, 6] \<and>
     fp_wave_targets_gfs p = [3, 6] \<and> fp_wave_targets_gefs p = [6] \<and> fp_wave_due p \<and>
     fp_next_blocked_lead p = None \<and> fp_blocked_reason p = None"
  by (simp add: sample_plan_def plan_wave_def sample_snapshot_def Let_def is_lead_committed_def
      is_artifact_complete_def region_def ra_is_complete_def predecessor_satisfied_def slice_to_def
      no_artifacts_def)

theorem plan_wave_no_jumping_witness:
  "\<exists>p passed rest. sample_plan = Inr p \<and> [0, 3, 6] = passed @ rest \<and> [3, 6] =
     filter (\<lambda>l. \<not> committed_both \<lparr>mcs_leads = {0}, mcs_pairs = {}\<rparr>
       \<lparr>mcs_leads = {}, mcs_pairs = {(1, 0), (1, 3)}\<rparr> [1] l) passed \<and> rest = []"
proof -
  obtain p where p: "sample_plan = Inr p" "fp_pending_complete_leads p = [3, 6]"
    "fp_next_blocked_lead p = None" using sample_plan by blast
  from plan_wave_no_jumping [OF p(1) [unfolded sample_plan_def]] show ?thesis
    unfolding p(2,3) using p(1) by auto
qed

theorem plan_wave_bounded_witness:
  "\<exists>p. sample_plan = Inr p \<and> int (length (fp_wave_candidate p)) \<le> 2 \<and>
     set (fp_wave_targets_gfs p) \<union> set (fp_wave_targets_gefs p) = {3, 6}"
proof -
  obtain p where p: "sample_plan = Inr p" "fp_wave_candidate p = [3, 6]" using sample_plan by blast
  from plan_wave_bounded [OF p(1) [unfolded sample_plan_def]] show ?thesis
    using p by auto
qed

theorem wave_predecessors_available_witness:
  "\<exists>p. sample_plan = Inr p \<and>
     fp_wave_targets_gfs p = filter (\<lambda>k. \<not> is_lead_committed \<lparr>mcs_leads = {0}, mcs_pairs = {}\<rparr> k False []) [3, 6] \<and>
     is_lead_committed \<lparr>mcs_leads = {}, mcs_pairs = {(1, 0), (1, 3)}\<rparr> 3 True [1]"
proof -
  obtain p where p: "sample_plan = Inr p" "fp_wave_candidate p = [3, 6]" using sample_plan by blast
  from wave_predecessors_available [OF p(1) [unfolded sample_plan_def], of "[3]" 6 "[]"] show ?thesis
    using p by (auto simp: is_lead_committed_def)
qed

theorem predecessor_block_unreachable_witness:
  "\<exists>p. sample_plan = Inr p \<and> fp_blocked_reason p \<noteq> Some BLOCK_PREDECESSOR"
proof -
  obtain p where p: "sample_plan = Inr p" using sample_plan by blast
  have "\<forall>us l vs. [0, 3, 6 :: int] = us @ l # vs \<longrightarrow> l \<noteq> 0 \<longrightarrow> l mod 6 = 0 \<longrightarrow> l - 3 \<in> set us"
    by (auto simp: Cons_eq_append_conv)
  from predecessor_block_unreachable [OF p(1) [unfolded sample_plan_def] this] p show ?thesis by blast
qed

theorem horizon_complete_iff_committed_witness:
  "\<exists>p. sample_plan = Inr p \<and> fp_blocked_reason p \<noteq> Some BLOCK_HORIZON_COMPLETE"
proof -
  obtain p where p: "sample_plan = Inr p" using sample_plan by blast
  from horizon_complete_iff_committed [OF p(1) [unfolded sample_plan_def]] p show ?thesis by auto
qed

theorem wave_progress_witness:
  "\<exists>p rest. sample_plan = Inr p \<and> fp_wave_candidate p = 3 # rest"
proof -
  obtain p where p: "sample_plan = Inr p" using sample_plan by blast
  have "shared_barrier (Some (sample_snapshot None)) (Some (sample_snapshot (Some 1))) [1] 3"
    by (simp add: shared_barrier_def sample_snapshot_def is_artifact_complete_def region_def ra_is_complete_def Let_def)
  with wave_progress [OF p(1) [unfolded sample_plan_def], of "[0]" 3 "[6]"] p show ?thesis
    by (auto simp: committed_both_def is_lead_committed_def)
qed

end
