(* ===== verification/Polling.thy ===== *)
theory Polling
  imports Prelude
begin

text \<open>
  \<open>ingestion/realtime/polling.py\<close>: the poll cadence machine of the realtime scheduler. Intervals are
  finite floats, taken as reals; the injected random source is the function \<open>uniform\<close>.
\<close>

datatype poll_state = ACTIVE | PUBLISHING | BACKOFF

record poll_config =
  pc_active_interval :: real
  pc_publication_interval :: real
  pc_backoff_initial :: real
  pc_backoff_max :: real
  pc_jitter_fraction :: real
  pc_discovery_failure_retry :: real

record poll_machine =
  pm_config :: poll_config
  pm_state :: poll_state
  pm_backoff_level :: real

definition PollStateMachine :: "poll_config \<Rightarrow> poll_machine result" where
  "PollStateMachine config =
     (if pc_backoff_max config < pc_backoff_initial config
        then Inl (ValueError ''backoff_max must be >= backoff_initial'')
      else if \<not> (0 \<le> pc_jitter_fraction config \<and> pc_jitter_fraction config < 1)
        then Inl (ValueError ''jitter_fraction must be in [0.0, 1.0)'')
      else Inr \<lparr>pm_config = config, pm_state = ACTIVE, pm_backoff_level = pc_backoff_initial config\<rparr>)"

definition base_interval :: "poll_machine \<Rightarrow> real" where
  "base_interval m =
     (if pm_state m = ACTIVE then pc_active_interval (pm_config m)
      else if pm_state m = PUBLISHING then pc_publication_interval (pm_config m)
      else pm_backoff_level m)"

definition jitter_interval :: "real \<Rightarrow> real \<Rightarrow> (real \<Rightarrow> real \<Rightarrow> real) \<Rightarrow> real" where
  "jitter_interval interval jitter_fraction uniform =
     (let factor = 1 + uniform (- jitter_fraction) jitter_fraction in max 0 (interval * factor))"

definition next_interval :: "poll_machine \<Rightarrow> (real \<Rightarrow> real \<Rightarrow> real) \<Rightarrow> real" where
  "next_interval m uniform =
     jitter_interval (base_interval m) (pc_jitter_fraction (pm_config m)) uniform"

definition on_poll_success :: "bool \<Rightarrow> poll_machine \<Rightarrow> poll_machine" where
  "on_poll_success activity m =
     (if activity then
        m\<lparr>pm_state := PUBLISHING, pm_backoff_level := pc_backoff_initial (pm_config m)\<rparr>
      else if pm_state m \<noteq> BACKOFF then
        m\<lparr>pm_state := BACKOFF, pm_backoff_level := pc_backoff_initial (pm_config m)\<rparr>
      else m\<lparr>pm_backoff_level := min (pm_backoff_level m * 2) (pc_backoff_max (pm_config m))\<rparr>)"

definition backoff_level :: "poll_machine \<Rightarrow> real" where
  "backoff_level m = pm_backoff_level m"

text \<open>The machines that a sequence of successful polls can produce\<close>

inductive poll_reachable :: "poll_config \<Rightarrow> poll_machine \<Rightarrow> bool" for config where
  start: "PollStateMachine config = Inr m \<Longrightarrow> poll_reachable config m"
| poll: "poll_reachable config m \<Longrightarrow> poll_reachable config (on_poll_success activity m)"

inductive_cases poll_reachableE: "poll_reachable config m"

lemma PollStateMachine_InrD:
  assumes "PollStateMachine config = Inr m"
  shows "pc_backoff_initial config \<le> pc_backoff_max config" "0 \<le> pc_jitter_fraction config"
    "pc_jitter_fraction config < 1" "pm_config m = config" "pm_state m = ACTIVE"
    "pm_backoff_level m = pc_backoff_initial config"
  using assms by (auto simp: PollStateMachine_def split: if_splits)

lemma pm_config_step [simp]: "pm_config (on_poll_success a m) = pm_config m"
  by (simp add: on_poll_success_def)

lemma poll_reachable_config:
  "poll_reachable config m \<Longrightarrow> pm_config m = config \<and> pc_backoff_initial config \<le> pc_backoff_max config
     \<and> 0 \<le> pc_jitter_fraction config \<and> pc_jitter_fraction config < 1"
  by (induction rule: poll_reachable.induct) (auto dest: PollStateMachine_InrD)

lemma poll_reachable_level:
  assumes "poll_reachable config m" "0 \<le> pc_backoff_initial config"
  shows "pc_backoff_initial config \<le> pm_backoff_level m \<and>
    pm_backoff_level m \<le> pc_backoff_max config \<and>
    (pm_state m \<noteq> BACKOFF \<longrightarrow> pm_backoff_level m = pc_backoff_initial config)"
  using assms
proof (induction rule: poll_reachable.induct)
  case (start m)
  then show ?case using PollStateMachine_InrD [OF start.hyps] by simp
next
  case (poll m activity)
  then show ?case
    using poll_reachable_config [OF poll.hyps] by (auto simp: on_poll_success_def min_def)
qed

lemma jitter_interval_band:
  assumes "0 \<le> interval" "0 \<le> f" "f < 1" "- f \<le> uniform (- f) f" "uniform (- f) f \<le> f"
  shows "interval * (1 - f) \<le> jitter_interval interval f uniform \<and>
    jitter_interval interval f uniform \<le> interval * (1 + f)"
proof -
  have "interval * (1 - f) \<le> interval * (1 + uniform (- f) f)"
    "interval * (1 + uniform (- f) f) \<le> interval * (1 + f)"
    using assms by (intro mult_left_mono; simp)+
  moreover have "0 \<le> interval * (1 - f)" using assms by simp
  ultimately show ?thesis by (simp add: jitter_interval_def)
qed

lemma idle_polls:
  assumes "0 \<le> pc_backoff_initial (pm_config m)"
    "pc_backoff_initial (pm_config m) \<le> pc_backoff_max (pm_config m)" "pm_state m \<noteq> BACKOFF"
  shows "(on_poll_success False ^^ Suc n) m =
    m\<lparr>pm_state := BACKOFF, pm_backoff_level :=
        min (pc_backoff_initial (pm_config m) * 2 ^ n) (pc_backoff_max (pm_config m))\<rparr>"
proof (induction n)
  case 0
  then show ?case using assms by (simp add: on_poll_success_def min_def)
next
  case (Suc n)
  have "(on_poll_success False ^^ Suc (Suc n)) m = on_poll_success False ((on_poll_success False ^^ Suc n) m)"
    by simp
  also have "\<dots> = m\<lparr>pm_state := BACKOFF, pm_backoff_level :=
        min (pc_backoff_initial (pm_config m) * 2 ^ Suc n) (pc_backoff_max (pm_config m))\<rparr>"
    unfolding Suc using assms(1,2) by (auto simp: on_poll_success_def min_def)
  finally show ?case .
qed

text \<open>In every state the machine can reach, the next sleep is never negative and lies in the
  configured jitter band around an interval of the configuration: the active interval, the
  publication interval, or a backoff level between the initial and the maximal one.\<close>

theorem poll_interval_in_band:
  assumes "poll_reachable config m" "0 \<le> pc_backoff_initial config" "0 \<le> pc_active_interval config"
    "0 \<le> pc_publication_interval config" "\<And>a b. a \<le> b \<Longrightarrow> a \<le> uniform a b \<and> uniform a b \<le> b"
  shows "0 \<le> next_interval m uniform \<and>
    base_interval m * (1 - pc_jitter_fraction config) \<le> next_interval m uniform \<and>
    next_interval m uniform \<le> base_interval m * (1 + pc_jitter_fraction config) \<and>
    (base_interval m = pc_active_interval config \<or> base_interval m = pc_publication_interval config \<or>
     pc_backoff_initial config \<le> base_interval m \<and> base_interval m \<le> pc_backoff_max config)"
proof -
  note c = poll_reachable_config [OF assms(1)] poll_reachable_level [OF assms(1,2)]
  let ?f = "pc_jitter_fraction config"
  have "0 \<le> base_interval m" using c assms(2-4) by (auto simp: base_interval_def)
  then have "base_interval m * (1 - ?f) \<le> next_interval m uniform \<and>
      next_interval m uniform \<le> base_interval m * (1 + ?f)"
    using c assms(5) [of "- ?f" ?f] jitter_interval_band [of "base_interval m" ?f uniform]
    by (simp add: next_interval_def)
  moreover have "0 \<le> next_interval m uniform" by (simp add: next_interval_def jitter_interval_def)
  ultimately show ?thesis using c by (auto simp: base_interval_def)
qed

text \<open>Backing off is exponential and capped: after \<open>n + 1\<close> idle polls in a row from a state
  that is not backing off, the interval is the initial backoff doubled \<open>n\<close> times, at most the
  maximum; and one poll with activity brings back the publication interval and resets the backoff.\<close>

theorem backoff_doubles_and_resets:
  assumes "poll_reachable config m" "0 \<le> pc_backoff_initial config" "pm_state m \<noteq> BACKOFF"
  shows "base_interval ((on_poll_success False ^^ Suc n) m) =
      min (pc_backoff_initial config * 2 ^ n) (pc_backoff_max config) \<and>
    base_interval (on_poll_success True ((on_poll_success False ^^ k) m)) = pc_publication_interval config \<and>
    backoff_level (on_poll_success True ((on_poll_success False ^^ k) m)) = pc_backoff_initial config"
proof -
  note c = poll_reachable_config [OF assms(1)]
  have "pm_config ((on_poll_success False ^^ k) m) = config" using c by (induction k) simp_all
  then show ?thesis
    using c assms idle_polls [of m n]
    by (simp add: base_interval_def backoff_level_def on_poll_success_def)
qed

text \<open>The configuration of the defaults\<close>

definition default_poll_config :: poll_config where
  "default_poll_config = \<lparr>pc_active_interval = 600, pc_publication_interval = 120,
     pc_backoff_initial = 1800, pc_backoff_max = 3600, pc_jitter_fraction = 1/10,
     pc_discovery_failure_retry = 60\<rparr>"

lemma default_poll_machine:
  "poll_reachable default_poll_config \<lparr>pm_config = default_poll_config, pm_state = ACTIVE,
     pm_backoff_level = 1800\<rparr>"
  by (rule poll_reachable.start) (simp add: PollStateMachine_def default_poll_config_def)

theorem poll_interval_in_band_witness:
  "540 \<le> next_interval \<lparr>pm_config = default_poll_config, pm_state = ACTIVE,
     pm_backoff_level = 1800\<rparr> (\<lambda>a b. a)"
  using poll_interval_in_band [OF default_poll_machine, of "\<lambda>a b. a"]
  by (simp add: default_poll_config_def base_interval_def)

theorem backoff_doubles_and_resets_witness:
  "base_interval ((on_poll_success False ^^ Suc 2) \<lparr>pm_config = default_poll_config,
     pm_state = ACTIVE, pm_backoff_level = 1800\<rparr>) = 3600"
  using backoff_doubles_and_resets [OF default_poll_machine, of 2 0]
  by (simp add: default_poll_config_def)

end
