(* ===== verification/Canonical.thy ===== *)
theory Canonical
  imports Temporal Coverage
begin

text \<open>
  \<open>domain/canonical.py\<close>: the candidates covering a valid time, the selection of the anchor and
  of the source of each variable, its bulk form, and the physical fence that narrows candidates.
  Datetimes are UTC instants here (the candidate constructor normalises them); a dictionary of
  candidates per valid time is an association list in insertion order, a result dictionary a map.
\<close>

record canonical_candidate =
  cc_cycle_time :: instant
  cc_lead_time_hours :: int
  cc_run_id :: string
  cc_store_path :: string
  cc_product_types :: "string set"
  cc_variables :: "string set"
  cc_member_indices :: "int list option"
  cc_status :: string

definition CanonicalCandidate ::
    "datetime \<Rightarrow> int \<Rightarrow> string \<Rightarrow> string \<Rightarrow> string set \<Rightarrow> string set \<Rightarrow> int list option \<Rightarrow> string
     \<Rightarrow> canonical_candidate" where
  "CanonicalCandidate cycle_time lead run_id store_path product_types variables member_indices status =
     \<lparr>cc_cycle_time = ensure_utc cycle_time, cc_lead_time_hours = lead, cc_run_id = run_id,
      cc_store_path = store_path, cc_product_types = product_types, cc_variables = variables,
      cc_member_indices = member_indices, cc_status = status\<rparr>"

definition cc_valid_time :: "canonical_candidate \<Rightarrow> instant" where
  "cc_valid_time c = cc_cycle_time c + hours (cc_lead_time_hours c)"

record canonical_resolution_result =
  crr_anchors :: "instant \<rightharpoonup> canonical_candidate"
  crr_variable_sources :: "string \<times> instant \<rightharpoonup> canonical_candidate option"
  crr_interval_fallbacks :: "string \<times> instant \<rightharpoonup> canonical_candidate"
  crr_companion_dependencies :: "string \<times> instant \<rightharpoonup> canonical_candidate"

definition select_canonical_anchor :: "canonical_candidate list \<Rightarrow> canonical_candidate option" where
  "select_canonical_anchor candidates = (case candidates of [] \<Rightarrow> None | c # cs \<Rightarrow> Some c)"

text \<open>\<open>not cand.variables or variable in cand.variables\<close>\<close>

definition carries :: "string \<Rightarrow> canonical_candidate \<Rightarrow> bool" where
  "carries variable cand = (cc_variables cand = {} \<or> variable \<in> cc_variables cand)"

lemma precip_not_companion [simp]: "\<not> is_precipitation_companion (Some ''precipitation_amount_3h'')"
  by code_simp

lemma precip_requires_fallback [simp]:
  "requires_lead0_display_fallback (Some ''precipitation_amount_3h'')"
  by code_simp

text \<open>A companion variable is resolved as the precipitation amount: the only recursive call.\<close>

function select_variable_source ::
    "canonical_candidate list \<Rightarrow> string \<Rightarrow> canonical_candidate option
     \<Rightarrow> canonical_candidate option" where
  "select_variable_source candidates variable anchor =
     (case candidates of
        [] \<Rightarrow> None
      | first # rest \<Rightarrow>
         if is_precipitation_companion (Some variable)
         then select_variable_source candidates ''precipitation_amount_3h'' anchor
         else
           let effective_anchor = (case anchor of Some a \<Rightarrow> a | None \<Rightarrow> first) in
           if requires_lead0_display_fallback (Some variable) then
             if 0 < cc_lead_time_hours effective_anchor
             then find (carries variable) candidates
             else find (\<lambda>cand. 0 < cc_lead_time_hours cand \<and> carries variable cand) candidates
           else if variable = ''wind_10m'' then
             find (\<lambda>cand. cc_variables cand = {}
                 \<or> {''wind_u_10m'', ''wind_v_10m''} \<subseteq> cc_variables cand) candidates
           else find (carries variable) candidates)"
  by pat_completeness auto

termination
  by (relation "measure (\<lambda>(cs, v, a). if is_precipitation_companion (Some v) then 1 else 0)") auto

declare select_variable_source.simps [simp del]

definition COMPANIONS :: "string list" where
  "COMPANIONS = [''crain'', ''csnow'', ''cfrzr'', ''cicep'']"

text \<open>The loop over the companion variables of the bulk resolution\<close>

definition resolve_companion ::
    "string list \<Rightarrow> instant \<Rightarrow> canonical_candidate option \<Rightarrow> string
     \<Rightarrow> canonical_resolution_result \<Rightarrow> canonical_resolution_result" where
  "resolve_companion var_list v_time p_src companion r =
     (if companion \<in> set var_list
      then (let r1 = r\<lparr>crr_variable_sources :=
                 (crr_variable_sources r)((companion, v_time) \<mapsto> p_src)\<rparr>
            in case p_src of
                 Some s \<Rightarrow> r1\<lparr>crr_companion_dependencies :=
                     (crr_companion_dependencies r1)((companion, v_time) \<mapsto> s)\<rparr>
               | None \<Rightarrow> r1)
      else r)"

text \<open>The precipitation part of the loop body of the bulk resolution\<close>

definition resolve_precipitation ::
    "string list \<Rightarrow> instant \<Rightarrow> canonical_candidate list \<Rightarrow> canonical_candidate
     \<Rightarrow> canonical_resolution_result \<Rightarrow> canonical_resolution_result" where
  "resolve_precipitation var_list v_time cands anchor res =
     (if ''precipitation_amount_3h'' \<in> set var_list
         \<or> (\<exists>v \<in> set var_list. is_precipitation_companion (Some v))
      then
        let p_src = select_variable_source cands ''precipitation_amount_3h'' (Some anchor);
            res1 = res\<lparr>crr_variable_sources :=
                     (crr_variable_sources res)((''precipitation_amount_3h'', v_time) \<mapsto> p_src)\<rparr>;
            res2 = (case p_src of
                Some s \<Rightarrow> if cc_lead_time_hours anchor = 0
                  then res1\<lparr>crr_interval_fallbacks :=
                    (crr_interval_fallbacks res1)((''precipitation_amount_3h'', v_time) \<mapsto> s)\<rparr>
                  else res1
              | None \<Rightarrow> res1)
        in fold (resolve_companion var_list v_time p_src) COMPANIONS res2
      else res)"

text \<open>The body of the loop over the other requested variables\<close>

definition resolve_variable ::
    "instant \<Rightarrow> canonical_candidate list \<Rightarrow> canonical_candidate \<Rightarrow> string
     \<Rightarrow> canonical_resolution_result \<Rightarrow> canonical_resolution_result" where
  "resolve_variable v_time cands anchor var res =
     (if var = ''precipitation_amount_3h'' \<or> is_precipitation_companion (Some var) then res
      else
        let src = select_variable_source cands var (Some anchor);
            res1 = res\<lparr>crr_variable_sources :=
                     (crr_variable_sources res)((var, v_time) \<mapsto> src)\<rparr>
        in case src of
             Some s \<Rightarrow> if var = ''cloud_cover_3h'' \<and> cc_lead_time_hours anchor = 0
               then res1\<lparr>crr_interval_fallbacks :=
                      (crr_interval_fallbacks res1)((var, v_time) \<mapsto> s)\<rparr>
               else res1
           | None \<Rightarrow> res1)"

definition resolve_valid_time ::
    "string list \<Rightarrow> instant set option \<Rightarrow> instant option
     \<Rightarrow> instant \<times> canonical_candidate list
     \<Rightarrow> canonical_resolution_result \<Rightarrow> canonical_resolution_result" where
  "resolve_valid_time var_list allowed_vts start_valid_time item res = (case item of (v_time, cands) \<Rightarrow>
     if (case start_valid_time of Some s \<Rightarrow> v_time < s | None \<Rightarrow> False) then res
     else if (case allowed_vts of Some a \<Rightarrow> v_time \<notin> a | None \<Rightarrow> False) then res
     else (case cands of
        [] \<Rightarrow> res
      | anchor # rest \<Rightarrow>
          let res1 = res\<lparr>crr_anchors := (crr_anchors res)(v_time \<mapsto> anchor)\<rparr>;
              res2 = resolve_precipitation var_list v_time cands anchor res1
          in fold (resolve_variable v_time cands anchor) var_list res2))"

definition empty_resolution :: canonical_resolution_result where
  "empty_resolution = \<lparr>crr_anchors = (\<lambda>_. None), crr_variable_sources = (\<lambda>_. None),
     crr_interval_fallbacks = (\<lambda>_. None), crr_companion_dependencies = (\<lambda>_. None)\<rparr>"

definition select_canonical_sources_bulk ::
    "(instant \<times> canonical_candidate list) list \<Rightarrow> string list option \<Rightarrow> datetime list option
     \<Rightarrow> instant option \<Rightarrow> canonical_resolution_result" where
  "select_canonical_sources_bulk candidates_by_valid variables target_valid_times start_valid_time =
     (let var_list = (case variables of Some vs \<Rightarrow> vs | None \<Rightarrow> []);
          allowed_vts = map_option (\<lambda>ts. ensure_utc ` set ts) target_valid_times
      in fold (resolve_valid_time var_list allowed_vts start_valid_time)
           (sort_key fst candidates_by_valid) empty_resolution)"

subsection \<open>The physical fence\<close>

text \<open>A fence key: run, lead, variable, target kind, member\<close>

type_synonym fence_key = "string \<times> int \<times> string \<times> string \<times> int"

record fence_index =
  fi_variable_keys :: "(string \<times> int \<times> string) set"
  fi_member_keys :: "(string \<times> int \<times> int) set"
  fi_mean_run_leads :: "(string \<times> int) set"
  fi_has_keys :: bool

definition add_fence_key :: "fence_key \<Rightarrow> fence_index \<Rightarrow> fence_index" where
  "add_fence_key fk idx = (case fk of (r_id, lead, var, kind, mem) \<Rightarrow>
     let idx1 = idx\<lparr>fi_has_keys := True\<rparr> in
     if kind = ''mean'' then
       idx1\<lparr>fi_variable_keys := insert (r_id, lead, var) (fi_variable_keys idx1),
            fi_mean_run_leads := insert (r_id, lead) (fi_mean_run_leads idx1)\<rparr>
     else if kind = ''det'' then
       idx1\<lparr>fi_variable_keys := insert (r_id, lead, var) (fi_variable_keys idx1)\<rparr>
     else if kind = ''mem'' then
       idx1\<lparr>fi_member_keys := insert (r_id, lead, mem) (fi_member_keys idx1)\<rparr>
     else idx1)"

definition build_fence_index :: "fence_key list \<Rightarrow> fence_index" where
  "build_fence_index fenced_keys = fold add_fence_key fenced_keys
     \<lparr>fi_variable_keys = {}, fi_member_keys = {}, fi_mean_run_leads = {}, fi_has_keys = False\<rparr>"

text \<open>The loop body: the narrowed candidate, or \<open>None\<close> where the code continues\<close>

definition filter_candidate ::
    "coverage_state \<Rightarrow> fence_index \<Rightarrow> bool \<Rightarrow> int \<Rightarrow> canonical_candidate
     \<Rightarrow> canonical_candidate option result" where
  "filter_candidate cov idx is_ensemble expected_members cand =
     (let r_id = cc_run_id cand;
          lead = cc_lead_time_hours cand;
          active_vars = {v \<in> cc_variables cand. (r_id, lead, v) \<notin> fi_variable_keys idx}
      in case (if is_ensemble then cc_member_indices cand else None) of
           Some m_indices \<Rightarrow>
             let avail_members = filter (\<lambda>m. (r_id, lead, m) \<notin> fi_member_keys idx) m_indices
             in bindE (is_lead_servable cov (int (length avail_members)) expected_members None)
                  (\<lambda>servable.
                     if \<not> servable then Inr None
                     else
                       let mean_fenced = (r_id, lead) \<in> fi_mean_run_leads idx;
                           prod_types = (if mean_fenced
                             then cc_product_types cand - {''ensemble_mean''}
                             else cc_product_types cand)
                       in Inr (Some (cand\<lparr>cc_product_types := prod_types,
                            cc_variables := active_vars,
                            cc_member_indices := Some avail_members\<rparr>)))
         | None \<Rightarrow>
             if cc_variables cand \<noteq> {} \<and> active_vars = {} then Inr None
             else Inr (Some (cand\<lparr>cc_variables := active_vars\<rparr>)))"

definition filter_candidates_by_fence_index ::
    "coverage_state \<Rightarrow> (instant \<times> canonical_candidate list) list \<Rightarrow> fence_index \<Rightarrow> bool \<Rightarrow> int
     \<Rightarrow> (instant \<times> canonical_candidate list) list result" where
  "filter_candidates_by_fence_index cov candidates_by_valid idx is_ensemble expected_members =
     (if \<not> fi_has_keys idx then Inr candidates_by_valid
      else bindE (mapE (\<lambda>(v_time, cands).
               bindE (mapE (filter_candidate cov idx is_ensemble expected_members) cands)
                 (\<lambda>rs. Inr (v_time, somes rs))) candidates_by_valid)
             (\<lambda>items. Inr (filter (\<lambda>(v_time, cs). cs \<noteq> []) items)))"

definition filter_candidates_by_physical_fence ::
    "coverage_state \<Rightarrow> (instant \<times> canonical_candidate list) list \<Rightarrow> fence_key list \<Rightarrow> bool \<Rightarrow> int
     \<Rightarrow> (instant \<times> canonical_candidate list) list result" where
  "filter_candidates_by_physical_fence cov candidates_by_valid fenced_keys is_ensemble expected_members =
     (if fenced_keys = [] then Inr candidates_by_valid
      else filter_candidates_by_fence_index cov candidates_by_valid
             (build_fence_index fenced_keys) is_ensemble expected_members)"

subsection \<open>What a variable source is\<close>

text \<open>The variable a request is resolved as\<close>

definition source_variable :: "string \<Rightarrow> string" where
  "source_variable v = (if is_precipitation_companion (Some v) then ''precipitation_amount_3h'' else v)"

text \<open>
  The specification of a source: the candidate carries the variable (both wind components for the
  synthetic wind), and an interval variable whose anchor sits at lead 0 needs a positive lead.
\<close>

definition eligible_source ::
    "canonical_candidate \<Rightarrow> string \<Rightarrow> canonical_candidate \<Rightarrow> bool" where
  "eligible_source anchor variable cand =
     (let v = source_variable variable in
      if requires_lead0_display_fallback (Some v)
        then (0 < cc_lead_time_hours anchor \<or> 0 < cc_lead_time_hours cand) \<and> carries v cand
      else if v = ''wind_10m'' then cc_variables cand = {}
        \<or> {''wind_u_10m'', ''wind_v_10m''} \<subseteq> cc_variables cand
      else carries v cand)"

definition effective_anchor ::
    "canonical_candidate list \<Rightarrow> canonical_candidate option \<Rightarrow> canonical_candidate" where
  "effective_anchor cands anchor = (case anchor of Some a \<Rightarrow> a | None \<Rightarrow> hd cands)"

lemma source_variable_idem [simp]: "source_variable (source_variable v) = source_variable v"
  by (simp add: source_variable_def)

lemma eligible_source_variable [simp]:
  "eligible_source a (source_variable v) = eligible_source a v"
  by (rule ext) (simp add: eligible_source_def)

lemma select_Nil [simp]: "select_variable_source [] v a = None"
  by (simp add: select_variable_source.simps)

lemma select_companion:
  "is_precipitation_companion (Some v) \<Longrightarrow>
     select_variable_source cands v a = select_variable_source cands ''precipitation_amount_3h'' a"
  by (cases cands) (simp_all add: select_variable_source.simps [of _ v])

lemma select_primary:
  assumes "\<not> is_precipitation_companion (Some v)"
  shows "select_variable_source cands v a = find (eligible_source (effective_anchor cands a) v) cands"
proof (cases cands)
  case (Cons first rest)
  then show ?thesis
    using assms
    by (subst select_variable_source.simps)
      (simp add: eligible_source_def [abs_def] source_variable_def effective_anchor_def Let_def
        split: option.split)
qed simp

lemma select_variable_source_eq_find:
  "select_variable_source cands v a = find (eligible_source (effective_anchor cands a) v) cands"
proof (cases "is_precipitation_companion (Some v)")
  case True
  then have "eligible_source (effective_anchor cands a) v
      = eligible_source (effective_anchor cands a) ''precipitation_amount_3h''"
    by (metis eligible_source_variable source_variable_def)
  with True show ?thesis by (simp add: select_companion select_primary)
qed (rule select_primary)

text \<open>The source of a variable is the newest eligible candidate: when candidates come newest
  cycle first, the selection returns one of them, eligible for the variable, such that every
  eligible candidate has an equal or older cycle and every candidate listed before it is
  ineligible; it returns nothing exactly when no candidate is eligible.\<close>

theorem variable_source_is_newest_eligible:
  assumes "sorted_wrt (\<lambda>a b. cc_cycle_time b \<le> cc_cycle_time a) cands"
  shows "case select_variable_source cands v a of
      None \<Rightarrow> \<forall>c \<in> set cands. \<not> eligible_source (effective_anchor cands a) v c
    | Some s \<Rightarrow> s \<in> set cands \<and> eligible_source (effective_anchor cands a) v s \<and>
        (\<forall>c \<in> set cands. eligible_source (effective_anchor cands a) v c \<longrightarrow>
           cc_cycle_time c \<le> cc_cycle_time s) \<and>
        (\<forall>c \<in> set (takeWhile (\<lambda>c. c \<noteq> s) cands). \<not> eligible_source (effective_anchor cands a) v c)"
proof (cases "select_variable_source cands v a")
  case None
  then have "\<forall>c \<in> set cands. \<not> eligible_source (effective_anchor cands a) v c"
    by (simp add: select_variable_source_eq_find find_None_iff)
  with None show ?thesis by simp
next
  case (Some s)
  then obtain ys zs where split: "cands = ys @ s # zs"
    and s: "eligible_source (effective_anchor cands a) v s"
    and before: "\<forall>y \<in> set ys. \<not> eligible_source (effective_anchor cands a) v y"
    using find_SomeD by (metis select_variable_source_eq_find)
  have "cc_cycle_time c \<le> cc_cycle_time s" if "c \<in> set cands"
    "eligible_source (effective_anchor cands a) v c" for c
    using that before assms unfolding split by (auto simp: sorted_wrt_append)
  moreover have "takeWhile (\<lambda>c. c \<noteq> s) cands = ys"
    using before s unfolding split by (subst takeWhile_append2) auto
  moreover have "s \<in> set cands" unfolding split by simp
  ultimately show ?thesis using Some s before by auto
qed

definition wit_candidate :: "int \<Rightarrow> int \<Rightarrow> string set \<Rightarrow> canonical_candidate" where
  "wit_candidate cycle lead vars = \<lparr>cc_cycle_time = hours cycle, cc_lead_time_hours = lead,
     cc_run_id = ''r'', cc_store_path = ''s'', cc_product_types = {}, cc_variables = vars,
     cc_member_indices = None, cc_status = ''ready''\<rparr>"

theorem variable_source_is_newest_eligible_witness:
  "select_variable_source
      [wit_candidate 12 0 {''cloud_cover_3h''}, wit_candidate 6 6 {''cloud_cover_3h''}]
      ''cloud_cover_3h'' None = Some (wit_candidate 6 6 {''cloud_cover_3h''}) \<and>
   \<not> eligible_source (wit_candidate 12 0 {''cloud_cover_3h''}) ''cloud_cover_3h''
      (wit_candidate 12 0 {''cloud_cover_3h''})"
proof -
  let ?cands = "[wit_candidate 12 0 {''cloud_cover_3h''}, wit_candidate 6 6 {''cloud_cover_3h''}]"
  have c: "\<not> is_precipitation_companion (Some ''cloud_cover_3h'')"
    "requires_lead0_display_fallback (Some ''cloud_cover_3h'')"
    by code_simp+
  have sel: "select_variable_source ?cands ''cloud_cover_3h'' None
      = Some (wit_candidate 6 6 {''cloud_cover_3h''})"
    using c by (subst select_variable_source.simps) (simp add: carries_def wit_candidate_def)
  have "sorted_wrt (\<lambda>a b. cc_cycle_time b \<le> cc_cycle_time a) ?cands"
    by (simp add: wit_candidate_def us_per_hour_def)
  from variable_source_is_newest_eligible [OF this, of None "''cloud_cover_3h''"] sel
  show ?thesis by (simp add: effective_anchor_def wit_candidate_def)
qed

text \<open>An interval variable or a precipitation companion is never served from a zero lead when
  the anchor sits at lead 0, and a companion always comes from the precipitation source.\<close>

theorem lead0_anchor_falls_back:
  "(requires_lead0_display_fallback (Some v) \<or> is_precipitation_companion (Some v)) \<and>
   cc_lead_time_hours (effective_anchor cands a) = 0 \<and> select_variable_source cands v a = Some s
     \<longrightarrow> 0 < cc_lead_time_hours s \<and>
         (is_precipitation_companion (Some v)
            \<longrightarrow> select_variable_source cands ''precipitation_amount_3h'' a = Some s)"
proof (intro impI, elim conjE)
  assume v: "requires_lead0_display_fallback (Some v) \<or> is_precipitation_companion (Some v)"
    and 0: "cc_lead_time_hours (effective_anchor cands a) = 0"
    and s: "select_variable_source cands v a = Some s"
  have "eligible_source (effective_anchor cands a) v s"
    using find_SomeD [OF s [unfolded select_variable_source_eq_find]] by blast
  with v 0 have "0 < cc_lead_time_hours s"
    by (auto simp: eligible_source_def source_variable_def split: if_splits)
  with s show "0 < cc_lead_time_hours s \<and> (is_precipitation_companion (Some v)
      \<longrightarrow> select_variable_source cands ''precipitation_amount_3h'' a = Some s)"
    using select_companion [of v cands a] by simp
qed

theorem lead0_anchor_falls_back_witness:
  "0 < cc_lead_time_hours (wit_candidate 6 6 {})"
proof -
  have "is_precipitation_companion (Some ''crain'')" by code_simp
  moreover have "select_variable_source [wit_candidate 12 0 {}, wit_candidate 6 6 {}] ''crain'' None
      = Some (wit_candidate 6 6 {})"
    unfolding select_companion [OF calculation]
    by (subst select_variable_source.simps) (simp add: carries_def wit_candidate_def)
  ultimately show ?thesis
    using lead0_anchor_falls_back [of "''crain''" "[wit_candidate 12 0 {}, wit_candidate 6 6 {}]" None]
    by (auto simp: effective_anchor_def wit_candidate_def)
qed

subsection \<open>The fence index against the raw keys\<close>

lemma add_fence_key_fields:
  "fi_variable_keys (add_fence_key (r, l, v, k, m) idx) =
     (if k \<in> {''det'', ''mean''} then {(r, l, v)} else {}) \<union> fi_variable_keys idx"
  "fi_member_keys (add_fence_key (r, l, v, k, m) idx) =
     (if k = ''mem'' then {(r, l, m)} else {}) \<union> fi_member_keys idx"
  "fi_mean_run_leads (add_fence_key (r, l, v, k, m) idx) =
     (if k = ''mean'' then {(r, l)} else {}) \<union> fi_mean_run_leads idx"
  "fi_has_keys (add_fence_key fk idx)"
  by (simp_all add: add_fence_key_def Let_def split: prod.split)

lemma fold_fence_variables:
  "(r, l, v) \<in> fi_variable_keys (fold add_fence_key fks idx) \<longleftrightarrow> (r, l, v) \<in> fi_variable_keys idx
     \<or> (\<exists>k m. (r, l, v, k, m) \<in> set fks \<and> k \<in> {''det'', ''mean''})"
proof (induction fks arbitrary: idx)
  case (Cons fk fks)
  then show ?case by (cases fk) (simp add: add_fence_key_fields, blast)
qed simp

lemma fold_fence_members:
  "(r, l, m) \<in> fi_member_keys (fold add_fence_key fks idx) \<longleftrightarrow> (r, l, m) \<in> fi_member_keys idx
     \<or> (\<exists>v. (r, l, v, ''mem'', m) \<in> set fks)"
proof (induction fks arbitrary: idx)
  case (Cons fk fks)
  then show ?case by (cases fk) (simp add: add_fence_key_fields, blast)
qed simp

lemma fold_fence_means:
  "(r, l) \<in> fi_mean_run_leads (fold add_fence_key fks idx) \<longleftrightarrow> (r, l) \<in> fi_mean_run_leads idx
     \<or> (\<exists>v m. (r, l, v, ''mean'', m) \<in> set fks)"
proof (induction fks arbitrary: idx)
  case (Cons fk fks)
  then show ?case by (cases fk) (simp add: add_fence_key_fields, blast)
qed simp

lemma fold_fence_has_keys:
  "fi_has_keys (fold add_fence_key fks idx) \<longleftrightarrow> fi_has_keys idx \<or> fks \<noteq> []"
  by (induction fks arbitrary: idx) (simp_all add: add_fence_key_fields)

lemma build_fence_index_eq:
  "(r, l, v) \<in> fi_variable_keys (build_fence_index fks) \<longleftrightarrow>
     (\<exists>k m. (r, l, v, k, m) \<in> set fks \<and> k \<in> {''det'', ''mean''})"
  "(r, l, m) \<in> fi_member_keys (build_fence_index fks) \<longleftrightarrow> (\<exists>v. (r, l, v, ''mem'', m) \<in> set fks)"
  "(r, l) \<in> fi_mean_run_leads (build_fence_index fks) \<longleftrightarrow> (\<exists>v m. (r, l, v, ''mean'', m) \<in> set fks)"
  "fi_has_keys (build_fence_index fks) \<longleftrightarrow> fks \<noteq> []"
  unfolding build_fence_index_def fold_fence_variables fold_fence_members fold_fence_means
    fold_fence_has_keys by simp_all

text \<open>The filter by an index against the raw keys: one surviving candidate\<close>

lemma filter_result_origin:
  assumes "filter_candidates_by_physical_fence cov items fks ens need = Inr out" "fks \<noteq> []"
    "(t, cs) \<in> set out" "c \<in> set cs"
  shows "\<exists>cs0 c0. (t, cs0) \<in> set items \<and> c0 \<in> set cs0 \<and>
    filter_candidate cov (build_fence_index fks) ens need c0 = Inr (Some c)"
proof -
  obtain rs where rs: "mapE (\<lambda>(v_time, cands).
      bindE (mapE (filter_candidate cov (build_fence_index fks) ens need) cands)
        (\<lambda>rs. Inr (v_time, somes rs))) items = Inr rs" and "out = filter (\<lambda>(v_time, cs). cs \<noteq> []) rs"
    using assms(1,2) by (auto simp: filter_candidates_by_physical_fence_def bindE_eq_Inr
        filter_candidates_by_fence_index_def build_fence_index_eq)
  with assms(3) have "(t, cs) \<in> set rs" by simp
  from mapE_set_D [OF rs this] obtain cs0 rs0 where item: "(t, cs0) \<in> set items"
    and rs0: "mapE (filter_candidate cov (build_fence_index fks) ens need) cs0 = Inr rs0"
    and cs: "cs = somes rs0"
    by (auto simp: bindE_eq_Inr)
  from assms(4) have "Some c \<in> set rs0" by (simp add: cs set_somes)
  from mapE_set_D [OF rs0 this] item show ?thesis by blast
qed

text \<open>What survives the physical fence is not fenced: every candidate left comes from an input
  candidate of the same run, lead and valid time, keeps only variables without a fenced
  deterministic or mean shard and members without a fenced member shard, and, in an ensemble, still
  has enough members to be servable.\<close>

theorem fence_filter_sound:
  assumes "filter_candidates_by_physical_fence cov items fks ens need = Inr out" "fks \<noteq> []"
    "(t, cs) \<in> set out" "c \<in> set cs"
  shows "\<exists>cs0 c0. (t, cs0) \<in> set items \<and> c0 \<in> set cs0 \<and>
      cc_run_id c = cc_run_id c0 \<and> cc_lead_time_hours c = cc_lead_time_hours c0 \<and>
      cc_variables c = {v \<in> cc_variables c0. \<not> (\<exists>k m. k \<in> {''det'', ''mean''} \<and>
          (cc_run_id c, cc_lead_time_hours c, v, k, m) \<in> set fks)} \<and>
      (ens \<and> cc_member_indices c0 \<noteq> None \<longrightarrow>
         (\<exists>ms. cc_member_indices c = Some ms \<and>
            (\<forall>m \<in> set ms. \<not> (\<exists>v. (cc_run_id c, cc_lead_time_hours c, v, ''mem'', m) \<in> set fks)) \<and>
            is_lead_servable cov (int (length ms)) need None = Inr True))"
proof -
  obtain cs0 c0 where c0: "(t, cs0) \<in> set items" "c0 \<in> set cs0"
    and f: "filter_candidate cov (build_fence_index fks) ens need c0 = Inr (Some c)"
    using filter_result_origin [OF assms] by blast
  have "cc_run_id c = cc_run_id c0 \<and> cc_lead_time_hours c = cc_lead_time_hours c0 \<and>
      cc_variables c = {v \<in> cc_variables c0. (cc_run_id c0, cc_lead_time_hours c0, v)
        \<notin> fi_variable_keys (build_fence_index fks)}"
    using f by (auto simp: filter_candidate_def Let_def bindE_eq_Inr split: option.splits if_splits)
  moreover have "\<exists>ms. cc_member_indices c = Some ms \<and>
      (\<forall>m \<in> set ms. (cc_run_id c0, cc_lead_time_hours c0, m)
         \<notin> fi_member_keys (build_fence_index fks)) \<and>
      is_lead_servable cov (int (length ms)) need None = Inr True"
    if "ens" "cc_member_indices c0 \<noteq> None"
    using f that by (auto simp: filter_candidate_def Let_def bindE_eq_Inr split: if_splits)
  ultimately show ?thesis
    using c0 by (intro exI [of _ cs0] exI [of _ c0]) (simp add: build_fence_index_eq, blast)
qed

lemma fence_example_index:
  "fi_variable_keys (build_fence_index [(r, l, v, k, m)]) = (if k \<in> {''det'', ''mean''} then {(r, l, v)} else {})"
  "fi_member_keys (build_fence_index [(r, l, v, k, m)]) = (if k = ''mem'' then {(r, l, m)} else {})"
  "fi_mean_run_leads (build_fence_index [(r, l, v, k, m)]) = (if k = ''mean'' then {(r, l)} else {})"
  "fi_has_keys (build_fence_index [(r, l, v, k, m)])"
  by (simp_all add: build_fence_index_def add_fence_key_fields)

lemma filter_candidate_det:
  assumes "cc_member_indices c = None \<or> \<not> ens"
  shows "filter_candidate cov idx ens need c =
    (let active = {v \<in> cc_variables c. (cc_run_id c, cc_lead_time_hours c, v) \<notin> fi_variable_keys idx}
     in if cc_variables c \<noteq> {} \<and> active = {} then Inr None else Inr (Some (c\<lparr>cc_variables := active\<rparr>)))"
  using assms by (auto simp: filter_candidate_def Let_def)

theorem fence_filter_sound_witness:
  "\<exists>cs0 c0. (hours 12, cs0) \<in> set [(hours 12, [wit_candidate 6 6 {''crain'', ''csnow''}])]
      \<and> c0 \<in> set cs0 \<and> {''crain''} \<subseteq> cc_variables c0"
proof -
  let ?fks = "[(''r'', 6, ''csnow'', ''det'', 0 :: int)]"
  have "{v. (v = ''crain'' \<or> v = ''csnow'') \<and> v \<noteq> ''csnow''} = {''crain''}" by auto
  then have "filter_candidate default_coverage (build_fence_index ?fks) False 1
      (wit_candidate 6 6 {''crain'', ''csnow''}) = Inr (Some (wit_candidate 6 6 {''crain''}))"
    by (simp add: filter_candidate_det fence_example_index wit_candidate_def Let_def)
  then have e: "filter_candidates_by_physical_fence default_coverage
      [(hours 12, [wit_candidate 6 6 {''crain'', ''csnow''}])] ?fks False 1
    = Inr [(hours 12, [wit_candidate 6 6 {''crain''}])]"
    by (simp add: filter_candidates_by_physical_fence_def filter_candidates_by_fence_index_def
        fence_example_index somes_def)
  show ?thesis
    using fence_filter_sound [OF e, of "hours 12" "[wit_candidate 6 6 {''crain''}]"
        "wit_candidate 6 6 {''crain''}"]
    by (simp add: wit_candidate_def) blast
qed

text \<open>An ensemble candidate whose members are all present and whose variables come from the mean\<close>

definition wit_ensemble :: "string set \<Rightarrow> string set \<Rightarrow> canonical_candidate" where
  "wit_ensemble products vars = (wit_candidate 6 6 vars)\<lparr>cc_product_types := products,
     cc_member_indices := Some [1 ..30]\<rparr>"

lemma filter_wit_ensemble:
  "filter_candidate default_coverage (build_fence_index [(''r'', 6, ''temperature_2m'', ''mean'', - 1)])
     True 30 (wit_ensemble {''ensemble_mean''} {''temperature_2m''}) = Inr (Some (wit_ensemble {} {}))"
  by (simp add: filter_candidate_def fence_example_index wit_ensemble_def wit_candidate_def Let_def
      servable_default_iff del: upto.simps)

text \<open>A fully fenced ensemble candidate becomes a wildcard. Once every mean shard of a lead is
  fenced while its members are not, the filter keeps the candidate with an empty variable set,
  and an empty set is read as carrying everything: the fenced variable is then resolved to the
  very candidate whose shard is fenced, ahead of an older candidate that still has it. The
  deterministic branch drops such a candidate.\<close>

theorem fenced_ensemble_candidate_is_wildcard:
  "filter_candidates_by_physical_fence default_coverage
      [(hours 12, [wit_ensemble {''ensemble_mean''} {''temperature_2m''}, wit_candidate 0 12 {''temperature_2m''}])]
      [(''r'', 6, ''temperature_2m'', ''mean'', - 1)] True 30
    = Inr [(hours 12, [wit_ensemble {} {}, wit_candidate 0 12 {''temperature_2m''}])] \<and>
   select_variable_source [wit_ensemble {} {}, wit_candidate 0 12 {''temperature_2m''}]
     ''temperature_2m'' None = Some (wit_ensemble {} {}) \<and>
   filter_candidates_by_physical_fence default_coverage
      [(hours 12, [wit_candidate 6 6 {''temperature_2m''}, wit_candidate 0 12 {''temperature_2m''}])]
      [(''r'', 6, ''temperature_2m'', ''det'', 0)] False 1
    = Inr [(hours 12, [wit_candidate 0 12 {''temperature_2m''}])]"
proof -
  let ?v = "''temperature_2m''"
  have v: "\<not> is_precipitation_companion (Some ?v)" "\<not> requires_lead0_display_fallback (Some ?v)"
    by code_simp+
  have "select_variable_source [wit_ensemble {} {}, wit_candidate 0 12 {?v}] ?v None
      = Some (wit_ensemble {} {})"
    using v by (subst select_variable_source.simps)
      (simp add: carries_def wit_ensemble_def wit_candidate_def)
  moreover have "filter_candidate default_coverage (build_fence_index [(''r'', 6, ?v, k, m)]) ens n
      (wit_candidate 0 12 {?v}) = Inr (Some (wit_candidate 0 12 {?v}))" for k m ens n
    by (auto simp: filter_candidate_det fence_example_index wit_candidate_def Let_def)
  moreover have "filter_candidate default_coverage (build_fence_index [(''r'', 6, ?v, ''det'', 0)]) False 1
      (wit_candidate 6 6 {?v}) = Inr None"
    by (simp add: filter_candidate_det fence_example_index wit_candidate_def Let_def)
  ultimately show ?thesis
    by (simp add: filter_candidates_by_physical_fence_def filter_candidates_by_fence_index_def
        fence_example_index somes_def filter_wit_ensemble)
qed

subsection \<open>The bulk resolution against the single one\<close>

text \<open>The variables the bulk resolution gives a source for, when asked for \<open>var_list\<close>\<close>

definition resolved_by :: "string list \<Rightarrow> string \<Rightarrow> bool" where
  "resolved_by var_list v =
     (if v = ''precipitation_amount_3h''
        then v \<in> set var_list \<or> (\<exists>w \<in> set var_list. is_precipitation_companion (Some w))
      else if is_precipitation_companion (Some v) then v \<in> set COMPANIONS \<and> v \<in> set var_list
      else v \<in> set var_list)"

definition considered :: "instant set option \<Rightarrow> instant option \<Rightarrow> instant \<Rightarrow> bool" where
  "considered allowed_vts start_valid_time t \<longleftrightarrow>
     (\<forall>s. start_valid_time = Some s \<longrightarrow> s \<le> t) \<and> (\<forall>a. allowed_vts = Some a \<longrightarrow> t \<in> a)"

lemma fold_resolve_companion:
  "crr_variable_sources (fold (resolve_companion vl t p) cs r) (v, u) =
     (if u = t \<and> v \<in> set cs \<and> v \<in> set vl then Some p else crr_variable_sources r (v, u))"
  "crr_companion_dependencies (fold (resolve_companion vl t p) cs r) (v, u) =
     (if u = t \<and> v \<in> set cs \<and> v \<in> set vl \<and> p \<noteq> None then p else crr_companion_dependencies r (v, u))"
  "crr_anchors (fold (resolve_companion vl t p) cs r) = crr_anchors r"
  "crr_interval_fallbacks (fold (resolve_companion vl t p) cs r) = crr_interval_fallbacks r"
  by (induction cs arbitrary: r) (auto simp: resolve_companion_def Let_def split: option.split)

lemma cloud_not_companion [simp]: "\<not> is_precipitation_companion (Some ''cloud_cover_3h'')"
  by code_simp

lemma fold_resolve_variable:
  "crr_variable_sources (fold (resolve_variable t cands a) vs r) (v, u) =
     (if u = t \<and> v \<in> set vs \<and> v \<noteq> ''precipitation_amount_3h'' \<and> \<not> is_precipitation_companion (Some v)
      then Some (select_variable_source cands v (Some a)) else crr_variable_sources r (v, u))"
  "crr_interval_fallbacks (fold (resolve_variable t cands a) vs r) (v, u) =
     (if u = t \<and> v \<in> set vs \<and> v = ''cloud_cover_3h'' \<and> cc_lead_time_hours a = 0 \<and> select_variable_source cands v (Some a) \<noteq> None
      then select_variable_source cands v (Some a) else crr_interval_fallbacks r (v, u))"
  "crr_anchors (fold (resolve_variable t cands a) vs r) = crr_anchors r"
  "crr_companion_dependencies (fold (resolve_variable t cands a) vs r) = crr_companion_dependencies r"
  by (induction vs arbitrary: r) (auto simp: resolve_variable_def Let_def split: option.split)

lemma companions_are_companions: "v \<in> set COMPANIONS \<Longrightarrow> is_precipitation_companion (Some v)"
  unfolding COMPANIONS_def by auto code_simp+

lemma precip_not_in_companions [simp]: "''precipitation_amount_3h'' \<notin> set COMPANIONS"
  by (simp add: COMPANIONS_def)

lemma cloud_not_in_companions [simp]: "''cloud_cover_3h'' \<notin> set COMPANIONS"
  by (simp add: COMPANIONS_def)

lemma resolved_precipitation:
  "resolved_by vl v \<Longrightarrow> v = ''precipitation_amount_3h'' \<or> v \<in> set COMPANIONS \<Longrightarrow>
    ''precipitation_amount_3h'' \<in> set vl \<or> (\<exists>w \<in> set vl. is_precipitation_companion (Some w))"
  using companions_are_companions [of v] by (auto simp: resolved_by_def split: if_splits)

lemma resolve_precipitation_sources:
  "crr_variable_sources (resolve_precipitation vl t cands a r) (v, u) =
     (if u = t \<and> resolved_by vl v \<and> (v = ''precipitation_amount_3h'' \<or> v \<in> set COMPANIONS)
      then Some (select_variable_source cands v (Some a)) else crr_variable_sources r (v, u))"
  "crr_interval_fallbacks (resolve_precipitation vl t cands a r) (v, u) =
     (if u = t \<and> resolved_by vl v \<and> v = ''precipitation_amount_3h'' \<and> cc_lead_time_hours a = 0 \<and>
        select_variable_source cands v (Some a) \<noteq> None
      then select_variable_source cands v (Some a) else crr_interval_fallbacks r (v, u))"
  "crr_companion_dependencies (resolve_precipitation vl t cands a r) (v, u) =
     (if u = t \<and> resolved_by vl v \<and> v \<in> set COMPANIONS \<and> select_variable_source cands v (Some a) \<noteq> None
      then select_variable_source cands v (Some a) else crr_companion_dependencies r (v, u))"
  "crr_anchors (resolve_precipitation vl t cands a r) = crr_anchors r"
proof -
  let ?p = "select_variable_source cands ''precipitation_amount_3h'' (Some a)"
  have c: "select_variable_source cands v (Some a) = ?p" if "v \<in> set COMPANIONS"
    using that by (simp add: select_companion companions_are_companions)
  note defs = resolve_precipitation_def fold_resolve_companion Let_def resolved_by_def
  show "crr_variable_sources (resolve_precipitation vl t cands a r) (v, u) =
     (if u = t \<and> resolved_by vl v \<and> (v = ''precipitation_amount_3h'' \<or> v \<in> set COMPANIONS)
      then Some (select_variable_source cands v (Some a)) else crr_variable_sources r (v, u))"
    using c resolved_precipitation [of vl v] companions_are_companions [of v] by (auto simp: defs split: option.split)
  show "crr_interval_fallbacks (resolve_precipitation vl t cands a r) (v, u) =
     (if u = t \<and> resolved_by vl v \<and> v = ''precipitation_amount_3h'' \<and> cc_lead_time_hours a = 0 \<and>
        select_variable_source cands v (Some a) \<noteq> None
      then select_variable_source cands v (Some a) else crr_interval_fallbacks r (v, u))"
    by (auto simp: defs split: option.split)
  show "crr_companion_dependencies (resolve_precipitation vl t cands a r) (v, u) =
     (if u = t \<and> resolved_by vl v \<and> v \<in> set COMPANIONS \<and> select_variable_source cands v (Some a) \<noteq> None
      then select_variable_source cands v (Some a) else crr_companion_dependencies r (v, u))"
  proof (cases "v \<in> set COMPANIONS")
    case True
    then have "resolved_by vl v = (v \<in> set vl)" "v \<in> set vl \<Longrightarrow> \<exists>w \<in> set vl. is_precipitation_companion (Some w)"
      using companions_are_companions [OF True] by (auto simp: resolved_by_def)
    then show ?thesis by (simp add: resolve_precipitation_def fold_resolve_companion Let_def c [OF True] True split: option.split)
  qed (simp add: resolve_precipitation_def fold_resolve_companion Let_def split: option.split)
  show "crr_anchors (resolve_precipitation vl t cands a r) = crr_anchors r"
    by (simp add: defs split: option.split)
qed

text \<open>The entries one valid time writes into the four dictionaries\<close>

definition fallback_variable :: "canonical_candidate list \<Rightarrow> string \<Rightarrow> bool" where
  "fallback_variable cands v \<longleftrightarrow> v \<in> {''precipitation_amount_3h'', ''cloud_cover_3h''} \<and> cc_lead_time_hours (hd cands) = 0"

lemma resolve_valid_time_sources:
  fixes vl al st
  defines "run \<equiv> resolve_valid_time vl al st"
  shows "crr_variable_sources (run (t, cands) r) (v, u) =
     (if u = t \<and> considered al st t \<and> cands \<noteq> [] \<and> resolved_by vl v
      then Some (select_variable_source cands v (Some (hd cands))) else crr_variable_sources r (v, u))"
  "crr_anchors (run (t, cands) r) u =
     (if u = t \<and> considered al st t \<and> cands \<noteq> [] then Some (hd cands) else crr_anchors r u)"
  "crr_interval_fallbacks (run (t, cands) r) (v, u) =
     (if u = t \<and> considered al st t \<and> cands \<noteq> [] \<and> resolved_by vl v \<and> fallback_variable cands v \<and>
        select_variable_source cands v (Some (hd cands)) \<noteq> None
      then select_variable_source cands v (Some (hd cands)) else crr_interval_fallbacks r (v, u))"
  "crr_companion_dependencies (run (t, cands) r) (v, u) =
     (if u = t \<and> considered al st t \<and> cands \<noteq> [] \<and> resolved_by vl v \<and> v \<in> set COMPANIONS \<and>
        select_variable_source cands v (Some (hd cands)) \<noteq> None
      then select_variable_source cands v (Some (hd cands)) else crr_companion_dependencies r (v, u))"
proof -
  have run: "run (t, cands) r = (if considered al st t \<and> cands \<noteq> []
      then fold (resolve_variable t cands (hd cands)) vl
        (resolve_precipitation vl t cands (hd cands) (r\<lparr>crr_anchors := (crr_anchors r)(t \<mapsto> hd cands)\<rparr>)) else r)"
    by (auto simp: run_def resolve_valid_time_def considered_def Let_def split: option.split list.split)
  note defs = run fold_resolve_variable resolve_precipitation_sources
  show "crr_variable_sources (run (t, cands) r) (v, u) =
     (if u = t \<and> considered al st t \<and> cands \<noteq> [] \<and> resolved_by vl v
      then Some (select_variable_source cands v (Some (hd cands))) else crr_variable_sources r (v, u))"
    using companions_are_companions [of v] by (auto simp: defs resolved_by_def)
  show "crr_anchors (run (t, cands) r) u = (if u = t \<and> considered al st t \<and> cands \<noteq> [] then Some (hd cands) else crr_anchors r u)"
    by (simp add: defs)
  show "crr_interval_fallbacks (run (t, cands) r) (v, u) =
     (if u = t \<and> considered al st t \<and> cands \<noteq> [] \<and> resolved_by vl v \<and> fallback_variable cands v \<and>
        select_variable_source cands v (Some (hd cands)) \<noteq> None
      then select_variable_source cands v (Some (hd cands)) else crr_interval_fallbacks r (v, u))"
    by (cases "v = ''cloud_cover_3h''") (auto simp: defs fallback_variable_def resolved_by_def)
  show "crr_companion_dependencies (run (t, cands) r) (v, u) =
     (if u = t \<and> considered al st t \<and> cands \<noteq> [] \<and> resolved_by vl v \<and> v \<in> set COMPANIONS \<and>
        select_variable_source cands v (Some (hd cands)) \<noteq> None
      then select_variable_source cands v (Some (hd cands)) else crr_companion_dependencies r (v, u))"
    by (auto simp: defs)
qed

text \<open>A dictionary over distinct valid times has the entry the valid time of its key gave it.\<close>

lemma fold_entry:
  assumes "\<And>t c r. g (step (t, c) r) = (if u = t \<and> h c \<noteq> None then h c else g r)" "distinct (map fst items)"
  shows "g (fold step items r) = (case map_of items u of Some c \<Rightarrow> if h c \<noteq> None then h c else g r | None \<Rightarrow> g r)"
  using assms(2)
proof (induction items arbitrary: r)
  case (Cons item items)
  obtain t c where item: "item = (t, c)" by (cases item)
  with Cons.prems have "map_of items t = None" by (simp add: map_of_eq_None_iff)
  with Cons show ?case by (simp add: item assms(1) split: option.split)
qed simp

lemma map_of_sort_key:
  assumes "distinct (map fst xs)" shows "map_of (sort_key fst xs) = map_of xs"
proof -
  have "distinct (map fst (sort_key fst xs))"
    using assms by (metis distinct_map distinct_sort set_sort)
  then have "map_of (sort_key fst xs) t = Some c \<longleftrightarrow> map_of xs t = Some c" for t c
    using assms by simp
  then have "map_of (sort_key fst xs) t = map_of xs t" for t
    by (cases "map_of xs t"; cases "map_of (sort_key fst xs) t") (simp_all, metis option.distinct(1))
  then show ?thesis by blast
qed

text \<open>An entry of the bulk result: \<open>h\<close> is what the candidates of its valid time give, under the condition \<open>P\<close>.\<close>

definition bulk_entry ::
    "(instant \<times> canonical_candidate list) list \<Rightarrow> datetime list option \<Rightarrow> instant option \<Rightarrow> instant
     \<Rightarrow> (canonical_candidate list \<Rightarrow> 'a option) \<Rightarrow> 'a option" where
  "bulk_entry items targets start t h = (case map_of items t of
     Some cands \<Rightarrow> if considered (map_option (\<lambda>ts. ensure_utc ` set ts) targets) start t \<and> cands \<noteq> [] then h cands else None
   | None \<Rightarrow> None)"

lemma bulk_entries:
  fixes vl targets start
  assumes "distinct (map fst items)"
  defines "res \<equiv> select_canonical_sources_bulk items (Some vl) targets start"
  shows "crr_variable_sources res (v, t) = bulk_entry items targets start t (\<lambda>cands.
      if resolved_by vl v then Some (select_variable_source cands v (select_canonical_anchor cands)) else None)"
    "crr_anchors res t = bulk_entry items targets start t select_canonical_anchor"
    "crr_interval_fallbacks res (v, t) = bulk_entry items targets start t (\<lambda>cands.
      if resolved_by vl v \<and> fallback_variable cands v then select_variable_source cands v (select_canonical_anchor cands) else None)"
    "crr_companion_dependencies res (v, t) = bulk_entry items targets start t (\<lambda>cands.
      if resolved_by vl v \<and> v \<in> set COMPANIONS then select_variable_source cands v (select_canonical_anchor cands) else None)"
proof -
  let ?al = "map_option (\<lambda>ts. ensure_utc ` set ts) targets"
  have d: "distinct (map fst (sort_key fst items))"
    using assms(1) by (metis distinct_map distinct_sort set_sort)
  have res: "res = fold (resolve_valid_time vl ?al start) (sort_key fst items) empty_resolution"
    by (simp add: res_def select_canonical_sources_bulk_def Let_def)
  have entry: "g res = bulk_entry items targets start t h"
    if "\<And>s c r. g (resolve_valid_time vl ?al start (s, c) r) = (if t = s \<and> considered ?al start s \<and> c \<noteq> [] \<and> h c \<noteq> None then h c else g r)"
      "g empty_resolution = None"
    for g :: "canonical_resolution_result \<Rightarrow> 'b option" and h
    unfolding res bulk_entry_def
    by (subst fold_entry [where u = t and h = "\<lambda>c. if considered ?al start t \<and> c \<noteq> [] then h c else None", OF _ d])
      (auto simp: that map_of_sort_key [OF assms(1)] split: option.split)
  show "crr_variable_sources res (v, t) = bulk_entry items targets start t (\<lambda>cands.
      if resolved_by vl v then Some (select_variable_source cands v (select_canonical_anchor cands)) else None)"
    by (rule entry) (auto simp: resolve_valid_time_sources select_canonical_anchor_def empty_resolution_def split: list.split)
  show "crr_anchors res t = bulk_entry items targets start t select_canonical_anchor"
    by (rule entry) (auto simp: resolve_valid_time_sources select_canonical_anchor_def empty_resolution_def split: list.split)
  show "crr_interval_fallbacks res (v, t) = bulk_entry items targets start t (\<lambda>cands.
      if resolved_by vl v \<and> fallback_variable cands v then select_variable_source cands v (select_canonical_anchor cands) else None)"
    by (rule entry) (auto simp: resolve_valid_time_sources select_canonical_anchor_def empty_resolution_def split: list.split)
  show "crr_companion_dependencies res (v, t) = bulk_entry items targets start t (\<lambda>cands.
      if resolved_by vl v \<and> v \<in> set COMPANIONS then select_variable_source cands v (select_canonical_anchor cands) else None)"
    by (rule entry) (auto simp: resolve_valid_time_sources select_canonical_anchor_def empty_resolution_def split: list.split)
qed

lemma bulk_lookup:
  assumes "distinct (map fst items)"
  shows "crr_variable_sources (select_canonical_sources_bulk items (Some vl) targets start) (v, t) =
      (case map_of items t of
         Some cands \<Rightarrow>
           if considered (map_option (\<lambda>ts. ensure_utc ` set ts) targets) start t \<and> cands \<noteq> []
              \<and> resolved_by vl v
           then Some (select_variable_source cands v (select_canonical_anchor cands)) else None
       | None \<Rightarrow> None)"
  by (auto simp: bulk_entries [OF assms] bulk_entry_def split: option.split)

text \<open>C15: The bulk resolution is the single one, valid time by valid time, in all four dictionaries it returns. For a
  dictionary of candidates, each considered valid time with candidates gets its first candidate as anchor and, for every
  resolved variable, exactly the source the single selection gives for that anchor. When there is such a source, it is recorded
  as a fallback exactly for the two interval variables of an anchor at lead 0, and as a dependency exactly for the companions
  asked for. No other entry is written.\<close>

theorem bulk_resolution_matches_single:
  assumes "distinct (map fst items)"
  shows "crr_variable_sources (select_canonical_sources_bulk items (Some vl) targets start) (v, t) =
      (case map_of items t of
         Some cands \<Rightarrow>
           if considered (map_option (\<lambda>ts. ensure_utc ` set ts) targets) start t \<and> cands \<noteq> []
              \<and> resolved_by vl v
           then Some (select_variable_source cands v (select_canonical_anchor cands)) else None
       | None \<Rightarrow> None) \<and>
    crr_anchors (select_canonical_sources_bulk items (Some vl) targets start) t =
      (case map_of items t of
         Some cands \<Rightarrow>
           if considered (map_option (\<lambda>ts. ensure_utc ` set ts) targets) start t
           then select_canonical_anchor cands else None
       | None \<Rightarrow> None) \<and>
    crr_interval_fallbacks (select_canonical_sources_bulk items (Some vl) targets start) (v, t) =
      (case map_of items t of
         Some cands \<Rightarrow>
           if considered (map_option (\<lambda>ts. ensure_utc ` set ts) targets) start t \<and> cands \<noteq> []
              \<and> resolved_by vl v \<and> v \<in> {''precipitation_amount_3h'', ''cloud_cover_3h''} \<and> cc_lead_time_hours (hd cands) = 0
           then select_variable_source cands v (select_canonical_anchor cands) else None
       | None \<Rightarrow> None) \<and>
    crr_companion_dependencies (select_canonical_sources_bulk items (Some vl) targets start) (v, t) =
      (case map_of items t of
         Some cands \<Rightarrow>
           if considered (map_option (\<lambda>ts. ensure_utc ` set ts) targets) start t \<and> cands \<noteq> []
              \<and> resolved_by vl v \<and> v \<in> {''crain'', ''csnow'', ''cfrzr'', ''cicep''}
           then select_variable_source cands v (select_canonical_anchor cands) else None
       | None \<Rightarrow> None)"
  by (auto simp: bulk_entries [OF assms] bulk_entry_def fallback_variable_def COMPANIONS_def select_canonical_anchor_def
      split: option.split list.split)

theorem bulk_resolution_matches_single_witness:
  "let res = select_canonical_sources_bulk [(hours 12, [wit_candidate 12 0 {}, wit_candidate 6 6 {}])] (Some [''crain'']) None None in
     crr_variable_sources res (''precipitation_amount_3h'', hours 12) = Some (Some (wit_candidate 6 6 {})) \<and>
     crr_interval_fallbacks res (''precipitation_amount_3h'', hours 12) = Some (wit_candidate 6 6 {}) \<and>
     crr_companion_dependencies res (''precipitation_amount_3h'', hours 12) = None"
proof -
  have c: "is_precipitation_companion (Some ''crain'')" by code_simp
  have "select_variable_source [wit_candidate 12 0 {}, wit_candidate 6 6 {}]
      ''precipitation_amount_3h'' (Some (wit_candidate 12 0 {})) = Some (wit_candidate 6 6 {})"
    by (subst select_variable_source.simps) (simp add: carries_def wit_candidate_def)
  moreover have "cc_lead_time_hours (wit_candidate 12 0 {}) = 0" by (simp add: wit_candidate_def)
  ultimately show ?thesis using c
    using bulk_resolution_matches_single [of "[(hours 12, [wit_candidate 12 0 {}, wit_candidate 6 6 {}])]"
        "[''crain'']" None None "''precipitation_amount_3h''" "hours 12"]
    by (simp add: considered_def resolved_by_def select_canonical_anchor_def)
qed

end
