(* ===== verification/GcPlanner.thy ===== *)
theory GcPlanner
  imports Canonical Reclamation
begin

text \<open>
  \<open>ingestion/gc/planner.py\<close>: one pass of the reclamation planner over the catalog. The tables are
  lists of rows (a query returns the matching rows in that order); the physical unit of a row is
  the tuple \<open>(run, lead, variable, kind, member)\<close>. The generation reads from the object store and
  the random row identifiers are parameters. The PostgreSQL branch of the enqueue is modelled.
\<close>

subsection \<open>The tables\<close>

record model_version_row =
  mv_id :: string
  mv_model_id :: string
  mv_version_string :: string

record model_run_row =
  mr_id :: string
  mr_model_version_id :: string
  mr_cycle_time :: datetime
  mr_status :: string
  mr_zarr_store_path :: "string option"

record product_row =
  pr_run_id :: string
  pr_lead_time_hours :: int
  pr_variable_id :: string
  pr_product_type :: string

record member_product_row =
  em_run_id :: string
  em_lead_time_hours :: int
  em_member_index :: int

record lifecycle_row =
  fl_model_id :: string
  fl_cycle_time :: datetime
  fl_deletion_started_at :: "datetime option"
  fl_deleted_at :: "datetime option"

type_synonym unit_tuple = "string \<times> int \<times> string \<times> string \<times> int"

record queue_row =
  rq_id :: string
  rq_target :: physical_shard_target
  rq_store_generation :: "string option"
  rq_status :: string
  rq_attempt_count :: int
  rq_lease_expires_at :: "instant option"
  rq_next_retry_at :: "instant option"
  rq_last_error :: "string option"
  rq_reclaimed_at :: "instant option"
  rq_created_at :: instant
  rq_updated_at :: instant

record catalog =
  db_versions :: "model_version_row list"
  db_runs :: "model_run_row list"
  db_products :: "product_row list"
  db_member_products :: "member_product_row list"
  db_lifecycle :: "lifecycle_row list"
  db_queue :: "queue_row list"

definition SERVING_ELIGIBLE_STATUSES :: "string list" where
  "SERVING_ELIGIBLE_STATUSES = [''ready'', ''processing'', ''partial'']"

subsection \<open>Committed units\<close>

text \<open>\<open>emp_members.get((r_id, lead), [])\<close>, from the rows of the given runs\<close>

definition members_of :: "catalog \<Rightarrow> string list \<Rightarrow> string \<Rightarrow> int \<Rightarrow> int list" where
  "members_of db run_ids r lead = map em_member_index (filter (\<lambda>e. em_run_id e \<in> set run_ids \<and>
     em_run_id e = r \<and> em_lead_time_hours e = lead) (db_member_products db))"

definition product_rows :: "catalog \<Rightarrow> string list \<Rightarrow> product_row list" where
  "product_rows db run_ids = filter (\<lambda>p. pr_run_id p \<in> set run_ids) (db_products db)"

text \<open>The units of one product row\<close>

definition product_units :: "catalog \<Rightarrow> string list \<Rightarrow> bool \<Rightarrow> product_row \<Rightarrow> unit_tuple list" where
  "product_units db run_ids is_ensemble p =
     (let r = pr_run_id p; lead = pr_lead_time_hours p; v = pr_variable_id p in
      if is_ensemble then
        (if pr_product_type p = ''ensemble_mean'' then [(r, lead, v, TARGET_KIND_MEAN, - 1)] else [])
        @ map (\<lambda>mem. (r, lead, v, TARGET_KIND_MEM, mem)) (members_of db run_ids r lead)
      else [(r, lead, v, TARGET_KIND_DET, 0)])"

definition enumerate_committed_unit_tuples :: "catalog \<Rightarrow> string list \<Rightarrow> bool \<Rightarrow> unit_tuple set" where
  "enumerate_committed_unit_tuples db run_ids is_ensemble =
     (if run_ids = [] then {}
      else set (concat (map (product_units db run_ids is_ensemble) (product_rows db run_ids))))"

subsection \<open>The lifecycle fences\<close>

text \<open>A dictionary comprehension: a later row overwrites an earlier one.\<close>

definition lifecycle_map :: "catalog \<Rightarrow> string \<times> instant \<rightharpoonup> lifecycle_row" where
  "lifecycle_map db = map_of (rev (map (\<lambda>row.
     ((norm_key (fl_model_id row), ensure_utc (fl_cycle_time row)), row)) (db_lifecycle db)))"

definition is_cycle_tombstoned ::
    "(string \<times> instant \<rightharpoonup> lifecycle_row) \<Rightarrow> string \<Rightarrow> instant \<Rightarrow> bool" where
  "is_cycle_tombstoned lc_map model_id cycle_time =
     (case lc_map (norm_key model_id, cycle_time) of
        Some lc \<Rightarrow> fl_deleted_at lc \<noteq> None | None \<Rightarrow> False)"

definition is_cycle_claimed ::
    "(string \<times> instant \<rightharpoonup> lifecycle_row) \<Rightarrow> string \<Rightarrow> instant \<Rightarrow> bool" where
  "is_cycle_claimed lc_map model_id cycle_time =
     (case lc_map (norm_key model_id, cycle_time) of
        Some lc \<Rightarrow> fl_deletion_started_at lc \<noteq> None | None \<Rightarrow> False)"

subsection \<open>The runs of a model\<close>

record run_meta =
  rm_cycle_time :: instant
  rm_status :: string
  rm_store_path :: string
  rm_version_string :: string

text \<open>The join of runs and versions: id, cycle time and metadata\<close>

definition eligible_runs :: "catalog \<Rightarrow> string \<Rightarrow> (string \<times> run_meta) list" where
  "eligible_runs db m_id = concat (map (\<lambda>r. concat (map (\<lambda>v.
     if mr_model_version_id r = mv_id v \<and> mv_model_id v = m_id
        \<and> mr_status r \<in> set SERVING_ELIGIBLE_STATUSES
     then (case mr_zarr_store_path r of
             Some path \<Rightarrow> [(mr_id r, \<lparr>rm_cycle_time = ensure_utc (mr_cycle_time r),
                 rm_status = mr_status r, rm_store_path = path,
                 rm_version_string = mv_version_string v\<rparr>)]
           | None \<Rightarrow> [])
     else []) (db_versions db))) (db_runs db))"

text \<open>The loop over the runs: tombstoned cycles are dropped, claimed ones are set apart.\<close>

definition planable_runs :: "catalog \<Rightarrow> string \<Rightarrow> (string \<times> run_meta) list" where
  "planable_runs db m_id = fold (\<lambda>(r, meta). AList.update r meta)
     (filter (\<lambda>(r, meta). \<not> is_cycle_tombstoned (lifecycle_map db) m_id (rm_cycle_time meta)
        \<and> \<not> is_cycle_claimed (lifecycle_map db) m_id (rm_cycle_time meta)) (eligible_runs db m_id)) []"

definition retired_run_ids :: "catalog \<Rightarrow> string \<Rightarrow> string list" where
  "retired_run_ids db m_id = map fst
     (filter (\<lambda>(r, meta). \<not> is_cycle_tombstoned (lifecycle_map db) m_id (rm_cycle_time meta)
        \<and> is_cycle_claimed (lifecycle_map db) m_id (rm_cycle_time meta)) (eligible_runs db m_id))"

definition catalog_run_ids :: "catalog \<Rightarrow> string \<Rightarrow> string list" where
  "catalog_run_ids db m_id = map fst (planable_runs db m_id) @ retired_run_ids db m_id"

text \<open>The value the loop variable \<open>c_utc\<close> holds after the loops over the runs\<close>

definition last_c_utc :: "catalog \<Rightarrow> string \<Rightarrow> instant" where
  "last_c_utc db m_id = (if planable_runs db m_id \<noteq> []
     then rm_cycle_time (snd (last (planable_runs db m_id)))
     else rm_cycle_time (snd (last (eligible_runs db m_id))))"

subsection \<open>Shards and candidates\<close>

definition make_target :: "string \<Rightarrow> instant \<Rightarrow> instant \<Rightarrow> string \<Rightarrow> unit_tuple \<Rightarrow> physical_shard_target result" where
  "make_target m_id cycle_time valid_time store_path u = (case u of (r, lead, v, kind, mem) \<Rightarrow>
     bindE (make_shard_relative_key v kind lead mem)
       (\<lambda>key. PhysicalShardTarget r m_id (utc_datetime cycle_time) lead v kind mem
          (utc_datetime valid_time) store_path key))"

definition planable_products :: "catalog \<Rightarrow> string \<Rightarrow> product_row list" where
  "planable_products db m_id = filter (\<lambda>p. pr_run_id p \<notin> set (retired_run_ids db m_id))
     (product_rows db (catalog_run_ids db m_id))"

definition run_of :: "catalog \<Rightarrow> string \<Rightarrow> string \<Rightarrow> run_meta result" where
  "run_of db m_id r = (case map_of (planable_runs db m_id) r of
     Some meta \<Rightarrow> Inr meta | None \<Rightarrow> Inl (KeyError r))"

definition product_shards ::
    "catalog \<Rightarrow> string \<Rightarrow> bool \<Rightarrow> product_row \<Rightarrow> physical_shard_target list result" where
  "product_shards db m_id is_ensemble p =
     bindE (run_of db m_id (pr_run_id p)) (\<lambda>meta.
       mapE (make_target m_id (rm_cycle_time meta)
              (rm_cycle_time meta + hours (pr_lead_time_hours p)) (rm_store_path meta))
            (product_units db (catalog_run_ids db m_id) is_ensemble p))"

definition all_shards :: "catalog \<Rightarrow> string \<Rightarrow> bool \<Rightarrow> physical_shard_target list result" where
  "all_shards db m_id is_ensemble =
     bindE (mapE (product_shards db m_id is_ensemble) (planable_products db m_id))
       (\<lambda>ss. Inr (concat ss))"

record lead_record =
  lr_product_types :: "string set"
  lr_variables :: "string set"

definition add_product ::
    "product_row \<Rightarrow> ((string \<times> int) \<times> lead_record) list \<Rightarrow> ((string \<times> int) \<times> lead_record) list" where
  "add_product p acc =
     (let key = (pr_run_id p, pr_lead_time_hours p);
          rec0 = (case map_of acc key of Some r \<Rightarrow> r
                  | None \<Rightarrow> \<lparr>lr_product_types = {}, lr_variables = {}\<rparr>)
      in AList.update key \<lparr>lr_product_types = insert (pr_product_type p) (lr_product_types rec0),
           lr_variables = insert (pr_variable_id p) (lr_variables rec0)\<rparr> acc)"

definition by_run_lead :: "catalog \<Rightarrow> string \<Rightarrow> ((string \<times> int) \<times> lead_record) list" where
  "by_run_lead db m_id = fold add_product (planable_products db m_id) []"

definition candidate_of ::
    "coverage_state \<Rightarrow> catalog \<Rightarrow> string \<Rightarrow> int \<Rightarrow> (string \<times> int) \<times> lead_record
     \<Rightarrow> canonical_candidate option result" where
  "candidate_of cov db m_id expected_members item = (case item of ((r, lead), lrec) \<Rightarrow>
     bindE (run_of db m_id r) (\<lambda>meta.
       let cand = (\<lambda>m_indices. CanonicalCandidate (utc_datetime (rm_cycle_time meta)) lead r
             (rm_store_path meta) (lr_product_types lrec) (lr_variables lrec) m_indices (rm_status meta))
       in if 1 < expected_members then
            let raw_mems = members_of db (catalog_run_ids db m_id) r lead in
            bindE (is_lead_servable cov (int (length raw_mems)) expected_members None)
              (\<lambda>ok. if \<not> ok \<or> lr_product_types lrec = {} then Inr None
                    else Inr (Some (cand (Some (sort raw_mems)))))
          else Inr (Some (cand None))))"

definition add_candidate ::
    "canonical_candidate \<Rightarrow> (instant \<times> canonical_candidate list) list
     \<Rightarrow> (instant \<times> canonical_candidate list) list" where
  "add_candidate c acc = AList.update (cc_valid_time c)
     ((case map_of acc (cc_valid_time c) of Some cs \<Rightarrow> cs | None \<Rightarrow> []) @ [c]) acc"

definition candidates_by_valid ::
    "coverage_state \<Rightarrow> catalog \<Rightarrow> string \<Rightarrow> int \<Rightarrow> (instant \<times> canonical_candidate list) list result" where
  "candidates_by_valid cov db m_id expected_members =
     bindE (mapE (candidate_of cov db m_id expected_members) (by_run_lead db m_id))
       (\<lambda>cs. Inr (map (\<lambda>(vt, l). (vt, sort_key cc_lead_time_hours l))
          (fold add_candidate (somes cs) [])))"

definition planned_variables :: "physical_shard_target list \<Rightarrow> string list" where
  "planned_variables shards =
     (let vs = sort (remdups (map pst_variable_code shards)) in
      if ''wind_u_10m'' \<in> set vs \<and> ''wind_v_10m'' \<in> set vs then vs @ [''wind_10m''] else vs)"

subsection \<open>Holds\<close>

text \<open>The units of a source: the deterministic one, or the mean and every committed member\<close>

definition source_units :: "bool \<Rightarrow> canonical_candidate \<Rightarrow> string \<Rightarrow> unit_tuple list" where
  "source_units is_ensemble c var_code =
     (let r = cc_run_id c; lead = cc_lead_time_hours c in
      if is_ensemble then
        (r, lead, var_code, TARGET_KIND_MEAN, - 1)
        # map (\<lambda>m. (r, lead, var_code, TARGET_KIND_MEM, m))
            (case cc_member_indices c of Some ms \<Rightarrow> ms | None \<Rightarrow> [])
      else [(r, lead, var_code, TARGET_KIND_DET, 0)])"

definition committed_leads :: "catalog \<Rightarrow> string \<Rightarrow> string \<Rightarrow> int set" where
  "committed_leads db m_id r =
     set (map (\<lambda>((run, lead), rec). lead) (filter (\<lambda>((run, lead), rec). run = r) (by_run_lead db m_id)))"

text \<open>The predecessor holds of one run and one variable: the loop over the reset leads\<close>

definition predecessor_lead_holds ::
    "int \<Rightarrow> int set \<Rightarrow> string \<Rightarrow> string \<Rightarrow> variable_temporal_metadata \<Rightarrow> int \<Rightarrow> unit_tuple list result" where
  "predecessor_lead_holds expected_members committed r pred_var md reset_lead =
     (if reset_lead \<in> committed then Inr []
      else bindE (get_predecessor_lead reset_lead (vtm_interval_width_hours md) (vtm_reset_period_hours md))
        (\<lambda>pred_lead. Inr (if pred_lead \<in> committed then
             (if 1 < expected_members then
                (r, pred_lead, pred_var, TARGET_KIND_MEAN, - 1)
                # map (\<lambda>m. (r, pred_lead, pred_var, TARGET_KIND_MEM, m)) (py_range 1 (expected_members + 1) 1)
              else [(r, pred_lead, pred_var, TARGET_KIND_DET, 0)])
           else [])))"

definition PREDECESSOR_VARIABLE_LIST :: "string list" where
  "PREDECESSOR_VARIABLE_LIST = [''precipitation_amount_3h'', ''cloud_cover_3h'']"

definition predecessor_run_holds ::
    "horizon_registry \<Rightarrow> catalog \<Rightarrow> string \<Rightarrow> int \<Rightarrow> instant \<Rightarrow> string \<times> run_meta \<Rightarrow> unit_tuple list result" where
  "predecessor_run_holds reg db m_id expected_members serving_start item = (case item of (r, meta) \<Rightarrow>
     bindE (model_max_lead_hours reg m_id (Some (rm_version_string meta)) None) (\<lambda>run_max_lead.
       if rm_cycle_time meta < serving_start - hours run_max_lead then Inr []
       else if rm_status meta = ''ready'' then Inr []
       else bindE (mapE (\<lambda>pred_var.
           bindE (get_variable_temporal_metadata (Some pred_var)) (\<lambda>md.
             if vtm_reset_period_hours md \<le> vtm_interval_width_hours md then Inr []
             else bindE (mapE (predecessor_lead_holds expected_members (committed_leads db m_id r) r pred_var md)
                      (py_range (vtm_reset_period_hours md) (run_max_lead + 1) (vtm_reset_period_hours md)))
                    (\<lambda>hs. Inr (concat hs))))
           PREDECESSOR_VARIABLE_LIST) (\<lambda>hs. Inr (concat hs))))"

definition predecessor_holds ::
    "horizon_registry \<Rightarrow> catalog \<Rightarrow> string \<Rightarrow> int \<Rightarrow> instant \<Rightarrow> unit_tuple list result" where
  "predecessor_holds reg db m_id expected_members serving_start =
     bindE (mapE (predecessor_run_holds reg db m_id expected_members serving_start) (planable_runs db m_id))
       (\<lambda>hs. Inr (concat hs))"

text \<open>A comprehension whose condition may raise\<close>

definition filterE :: "('a \<Rightarrow> bool result) \<Rightarrow> 'a list \<Rightarrow> 'a list result" where
  "filterE P xs = bindE (mapE (\<lambda>x. bindE (P x) (\<lambda>b. Inr (x, b))) xs)
     (\<lambda>ys. Inr (map fst (filter snd ys)))"

definition protected_candidates ::
    "horizon_registry \<Rightarrow> datetime \<Rightarrow> string \<Rightarrow> (instant \<times> canonical_candidate list) list
     \<Rightarrow> (instant \<times> canonical_candidate list) list result" where
  "protected_candidates reg now_utc m_id items =
     filterE (\<lambda>(vt, cands). is_valid_time_protected reg (utc_datetime vt) now_utc (Some m_id)
       CANONICAL_LEAD_CADENCE_HOURS) items"

definition anchor_holds :: "bool \<Rightarrow> string list \<Rightarrow> canonical_candidate \<Rightarrow> unit_tuple list" where
  "anchor_holds is_ensemble vars anchor = concat (map (source_units is_ensemble anchor)
     (filter (\<lambda>var_code. var_code \<in> cc_variables anchor \<and> (0 < cc_lead_time_hours anchor
        \<or> \<not> (requires_lead0_display_fallback (Some var_code)
             \<or> is_precipitation_companion (Some var_code)))) vars))"

text \<open>The holds of one resolved variable at one valid time; the synthetic wind also holds its
  components.\<close>

definition variable_holds :: "bool \<Rightarrow> string \<Rightarrow> canonical_candidate option \<Rightarrow> unit_tuple list" where
  "variable_holds is_ensemble var_code src = (case src of
      None \<Rightarrow> []
    | Some c \<Rightarrow> source_units is_ensemble c var_code
        @ (if var_code = ''wind_10m'' then source_units is_ensemble c ''wind_u_10m''
             @ source_units is_ensemble c ''wind_v_10m'' else []))"

definition canonical_holds ::
    "bool \<Rightarrow> string list \<Rightarrow> string list \<Rightarrow> instant list \<Rightarrow> canonical_resolution_result \<Rightarrow> unit_tuple list" where
  "canonical_holds is_ensemble product_vars vars vts res =
     concat (map (\<lambda>vt. case crr_anchors res vt of
         Some a \<Rightarrow> anchor_holds is_ensemble product_vars a | None \<Rightarrow> []) vts)
     @ concat (map (\<lambda>vt. concat (map (\<lambda>v. case crr_variable_sources res (v, vt) of
         Some src \<Rightarrow> variable_holds is_ensemble v src | None \<Rightarrow> []) (''precipitation_amount_3h'' # vars))) vts)"

subsection \<open>The pass\<close>

record model_plan =
  mp_committed :: nat
  mp_held :: nat
  mp_reclaimable :: nat
  mp_targets :: "physical_shard_target list"
  mp_skipped :: "string list"

definition empty_plan :: model_plan where
  "empty_plan = \<lparr>mp_committed = 0, mp_held = 0, mp_reclaimable = 0, mp_targets = [], mp_skipped = []\<rparr>"

definition queued_tuples :: "catalog \<Rightarrow> string list \<Rightarrow> unit_tuple set" where
  "queued_tuples db run_ids = set (map (\<lambda>q. target_tuple (rq_target q))
     (filter (\<lambda>q. pst_run_id (rq_target q) \<in> set run_ids) (db_queue db)))"

text \<open>Everything the plan of one model holds\<close>

definition held_units ::
    "horizon_registry \<Rightarrow> coverage_state \<Rightarrow> catalog \<Rightarrow> datetime \<Rightarrow> string \<Rightarrow> int
     \<Rightarrow> physical_shard_target list \<Rightarrow> unit_tuple list result" where
  "held_units reg cov db now_utc m_id expected_members shards =
     bindE (model_serving_start_valid_time reg m_id now_utc) (\<lambda>serving_start.
     bindE (candidates_by_valid cov db m_id expected_members) (\<lambda>by_valid.
     bindE (predecessor_holds reg db m_id expected_members serving_start) (\<lambda>pred.
     bindE (protected_candidates reg now_utc m_id by_valid) (\<lambda>protected.
       let vars = planned_variables shards;
           res = select_canonical_sources_bulk protected (Some vars) None (Some serving_start)
       in Inr (pred @ canonical_holds (1 < expected_members)
            (map pr_variable_id (planable_products db m_id)) vars (map fst protected) res)))))"

text \<open>The directly reclaimable units of the claimed runs; \<open>c_utc\<close> is the variable of the loops above.\<close>

definition retired_cycle :: "catalog \<Rightarrow> string \<Rightarrow> string \<Rightarrow> model_run_row option" where
  "retired_cycle db m_id r = (if r \<in> set (retired_run_ids db m_id)
     then map_of (rev (map (\<lambda>row. (mr_id row, row)) (db_runs db))) r else None)"

definition retired_target ::
    "catalog \<Rightarrow> string \<Rightarrow> unit_tuple \<Rightarrow> physical_shard_target option result" where
  "retired_target db m_id u = (case u of (r, lead, v, kind, mem) \<Rightarrow>
     (case retired_cycle db m_id r of
        None \<Rightarrow> Inr None
      | Some row \<Rightarrow>
          (case mr_zarr_store_path row of
             None \<Rightarrow> Inr None
           | Some store_path \<Rightarrow>
               if store_path = [] then Inr None
               else bindE (make_target m_id (last_c_utc db m_id)
                        (ensure_utc (mr_cycle_time row) + hours lead) store_path u)
                      (\<lambda>t. Inr (Some t)))))"

definition retired_units :: "catalog \<Rightarrow> string \<Rightarrow> bool \<Rightarrow> unit_tuple list" where
  "retired_units db m_id is_ensemble =
     (if retired_run_ids db m_id = [] then []
      else sorted_list_of_set (enumerate_committed_unit_tuples db (retired_run_ids db m_id) is_ensemble))"

definition plan_model ::
    "horizon_registry \<Rightarrow> coverage_state \<Rightarrow> catalog \<Rightarrow> datetime \<Rightarrow> string \<Rightarrow> model_plan result" where
  "plan_model reg cov db now_utc model = (let m_id = norm_key model in
     if \<not> is_canonical_lead_horizon_registered reg m_id then Inr (empty_plan\<lparr>mp_skipped := [m_id]\<rparr>)
     else
       bindE (get_expected_members cov m_id (Some 1)) (\<lambda>expected_members.
       bindE (model_serving_start_valid_time reg m_id now_utc) (\<lambda>serving_start.
         if eligible_runs db m_id = [] \<or> catalog_run_ids db m_id = [] then Inr empty_plan
         else
           let is_ensemble = 1 < expected_members;
               existing = queued_tuples db (catalog_run_ids db m_id)
           in bindE (all_shards db m_id is_ensemble) (\<lambda>shards.
              bindE (held_units reg cov db now_utc m_id expected_members shards) (\<lambda>held.
                let dedup = fold (\<lambda>s. AList.update (target_tuple s) s) shards [];
                    free = filter (\<lambda>(t, s). t \<notin> set held) dedup;
                    retired = retired_units db m_id is_ensemble;
                    retired_free = filter (\<lambda>u. u \<notin> existing) retired
                in bindE (mapE (retired_target db m_id) retired_free) (\<lambda>rts.
                   Inr \<lparr>mp_committed = length dedup + length retired,
                        mp_held = length dedup - length free,
                        mp_reclaimable = length free + length retired_free,
                        mp_targets = map snd (filter (\<lambda>(t, s). t \<notin> existing) free) @ somes rts,
                        mp_skipped = []\<rparr>))))))"

record reclamation_plan_result =
  rp_dry_run :: bool
  rp_evaluated_at :: instant
  rp_total_committed_shards :: nat
  rp_active_held_shards :: nat
  rp_reclaimable_shards :: nat
  rp_enqueued_count :: nat
  rp_would_enqueue :: "physical_shard_target list"
  rp_skipped_models :: "string list"

text \<open>\<open>INSERT ... ON CONFLICT DO NOTHING\<close> on the unit tuple\<close>

definition insert_queue_row :: "queue_row \<Rightarrow> queue_row list \<Rightarrow> queue_row list" where
  "insert_queue_row row q =
     (if target_tuple (rq_target row) \<in> (target_tuple \<circ> rq_target) ` set q then q else q @ [row])"

definition new_queue_row ::
    "(nat \<Rightarrow> string) \<Rightarrow> (string \<Rightarrow> string option) \<Rightarrow> instant \<Rightarrow> nat \<times> physical_shard_target \<Rightarrow> queue_row" where
  "new_queue_row uuid read_store_generation now_utc item = (case item of (i, t) \<Rightarrow>
     \<lparr>rq_id = ''rec_'' @ take 24 (uuid i), rq_target = t,
      rq_store_generation = read_store_generation (pst_store_path t), rq_status = ''queued'',
      rq_attempt_count = 0, rq_lease_expires_at = None, rq_next_retry_at = None,
      rq_last_error = None, rq_reclaimed_at = None, rq_created_at = now_utc, rq_updated_at = now_utc\<rparr>)"

text \<open>The batches \<open>all_would_enqueue[i : i + batch_size]\<close>\<close>

definition batches :: "int \<Rightarrow> 'a list \<Rightarrow> 'a list list result" where
  "batches batch_size xs = bindE (py_rangeE 0 (int (length xs)) batch_size)
     (\<lambda>is. Inr (map (\<lambda>i. take (nat batch_size) (drop (nat i) xs)) is))"

definition plan_reclamation_pass ::
    "horizon_registry \<Rightarrow> coverage_state \<Rightarrow> (nat \<Rightarrow> string) \<Rightarrow> (string \<Rightarrow> string option) \<Rightarrow> catalog
     \<Rightarrow> string list \<Rightarrow> bool \<Rightarrow> datetime \<Rightarrow> int \<Rightarrow> (reclamation_plan_result \<times> catalog) result" where
  "plan_reclamation_pass reg cov uuid read_store_generation db models dry_run now batch_size =
     (let now_utc = ensure_utc now in
      bindE (mapE (plan_model reg cov db (utc_datetime now_utc)) models) (\<lambda>plans.
        let all_would_enqueue = concat (map mp_targets plans);
            result = (\<lambda>n. \<lparr>rp_dry_run = dry_run, rp_evaluated_at = now_utc,
              rp_total_committed_shards = sum_list (map mp_committed plans),
              rp_active_held_shards = sum_list (map mp_held plans),
              rp_reclaimable_shards = sum_list (map mp_reclaimable plans),
              rp_enqueued_count = n, rp_would_enqueue = all_would_enqueue,
              rp_skipped_models = sort (concat (map mp_skipped plans))\<rparr>)
        in if dry_run then Inr (result (length all_would_enqueue), db)
           else if all_would_enqueue = [] then Inr (result 0, db)
           else bindE (batches batch_size (enumerate 0 all_would_enqueue)) (\<lambda>chunks.
             Inr (result (sum_list (map length chunks)),
                  db\<lparr>db_queue := fold (fold insert_queue_row)
                       (map (map (new_queue_row uuid read_store_generation now_utc)) chunks)
                       (db_queue db)\<rparr>))))"

subsection \<open>Units and targets\<close>

lemma make_target_unit:
  assumes "u \<in> set (product_units db ids ens p)"
  shows "\<exists>t. make_target m c vt st u = Inr t \<and> target_tuple t = u \<and> pst_cycle_time t = c \<and>
    pst_valid_time t = vt \<and> pst_run_id t = pr_run_id p \<and> pst_model_id t = norm_key m \<and> pst_store_path t = st"
  using assms
  by (auto simp: product_units_def Let_def make_target_def make_shard_relative_key_def target_kind_defs
      normalize_member_index_def PhysicalShardTarget_def VALID_TARGET_KINDS_def target_tuple_def
      split: if_splits)

lemma make_target_InrD:
  assumes "make_target m c vt st u = Inr t" "u \<in> set (product_units db ids ens p)"
  shows "target_tuple t = u" "pst_cycle_time t = c" "pst_valid_time t = vt" "pst_run_id t = pr_run_id p"
    "pst_model_id t = norm_key m" "pst_store_path t = st"
  using make_target_unit [OF assms(2), of m c vt st] assms(1) by auto

lemma mapE_setE:
  assumes "mapE f xs = Inr ys" "y \<in> set ys"
  obtains x where "x \<in> set xs" "f x = Inr y"
  using mapE_set_D [OF assms] by blast

lemma mapE_set_ex:
  assumes "mapE f xs = Inr ys" "x \<in> set xs"
  obtains y where "y \<in> set ys" "f x = Inr y"
proof -
  have "\<exists>y \<in> set ys. f x = Inr y"
    using assms by (induction f xs arbitrary: ys rule: mapE.induct) (auto simp: bindE_eq_Inr)
  then show ?thesis using that by blast
qed

lemma all_shards_units:
  assumes "all_shards db m ens = Inr shards"
  shows "target_tuple ` set shards =
    (\<Union>p \<in> set (planable_products db m). set (product_units db (catalog_run_ids db m) ens p))"
proof -
  from assms obtain ss where ss: "mapE (product_shards db m ens) (planable_products db m) = Inr ss"
    "shards = concat ss" by (auto simp: all_shards_def bindE_eq_Inr)
  have row: "target_tuple ` set s = set (product_units db (catalog_run_ids db m) ens p)"
    if s: "product_shards db m ens p = Inr s" for p s
  proof -
    obtain meta :: run_meta where m: "mapE (make_target m (rm_cycle_time meta)
        (rm_cycle_time meta + hours (pr_lead_time_hours p)) (rm_store_path meta))
        (product_units db (catalog_run_ids db m) ens p) = Inr s"
      using s unfolding product_shards_def bindE_eq_Inr by blast
    show ?thesis
    proof (intro equalityI subsetI)
      fix u assume "u \<in> target_tuple ` set s"
      then obtain t where t: "t \<in> set s" "u = target_tuple t" by blast
      from mapE_setE [OF m t(1)] obtain u' where u': "u' \<in> set (product_units db (catalog_run_ids db m) ens p)"
        "make_target m (rm_cycle_time meta) (rm_cycle_time meta + hours (pr_lead_time_hours p))
           (rm_store_path meta) u' = Inr t" .
      with make_target_InrD(1) [OF u'(2,1)] t show "u \<in> set (product_units db (catalog_run_ids db m) ens p)" by simp
    next
      fix u assume u: "u \<in> set (product_units db (catalog_run_ids db m) ens p)"
      from mapE_set_ex [OF m u] obtain t where "t \<in> set s"
        "make_target m (rm_cycle_time meta) (rm_cycle_time meta + hours (pr_lead_time_hours p))
           (rm_store_path meta) u = Inr t" .
      with make_target_InrD(1) [OF this(2) u] show "u \<in> target_tuple ` set s" by force
    qed
  qed
  show ?thesis
  proof (intro equalityI subsetI)
    fix u assume "u \<in> target_tuple ` set shards"
    then obtain s where s: "s \<in> set ss" "u \<in> target_tuple ` set s" by (auto simp: ss(2))
    from mapE_setE [OF ss(1) s(1)] obtain p where "p \<in> set (planable_products db m)"
      "product_shards db m ens p = Inr s" .
    with row s show "u \<in> (\<Union>p \<in> set (planable_products db m). set (product_units db (catalog_run_ids db m) ens p))"
      by blast
  next
    fix u assume "u \<in> (\<Union>p \<in> set (planable_products db m). set (product_units db (catalog_run_ids db m) ens p))"
    then obtain p where p: "p \<in> set (planable_products db m)"
      "u \<in> set (product_units db (catalog_run_ids db m) ens p)" by blast
    from mapE_set_ex [OF ss(1) p(1)] obtain s where "s \<in> set ss" "product_shards db m ens p = Inr s" .
    with row [of p s] p(2) show "u \<in> target_tuple ` set shards" unfolding ss(2) set_concat by blast
  qed
qed

lemma fold_update_values:
  "(k, s) \<in> set (fold (\<lambda>s. AList.update (f s) s) xs acc) \<Longrightarrow>
     s \<in> set xs \<and> k = f s \<or> (k, s) \<in> set acc"
proof (induction xs arbitrary: acc)
  case (Cons x xs)
  have upd: "(k', s') \<in> set (AList.update k v al) \<Longrightarrow> (k', s') = (k, v) \<or> (k', s') \<in> set al"
    for k v k' s' and al
    by (induction al) (auto split: if_splits)
  show ?case using Cons.IH [of "AList.update (f x) x acc"] Cons.prems upd by fastforce
qed simp

subsection \<open>Candidates\<close>

lemma candidate_ofD:
  assumes "candidate_of cov db m n ((r, lead), rec) = Inr (Some c)"
  shows "cc_run_id c = r" "cc_lead_time_hours c = lead" "cc_variables c = lr_variables rec"
    "1 < n \<Longrightarrow> cc_member_indices c = Some (sort (members_of db (catalog_run_ids db m) r lead))"
    "\<exists>meta. run_of db m r = Inr meta \<and> cc_cycle_time c = rm_cycle_time meta"
  using assms
  by (auto simp: candidate_of_def bindE_eq_Inr Let_def CanonicalCandidate_def split: if_splits)

lemma add_candidate_set:
  "(vt, l) \<in> set (add_candidate c acc) \<Longrightarrow> x \<in> set l \<Longrightarrow>
     x = c \<and> vt = cc_valid_time c \<or> (\<exists>l'. (vt, l') \<in> set acc \<and> x \<in> set l')"
proof -
  assume a: "(vt, l) \<in> set (add_candidate c acc)" and x: "x \<in> set l"
  have upd: "(k', s') \<in> set (AList.update k v al) \<Longrightarrow> (k', s') = (k, v) \<or> (k', s') \<in> set al"
    for k k' :: instant and v s' :: "canonical_candidate list" and al
    by (induction al) (auto split: if_splits)
  from upd [OF a [unfolded add_candidate_def]] x show ?thesis
    by (auto split: option.splits dest: map_of_SomeD)
qed

lemma fold_add_candidate_set:
  "(vt, l) \<in> set (fold add_candidate cs acc) \<Longrightarrow> x \<in> set l \<Longrightarrow>
     x \<in> set cs \<and> vt = cc_valid_time x \<or> (\<exists>l'. (vt, l') \<in> set acc \<and> x \<in> set l')"
proof (induction cs arbitrary: acc)
  case Nil
  then show ?case by auto
next
  case (Cons c cs)
  then have "x \<in> set cs \<and> vt = cc_valid_time x \<or>
      (\<exists>l'. (vt, l') \<in> set (add_candidate c acc) \<and> x \<in> set l')" by simp
  then show ?case using add_candidate_set by fastforce
qed

lemma distinct_fold_add_candidate:
  "distinct (map fst acc) \<Longrightarrow> distinct (map fst (fold add_candidate cs acc))"
  by (induction cs arbitrary: acc) (simp_all add: add_candidate_def distinct_update)

lemma candidates_by_validD:
  assumes "candidates_by_valid cov db m n = Inr items"
  shows "distinct (map fst items)"
    "(vt, cands) \<in> set items \<Longrightarrow> c \<in> set cands \<Longrightarrow> vt = cc_valid_time c \<and>
       (\<exists>rec. ((cc_run_id c, cc_lead_time_hours c), rec) \<in> set (by_run_lead db m) \<and>
          cc_variables c = lr_variables rec) \<and>
       (\<exists>meta. run_of db m (cc_run_id c) = Inr meta \<and> cc_cycle_time c = rm_cycle_time meta) \<and>
       (1 < n \<longrightarrow> cc_member_indices c = Some (sort (members_of db (catalog_run_ids db m)
          (cc_run_id c) (cc_lead_time_hours c))))"
proof -
  from assms obtain cs where cs: "mapE (candidate_of cov db m n) (by_run_lead db m) = Inr cs"
    and items: "items = map (\<lambda>(vt, l). (vt, sort_key cc_lead_time_hours l)) (fold add_candidate (somes cs) [])"
    by (auto simp: candidates_by_valid_def bindE_eq_Inr)
  have "map fst items = map fst (fold add_candidate (somes cs) [])"
    by (simp add: items case_prod_beta o_def)
  then show "distinct (map fst items)" using distinct_fold_add_candidate by fastforce
  assume vc: "(vt, cands) \<in> set items" "c \<in> set cands"
  then obtain l where l: "(vt, l) \<in> set (fold add_candidate (somes cs) [])" "c \<in> set l"
    by (auto simp: items)
  from fold_add_candidate_set [OF l] have c: "Some c \<in> set cs" "vt = cc_valid_time c"
    by (auto simp: set_somes)
  from mapE_setE [OF cs c(1)] obtain r lead rec where "((r, lead), rec) \<in> set (by_run_lead db m)"
    "candidate_of cov db m n ((r, lead), rec) = Inr (Some c)" by (metis prod.exhaust)
  with candidate_ofD [OF this(2)] c(2) show "vt = cc_valid_time c \<and>
       (\<exists>rec. ((cc_run_id c, cc_lead_time_hours c), rec) \<in> set (by_run_lead db m) \<and>
          cc_variables c = lr_variables rec) \<and>
       (\<exists>meta. run_of db m (cc_run_id c) = Inr meta \<and> cc_cycle_time c = rm_cycle_time meta) \<and>
       (1 < n \<longrightarrow> cc_member_indices c = Some (sort (members_of db (catalog_run_ids db m)
          (cc_run_id c) (cc_lead_time_hours c))))" by auto
qed

lemma filterE_Inr:
  assumes "filterE P xs = Inr ys"
  shows "(\<forall>x \<in> set xs. \<exists>b. P x = Inr b) \<and> ys = filter (\<lambda>x. P x = Inr True) xs"
proof -
  from assms obtain zs where z: "list_all2 (\<lambda>x y. bindE (P x) (\<lambda>b. Inr (x, b)) = Inr y) xs zs" "ys = map fst (filter snd zs)"
    unfolding filterE_def bindE_eq_Inr mapE_Inr_iff by auto
  have "(\<forall>x \<in> set xs. \<exists>b. P x = Inr b) \<and> map fst (filter snd zs) = filter (\<lambda>x. P x = Inr True) xs"
    using z(1) by (induction xs zs rule: list_all2_induct) (auto simp: bindE_eq_Inr)
  with z(2) show ?thesis by simp
qed

lemma filterE_D:
  assumes "filterE P xs = Inr ys"
  shows "set ys = {x \<in> set xs. P x = Inr True}" "distinct (map f xs) \<Longrightarrow> distinct (map f ys)"
  using filterE_Inr [OF assms] by (simp_all add: distinct_map_filter)

subsection \<open>What a plan enqueues\<close>

text \<open>The targets of a model are free shards of its serving runs or units of its claimed runs.\<close>

lemma plan_model_targetsE:
  assumes "plan_model reg cov db now model = Inr p" "t \<in> set (mp_targets p)"
  obtains (free) n shards held where
      "get_expected_members cov (norm_key model) (Some 1) = Inr n"
      "all_shards db (norm_key model) (1 < n) = Inr shards"
      "held_units reg cov db now (norm_key model) n shards = Inr held"
      "t \<in> set shards" "target_tuple t \<notin> set held"
      "target_tuple t \<notin> queued_tuples db (catalog_run_ids db (norm_key model))"
  | (retired) n u where
      "get_expected_members cov (norm_key model) (Some 1) = Inr n"
      "u \<in> set (retired_units db (norm_key model) (1 < n))"
      "retired_target db (norm_key model) u = Inr (Some t)"
      "u \<notin> queued_tuples db (catalog_run_ids db (norm_key model))"
proof -
  let ?m = "norm_key model" and ?q = "queued_tuples db (catalog_run_ids db (norm_key model))"
  have "is_canonical_lead_horizon_registered reg ?m"
    using assms by (auto simp: plan_model_def Let_def empty_plan_def split: if_splits)
  moreover have "\<not> (eligible_runs db ?m = [] \<or> catalog_run_ids db ?m = [])"
    using assms by (auto simp: plan_model_def Let_def empty_plan_def bindE_eq_Inr split: if_splits)
  ultimately obtain n shards held rts where
    n: "get_expected_members cov ?m (Some 1) = Inr n" and
    sh: "all_shards db ?m (1 < n) = Inr shards" and
    h: "held_units reg cov db now ?m n shards = Inr held" and
    r: "mapE (retired_target db ?m) (filter (\<lambda>u. u \<notin> ?q) (retired_units db ?m (1 < n))) = Inr rts" and
    t: "mp_targets p = map snd (filter (\<lambda>(t, s). t \<notin> ?q) (filter (\<lambda>(t, s). t \<notin> set held)
       (fold (\<lambda>s. AList.update (target_tuple s) s) shards []))) @ somes rts"
    using assms(1) by (auto simp: plan_model_def Let_def bindE_eq_Inr)
  from assms(2) t consider
      (a) k where "(k, t) \<in> set (fold (\<lambda>s. AList.update (target_tuple s) s) shards [])"
        "k \<notin> set held" "k \<notin> ?q"
    | (b) "Some t \<in> set rts" by (auto simp: set_somes)
  then show thesis
  proof cases
    case a
    with fold_update_values [OF a(1)] n sh h show thesis by (intro free) auto
  next
    case b
    from mapE_setE [OF r b] obtain u where "u \<in> set (filter (\<lambda>u. u \<notin> ?q) (retired_units db ?m (1 < n)))"
      "retired_target db ?m u = Inr (Some t)" .
    with n show thesis by (intro retired) auto
  qed
qed

lemma enumerate_units:
  "enumerate_committed_unit_tuples db ids ens =
     (\<Union>p \<in> {p \<in> set (db_products db). pr_run_id p \<in> set ids}. set (product_units db ids ens p))"
  by (auto simp: enumerate_committed_unit_tuples_def product_rows_def)

lemma retired_units_set:
  "set (retired_units db m ens) = enumerate_committed_unit_tuples db (retired_run_ids db m) ens"
proof -
  have "finite (enumerate_committed_unit_tuples db (retired_run_ids db m) ens)"
    by (simp add: enumerate_committed_unit_tuples_def)
  then show ?thesis by (auto simp: retired_units_def enumerate_committed_unit_tuples_def)
qed

lemma product_units_run:
  "u \<in> set (product_units db ids ens p) \<Longrightarrow> fst u = pr_run_id p"
  by (auto simp: product_units_def Let_def split: if_splits)

lemma retired_targetD:
  assumes "retired_target db m u = Inr (Some t)" "u \<in> set (product_units db ids ens p)"
  shows "target_tuple t = u \<and> pst_run_id t \<in> set (retired_run_ids db m) \<and> pst_cycle_time t = last_c_utc db m
    \<and> (\<exists>row \<in> set (db_runs db). mr_id row = pst_run_id t \<and>
       pst_valid_time t = ensure_utc (mr_cycle_time row) + hours (pst_lead_time_hours t))"
proof -
  obtain r lead v kind mem where u: "u = (r, lead, v, kind, mem)" by (cases u)
  from assms(1) obtain row path where row: "retired_cycle db m r = Some row" "mr_zarr_store_path row = Some path"
    "make_target m (last_c_utc db m) (ensure_utc (mr_cycle_time row) + hours lead) path u = Inr t"
    by (auto simp: retired_target_def u bindE_eq_Inr split: option.splits if_splits)
  note t = make_target_InrD [OF row(3) assms(2)]
  have "r \<in> set (retired_run_ids db m)" "row \<in> set (db_runs db)" "mr_id row = r"
    using row(1) by (auto simp: retired_cycle_def split: if_splits dest!: map_of_SomeD)
  moreover have "pst_run_id t = r" "pst_lead_time_hours t = lead"
    using t(1) by (simp_all add: u target_tuple_def)
  ultimately show ?thesis using t by auto
qed

lemma plan_target_new:
  assumes "plan_model reg cov db now model = Inr p" "t \<in> set (mp_targets p)"
    and "get_expected_members cov (norm_key model) (Some 1) = Inr n"
  shows "pst_run_id t \<in> set (catalog_run_ids db (norm_key model)) \<and>
    target_tuple t \<in> enumerate_committed_unit_tuples db (catalog_run_ids db (norm_key model)) (1 < n) \<and>
    target_tuple t \<notin> (target_tuple \<circ> rq_target) ` set (db_queue db)"
proof -
  let ?m = "norm_key model"
  have q: "target_tuple t \<notin> (target_tuple \<circ> rq_target) ` set (db_queue db)"
    if a: "target_tuple t \<notin> queued_tuples db (catalog_run_ids db ?m)"
      and b: "pst_run_id t \<in> set (catalog_run_ids db ?m)"
  proof
    assume "target_tuple t \<in> (target_tuple \<circ> rq_target) ` set (db_queue db)"
    then obtain q where q: "q \<in> set (db_queue db)" "target_tuple (rq_target q) = target_tuple t" by auto
    then have "pst_run_id (rq_target q) = pst_run_id t" by (simp add: target_tuple_def)
    with q b have "target_tuple (rq_target q) \<in> queued_tuples db (catalog_run_ids db ?m)"
      unfolding queued_tuples_def set_map by (intro image_eqI [of _ _ q]) simp_all
    with a q(2) show False by simp
  qed
  from assms(1,2) show ?thesis
  proof (cases rule: plan_model_targetsE)
    case (free n' shards held)
    then have "n' = n" using assms(3) by simp
    with all_shards_units [OF free(2)] free(4) obtain pr where pr: "pr \<in> set (planable_products db ?m)"
      "target_tuple t \<in> set (product_units db (catalog_run_ids db ?m) (1 < n) pr)" by blast
    from product_units_run [OF pr(2)] pr(1) have "pst_run_id t \<in> set (catalog_run_ids db ?m)"
      by (auto simp: target_tuple_def planable_products_def product_rows_def)
    with q free(6) pr show ?thesis
      by (auto simp: enumerate_units planable_products_def product_rows_def)
  next
    case (retired n' u)
    then have n: "n' = n" using assms(3) by simp
    from retired(2) obtain pr where pr: "pr \<in> set (db_products db)"
      "pr_run_id pr \<in> set (retired_run_ids db ?m)"
      "u \<in> set (product_units db (retired_run_ids db ?m) (1 < n) pr)"
      by (auto simp: retired_units_set enumerate_units n)
    have mem: "set (members_of db (retired_run_ids db ?m) (pr_run_id pr) l) \<subseteq>
        set (members_of db (catalog_run_ids db ?m) (pr_run_id pr) l)" for l
      by (auto simp: members_of_def catalog_run_ids_def)
    have "u \<in> set (product_units db (catalog_run_ids db ?m) (1 < n) pr)"
      using pr(3) mem by (auto simp: product_units_def Let_def split: if_splits)
    with pr retired_targetD [OF retired(3) pr(3)] q retired(4) show ?thesis
      by (auto simp: enumerate_units catalog_run_ids_def)
  qed
qed

text \<open>The planner only enqueues committed, unqueued work: every target it proposes is the unit
  of a product the catalog records for one of the model's runs that is neither tombstoned nor
  foreign to the model, and no queue row exists for it yet.\<close>

theorem plan_targets_committed_and_new:
  assumes "plan_model reg cov db now model = Inr p" "t \<in> set (mp_targets p)"
    and "get_expected_members cov (norm_key model) (Some 1) = Inr n"
  shows "pst_run_id t \<in> set (catalog_run_ids db (norm_key model)) \<and>
    target_tuple t \<in> enumerate_committed_unit_tuples db (catalog_run_ids db (norm_key model)) (1 < n) \<and>
    target_tuple t \<notin> (target_tuple \<circ> rq_target) ` set (db_queue db)"
  by (rule plan_target_new [OF assms])

subsection \<open>What a plan keeps\<close>

lemma canonical_source_held:
  assumes "candidates_by_valid cov db m n = Inr by_valid"
    and "protected_candidates reg now m by_valid = Inr protected"
    and "(vt, cands) \<in> set protected" "start \<le> vt"
    and "select_variable_source cands v (select_canonical_anchor cands) = Some src"
    and "resolved_by vars v" and "v \<in> set vars"
  shows "set (variable_holds ens v (Some src)) \<subseteq> set (canonical_holds ens pvars vars (map fst protected)
     (select_canonical_sources_bulk protected (Some vars) None (Some start)))"
proof -
  have "distinct (map fst protected)"
    using filterE_D(2) [OF assms(2) [unfolded protected_candidates_def]] candidates_by_validD(1) [OF assms(1)]
    by blast
  from bulk_lookup [OF this, of vars None "Some start" v vt] have
    "crr_variable_sources (select_canonical_sources_bulk protected (Some vars) None (Some start)) (v, vt)
      = Some (Some src)"
    using assms(3-6) \<open>distinct (map fst protected)\<close> by (auto simp: considered_def)
  then show ?thesis
    using assms(3,7) by (fastforce simp: canonical_holds_def)
qed

lemma planned_variables_iff:
  "pst_variable_code t \<in> set (planned_variables shards)" if "t \<in> set shards"
  using that by (simp add: planned_variables_def Let_def)

lemma source_units_of_candidate:
  assumes "u \<in> set (product_units db (catalog_run_ids db m) ens p)"
    and "cc_run_id c = pr_run_id p" "cc_lead_time_hours c = pr_lead_time_hours p"
    and "ens \<longrightarrow> cc_member_indices c = Some (sort (members_of db (catalog_run_ids db m)
          (cc_run_id c) (cc_lead_time_hours c)))"
  shows "u \<in> set (source_units ens c (fst (snd (snd u))))"
  using assms by (auto simp: product_units_def source_units_def Let_def split: if_splits)

text \<open>C1: Reclamation never takes what serving selects: at every protected valid time inside the
  model's serving window, when canonical selection takes a candidate as the source of a variable
  (spelled as the platform spells it), no unit of that variable at the candidate's run and lead (its mean, any of its members, or the
  deterministic shard) is proposed for deletion, unless the run is claimed for deletion as a
  whole.\<close>

theorem reclamation_keeps_canonical_sources:
  assumes "plan_model reg cov db now model = Inr p" "t \<in> set (mp_targets p)"
    and "pst_run_id t \<notin> set (retired_run_ids db (norm_key model))"
    and "get_expected_members cov (norm_key model) (Some 1) = Inr n"
    and "candidates_by_valid cov db (norm_key model) n = Inr by_valid"
    and "protected_candidates reg now (norm_key model) by_valid = Inr protected"
    and "model_serving_start_valid_time reg (norm_key model) now = Inr start"
    and "(vt, cands) \<in> set protected" "start \<le> vt"
    and "select_variable_source cands (pst_variable_code t) (select_canonical_anchor cands) = Some src"
    and "clean_variable (pst_variable_code t) = pst_variable_code t"
  shows "\<not> (pst_run_id t = cc_run_id src \<and> pst_lead_time_hours t = cc_lead_time_hours src)"
proof
  assume same: "pst_run_id t = cc_run_id src \<and> pst_lead_time_hours t = cc_lead_time_hours src"
  let ?m = "norm_key model"
  from assms(1,2) show False
  proof (cases rule: plan_model_targetsE)
    case (free n' shards held)
    then have n: "n' = n" using assms(4) by simp
    from free(3) obtain pred where held: "held = pred @ canonical_holds (1 < n)
        (map pr_variable_id (planable_products db ?m)) (planned_variables shards) (map fst protected)
        (select_canonical_sources_bulk protected (Some (planned_variables shards)) None (Some start))"
      using assms(5-7) by (auto simp: held_units_def bindE_eq_Inr Let_def n)
    have var: "pst_variable_code t \<in> set (planned_variables shards)"
      using free(4) by (rule planned_variables_iff)
    have "resolved_by (planned_variables shards) (pst_variable_code t)"
      using var assms(11) by (auto simp: resolved_by_def is_precipitation_companion_def
          PRECIPITATION_COMPANION_VARIABLES_def COMPANIONS_def)
    from canonical_source_held [OF assms(5,6,8-10) this var]
    have kept: "set (source_units (1 < n) src (pst_variable_code t)) \<subseteq> set held"
      by (auto simp: held variable_holds_def)
    from all_shards_units [OF free(2)] free(4) obtain pr where pr:
      "target_tuple t \<in> set (product_units db (catalog_run_ids db ?m) (1 < n) pr)" by (auto simp: n)
    have srcin: "src \<in> set cands"
      using assms(10) by (auto simp: select_variable_source_eq_find dest: find_SomeD)
    have "(vt, cands) \<in> set by_valid"
      using filterE_D(1) [OF assms(6) [unfolded protected_candidates_def]] assms(8) by blast
    from candidates_by_validD(2) [OF assms(5) this srcin]
    have "1 < n \<longrightarrow> cc_member_indices src = Some (sort (members_of db (catalog_run_ids db ?m)
          (cc_run_id src) (cc_lead_time_hours src)))" by blast
    moreover have "pr_run_id pr = pst_run_id t" "pr_lead_time_hours pr = pst_lead_time_hours t"
      using pr by (auto simp: product_units_def target_tuple_def Let_def split: if_splits)
    ultimately have "target_tuple t \<in> set (source_units (1 < n) src (fst (snd (snd (target_tuple t)))))"
      using pr same by (intro source_units_of_candidate [OF pr]) auto
    with kept free(5) show False by (auto simp: target_tuple_def)
  next
    case (retired n' u)
    then obtain pr where "u \<in> set (product_units db (retired_run_ids db ?m) (1 < n') pr)"
      by (auto simp: retired_units_set enumerate_units)
    from retired_targetD [OF retired(3) this] assms(3) show False by simp
  qed
qed

subsection \<open>Predecessors\<close>

lemma by_run_lead_keys:
  "fst ` set (fold add_product ps acc) = (\<lambda>p. (pr_run_id p, pr_lead_time_hours p)) ` set ps \<union> fst ` set acc"
  by (induction ps arbitrary: acc) (auto simp: add_product_def Let_def dom_update)

lemma committed_leads_iff:
  "lead \<in> committed_leads db m r \<longleftrightarrow>
     (\<exists>p \<in> set (planable_products db m). pr_run_id p = r \<and> pr_lead_time_hours p = lead)"
proof -
  have "lead \<in> committed_leads db m r \<longleftrightarrow> (r, lead) \<in> fst ` set (by_run_lead db m)"
    by (force simp: committed_leads_def)
  then show ?thesis unfolding by_run_lead_def by_run_lead_keys by auto
qed

lemma predecessor_metadata:
  assumes "v \<in> set PREDECESSOR_VARIABLE_LIST"
  shows "\<exists>md. get_variable_temporal_metadata (Some v) = Inr md \<and>
    vtm_interval_width_hours md = 3 \<and> vtm_reset_period_hours md = 6"
proof -
  have "\<forall>v \<in> set PREDECESSOR_VARIABLE_LIST. case get_variable_temporal_metadata (Some v) of
      Inr md \<Rightarrow> vtm_interval_width_hours md = 3 \<and> vtm_reset_period_hours md = 6 | Inl e \<Rightarrow> False"
    by code_simp
  then have "case get_variable_temporal_metadata (Some v) of
      Inr md \<Rightarrow> vtm_interval_width_hours md = 3 \<and> vtm_reset_period_hours md = 6 | Inl e \<Rightarrow> False"
    using assms by (rule bspec)
  then show ?thesis by (cases "get_variable_temporal_metadata (Some v)") simp_all
qed

lemma predecessor_unit_held:
  assumes "predecessor_holds reg db m n start = Inr pred" and "(r, meta) \<in> set (planable_runs db m)"
    and "model_max_lead_hours reg m (Some (rm_version_string meta)) None = Inr mx"
    and "start - hours mx \<le> rm_cycle_time meta" and "rm_status meta \<noteq> ''ready''"
    and "v \<in> set PREDECESSOR_VARIABLE_LIST" and "0 < L" "L \<le> mx" "L mod 6 = 0"
    and "L \<notin> committed_leads db m r" and "L - 3 \<in> committed_leads db m r"
  shows "set (if 1 < n then (r, L - 3, v, TARGET_KIND_MEAN, - 1)
                # map (\<lambda>k. (r, L - 3, v, TARGET_KIND_MEM, k)) (py_range 1 (n + 1) 1)
              else [(r, L - 3, v, TARGET_KIND_DET, 0)]) \<subseteq> set pred"
proof -
  from assms(1) obtain hs where hs: "mapE (predecessor_run_holds reg db m n start) (planable_runs db m) = Inr hs"
    "pred = concat hs" by (auto simp: predecessor_holds_def bindE_eq_Inr)
  from mapE_set_ex [OF hs(1) assms(2)] obtain h where h: "h \<in> set hs"
    "predecessor_run_holds reg db m n start (r, meta) = Inr h" .
  then obtain vs where vs: "mapE (\<lambda>pred_var.
           bindE (get_variable_temporal_metadata (Some pred_var)) (\<lambda>md.
             if vtm_reset_period_hours md \<le> vtm_interval_width_hours md then Inr []
             else bindE (mapE (predecessor_lead_holds n (committed_leads db m r) r pred_var md)
                      (py_range (vtm_reset_period_hours md) (mx + 1) (vtm_reset_period_hours md)))
                    (\<lambda>hs. Inr (concat hs)))) PREDECESSOR_VARIABLE_LIST = Inr vs" "h = concat vs"
    using assms(3-5) by (auto simp: predecessor_run_holds_def bindE_eq_Inr split: if_splits)
  obtain md where md: "get_variable_temporal_metadata (Some v) = Inr md"
    "vtm_interval_width_hours md = 3" "vtm_reset_period_hours md = 6"
    using predecessor_metadata [OF assms(6)] by blast
  from mapE_set_ex [OF vs(1) assms(6)] obtain w where w: "w \<in> set vs"
    "bindE (mapE (predecessor_lead_holds n (committed_leads db m r) r v md) (py_range 6 (mx + 1) 6))
        (\<lambda>hs. Inr (concat hs)) = Inr w" by (auto simp: md)
  then obtain ls where ls: "mapE (predecessor_lead_holds n (committed_leads db m r) r v md) (py_range 6 (mx + 1) 6)
      = Inr ls" "w = concat ls" by (auto simp: bindE_eq_Inr)
  have "L \<in> set (py_range 6 (mx + 1) 6)"
    using assms(7-9) by (simp add: set_py_range) presburger
  from mapE_set_ex [OF ls(1) this] obtain us where us: "us \<in> set ls"
    "predecessor_lead_holds n (committed_leads db m r) r v md L = Inr us" .
  have "get_predecessor_lead L 3 6 = Inr (L - 3)"
    using assms(7,9) by (simp add: get_predecessor_lead_def is_predecessor_dependent_lead_def)
  then have "us = (if 1 < n then (r, L - 3, v, TARGET_KIND_MEAN, - 1)
                # map (\<lambda>k. (r, L - 3, v, TARGET_KIND_MEM, k)) (py_range 1 (n + 1) 1)
              else [(r, L - 3, v, TARGET_KIND_DET, 0)])"
    using us(2) assms(10,11) by (simp add: predecessor_lead_holds_def md bindE_def)
  then have "set us \<subseteq> set pred \<Longrightarrow> ?thesis" by simp
  moreover have "set us \<subseteq> set pred"
  proof -
    have "set us \<subseteq> set w" using us(1) by (auto simp: ls(2))
    moreover have "set w \<subseteq> set h" using w(1) by (auto simp: vs(2))
    moreover have "set h \<subseteq> set pred" using h(1) by (auto simp: hs(2))
    ultimately show ?thesis by blast
  qed
  ultimately show ?thesis by blast
qed

text \<open>C2: Reclamation never strands a pending six-hour lead: for a run that is still being ingested
  and within reach of the serving window, while a reset lead of its horizon is not committed, the
  slices of the accumulation variables three hours before that lead are not proposed for deletion
  (of an ensemble, the mean and every expected member).\<close>

theorem reclamation_keeps_predecessors:
  assumes "plan_model reg cov db now model = Inr p" "t \<in> set (mp_targets p)"
    and "pst_run_id t \<notin> set (retired_run_ids db (norm_key model))"
    and "get_expected_members cov (norm_key model) (Some 1) = Inr n"
    and "model_serving_start_valid_time reg (norm_key model) now = Inr start"
    and "(pst_run_id t, meta) \<in> set (planable_runs db (norm_key model))"
    and "model_max_lead_hours reg (norm_key model) (Some (rm_version_string meta)) None = Inr mx"
    and "start - hours mx \<le> rm_cycle_time meta" and "rm_status meta \<noteq> ''ready''"
    and "0 < L" "L \<le> mx" "L mod 6 = 0" "L \<notin> committed_leads db (norm_key model) (pst_run_id t)"
    and "pst_target_kind t = TARGET_KIND_MEM \<longrightarrow> 1 \<le> pst_member_index t \<and> pst_member_index t \<le> n"
  shows "\<not> (pst_variable_code t \<in> set PREDECESSOR_VARIABLE_LIST \<and> pst_lead_time_hours t = L - 3)"
proof
  assume t: "pst_variable_code t \<in> set PREDECESSOR_VARIABLE_LIST \<and> pst_lead_time_hours t = L - 3"
  let ?m = "norm_key model"
  from assms(1,2) show False
  proof (cases rule: plan_model_targetsE)
    case (free n' shards held)
    then have n: "n' = n" using assms(4) by simp
    from free(3) obtain pred where pred: "predecessor_holds reg db ?m n start = Inr pred" "set pred \<subseteq> set held"
      using assms(5) by (auto simp: held_units_def bindE_eq_Inr Let_def n)
    from all_shards_units [OF free(2)] free(4) obtain pr where pr: "pr \<in> set (planable_products db ?m)"
      "target_tuple t \<in> set (product_units db (catalog_run_ids db ?m) (1 < n) pr)" by (auto simp: n)
    then have "pr_run_id pr = pst_run_id t" "pr_lead_time_hours pr = L - 3"
      and kind: "target_tuple t \<in> set (if 1 < n then (pst_run_id t, L - 3, pst_variable_code t, TARGET_KIND_MEAN, - 1)
                # map (\<lambda>k. (pst_run_id t, L - 3, pst_variable_code t, TARGET_KIND_MEM, k)) (py_range 1 (n + 1) 1)
              else [(pst_run_id t, L - 3, pst_variable_code t, TARGET_KIND_DET, 0)])"
      using t assms(14)
      by (auto simp: product_units_def target_tuple_def Let_def set_py_range split: if_splits)
    then have "L - 3 \<in> committed_leads db ?m (pst_run_id t)"
      using pr(1) by (auto simp: committed_leads_iff)
    from predecessor_unit_held [OF pred(1) assms(6-9) conjunct1 [OF t] assms(10-13) this] kind pred(2) free(5)
    show False by blast
  next
    case (retired n' u)
    then obtain pr where "u \<in> set (product_units db (retired_run_ids db ?m) (1 < n') pr)"
      by (auto simp: retired_units_set enumerate_units)
    from retired_targetD [OF retired(3) this] assms(3) show False by simp
  qed
qed

end
