(* ===== verification/GcPass.thy ===== *)
theory GcPass
  imports GcPlanner
begin

text \<open>
  The reclamation pass as a whole: a pass changes nothing but the queue, a second pass at the same
  time finds nothing left to enqueue, a model without a registered horizon does not disturb the
  others, and the concrete runs on a small catalog.
\<close>

subsection \<open>The queue is the only table a pass writes\<close>

lemma other_tables:
  fixes db :: catalog
  shows "db_versions (db\<lparr>db_queue := q\<rparr>) = db_versions db" "db_runs (db\<lparr>db_queue := q\<rparr>) = db_runs db"
    "db_products (db\<lparr>db_queue := q\<rparr>) = db_products db"
    "db_member_products (db\<lparr>db_queue := q\<rparr>) = db_member_products db"
    "db_lifecycle (db\<lparr>db_queue := q\<rparr>) = db_lifecycle db"
  by simp_all

lemma queue_irrelevant:
  fixes db :: catalog
  shows "eligible_runs (db\<lparr>db_queue := q\<rparr>) = eligible_runs db"
    "lifecycle_map (db\<lparr>db_queue := q\<rparr>) = lifecycle_map db"
    "members_of (db\<lparr>db_queue := q\<rparr>) = members_of db"
    "product_rows (db\<lparr>db_queue := q\<rparr>) = product_rows db"
  unfolding eligible_runs_def lifecycle_map_def members_of_def product_rows_def other_tables
  by (rule refl)+

lemma queue_irrelevant_runs:
  fixes db :: catalog
  shows "planable_runs (db\<lparr>db_queue := q\<rparr>) = planable_runs db"
    "retired_run_ids (db\<lparr>db_queue := q\<rparr>) = retired_run_ids db"
    "catalog_run_ids (db\<lparr>db_queue := q\<rparr>) = catalog_run_ids db"
    "last_c_utc (db\<lparr>db_queue := q\<rparr>) = last_c_utc db"
    "retired_cycle (db\<lparr>db_queue := q\<rparr>) = retired_cycle db"
    "product_units (db\<lparr>db_queue := q\<rparr>) = product_units db"
  unfolding planable_runs_def retired_run_ids_def catalog_run_ids_def last_c_utc_def retired_cycle_def
    product_units_def queue_irrelevant other_tables
  by (rule refl)+

lemma queue_irrelevant_shards:
  fixes db :: catalog
  shows "planable_products (db\<lparr>db_queue := q\<rparr>) = planable_products db"
    "run_of (db\<lparr>db_queue := q\<rparr>) = run_of db" "all_shards (db\<lparr>db_queue := q\<rparr>) = all_shards db"
    "by_run_lead (db\<lparr>db_queue := q\<rparr>) = by_run_lead db"
    "retired_units (db\<lparr>db_queue := q\<rparr>) = retired_units db"
    "retired_target (db\<lparr>db_queue := q\<rparr>) = retired_target db"
  unfolding planable_products_def run_of_def all_shards_def product_shards_def by_run_lead_def
    retired_units_def retired_target_def enumerate_committed_unit_tuples_def queue_irrelevant
    queue_irrelevant_runs
  by (rule refl)+

lemma queue_irrelevant_holds:
  fixes db :: catalog
  shows "held_units reg cov (db\<lparr>db_queue := q\<rparr>) = held_units reg cov db"
  unfolding held_units_def candidates_by_valid_def candidate_of_def predecessor_holds_def
    predecessor_run_holds_def committed_leads_def queue_irrelevant queue_irrelevant_runs
    queue_irrelevant_shards
  by (rule refl)

lemma mapE_filter_weaken:
  assumes "mapE f (filter P xs) = Inr ys" "\<And>x. Q x \<Longrightarrow> P x"
  shows "\<exists>zs. mapE f (filter Q xs) = Inr zs \<and> set zs \<subseteq> set ys"
  using assms(1)
proof (induction xs arbitrary: ys)
  case (Cons x xs)
  show ?case
  proof (cases "P x")
    case True
    with Cons.prems obtain y ys' where y: "f x = Inr y" "mapE f (filter P xs) = Inr ys'" "ys = y # ys'"
      by (auto simp: bindE_eq_Inr)
    from Cons.IH [OF y(2)] obtain zs where "mapE f (filter Q xs) = Inr zs" "set zs \<subseteq> set ys'" by blast
    with y show ?thesis by auto
  next
    case False
    with assms(2) have "\<not> Q x" by blast
    with Cons.prems Cons.IH False show ?thesis by simp
  qed
qed simp

lemma queued_tuples_mono:
  "set (db_queue db) \<subseteq> set q \<Longrightarrow> queued_tuples db ids \<subseteq> queued_tuples (db\<lparr>db_queue := q\<rparr>) ids"
  by (auto simp: queued_tuples_def)

text \<open>A plan against a longer queue proposes only targets the first plan proposed, and none that
  is in that queue.\<close>

lemma plan_model_queue:
  assumes "plan_model reg cov db now model = Inr p" and "set (db_queue db) \<subseteq> set q"
  shows "\<exists>p'. plan_model reg cov (db\<lparr>db_queue := q\<rparr>) now model = Inr p' \<and>
    mp_skipped p' = mp_skipped p \<and> set (mp_targets p') \<subseteq> set (mp_targets p)"
proof -
  let ?m = "norm_key model" and ?db = "db\<lparr>db_queue := q\<rparr>"
  let ?x = "queued_tuples db (catalog_run_ids db ?m)" and ?y = "queued_tuples ?db (catalog_run_ids db ?m)"
  note irr = queue_irrelevant queue_irrelevant_runs queue_irrelevant_shards queue_irrelevant_holds
  have xy: "?x \<subseteq> ?y" using assms(2) by (rule queued_tuples_mono)
  show ?thesis
  proof (cases "is_canonical_lead_horizon_registered reg ?m \<and> eligible_runs db ?m \<noteq> [] \<and> catalog_run_ids db ?m \<noteq> []")
    case False
    then show ?thesis using assms(1) by (auto simp: plan_model_def Let_def irr bindE_eq_Inr)
  next
    case True
    then obtain n start shards held rts where
      ex: "get_expected_members cov ?m (Some 1) = Inr n" "model_serving_start_valid_time reg ?m now = Inr start"
      "all_shards db ?m (1 < n) = Inr shards" "held_units reg cov db now ?m n shards = Inr held"
      and r: "mapE (retired_target db ?m) (filter (\<lambda>u. u \<notin> ?x) (retired_units db ?m (1 < n))) = Inr rts" and
      t: "mp_targets p = map snd (filter (\<lambda>(t, s). t \<notin> ?x) (filter (\<lambda>(t, s). t \<notin> set held)
         (fold (\<lambda>s. AList.update (target_tuple s) s) shards []))) @ somes rts"
      and sk: "mp_skipped p = []"
      using assms(1) by (auto simp: plan_model_def Let_def bindE_eq_Inr)
    from mapE_filter_weaken [OF r, of "\<lambda>u. u \<notin> ?y"] xy obtain rts' where
      r': "mapE (retired_target db ?m) (filter (\<lambda>u. u \<notin> ?y) (retired_units db ?m (1 < n))) = Inr rts'"
      "set rts' \<subseteq> set rts" by blast
    obtain p' where p': "plan_model reg cov ?db now model = Inr p'" "mp_skipped p' = []"
      "mp_targets p' = map snd (filter (\<lambda>(t, s). t \<notin> ?y) (filter (\<lambda>(t, s). t \<notin> set held)
         (fold (\<lambda>s. AList.update (target_tuple s) s) shards []))) @ somes rts'"
      using True ex r'(1) by (simp add: plan_model_def Let_def irr)
    have "set (mp_targets p') \<subseteq> set (mp_targets p)"
      using xy r'(2) unfolding t p'(3) by (auto simp: set_somes image_iff split: prod.splits) blast+
    with p' sk show ?thesis by simp
  qed
qed

subsection \<open>Batches and the queue\<close>

lemma concat_slices:
  "0 < b \<Longrightarrow> concat (map (\<lambda>i. take b (drop (b * i) xs)) [0..<k]) = take (b * k) xs"
  by (induction k) (simp_all add: take_add [symmetric] add.commute)

lemma batches_concat:
  assumes "0 < b" shows "\<exists>chunks. batches b xs = Inr chunks \<and> concat chunks = xs"
proof -
  let ?k = "range_count 0 (int (length xs)) b"
  have nat: "nat (b * int i) = nat b * i" for i
    using assms by (simp add: nat_mult_distrib)
  have eq: "batches b xs = Inr (map (\<lambda>i. take (nat b) (drop (nat b * i) xs)) [0..<?k])"
    using assms by (simp add: batches_def py_rangeE_def py_range_def nat o_def)
  have "length xs \<le> nat b * ?k"
  proof -
    have k: "int ?k = (int (length xs) + b - 1) div b" using assms
      by (simp add: range_count_def pos_imp_zdiv_nonneg_iff)
    have "int (length xs) + b - 1 < b * int ?k + b"
      unfolding k using assms by (metis add.commute div_mod_decomp_int mult.commute pos_mod_bound add_strict_left_mono)
    then have "int (length xs) \<le> b * int ?k" by simp
    then show ?thesis using assms by (metis int_nat_eq less_le nat_int nat_le_iff of_nat_mult)
  qed
  then show ?thesis using assms concat_slices [of "nat b" xs ?k] by (intro exI [of _ "map (\<lambda>i. take (nat b) (drop (nat b * i) xs)) [0..<?k]"]) (simp add: eq)
qed

lemma fold_insert_queue:
  "(target_tuple \<circ> rq_target) ` set (fold insert_queue_row rows q) =
     (target_tuple \<circ> rq_target) ` set q \<union> (target_tuple \<circ> rq_target) ` set rows"
  by (induction rows arbitrary: q) (auto simp: insert_queue_row_def)

lemma fold_insert_queue_grows: "\<exists>new. fold insert_queue_row rows q = q @ new \<and> set new \<subseteq> set rows"
proof (induction rows arbitrary: q)
  case (Cons r rows)
  from Cons [of "insert_queue_row r q"] obtain new where
    "fold insert_queue_row rows (insert_queue_row r q) = insert_queue_row r q @ new" "set new \<subseteq> set rows"
    by blast
  moreover have "insert_queue_row r q = q \<or> insert_queue_row r q = q @ [r]"
    by (simp add: insert_queue_row_def)
  ultimately show ?case by auto
qed simp

lemma fold_insert_queue_distinct:
  "distinct (map (target_tuple \<circ> rq_target) q) \<Longrightarrow>
     distinct (map (target_tuple \<circ> rq_target) (fold insert_queue_row rows q))"
  by (induction rows arbitrary: q) (auto simp: insert_queue_row_def)

lemma new_rows_targets:
  "rq_target ` set (map (new_queue_row uuid gen now_utc) (enumerate 0 ts)) = set ts"
proof -
  have "map rq_target (map (new_queue_row uuid gen now_utc) xs) = map snd xs" for xs
    by (induction xs) (auto simp: new_queue_row_def)
  then have "map rq_target (map (new_queue_row uuid gen now_utc) (enumerate 0 ts)) = map snd (enumerate 0 ts)" .
  then show ?thesis by (metis list.set_map map_snd_enumerate)
qed

lemma fold_fold_concat: "fold (fold f) (map (map g) xss) q = fold f (map g (concat xss)) q"
  by (induction xss arbitrary: q) simp_all

text \<open>The pass that writes, as one insertion of all its rows\<close>

lemma pass_writes:
  assumes "plan_reclamation_pass reg cov uuid gen db models False now b = Inr (r, db')" and "0 < b"
  shows "\<exists>plans. mapE (plan_model reg cov db (utc_datetime (ensure_utc now))) models = Inr plans \<and>
    rp_would_enqueue r = concat (map mp_targets plans) \<and>
    rp_skipped_models r = sort (concat (map mp_skipped plans)) \<and>
    rp_enqueued_count r = length (rp_would_enqueue r) \<and>
    db' = db\<lparr>db_queue := fold insert_queue_row (map (new_queue_row uuid gen (ensure_utc now))
       (enumerate 0 (rp_would_enqueue r))) (db_queue db)\<rparr>"
proof -
  from assms(1) obtain plans where plans:
    "mapE (plan_model reg cov db (utc_datetime (ensure_utc now))) models = Inr plans"
    by (auto simp: plan_reclamation_pass_def Let_def bindE_eq_Inr)
  define ts where "ts = concat (map mp_targets plans)"
  obtain chunks where chunks: "batches b (enumerate 0 ts) = Inr chunks" "concat chunks = enumerate 0 ts"
    using batches_concat [OF assms(2), of "enumerate 0 ts"] by blast
  have n: "sum_list (map length chunks) = length ts"
    using chunks(2) by (metis length_concat length_enumerate)
  note pass = assms(1) [unfolded plan_reclamation_pass_def Let_def plans bindE_simps, folded ts_def]
  show ?thesis
  proof (cases "ts = []")
    case True
    then show ?thesis
      using pass plans by (intro exI [of _ plans]) (auto simp: ts_def [symmetric] simp del: concat_eq_Nil_conv)
  next
    case False
    then show ?thesis using pass plans n by (auto simp: chunks fold_fold_concat ts_def [symmetric])
  qed
qed

text \<open>C8: What a writing pass does to the catalog: only the queue changes, it only grows, its unit
  tuples stay distinct, they are the old ones together with the proposed targets, every new row is
  queued and unattempted, and as many rows are counted as targets were proposed.\<close>

theorem reclamation_pass_effect:
  assumes "plan_reclamation_pass reg cov uuid gen db models False now b = Inr (r, db')" and "0 < b"
    and "distinct (map (target_tuple \<circ> rq_target) (db_queue db))"
  shows "\<exists>new. db' = db\<lparr>db_queue := db_queue db @ new\<rparr> \<and>
    distinct (map (target_tuple \<circ> rq_target) (db_queue db')) \<and>
    (target_tuple \<circ> rq_target) ` set (db_queue db') =
      (target_tuple \<circ> rq_target) ` set (db_queue db) \<union> target_tuple ` set (rp_would_enqueue r) \<and>
    (\<forall>row \<in> set new. rq_status row = ''queued'' \<and> rq_attempt_count row = 0 \<and>
       rq_store_generation row = gen (pst_store_path (rq_target row))) \<and>
    rp_enqueued_count r = length (rp_would_enqueue r)"
proof -
  let ?rows = "map (new_queue_row uuid gen (ensure_utc now)) (enumerate 0 (rp_would_enqueue r))"
  have db': "db' = db\<lparr>db_queue := fold insert_queue_row ?rows (db_queue db)\<rparr>"
    and n: "rp_enqueued_count r = length (rp_would_enqueue r)"
    using pass_writes [OF assms(1,2)] by blast+
  obtain new where new: "fold insert_queue_row ?rows (db_queue db) = db_queue db @ new" "set new \<subseteq> set ?rows"
    using fold_insert_queue_grows by blast
  have "rq_target ` set ?rows = set (rp_would_enqueue r)"
    by (rule new_rows_targets)
  then have rows: "(target_tuple \<circ> rq_target) ` set ?rows = target_tuple ` set (rp_would_enqueue r)"
    by (metis image_comp)
  have "rq_status row = ''queued'' \<and> rq_attempt_count row = 0 \<and>
       rq_store_generation row = gen (pst_store_path (rq_target row))" if row: "row \<in> set new" for row
    using new(2) row by (auto simp: new_queue_row_def)
  then show ?thesis
    using fold_insert_queue_distinct [OF assms(3), of ?rows] fold_insert_queue [of ?rows "db_queue db"]
    unfolding db' n rows by (intro exI [of _ new] conjI) (simp_all add: new(1) [symmetric])
qed

lemma queue_holds_targets:
  assumes "t \<in> set ts"
  shows "target_tuple t \<in> (target_tuple \<circ> rq_target) `
    set (fold insert_queue_row (map (new_queue_row uuid gen now_utc) (enumerate 0 ts)) q)"
proof -
  let ?rows = "map (new_queue_row uuid gen now_utc) (enumerate 0 ts)"
  have "rq_target ` set ?rows = set ts" by (rule new_rows_targets)
  then have "target_tuple t \<in> (target_tuple \<circ> rq_target) ` set ?rows"
    using assms by (metis image_comp image_eqI)
  then show ?thesis unfolding fold_insert_queue by blast
qed

text \<open>Against a queue that holds its targets, a plan proposes nothing.\<close>

lemma plan_model_again:
  assumes "plan_model reg cov db now model = Inr p" and "set (db_queue db) \<subseteq> set q"
    and "\<And>t. t \<in> set (mp_targets p) \<Longrightarrow> target_tuple t \<in> (target_tuple \<circ> rq_target) ` set q"
  shows "\<exists>p'. plan_model reg cov (db\<lparr>db_queue := q\<rparr>) now model = Inr p' \<and>
    mp_skipped p' = mp_skipped p \<and> mp_targets p' = []"
proof -
  from plan_model_queue [OF assms(1,2)] obtain p' where p':
    "plan_model reg cov (db\<lparr>db_queue := q\<rparr>) now model = Inr p'" "mp_skipped p' = mp_skipped p"
    "set (mp_targets p') \<subseteq> set (mp_targets p)" by blast
  have "t \<notin> set (mp_targets p')" for t
  proof
    assume t: "t \<in> set (mp_targets p')"
    with p'(1) obtain n where "get_expected_members cov (norm_key model) (Some 1) = Inr n"
      by (rule plan_model_targetsE) blast+
    from plan_target_new [OF p'(1) t this] assms(3) p'(3) t show False by auto
  qed
  then have "mp_targets p' = []" by (metis last_in_set)
  with p' show ?thesis by blast
qed

lemma plans_again:
  assumes "mapE (plan_model reg cov db now) models = Inr plans" and "set (db_queue db) \<subseteq> set q"
    and "\<And>t. t \<in> set (concat (map mp_targets plans)) \<Longrightarrow> target_tuple t \<in> (target_tuple \<circ> rq_target) ` set q"
  shows "\<exists>plans'. mapE (plan_model reg cov (db\<lparr>db_queue := q\<rparr>) now) models = Inr plans' \<and>
    map mp_skipped plans' = map mp_skipped plans \<and> concat (map mp_targets plans') = []"
  using assms(1,3)
proof (induction models arbitrary: plans)
  case (Cons model models)
  from Cons.prems(1) obtain p ps where p: "plan_model reg cov db now model = Inr p"
    "mapE (plan_model reg cov db now) models = Inr ps" "plans = p # ps" by (auto simp: bindE_eq_Inr)
  from Cons.IH [OF p(2)] Cons.prems(2) obtain ps' where
    "mapE (plan_model reg cov (db\<lparr>db_queue := q\<rparr>) now) models = Inr ps'"
    "map mp_skipped ps' = map mp_skipped ps" "concat (map mp_targets ps') = []"
    unfolding p(3) by auto
  moreover from plan_model_again [OF p(1) assms(2)] Cons.prems(2) obtain p' where
    "plan_model reg cov (db\<lparr>db_queue := q\<rparr>) now model = Inr p'"
    "mp_skipped p' = mp_skipped p" "mp_targets p' = []" unfolding p(3) by auto
  ultimately show ?case by (simp add: p(3))
qed simp

text \<open>C7: Reclamation planning is idempotent: right after a pass has written its targets, a second
  pass at the same time proposes nothing and leaves the catalog unchanged.\<close>

theorem reclamation_pass_idempotent:
  assumes "plan_reclamation_pass reg cov uuid gen db models False now b = Inr (r, db')" and "0 < b"
  shows "\<exists>r'. plan_reclamation_pass reg cov uuid' gen' db' models False now b = Inr (r', db') \<and>
    rp_would_enqueue r' = [] \<and> rp_skipped_models r' = rp_skipped_models r"
proof -
  let ?now = "utc_datetime (ensure_utc now)"
  let ?q = "fold insert_queue_row (map (new_queue_row uuid gen (ensure_utc now))
       (enumerate 0 (rp_would_enqueue r))) (db_queue db)"
  obtain plans where plans: "mapE (plan_model reg cov db ?now) models = Inr plans"
    and enq: "rp_would_enqueue r = concat (map mp_targets plans)"
    and sk: "rp_skipped_models r = sort (concat (map mp_skipped plans))"
    and db': "db' = db\<lparr>db_queue := ?q\<rparr>"
    using pass_writes [OF assms] by blast
  have "set (db_queue db) \<subseteq> set ?q"
    using fold_insert_queue_grows [of _ "db_queue db"] by (metis Un_upper1 set_append)
  from plans_again [OF plans this] queue_holds_targets enq obtain plans' where
    "mapE (plan_model reg cov db' ?now) models = Inr plans'"
    "map mp_skipped plans' = map mp_skipped plans" "concat (map mp_targets plans') = []"
    unfolding db' by metis
  then show ?thesis by (simp add: plan_reclamation_pass_def Let_def sk)
qed

text \<open>One unregistered model never disturbs the others: a pass over a list with such a model is
  the pass over the list without it, failing exactly when that one fails, except that the model is
  reported as skipped.\<close>

theorem unregistered_model_isolated:
  assumes "\<not> is_canonical_lead_horizon_registered reg (norm_key model)"
  shows "plan_reclamation_pass reg cov uuid gen db (ms1 @ model # ms2) True now b =
    bindE (plan_reclamation_pass reg cov uuid gen db (ms1 @ ms2) True now b) (\<lambda>(r, db').
      Inr (r\<lparr>rp_skipped_models := insort (norm_key model) (rp_skipped_models r)\<rparr>, db'))"
proof -
  let ?f = "plan_model reg cov db (utc_datetime (ensure_utc now))"
  have skip: "?f model = Inr (empty_plan\<lparr>mp_skipped := [norm_key model]\<rparr>)"
    using assms by (simp add: plan_model_def Let_def)
  have app: "mapE ?f (xs @ ys) = bindE (mapE ?f xs) (\<lambda>as. bindE (mapE ?f ys) (\<lambda>bs. Inr (as @ bs)))" for xs ys
    by (induction xs) (auto simp: bindE_def split: sum.splits)
  have srt: "sort (as @ m # bs) = insort m (sort (as @ bs))" for m :: string and as bs
    by (induction as) (simp_all add: insort_left_comm)
  show ?thesis
    by (cases "mapE ?f ms1"; cases "mapE ?f ms2")
      (simp_all add: plan_reclamation_pass_def Let_def app skip srt empty_plan_def)
qed

subsection \<open>A concrete catalog\<close>

text \<open>
  Three runs of the deterministic model, planned at hour 24: run \<open>c\<close> (hour 6) is claimed for
  deletion, runs \<open>a\<close> (hour 12) and \<open>b\<close> (hour 18, still being ingested) serve.
\<close>

definition sample_catalog :: catalog where
  "sample_catalog = \<lparr>
     db_versions = [\<lparr>mv_id = ''m1'', mv_model_id = ''gfs'', mv_version_string = ''v1.0''\<rparr>],
     db_runs = map (\<lambda>(r, h, s). \<lparr>mr_id = r, mr_model_version_id = ''m1'', mr_cycle_time = utc_datetime (hours h),
         mr_status = s, mr_zarr_store_path = Some (''s3://b/'' @ r)\<rparr>)
       [(''a'', 12, ''ready''), (''b'', 18, ''processing''), (''c'', 6, ''ready'')],
     db_products = map (\<lambda>(r, l, v). \<lparr>pr_run_id = r, pr_lead_time_hours = l, pr_variable_id = v,
         pr_product_type = ''deterministic''\<rparr>)
       [(''a'', 12, ''temperature_2m''), (''b'', 6, ''temperature_2m''),
        (''b'', 3, ''temperature_2m''), (''c'', 0, ''temperature_2m'')],
     db_member_products = [],
     db_lifecycle = [\<lparr>fl_model_id = ''gfs'', fl_cycle_time = utc_datetime (hours 6),
        fl_deletion_started_at = Some (utc_datetime (hours 20)), fl_deleted_at = None\<rparr>],
     db_queue = []\<rparr>"

definition sample_now :: datetime where "sample_now = utc_datetime (hours 24)"

abbreviation sample_plan_model :: "model_plan result" where
  "sample_plan_model \<equiv> plan_model default_horizons default_coverage sample_catalog sample_now ''gfs''"

lemma sample_plan_tuples:
  "map_sum id (\<lambda>p. map (\<lambda>t. (target_tuple t, pst_cycle_time t, pst_valid_time t)) (mp_targets p))
     sample_plan_model =
     Inr [((''a'', 12, ''temperature_2m'', ''det'', 0), hours 12, hours 24),
          ((''b'', 3, ''temperature_2m'', ''det'', 0), hours 18, hours 21),
          ((''c'', 0, ''temperature_2m'', ''det'', 0), hours 18, hours 6)]"
  by code_simp

lemma sample_targets:
  obtains p ta tb tc where "sample_plan_model = Inr p" "mp_targets p = [ta, tb, tc]"
    "target_tuple ta = (''a'', 12, ''temperature_2m'', ''det'', 0)"
    "target_tuple tb = (''b'', 3, ''temperature_2m'', ''det'', 0)"
    "target_tuple tc = (''c'', 0, ''temperature_2m'', ''det'', 0)"
    "pst_cycle_time tc = hours 18" "pst_valid_time tc = hours 6"
  using sample_plan_tuples by (cases sample_plan_model) (auto simp: map_eq_Cons_conv)

lemma sample_facts:
  "norm_key ''gfs'' = ''gfs''" "get_expected_members default_coverage ''gfs'' (Some 1) = Inr 1"
  "retired_run_ids sample_catalog ''gfs'' = [''c'']"
  "model_serving_start_valid_time default_horizons ''gfs'' sample_now = Inr (hours 24)"
  by code_simp+

text \<open>A defect on record: the targets of a claimed run carry the cycle time of another run.
  In the sample catalog the claimed run starts at hour 6 and its lead-0 target is valid at hour 6,
  but the target's cycle time is hour 18, that of the last run the planner looped over.\<close>

theorem claimed_target_has_foreign_cycle_time:
  "\<exists>p. sample_plan_model = Inr p \<and> (\<exists>t \<in> set (mp_targets p). pst_run_id t = ''c'' \<and>
     pst_lead_time_hours t = 0 \<and> pst_valid_time t = hours 6 \<and> pst_cycle_time t = hours 18)"
proof -
  obtain p ta tb tc where "sample_plan_model = Inr p" "mp_targets p = [ta, tb, tc]"
    "target_tuple tc = (''c'', 0, ''temperature_2m'', ''det'', 0)"
    "pst_cycle_time tc = hours 18" "pst_valid_time tc = hours 6" by (rule sample_targets)
  then show ?thesis by (auto simp: target_tuple_def)
qed

theorem plan_targets_committed_and_new_witness:
  "\<exists>p t. sample_plan_model = Inr p \<and> t \<in> set (mp_targets p) \<and> pst_run_id t = ''a'' \<and>
     target_tuple t \<in> enumerate_committed_unit_tuples sample_catalog (catalog_run_ids sample_catalog ''gfs'') False"
proof -
  obtain p ta tb tc where s: "sample_plan_model = Inr p" "mp_targets p = [ta, tb, tc]"
    "target_tuple ta = (''a'', 12, ''temperature_2m'', ''det'', 0)" by (rule sample_targets)
  from plan_targets_committed_and_new [OF s(1), of ta 1] s show ?thesis
    by (auto simp: sample_facts target_tuple_def)
qed

text \<open>The candidates of the sample at hour 24: run \<open>b\<close> is the newer one.\<close>

lemma sample_protected:
  "case candidates_by_valid default_coverage sample_catalog ''gfs'' 1 of Inl e \<Rightarrow> False | Inr by_valid \<Rightarrow>
    (case protected_candidates default_horizons sample_now ''gfs'' by_valid of
       Inl e \<Rightarrow> False
     | Inr items \<Rightarrow> length items = 1 \<and> fst (hd items) = hours 24 \<and>
        (case select_variable_source (snd (hd items)) ''temperature_2m'' (select_canonical_anchor (snd (hd items))) of
           Some src \<Rightarrow> cc_run_id src = ''b'' \<and> cc_lead_time_hours src = 6 | None \<Rightarrow> False))"
  by code_simp

theorem reclamation_keeps_canonical_sources_witness:
  "\<exists>p t. \<exists>src :: canonical_candidate. sample_plan_model = Inr p \<and> t \<in> set (mp_targets p) \<and>
     target_tuple t = (''a'', 12, ''temperature_2m'', ''det'', 0) \<and> cc_run_id src = ''b'' \<and>
     \<not> (pst_run_id t = cc_run_id src \<and> pst_lead_time_hours t = cc_lead_time_hours src)"
proof -
  obtain p ta tb tc where s: "sample_plan_model = Inr p" "mp_targets p = [ta, tb, tc]"
    "target_tuple ta = (''a'', 12, ''temperature_2m'', ''det'', 0)" by (rule sample_targets)
  have v: "clean_variable ''temperature_2m'' = ''temperature_2m''" by code_simp
  obtain by_valid cands src where c: "candidates_by_valid default_coverage sample_catalog ''gfs'' 1 = Inr by_valid"
    "protected_candidates default_horizons sample_now ''gfs'' by_valid = Inr [(hours 24, cands)]"
    "select_variable_source cands ''temperature_2m'' (select_canonical_anchor cands) = Some src"
    "cc_run_id src = ''b''"
    using sample_protected by (auto split: sum.splits option.splits simp: length_Suc_conv)
  from reclamation_keeps_canonical_sources [OF s(1), of ta 1 by_valid "[(hours 24, cands)]" "hours 24" "hours 24" cands src]
    s c v have "\<not> (pst_run_id ta = cc_run_id src \<and> pst_lead_time_hours ta = cc_lead_time_hours src)"
    by (simp add: sample_facts target_tuple_def)
  with s c show ?thesis by (intro exI [of _ p] exI [of _ ta] exI [of _ src]) simp
qed

lemma sample_run_b:
  "(''b'', \<lparr>rm_cycle_time = hours 18, rm_status = ''processing'', rm_store_path = ''s3://b/b'',
      rm_version_string = ''v1.0''\<rparr>) \<in> set (planable_runs sample_catalog ''gfs'')"
  "model_max_lead_hours default_horizons ''gfs'' (Some ''v1.0'') None = Inr 240"
  "12 \<notin> committed_leads sample_catalog ''gfs'' ''b''"
  by code_simp+

theorem reclamation_keeps_predecessors_witness:
  "\<exists>p t. sample_plan_model = Inr p \<and> t \<in> set (mp_targets p) \<and> pst_run_id t = ''b'' \<and>
     \<not> (pst_variable_code t \<in> set PREDECESSOR_VARIABLE_LIST \<and> pst_lead_time_hours t = 12 - 3)"
proof -
  obtain p ta tb tc where s: "sample_plan_model = Inr p" "mp_targets p = [ta, tb, tc]"
    "target_tuple tb = (''b'', 3, ''temperature_2m'', ''det'', 0)" by (rule sample_targets)
  from reclamation_keeps_predecessors [OF s(1), of tb 1 "hours 24"
      "\<lparr>rm_cycle_time = hours 18, rm_status = ''processing'', rm_store_path = ''s3://b/b'', rm_version_string = ''v1.0''\<rparr>"
      240 12] s sample_run_b
  show ?thesis by (auto simp: sample_facts target_tuple_def TARGET_KIND_MEM_def us_per_hour_def)
qed

abbreviation sample_pass :: "(reclamation_plan_result \<times> catalog) result" where
  "sample_pass \<equiv> plan_reclamation_pass default_horizons default_coverage (\<lambda>i. replicate 32 CHR ''0'') (\<lambda>s. None)
     sample_catalog [''gfs''] False sample_now 1000"

lemma sample_pass_result:
  obtains r db' where "sample_pass = Inr (r, db')" "length (rp_would_enqueue r) = 3"
proof -
  obtain p ta tb tc where s: "sample_plan_model = Inr p" "mp_targets p = [ta, tb, tc]" by (rule sample_targets)
  have now: "utc_datetime (ensure_utc sample_now) = sample_now" by (simp add: sample_now_def)
  obtain chunks where "batches 1000 (enumerate 0 [ta, tb, tc]) = Inr chunks"
    using batches_concat [of 1000] by (metis zero_less_numeral)
  with s have "\<exists>r db'. sample_pass = Inr (r, db') \<and> length (rp_would_enqueue r) = 3"
    by (simp add: plan_reclamation_pass_def Let_def now eval_nat_numeral)
  with that show ?thesis by blast
qed

theorem reclamation_pass_effect_witness:
  "\<exists>r db'. sample_pass = Inr (r, db') \<and> distinct (map (target_tuple \<circ> rq_target) (db_queue db')) \<and>
     rp_enqueued_count r = 3"
proof -
  obtain r db' where r: "sample_pass = Inr (r, db')" "length (rp_would_enqueue r) = 3" by (rule sample_pass_result)
  from reclamation_pass_effect [OF r(1)] r show ?thesis by (auto simp: sample_catalog_def)
qed

theorem reclamation_pass_idempotent_witness:
  "\<exists>r db' r'. sample_pass = Inr (r, db') \<and> length (rp_would_enqueue r) = 3 \<and>
     plan_reclamation_pass default_horizons default_coverage (\<lambda>i. ''x'') (\<lambda>s. None) db' [''gfs''] False
       sample_now 1000 = Inr (r', db') \<and> rp_would_enqueue r' = []"
proof -
  obtain r db' where r: "sample_pass = Inr (r, db')" "length (rp_would_enqueue r) = 3" by (rule sample_pass_result)
  from reclamation_pass_idempotent [OF r(1), of "\<lambda>i. ''x''" "\<lambda>s. None"] r show ?thesis by auto
qed

theorem unregistered_model_isolated_witness:
  "plan_reclamation_pass default_horizons default_coverage (\<lambda>i. ''x'') (\<lambda>s. None) sample_catalog
     ([''gfs''] @ ''icon'' # []) True sample_now 1000 =
   bindE (plan_reclamation_pass default_horizons default_coverage (\<lambda>i. ''x'') (\<lambda>s. None) sample_catalog
     ([''gfs''] @ []) True sample_now 1000) (\<lambda>(r, db').
      Inr (r\<lparr>rp_skipped_models := insort (norm_key ''icon'') (rp_skipped_models r)\<rparr>, db'))"
proof -
  have "\<not> is_canonical_lead_horizon_registered default_horizons (norm_key ''icon'')" by code_simp
  then show ?thesis by (rule unregistered_model_isolated)
qed

end
