(* ===== verification/GcWorker.thy ===== *)
theory GcWorker
  imports GcPlanner
begin

text \<open>
  \<open>ingestion/gc/worker.py\<close>: the worker that deletes the queued units. A pass claims a batch of queue
  rows, groups it by store, and under the shared gate of each store decides again, with the batch
  taken as physically present, which units serving needs; the others are deleted. The state is the
  catalog of \<open>GcPlanner\<close>, the set of stored objects and the counters of the pass. The lock gate, the
  generation of a store and the delete request are parameters. A raised exception ends the pass in
  the state of the last commit.
\<close>

subsection \<open>Objects\<close>

datatype object_id = S3Object string | LocalFile string

text \<open>\<open>os.path.join(base, key)\<close>\<close>

definition os_path_join :: "string \<Rightarrow> string \<Rightarrow> string" where
  "os_path_join base key =
     (if startswith key ''/'' then key
      else if base = [] \<or> endswith base ''/'' then base @ key
      else base @ ''/'' @ key)"

definition object_of :: "string \<Rightarrow> string \<Rightarrow> object_id" where
  "object_of store_path key =
     (if startswith store_path ''s3://''
      then S3Object (py_rstrip_char (CHR ''/'') (drop 5 store_path) @ ''/''
                     @ dropWhile (\<lambda>c. c = CHR ''/'') key)
      else LocalFile (os_path_join
             (if startswith store_path ''file://'' then drop 7 store_path else store_path) key))"

text \<open>A delete request on a list of objects: what is left of the stored objects, whether it raises or not\<close>

type_synonym delete_request = "object_id list \<Rightarrow> object_id set \<Rightarrow> object_id set"

definition delete_physical_object ::
    "delete_request \<Rightarrow> string \<Rightarrow> string \<Rightarrow> object_id set \<Rightarrow> object_id set" where
  "delete_physical_object rm store_path key objs =
     (let x = object_of store_path key in if x \<in> objs then rm [x] objs else objs)"

definition S3_BULK_DELETE_MAX_KEYS :: int where "S3_BULK_DELETE_MAX_KEYS = 1000"

definition delete_physical_objects_batch ::
    "delete_request \<Rightarrow> string \<Rightarrow> string list \<Rightarrow> object_id set \<Rightarrow> object_id set" where
  "delete_physical_objects_batch rm store_path keys objs =
     (let paths = map (object_of store_path) keys in
      if startswith store_path ''s3://''
      then fold rm (map (\<lambda>start. take (nat S3_BULK_DELETE_MAX_KEYS) (drop (nat start) paths))
             (py_range 0 (int (length paths)) S3_BULK_DELETE_MAX_KEYS)) objs
      else fold (\<lambda>x objs. if x \<in> objs then rm [x] objs else objs) paths objs)"

text \<open>The probe of an object; \<open>fails\<close> tells which probes of the object store raise.\<close>

definition physical_object_exists ::
    "(object_id \<Rightarrow> bool) \<Rightarrow> string \<Rightarrow> string \<Rightarrow> object_id set \<Rightarrow> bool" where
  "physical_object_exists fails store_path key objs =
     (let x = object_of store_path key
      in if startswith store_path ''s3://'' \<and> fails x then False else x \<in> objs)"

subsection \<open>Queue rows\<close>

definition RECLAMATION_STATUS_QUEUED :: string where "RECLAMATION_STATUS_QUEUED = ''queued''"
definition RECLAMATION_STATUS_DELETING :: string where "RECLAMATION_STATUS_DELETING = ''deleting''"
definition RECLAMATION_STATUS_DELETED :: string where "RECLAMATION_STATUS_DELETED = ''deleted''"
definition RECLAMATION_STATUS_FAILED :: string where "RECLAMATION_STATUS_FAILED = ''failed''"

lemmas status_defs = RECLAMATION_STATUS_QUEUED_def RECLAMATION_STATUS_DELETING_def
  RECLAMATION_STATUS_DELETED_def RECLAMATION_STATUS_FAILED_def

definition row_unit :: "queue_row \<Rightarrow> unit_tuple" where "row_unit r = target_tuple (rq_target r)"

text \<open>Back to the queue with a reason\<close>

definition requeue :: "string \<Rightarrow> queue_row \<Rightarrow> queue_row" where
  "requeue err r = r\<lparr>rq_status := RECLAMATION_STATUS_QUEUED, rq_lease_expires_at := None,
     rq_last_error := Some err\<rparr>"

text \<open>The session writes changed rows back by primary key.\<close>

definition write_rows :: "queue_row list \<Rightarrow> catalog \<Rightarrow> catalog" where
  "write_rows rows db = db\<lparr>db_queue := map (\<lambda>r.
     case find (\<lambda>n. rq_id n = rq_id r) rows of Some n \<Rightarrow> n | None \<Rightarrow> r) (db_queue db)\<rparr>"

subsection \<open>Claiming\<close>

definition claimable :: "instant \<Rightarrow> queue_row \<Rightarrow> bool" where
  "claimable now_utc r =
     ((rq_status r = RECLAMATION_STATUS_QUEUED
        \<or> rq_status r = RECLAMATION_STATUS_DELETING
          \<and> (case rq_lease_expires_at r of Some l \<Rightarrow> l < now_utc | None \<Rightarrow> False))
      \<and> (case rq_next_retry_at r of None \<Rightarrow> True | Some n \<Rightarrow> n \<le> now_utc))"

text \<open>\<open>locked\<close> holds the identifiers of rows another transaction has locked (\<open>SKIP LOCKED\<close>).\<close>

definition claim_batch :: "string set \<Rightarrow> instant \<Rightarrow> nat \<Rightarrow> catalog \<Rightarrow> queue_row list" where
  "claim_batch locked now_utc b_size db =
     take b_size (sort_key (\<lambda>r. (pst_cycle_time (rq_target r), rq_created_at r))
       (filter (\<lambda>r. claimable now_utc r \<and> rq_id r \<notin> locked) (db_queue db)))"

definition stamp_claim :: "instant \<Rightarrow> instant \<Rightarrow> queue_row \<Rightarrow> queue_row" where
  "stamp_claim now_utc lease_until r =
     r\<lparr>rq_status := RECLAMATION_STATUS_DELETING, rq_lease_expires_at := Some lease_until,
       rq_attempt_count := rq_attempt_count r + 1, rq_updated_at := now_utc\<rparr>"

definition add_to_store ::
    "queue_row \<Rightarrow> (string \<times> queue_row list) list \<Rightarrow> (string \<times> queue_row list) list" where
  "add_to_store r acc = (let s = pst_store_path (rq_target r) in
     AList.update s ((case map_of acc s of Some rs \<Rightarrow> rs | None \<Rightarrow> []) @ [r]) acc)"

definition claimed_by_store :: "queue_row list \<Rightarrow> (string \<times> queue_row list) list" where
  "claimed_by_store rows = fold add_to_store rows []"

subsection \<open>The generation gate\<close>

text \<open>One row: its new value and whether it is deferred\<close>

definition generation_gate_row :: "string option \<Rightarrow> instant \<Rightarrow> queue_row \<Rightarrow> queue_row \<times> bool" where
  "generation_gate_row current now_utc t = (case rq_store_generation t of
      None \<Rightarrow> (t\<lparr>rq_store_generation := current, rq_updated_at := now_utc\<rparr>, False)
    | Some g \<Rightarrow> (case current of
          None \<Rightarrow> ((requeue ''generation_gate_manifest_unavailable'' t)\<lparr>rq_updated_at := now_utc\<rparr>, True)
        | Some c \<Rightarrow>
            if g \<noteq> c
            then ((requeue ''generation_gate_replaced_since_observation''
                    (t\<lparr>rq_store_generation := current\<rparr>))\<lparr>rq_updated_at := now_utc\<rparr>, True)
            else (t, False)))"

definition apply_generation_evidence_gate ::
    "string option \<Rightarrow> instant \<Rightarrow> queue_row list \<Rightarrow> queue_row list \<times> string set" where
  "apply_generation_evidence_gate current now_utc targets =
     (let outcomes = map (generation_gate_row current now_utc) targets
      in (map fst outcomes, set (map (\<lambda>(r, d). rq_id r) (filter snd outcomes))))"

subsection \<open>Counterfactual revalidation\<close>

record worker_env =
  we_horizons :: horizon_registry
  we_coverage :: coverage_state
  we_regions :: region_registry
  we_generation :: "string \<Rightarrow> string option"
  we_gate :: "string \<Rightarrow> unit result"
  we_rm :: delete_request
  we_version :: string
  we_delete_enabled :: bool
  we_now :: instant

text \<open>The rows that fence: in deletion, deleted or quarantined, and not of the claimed batch\<close>

definition fence_keys :: "catalog \<Rightarrow> string set \<Rightarrow> unit_tuple list" where
  "fence_keys db claimed_ids = map row_unit (filter (\<lambda>r.
     rq_status r \<in> {RECLAMATION_STATUS_DELETING, RECLAMATION_STATUS_DELETED, RECLAMATION_STATUS_FAILED}
     \<and> rq_id r \<notin> claimed_ids) (db_queue db))"

definition worker_runs :: "catalog \<Rightarrow> string \<Rightarrow> string \<Rightarrow> (string \<times> run_meta) list" where
  "worker_runs db m_id version_string = fold (\<lambda>(r, meta). AList.update r meta)
     (filter (\<lambda>(r, meta). rm_version_string meta = version_string) (eligible_runs db m_id)) []"

definition worker_by_run_lead ::
    "catalog \<Rightarrow> (string \<times> run_meta) list \<Rightarrow> ((string \<times> int) \<times> lead_record) list" where
  "worker_by_run_lead db runs = fold add_product (product_rows db (map fst runs)) []"

definition worker_candidate_of ::
    "coverage_state \<Rightarrow> catalog \<Rightarrow> (string \<times> run_meta) list \<Rightarrow> int \<Rightarrow> (string \<times> int) \<times> lead_record
     \<Rightarrow> canonical_candidate option result" where
  "worker_candidate_of cov db runs expected_members item = (case item of ((r, lead), lrec) \<Rightarrow>
     (case map_of runs r of
        None \<Rightarrow> Inl (KeyError r)
      | Some meta \<Rightarrow>
          let cand = (\<lambda>m_indices. CanonicalCandidate (utc_datetime (rm_cycle_time meta)) lead r
                (rm_store_path meta) (lr_product_types lrec) (lr_variables lrec) m_indices (rm_status meta))
          in if 1 < expected_members then
               let raw_m = members_of db (map fst runs) r lead in
               bindE (is_lead_servable cov (int (length raw_m)) expected_members None)
                 (\<lambda>ok. if \<not> ok \<or> lr_product_types lrec = {} then Inr None
                       else Inr (Some (cand (Some (sort raw_m)))))
             else Inr (Some (cand None))))"

definition worker_candidates ::
    "coverage_state \<Rightarrow> catalog \<Rightarrow> (string \<times> run_meta) list \<Rightarrow> int
     \<Rightarrow> (instant \<times> canonical_candidate list) list result" where
  "worker_candidates cov db runs expected_members =
     bindE (mapE (worker_candidate_of cov db runs expected_members) (worker_by_run_lead db runs))
       (\<lambda>cs. Inr (map (\<lambda>(vt, l). (vt, sort_key cc_lead_time_hours l))
          (fold add_candidate (somes cs) [])))"

record necessity =
  ny_anchor :: "unit_tuple set"
  ny_source :: "unit_tuple set"
  ny_predecessor :: "unit_tuple set"

definition anchor_necessary :: "bool \<Rightarrow> canonical_candidate \<Rightarrow> unit_tuple set" where
  "anchor_necessary is_ensemble a =
     (if 0 < cc_lead_time_hours a
      then (\<Union>v \<in> cc_variables a. set (source_units is_ensemble a v))
      else (\<Union>v \<in> {v \<in> cc_variables a. \<not> (requires_lead0_display_fallback (Some v)
                 \<or> is_precipitation_companion (Some v))}.
              set (source_units is_ensemble (a\<lparr>cc_lead_time_hours := 0\<rparr>) v)))"

definition sources_necessary ::
    "bool \<Rightarrow> string list \<Rightarrow> instant list \<Rightarrow> canonical_resolution_result \<Rightarrow> unit_tuple list" where
  "sources_necessary is_ensemble vars vts res =
     concat (map (\<lambda>vt. concat (map (\<lambda>v. case crr_variable_sources res (v, vt) of
         Some (Some src) \<Rightarrow> source_units is_ensemble src v | _ \<Rightarrow> [])
       (''precipitation_amount_3h'' # vars))) vts)"

definition worker_predecessors ::
    "catalog \<Rightarrow> (string \<times> run_meta) list \<Rightarrow> int \<Rightarrow> int \<Rightarrow> instant \<Rightarrow> unit_tuple list result" where
  "worker_predecessors db runs expected_members m_max_lead min_recovery_cycle =
     (let leads = (\<lambda>r. snd ` {k \<in> fst ` set (worker_by_run_lead db runs). fst k = r}) in
      bindE (mapE (\<lambda>(r, meta).
          if min_recovery_cycle \<le> rm_cycle_time meta \<and> rm_status meta \<noteq> ''ready''
          then bindE (mapE (\<lambda>p_var.
                 bindE (get_variable_temporal_metadata (Some p_var)) (\<lambda>md.
                   if vtm_reset_period_hours md \<le> vtm_interval_width_hours md then Inr []
                   else bindE (mapE (predecessor_lead_holds expected_members (leads r) r p_var md)
                          (py_range (vtm_reset_period_hours md) (m_max_lead + 1) (vtm_reset_period_hours md)))
                        (\<lambda>hs. Inr (concat hs))))
                 PREDECESSOR_VARIABLE_LIST) (\<lambda>hs. Inr (concat hs))
          else Inr []) runs)
        (\<lambda>hs. Inr (concat hs)))"

definition counterfactual_necessity ::
    "worker_env \<Rightarrow> catalog \<Rightarrow> string set \<Rightarrow> string \<Rightarrow> queue_row list \<Rightarrow> necessity result" where
  "counterfactual_necessity env db claimed_ids m_id targets =
     (let reg = we_horizons env; cov = we_coverage env; runs = worker_runs db m_id (we_version env) in
      bindE (model_serving_start_valid_time reg m_id (utc_datetime (we_now env))) (\<lambda>serving_start.
      bindE (model_max_lead_hours reg m_id None None) (\<lambda>m_max_lead.
      bindE (get_expected_members cov m_id (Some 1)) (\<lambda>expected_members.
      bindE (worker_candidates cov db runs expected_members) (\<lambda>cands.
      bindE (filter_candidates_by_fence_index cov cands (build_fence_index (fence_keys db claimed_ids))
               (1 < expected_members) expected_members) (\<lambda>filtered_cands.
      bindE (worker_predecessors db runs expected_members m_max_lead (serving_start - hours m_max_lead)) (\<lambda>pred.
        let vars = planned_variables (map rq_target targets);
            vts = map fst filtered_cands;
            res = select_canonical_sources_bulk filtered_cands (Some vars) None (Some serving_start)
        in Inr \<lparr>ny_anchor = (\<Union>vt \<in> set vts. case crr_anchors res vt of
                   Some a \<Rightarrow> anchor_necessary (1 < expected_members) a | None \<Rightarrow> {}),
                ny_source = set (sources_necessary (1 < expected_members) vars vts res),
                ny_predecessor = set pred\<rparr>)))))))"

text \<open>\<open>necessary_tuples.get(u)\<close>: a later loop overwrites the reason of an earlier one.\<close>

definition necessary_reason :: "necessity \<Rightarrow> unit_tuple \<Rightarrow> string option" where
  "necessary_reason ny u =
     (if u \<in> ny_predecessor ny then Some ''predecessor''
      else if u \<in> ny_source ny then Some ''variable_source''
      else if u \<in> ny_anchor ny then Some ''anchor'' else None)"

subsection \<open>Wind pairs\<close>

definition is_wind_component :: "string \<Rightarrow> bool" where
  "is_wind_component v = (v \<in> {''wind_u_10m'', ''wind_v_10m''})"

definition counterpart_var :: "string \<Rightarrow> string" where
  "counterpart_var v = (if v = ''wind_u_10m'' then ''wind_v_10m'' else ''wind_u_10m'')"

text \<open>The unit of the other component\<close>

definition counterpart_unit :: "unit_tuple \<Rightarrow> unit_tuple" where
  "counterpart_unit u = (case u of (r, lead, v, kind, mem) \<Rightarrow> (r, lead, counterpart_var v, kind, mem))"

definition unit_variable :: "unit_tuple \<Rightarrow> string" where
  "unit_variable u = (case u of (r, lead, v, kind, mem) \<Rightarrow> v)"

text \<open>The status the catalog holds for a unit (the unit is unique in the queue)\<close>

definition unit_status :: "catalog \<Rightarrow> unit_tuple \<Rightarrow> string option" where
  "unit_status db u = map_option rq_status (find (\<lambda>r. row_unit r = u) (db_queue db))"

definition deferred_pair :: "catalog \<Rightarrow> necessity \<Rightarrow> queue_row list \<Rightarrow> queue_row \<Rightarrow> bool" where
  "deferred_pair db ny targets t =
     (let u = row_unit t; other = counterpart_unit u in
      is_wind_component (unit_variable u) \<and>
      (necessary_reason ny u \<noteq> None
       \<or> (if other \<in> row_unit ` set targets then necessary_reason ny other \<noteq> None
          else unit_status db other \<noteq> Some RECLAMATION_STATUS_DELETED)))"

subsection \<open>One store\<close>

text \<open>The decision on one target: its new value, whether it is authorised, whether it counts as held\<close>

definition decide_target ::
    "worker_env \<Rightarrow> necessity \<Rightarrow> bool \<Rightarrow> queue_row \<Rightarrow> queue_row \<times> bool \<times> bool" where
  "decide_target env ny deferred t =
     (if deferred
      then ((requeue ''wind_pair_eligibility_atomicity_deferred'' t)\<lparr>rq_updated_at := we_now env\<rparr>, False, True)
      else (case necessary_reason ny (row_unit t) of
          Some reason \<Rightarrow>
            ((requeue (''counterfactual_revalidation_abort: '' @ reason) t)\<lparr>rq_updated_at := we_now env\<rparr>,
             False, True)
        | None \<Rightarrow>
            if \<not> we_delete_enabled env
            then ((requeue ''deletion_disabled'' t)\<lparr>rq_updated_at := we_now env\<rparr>, False, False)
            else (t, True, False)))"

definition mark_deleted :: "instant \<Rightarrow> queue_row \<Rightarrow> queue_row" where
  "mark_deleted now_utc t = t\<lparr>rq_status := RECLAMATION_STATUS_DELETED, rq_reclaimed_at := Some now_utc,
     rq_lease_expires_at := None, rq_last_error := None, rq_updated_at := now_utc\<rparr>"

record worker_state =
  ws_db :: catalog
  ws_objects :: "object_id set"
  ws_deleted :: nat
  ws_revalidated :: nat
  ws_markers :: nat

text \<open>The region of a unit\<close>

definition row_region :: "queue_row \<Rightarrow> string \<times> int \<times> string \<times> int" where
  "row_region r = (case row_unit r of (run, lead, v, kind, mem) \<Rightarrow> (run, lead, kind, mem))"

definition run_version :: "catalog \<Rightarrow> string \<Rightarrow> string \<Rightarrow> string" where
  "run_version db version_string r_id = (case find (\<lambda>r. mr_id r = r_id) (db_runs db) of
      None \<Rightarrow> version_string
    | Some r \<Rightarrow> (case find (\<lambda>v. mv_id v = mr_model_version_id r) (db_versions db) of
          None \<Rightarrow> version_string
        | Some v \<Rightarrow> if mv_version_string v = [] then version_string else mv_version_string v))"

definition deleted_variables :: "catalog \<Rightarrow> string \<times> int \<times> string \<times> int \<Rightarrow> string set" where
  "deleted_variables db region = (unit_variable \<circ> row_unit) `
     {r \<in> set (db_queue db). row_region r = region \<and> rq_status r = RECLAMATION_STATUS_DELETED}"

text \<open>The loop body over the regions of the deleted targets\<close>

definition clean_marker ::
    "worker_env \<Rightarrow> string \<Rightarrow> string \<Rightarrow> string \<times> int \<times> string \<times> int \<Rightarrow> worker_state
     \<Rightarrow> worker_state result" where
  "clean_marker env m_id store_path region w = (case region of (r_id, lead, kind, mem) \<Rightarrow>
     (case get_expected_region_variables (we_regions env) m_id kind
             (Some (run_version (ws_db w) (we_version env) r_id)) None of
        Inl e \<Rightarrow> Inr w
      | Inr expected_vars \<Rightarrow>
          if can_delete_region_marker expected_vars (deleted_variables (ws_db w) region)
          then bindE (make_region_marker_relative_key kind lead mem) (\<lambda>marker_key.
                 Inr (w\<lparr>ws_objects := delete_physical_object (we_rm env) store_path marker_key (ws_objects w),
                        ws_markers := Suc (ws_markers w)\<rparr>))
          else Inr w))"

text \<open>A loop over a state whose body may raise: the state reached is kept.\<close>

fun run_each :: "('a \<Rightarrow> 's \<Rightarrow> unit result \<times> 's) \<Rightarrow> 'a list \<Rightarrow> 's \<Rightarrow> unit result \<times> 's" where
  "run_each f [] w = (Inr (), w)"
| "run_each f (x # xs) w = (case f x w of
     (Inl e, w') \<Rightarrow> (Inl e, w') | (Inr u, w') \<Rightarrow> run_each f xs w')"

definition clean_marker_step ::
    "worker_env \<Rightarrow> string \<Rightarrow> string \<Rightarrow> string \<times> int \<times> string \<times> int \<Rightarrow> worker_state
     \<Rightarrow> unit result \<times> worker_state" where
  "clean_marker_step env m_id store_path region w =
     (case clean_marker env m_id store_path region w of
        Inl e \<Rightarrow> (Inl e, w) | Inr w' \<Rightarrow> (Inr (), w'))"

text \<open>Decision, deletion and marker cleanup for the targets that passed the generation gate\<close>

definition reclaim_targets ::
    "worker_env \<Rightarrow> string \<Rightarrow> string \<Rightarrow> necessity \<Rightarrow> queue_row list \<Rightarrow> worker_state
     \<Rightarrow> unit result \<times> worker_state" where
  "reclaim_targets env store_path m_id ny targets w =
     (let decided = map (\<lambda>t. decide_target env ny (deferred_pair (ws_db w) ny targets t) t) targets;
          authorized = map fst (filter (\<lambda>(t, a, h). a) decided);
          rows = map (\<lambda>(t, a, h). if a then mark_deleted (we_now env) t else t) decided;
          w1 = w\<lparr>ws_db := write_rows rows (ws_db w),
                 ws_objects := delete_physical_objects_batch (we_rm env) store_path
                   (map (pst_physical_key \<circ> rq_target) authorized) (ws_objects w),
                 ws_deleted := ws_deleted w + length authorized,
                 ws_revalidated := ws_revalidated w + length (filter (\<lambda>(t, a, h). h) decided)\<rparr>
      in run_each (clean_marker_step env m_id store_path) (remdups (map row_region authorized)) w1)"

definition find_lifecycle :: "catalog \<Rightarrow> string \<Rightarrow> instant \<Rightarrow> lifecycle_row option" where
  "find_lifecycle db m_id c_utc =
     find (\<lambda>l. fl_model_id l = m_id \<and> ensure_utc (fl_cycle_time l) = c_utc) (db_lifecycle db)"

definition process_store ::
    "worker_env \<Rightarrow> string set \<Rightarrow> string \<times> queue_row list \<Rightarrow> worker_state \<Rightarrow> unit result \<times> worker_state" where
  "process_store env claimed_ids item w = (case item of (store_path, targets) \<Rightarrow>
     (case we_gate env store_path of
        Inl e \<Rightarrow>
          if e = DomainError ''LockTimeoutError'' ''timed out''
          then (Inr (), w\<lparr>ws_db := write_rows (map (requeue ''store_gate_timeout'') targets) (ws_db w)\<rparr>)
          else (Inl e, w)
      | Inr u \<Rightarrow>
          let m_id = pst_model_id (rq_target (hd targets));
              c_utc = pst_cycle_time (rq_target (hd targets))
          in if (case find_lifecycle (ws_db w) m_id c_utc of
                   Some lc \<Rightarrow> fl_deleted_at lc \<noteq> None | None \<Rightarrow> False)
          then (Inr (), w\<lparr>ws_db := write_rows (map (requeue ''cycle_already_tombstoned'') targets) (ws_db w)\<rparr>)
          else
            let (gated, deferred) = apply_generation_evidence_gate
                  (we_generation env store_path) (we_now env) targets;
                w1 = (if deferred \<noteq> {}
                      then w\<lparr>ws_db := write_rows gated (ws_db w),
                             ws_revalidated := ws_revalidated w + card deferred\<rparr>
                      else w);
                live = filter (\<lambda>t. rq_id t \<notin> deferred) gated
            in if deferred \<noteq> {} \<and> live = [] then (Inr (), w1)
               else (case counterfactual_necessity env (ws_db w1) claimed_ids m_id live of
                       Inl e \<Rightarrow> (Inl e, w1)
                     | Inr ny \<Rightarrow> reclaim_targets env store_path m_id ny live w1)))"

subsection \<open>The pass\<close>

text \<open>The claim is committed before the stores are processed; the counters of the result are those of
  the final state and \<open>failed_count\<close> is the constant 0 of the code.\<close>

definition run_reclamation_worker_pass ::
    "worker_env \<Rightarrow> string set \<Rightarrow> nat \<Rightarrow> int \<Rightarrow> catalog \<Rightarrow> object_id set \<Rightarrow> unit result \<times> worker_state" where
  "run_reclamation_worker_pass env locked b_size lease_microseconds db objs =
     (let claimed_rows = claim_batch locked (we_now env) b_size db;
          w0 = \<lparr>ws_db = db, ws_objects = objs, ws_deleted = 0, ws_revalidated = 0, ws_markers = 0\<rparr>
      in if claimed_rows = [] then (Inr (), w0)
         else
           let stamped = map (stamp_claim (we_now env) (we_now env + lease_microseconds)) claimed_rows
           in run_each (process_store env (rq_id ` set claimed_rows)) (claimed_by_store stamped)
                (w0\<lparr>ws_db := write_rows stamped db\<rparr>))"

subsection \<open>Recovery and purge\<close>

definition recoverable :: "instant \<Rightarrow> string option \<Rightarrow> string option \<Rightarrow> queue_row \<Rightarrow> bool" where
  "recoverable now_utc model_id run_id r =
     (rq_status r \<in> {RECLAMATION_STATUS_QUEUED, RECLAMATION_STATUS_DELETING, RECLAMATION_STATUS_FAILED}
      \<and> (case rq_lease_expires_at r of None \<Rightarrow> True | Some l \<Rightarrow> l \<le> now_utc)
      \<and> (case model_id of None \<Rightarrow> True | Some m \<Rightarrow> pst_model_id (rq_target r) = norm_key m)
      \<and> (case run_id of None \<Rightarrow> True | Some i \<Rightarrow> pst_run_id (rq_target r) = i))"

definition recover_row :: "(object_id \<Rightarrow> bool) \<Rightarrow> instant \<Rightarrow> object_id set \<Rightarrow> queue_row \<Rightarrow> queue_row" where
  "recover_row fails now_utc objs r =
     (if \<not> physical_object_exists fails (pst_store_path (rq_target r)) (pst_physical_key (rq_target r)) objs
      then r\<lparr>rq_status := RECLAMATION_STATUS_DELETED, rq_reclaimed_at := Some now_utc,
             rq_lease_expires_at := None, rq_next_retry_at := None, rq_last_error := None,
             rq_updated_at := now_utc\<rparr>
      else r\<lparr>rq_status := RECLAMATION_STATUS_QUEUED, rq_attempt_count := 0,
             rq_lease_expires_at := None, rq_next_retry_at := None, rq_last_error := None,
             rq_updated_at := now_utc\<rparr>)"

definition requeue_failed_reclamation_targets ::
    "(object_id \<Rightarrow> bool) \<Rightarrow> object_id set \<Rightarrow> string option \<Rightarrow> string option \<Rightarrow> instant \<Rightarrow> catalog
     \<Rightarrow> nat \<times> catalog" where
  "requeue_failed_reclamation_targets fails objs model_id run_id now_utc db =
     (let sel = recoverable now_utc model_id run_id in
      (length (filter sel (db_queue db)),
       db\<lparr>db_queue := map (\<lambda>r. if sel r then recover_row fails now_utc objs r else r) (db_queue db)\<rparr>))"

definition purgeable :: "instant \<Rightarrow> queue_row \<Rightarrow> bool" where
  "purgeable cutoff r = (rq_status r = RECLAMATION_STATUS_DELETED
     \<and> (case rq_reclaimed_at r of Some t \<Rightarrow> t < cutoff | None \<Rightarrow> False))"

definition purge_batch :: "instant \<Rightarrow> nat \<Rightarrow> queue_row list \<Rightarrow> string list" where
  "purge_batch cutoff b_size q =
     map rq_id (take b_size (sort_key (\<lambda>r. the (rq_reclaimed_at r)) (filter (purgeable cutoff) q)))"

text \<open>The loop over the batches, with fuel: it gives the queue, the rows removed and the batches.\<close>

fun purge_loop ::
    "nat \<Rightarrow> nat option \<Rightarrow> instant \<Rightarrow> nat \<Rightarrow> queue_row list \<Rightarrow> nat \<Rightarrow> nat
     \<Rightarrow> (queue_row list \<times> nat \<times> nat) option" where
  "purge_loop 0 max_batches cutoff b_size q deleted n = None"
| "purge_loop (Suc fuel) max_batches cutoff b_size q deleted n =
     (if (case max_batches of None \<Rightarrow> True | Some m \<Rightarrow> n < m)
      then (let ids = purge_batch cutoff b_size q in
            if ids = [] then Some (q, deleted, n)
            else purge_loop fuel max_batches cutoff b_size (filter (\<lambda>r. rq_id r \<notin> set ids) q)
                   (deleted + length ids) (Suc n))
      else Some (q, deleted, n))"

record queue_purge_result =
  qp_deleted_rows :: nat
  qp_batches :: nat
  qp_oldest_remaining :: "instant option"

text \<open>\<open>func.min\<close> over the present values\<close>

definition oldest_reclaimed :: "queue_row list \<Rightarrow> instant option" where
  "oldest_reclaimed q =
     (case somes (map rq_reclaimed_at (filter (\<lambda>r. rq_status r = RECLAMATION_STATUS_DELETED) q)) of
        [] \<Rightarrow> None | t # ts \<Rightarrow> Some (fold min ts t))"

text \<open>\<open>older_than\<close> is the retention window in microseconds.\<close>

definition purge_reclaimed_queue_rows ::
    "nat \<Rightarrow> int \<Rightarrow> int \<Rightarrow> int option \<Rightarrow> instant \<Rightarrow> catalog \<Rightarrow> (queue_purge_result \<times> catalog) result option" where
  "purge_reclaimed_queue_rows fuel older_than batch_size max_batches now_utc db =
     (if older_than < 0 then Some (Inl (ValueError ''older_than_days must be >= 0''))
      else if (case max_batches of Some m \<Rightarrow> m < 1 | None \<Rightarrow> False)
      then Some (Inl (ValueError ''max_batches must be >= 1''))
      else if batch_size < 1 then Some (Inl (ValueError ''batch_size must be >= 1''))
      else map_option (\<lambda>(q, deleted, n).
             Inr (\<lparr>qp_deleted_rows = deleted, qp_batches = n, qp_oldest_remaining = oldest_reclaimed q\<rparr>,
                  db\<lparr>db_queue := q\<rparr>))
           (purge_loop fuel (map_option nat max_batches) (now_utc - older_than)
              (nat batch_size) (db_queue db) 0 0))"

end
