(* ===== verification/GcWorkerSafety.thy ===== *)
theory GcWorkerSafety
  imports GcWorker GcPass
begin

text \<open>
  What a worker pass of \<open>GcWorker\<close> does to the queue and the object store. Every change of the queue
  is an overwriting of rows by identifier; the pass is taken apart into the claim, one step per store
  and the decision on one target, and the properties follow from the step at which a row is deleted.
\<close>

subsection \<open>Overwriting rows\<close>

definition overwrite :: "queue_row list \<Rightarrow> queue_row \<Rightarrow> queue_row" where
  "overwrite rows r = (case find (\<lambda>n. rq_id n = rq_id r) rows of Some n \<Rightarrow> n | None \<Rightarrow> r)"

lemma write_rows_alt: "write_rows rows db = db\<lparr>db_queue := map (overwrite rows) (db_queue db)\<rparr>"
  by (simp add: write_rows_def overwrite_def [abs_def])

lemma write_rows_queue [simp]: "db_queue (write_rows rows db) = map (overwrite rows) (db_queue db)"
  by (simp add: write_rows_alt)

lemma overwrite_cases:
  fixes rows r
  obtains (kept) "overwrite rows r = r" "rq_id r \<notin> rq_id ` set rows"
  | (new) n where "n \<in> set rows" "rq_id n = rq_id r" "overwrite rows r = n"
proof (cases "find (\<lambda>n. rq_id n = rq_id r) rows")
  case None
  then have "overwrite rows r = r" by (simp add: overwrite_def)
  with None show ?thesis by (intro kept) (auto simp: find_None_iff)
next
  case (Some n)
  then have "n \<in> set rows" "rq_id n = rq_id r" by (auto simp: find_Some_iff)
  with Some new show ?thesis by (simp add: overwrite_def)
qed

lemma overwrite_id [simp]: "rq_id (overwrite rows r) = rq_id r"
  by (rule overwrite_cases [of rows r]) auto

lemma overwrite_ids [simp]: "map rq_id (map (overwrite rows) q) = map rq_id q"
  by simp

lemma overwrite_other: "rq_id r \<notin> rq_id ` set rows \<Longrightarrow> overwrite rows r = r"
  by (rule overwrite_cases [of rows r]) (auto intro: rev_image_eqI)

lemma overwrite_twice: "overwrite rows2 (overwrite rows1 r) = overwrite (rows2 @ rows1) r"
proof (cases "find (\<lambda>n. rq_id n = rq_id r) rows2")
  case None
  then have "find (\<lambda>n. rq_id n = rq_id r) (rows2 @ rows1) = find (\<lambda>n. rq_id n = rq_id r) rows1"
    by (induction rows2) (auto split: if_splits)
  moreover have "find (\<lambda>n. rq_id n = rq_id (overwrite rows1 r)) rows2 = None" using None by simp
  ultimately show ?thesis by (simp add: overwrite_def [of rows2] overwrite_def [of "rows2 @ rows1"]) (simp add: overwrite_def)
next
  case (Some n)
  then have "find (\<lambda>n. rq_id n = rq_id r) (rows2 @ rows1) = Some n"
    by (induction rows2) (auto split: if_splits)
  with Some show ?thesis by (simp add: overwrite_def [of rows2] overwrite_def [of "rows2 @ rows1"])
qed

lemma overwrite_skip: "rq_id r \<notin> rq_id ` set rows \<Longrightarrow> overwrite (rows @ rows') r = overwrite rows' r"
  using overwrite_twice [of rows rows' r] overwrite_other [of "overwrite rows' r" rows] by simp

lemma write_rows_twice: "write_rows rows2 (write_rows rows1 db) = write_rows (rows2 @ rows1) db"
  by (simp add: write_rows_alt overwrite_twice)

lemma write_rows_Nil: "write_rows [] db = db"
proof -
  have "overwrite [] = (\<lambda>r. r)" by (auto simp: overwrite_def)
  then show ?thesis by (simp add: write_rows_alt)
qed

lemma overwrite_found:
  assumes "n \<in> set rows" "distinct (map rq_id rows)" "rq_id n = rq_id r"
  shows "overwrite rows r = n"
proof (cases rule: overwrite_cases [of rows r])
  case kept
  then show ?thesis using assms by (metis image_eqI)
next
  case (new n')
  then have "n' = n" using assms by (metis distinct_map inj_on_def)
  with new show ?thesis by simp
qed

text \<open>The rows outside the claimed batch fence alike after the claimed rows are overwritten.\<close>

lemma fence_keys_overwrite:
  assumes "rq_id ` set rows \<subseteq> ids"
  shows "fence_keys (write_rows rows db) ids = fence_keys db ids"
proof -
  have "map row_unit (filter (\<lambda>r. Q (rq_status r) \<and> rq_id r \<notin> ids) (map (overwrite rows) q)) =
      map row_unit (filter (\<lambda>r. Q (rq_status r) \<and> rq_id r \<notin> ids) q)" for q Q
  proof (induction q)
    case (Cons r q)
    show ?case
    proof (cases "rq_id r \<in> ids")
      case False
      then have "overwrite rows r = r" using assms by (intro overwrite_other) blast
      with Cons show ?thesis by simp
    qed (use Cons in simp)
  qed simp
  from this [of "\<lambda>s. s \<in> {RECLAMATION_STATUS_DELETING, RECLAMATION_STATUS_DELETED, RECLAMATION_STATUS_FAILED}"]
  show ?thesis by (simp only: fence_keys_def write_rows_queue)
qed

lemma necessity_overwrite:
  assumes "rq_id ` set rows \<subseteq> ids"
  shows "counterfactual_necessity env (write_rows rows db) ids = counterfactual_necessity env db ids"
proof -
  have "worker_runs (db\<lparr>db_queue := q\<rparr>) = worker_runs db"
    "worker_candidates cov (db\<lparr>db_queue := q\<rparr>) = worker_candidates cov db"
    "worker_predecessors (db\<lparr>db_queue := q\<rparr>) = worker_predecessors db" for q cov
    unfolding worker_runs_def worker_candidates_def worker_candidate_of_def worker_predecessors_def
      worker_by_run_lead_def queue_irrelevant by (rule refl)+
  then have "worker_runs (write_rows rows db) = worker_runs db"
    "worker_candidates cov (write_rows rows db) = worker_candidates cov db"
    "worker_predecessors (write_rows rows db) = worker_predecessors db" for cov
    by (simp_all add: write_rows_alt)
  then show ?thesis
    unfolding counterfactual_necessity_def fence_keys_overwrite [OF assms] by (intro ext) simp
qed

subsection \<open>Grouping by store\<close>

abbreviation row_store :: "queue_row \<Rightarrow> string" where "row_store r \<equiv> pst_store_path (rq_target r)"

lemma fold_add_to_store:
  "map_of (fold add_to_store rows acc) s =
     (let new = filter (\<lambda>r. row_store r = s) rows in
      case map_of acc s of Some old \<Rightarrow> Some (old @ new) | None \<Rightarrow> if new = [] then None else Some new)"
  by (induction rows arbitrary: acc)
     (auto simp: add_to_store_def Let_def update_conv split: option.splits)

lemma distinct_add_to_store:
  "distinct (map fst acc) \<Longrightarrow> distinct (map fst (fold add_to_store rows acc))"
  by (induction rows arbitrary: acc) (simp_all add: add_to_store_def Let_def distinct_update)

lemma claimed_by_store_group:
  assumes "(s, ts) \<in> set (claimed_by_store rows)"
  shows "ts = filter (\<lambda>r. row_store r = s) rows" "ts \<noteq> []"
proof -
  have "distinct (map fst (claimed_by_store rows))"
    by (simp add: claimed_by_store_def distinct_add_to_store)
  then have "map_of (claimed_by_store rows) s = Some ts" using assms by simp
  then show "ts = filter (\<lambda>r. row_store r = s) rows" "ts \<noteq> []"
    by (auto simp: claimed_by_store_def fold_add_to_store Let_def split: if_splits)
qed

lemma claimed_by_store_distinct: "distinct (map fst (claimed_by_store rows))"
  by (simp add: claimed_by_store_def distinct_add_to_store)

lemma claimed_by_store_covers:
  assumes "r \<in> set rows" shows "\<exists>ts. (row_store r, ts) \<in> set (claimed_by_store rows) \<and> r \<in> set ts"
proof -
  have "map_of (claimed_by_store rows) (row_store r) = Some (filter (\<lambda>x. row_store x = row_store r) rows)"
    using assms by (auto simp: claimed_by_store_def fold_add_to_store Let_def filter_empty_conv)
  from map_of_SomeD [OF this] assms show ?thesis by fastforce
qed

subsection \<open>Loops\<close>

text \<open>The step at which a property becomes true\<close>

lemma run_each_first:
  assumes "run_each f xs w = (res, w')" "\<not> P w" "P w'"
  obtains pre x suf v where "xs = pre @ x # suf" "run_each f pre w = (Inr (), v)" "\<not> P v"
    "P (snd (f x v))" "snd (run_each f suf (snd (f x v))) = w' \<or> snd (f x v) = w'"
  using assms
proof (induction xs arbitrary: w thesis)
  case (Cons x xs)
  obtain o' u where u: "f x w = (o', u)" by fastforce
  show ?case
  proof (cases "P u")
    case True
    have "snd (run_each f xs u) = w' \<or> u = w'" using Cons.prems(2) u by (cases o') auto
    with True u Cons.prems(3) show ?thesis by (intro Cons.prems(1) [of "[]" x xs w]) auto
  next
    case False
    have ok: "o' = Inr ()" "run_each f xs u = (res, w')"
      using Cons.prems(2,4) False u by (cases o'; auto)+
    obtain pre y suf v where s: "xs = pre @ y # suf" "run_each f pre u = (Inr (), v)" "\<not> P v"
      "P (snd (f y v))" "snd (run_each f suf (snd (f y v))) = w' \<or> snd (f y v) = w'"
      using Cons.IH [OF _ ok(2) False Cons.prems(4)] by blast
    show ?thesis
      by (rule Cons.prems(1) [of "x # pre" y suf v]) (use s u ok(1) in auto)
  qed
qed simp

lemma run_each_invariant:
  assumes "P w" "\<And>x v. x \<in> set xs \<Longrightarrow> P v \<Longrightarrow> P (snd (f x v))"
  shows "P (snd (run_each f xs w))"
  using assms
proof (induction xs arbitrary: w)
  case (Cons x xs)
  obtain o' u where u: "f x w = (o', u)" by fastforce
  with Cons.prems have "P u" by (metis list.set_intros(1) snd_conv)
  with Cons u show ?case by (cases o') auto
qed simp

subsection \<open>One store\<close>

definition gated_rows :: "worker_env \<Rightarrow> string \<Rightarrow> queue_row list \<Rightarrow> queue_row list" where
  "gated_rows env s ts = fst (apply_generation_evidence_gate (we_generation env s) (we_now env) ts)"

definition deferred_ids :: "worker_env \<Rightarrow> string \<Rightarrow> queue_row list \<Rightarrow> string set" where
  "deferred_ids env s ts = snd (apply_generation_evidence_gate (we_generation env s) (we_now env) ts)"

definition live_targets :: "worker_env \<Rightarrow> string \<Rightarrow> queue_row list \<Rightarrow> queue_row list" where
  "live_targets env s ts = filter (\<lambda>t. rq_id t \<notin> deferred_ids env s ts) (gated_rows env s ts)"

definition gated_state :: "worker_env \<Rightarrow> string \<Rightarrow> queue_row list \<Rightarrow> worker_state \<Rightarrow> worker_state" where
  "gated_state env s ts w = (if deferred_ids env s ts \<noteq> {}
     then w\<lparr>ws_db := write_rows (gated_rows env s ts) (ws_db w),
            ws_revalidated := ws_revalidated w + card (deferred_ids env s ts)\<rparr> else w)"

definition group_model :: "queue_row list \<Rightarrow> string" where
  "group_model ts = pst_model_id (rq_target (hd ts))"

lemma process_store_cases:
  assumes "process_store env ids (s, ts) w = (res, w')"
  obtains (requeued) err where "res = Inr ()" "w' = w\<lparr>ws_db := write_rows (map (requeue err) ts) (ws_db w)\<rparr>"
  | (aborted) e where "res = Inl e" "w' = w \<or> w' = gated_state env s ts w"
  | (deferred) "res = Inr ()" "w' = gated_state env s ts w" "deferred_ids env s ts \<noteq> {}" "live_targets env s ts = []"
  | (reclaimed) ny where "we_gate env s = Inr ()"
      "counterfactual_necessity env (ws_db (gated_state env s ts w)) ids (group_model ts) (live_targets env s ts) = Inr ny"
      "reclaim_targets env s (group_model ts) ny (live_targets env s ts) (gated_state env s ts w) = (res, w')"
proof -
  obtain g df where gate: "apply_generation_evidence_gate (we_generation env s) (we_now env) ts = (g, df)"
    by fastforce
  have defs: "gated_rows env s ts = g" "deferred_ids env s ts = df"
    by (simp_all add: gated_rows_def deferred_ids_def gate)
  define lc where "lc = (case find_lifecycle (ws_db w) (pst_model_id (rq_target (hd ts)))
      (pst_cycle_time (rq_target (hd ts))) of Some l \<Rightarrow> fl_deleted_at l \<noteq> None | None \<Rightarrow> False)"
  have p: "process_store env ids (s, ts) w = (case we_gate env s of
        Inl e \<Rightarrow> if e = DomainError ''LockTimeoutError'' ''timed out''
          then (Inr (), w\<lparr>ws_db := write_rows (map (requeue ''store_gate_timeout'') ts) (ws_db w)\<rparr>) else (Inl e, w)
      | Inr u \<Rightarrow> if lc then (Inr (), w\<lparr>ws_db := write_rows (map (requeue ''cycle_already_tombstoned'') ts) (ws_db w)\<rparr>)
          else if deferred_ids env s ts \<noteq> {} \<and> live_targets env s ts = [] then (Inr (), gated_state env s ts w)
          else (case counterfactual_necessity env (ws_db (gated_state env s ts w)) ids (group_model ts) (live_targets env s ts) of
             Inl e \<Rightarrow> (Inl e, gated_state env s ts w)
           | Inr ny \<Rightarrow> reclaim_targets env s (group_model ts) ny (live_targets env s ts) (gated_state env s ts w)))"
    unfolding process_store_def lc_def gated_state_def live_targets_def defs group_model_def Let_def prod.case gate
    by (cases "we_gate env s") simp_all
  show ?thesis
  proof (cases "we_gate env s")
    case (Inl e)
    then show ?thesis using assms that(1) that(2) [of e] p by (auto simp: Inl split: if_splits)
  next
    case (Inr u)
    show ?thesis
    proof (cases "lc \<or> deferred_ids env s ts \<noteq> {} \<and> live_targets env s ts = []")
      case True
      then show ?thesis using assms that(1,3) p Inr by (auto split: if_splits)
    next
      case False
      then have "(case counterfactual_necessity env (ws_db (gated_state env s ts w)) ids (group_model ts) (live_targets env s ts) of
             Inl e \<Rightarrow> (Inl e, gated_state env s ts w)
           | Inr ny \<Rightarrow> reclaim_targets env s (group_model ts) ny (live_targets env s ts) (gated_state env s ts w)) = (res, w')"
        using assms p Inr by (auto split: if_splits)
      then show ?thesis using that(2,4) Inr by (auto split: sum.splits)
    qed
  qed
qed

text \<open>What becomes of a target: it keeps its identity and is queued, as before, or deleted.\<close>

definition settled :: "worker_env \<Rightarrow> queue_row \<Rightarrow> queue_row \<Rightarrow> bool" where
  "settled env t n \<longleftrightarrow> rq_id n = rq_id t \<and> rq_target n = rq_target t \<and> rq_created_at n = rq_created_at t \<and>
     rq_next_retry_at n = rq_next_retry_at t \<and> rq_attempt_count n = rq_attempt_count t \<and>
     (rq_status n = RECLAMATION_STATUS_QUEUED \<and> rq_lease_expires_at n = None
      \<or> rq_status n = rq_status t \<and> rq_lease_expires_at n = rq_lease_expires_at t
        \<and> rq_reclaimed_at n = rq_reclaimed_at t
      \<or> rq_status n = RECLAMATION_STATUS_DELETED \<and> rq_lease_expires_at n = None
        \<and> rq_reclaimed_at n = Some (we_now env) \<and> we_delete_enabled env)"

lemma settled_trans: "settled env t n \<Longrightarrow> settled env n k \<Longrightarrow> settled env t k"
  by (auto simp: settled_def)

lemma settled_requeue: "settled env t (requeue err t)"
  by (simp add: settled_def requeue_def)

lemma generation_gate_row_settled:
  "settled env t (fst (generation_gate_row g (we_now env) t))"
  "snd (generation_gate_row g (we_now env) t) \<Longrightarrow>
     rq_status (fst (generation_gate_row g (we_now env) t)) = RECLAMATION_STATUS_QUEUED"
  by (auto simp: generation_gate_row_def settled_def requeue_def split: option.splits)

lemma generation_gate_row_id [simp]: "rq_id (fst (generation_gate_row g now t)) = rq_id t"
  by (auto simp: generation_gate_row_def requeue_def split: option.splits)

lemma gated_rows_alt: "gated_rows env s ts = map (\<lambda>t. fst (generation_gate_row (we_generation env s) (we_now env) t)) ts"
  by (simp add: gated_rows_def apply_generation_evidence_gate_def o_def)

lemma deferred_ids_alt:
  "deferred_ids env s ts = rq_id ` {t \<in> set ts. snd (generation_gate_row (we_generation env s) (we_now env) t)}"
proof -
  let ?g = "generation_gate_row (we_generation env s) (we_now env)"
  have "set (filter snd (map ?g ts)) = ?g ` {t \<in> set ts. snd (?g t)}" by auto
  then have "set (map (\<lambda>(r, d). rq_id r) (filter snd (map ?g ts))) = (\<lambda>x. rq_id (fst (?g x))) ` {t \<in> set ts. snd (?g t)}"
    by (simp add: image_image case_prod_beta)
  then show ?thesis by (simp add: deferred_ids_def apply_generation_evidence_gate_def)
qed

lemma gated_rows_ids: "map rq_id (gated_rows env s ts) = map rq_id ts"
  by (simp add: gated_rows_alt o_def)

lemma live_target_origin:
  assumes "n \<in> set (live_targets env s ts)"
  obtains t where "t \<in> set ts" "n = fst (generation_gate_row (we_generation env s) (we_now env) t)"
    "\<not> snd (generation_gate_row (we_generation env s) (we_now env) t)"
proof -
  let ?g = "generation_gate_row (we_generation env s) (we_now env)"
  from assms(1) obtain t where t: "t \<in> set ts" "n = fst (?g t)" "rq_id t \<notin> deferred_ids env s ts"
    by (auto simp: live_targets_def gated_rows_alt)
  then have "\<not> snd (?g t)" unfolding deferred_ids_alt by blast
  with t that show ?thesis by blast
qed

definition final_row :: "worker_env \<Rightarrow> necessity \<Rightarrow> bool \<Rightarrow> queue_row \<Rightarrow> queue_row" where
  "final_row env ny d t = (case decide_target env ny d t of
     (t', a, h) \<Rightarrow> if a then mark_deleted (we_now env) t' else t')"

lemma final_row_settled: "settled env t (final_row env ny d t)"
  by (auto simp: final_row_def decide_target_def settled_def requeue_def mark_deleted_def split: option.splits)

lemma final_row_status:
  "rq_status (final_row env ny d t) = (if \<not> d \<and> necessary_reason ny (row_unit t) = None \<and> we_delete_enabled env
     then RECLAMATION_STATUS_DELETED else RECLAMATION_STATUS_QUEUED)"
  by (auto simp: final_row_def decide_target_def requeue_def mark_deleted_def split: option.splits)

lemma final_row_id [simp]: "rq_id (final_row env ny d t) = rq_id t"
  using final_row_settled [of env t ny d] by (simp add: settled_def)

definition decided_rows :: "worker_env \<Rightarrow> necessity \<Rightarrow> catalog \<Rightarrow> queue_row list \<Rightarrow> queue_row list" where
  "decided_rows env ny db ts = map (\<lambda>t. final_row env ny (deferred_pair db ny ts t) t) ts"

lemma clean_marker_db: "ws_db (snd (clean_marker_step env m s region w)) = ws_db w"
  by (auto simp: clean_marker_step_def clean_marker_def bindE_eq_Inr
      split: sum.splits prod.splits if_splits)

lemma reclaim_targets_db:
  "ws_db (snd (reclaim_targets env s m ny ts w)) = write_rows (decided_rows env ny (ws_db w) ts) (ws_db w)"
proof -
  have "map (\<lambda>(t, a, h). if a then mark_deleted (we_now env) t else t)
      (map (\<lambda>t. decide_target env ny (deferred_pair (ws_db w) ny ts t) t) ts) = decided_rows env ny (ws_db w) ts"
    by (simp add: decided_rows_def final_row_def)
  moreover have "ws_db (snd (run_each (clean_marker_step env m s) rs v)) = ws_db v" for rs v
    by (rule run_each_invariant) (simp_all add: clean_marker_db)
  ultimately show ?thesis by (simp add: reclaim_targets_def Let_def)
qed

lemma requeue_id [simp]: "rq_id (requeue err t) = rq_id t" by (simp add: requeue_def)

lemma gated_ids: "rq_id ` set (gated_rows env s ts) = rq_id ` set ts"
  using gated_rows_ids [of env s ts] by (metis list.set_map)

lemma gated_settled: "n \<in> set (gated_rows env s ts) \<Longrightarrow> \<exists>t \<in> set ts. settled env t n"
  using generation_gate_row_settled(1) by (auto simp: gated_rows_alt)

lemma deferred_row:
  assumes "distinct (map rq_id ts)" "t \<in> set ts" "rq_id t \<in> deferred_ids env s ts"
  shows "rq_status (overwrite (gated_rows env s ts) t) = RECLAMATION_STATUS_QUEUED"
proof -
  let ?g = "generation_gate_row (we_generation env s) (we_now env)"
  from assms(3) obtain t' where t': "t' \<in> set ts" "rq_id t' = rq_id t" "snd (?g t')"
    by (auto simp: deferred_ids_alt)
  with assms(1,2) have "t' = t" by (metis distinct_map inj_on_def)
  moreover have "fst (?g t) \<in> set (gated_rows env s ts)" using assms(2) by (auto simp: gated_rows_alt)
  then have "overwrite (gated_rows env s ts) t = fst (?g t)"
    using assms(1) by (intro overwrite_found) (simp_all add: gated_rows_ids)
  ultimately show ?thesis using t'(3) generation_gate_row_settled(2) by simp
qed

lemma overwrite_append:
  assumes "rq_id r \<in> rq_id ` set rows" shows "overwrite (rows @ rows') r = overwrite rows r"
proof -
  have "find (\<lambda>n. rq_id n = rq_id r) rows \<noteq> None" using assms by (auto simp: find_None_iff)
  then obtain n where n: "find (\<lambda>n. rq_id n = rq_id r) rows = Some n" by blast
  then have "find (\<lambda>n. rq_id n = rq_id r) (rows @ rows') = Some n"
    by (induction rows) (auto split: if_splits)
  with n show ?thesis by (simp add: overwrite_def)
qed

text \<open>The step of one store writes rows of its targets, each settled; when it returns, none is left in
  deletion.\<close>

lemma process_store_rows:
  assumes p: "process_store env ids (s, ts) w = (res, w')" and d: "distinct (map rq_id ts)"
  obtains rows where "ws_db w' = write_rows rows (ws_db w)" "rq_id ` set rows \<subseteq> rq_id ` set ts"
    "\<And>n. n \<in> set rows \<Longrightarrow> \<exists>t \<in> set ts. settled env t n"
    "\<And>t. res = Inr () \<Longrightarrow> t \<in> set ts \<Longrightarrow>
       rq_status (overwrite rows t) \<in> {RECLAMATION_STATUS_QUEUED, RECLAMATION_STATUS_DELETED}"
  using p
proof (cases rule: process_store_cases)
  case (requeued err)
  have "rq_status (overwrite (map (requeue err) ts) t) = RECLAMATION_STATUS_QUEUED" if "t \<in> set ts" for t
  proof (cases rule: overwrite_cases [of "map (requeue err) ts" t])
    case kept
    then have "rq_id t \<notin> rq_id ` set ts" by (simp add: requeue_def image_image)
    with that show ?thesis by blast
  next
    case (new n)
    then show ?thesis by (auto simp: requeue_def)
  qed
  then show ?thesis
    using requeued settled_requeue requeue_id
    by (intro that [of "map (requeue err) ts"]) (fastforce simp: image_image)+
next
  case (aborted e)
  then consider "ws_db w' = write_rows [] (ws_db w)" | "ws_db w' = write_rows (gated_rows env s ts) (ws_db w)"
    by (auto simp: gated_state_def write_rows_Nil split: if_splits)
  then show ?thesis
  proof cases
    case 1
    then show ?thesis using aborted(1) by (intro that [of "[]"]) auto
  next
    case 2
    then show ?thesis using aborted(1) gated_settled gated_ids
      by (intro that [of "gated_rows env s ts"]) auto
  qed
next
  case deferred
  have "rq_status (overwrite (gated_rows env s ts) t) = RECLAMATION_STATUS_QUEUED" if t: "t \<in> set ts" for t
  proof -
    have "rq_id t \<in> deferred_ids env s ts"
      using t deferred(4) by (auto simp: live_targets_def filter_empty_conv gated_rows_alt)
    with deferred_row [OF d t] show ?thesis by simp
  qed
  then show ?thesis
    using deferred gated_settled gated_ids
    by (intro that [of "gated_rows env s ts"]) (auto simp: gated_state_def)
next
  case (reclaimed ny)
  let ?w1 = "gated_state env s ts w"
  let ?dec = "decided_rows env ny (ws_db ?w1) (live_targets env s ts)"
  let ?rows = "?dec @ (if deferred_ids env s ts \<noteq> {} then gated_rows env s ts else [])"
  have "ws_db w' = write_rows ?dec (ws_db ?w1)"
    using reclaim_targets_db [of env s "group_model ts" ny "live_targets env s ts" ?w1] reclaimed(3) by simp
  then have db: "ws_db w' = write_rows ?rows (ws_db w)"
    by (simp add: gated_state_def write_rows_twice)
  have dec: "\<exists>t \<in> set ts. settled env t n" if n: "n \<in> set ?dec" for n
  proof -
    from n obtain l where l: "l \<in> set (live_targets env s ts)" "settled env l n"
      using final_row_settled by (auto simp: decided_rows_def)
    with gated_settled settled_trans show ?thesis by (fastforce simp: live_targets_def)
  qed
  have decid: "rq_id ` set ?dec = rq_id ` set (live_targets env s ts)" by (simp add: decided_rows_def image_image)
  have "rq_status (overwrite ?rows t) \<in> {RECLAMATION_STATUS_QUEUED, RECLAMATION_STATUS_DELETED}"
    if t: "t \<in> set ts" for t
  proof (cases "rq_id t \<in> deferred_ids env s ts")
    case True
    then have "rq_id t \<notin> rq_id ` set ?dec" unfolding decid by (auto simp: live_targets_def)
    then have "overwrite ?rows t = overwrite (gated_rows env s ts) t"
      using True by (auto simp: overwrite_skip)
    with deferred_row [OF d t True] show ?thesis by simp
  next
    case False
    then have "fst (generation_gate_row (we_generation env s) (we_now env) t) \<in> set (live_targets env s ts)"
      using t by (auto simp: live_targets_def gated_rows_alt)
    then have "rq_id t \<in> rq_id ` set (live_targets env s ts)" by (metis generation_gate_row_id image_eqI)
    then have "rq_id t \<in> rq_id ` set ?dec" using decid by simp
    then obtain n where "n \<in> set ?dec" "overwrite ?dec t = n"
      by (cases rule: overwrite_cases [of ?dec t]) auto
    moreover have "overwrite ?rows t = overwrite ?dec t"
      using \<open>rq_id t \<in> rq_id ` set ?dec\<close> by (rule overwrite_append)
    ultimately show ?thesis by (auto simp: decided_rows_def final_row_status)
  qed
  moreover have "rq_id ` set ?dec \<subseteq> rq_id ` set ts"
    using dec by (fastforce simp: settled_def)
  then have "rq_id ` set ?rows \<subseteq> rq_id ` set ts"
    by (cases "deferred_ids env s ts = {}") (simp_all add: image_Un gated_ids)
  moreover have "\<exists>t \<in> set ts. settled env t n" if "n \<in> set ?rows" for n
    using that dec gated_settled by (auto split: if_splits)
  ultimately show ?thesis using db by (intro that [of ?rows]) auto
qed

subsection \<open>The whole pass\<close>

abbreviation group_ids :: "(string \<times> queue_row list) list \<Rightarrow> string set" where
  "group_ids gs \<equiv> rq_id ` set (concat (map snd gs))"

lemma stores_run_rows:
  assumes "run_each (process_store env ids) gs w = (res, w')" "distinct (map rq_id (concat (map snd gs)))"
  obtains rows where "ws_db w' = write_rows rows (ws_db w)" "rq_id ` set rows \<subseteq> group_ids gs"
    "\<And>n. n \<in> set rows \<Longrightarrow> \<exists>t \<in> set (concat (map snd gs)). settled env t n"
    "\<And>t. res = Inr () \<Longrightarrow> t \<in> set (concat (map snd gs)) \<Longrightarrow>
       rq_status (overwrite rows t) \<in> {RECLAMATION_STATUS_QUEUED, RECLAMATION_STATUS_DELETED}"
  using assms
proof (induction gs arbitrary: w thesis)
  case Nil
  show ?case by (rule Nil.prems(1) [of "[]"]) (use Nil.prems in \<open>auto simp: write_rows_Nil\<close>)
next
  case (Cons g gs)
  obtain s ts where g: "g = (s, ts)" by fastforce
  obtain o' u where u: "process_store env ids (s, ts) w = (o', u)" by fastforce
  have dist: "distinct (map rq_id ts)" "distinct (map rq_id (concat (map snd gs)))"
    "rq_id ` set ts \<inter> group_ids gs = {}" using Cons.prems(3) by (auto simp: g)
  obtain rows1 where r1: "ws_db u = write_rows rows1 (ws_db w)" "rq_id ` set rows1 \<subseteq> rq_id ` set ts"
    "\<And>n. n \<in> set rows1 \<Longrightarrow> \<exists>t \<in> set ts. settled env t n"
    "\<And>t. o' = Inr () \<Longrightarrow> t \<in> set ts \<Longrightarrow>
       rq_status (overwrite rows1 t) \<in> {RECLAMATION_STATUS_QUEUED, RECLAMATION_STATUS_DELETED}"
    using process_store_rows [OF u dist(1)] by blast
  show ?case
  proof (cases o')
    case (Inl e)
    then have "w' = u" "res = Inl e" using Cons.prems(2) u by (simp_all add: g)
    moreover have "\<exists>t \<in> set (concat (map snd (g # gs))). settled env t n" if "n \<in> set rows1" for n
      using r1(3) [OF that] by (auto simp: g)
    ultimately show ?thesis using r1(1,2) by (intro Cons.prems(1) [of rows1]) (auto simp: g)
  next
    case (Inr x)
    then have "run_each (process_store env ids) gs u = (res, w')" using Cons.prems(2) u by (simp add: g)
    from Cons.IH [OF _ this dist(2)] obtain rows2 where r2: "ws_db w' = write_rows rows2 (ws_db u)"
      "rq_id ` set rows2 \<subseteq> group_ids gs"
      "\<And>n. n \<in> set rows2 \<Longrightarrow> \<exists>t \<in> set (concat (map snd gs)). settled env t n"
      "\<And>t. res = Inr () \<Longrightarrow> t \<in> set (concat (map snd gs)) \<Longrightarrow>
         rq_status (overwrite rows2 t) \<in> {RECLAMATION_STATUS_QUEUED, RECLAMATION_STATUS_DELETED}" by blast
    have "rq_status (overwrite (rows2 @ rows1) t) \<in> {RECLAMATION_STATUS_QUEUED, RECLAMATION_STATUS_DELETED}"
      if res: "res = Inr ()" and t: "t \<in> set (concat (map snd (g # gs)))" for t
    proof (cases "t \<in> set ts")
      case True
      then have "rq_id t \<notin> rq_id ` set rows2" using r2(2) dist(3) by blast
      with r1(4) True Inr show ?thesis by (simp add: overwrite_skip)
    next
      case False
      then have t': "t \<in> set (concat (map snd gs))" using t by (simp add: g)
      show ?thesis
      proof (cases "rq_id t \<in> rq_id ` set rows2")
        case True
        with r2(4) [OF res t'] show ?thesis by (simp add: overwrite_append)
      next
        case no2: False
        have "rq_id t \<notin> rq_id ` set rows1" using r1(2) dist(3) t' by blast
        with no2 r2(4) [OF res t'] show ?thesis by (simp add: overwrite_skip overwrite_other)
      qed
    qed
    moreover have "\<exists>t \<in> set (concat (map snd (g # gs))). settled env t n" if "n \<in> set (rows2 @ rows1)" for n
      using that r1(3) r2(3) by (fastforce simp: g)
    moreover have "rq_id ` set (rows2 @ rows1) \<subseteq> group_ids (g # gs)"
      using r1(2) r2(2) by (auto simp: g image_Un)
    moreover have "ws_db w' = write_rows (rows2 @ rows1) (ws_db w)"
      using r1(1) r2(1) by (simp add: write_rows_twice)
    ultimately show ?thesis by (intro Cons.prems(1) [of "rows2 @ rows1"]) blast+
  qed
qed

lemma stores_run_ids:
  assumes "run_each (process_store env ids) gs w = (res, w')" "distinct (map rq_id (concat (map snd gs)))"
  shows "\<exists>rows. ws_db w' = write_rows rows (ws_db w) \<and> rq_id ` set rows \<subseteq> group_ids gs"
  by (rule stores_run_rows [OF assms]) (intro exI conjI)

lemma stores_run_settled:
  assumes "run_each (process_store env ids) gs w = (res, w')" "distinct (map rq_id (concat (map snd gs)))"
  shows "\<exists>rows. ws_db w' = write_rows rows (ws_db w) \<and> rq_id ` set rows \<subseteq> group_ids gs \<and>
    (\<forall>n \<in> set rows. \<exists>t \<in> set (concat (map snd gs)). settled env t n)"
  by (rule stores_run_rows [OF assms]) (intro exI conjI ballI)

lemma claimed_by_store_rows: "set (concat (map snd (claimed_by_store rows))) = set rows"
proof (intro equalityI subsetI)
  fix r assume "r \<in> set (concat (map snd (claimed_by_store rows)))"
  then obtain s ts where "(s, ts) \<in> set (claimed_by_store rows)" "r \<in> set ts" by auto
  with claimed_by_store_group(1) show "r \<in> set rows" by fastforce
next
  fix r assume "r \<in> set rows"
  then obtain ts where "(row_store r, ts) \<in> set (claimed_by_store rows)" "r \<in> set ts"
    using claimed_by_store_covers by blast
  then show "r \<in> set (concat (map snd (claimed_by_store rows)))" by force
qed

lemma claimed_by_store_ids:
  assumes "distinct (map rq_id rows)"
  shows "distinct (map rq_id (concat (map snd (claimed_by_store rows))))"
proof -
  have "distinct (map rq_id (concat (map snd gs)))"
    if "distinct (map fst gs)" "\<And>s ts. (s, ts) \<in> set gs \<Longrightarrow> ts = filter (\<lambda>r. row_store r = s) rows" for gs
    using that
  proof (induction gs)
    case (Cons g gs)
    obtain s ts where g: "g = (s, ts)" by fastforce
    with Cons.prems have ts: "ts = filter (\<lambda>r. row_store r = s) rows" by simp
    have gs: "set (concat (map snd gs)) \<subseteq> {r \<in> set rows. row_store r \<noteq> s}"
    proof
      fix r assume "r \<in> set (concat (map snd gs))"
      then obtain s' ts' where m: "(s', ts') \<in> set gs" "r \<in> set ts'" by auto
      with Cons.prems(2) have "ts' = filter (\<lambda>r. row_store r = s') rows" by simp
      moreover have "s' \<noteq> s" using Cons.prems(1) m(1) by (force simp: g)
      ultimately show "r \<in> {r \<in> set rows. row_store r \<noteq> s}" using m(2) by auto
    qed
    have "rq_id r \<noteq> rq_id r'" if "r \<in> set ts" "r' \<in> set (concat (map snd gs))" for r r'
      using that ts gs assms by (auto simp: distinct_map dest!: inj_onD)
    moreover have "distinct (map rq_id ts)" using assms ts by (simp add: distinct_map_filter)
    ultimately show ?case using Cons by (auto simp: g)
  qed simp
  from this [OF claimed_by_store_distinct claimed_by_store_group(1)] show ?thesis .
qed

definition row_transition :: "worker_env \<Rightarrow> int \<Rightarrow> queue_row \<Rightarrow> queue_row \<Rightarrow> bool" where
  "row_transition env lease r n \<longleftrightarrow> rq_id n = rq_id r \<and> rq_target n = rq_target r \<and>
     rq_created_at n = rq_created_at r \<and> rq_next_retry_at n = rq_next_retry_at r \<and>
     rq_attempt_count n = rq_attempt_count r + 1 \<and>
     (rq_status n = RECLAMATION_STATUS_QUEUED \<and> rq_lease_expires_at n = None
      \<or> rq_status n = RECLAMATION_STATUS_DELETING \<and> rq_lease_expires_at n = Some (we_now env + lease)
      \<or> rq_status n = RECLAMATION_STATUS_DELETED \<and> rq_lease_expires_at n = None
        \<and> rq_reclaimed_at n = Some (we_now env) \<and> we_delete_enabled env)"

lemma claim_batch_set: "set (claim_batch locked now b db) \<subseteq> {r \<in> set (db_queue db). claimable now r \<and> rq_id r \<notin> locked}"
  by (auto simp: claim_batch_def dest!: in_set_takeD)

lemma claim_batch_ids:
  assumes "distinct (map rq_id (db_queue db))"
  shows "distinct (map rq_id (claim_batch locked now b db))"
proof -
  have "distinct (map rq_id (filter P (db_queue db)))" for P using assms by (rule distinct_map_filter)
  then show ?thesis
    by (simp add: claim_batch_def take_map [symmetric] distinct_map inj_on_def)
qed

lemma stamp_simps [simp]:
  "rq_id (stamp_claim now l r) = rq_id r" "rq_target (stamp_claim now l r) = rq_target r"
  by (simp_all add: stamp_claim_def)

text \<open>The pass taken apart: nothing claimed, or the stamped batch and the loop over its stores\<close>

lemma worker_pass_cases:
  assumes "run_reclamation_worker_pass env locked b lease db objs = (res, w)"
  obtains (idle) "claim_batch locked (we_now env) b db = []" "res = Inr ()" "ws_db w = db" "ws_objects w = objs"
      "ws_deleted w = 0"
  | (run) stamped w0 where "claim_batch locked (we_now env) b db \<noteq> []"
      "stamped = map (stamp_claim (we_now env) (we_now env + lease)) (claim_batch locked (we_now env) b db)"
      "ws_db w0 = write_rows stamped db" "ws_objects w0 = objs" "ws_deleted w0 = 0"
      "run_each (process_store env (rq_id ` set (claim_batch locked (we_now env) b db))) (claimed_by_store stamped) w0 = (res, w)"
proof (cases "claim_batch locked (we_now env) b db = []")
  case True
  with assms idle show ?thesis by (auto simp: run_reclamation_worker_pass_def Let_def)
next
  case False
  let ?st = "map (stamp_claim (we_now env) (we_now env + lease)) (claim_batch locked (we_now env) b db)"
  show ?thesis
    by (rule run [of ?st "\<lparr>ws_db = write_rows ?st db, ws_objects = objs, ws_deleted = 0,
         ws_revalidated = 0, ws_markers = 0\<rparr>"])
       (use assms False in \<open>auto simp: run_reclamation_worker_pass_def Let_def\<close>)
qed

lemma worker_pass_rows:
  assumes "run_reclamation_worker_pass env locked b lease db objs = (res, w)"
    and "distinct (map rq_id (db_queue db))"
  obtains rows where "ws_db w = write_rows rows db"
    "rq_id ` set rows \<subseteq> rq_id ` set (claim_batch locked (we_now env) b db)"
    "\<And>r. r \<in> set (claim_batch locked (we_now env) b db) \<Longrightarrow> row_transition env lease r (overwrite rows r) \<and>
       (res = Inr () \<longrightarrow> rq_status (overwrite rows r) \<noteq> RECLAMATION_STATUS_DELETING)"
  using assms(1)
proof (cases rule: worker_pass_cases)
  case idle
  then show ?thesis by (intro that [of "[]"]) (auto simp: write_rows_Nil)
next
  case (run stamped w0)
  let ?claimed = "claim_batch locked (we_now env) b db"
  have ids: "map rq_id stamped = map rq_id ?claimed" by (simp add: run(2))
  then have dist: "distinct (map rq_id stamped)" using claim_batch_ids [OF assms(2)] by simp
  obtain rows where r: "ws_db w = write_rows rows (ws_db w0)" "rq_id ` set rows \<subseteq> group_ids (claimed_by_store stamped)"
    "\<And>n. n \<in> set rows \<Longrightarrow> \<exists>t \<in> set stamped. settled env t n"
    "\<And>t. res = Inr () \<Longrightarrow> t \<in> set stamped \<Longrightarrow>
       rq_status (overwrite rows t) \<in> {RECLAMATION_STATUS_QUEUED, RECLAMATION_STATUS_DELETED}"
    using stores_run_rows [OF run(6) claimed_by_store_ids [OF dist]]
    unfolding claimed_by_store_rows by blast
  have "row_transition env lease c (overwrite (rows @ stamped) c) \<and>
       (res = Inr () \<longrightarrow> rq_status (overwrite (rows @ stamped) c) \<noteq> RECLAMATION_STATUS_DELETING)"
    if c: "c \<in> set ?claimed" for c
  proof -
    let ?t = "stamp_claim (we_now env) (we_now env + lease) c"
    have t: "?t \<in> set stamped" using c by (auto simp: run(2))
    have "overwrite stamped c = ?t" by (rule overwrite_found [OF t dist]) simp
    then have ow: "overwrite (rows @ stamped) c = overwrite rows ?t" by (metis overwrite_twice)
    have tr: "row_transition env lease c n" if "settled env ?t n" for n
      using that by (auto simp: settled_def row_transition_def stamp_claim_def)
    have "settled env ?t (overwrite rows ?t)"
    proof (cases rule: overwrite_cases [of rows ?t])
      case kept
      then show ?thesis by (simp add: settled_def)
    next
      case (new n)
      with r(3) obtain t' where t': "t' \<in> set stamped" "settled env t' n" by blast
      then have "rq_id t' = rq_id ?t" using new(2) by (simp add: settled_def)
      with t' t dist have "t' = ?t" by (metis distinct_map inj_on_def)
      with t'(2) new(3) show ?thesis by simp
    qed
    with tr r(4) [OF _ t] show ?thesis unfolding ow by (auto simp: status_defs)
  qed
  moreover have "rq_id ` set (rows @ stamped) \<subseteq> rq_id ` set ?claimed"
    using r(2) claimed_by_store_rows [of stamped] by (auto simp: run(2))
  ultimately show ?thesis
    using r(1) run(3) by (intro that [of "rows @ stamped"]) (simp_all add: write_rows_twice)
qed

subsection \<open>The step that deletes a row\<close>

definition is_deleted :: "string \<Rightarrow> worker_state \<Rightarrow> bool" where
  "is_deleted i w \<longleftrightarrow> (\<exists>n \<in> set (db_queue (ws_db w)). rq_id n = i \<and> rq_status n = RECLAMATION_STATUS_DELETED)"

lemma status_distinct [simp]:
  "RECLAMATION_STATUS_QUEUED \<noteq> RECLAMATION_STATUS_DELETED" "RECLAMATION_STATUS_DELETED \<noteq> RECLAMATION_STATUS_QUEUED"
  "RECLAMATION_STATUS_DELETING \<noteq> RECLAMATION_STATUS_DELETED" "RECLAMATION_STATUS_DELETED \<noteq> RECLAMATION_STATUS_DELETING"
  "RECLAMATION_STATUS_QUEUED \<noteq> RECLAMATION_STATUS_DELETING" "RECLAMATION_STATUS_DELETING \<noteq> RECLAMATION_STATUS_QUEUED"
  by (simp_all add: status_defs)

lemma is_deleted_write:
  assumes "is_deleted i (w\<lparr>ws_db := write_rows rows (ws_db w)\<rparr>)" "\<not> is_deleted i w"
  obtains n where "n \<in> set rows" "rq_id n = i" "rq_status n = RECLAMATION_STATUS_DELETED"
    "\<exists>r. overwrite rows r = n \<and> rq_id r = i"
proof -
  from assms(1) obtain r where r: "r \<in> set (db_queue (ws_db w))" "rq_id r = i"
    "rq_status (overwrite rows r) = RECLAMATION_STATUS_DELETED" by (auto simp: is_deleted_def)
  show ?thesis
  proof (cases rule: overwrite_cases [of rows r])
    case kept
    with r assms(2) show ?thesis by (auto simp: is_deleted_def)
  next
    case (new n)
    with r that [of n] show ?thesis by blast
  qed
qed

lemma generation_gate_row_status:
  "rq_status (fst (generation_gate_row g now t)) \<in> {RECLAMATION_STATUS_QUEUED, rq_status t}"
  by (auto simp: generation_gate_row_def requeue_def split: option.splits)

lemma is_deleted_db: "ws_db w = ws_db w' \<Longrightarrow> is_deleted i w = is_deleted i w'"
  by (simp add: is_deleted_def)

lemma gated_not_deleted:
  assumes "\<And>t. t \<in> set ts \<Longrightarrow> rq_status t = RECLAMATION_STATUS_DELETING" "\<not> is_deleted i w"
  shows "\<not> is_deleted i (gated_state env s ts w)"
proof
  assume "is_deleted i (gated_state env s ts w)"
  then have "is_deleted i (w\<lparr>ws_db := write_rows (gated_rows env s ts) (ws_db w)\<rparr>)"
    using assms(2) by (auto simp: gated_state_def is_deleted_def split: if_splits)
  from is_deleted_write [OF this assms(2)] obtain n where n: "n \<in> set (gated_rows env s ts)"
    "rq_status n = RECLAMATION_STATUS_DELETED" by blast
  then obtain t where "t \<in> set ts" "n = fst (generation_gate_row (we_generation env s) (we_now env) t)"
    by (auto simp: gated_rows_alt)
  with generation_gate_row_status [of "we_generation env s" "we_now env" t] assms(1) [of t] n(2)
  show False by simp
qed

lemma process_store_deletes:
  assumes "process_store env ids (s, ts) v = (o', u)" "\<not> is_deleted i v" "is_deleted i u"
    and "\<And>t. t \<in> set ts \<Longrightarrow> rq_status t = RECLAMATION_STATUS_DELETING"
  obtains ny l where "we_gate env s = Inr ()"
    "counterfactual_necessity env (ws_db (gated_state env s ts v)) ids (group_model ts) (live_targets env s ts) = Inr ny"
    "reclaim_targets env s (group_model ts) ny (live_targets env s ts) (gated_state env s ts v) = (o', u)"
    "l \<in> set (live_targets env s ts)" "rq_id l = i"
    "\<not> deferred_pair (ws_db (gated_state env s ts v)) ny (live_targets env s ts) l"
    "necessary_reason ny (row_unit l) = None" "we_delete_enabled env"
  using assms(1)
proof (cases rule: process_store_cases)
  case (requeued err)
  from is_deleted_write [OF assms(3) [unfolded requeued(2)] assms(2)] obtain n
    where "n \<in> set (map (requeue err) ts)" "rq_status n = RECLAMATION_STATUS_DELETED" by blast
  then have False by (auto simp: requeue_def)
  then show ?thesis by blast
next
  case (aborted e)
  with gated_not_deleted [OF assms(4,2)] assms(2,3) show ?thesis by blast
next
  case deferred
  with gated_not_deleted [OF assms(4,2)] assms(3) show ?thesis by simp
next
  case (reclaimed ny)
  let ?w1 = "gated_state env s ts v" and ?live = "live_targets env s ts"
  have "ws_db u = write_rows (decided_rows env ny (ws_db ?w1) ?live) (ws_db ?w1)"
    using reclaim_targets_db [of env s "group_model ts" ny ?live ?w1] reclaimed(3) by simp
  then have "is_deleted i (?w1\<lparr>ws_db := write_rows (decided_rows env ny (ws_db ?w1) ?live) (ws_db ?w1)\<rparr>)"
    using assms(3) by (simp add: is_deleted_def)
  from is_deleted_write [OF this gated_not_deleted [OF assms(4,2)]] obtain n where n:
    "n \<in> set (decided_rows env ny (ws_db ?w1) ?live)" "rq_id n = i" "rq_status n = RECLAMATION_STATUS_DELETED"
    by metis
  then obtain l where "l \<in> set ?live" "n = final_row env ny (deferred_pair (ws_db ?w1) ny ?live l) l"
    by (auto simp: decided_rows_def)
  then have "\<not> deferred_pair (ws_db ?w1) ny ?live l" "necessary_reason ny (row_unit l) = None"
    "we_delete_enabled env" "rq_id l = i"
    using n(2,3) by (simp_all add: final_row_status split: if_splits)
  with \<open>l \<in> set ?live\<close> show ?thesis by (intro that [OF reclaimed])
qed

text \<open>The store, the moment and the decision at which a pass deletes a row\<close>

lemma worker_pass_deletes:
  assumes "run_reclamation_worker_pass env locked b lease db objs = (res, w)"
    and "distinct (map rq_id (db_queue db))" "r \<in> set (db_queue db)"
    and "rq_status r \<noteq> RECLAMATION_STATUS_DELETED" "is_deleted (rq_id r) w"
  obtains pre s ts suf v u o' ny l stamped claimed where
    "claimed = rq_id ` set (claim_batch locked (we_now env) b db)"
    "stamped = map (stamp_claim (we_now env) (we_now env + lease)) (claim_batch locked (we_now env) b db)"
    "claimed_by_store stamped = pre @ (s, ts) # suf"
    "run_each (process_store env claimed) pre v = (Inr (), u)" "ws_db v = write_rows stamped db"
    "we_gate env s = Inr ()"
    "counterfactual_necessity env db claimed (group_model ts) (live_targets env s ts) = Inr ny"
    "reclaim_targets env s (group_model ts) ny (live_targets env s ts) (gated_state env s ts u) = o'"
    "snd (run_each (process_store env claimed) suf (snd o')) = w \<or> snd o' = w"
    "l \<in> set (live_targets env s ts)" "rq_id l = rq_id r"
    "\<not> deferred_pair (ws_db (gated_state env s ts u)) ny (live_targets env s ts) l"
    "necessary_reason ny (row_unit l) = None" "we_delete_enabled env"
    "\<And>t. t \<in> set ts \<Longrightarrow> rq_status t = RECLAMATION_STATUS_DELETING" "distinct (map rq_id stamped)"
  using assms(1)
proof (cases rule: worker_pass_cases)
  case idle
  then have "is_deleted (rq_id r) w \<longleftrightarrow> (\<exists>n \<in> set (db_queue db). rq_id n = rq_id r \<and> rq_status n = RECLAMATION_STATUS_DELETED)"
    by (simp add: is_deleted_def)
  moreover have "n = r" if "n \<in> set (db_queue db)" "rq_id n = rq_id r" for n
    using that assms(2,3) by (metis distinct_map inj_on_def)
  ultimately show ?thesis using assms(4,5) by auto
next
  case (run stamped w0)
  let ?claimed = "claim_batch locked (we_now env) b db" and ?ids = "rq_id ` set (claim_batch locked (we_now env) b db)"
  have ids: "map rq_id stamped = map rq_id ?claimed" by (simp add: run(2))
  then have dist: "distinct (map rq_id stamped)" using claim_batch_ids [OF assms(2)] by simp
  have "\<not> is_deleted (rq_id r) w0"
  proof
    assume "is_deleted (rq_id r) w0"
    then obtain q where q: "q \<in> set (db_queue db)" "rq_id q = rq_id r"
      "rq_status (overwrite stamped q) = RECLAMATION_STATUS_DELETED" by (auto simp: is_deleted_def run(3))
    then have "q = r" using assms(2,3) by (metis distinct_map inj_on_def)
    with q assms(4) show False
      by (cases rule: overwrite_cases [of stamped r]) (auto simp: run(2) stamp_claim_def)
  qed
  from run_each_first [OF run(6), of "is_deleted (rq_id r)", OF this assms(5)]
  obtain pre x suf u where x: "claimed_by_store stamped = pre @ x # suf"
    "run_each (process_store env ?ids) pre w0 = (Inr (), u)" "\<not> is_deleted (rq_id r) u"
    "is_deleted (rq_id r) (snd (process_store env ?ids x u))"
    "snd (run_each (process_store env ?ids) suf (snd (process_store env ?ids x u))) = w
       \<or> snd (process_store env ?ids x u) = w" by blast
  obtain s ts where st: "x = (s, ts)" by fastforce
  obtain o' u' where o': "process_store env ?ids (s, ts) u = (o', u')" by fastforce
  have "(s, ts) \<in> set (claimed_by_store stamped)" by (simp add: x(1) st)
  from claimed_by_store_group(1) [OF this] have deleting: "rq_status t = RECLAMATION_STATUS_DELETING" if "t \<in> set ts" for t
    using that by (auto simp: run(2) stamp_claim_def)
  from process_store_deletes [OF o' x(3) _ deleting] x(4) o' st obtain ny l where ny:
    "we_gate env s = Inr ()"
    "counterfactual_necessity env (ws_db (gated_state env s ts u)) ?ids (group_model ts) (live_targets env s ts) = Inr ny"
    "reclaim_targets env s (group_model ts) ny (live_targets env s ts) (gated_state env s ts u) = (o', u')"
    "l \<in> set (live_targets env s ts)" "rq_id l = rq_id r"
    "\<not> deferred_pair (ws_db (gated_state env s ts u)) ny (live_targets env s ts) l"
    "necessary_reason ny (row_unit l) = None" "we_delete_enabled env" by auto
  have dg: "distinct (map rq_id (concat (map snd pre)))"
    using claimed_by_store_ids [OF dist] by (simp add: x(1))
  obtain rows where rows: "ws_db u = write_rows rows (ws_db w0)" "rq_id ` set rows \<subseteq> group_ids pre"
    using stores_run_ids [OF x(2) dg] by (elim exE conjE)
  have idset: "rq_id ` set stamped = ?ids" by (metis ids list.set_map)
  have members: "set stamped = set (concat (map snd (pre @ (s, ts) # suf)))"
    by (metis claimed_by_store_rows x(1) st)
  have "group_ids (pre @ [(s, ts)]) \<subseteq> rq_id ` set stamped" unfolding members by (intro image_mono) auto
  then have sub: "group_ids (pre @ [(s, ts)]) \<subseteq> ?ids" unfolding idset .
  have "ws_db (gated_state env s ts u) = write_rows
      ((if deferred_ids env s ts \<noteq> {} then gated_rows env s ts else []) @ rows @ stamped) db"
    by (simp add: gated_state_def rows(1) run(3) write_rows_twice)
  moreover have "rq_id ` set ((if deferred_ids env s ts \<noteq> {} then gated_rows env s ts else []) @ rows @ stamped) \<subseteq> ?ids"
  proof -
    have "group_ids pre \<subseteq> ?ids" "rq_id ` set ts \<subseteq> ?ids" using sub by (simp_all add: image_Un)
    moreover from this(1) have "rq_id ` set rows \<subseteq> ?ids" by (rule subset_trans [OF rows(2)])
    ultimately show ?thesis using idset by (cases "deferred_ids env s ts = {}") (simp_all add: image_Un gated_ids)
  qed
  ultimately have "counterfactual_necessity env db ?ids (group_model ts) (live_targets env s ts) = Inr ny"
    using ny(2) necessity_overwrite by metis
  moreover have "snd (run_each (process_store env ?ids) suf (snd (o', u'))) = w \<or> snd (o', u') = w"
    using x(5) o' st by simp
  ultimately show ?thesis
    by (rule that [OF refl run(2) x(1) [unfolded st]
          x(2) run(3) ny(1) _ ny(3) _ ny(4-8)])
       (fact deleting dist)+
qed

text \<open>The row of the catalog behind a target that passed the generation gate\<close>

lemma live_target_row:
  assumes stamped: "stamped = map (stamp_claim (we_now env) (we_now env + lease)) (claim_batch locked (we_now env) b db)"
    and grp: "(s, ts) \<in> set (claimed_by_store stamped)" and l: "l \<in> set (live_targets env s ts)"
  obtains q where "q \<in> set (claim_batch locked (we_now env) b db)" "rq_id q = rq_id l" "rq_target q = rq_target l"
    "row_store q = s" "\<not> snd (generation_gate_row (we_generation env s) (we_now env) q)"
proof -
  obtain t where t: "t \<in> set ts" "l = fst (generation_gate_row (we_generation env s) (we_now env) t)"
    "\<not> snd (generation_gate_row (we_generation env s) (we_now env) t)"
    by (rule live_target_origin [OF l])
  then obtain q where q: "q \<in> set (claim_batch locked (we_now env) b db)"
    "t = stamp_claim (we_now env) (we_now env + lease) q" "row_store t = s"
    using claimed_by_store_group(1) [OF grp] by (auto simp: stamped)
  have "rq_target l = rq_target q"
    using generation_gate_row_settled(1) [of env t "we_generation env s"] t(2) q(2) by (simp add: settled_def)
  moreover have "snd (generation_gate_row g now t) = snd (generation_gate_row g now q)" for g now
    by (auto simp: generation_gate_row_def q(2) stamp_claim_def split: option.splits)
  ultimately show ?thesis using q t by (intro that [of q]) auto
qed

lemma group_model_row:
  assumes stamped: "stamped = map (stamp_claim (we_now env) (we_now env + lease)) (claim_batch locked (we_now env) b db)"
    and grp: "(s, ts) \<in> set (claimed_by_store stamped)"
  obtains c where "c \<in> set (claim_batch locked (we_now env) b db)" "row_store c = s" "group_model ts = pst_model_id (rq_target c)"
proof -
  have "hd ts \<in> set ts" using claimed_by_store_group(2) [OF grp] by simp
  then obtain c where "c \<in> set (claim_batch locked (we_now env) b db)"
    "hd ts = stamp_claim (we_now env) (we_now env + lease) c" "row_store (hd ts) = s"
    using claimed_by_store_group(1) [OF grp] by (auto simp: stamped)
  then show ?thesis by (intro that [of c]) (simp_all add: group_model_def)
qed

text \<open>The decision seen from the row: its store, the model of its group, its generation\<close>

lemma deleted_row_decision:
  assumes "run_reclamation_worker_pass env locked b lease db objs = (res, w)"
    and "distinct (map rq_id (db_queue db))" "r \<in> set (db_queue db)"
    and "rq_status r \<noteq> RECLAMATION_STATUS_DELETED" "is_deleted (rq_id r) w"
  obtains c m live ny l where "r \<in> set (claim_batch locked (we_now env) b db)"
    "c \<in> set (db_queue db)" "row_store c = row_store r" "m = pst_model_id (rq_target c)"
    "we_gate env (row_store r) = Inr ()"
    "counterfactual_necessity env db (rq_id ` set (claim_batch locked (we_now env) b db)) m live = Inr ny"
    "l \<in> set live" "rq_target l = rq_target r" "necessary_reason ny (row_unit r) = None" "we_delete_enabled env"
    "\<not> snd (generation_gate_row (we_generation env (row_store r)) (we_now env) r)"
proof (rule worker_pass_deletes [OF assms])
  fix pre s ts suf v u o' ny l stamped claimed
  assume d: "claimed = rq_id ` set (claim_batch locked (we_now env) b db)"
    "stamped = map (stamp_claim (we_now env) (we_now env + lease)) (claim_batch locked (we_now env) b db)"
    "claimed_by_store stamped = pre @ (s, ts) # suf"
    "we_gate env s = Inr ()"
    "counterfactual_necessity env db claimed (group_model ts) (live_targets env s ts) = Inr ny"
    "l \<in> set (live_targets env s ts)" "rq_id l = rq_id r"
    "necessary_reason ny (row_unit l) = None" "we_delete_enabled env"
  have grp: "(s, ts) \<in> set (claimed_by_store stamped)" by (simp add: d(3))
  obtain q where q: "q \<in> set (claim_batch locked (we_now env) b db)" "rq_id q = rq_id l" "rq_target q = rq_target l"
    "row_store q = s" "\<not> snd (generation_gate_row (we_generation env s) (we_now env) q)"
    by (rule live_target_row [OF d(2) grp d(6)])
  moreover from q(1) claim_batch_set have "q \<in> set (db_queue db)" by blast
  ultimately have qr: "q = r" using d(7) assms(2,3) by (metis distinct_map inj_onD)
  obtain c where c: "c \<in> set (claim_batch locked (we_now env) b db)" "row_store c = s"
    "group_model ts = pst_model_id (rq_target c)" by (rule group_model_row [OF d(2) grp])
  moreover from c(1) claim_batch_set have "c \<in> set (db_queue db)" by blast
  ultimately show thesis
    by (intro that [of c "group_model ts" "live_targets env s ts" ny l])
       (use q qr d in \<open>simp_all add: row_unit_def\<close>)
qed

subsection \<open>Properties of the deletion decision\<close>

lemma worker_candidates_distinct:
  assumes "worker_candidates cov db runs n = Inr cands" shows "distinct (map fst cands)"
proof -
  from assms obtain cs where "cands = map (\<lambda>(vt, l). (vt, sort_key cc_lead_time_hours l)) (fold add_candidate (somes cs) [])"
    by (auto simp: worker_candidates_def bindE_eq_Inr)
  then have "map fst cands = map fst (fold add_candidate (somes cs) [])" by (simp add: case_prod_beta o_def)
  then show ?thesis using distinct_fold_add_candidate by fastforce
qed

lemma filter_candidates_distinct:
  assumes "filter_candidates_by_fence_index cov cands idx ens n = Inr filtered" "distinct (map fst cands)"
  shows "distinct (map fst filtered)"
proof (cases "fi_has_keys idx")
  case False
  with assms show ?thesis by (simp add: filter_candidates_by_fence_index_def)
next
  case True
  let ?f = "\<lambda>(v_time, cands). bindE (mapE (filter_candidate cov idx ens n) cands) (\<lambda>rs. Inr (v_time, somes rs))"
  from assms(1) True obtain items where items: "mapE ?f cands = Inr items"
    "filtered = filter (\<lambda>(v_time, cs). cs \<noteq> []) items"
    by (auto simp: filter_candidates_by_fence_index_def bindE_eq_Inr)
  have "map fst items = map fst cands"
    using items(1) unfolding mapE_Inr_iff
    by (induction rule: list_all2_induct) (auto simp: bindE_eq_Inr)
  then have "distinct (map fst items)" using assms(2) by simp
  then show ?thesis unfolding items(2) by (rule distinct_map_filter)
qed

text \<open>C3: The worker never deletes what serving selects: take the batch a pass claims as physically
  present and everything else in deletion, deleted or quarantined as absent; when canonical selection
  then takes a candidate as the source of a variable at some valid time of the serving window, no unit
  of that source is deleted by the pass, whether the pass returns or is ended by an exception.\<close>

theorem worker_keeps_canonical_sources:
  assumes "run_reclamation_worker_pass env locked b lease db objs = (res, w)"
    and "distinct (map rq_id (db_queue db))" "r \<in> set (db_queue db)"
    and "rq_status r \<noteq> RECLAMATION_STATUS_DELETED" "is_deleted (rq_id r) w"
    and "\<And>c. c \<in> set (db_queue db) \<Longrightarrow> row_store c = row_store r \<Longrightarrow> pst_model_id (rq_target c) = m"
    and "get_expected_members (we_coverage env) m (Some 1) = Inr n"
    and "worker_candidates (we_coverage env) db (worker_runs db m (we_version env)) n = Inr cands"
    and "filter_candidates_by_fence_index (we_coverage env) cands (build_fence_index
           (fence_keys db (rq_id ` set (claim_batch locked (we_now env) b db)))) (1 < n) n = Inr filtered"
    and "model_serving_start_valid_time (we_horizons env) m (utc_datetime (we_now env)) = Inr start"
    and "(vt, cs) \<in> set filtered" "start \<le> vt"
    and "v = pst_variable_code (rq_target r)" "clean_variable v = v"
    and "select_variable_source cs v (select_canonical_anchor cs) = Some src"
  shows "row_unit r \<notin> set (source_units (1 < n) src v)"
proof (rule deleted_row_decision [OF assms(1-5)])
  fix c m' live ny l
  assume d: "c \<in> set (db_queue db)" "row_store c = row_store r" "m' = pst_model_id (rq_target c)"
    "counterfactual_necessity env db (rq_id ` set (claim_batch locked (we_now env) b db)) m' live = Inr ny"
    "l \<in> set live" "rq_target l = rq_target r" "necessary_reason ny (row_unit r) = None"
  have m: "m' = m" using assms(6) [OF d(1,2)] d(3) by simp
  let ?vars = "planned_variables (map rq_target live)"
  from d(4) have src: "ny_source ny = set (sources_necessary (1 < n) ?vars (map fst filtered)
      (select_canonical_sources_bulk filtered (Some ?vars) None (Some start)))"
    by (auto simp: counterfactual_necessity_def Let_def bindE_eq_Inr m assms(7-10))
  have dist: "distinct (map fst filtered)"
    using filter_candidates_distinct [OF assms(9) worker_candidates_distinct [OF assms(8)]] .
  have var: "v \<in> set ?vars" unfolding assms(13) d(6) [symmetric] using d(5) by (intro planned_variables_iff) simp
  then have "resolved_by ?vars v"
    using assms(14) by (auto simp: resolved_by_def is_precipitation_companion_def
        PRECIPITATION_COMPANION_VARIABLES_def COMPANIONS_def)
  with bulk_lookup [OF dist, of ?vars None "Some start" v vt] have
    "crr_variable_sources (select_canonical_sources_bulk filtered (Some ?vars) None (Some start)) (v, vt) = Some (Some src)"
    using assms(11,12,15) dist by (auto simp: considered_def)
  then have "set (source_units (1 < n) src v) \<subseteq> ny_source ny"
    using var assms(11) unfolding src by (force simp: sources_necessary_def)
  with d(7) show ?thesis by (auto simp: necessary_reason_def split: if_splits)
qed

text \<open>C9: A queue row is deleted only under all the guards: it was queued or its lease had run out, no
  retry time lay ahead and no other transaction held it, deletion is enabled, the shared gate of its
  store was acquired, and the generation of the store is the one recorded with the row (a row without a
  record is taken as it is).\<close>

theorem worker_deletes_under_guards:
  assumes "run_reclamation_worker_pass env locked b lease db objs = (res, w)"
    and "distinct (map rq_id (db_queue db))" "r \<in> set (db_queue db)"
    and "rq_status r \<noteq> RECLAMATION_STATUS_DELETED" "is_deleted (rq_id r) w"
  shows "claimable (we_now env) r \<and> rq_id r \<notin> locked \<and> we_delete_enabled env \<and>
    we_gate env (row_store r) = Inr () \<and>
    (rq_store_generation r = None \<or> rq_store_generation r = we_generation env (row_store r))"
proof (rule deleted_row_decision [OF assms])
  assume d: "r \<in> set (claim_batch locked (we_now env) b db)" "we_gate env (row_store r) = Inr ()"
    "we_delete_enabled env" "\<not> snd (generation_gate_row (we_generation env (row_store r)) (we_now env) r)"
  from d(4) have "rq_store_generation r = None \<or> rq_store_generation r = we_generation env (row_store r)"
    by (auto simp: generation_gate_row_def split: option.splits if_splits)
  with d(1-3) claim_batch_set show ?thesis by blast
qed

text \<open>What a pass may do to the queue: the other tables are untouched, no row appears, disappears or
  moves, and only claimed rows change. A claimed row keeps its unit, its place in the order and its retry
  time, counts one attempt more, and is back in the queue without a lease, still in deletion under the
  new lease, or deleted now with deletion enabled; after a pass that returns, no claimed row is left in
  deletion.\<close>

theorem worker_pass_transitions:
  assumes "run_reclamation_worker_pass env locked b lease db objs = (res, w)"
    and "distinct (map rq_id (db_queue db))"
  shows "\<exists>f. ws_db w = db\<lparr>db_queue := map f (db_queue db)\<rparr> \<and>
    (\<forall>r. if r \<in> set (claim_batch locked (we_now env) b db)
         then row_transition env lease r (f r) \<and> (res = Inr () \<longrightarrow> rq_status (f r) \<noteq> RECLAMATION_STATUS_DELETING)
         else r \<in> set (db_queue db) \<longrightarrow> f r = r)"
proof (rule worker_pass_rows [OF assms])
  fix rows
  assume rows: "ws_db w = write_rows rows db"
    "rq_id ` set rows \<subseteq> rq_id ` set (claim_batch locked (we_now env) b db)"
    "\<And>r. r \<in> set (claim_batch locked (we_now env) b db) \<Longrightarrow> row_transition env lease r (overwrite rows r) \<and>
       (res = Inr () \<longrightarrow> rq_status (overwrite rows r) \<noteq> RECLAMATION_STATUS_DELETING)"
  have "overwrite rows r = r" if "r \<in> set (db_queue db)" "r \<notin> set (claim_batch locked (we_now env) b db)" for r
  proof (rule overwrite_other)
    show "rq_id r \<notin> rq_id ` set rows"
    proof
      assume "rq_id r \<in> rq_id ` set rows"
      with rows(2) have "rq_id r \<in> rq_id ` set (claim_batch locked (we_now env) b db)" by (rule subsetD)
      then obtain c where c: "c \<in> set (claim_batch locked (we_now env) b db)" "rq_id c = rq_id r"
        by (metis imageE)
      moreover from c(1) claim_batch_set have "c \<in> set (db_queue db)" by blast
      ultimately have "c = r" using assms(2) that(1) by (metis distinct_map inj_onD)
      with c that(2) show False by simp
    qed
  qed
  with rows show ?thesis by (intro exI [of _ "overwrite rows"]) (auto simp: write_rows_alt)
qed

subsection \<open>Wind pairs\<close>

text \<open>No component is deleted without its counterpart.\<close>

definition pairs_joint :: "catalog \<Rightarrow> bool" where
  "pairs_joint db \<longleftrightarrow> (\<forall>r \<in> set (db_queue db). rq_status r = RECLAMATION_STATUS_DELETED \<and>
     is_wind_component (unit_variable (row_unit r)) \<longrightarrow>
     unit_status db (counterpart_unit (row_unit r)) = Some RECLAMATION_STATUS_DELETED)"

lemma counterpart_involution:
  "is_wind_component (unit_variable u) \<Longrightarrow> counterpart_unit (counterpart_unit u) = u"
  "is_wind_component (unit_variable u) \<Longrightarrow> is_wind_component (unit_variable (counterpart_unit u))"
  by (auto simp: is_wind_component_def counterpart_unit_def counterpart_var_def unit_variable_def split: prod.splits)

lemma unit_status_iff:
  assumes "distinct (map row_unit (db_queue db))"
  shows "unit_status db u = Some st \<longleftrightarrow> (\<exists>r \<in> set (db_queue db). row_unit r = u \<and> rq_status r = st)"
proof
  assume "unit_status db u = Some st"
  then show "\<exists>r \<in> set (db_queue db). row_unit r = u \<and> rq_status r = st"
    by (auto simp: unit_status_def find_Some_iff)
next
  assume "\<exists>r \<in> set (db_queue db). row_unit r = u \<and> rq_status r = st"
  then obtain r where r: "r \<in> set (db_queue db)" "row_unit r = u" "rq_status r = st" by blast
  then obtain r' where r': "find (\<lambda>r. row_unit r = u) (db_queue db) = Some r'"
    by (cases "find (\<lambda>r. row_unit r = u) (db_queue db)") (auto simp: find_None_iff)
  then have "r' \<in> set (db_queue db)" "row_unit r' = u" by (auto simp: find_Some_iff)
  with r assms have "r' = r" by (metis distinct_map inj_on_def)
  with r r' show "unit_status db u = Some st" by (simp add: unit_status_def)
qed

text \<open>A row outside the stores still to be processed stays as it is.\<close>

lemma stores_run_keeps:
  assumes "is_deleted i w" "i \<notin> group_ids gs" "distinct (map rq_id (concat (map snd gs)))"
  shows "is_deleted i (snd (run_each (process_store env ids) gs w))"
proof -
  obtain res w' where r: "run_each (process_store env ids) gs w = (res, w')" by fastforce
  from stores_run_ids [OF this assms(3)] obtain rows where rows: "ws_db w' = write_rows rows (ws_db w)"
    "rq_id ` set rows \<subseteq> group_ids gs" by blast
  from assms(1) obtain n where n: "n \<in> set (db_queue (ws_db w))" "rq_id n = i" "rq_status n = RECLAMATION_STATUS_DELETED"
    by (auto simp: is_deleted_def)
  then have "overwrite rows n = n" using rows(2) assms(2) by (intro overwrite_other) blast
  with n rows(1) r show ?thesis by (force simp: is_deleted_def)
qed

text \<open>Rows that carry the target of the row they overwrite\<close>

definition keeps_targets :: "catalog \<Rightarrow> queue_row list \<Rightarrow> bool" where
  "keeps_targets db rows \<longleftrightarrow> (\<forall>n \<in> set rows. \<exists>r \<in> set (db_queue db). rq_id r = rq_id n \<and> rq_target r = rq_target n)"

lemma keeps_targetsD:
  assumes "keeps_targets db rows" "distinct (map rq_id (db_queue db))" "r \<in> set (db_queue db)"
  shows "rq_target (overwrite rows r) = rq_target r"
proof (cases rule: overwrite_cases [of rows r])
  case (new n)
  with assms(1) obtain r' where "r' \<in> set (db_queue db)" "rq_id r' = rq_id n" "rq_target r' = rq_target n"
    by (auto simp: keeps_targets_def)
  with new assms(2,3) show ?thesis by (metis distinct_map inj_onD)
qed simp

lemma keeps_targets_append:
  "keeps_targets db (rows @ rows') \<longleftrightarrow> keeps_targets db rows \<and> keeps_targets db rows'"
  by (auto simp: keeps_targets_def)

lemma keeps_targets_settled:
  assumes "keeps_targets db ts" "\<And>n. n \<in> set rows \<Longrightarrow> \<exists>t \<in> set ts. settled env t n"
  shows "keeps_targets db rows"
  using assms by (fastforce simp: keeps_targets_def settled_def)

lemma keeps_targets_subset: "keeps_targets db rows \<Longrightarrow> set rows' \<subseteq> set rows \<Longrightarrow> keeps_targets db rows'"
  by (auto simp: keeps_targets_def)

lemma keeps_targets_stamped:
  "keeps_targets db (map (stamp_claim now l) (claim_batch locked now b db))"
  using claim_batch_set [of locked now b db] by (auto simp: keeps_targets_def)

text \<open>A decision to delete one component in a store whose batch holds the other deletes both.\<close>

lemma reclaim_deletes:
  assumes "reclaim_targets env s m ny live w1 = o'" "l \<in> set live"
    and "\<not> deferred_pair (ws_db w1) ny live l" "necessary_reason ny (row_unit l) = None" "we_delete_enabled env"
    and "distinct (map rq_id live)" "rq_id l \<in> rq_id ` set (db_queue (ws_db w1))"
  shows "is_deleted (rq_id l) (snd o')"
proof -
  let ?rows = "decided_rows env ny (ws_db w1) live"
  have db: "ws_db (snd o') = write_rows ?rows (ws_db w1)"
    using reclaim_targets_db [of env s m ny live w1] assms(1) by simp
  obtain q where q: "q \<in> set (db_queue (ws_db w1))" "rq_id q = rq_id l" using assms(7) by force
  let ?n = "final_row env ny (deferred_pair (ws_db w1) ny live l) l"
  have "overwrite ?rows q = ?n"
    by (rule overwrite_found) (use assms(2,6) q(2) in \<open>auto simp: decided_rows_def o_def\<close>)
  moreover have "rq_status ?n = RECLAMATION_STATUS_DELETED" using assms(3-5) by (simp add: final_row_status)
  moreover have "overwrite ?rows q \<in> set (db_queue (ws_db (snd o')))" using q(1) by (simp add: db)
  ultimately show ?thesis by (metis is_deleted_def final_row_id)
qed

lemma live_ids: "rq_id ` set (live_targets env s ts) \<subseteq> rq_id ` set ts"
  using gated_ids [of env s ts] by (auto simp: live_targets_def)

lemma live_distinct: "distinct (map rq_id ts) \<Longrightarrow> distinct (map rq_id (live_targets env s ts))"
  unfolding live_targets_def by (rule distinct_map_filter) (simp add: gated_rows_ids)

lemma live_keeps: "keeps_targets db ts \<Longrightarrow> keeps_targets db (live_targets env s ts)"
  by (rule keeps_targets_settled [of _ ts _ env]) (use gated_settled in \<open>auto simp: live_targets_def\<close>)

text \<open>The state in which a store is decided: the queue carries the targets of the catalog, the rows of the
  later stores are still in deletion.\<close>

lemma pass_step:
  assumes stamped: "stamped = map (stamp_claim (we_now env) (we_now env + lease)) (claim_batch locked (we_now env) b db)"
      "distinct (map rq_id stamped)"
    and split: "claimed_by_store stamped = pre @ (s, ts) # suf"
    and run: "run_each (process_store env claimed) pre v = (Inr (), u)" "ws_db v = write_rows stamped db"
  shows "\<exists>written. ws_db (gated_state env s ts u) = write_rows written db \<and> keeps_targets db written \<and>
    keeps_targets db ts \<and> distinct (map rq_id ts) \<and> rq_id ` set ts \<inter> group_ids suf = {} \<and>
    distinct (map rq_id (concat (map snd suf))) \<and>
    (\<forall>x. rq_id x \<in> group_ids suf \<longrightarrow> rq_status (overwrite written x) = RECLAMATION_STATUS_DELETING)"
proof -
  have dg: "distinct (map rq_id (concat (map snd (pre @ (s, ts) # suf))))"
    using claimed_by_store_ids [OF stamped(2)] unfolding split .
  have members: "set (concat (map snd (pre @ (s, ts) # suf))) = set stamped"
    using claimed_by_store_rows [of stamped] unfolding split .
  have disj: "group_ids pre \<inter> (rq_id ` set ts \<union> group_ids suf) = {}" "rq_id ` set ts \<inter> group_ids suf = {}"
    using dg by (simp_all add: image_Un)
  have kst: "keeps_targets db stamped" unfolding stamped(1) by (rule keeps_targets_stamped)
  have kts: "keeps_targets db ts" using kst by (rule keeps_targets_subset) (use members in auto)
  have "distinct (map rq_id (concat (map snd pre)))" using dg by simp
  from stores_run_settled [OF run(1) this] obtain rows where rows: "ws_db u = write_rows rows (ws_db v)"
    "rq_id ` set rows \<subseteq> group_ids pre" "\<forall>n \<in> set rows. \<exists>t \<in> set (concat (map snd pre)). settled env t n"
    by (elim exE conjE)
  define written where "written = (if deferred_ids env s ts \<noteq> {} then gated_rows env s ts else []) @ rows @ stamped"
  have w1: "ws_db (gated_state env s ts u) = write_rows written db"
    by (simp add: gated_state_def rows(1) run(2) write_rows_twice written_def)
  have "keeps_targets db rows"
  proof (rule keeps_targets_settled [OF kst])
    fix n assume "n \<in> set rows"
    moreover have "set (concat (map snd pre)) \<subseteq> set stamped" unfolding members [symmetric] by auto
    ultimately show "\<exists>t \<in> set stamped. settled env t n" using rows(3) by blast
  qed
  moreover have "keeps_targets db (gated_rows env s ts)"
    using kts gated_settled by (rule keeps_targets_settled)
  ultimately have kw: "keeps_targets db written"
    using kst by (auto simp: written_def keeps_targets_append) (simp add: keeps_targets_def)
  have apart: "rq_id ` set (gated_rows env s ts) \<inter> group_ids suf = {}" "rq_id ` set rows \<inter> group_ids suf = {}"
  proof -
    have "P \<inter> S = {}" if "P \<subseteq> G" "G \<inter> (T \<union> S) = {}" for P G T S :: "string set" using that by blast
    from this [OF rows(2) disj(1)] disj(2) show "rq_id ` set (gated_rows env s ts) \<inter> group_ids suf = {}"
      "rq_id ` set rows \<inter> group_ids suf = {}" by (simp_all only: gated_ids)
  qed
  have "rq_status (overwrite written x) = RECLAMATION_STATUS_DELETING" if suf: "rq_id x \<in> group_ids suf" for x
  proof -
    have "rq_id x \<notin> rq_id ` set (gated_rows env s ts)" "rq_id x \<notin> rq_id ` set rows"
      using suf apart by (metis disjoint_iff)+
    then have "overwrite written x = overwrite stamped x" by (simp add: written_def overwrite_skip)
    moreover have "rq_id x \<in> rq_id ` set stamped" using suf unfolding members [symmetric] by auto
    then obtain n where "n \<in> set stamped" "overwrite stamped x = n"
      by (cases rule: overwrite_cases [of stamped x]) auto
    ultimately show ?thesis by (auto simp: stamped(1) stamp_claim_def)
  qed
  with w1 kw kts dg disj(2) show ?thesis by (intro exI [of _ written]) simp
qed

lemma counterpart_deleted:
  assumes p: "run_reclamation_worker_pass env locked b lease db objs = (res, w)"
    and ids: "distinct (map rq_id (db_queue db))" and units: "distinct (map row_unit (db_queue db))"
    and r: "r \<in> set (db_queue db)" "rq_status r \<noteq> RECLAMATION_STATUS_DELETED" "is_deleted (rq_id r) w"
    and wind: "is_wind_component (unit_variable (row_unit r))"
  shows "\<exists>q \<in> set (db_queue db). row_unit q = counterpart_unit (row_unit r) \<and> is_deleted (rq_id q) w"
proof (rule worker_pass_deletes [OF p ids r])
  fix pre s ts suf v u o' ny l stamped claimed
  assume d: "claimed = rq_id ` set (claim_batch locked (we_now env) b db)"
    "stamped = map (stamp_claim (we_now env) (we_now env + lease)) (claim_batch locked (we_now env) b db)"
    "claimed_by_store stamped = pre @ (s, ts) # suf"
    "run_each (process_store env claimed) pre v = (Inr (), u)" "ws_db v = write_rows stamped db"
    "reclaim_targets env s (group_model ts) ny (live_targets env s ts) (gated_state env s ts u) = o'"
    "snd (run_each (process_store env claimed) suf (snd o')) = w \<or> snd o' = w"
    "l \<in> set (live_targets env s ts)" "rq_id l = rq_id r"
    "\<not> deferred_pair (ws_db (gated_state env s ts u)) ny (live_targets env s ts) l"
    "necessary_reason ny (row_unit l) = None" "we_delete_enabled env" "distinct (map rq_id stamped)"
  let ?live = "live_targets env s ts" and ?w1 = "gated_state env s ts u"
  from pass_step [OF d(2,13,3-5)] obtain written where w1: "ws_db ?w1 = write_rows written db" and kw: "keeps_targets db written"
    and kts: "keeps_targets db ts" "distinct (map rq_id ts)" "rq_id ` set ts \<inter> group_ids suf = {}"
    and suf: "distinct (map rq_id (concat (map snd suf)))"
      "\<forall>x. rq_id x \<in> group_ids suf \<longrightarrow> rq_status (overwrite written x) = RECLAMATION_STATUS_DELETING"
    by (elim exE conjE)
  have tgt: "row_unit (overwrite written x) = row_unit x" if "x \<in> set (db_queue db)" for x
    using keeps_targetsD [OF kw ids that] by (simp add: row_unit_def)
  have origin: "\<exists>q \<in> set (db_queue db). rq_id q = rq_id x \<and> row_unit q = row_unit x" if "x \<in> set ?live" for x
    using live_keeps [OF kts(1), of env s] that by (fastforce simp: keeps_targets_def row_unit_def)
  have lr: "row_unit l = row_unit r"
    using origin [OF d(8)] d(9) r(1) ids by (metis distinct_map inj_onD)
  have after: "is_deleted i w" if i: "is_deleted i (snd o')" "i \<notin> group_ids suf" for i
    using stores_run_keeps [OF i suf(1), of env claimed] d(7) i(1) by (elim disjE) simp_all
  let ?other = "counterpart_unit (row_unit r)"
  show ?thesis
  proof (cases "?other \<in> row_unit ` set ?live")
    case True
    then obtain l2 where l2: "l2 \<in> set ?live" "row_unit l2 = ?other" by auto
    have rin: "row_unit r \<in> row_unit ` set ?live" using d(8) lr by (metis image_eqI)
    have "is_deleted (rq_id l2) (snd o')"
    proof (rule reclaim_deletes [OF d(6) l2(1)])
      show "\<not> deferred_pair (ws_db ?w1) ny ?live l2" "necessary_reason ny (row_unit l2) = None"
        using d(10,11) True rin wind counterpart_involution [of "row_unit r"]
        by (auto simp: deferred_pair_def Let_def l2(2) lr)
      show "distinct (map rq_id ?live)" using live_distinct [OF kts(2)] .
      show "rq_id l2 \<in> rq_id ` set (db_queue (ws_db ?w1))"
        using origin [OF l2(1)] by (simp add: w1 image_image) (metis image_eqI)
    qed (rule d(12))
    moreover have "rq_id l2 \<notin> group_ids suf" using l2(1) live_ids [of env s ts] kts(3) by auto
    ultimately show ?thesis using after origin [OF l2(1)] l2(2) by metis
  next
    case False
    then have "unit_status (ws_db ?w1) ?other = Some RECLAMATION_STATUS_DELETED"
      using d(10,11) wind by (auto simp: deferred_pair_def Let_def lr)
    then obtain n where n: "find (\<lambda>r. row_unit r = ?other) (db_queue (ws_db ?w1)) = Some n"
      "rq_status n = RECLAMATION_STATUS_DELETED" by (auto simp: unit_status_def)
    from find_SomeD [OF n(1)] have "n \<in> set (db_queue (ws_db ?w1))" "row_unit n = ?other" by auto
    then obtain x where x: "x \<in> set (db_queue db)" "row_unit x = ?other"
      "rq_status (overwrite written x) = RECLAMATION_STATUS_DELETED"
      using tgt n(2) by (auto simp: w1)
    have "rq_id x \<notin> rq_id ` set ?live"
    proof
      assume "rq_id x \<in> rq_id ` set ?live"
      then obtain y where y: "y \<in> set ?live" "rq_id y = rq_id x" by (metis imageE)
      from origin [OF y(1)] obtain q where "q \<in> set (db_queue db)" "rq_id q = rq_id y" "row_unit q = row_unit y" by blast
      then have "row_unit y = ?other" using x(1,2) y(2) ids by (metis distinct_map inj_onD)
      with y(1) False show False by force
    qed
    moreover have "ws_db (snd o') = write_rows (decided_rows env ny (ws_db ?w1) ?live) (ws_db ?w1)"
      using reclaim_targets_db [of env s "group_model ts" ny ?live ?w1] d(6) by simp
    moreover have "rq_id ` set (decided_rows env ny (ws_db ?w1) ?live) = rq_id ` set ?live"
      by (simp add: decided_rows_def image_image)
    ultimately have del: "is_deleted (rq_id x) (snd o')"
      using x(1,3) overwrite_other [of "overwrite written x" "decided_rows env ny (ws_db ?w1) ?live"]
      by (auto simp: is_deleted_def w1)
    have "rq_id x \<notin> group_ids suf" using x(3) suf(2) by force
    from after [OF del this] x(1,2) show ?thesis by blast
  qed
qed

lemma pass_targets:
  assumes "run_reclamation_worker_pass env locked b lease db objs = (res, w)"
    and "distinct (map rq_id (db_queue db))"
  obtains f where "ws_db w = db\<lparr>db_queue := map f (db_queue db)\<rparr>"
    "\<And>r. r \<in> set (db_queue db) \<Longrightarrow> rq_id (f r) = rq_id r \<and> rq_target (f r) = rq_target r"
    "\<And>r. r \<in> set (db_queue db) \<Longrightarrow> rq_status r = RECLAMATION_STATUS_DELETED \<Longrightarrow> f r = r"
proof (rule worker_pass_rows [OF assms])
  fix rows
  assume rows: "ws_db w = write_rows rows db"
    "rq_id ` set rows \<subseteq> rq_id ` set (claim_batch locked (we_now env) b db)"
    "\<And>r. r \<in> set (claim_batch locked (we_now env) b db) \<Longrightarrow> row_transition env lease r (overwrite rows r) \<and>
       (res = Inr () \<longrightarrow> rq_status (overwrite rows r) \<noteq> RECLAMATION_STATUS_DELETING)"
  have same: "overwrite rows r = r \<or> row_transition env lease r (overwrite rows r) \<and> claimable (we_now env) r"
    if "r \<in> set (db_queue db)" for r
  proof (cases rule: overwrite_cases [of rows r])
    case (new n)
    then have "rq_id r \<in> rq_id ` set (claim_batch locked (we_now env) b db)"
      using rows(2) by (metis image_eqI subsetD)
    then obtain c where c: "c \<in> set (claim_batch locked (we_now env) b db)" "rq_id c = rq_id r" by (metis imageE)
    moreover from c(1) claim_batch_set have "c \<in> set (db_queue db)" "claimable (we_now env) c" by blast+
    ultimately have "c = r" using assms(2) that by (metis distinct_map inj_onD)
    with rows(3) [OF c(1)] \<open>claimable (we_now env) c\<close> show ?thesis by blast
  qed simp
  show thesis
  proof (rule that [of "overwrite rows"])
    show "ws_db w = db\<lparr>db_queue := map (overwrite rows) (db_queue db)\<rparr>" using rows(1) by (simp add: write_rows_alt)
    fix r assume r: "r \<in> set (db_queue db)"
    from same [OF r] show "rq_id (overwrite rows r) = rq_id r \<and> rq_target (overwrite rows r) = rq_target r"
      by (auto simp: row_transition_def)
    assume "rq_status r = RECLAMATION_STATUS_DELETED"
    with same [OF r] show "overwrite rows r = r" by (auto simp: claimable_def)
  qed
qed

lemma worker_pass_keeps_pairs:
  assumes p: "run_reclamation_worker_pass env locked b lease db objs = (res, w)"
    and ids: "distinct (map rq_id (db_queue db))" and units: "distinct (map row_unit (db_queue db))"
    and pairs: "pairs_joint db"
  shows "pairs_joint (ws_db w) \<and> map row_unit (db_queue (ws_db w)) = map row_unit (db_queue db) \<and>
    map rq_id (db_queue (ws_db w)) = map rq_id (db_queue db)"
proof (rule pass_targets [OF p ids])
  fix f
  assume f: "ws_db w = db\<lparr>db_queue := map f (db_queue db)\<rparr>"
    "\<And>r. r \<in> set (db_queue db) \<Longrightarrow> rq_id (f r) = rq_id r \<and> rq_target (f r) = rq_target r"
    "\<And>r. r \<in> set (db_queue db) \<Longrightarrow> rq_status r = RECLAMATION_STATUS_DELETED \<Longrightarrow> f r = r"
  have unit: "row_unit (f r) = row_unit r" if "r \<in> set (db_queue db)" for r
    using f(2) [OF that] by (simp add: row_unit_def)
  have same: "map row_unit (db_queue (ws_db w)) = map row_unit (db_queue db)"
    "map rq_id (db_queue (ws_db w)) = map rq_id (db_queue db)" using unit f(2) by (simp_all add: f(1))
  have d: "distinct (map row_unit (db_queue (ws_db w)))" using same(1) units by simp
  have "unit_status (ws_db w) (counterpart_unit (row_unit n)) = Some RECLAMATION_STATUS_DELETED"
    if n: "n \<in> set (db_queue (ws_db w))" "rq_status n = RECLAMATION_STATUS_DELETED"
      "is_wind_component (unit_variable (row_unit n))" for n
  proof -
    from n(1) obtain r where r: "r \<in> set (db_queue db)" "n = f r" by (auto simp: f(1))
    then have ur: "row_unit n = row_unit r" using unit by simp
    have "\<exists>q \<in> set (db_queue db). row_unit q = counterpart_unit (row_unit r) \<and>
        rq_status (f q) = RECLAMATION_STATUS_DELETED"
    proof (cases "rq_status r = RECLAMATION_STATUS_DELETED")
      case True
      then have "unit_status db (counterpart_unit (row_unit r)) = Some RECLAMATION_STATUS_DELETED"
        using pairs r(1) n(3) by (simp add: pairs_joint_def ur)
      then obtain q where q: "q \<in> set (db_queue db)" "row_unit q = counterpart_unit (row_unit r)"
        "rq_status q = RECLAMATION_STATUS_DELETED" unfolding unit_status_iff [OF units] by blast
      with f(3) [OF q(1,3)] show ?thesis by (intro bexI [of _ q]) simp_all
    next
      case False
      have "is_deleted (rq_id r) w" using n r f(2) by (auto simp: is_deleted_def)
      from counterpart_deleted [OF p ids units r(1) False this] n(3) obtain q where
        q: "q \<in> set (db_queue db)" "row_unit q = counterpart_unit (row_unit r)" "is_deleted (rq_id q) w"
        by (auto simp: ur)
      from q(3) obtain x where x: "x \<in> set (db_queue db)" "rq_id (f x) = rq_id q"
        "rq_status (f x) = RECLAMATION_STATUS_DELETED" by (auto simp: is_deleted_def f(1))
      then have "x = q" using f(2) ids q(1) by (metis distinct_map inj_onD)
      with q x show ?thesis by blast
    qed
    then show ?thesis unfolding unit_status_iff [OF d] using unit by (auto simp: f(1) ur)
  qed
  with same show ?thesis by (auto simp: pairs_joint_def)
qed

subsection \<open>Reachable catalogs\<close>

text \<open>
  The life of the queue: planning passes that enqueue and worker passes, in any order, with any
  parameters, any other changes of the tables the passes only read, and any failure of a worker pass.
  That primary keys stay unique is the constraint of the table.
\<close>

inductive gc_step :: "catalog \<Rightarrow> catalog \<Rightarrow> bool" where
  plan: "plan_reclamation_pass reg cov uuid gen db models False now batch_size = Inr (p, db') \<Longrightarrow>
     0 < batch_size \<Longrightarrow> distinct (map rq_id (db_queue db')) \<Longrightarrow> gc_step db db'"
| work: "run_reclamation_worker_pass env locked b lease db objs = (res, w) \<Longrightarrow> gc_step db (ws_db w)"
| other: "db_queue db' = db_queue db \<Longrightarrow> gc_step db db'"

inductive gc_reachable :: "catalog \<Rightarrow> bool" where
  start: "db_queue db = [] \<Longrightarrow> gc_reachable db"
| step: "gc_reachable db \<Longrightarrow> gc_step db db' \<Longrightarrow> gc_reachable db'"

definition queue_ok :: "catalog \<Rightarrow> bool" where
  "queue_ok db \<longleftrightarrow> distinct (map rq_id (db_queue db)) \<and> distinct (map row_unit (db_queue db)) \<and> pairs_joint db"

lemma plan_keeps_queue_ok:
  assumes p: "plan_reclamation_pass reg cov uuid gen db models False now b = Inr (r, db')" "0 < b"
    and "distinct (map rq_id (db_queue db'))" and ok: "queue_ok db"
  shows "queue_ok db'"
proof -
  let ?rows = "map (new_queue_row uuid gen (ensure_utc now)) (enumerate 0 (rp_would_enqueue r))"
  have db': "db' = db\<lparr>db_queue := fold insert_queue_row ?rows (db_queue db)\<rparr>"
    using pass_writes [OF p] by blast
  obtain new where new: "fold insert_queue_row ?rows (db_queue db) = db_queue db @ new" "set new \<subseteq> set ?rows"
    using fold_insert_queue_grows by blast
  have queued: "rq_status n = RECLAMATION_STATUS_QUEUED" if "n \<in> set new" for n
    using that new(2) by (auto simp: new_queue_row_def status_defs)
  have ru: "row_unit = target_tuple \<circ> rq_target" by (simp add: row_unit_def fun_eq_iff)
  have d: "distinct (map row_unit (db_queue db'))"
    using fold_insert_queue_distinct [of "db_queue db" ?rows] ok by (simp add: db' queue_ok_def ru)
  have units: "distinct (map row_unit (db_queue db))" using ok by (simp add: queue_ok_def)
  have "unit_status db' u = Some RECLAMATION_STATUS_DELETED" if "unit_status db u = Some RECLAMATION_STATUS_DELETED" for u
    using that unfolding unit_status_iff [OF d] unit_status_iff [OF units] by (auto simp: db' new(1))
  note old = this
  have "unit_status db' (counterpart_unit (row_unit n)) = Some RECLAMATION_STATUS_DELETED"
    if n: "n \<in> set (db_queue db')" "rq_status n = RECLAMATION_STATUS_DELETED"
      "is_wind_component (unit_variable (row_unit n))" for n
  proof -
    have "n \<in> set (db_queue db)" using n(1,2) queued [of n] by (auto simp: db' new(1))
    with ok n(2,3) show ?thesis by (intro old) (auto simp: pairs_joint_def queue_ok_def)
  qed
  then have "pairs_joint db'" by (simp add: pairs_joint_def)
  with d assms(3) show ?thesis by (simp add: queue_ok_def)
qed

lemma gc_reachable_ok: "gc_reachable db \<Longrightarrow> queue_ok db"
proof (induction rule: gc_reachable.induct)
  case (start db)
  then show ?case by (simp add: queue_ok_def pairs_joint_def)
next
  case (step db db')
  from step.hyps(2) show ?case
  proof cases
    case (plan reg cov uuid gen models now batch_size p)
    then show ?thesis using plan_keeps_queue_ok step.IH by blast
  next
    case (work env locked b lease objs res w)
    with worker_pass_keeps_pairs [OF work(2)] step.IH show ?thesis by (simp add: queue_ok_def)
  next
    case other
    with step.IH show ?thesis by (simp add: queue_ok_def pairs_joint_def unit_status_def)
  qed
qed

text \<open>C4: The two components of a wind vector are deleted jointly: in every catalog that planning
  passes and worker passes can reach from an empty queue, whatever the tables they read, the parameters
  and the failures are, a component marked deleted, the zonal as well as the meridional one, has its counterpart
  (same run, lead, kind and member) marked deleted too.\<close>

theorem wind_pairs_deleted_jointly:
  assumes "gc_reachable db" "r \<in> set (db_queue db)" "rq_status r = ''deleted''"
    and "row_unit r = (run, lead, v, kind, mem)"
    and "(v, v') \<in> {(''wind_u_10m'', ''wind_v_10m''), (''wind_v_10m'', ''wind_u_10m'')}"
  shows "\<exists>q \<in> set (db_queue db). rq_status q = ''deleted'' \<and> row_unit q = (run, lead, v', kind, mem)"
proof -
  have ok: "distinct (map row_unit (db_queue db))" "pairs_joint db"
    using gc_reachable_ok [OF assms(1)] by (simp_all add: queue_ok_def)
  have "is_wind_component (unit_variable (row_unit r))"
    using assms(5) by (auto simp: assms(4) is_wind_component_def unit_variable_def)
  then have "unit_status db (counterpart_unit (row_unit r)) = Some RECLAMATION_STATUS_DELETED"
    using ok(2) assms(2,3) by (simp add: pairs_joint_def RECLAMATION_STATUS_DELETED_def)
  moreover have "counterpart_unit (row_unit r) = (run, lead, v', kind, mem)"
    using assms(5) by (auto simp: assms(4) counterpart_unit_def counterpart_var_def)
  ultimately show ?thesis
    unfolding unit_status_iff [OF ok(1)] by (auto simp: status_defs)
qed

end
