(* ===== verification/GcRecovery.thy ===== *)
theory GcRecovery
  imports GcWorkerSafety
begin

text \<open>
  The rest of \<open>ingestion/gc/worker.py\<close>: which objects a pass removes, what a batch that is held back
  does to the rows behind it, and the purge of old rows. The concrete instances of the worker's
  properties are at the end.
\<close>

subsection \<open>Objects\<close>

text \<open>A delete request removes nothing but the objects it names; it may leave any of them.\<close>

definition deletes_only :: "delete_request \<Rightarrow> bool" where
  "deletes_only rm \<longleftrightarrow> (\<forall>ps objs. objs - set ps \<subseteq> rm ps objs)"

lemma deletes_onlyD: "deletes_only rm \<Longrightarrow> x \<in> objs \<Longrightarrow> x \<notin> set ps \<Longrightarrow> x \<in> rm ps objs"
  by (auto simp: deletes_only_def)

lemma delete_one_keeps:
  "deletes_only rm \<Longrightarrow> x \<in> objs \<Longrightarrow> x \<noteq> object_of s key \<Longrightarrow> x \<in> delete_physical_object rm s key objs"
  by (auto simp: delete_physical_object_def Let_def intro: deletes_onlyD)

lemma fold_keeps: "(\<And>y os. y \<in> set ys \<Longrightarrow> x \<in> os \<Longrightarrow> x \<in> f y os) \<Longrightarrow> x \<in> objs \<Longrightarrow> x \<in> fold f ys objs"
  by (induction ys arbitrary: objs) auto

lemma delete_batch_keeps:
  assumes "deletes_only rm" "x \<in> objs" "x \<notin> object_of s ` set keys"
  shows "x \<in> delete_physical_objects_batch rm s keys objs"
proof -
  let ?paths = "map (object_of s) keys"
  have out: "x \<notin> set ?paths" using assms(3) by simp
  have "x \<in> fold rm (map (\<lambda>i. take n (drop (nat i) ?paths)) is) objs" for "is" n
    using assms(2) out by (intro fold_keeps) (auto intro!: deletes_onlyD [OF assms(1)] dest!: in_set_takeD in_set_dropD)
  moreover have "x \<in> fold (\<lambda>y os. if y \<in> os then rm [y] os else os) ?paths objs"
    using assms(2) out by (intro fold_keeps) (auto intro!: deletes_onlyD [OF assms(1)])
  ultimately show ?thesis unfolding delete_physical_objects_batch_def Let_def by simp
qed

text \<open>The marker of a region whose expected variables are all deleted\<close>

definition finished_marker :: "worker_env \<Rightarrow> catalog \<Rightarrow> string \<Rightarrow> string \<times> int \<times> string \<times> int \<Rightarrow> string \<Rightarrow> bool" where
  "finished_marker env db m region key \<longleftrightarrow> (case region of (run, lead, kind, mem) \<Rightarrow>
     \<exists>expected. get_expected_region_variables (we_regions env) m kind
         (Some (run_version db (we_version env) run)) None = Inr expected \<and>
       expected \<noteq> {} \<and> expected \<subseteq> deleted_variables db region \<and>
       make_region_marker_relative_key kind lead mem = Inr key)"

lemma clean_markers_keep:
  assumes "deletes_only (we_rm env)" "x \<in> ws_objects w"
    and "x \<notin> ws_objects (snd (run_each (clean_marker_step env m s) regions w))"
  shows "\<exists>region \<in> set regions. \<exists>key. finished_marker env (ws_db w) m region key \<and> x = object_of s key"
  using assms(2,3)
proof (induction regions arbitrary: w)
  case (Cons region regions)
  obtain o' u where u: "clean_marker_step env m s region w = (o', u)" by fastforce
  have db: "ws_db u = ws_db w" using clean_marker_db [of env m s region w] u by simp
  show ?case
  proof (cases "x \<in> ws_objects u")
    case True
    with Cons.prems(2) u obtain y where "o' = Inr y" by (cases o') auto
    then have "x \<notin> ws_objects (snd (run_each (clean_marker_step env m s) regions u))"
      using Cons.prems(2) u by simp
    from Cons.IH [OF True this] show ?thesis unfolding db by auto
  next
    case False
    obtain run lead kind mem where reg: "region = (run, lead, kind, mem)" by (metis prod_cases4)
    have "\<exists>key. finished_marker env (ws_db w) m region key \<and> x = object_of s key"
    proof (rule ccontr)
      assume no: "\<not> ?thesis"
      have "x \<in> ws_objects u"
        using u Cons.prems(1) no assms(1)
        by (auto simp: clean_marker_step_def clean_marker_def reg finished_marker_def can_delete_region_marker_def
            bindE_def split: sum.splits if_splits intro!: delete_one_keeps)
      with False show False by simp
    qed
    then show ?thesis by auto
  qed
qed simp

lemma reclaim_objects:
  assumes "deletes_only (we_rm env)" "x \<in> ws_objects w1"
    and "x \<notin> ws_objects (snd (reclaim_targets env s m ny live w1))"
  obtains l where "l \<in> set live" "\<not> deferred_pair (ws_db w1) ny live l" "necessary_reason ny (row_unit l) = None"
    "we_delete_enabled env"
    "x = object_of s (pst_physical_key (rq_target l)) \<or>
     (\<exists>key. finished_marker env (ws_db (snd (reclaim_targets env s m ny live w1))) m (row_region l) key \<and>
        x = object_of s key)"
proof -
  let ?decided = "map (\<lambda>t. decide_target env ny (deferred_pair (ws_db w1) ny live t) t) live"
  define authorized where "authorized = map fst (filter (\<lambda>(t, a, h). a) ?decided)"
  let ?w2 = "w1\<lparr>ws_db := write_rows (map (\<lambda>(t, a, h). if a then mark_deleted (we_now env) t else t) ?decided) (ws_db w1),
      ws_objects := delete_physical_objects_batch (we_rm env) s (map (pst_physical_key \<circ> rq_target) authorized) (ws_objects w1),
      ws_deleted := ws_deleted w1 + length authorized,
      ws_revalidated := ws_revalidated w1 + length (filter (\<lambda>(t, a, h). h) ?decided)\<rparr>"
  have r: "reclaim_targets env s m ny live w1 =
      run_each (clean_marker_step env m s) (remdups (map row_region authorized)) ?w2"
    by (simp only: reclaim_targets_def Let_def authorized_def)
  have db: "ws_db (snd (reclaim_targets env s m ny live w1)) = ws_db ?w2"
    unfolding r by (rule run_each_invariant) (simp_all add: clean_marker_db)
  have auth: "l \<in> set live \<and> \<not> deferred_pair (ws_db w1) ny live l \<and> necessary_reason ny (row_unit l) = None
      \<and> we_delete_enabled env" if "l \<in> set authorized" for l
    using that by (auto simp: authorized_def decide_target_def split: if_splits option.splits)
  have "\<exists>l \<in> set authorized. x = object_of s (pst_physical_key (rq_target l)) \<or>
     (\<exists>key. finished_marker env (ws_db ?w2) m (row_region l) key \<and> x = object_of s key)"
  proof (cases "x \<in> object_of s ` set (map (pst_physical_key \<circ> rq_target) authorized)")
    case True
    then show ?thesis by auto
  next
    case False
    then have "x \<in> ws_objects ?w2" using delete_batch_keeps [OF assms(1,2) False] by simp
    from clean_markers_keep [OF assms(1) this assms(3) [unfolded r]]
    show ?thesis by auto
  qed
  then show ?thesis using that auth unfolding db by blast
qed

lemma run_version_write [simp]: "run_version (write_rows rows db) v r = run_version db v r"
  unfolding run_version_def write_rows_alt other_tables by (rule refl)

lemma finished_marker_mono:
  assumes "finished_marker env (write_rows rows1 db) m region key"
    and "deleted_variables (write_rows rows1 db) region \<subseteq> deleted_variables (write_rows rows2 db) region"
  shows "finished_marker env (write_rows rows2 db) m region key"
  using assms by (fastforce simp: finished_marker_def)

lemma process_store_objects:
  assumes "process_store env ids (s, ts) u = o'" "x \<in> ws_objects u" "x \<notin> ws_objects (snd o')"
  obtains ny where "reclaim_targets env s (group_model ts) ny (live_targets env s ts) (gated_state env s ts u) = o'"
    "x \<in> ws_objects (gated_state env s ts u)"
proof -
  obtain res w' where o': "o' = (res, w')" by fastforce
  have g: "ws_objects (gated_state env s ts u) = ws_objects u" by (simp add: gated_state_def)
  show ?thesis
    using assms(1) [unfolded o'] by (cases rule: process_store_cases) (use assms(2,3) o' g that in auto)
qed

lemma deleted_variables_suffix:
  assumes "deleted_variables (write_rows rows db) region = V"
    and "\<And>n. n \<in> set (db_queue (write_rows rows db)) \<Longrightarrow> rq_status n = RECLAMATION_STATUS_DELETED \<Longrightarrow>
       rq_id n \<notin> rq_id ` set rows'"
  shows "V \<subseteq> deleted_variables (write_rows (rows' @ rows) db) region"
proof
  fix v assume "v \<in> V"
  then obtain n where n: "n \<in> set (db_queue (write_rows rows db))" "row_region n = region"
    "rq_status n = RECLAMATION_STATUS_DELETED" "v = unit_variable (row_unit n)"
    unfolding assms(1) [symmetric] by (auto simp: deleted_variables_def)
  have "overwrite rows' n = n" using assms(2) [OF n(1,3)] by (rule overwrite_other)
  then have "n \<in> set (db_queue (write_rows (rows' @ rows) db))"
    using n(1) by (force simp: write_rows_twice [symmetric])
  with n show "v \<in> deleted_variables (write_rows (rows' @ rows) db) region"
    by (force simp: deleted_variables_def)
qed

text \<open>C5: What a pass removes from the object store: each object that is gone was the shard of a row the
  pass marked deleted, or the commit marker of the region of such a row, all of whose expected variables
  are deleted. Nothing else is touched, whichever delete requests fail.\<close>

theorem worker_removes_only:
  assumes rm: "deletes_only (we_rm env)"
    and p: "run_reclamation_worker_pass env locked b lease db objs = (res, w)"
    and ids: "distinct (map rq_id (db_queue db))"
    and models: "\<And>c r. c \<in> set (db_queue db) \<Longrightarrow> r \<in> set (db_queue db) \<Longrightarrow> row_store c = row_store r \<Longrightarrow>
       pst_model_id (rq_target c) = pst_model_id (rq_target r)"
    and x: "x \<in> objs" "x \<notin> ws_objects w"
  shows "\<exists>r \<in> set (db_queue db). rq_status r \<noteq> RECLAMATION_STATUS_DELETED \<and> is_deleted (rq_id r) w \<and>
    (x = object_of (row_store r) (pst_physical_key (rq_target r)) \<or>
     (\<exists>key. finished_marker env (ws_db w) (pst_model_id (rq_target r)) (row_region r) key \<and>
        x = object_of (row_store r) key))"
  using p
proof (cases rule: worker_pass_cases)
  case idle
  with x show ?thesis by simp
next
  case (run stamped w0)
  let ?claimed = "claim_batch locked (we_now env) b db"
  have idl: "map rq_id stamped = map rq_id ?claimed" by (simp add: run(2))
  then have dist: "distinct (map rq_id stamped)" using claim_batch_ids [OF ids] by simp
  have "\<not> x \<notin> ws_objects w0" using x(1) run(4) by simp
  from this x(2) obtain pre g suf u where g: "claimed_by_store stamped = pre @ g # suf"
    "run_each (process_store env (rq_id ` set ?claimed)) pre w0 = (Inr (), u)" "\<not> x \<notin> ws_objects u"
    "x \<notin> ws_objects (snd (process_store env (rq_id ` set ?claimed) g u))"
    "snd (run_each (process_store env (rq_id ` set ?claimed)) suf (snd (process_store env (rq_id ` set ?claimed) g u))) = w
       \<or> snd (process_store env (rq_id ` set ?claimed) g u) = w"
    by (rule run_each_first [OF run(6), of "\<lambda>w. x \<notin> ws_objects w"]) (rule that)
  obtain s ts where st: "g = (s, ts)" by fastforce
  define o' where "o' = process_store env (rq_id ` set ?claimed) (s, ts) u"
  let ?live = "live_targets env s ts" and ?w1 = "gated_state env s ts u"
  obtain ny where ny: "reclaim_targets env s (group_model ts) ny ?live ?w1 = o'" "x \<in> ws_objects ?w1"
    by (rule process_store_objects [of env "rq_id ` set ?claimed" s ts u o' x])
       (use g(3,4) st in \<open>auto simp: o'_def\<close>)
  from pass_step [OF run(2) dist g(1) [unfolded st] g(2) run(3)] obtain written where
    w1: "ws_db ?w1 = write_rows written db" and kts: "keeps_targets db written" "keeps_targets db ts"
      "distinct (map rq_id ts)" "rq_id ` set ts \<inter> group_ids suf = {}"
    and suf: "distinct (map rq_id (concat (map snd suf)))"
      "\<forall>x. rq_id x \<in> group_ids suf \<longrightarrow> rq_status (overwrite written x) = RECLAMATION_STATUS_DELETING"
    by (elim exE conjE)
  let ?dec = "decided_rows env ny (ws_db ?w1) ?live"
  have after_db: "ws_db (snd o') = write_rows (?dec @ written) db"
    using reclaim_targets_db [of env s "group_model ts" ny ?live ?w1] ny(1) by (simp add: w1 write_rows_twice)
  have "\<exists>rows. ws_db w = write_rows rows (ws_db (snd o')) \<and> rq_id ` set rows \<subseteq> group_ids suf"
  proof (cases "snd o' = w")
    case True
    then show ?thesis by (intro exI [of _ "[]"]) (simp add: write_rows_Nil)
  next
    case False
    with g(5) st have "snd (run_each (process_store env (rq_id ` set ?claimed)) suf (snd o')) = w"
      by (simp add: o'_def)
    then show ?thesis using stores_run_ids [OF _ suf(1)] by (metis prod.collapse)
  qed
  then obtain rows where rows: "ws_db w = write_rows (rows @ ?dec @ written) db" "rq_id ` set rows \<subseteq> group_ids suf"
    by (auto simp: after_db write_rows_twice)
  have deleted_out: "rq_id n \<notin> group_ids suf"
    if n: "n \<in> set (db_queue (write_rows (?dec @ written) db))" "rq_status n = RECLAMATION_STATUS_DELETED" for n
  proof
    assume in_suf: "rq_id n \<in> group_ids suf"
    from n(1) obtain q where q: "n = overwrite (?dec @ written) q" by auto
    have "rq_id ` set ?dec \<subseteq> rq_id ` set ts" using live_ids [of env s ts] by (simp add: decided_rows_def image_image)
    then have "rq_id q \<notin> rq_id ` set ?dec" using in_suf kts(4) q by (metis disjoint_iff overwrite_id subsetD)
    then have "n = overwrite written q" using q by (simp add: overwrite_skip)
    with n(2) suf(2) in_suf q show False by (metis overwrite_id status_distinct(3))
  qed
  from reclaim_objects [OF rm ny(2), of s "group_model ts" ny ?live] g(4) st ny(1)
  obtain l where l: "l \<in> set ?live" "\<not> deferred_pair (ws_db ?w1) ny ?live l" "necessary_reason ny (row_unit l) = None"
    "we_delete_enabled env" "x = object_of s (pst_physical_key (rq_target l)) \<or>
     (\<exists>key. finished_marker env (ws_db (snd o')) (group_model ts) (row_region l) key \<and> x = object_of s key)"
    by (metis o'_def)
  have grp: "(s, ts) \<in> set (claimed_by_store stamped)" by (simp add: g(1) st)
  obtain q where q: "q \<in> set ?claimed" "rq_id q = rq_id l" "rq_target q = rq_target l" "row_store q = s"
    by (rule live_target_row [OF run(2) grp l(1)])
  from q(1) claim_batch_set have qq: "q \<in> set (db_queue db)" "claimable (we_now env) q" by blast+
  then have live_q: "rq_status q \<noteq> RECLAMATION_STATUS_DELETED" by (auto simp: claimable_def)
  obtain c where c: "c \<in> set ?claimed" "row_store c = s" "group_model ts = pst_model_id (rq_target c)"
    by (rule group_model_row [OF run(2) grp])
  from c(1) claim_batch_set have "c \<in> set (db_queue db)" by blast
  then have model: "group_model ts = pst_model_id (rq_target q)"
    using models [OF _ qq(1)] c(2,3) q(4) by simp
  have "rq_id l \<in> rq_id ` set (db_queue (ws_db ?w1))" using qq(1) q(2) by (simp add: w1 image_image) (metis image_eqI)
  from reclaim_deletes [OF ny(1) l(1-4) live_distinct [OF kts(3)] this]
  obtain n where n: "n \<in> set (db_queue (ws_db (snd o')))" "rq_id n = rq_id l" "rq_status n = RECLAMATION_STATUS_DELETED"
    by (auto simp: is_deleted_def)
  have "overwrite rows n = n"
    using deleted_out [OF n(1) [unfolded after_db] n(3)] rows(2) by (intro overwrite_other) blast
  then have "n \<in> set (db_queue (ws_db w))"
    using n(1) by (force simp: rows(1) after_db write_rows_twice [symmetric])
  then have gone: "is_deleted (rq_id q) w" using n(2,3) q(2) by (auto simp: is_deleted_def)
  have "deleted_variables (ws_db (snd o')) region \<subseteq> deleted_variables (ws_db w) region" for region
    unfolding rows(1) after_db
    by (rule deleted_variables_suffix [OF refl]) (use deleted_out rows(2) in blast)
  then have "finished_marker env (ws_db w) (group_model ts) (row_region l) key"
    if "finished_marker env (ws_db (snd o')) (group_model ts) (row_region l) key" for key
    using finished_marker_mono that unfolding rows(1) after_db by metis
  with l(5) model q(3,4) have "x = object_of (row_store q) (pst_physical_key (rq_target q)) \<or>
     (\<exists>key. finished_marker env (ws_db w) (pst_model_id (rq_target q)) (row_region q) key \<and>
        x = object_of (row_store q) key)"
    by (auto simp: row_region_def row_unit_def)
  with qq(1) live_q gone show ?thesis by blast
qed

subsection \<open>A batch that is held back\<close>

lemma insort_key_map:
  assumes "\<And>y. y \<in> insert x (set xs) \<Longrightarrow> k (f y) = k y"
  shows "insort_key k (f x) (map f xs) = map f (insort_key k x xs)"
  using assms by (induction xs) auto

lemma sort_key_map:
  assumes "\<And>y. y \<in> set xs \<Longrightarrow> k (f y) = k y"
  shows "sort_key k (map f xs) = map f (sort_key k xs)"
  using assms
proof (induction xs)
  case (Cons x xs)
  then have "sort_key k (map f xs) = map f (sort_key k xs)" by simp
  moreover have "insort_key k (f x) (map f (sort_key k xs)) = map f (insort_key k x (sort_key k xs))"
    using Cons.prems by (intro insort_key_map) auto
  ultimately show ?case by simp
qed simp

text \<open>A queue at rest: no row is in deletion and none waits for a retry time.\<close>

definition at_rest :: "catalog \<Rightarrow> bool" where
  "at_rest db \<longleftrightarrow> (\<forall>r \<in> set (db_queue db). rq_status r \<noteq> RECLAMATION_STATUS_DELETING \<and> rq_next_retry_at r = None)"

text \<open>(deviation) No back-off: when a pass over a queue at rest returns having deleted none of the rows
  it claimed, the queue is at rest again and every later pass, at any time, claims exactly the same rows,
  so that the rows behind a batch of held rows are never looked at. The attempts are counted, but neither
  the configured maximum nor the configured back-off has any effect.\<close>

theorem held_batch_claimed_again:
  assumes p: "run_reclamation_worker_pass env locked b lease db objs = (Inr (), w)"
    and ids: "distinct (map rq_id (db_queue db))" and rest: "at_rest db"
    and held: "\<And>r. r \<in> set (claim_batch locked (we_now env) b db) \<Longrightarrow> \<not> is_deleted (rq_id r) w"
  shows "at_rest (ws_db w) \<and>
    map rq_id (claim_batch locked later b (ws_db w)) = map rq_id (claim_batch locked (we_now env) b db)"
proof (rule worker_pass_rows [OF p ids])
  fix rows
  assume rows: "ws_db w = write_rows rows db"
    "rq_id ` set rows \<subseteq> rq_id ` set (claim_batch locked (we_now env) b db)"
    "\<And>r. r \<in> set (claim_batch locked (we_now env) b db) \<Longrightarrow> row_transition env lease r (overwrite rows r) \<and>
       (Inr () = (Inr () :: unit result) \<longrightarrow> rq_status (overwrite rows r) \<noteq> RECLAMATION_STATUS_DELETING)"
  let ?f = "overwrite rows"
  have same: "?f r = r \<or> row_transition env lease r (?f r) \<and> rq_status r = RECLAMATION_STATUS_QUEUED \<and>
      rq_status (?f r) = RECLAMATION_STATUS_QUEUED" if r: "r \<in> set (db_queue db)" for r
  proof (cases rule: overwrite_cases [of rows r])
    case (new n)
    then have "rq_id r \<in> rq_id ` set (claim_batch locked (we_now env) b db)"
      using rows(2) by (metis image_eqI subsetD)
    then obtain c where c: "c \<in> set (claim_batch locked (we_now env) b db)" "rq_id c = rq_id r" by (metis imageE)
    moreover from c(1) claim_batch_set have "c \<in> set (db_queue db)" "claimable (we_now env) c" by blast+
    ultimately have cr: "c = r" using ids r by (metis distinct_map inj_onD)
    have "\<not> is_deleted (rq_id r) w" using held [OF c(1)] cr by simp
    then have "rq_status (?f r) \<noteq> RECLAMATION_STATUS_DELETED" using r by (auto simp: is_deleted_def rows(1))
    with rows(3) [OF c(1)] cr have "row_transition env lease r (?f r)" "rq_status (?f r) = RECLAMATION_STATUS_QUEUED"
      by (auto simp: row_transition_def)
    moreover have "rq_status r = RECLAMATION_STATUS_QUEUED"
      using \<open>claimable (we_now env) c\<close> cr rest r by (auto simp: claimable_def at_rest_def)
    ultimately show ?thesis by simp
  qed simp
  have retry: "rq_next_retry_at (?f r) = None \<and> rq_status (?f r) \<noteq> RECLAMATION_STATUS_DELETING"
    if "r \<in> set (db_queue db)" for r
    using same [OF that] rest that by (auto simp: at_rest_def row_transition_def)
  have claim: "claimable later (?f r) = claimable (we_now env) r" if "r \<in> set (db_queue db)" for r
    using same [OF that] rest that by (auto simp: at_rest_def row_transition_def claimable_def)
  have key: "(pst_cycle_time (rq_target (?f r)), rq_created_at (?f r)) = (pst_cycle_time (rq_target r), rq_created_at r)"
    if "r \<in> set (db_queue db)" for r
    using same [OF that] by (auto simp: row_transition_def)
  let ?k = "\<lambda>r. (pst_cycle_time (rq_target r), rq_created_at r)"
  have "filter (\<lambda>r. claimable later r \<and> rq_id r \<notin> locked) (map ?f (db_queue db)) =
      map ?f (filter (\<lambda>r. claimable (we_now env) r \<and> rq_id r \<notin> locked) (db_queue db))"
    unfolding filter_map by (rule arg_cong [of _ _ "map ?f"], rule filter_cong) (simp_all add: claim)
  moreover have "sort_key ?k (map ?f (filter P (db_queue db))) = map ?f (sort_key ?k (filter P (db_queue db)))" for P
    by (rule sort_key_map) (use key in auto)
  ultimately have "claim_batch locked later b (ws_db w) = map ?f (claim_batch locked (we_now env) b db)"
    by (simp add: claim_batch_def rows(1) take_map)
  then show ?thesis using retry by (simp add: at_rest_def rows(1) o_def)
qed

subsection \<open>Recovery of stuck rows\<close>

text \<open>What recovery does when every probe of the object store answers: no row with a running lease
  and no deleted row changes; every other selected row is back in the queue with no attempts, lease,
  retry time or error when its object is stored, so that a worker may claim it at once, and is marked
  deleted when its object is gone. The count is that of the selected rows.\<close>

theorem recovery_follows_storage:
  assumes "requeue_failed_reclamation_targets (\<lambda>x. False) objs model_id run_id now_utc db = (n, db')"
  shows "n = length (filter (recoverable now_utc model_id run_id) (db_queue db)) \<and>
    (\<exists>f. db' = db\<lparr>db_queue := map f (db_queue db)\<rparr> \<and>
      (\<forall>r. row_unit (f r) = row_unit r \<and>
         (if \<not> recoverable now_utc model_id run_id r then f r = r
          else if object_of (row_store r) (pst_physical_key (rq_target r)) \<in> objs
          then claimable now_utc (f r) \<and> rq_status (f r) = ''queued'' \<and> rq_attempt_count (f r) = 0
          else rq_status (f r) = ''deleted'' \<and> rq_reclaimed_at (f r) = Some now_utc)))"
proof -
  define f where "f r = (if recoverable now_utc model_id run_id r then recover_row (\<lambda>x. False) now_utc objs r else r)" for r
  have "n = length (filter (recoverable now_utc model_id run_id) (db_queue db))" "db' = db\<lparr>db_queue := map f (db_queue db)\<rparr>"
    using assms by (auto simp: requeue_failed_reclamation_targets_def Let_def f_def [abs_def])
  moreover have "row_unit (f r) = row_unit r \<and>
         (if \<not> recoverable now_utc model_id run_id r then f r = r
          else if object_of (row_store r) (pst_physical_key (rq_target r)) \<in> objs
          then claimable now_utc (f r) \<and> rq_status (f r) = ''queued'' \<and> rq_attempt_count (f r) = 0
          else rq_status (f r) = ''deleted'' \<and> rq_reclaimed_at (f r) = Some now_utc)" for r
    by (simp add: f_def recover_row_def physical_object_exists_def claimable_def row_unit_def status_defs)
  ultimately show ?thesis by blast
qed

text \<open>(deviation) A probe that fails abandons the object: when the probe of a stored object raises, a
  selected row is marked deleted although its object is still stored, and no later pass, whatever the
  time, may claim it.\<close>

theorem failed_probe_abandons_object:
  assumes "requeue_failed_reclamation_targets fails objs model_id run_id now_utc db = (n, db')"
    and "r \<in> set (db_queue db)" "recoverable now_utc model_id run_id r"
    and "startswith (row_store r) ''s3://''" "fails (object_of (row_store r) (pst_physical_key (rq_target r)))"
  shows "\<exists>r' \<in> set (db_queue db'). rq_id r' = rq_id r \<and> rq_target r' = rq_target r \<and> rq_status r' = ''deleted'' \<and>
    (\<forall>later. \<not> claimable later r')"
proof -
  have "recover_row fails now_utc objs r \<in> set (db_queue db')"
    using assms(1-3) by (force simp: requeue_failed_reclamation_targets_def Let_def)
  then show ?thesis
    using assms(4,5) by (intro bexI [of _ "recover_row fails now_utc objs r"])
      (simp_all add: recover_row_def physical_object_exists_def claimable_def status_defs)
qed

subsection \<open>The purge\<close>

lemma purge_batch_set: "set (purge_batch cutoff n q) \<subseteq> rq_id ` set (filter (purgeable cutoff) q)"
  by (auto simp: purge_batch_def dest!: in_set_takeD)

lemma purge_batch_length: "length (purge_batch cutoff n q) = min n (length (filter (purgeable cutoff) q))"
  by (simp add: purge_batch_def)

lemma purge_batch_removes:
  assumes "distinct (map rq_id q)"
  shows "length (filter (purgeable cutoff) (filter (\<lambda>r. rq_id r \<notin> set (purge_batch cutoff n q)) q)) =
      length (filter (purgeable cutoff) q) - length (purge_batch cutoff n q)"
proof -
  let ?P = "filter (purgeable cutoff) q" and ?ids = "set (purge_batch cutoff n q)"
  have dP: "distinct (map rq_id ?P)" using assms by (rule distinct_map_filter)
  have "distinct (map rq_id (sort_key k ?P))" for k :: "queue_row \<Rightarrow> instant"
    using dP by (simp add: distinct_map)
  then have dB: "distinct (purge_batch cutoff n q)" unfolding purge_batch_def take_map [symmetric] by (rule distinct_take)
  have "rq_id ` set ?P \<inter> - ?ids = rq_id ` set (filter (\<lambda>r. rq_id r \<notin> ?ids) ?P)" by auto
  moreover have "filter (purgeable cutoff) (filter (\<lambda>r. rq_id r \<notin> ?ids) q) = filter (\<lambda>r. rq_id r \<notin> ?ids) ?P"
    by (simp add: conj_commute)
  moreover have "length (filter (\<lambda>r. rq_id r \<notin> ?ids) ?P) = card (rq_id ` set (filter (\<lambda>r. rq_id r \<notin> ?ids) ?P))"
    using distinct_card [of "map rq_id (filter (\<lambda>r. rq_id r \<notin> ?ids) ?P)"] distinct_map_filter [OF dP]
    by (metis length_map list.set_map)
  moreover have "card (rq_id ` set ?P) = length ?P"
    using distinct_card [OF dP] by simp
  moreover have "card (rq_id ` set ?P - ?ids) = card (rq_id ` set ?P) - card ?ids"
    using purge_batch_set by (intro card_Diff_subset) auto
  moreover have "card ?ids = length (purge_batch cutoff n q)" using dB by (rule distinct_card)
  ultimately show ?thesis by (simp add: Diff_eq)
qed

lemma batches_step:
  fixes n :: nat
  assumes "0 < n" "0 < k"
  shows "Suc ((k - min n k + n - 1) div n) = (k + n - 1) div n"
proof (cases "n \<le> k")
  case True
  have "Suc (a div n) = (a + n) div n" for a using assms(1) by simp
  moreover have "k - min n k + n - 1 + n = k + n - 1" using True assms by simp
  ultimately show ?thesis by metis
next
  case False
  have "(k - 1 + n) div n = Suc 0" by (rule div_nat_eqI) (use assms False in simp_all)
  moreover have "(n - 1) div n = 0" using assms by simp
  moreover have "k + n - 1 = k - 1 + n" "k - min n k + n - 1 = n - 1" using assms False by simp_all
  ultimately show ?thesis by (simp only:)
qed

lemma purge_loop_drains:
  assumes "distinct (map rq_id q)" "0 < n" "length (filter (purgeable cutoff) q) < fuel"
  shows "purge_loop fuel None cutoff n q d k = Some (filter (\<lambda>r. \<not> purgeable cutoff r) q,
      d + length (filter (purgeable cutoff) q), k + (length (filter (purgeable cutoff) q) + n - 1) div n)"
  using assms
proof (induction fuel arbitrary: q d k)
  case (Suc fuel)
  let ?old = "length (filter (purgeable cutoff) q)" and ?ids = "purge_batch cutoff n q"
  let ?q = "filter (\<lambda>r. rq_id r \<notin> set ?ids) q"
  show ?case
  proof (cases "?old = 0")
    case True
    then have "?ids = []" using purge_batch_length [of cutoff n q] by simp
    moreover have "filter (\<lambda>r. \<not> purgeable cutoff r) q = q" using True by (auto simp: filter_empty_conv filter_id_conv)
    ultimately show ?thesis using True Suc.prems(2) by simp
  next
    case False
    have len: "length ?ids = min n ?old" by (rule purge_batch_length)
    then have ne: "?ids \<noteq> []" using False Suc.prems(2) by (cases ?ids) (auto simp: min_def split: if_splits)
    have left: "length (filter (purgeable cutoff) ?q) = ?old - min n ?old"
      using purge_batch_removes [OF Suc.prems(1), of cutoff n] len by simp
    have keep: "filter (\<lambda>r. \<not> purgeable cutoff r) ?q = filter (\<lambda>r. \<not> purgeable cutoff r) q"
    proof -
      have "rq_id r \<notin> set ?ids" if r: "r \<in> set q" "\<not> purgeable cutoff r" for r
      proof
        assume "rq_id r \<in> set ?ids"
        then obtain r' where "r' \<in> set q" "purgeable cutoff r'" "rq_id r' = rq_id r"
          using purge_batch_set [of cutoff n q] by fastforce
        then have "r' = r" using Suc.prems(1) r(1) by (metis distinct_map inj_onD)
        with r(2) \<open>purgeable cutoff r'\<close> show False by simp
      qed
      then show ?thesis by (auto intro: filter_cong)
    qed
    have "1 \<le> min n ?old" using Suc.prems(2) False by (simp add: Suc_le_eq)
    with Suc.prems(3) have "?old - min n ?old < fuel" by linarith
    then have "purge_loop fuel None cutoff n ?q (d + length ?ids) (Suc k) = Some (filter (\<lambda>r. \<not> purgeable cutoff r) q,
        d + length ?ids + (?old - min n ?old), Suc k + (?old - min n ?old + n - 1) div n)"
      by (rule Suc.IH [of ?q "d + length ?ids" "Suc k", OF distinct_map_filter [OF Suc.prems(1)] Suc.prems(2),
            unfolded left keep])
    moreover have "d + length ?ids + (?old - min n ?old) = d + ?old" using len by simp
    moreover have "Suc k + (?old - min n ?old + n - 1) div n = k + (?old + n - 1) div n"
      using batches_step [OF Suc.prems(2), of ?old] False by simp
    ultimately show ?thesis using ne by (simp add: Let_def)
  qed
qed simp

text \<open>The purge drains exactly the expired rows: without a cap on the batches it ends, removes every
  deleted row whose deletion is older than the retention window and no other row, keeps the order of the
  rest, counts what it removed, and needs no more batches than the rows fill.\<close>

theorem purge_drains_expired:
  assumes "distinct (map rq_id (db_queue db))" "0 \<le> older_than" "1 \<le> batch_size" "length (db_queue db) < fuel"
  shows "purge_reclaimed_queue_rows fuel older_than batch_size None now_utc db =
    (let old = filter (purgeable (now_utc - older_than)) (db_queue db);
         rest = filter (\<lambda>r. \<not> purgeable (now_utc - older_than) r) (db_queue db)
     in Some (Inr (\<lparr>qp_deleted_rows = length old,
            qp_batches = (length old + nat batch_size - 1) div nat batch_size,
            qp_oldest_remaining = oldest_reclaimed rest\<rparr>, db\<lparr>db_queue := rest\<rparr>)))"
proof -
  have "length (filter (purgeable (now_utc - older_than)) (db_queue db)) < fuel"
    using assms(4) length_filter_le le_less_trans by blast
  then have "purge_loop fuel None (now_utc - older_than) (nat batch_size) (db_queue db) 0 0 =
      Some (filter (\<lambda>r. \<not> purgeable (now_utc - older_than) r) (db_queue db),
        length (filter (purgeable (now_utc - older_than)) (db_queue db)),
        (length (filter (purgeable (now_utc - older_than)) (db_queue db)) + nat batch_size - 1) div nat batch_size)"
    using purge_loop_drains [OF assms(1), of "nat batch_size" "now_utc - older_than" fuel 0 0] assms(3) by simp
  then show ?thesis using assms(2,3) by (simp add: purge_reclaimed_queue_rows_def Let_def)
qed

subsection \<open>Concrete instances\<close>

text \<open>
  The sample catalog of \<open>GcPass\<close> at hour 24 with three queued rows: the shard run \<open>a\<close> holds for hour 24,
  which the newer run \<open>b\<close> supersedes, the shard of run \<open>b\<close> for hour 21, which lies before the window,
  and the shard of \<open>b\<close> for hour 24, which serving selects.
\<close>

definition sample_row :: "string \<Rightarrow> int \<Rightarrow> int \<Rightarrow> queue_row" where
  "sample_row run cycle lead = \<lparr>rq_id = run @ int_str lead,
     rq_target = \<lparr>pst_run_id = run, pst_model_id = ''gfs'', pst_cycle_time = hours cycle, pst_lead_time_hours = lead,
       pst_variable_code = ''temperature_2m'', pst_target_kind = ''det'', pst_member_index = 0,
       pst_valid_time = hours (cycle + lead), pst_store_path = ''s3://b/'' @ run, pst_physical_key = int_str lead\<rparr>,
     rq_store_generation = Some ''g'', rq_status = ''queued'', rq_attempt_count = 0, rq_lease_expires_at = None,
     rq_next_retry_at = None, rq_last_error = None, rq_reclaimed_at = None, rq_created_at = hours 20,
     rq_updated_at = hours 20\<rparr>"

definition queued_catalog :: catalog where
  "queued_catalog = sample_catalog\<lparr>db_queue := [sample_row ''a'' 12 12, sample_row ''b'' 18 3, sample_row ''b'' 18 6]\<rparr>"

definition sample_env :: worker_env where
  "sample_env = \<lparr>we_horizons = default_horizons, we_coverage = default_coverage,
     we_regions = DEFAULT_EXPECTED_REGION_VARIABLES, we_generation = (\<lambda>s. Some ''g''), we_gate = (\<lambda>s. Inr ()),
     we_rm = (\<lambda>ps objs. objs - set ps), we_version = ''v1.0'', we_delete_enabled = True, we_now = hours 24\<rparr>"

definition sample_objects :: "object_id set" where
  "sample_objects = {S3Object ''b/a/12'', S3Object ''b/b/3'', S3Object ''b/b/6'', S3Object ''b/b/9''}"

abbreviation sample_work :: "nat \<Rightarrow> unit result \<times> worker_state" where
  "sample_work b \<equiv> run_reclamation_worker_pass sample_env {} b 60000000 queued_catalog sample_objects"

lemma queued_rows: "db_queue queued_catalog = [sample_row ''a'' 12 12, sample_row ''b'' 18 3, sample_row ''b'' 18 6]"
  by (simp add: queued_catalog_def)

lemma queued_ids: "map rq_id (db_queue queued_catalog) = [''a12'', ''b3'', ''b6'']"
  by code_simp

lemma queued_status: "rq_status (sample_row r c l) \<noteq> RECLAMATION_STATUS_DELETED"
  by (simp add: sample_row_def status_defs)

lemma sample_work_result:
  "case sample_work 10 of (res, w) \<Rightarrow> res = Inr () \<and> is_deleted ''a12'' w \<and> is_deleted ''b3'' w \<and> \<not> is_deleted ''b6'' w \<and>
     S3Object ''b/a/12'' \<notin> ws_objects w \<and> ws_deleted w = 2"
  by code_simp

lemma sample_workE:
  obtains w where "sample_work 10 = (Inr (), w)" "is_deleted ''a12'' w" "is_deleted ''b3'' w" "\<not> is_deleted ''b6'' w"
    "S3Object ''b/a/12'' \<notin> ws_objects w"
  using sample_work_result by (auto split: prod.splits)

lemma row_a12: "rq_id (sample_row ''a'' 12 12) = ''a12''" "sample_row ''a'' 12 12 \<in> set (db_queue queued_catalog)"
  by code_simp (simp add: queued_rows)

theorem worker_deletes_under_guards_witness:
  "\<exists>w. sample_work 10 = (Inr (), w) \<and> is_deleted ''a12'' w \<and> claimable (hours 24) (sample_row ''a'' 12 12)"
proof -
  obtain w where w: "sample_work 10 = (Inr (), w)" "is_deleted ''a12'' w" by (rule sample_workE)
  with worker_deletes_under_guards [OF w(1) _ row_a12(2) queued_status] show ?thesis
    by (simp add: queued_ids row_a12(1) sample_env_def)
qed

theorem worker_pass_transitions_witness:
  "\<exists>w f. sample_work 10 = (Inr (), w) \<and> ws_db w = queued_catalog\<lparr>db_queue := map f (db_queue queued_catalog)\<rparr>"
proof -
  obtain w where w: "sample_work 10 = (Inr (), w)" by (rule sample_workE)
  from worker_pass_transitions [OF w] w show ?thesis by (auto simp: queued_ids)
qed

theorem worker_removes_only_witness:
  "\<exists>w. sample_work 10 = (Inr (), w) \<and> S3Object ''b/a/12'' \<notin> ws_objects w \<and>
     (\<exists>r \<in> set (db_queue queued_catalog). is_deleted (rq_id r) w)"
proof -
  obtain w where w: "sample_work 10 = (Inr (), w)" "S3Object ''b/a/12'' \<notin> ws_objects w" by (rule sample_workE)
  have rm: "deletes_only (we_rm sample_env)" by (simp add: deletes_only_def sample_env_def)
  have gfs: "pst_model_id (rq_target c) = ''gfs''" if "c \<in> set (db_queue queued_catalog)" for c
    using that by (auto simp: queued_rows sample_row_def)
  have x: "S3Object ''b/a/12'' \<in> sample_objects" by (simp add: sample_objects_def)
  have ids: "distinct (map rq_id (db_queue queued_catalog))" by (simp add: queued_ids)
  have "\<exists>r \<in> set (db_queue queued_catalog). is_deleted (rq_id r) w"
    by (rule bexE [OF worker_removes_only [OF rm w(1) ids _ x w(2)]]) (auto simp: gfs)
  with w show ?thesis by blast
qed

text \<open>What the worker takes as present at hour 24: runs \<open>a\<close> and \<open>b\<close>, of which \<open>b\<close> is the newer.\<close>

lemma sample_worker_candidates:
  "case worker_candidates default_coverage queued_catalog (worker_runs queued_catalog ''gfs'' ''v1.0'') 1 of
     Inl e \<Rightarrow> False
   | Inr cands \<Rightarrow> (case filter_candidates_by_fence_index default_coverage cands (build_fence_index
          (fence_keys queued_catalog (rq_id ` set (claim_batch {} (hours 24) 10 queued_catalog)))) (1 < (1 :: int)) 1 of
       Inl e \<Rightarrow> False
     | Inr items \<Rightarrow> (case map_of items (hours 24) of
         None \<Rightarrow> False
       | Some cs \<Rightarrow> (case select_variable_source cs ''temperature_2m'' (select_canonical_anchor cs) of
            None \<Rightarrow> False | Some src \<Rightarrow> cc_run_id src = ''b'' \<and> cc_lead_time_hours src = 6)))"
  by code_simp

theorem worker_keeps_canonical_sources_witness:
  "\<exists>w. \<exists>src :: canonical_candidate. sample_work 10 = (Inr (), w) \<and> is_deleted ''a12'' w \<and> cc_run_id src = ''b'' \<and>
     row_unit (sample_row ''a'' 12 12) \<notin> set (source_units False src ''temperature_2m'')"
proof -
  obtain w where w: "sample_work 10 = (Inr (), w)" "is_deleted ''a12'' w" by (rule sample_workE)
  obtain cands items cs src where c:
    "worker_candidates default_coverage queued_catalog (worker_runs queued_catalog ''gfs'' ''v1.0'') 1 = Inr cands"
    "filter_candidates_by_fence_index default_coverage cands (build_fence_index
          (fence_keys queued_catalog (rq_id ` set (claim_batch {} (hours 24) 10 queued_catalog)))) (1 < (1 :: int)) 1 = Inr items"
    "map_of items (hours 24) = Some cs"
    "select_variable_source cs ''temperature_2m'' (select_canonical_anchor cs) = Some src" "cc_run_id src = ''b''"
    using sample_worker_candidates by (auto split: sum.splits option.splits)
  have env: "we_coverage sample_env = default_coverage" "we_version sample_env = ''v1.0''" "we_now sample_env = hours 24"
    "we_horizons sample_env = default_horizons" by (simp_all add: sample_env_def)
  have v: "clean_variable ''temperature_2m'' = ''temperature_2m''" by code_simp
  have models: "pst_model_id (rq_target x) = ''gfs''" if "x \<in> set (db_queue queued_catalog)" for x
    using that by (auto simp: queued_rows sample_row_def)
  have del: "is_deleted (rq_id (sample_row ''a'' 12 12)) w" using w(2) by (simp add: row_a12(1))
  have "row_unit (sample_row ''a'' 12 12) \<notin> set (source_units (1 < (1 :: int)) src ''temperature_2m'')"
    by (rule worker_keeps_canonical_sources [OF w(1) _ row_a12(2) queued_status del, of "''gfs''" 1 cands items "hours 24" "hours 24" cs])
       (use c v models map_of_SomeD [OF c(3)] sample_facts in
         \<open>simp_all add: env queued_ids sample_row_def [of "''a''"] sample_now_def\<close>)
  with w c show ?thesis by (intro exI [of _ w] exI [of _ src]) simp
qed

text \<open>With a batch of one, the row serving needs is claimed again and again; the row behind it waits.\<close>

definition blocked_catalog :: catalog where
  "blocked_catalog = sample_catalog\<lparr>db_queue := [sample_row ''b'' 18 6, sample_row ''b'' 18 3]\<rparr>"

lemma blocked_result:
  "case run_reclamation_worker_pass sample_env {} 1 60000000 blocked_catalog sample_objects of (res, w) \<Rightarrow>
     res = Inr () \<and> \<not> is_deleted ''b6'' w"
  "map rq_id (claim_batch {} (hours 24) 1 blocked_catalog) = [''b6'']"
  by code_simp+

theorem held_batch_claimed_again_witness:
  "\<exists>w. run_reclamation_worker_pass sample_env {} 1 60000000 blocked_catalog sample_objects = (Inr (), w) \<and>
     map rq_id (claim_batch {} (hours 48) 1 (ws_db w)) = [''b6'']"
proof -
  obtain w where w: "run_reclamation_worker_pass sample_env {} 1 60000000 blocked_catalog sample_objects = (Inr (), w)"
    "\<not> is_deleted ''b6'' w" using blocked_result(1) by (auto split: prod.splits)
  have now: "we_now sample_env = hours 24" by (simp add: sample_env_def)
  have "map rq_id (db_queue blocked_catalog) = [''b6'', ''b3'']" by code_simp
  moreover have "at_rest blocked_catalog" by code_simp
  moreover have "rq_id r = ''b6''" if "r \<in> set (claim_batch {} (hours 24) 1 blocked_catalog)" for r
    using that blocked_result(2) by (auto simp: map_eq_Cons_conv)
  ultimately show ?thesis
    using held_batch_claimed_again [OF w(1), of "hours 48"] w blocked_result(2) by (auto simp: now)
qed

definition purged_catalog :: catalog where
  "purged_catalog = sample_catalog\<lparr>db_queue := [mark_deleted (hours 2) (sample_row ''a'' 12 12), sample_row ''b'' 18 3]\<rparr>"

lemma purged_rows:
  "map rq_id (db_queue purged_catalog) = [''a12'', ''b3'']"
  "filter (purgeable (hours 14)) (db_queue purged_catalog) = [mark_deleted (hours 2) (sample_row ''a'' 12 12)]"
  "filter (\<lambda>r. \<not> purgeable (hours 14) r) (db_queue purged_catalog) = [sample_row ''b'' 18 3]"
  "oldest_reclaimed [sample_row ''b'' 18 3] = None" "0 \<le> hours 10" "length (db_queue purged_catalog) = 2"
  by code_simp+

theorem purge_drains_expired_witness:
  "purge_reclaimed_queue_rows 4 (hours 10) 1 None (hours 24) purged_catalog =
     Some (Inr (\<lparr>qp_deleted_rows = 1, qp_batches = 1, qp_oldest_remaining = None\<rparr>,
       purged_catalog\<lparr>db_queue := [sample_row ''b'' 18 3]\<rparr>))"
  using purge_drains_expired [of purged_catalog "hours 10" 1 4 "hours 24"] by (simp add: purged_rows)

text \<open>A life of the queue in which a wind vector goes: run \<open>a\<close> holds one for hour 24, run \<open>b\<close> a newer one.\<close>

definition wind_catalog :: catalog where
  "wind_catalog = sample_catalog\<lparr>db_products := map (\<lambda>(r, l, v). \<lparr>pr_run_id = r, pr_lead_time_hours = l,
       pr_variable_id = v, pr_product_type = ''deterministic''\<rparr>)
     [(''a'', 12, ''wind_u_10m''), (''a'', 12, ''wind_v_10m''), (''b'', 6, ''wind_u_10m''), (''b'', 6, ''wind_v_10m'')]\<rparr>"

abbreviation wind_plan :: "(reclamation_plan_result \<times> catalog) result" where
  "wind_plan \<equiv> plan_reclamation_pass default_horizons default_coverage (\<lambda>i. nat_str i) (\<lambda>s. Some ''g'')
     wind_catalog [''gfs''] False sample_now 1000"

lemma wind_life:
  "case wind_plan of Inl e \<Rightarrow> False | Inr (p, db') \<Rightarrow> map rq_id (db_queue db') = [''rec_0'', ''rec_1''] \<and>
     map (\<lambda>r. (row_unit r, rq_status r)) (db_queue (ws_db (snd (run_reclamation_worker_pass sample_env {} 10 60000000 db' {})))) =
       [((''a'', 12, ''wind_u_10m'', ''det'', 0), ''deleted''), ((''a'', 12, ''wind_v_10m'', ''det'', 0), ''deleted'')]"
  by code_simp

theorem wind_pairs_deleted_jointly_witness:
  "\<exists>db r q. gc_reachable db \<and> r \<in> set (db_queue db) \<and> q \<in> set (db_queue db) \<and> rq_status r = ''deleted'' \<and> rq_status q = ''deleted'' \<and>
     row_unit r = (''a'', 12, ''wind_u_10m'', ''det'', 0) \<and> row_unit q = (''a'', 12, ''wind_v_10m'', ''det'', 0) \<and>
     (\<exists>r' \<in> set (db_queue db). rq_status r' = ''deleted'' \<and> row_unit r' = (''a'', 12, ''wind_u_10m'', ''det'', 0))"
proof -
  obtain p db' where plan: "wind_plan = Inr (p, db')" "map rq_id (db_queue db') = [''rec_0'', ''rec_1'']"
    "map (\<lambda>r. (row_unit r, rq_status r)) (db_queue (ws_db (snd (run_reclamation_worker_pass sample_env {} 10 60000000 db' {})))) =
       [((''a'', 12, ''wind_u_10m'', ''det'', 0), ''deleted''), ((''a'', 12, ''wind_v_10m'', ''det'', 0), ''deleted'')]"
    using wind_life by (auto split: sum.splits prod.splits)
  obtain res w where w: "run_reclamation_worker_pass sample_env {} 10 60000000 db' {} = (res, w)" by fastforce
  have "db_queue wind_catalog = []" by (simp add: wind_catalog_def sample_catalog_def)
  then have "gc_reachable wind_catalog" by (rule gc_reachable.start)
  moreover have "gc_step wind_catalog db'" using plan(2) by (intro gc_step.plan [OF plan(1)]) simp_all
  moreover have "gc_step db' (ws_db w)" by (rule gc_step.work [OF w])
  ultimately have reach: "gc_reachable (ws_db w)" by (blast intro: gc_reachable.step)
  have "\<exists>r \<in> set (db_queue (ws_db w)). rq_status r = ''deleted'' \<and> row_unit r = (''a'', 12, ''wind_u_10m'', ''det'', 0)"
    using plan(3) w by (auto simp: map_eq_Cons_conv)
  then obtain r where r: "r \<in> set (db_queue (ws_db w))" "rq_status r = ''deleted''"
    "row_unit r = (''a'', 12, ''wind_u_10m'', ''det'', 0)" by blast
  from wind_pairs_deleted_jointly [OF reach r, of "''wind_v_10m''"]
  obtain q where q: "q \<in> set (db_queue (ws_db w))" "rq_status q = ''deleted''" "row_unit q = (''a'', 12, ''wind_v_10m'', ''det'', 0)" by auto
  from wind_pairs_deleted_jointly [OF reach q, of "''wind_u_10m''"] reach r q show ?thesis
    by (intro exI [of _ "ws_db w"] exI [of _ r] exI [of _ q]) simp
qed

theorem recovery_follows_storage_witness:
  "\<exists>f. snd (requeue_failed_reclamation_targets (\<lambda>x. False) {S3Object ''b/a/12''} None None (hours 24) queued_catalog) =
     queued_catalog\<lparr>db_queue := map f (db_queue queued_catalog)\<rparr> \<and> rq_status (f (sample_row ''b'' 18 3)) = ''deleted''"
proof -
  let ?out = "requeue_failed_reclamation_targets (\<lambda>x. False) {S3Object ''b/a/12''} None None (hours 24) queued_catalog"
  have "recoverable (hours 24) None None (sample_row ''b'' 18 3)"
    "object_of (row_store (sample_row ''b'' 18 3)) (pst_physical_key (rq_target (sample_row ''b'' 18 3))) \<notin> {S3Object ''b/a/12''}"
    by code_simp+
  with recovery_follows_storage [OF prod.collapse [of ?out, symmetric]] show ?thesis by metis
qed

theorem failed_probe_abandons_object_witness:
  "\<exists>r' \<in> set (db_queue (snd (requeue_failed_reclamation_targets (\<lambda>x. True) sample_objects None None (hours 24) queued_catalog))).
     rq_id r' = ''a12'' \<and> rq_status r' = ''deleted'' \<and> \<not> claimable (hours 48) r'"
proof -
  let ?out = "requeue_failed_reclamation_targets (\<lambda>x. True) sample_objects None None (hours 24) queued_catalog"
  have "recoverable (hours 24) None None (sample_row ''a'' 12 12)" "startswith (row_store (sample_row ''a'' 12 12)) ''s3://''"
    by code_simp+
  from failed_probe_abandons_object [OF prod.collapse [of ?out, symmetric] row_a12(2) this TrueI] row_a12(1)
  show ?thesis by metis
qed

end
