(* ===== verification/LockCoordinator.thy ===== *)
theory LockCoordinator
  imports Locks
begin

text \<open>
  \<open>ingestion/core/locks.py\<close>: the advisory-lock coordinator of one worker. The database session is a
  parameter: the record \<open>server\<close> holds the statements the code executes, on a session state of any
  type. The laws that PostgreSQL documents for session-level advisory locks are the locale
  \<open>lock_server\<close>, whose \<open>excl\<close> and \<open>shar\<close> count how often the session holds a key.
  The mutex inside the coordinator and the log lines are not modelled.
\<close>

type_synonym lock_key = "64 word"

subsection \<open>The session\<close>

record db_exception =
  ex_orig :: "(string option \<times> string option) option"
  ex_text :: string

definition is_lock_timeout_error :: "db_exception \<Rightarrow> bool" where
  "is_lock_timeout_error exc =
     ((case ex_orig exc of
         Some (pgcode, sqlstate) \<Rightarrow> pgcode = Some ''55P03'' \<or> sqlstate = Some ''55P03''
       | None \<Rightarrow> False)
      \<or> (let exc_str = py_lower (ex_text exc) in
           contains_str exc_str ''55p03''
           \<or> contains_str exc_str ''canceling statement due to lock timeout''
           \<or> contains_str exc_str ''lock_not_available''))"

record 's server =
  sv_lock :: "bool \<Rightarrow> lock_key \<Rightarrow> int \<Rightarrow> 's \<Rightarrow> db_exception option \<times> 's"
  sv_try :: "lock_key list \<Rightarrow> 's \<Rightarrow> (db_exception + (lock_key \<times> bool) list) \<times> 's"
  sv_unlock :: "bool \<Rightarrow> lock_key \<Rightarrow> 's \<Rightarrow> (db_exception + bool) \<times> 's"
  sv_unlock_batch :: "lock_key list \<Rightarrow> 's \<Rightarrow> (db_exception + (lock_key \<times> bool) list) \<times> 's"
  sv_invalidate :: "'s \<Rightarrow> 's"

subsection \<open>The coordinator\<close>

record lock_set =
  lks_held :: "lock_key set"
  lks_shared_held :: "lock_key set"

definition all_keys :: "lock_set \<Rightarrow> lock_key set" where
  "all_keys l = lks_held l \<union> lks_shared_held l"

record 's coordinator =
  co_session :: 's
  co_store_path :: string
  co_endpoint :: "string option"
  co_secure :: bool
  co_timeout_seconds :: real
  co_locks :: lock_set

definition StoreLockCoordinator ::
    "'s \<Rightarrow> string \<Rightarrow> string option \<Rightarrow> bool \<Rightarrow> real \<Rightarrow> 's coordinator" where
  "StoreLockCoordinator session store_path endpoint secure timeout_seconds =
     \<lparr>co_session = session, co_store_path = store_path, co_endpoint = endpoint, co_secure = secure,
      co_timeout_seconds = timeout_seconds, co_locks = \<lparr>lks_held = {}, lks_shared_held = {}\<rparr>\<rparr>"

definition record_exclusive :: "lock_key \<Rightarrow> 's coordinator \<Rightarrow> 's coordinator" where
  "record_exclusive k c = c\<lparr>co_locks := (co_locks c)\<lparr>lks_held := insert k (lks_held (co_locks c))\<rparr>\<rparr>"

definition record_shared :: "lock_key \<Rightarrow> 's coordinator \<Rightarrow> 's coordinator" where
  "record_shared k c =
     c\<lparr>co_locks := (co_locks c)\<lparr>lks_shared_held := insert k (lks_shared_held (co_locks c))\<rparr>\<rparr>"

definition drop_exclusive :: "lock_key set \<Rightarrow> 's coordinator \<Rightarrow> 's coordinator" where
  "drop_exclusive ks c = c\<lparr>co_locks := (co_locks c)\<lparr>lks_held := lks_held (co_locks c) - ks\<rparr>\<rparr>"

definition drop_shared :: "lock_key set \<Rightarrow> 's coordinator \<Rightarrow> 's coordinator" where
  "drop_shared ks c =
     c\<lparr>co_locks := (co_locks c)\<lparr>lks_shared_held := lks_shared_held (co_locks c) - ks\<rparr>\<rparr>"

definition invalidate_connection :: "'s server \<Rightarrow> 's coordinator \<Rightarrow> 's coordinator" where
  "invalidate_connection srv c = c\<lparr>co_session := sv_invalidate srv (co_session c)\<rparr>"

definition already_held :: "lock_key \<Rightarrow> 's coordinator \<Rightarrow> bool" where
  "already_held k c = (k \<in> lks_held (co_locks c) \<or> k \<in> lks_shared_held (co_locks c))"

definition LockTimeoutError :: py_error where
  "LockTimeoutError = DomainError ''LockTimeoutError'' ''timed out''"
definition AlreadyHeldError :: py_error where
  "AlreadyHeldError = DomainError ''RuntimeError'' ''advisory lock already held by this worker''"
definition DatabaseError :: "db_exception \<Rightarrow> py_error" where
  "DatabaseError e = DomainError ''DBAPIError'' (ex_text e)"

text \<open>\<open>int(max(1, self._timeout_seconds * 1000))\<close>\<close>

definition timeout_ms :: "'s coordinator \<Rightarrow> int" where
  "timeout_ms c = \<lfloor>max 1 (co_timeout_seconds c * 1000)\<rfloor>"

definition acquire ::
    "'s server \<Rightarrow> bool \<Rightarrow> lock_key \<Rightarrow> 's coordinator \<Rightarrow> unit result \<times> 's coordinator" where
  "acquire srv exclusive key c =
     (if already_held key c then (Inl AlreadyHeldError, c)
      else
        (case sv_lock srv exclusive key (timeout_ms c) (co_session c) of
           (None, s) \<Rightarrow>
             (let c1 = c\<lparr>co_session := s\<rparr>
              in (Inr (), if exclusive then record_exclusive key c1 else record_shared key c1))
         | (Some e, s) \<Rightarrow>
             (let c1 = c\<lparr>co_session := s\<rparr>
              in if is_lock_timeout_error e then (Inl LockTimeoutError, c1)
                 else (Inl (DatabaseError e), invalidate_connection srv c1))))"

definition release :: "'s server \<Rightarrow> bool \<Rightarrow> lock_key \<Rightarrow> 's coordinator \<Rightarrow> 's coordinator" where
  "release srv exclusive key c =
     (if \<not> already_held key c then c
      else
        let (r, s) = sv_unlock srv exclusive key (co_session c);
            c1 = c\<lparr>co_session := s\<rparr>;
            c2 = (if r = Inr True then c1 else invalidate_connection srv c1)
        in drop_shared {key} (drop_exclusive {key} c2))"

definition release_batch_exclusive ::
    "'s server \<Rightarrow> lock_key list \<Rightarrow> 's coordinator \<Rightarrow> 's coordinator" where
  "release_batch_exclusive srv keys c =
     (if keys = [] then c
      else
        let (r, s) = sv_unlock_batch srv (rev (sort keys)) (co_session c);
            c1 = c\<lparr>co_session := s\<rparr>;
            ok = (case r of Inl e \<Rightarrow> False | Inr rows \<Rightarrow> \<forall>(k, released) \<in> set rows. released);
            c2 = (if ok then c1 else invalidate_connection srv c1)
        in drop_exclusive (set keys) c2)"

text \<open>
  The retry loop of the batched acquisition: \<open>clock i\<close> is the value of \<open>time.monotonic()\<close> after the
  \<open>i\<close>-th attempt; the loop is bounded by fuel and gives \<open>None\<close> when that runs out.
\<close>

fun batch_loop ::
    "nat \<Rightarrow> 's server \<Rightarrow> lock_key list \<Rightarrow> (nat \<Rightarrow> real) \<Rightarrow> real \<Rightarrow> nat \<Rightarrow> 's coordinator
     \<Rightarrow> (unit result \<times> 's coordinator) option" where
  "batch_loop 0 srv keys clock deadline i c = None"
| "batch_loop (Suc fuel) srv keys clock deadline i c =
     (case sv_try srv (sort keys) (co_session c) of
        (Inl e, s) \<Rightarrow> Some (Inl (DatabaseError e), invalidate_connection srv (c\<lparr>co_session := s\<rparr>))
      | (Inr rows, s) \<Rightarrow>
          let c1 = c\<lparr>co_session := s\<rparr>;
              acquired_keys = map fst (filter snd rows)
          in if \<forall>(k, acq) \<in> set rows. acq
             then Some (Inr (), fold record_exclusive acquired_keys c1)
             else
               let c2 = release_batch_exclusive srv acquired_keys c1
               in if deadline \<le> clock (Suc i) then Some (Inl LockTimeoutError, c2)
                  else batch_loop fuel srv keys clock deadline (Suc i) c2)"

definition acquire_batch_exclusive ::
    "nat \<Rightarrow> 's server \<Rightarrow> (nat \<Rightarrow> real) \<Rightarrow> lock_key list \<Rightarrow> 's coordinator
     \<Rightarrow> (unit result \<times> 's coordinator) option" where
  "acquire_batch_exclusive fuel srv clock keys c =
     (if keys = [] then Some (Inr (), c)
      else if \<exists>k \<in> set keys. already_held k c then Some (Inl AlreadyHeldError, c)
      else batch_loop fuel srv keys clock (clock 0 + co_timeout_seconds c) 0 c)"

subsection \<open>The public operations\<close>

text \<open>The identities of the coordinator's store; \<open>h\<close> and \<open>resolve\<close> are the hash and the path
  resolution of \<open>domain/locks.py\<close>.\<close>

definition gate_of ::
    "(string \<Rightarrow> 64 word) \<Rightarrow> (string \<Rightarrow> string) \<Rightarrow> 's coordinator \<Rightarrow> lock_key result" where
  "gate_of h resolve c = store_gate_key h resolve (co_store_path c) (co_endpoint c) (co_secure c)"

definition admission_of ::
    "(string \<Rightarrow> 64 word) \<Rightarrow> (string \<Rightarrow> string) \<Rightarrow> 's coordinator \<Rightarrow> lock_key result" where
  "admission_of h resolve c = admission_key h resolve (co_store_path c) (co_endpoint c) (co_secure c)"

definition region_of ::
    "(string \<Rightarrow> 64 word) \<Rightarrow> (string \<Rightarrow> string) \<Rightarrow> 's coordinator \<Rightarrow> string \<Rightarrow> lock_key result" where
  "region_of h resolve c region_id =
     region_key h resolve (co_store_path c) region_id (co_endpoint c) (co_secure c)"

text \<open>\<open>sorted({self.region(r) for r in region_ids})\<close>\<close>

definition region_keys ::
    "(string \<Rightarrow> 64 word) \<Rightarrow> (string \<Rightarrow> string) \<Rightarrow> 's coordinator \<Rightarrow> string list \<Rightarrow> lock_key list result" where
  "region_keys h resolve c region_ids =
     bindE (mapE (region_of h resolve c) region_ids) (\<lambda>ks. Inr (sort (remdups ks)))"

datatype lock_op =
    AcquireAdmission | ReleaseAdmission | AcquireSharedAdmission | ReleaseSharedAdmission
  | AcquireSharedGate | ReleaseSharedGate | AcquireExclusiveGate | ReleaseExclusiveGate
  | AcquireRegions "string list" | ReleaseRegions "string list" | ReleaseAll

definition release_region_locks ::
    "'s server \<Rightarrow> lock_key list \<Rightarrow> 's coordinator \<Rightarrow> 's coordinator" where
  "release_region_locks srv keys c =
     release_batch_exclusive srv (filter (\<lambda>k. k \<in> lks_held (co_locks c)) (rev keys)) c"

definition release_all :: "'s server \<Rightarrow> 's coordinator \<Rightarrow> 's coordinator" where
  "release_all srv c =
     (let exclusive = rev (sorted_list_of_set (lks_held (co_locks c)));
          shared = rev (sorted_list_of_set (lks_shared_held (co_locks c)));
          c1 = (if exclusive \<noteq> [] then release_batch_exclusive srv exclusive c else c)
      in fold (release srv False) shared c1)"

definition with_key ::
    "lock_key result \<Rightarrow> 's coordinator \<Rightarrow> (lock_key \<Rightarrow> unit result \<times> 's coordinator)
     \<Rightarrow> (unit result \<times> 's coordinator) option" where
  "with_key k c f = Some (case k of Inl e \<Rightarrow> (Inl e, c) | Inr key \<Rightarrow> f key)"

definition run_op ::
    "nat \<Rightarrow> 's server \<Rightarrow> (string \<Rightarrow> 64 word) \<Rightarrow> (string \<Rightarrow> string) \<Rightarrow> (nat \<Rightarrow> real) \<Rightarrow> lock_op
     \<Rightarrow> 's coordinator \<Rightarrow> (unit result \<times> 's coordinator) option" where
  "run_op fuel srv h resolve clock op c = (case op of
      AcquireAdmission \<Rightarrow> with_key (admission_of h resolve c) c (\<lambda>k. acquire srv True k c)
    | ReleaseAdmission \<Rightarrow> with_key (admission_of h resolve c) c (\<lambda>k. (Inr (), release srv True k c))
    | AcquireSharedAdmission \<Rightarrow> with_key (admission_of h resolve c) c (\<lambda>k. acquire srv False k c)
    | ReleaseSharedAdmission \<Rightarrow> with_key (admission_of h resolve c) c (\<lambda>k. (Inr (), release srv False k c))
    | AcquireSharedGate \<Rightarrow> with_key (gate_of h resolve c) c (\<lambda>k. acquire srv False k c)
    | ReleaseSharedGate \<Rightarrow> with_key (gate_of h resolve c) c (\<lambda>k. (Inr (), release srv False k c))
    | AcquireExclusiveGate \<Rightarrow> with_key (gate_of h resolve c) c (\<lambda>k. acquire srv True k c)
    | ReleaseExclusiveGate \<Rightarrow> with_key (gate_of h resolve c) c (\<lambda>k. (Inr (), release srv True k c))
    | AcquireRegions ids \<Rightarrow> (case region_keys h resolve c ids of
          Inl e \<Rightarrow> Some (Inl e, c)
        | Inr ks \<Rightarrow> acquire_batch_exclusive fuel srv clock ks c)
    | ReleaseRegions ids \<Rightarrow> (case region_keys h resolve c ids of
          Inl e \<Rightarrow> Some (Inl e, c)
        | Inr ks \<Rightarrow> Some (Inr (), release_region_locks srv ks c))
    | ReleaseAll \<Rightarrow> Some (Inr (), release_all srv c))"

definition close_connection :: "'s server \<Rightarrow> 's coordinator \<Rightarrow> 's coordinator" where
  "close_connection srv c =
     (let c1 = release_all srv c
      in if all_keys (co_locks c1) \<noteq> {} then invalidate_connection srv c1 else c1)"

subsection \<open>The documented session\<close>

locale lock_server =
  fixes srv :: "'s server" and excl shar :: "'s \<Rightarrow> lock_key \<Rightarrow> nat"
  assumes lock_ok: "sv_lock srv x k ms s = (None, s') \<Longrightarrow>
      excl s' = (if x then (excl s)(k := Suc (excl s k)) else excl s) \<and>
      shar s' = (if x then shar s else (shar s)(k := Suc (shar s k)))"
    and lock_timeout: "sv_lock srv x k ms s = (Some e, s') \<Longrightarrow> is_lock_timeout_error e \<Longrightarrow>
      excl s' = excl s \<and> shar s' = shar s"
    and try_ok: "sv_try srv ks s = (Inr rows, s') \<Longrightarrow> distinct ks \<Longrightarrow>
      map fst rows = ks \<and> shar s' = shar s \<and>
      excl s' = (\<lambda>k. excl s k + (if (k, True) \<in> set rows then 1 else 0))"
    and unlock_true: "sv_unlock srv x k s = (Inr True, s') \<Longrightarrow>
      0 < (if x then excl s k else shar s k) \<and>
      excl s' = (if x then (excl s)(k := excl s k - 1) else excl s) \<and>
      shar s' = (if x then shar s else (shar s)(k := shar s k - 1))"
    and unlock_batch_ok: "sv_unlock_batch srv ks s = (Inr rows, s') \<Longrightarrow> distinct ks \<Longrightarrow>
      map fst rows = ks \<and> shar s' = shar s \<and>
      excl s' = (\<lambda>k. excl s k - (if (k, True) \<in> set rows then 1 else 0))"
    and invalidate_drops: "excl (sv_invalidate srv s) k = 0" "shar (sv_invalidate srv s) k = 0"

text \<open>Keys counted at most once, all of them in a given set\<close>

definition once_in :: "('k \<Rightarrow> nat) \<Rightarrow> 'k set \<Rightarrow> bool" where
  "once_in f K \<longleftrightarrow> (\<forall>k. f k \<le> (if k \<in> K then 1 else 0))"

lemma once_inI:
  assumes "\<And>k. k \<in> K \<Longrightarrow> f k \<le> 1" "\<And>k. k \<notin> K \<Longrightarrow> f k = 0" shows "once_in f K"
  using assms by (simp add: once_in_def)

lemma once_inside: "once_in f K \<Longrightarrow> f k \<le> 1"
  unfolding once_in_def by (erule allE [of _ k]) (simp split: if_splits)

lemma once_outside: "once_in f K \<Longrightarrow> k \<notin> K \<Longrightarrow> f k = 0"
  unfolding once_in_def by (erule allE [of _ k]) simp

lemma once_mono: "once_in f K \<Longrightarrow> K \<subseteq> L \<Longrightarrow> once_in f L"
  by (rule once_inI) (auto intro: once_outside once_inside [simplified])

lemma once_zero [simp]: "(\<And>k. f k = 0) \<Longrightarrow> once_in f K"
  by (simp add: once_in_def)

lemma once_add:
  assumes "once_in f K" "k \<notin> K" shows "once_in (f(k := Suc (f k))) (insert k K)"
proof (rule once_inI)
  show "(f(k := Suc (f k))) j \<le> 1" for j
    using assms once_outside [OF assms] once_inside [OF assms(1), of j] by simp
  show "(f(k := Suc (f k))) j = 0" if "j \<notin> insert k K" for j
    using that assms(1) by (simp add: once_outside)
qed

lemma once_drop:
  assumes "once_in f K" shows "once_in (f(k := f k - 1)) (K - {k})"
proof (rule once_inI)
  show "(f(k := f k - 1)) j \<le> 1" for j using once_inside [OF assms, of j] by (cases "j = k") auto
  show "(f(k := f k - 1)) j = 0" if "j \<notin> K - {k}" for j
    using that once_inside [OF assms, of j] once_outside [OF assms, of j] by auto
qed

lemma once_remove:
  assumes "once_in f K" "f k = 0" shows "once_in f (K - {k})"
proof (rule once_inI)
  show "f j \<le> 1" for j using once_inside [OF assms(1)] .
  show "f j = 0" if "j \<notin> K - {k}" for j
    using that assms once_outside [OF assms(1), of j] by (cases "j = k") auto
qed

lemma once_subtract:
  assumes "once_in f K" shows "once_in (\<lambda>k. f k - (if k \<in> S then 1 else 0)) (K - S)"
proof (rule once_inI)
  show "f j - (if j \<in> S then 1 else 0) \<le> 1" for j using once_inside [OF assms, of j] by simp
  show "f j - (if j \<in> S then 1 else 0) = 0" if "j \<notin> K - S" for j
    using that once_inside [OF assms, of j] once_outside [OF assms, of j] by auto
qed

lemma once_union:
  assumes "once_in f K" "S \<inter> K = {}" shows "once_in (\<lambda>k. f k + (if k \<in> S then 1 else 0)) (K \<union> S)"
proof (rule once_inI)
  have "f j = 0" if "j \<in> S" for j using assms(2) that by (intro once_outside [OF assms(1)]) auto
  then show "f j + (if j \<in> S then 1 else 0) \<le> 1" for j using once_inside [OF assms(1), of j] by simp
  show "f j + (if j \<in> S then 1 else 0) = 0" if "j \<notin> K \<union> S" for j
    using that by (simp add: once_outside [OF assms(1)])
qed

text \<open>Every lock of the session is in the coordinator's records, and held once.\<close>

definition recorded ::
    "('s \<Rightarrow> lock_key \<Rightarrow> nat) \<Rightarrow> ('s \<Rightarrow> lock_key \<Rightarrow> nat) \<Rightarrow> 's coordinator \<Rightarrow> bool" where
  "recorded excl shar c \<longleftrightarrow>
     finite (all_keys (co_locks c)) \<and> lks_held (co_locks c) \<inter> lks_shared_held (co_locks c) = {} \<and>
     once_in (excl (co_session c)) (lks_held (co_locks c)) \<and>
     once_in (shar (co_session c)) (lks_shared_held (co_locks c))"

definition session_empty ::
    "('s \<Rightarrow> lock_key \<Rightarrow> nat) \<Rightarrow> ('s \<Rightarrow> lock_key \<Rightarrow> nat) \<Rightarrow> 's coordinator \<Rightarrow> bool" where
  "session_empty excl shar c \<longleftrightarrow> (\<forall>k. excl (co_session c) k = 0 \<and> shar (co_session c) k = 0)"

lemmas coordinator_defs = record_exclusive_def record_shared_def drop_exclusive_def drop_shared_def
  invalidate_connection_def already_held_def all_keys_def

lemma fold_record_exclusive:
  "fold record_exclusive ks c = c\<lparr>co_locks := (co_locks c)\<lparr>lks_held := lks_held (co_locks c) \<union> set ks\<rparr>\<rparr>"
  by (induction ks arbitrary: c) (simp_all add: record_exclusive_def)

context lock_server
begin

lemma recorded_acquire:
  assumes "recorded excl shar c" "acquire srv x k c = (r, c')"
  shows "recorded excl shar c'"
proof (cases "already_held k c")
  case True
  then show ?thesis using assms by (auto simp: acquire_def)
next
  case new: False
  obtain o' s where l: "sv_lock srv x k (timeout_ms c) (co_session c) = (o', s)" by fastforce
  show ?thesis
  proof (cases o')
    case None
    with l have "sv_lock srv x k (timeout_ms c) (co_session c) = (None, s)" by simp
    from lock_ok [OF this] new l None assms show ?thesis
      by (auto simp: acquire_def recorded_def coordinator_defs once_add split: if_splits)
  next
    case (Some e)
    show ?thesis
    proof (cases "is_lock_timeout_error e")
      case True
      from lock_timeout [OF _ True] l Some have "excl s = excl (co_session c) \<and> shar s = shar (co_session c)"
        by blast
      with True l Some new assms show ?thesis by (auto simp: acquire_def recorded_def)
    next
      case False
      with l Some new assms show ?thesis
        by (auto simp: acquire_def recorded_def coordinator_defs invalidate_drops)
    qed
  qed
qed

lemma recorded_release:
  assumes "recorded excl shar c"
  shows "recorded excl shar (release srv x k c)"
proof (cases "already_held k c")
  case held: True
  obtain r s where u: "sv_unlock srv x k (co_session c) = (r, s)" by fastforce
  note c = assms [unfolded recorded_def]
  show ?thesis
  proof (cases "r = Inr True")
    case True
    with u have "sv_unlock srv x k (co_session c) = (Inr True, s)" by simp
    from unlock_true [OF this] have s: "0 < (if x then excl (co_session c) k else shar (co_session c) k)"
      "excl s = (if x then (excl (co_session c))(k := excl (co_session c) k - 1) else excl (co_session c))"
      "shar s = (if x then shar (co_session c) else (shar (co_session c))(k := shar (co_session c) k - 1))"
      by blast+
    have k: "if x then k \<in> lks_held (co_locks c) else k \<in> lks_shared_held (co_locks c)"
      using s(1) c once_outside by (metis less_irrefl)
    then have other: "if x then shar (co_session c) k = 0 else excl (co_session c) k = 0"
      using c once_outside [of "excl (co_session c)" _ k] once_outside [of "shar (co_session c)" _ k]
      by (cases x) auto
    have "once_in (excl s) (lks_held (co_locks c) - {k})" "once_in (shar s) (lks_shared_held (co_locks c) - {k})"
      using c s(2,3) other by (auto simp: once_drop once_remove simp del: One_nat_def)
    then show ?thesis
      using c u True held by (auto simp: release_def recorded_def coordinator_defs)
  next
    case False
    then show ?thesis
      using c u held by (auto simp: release_def recorded_def coordinator_defs invalidate_drops)
  qed
qed (simp add: release_def assms)

text \<open>A batch release leaves nothing unrecorded, also of keys that were not yet recorded.\<close>

lemma recorded_release_batch:
  assumes "finite (all_keys (co_locks c))" "lks_held (co_locks c) \<inter> lks_shared_held (co_locks c) = {}"
    "once_in (excl (co_session c)) (lks_held (co_locks c) \<union> set keys)"
    "once_in (shar (co_session c)) (lks_shared_held (co_locks c))" "distinct keys"
  shows "recorded excl shar (release_batch_exclusive srv keys c)"
proof (cases "keys = []")
  case True
  then show ?thesis using assms by (simp add: release_batch_exclusive_def recorded_def)
next
  case ne: False
  obtain r s where u: "sv_unlock_batch srv (rev (sort keys)) (co_session c) = (r, s)" by fastforce
  show ?thesis
  proof (cases "\<exists>rows. r = Inr rows \<and> (\<forall>(k, b) \<in> set rows. b)")
    case True
    then obtain rows where rows: "r = Inr rows" "\<forall>(k, b) \<in> set rows. b" by blast
    with u have "sv_unlock_batch srv (rev (sort keys)) (co_session c) = (Inr rows, s)" by simp
    from unlock_batch_ok [OF this] assms(5) have s: "map fst rows = rev (sort keys)"
      "shar s = shar (co_session c)"
      "excl s = (\<lambda>k. excl (co_session c) k - (if (k, True) \<in> set rows then 1 else 0))" by auto
    from s(1) have "fst ` set rows = set keys" by (metis list.set_map set_rev set_sort)
    moreover have "fst ` set rows = {k. (k, True) \<in> set rows}" using rows(2) by force
    ultimately have "(k, True) \<in> set rows \<longleftrightarrow> k \<in> set keys" for k by blast
    then have "once_in (excl s) (lks_held (co_locks c) \<union> set keys - set keys)"
      using once_subtract [OF assms(3), of "set keys"] by (simp only: s(3))
    then have "once_in (excl s) (lks_held (co_locks c) - set keys)"
      by (rule once_mono) blast
    then show ?thesis
      using ne u rows assms(1,2,4) s(2)
      by (auto simp: release_batch_exclusive_def recorded_def coordinator_defs Let_def)
  next
    case False
    then show ?thesis
      using ne u assms(1,2)
      by (auto simp: release_batch_exclusive_def recorded_def coordinator_defs Let_def invalidate_drops
          split: sum.splits)
  qed
qed

end

lemma release_batch_locks:
  "co_locks (release_batch_exclusive srv keys c) =
     (co_locks c)\<lparr>lks_held := lks_held (co_locks c) - set keys\<rparr>"
  by (auto simp: release_batch_exclusive_def coordinator_defs Let_def split: prod.splits)

context lock_server
begin

lemma batch_loop_step:
  assumes "recorded excl shar c" "distinct keys" "\<forall>k \<in> set keys. \<not> already_held k c"
    and t: "sv_try srv (sort keys) (co_session c) = (Inr rows, s)"
  shows "recorded excl shar (release_batch_exclusive srv (map fst (filter snd rows)) (c\<lparr>co_session := s\<rparr>))"
    "co_locks (release_batch_exclusive srv (map fst (filter snd rows)) (c\<lparr>co_session := s\<rparr>)) = co_locks c"
    "\<forall>(k, acq) \<in> set rows. acq \<Longrightarrow> set (map fst (filter snd rows)) = set keys \<and>
       excl s = (\<lambda>k. excl (co_session c) k + (if k \<in> set keys then 1 else 0)) \<and> shar s = shar (co_session c)"
proof -
  let ?acq = "map fst (filter snd rows)"
  note c = assms(1) [unfolded recorded_def]
  from try_ok [OF t] assms(2) have s: "map fst rows = sort keys" "shar s = shar (co_session c)"
    "excl s = (\<lambda>k. excl (co_session c) k + (if (k, True) \<in> set rows then 1 else 0))" by auto
  have keys: "fst ` set rows = set keys" using s(1) by (metis list.set_map set_sort)
  then have acq: "set ?acq \<subseteq> set keys" by auto
  have new: "set keys \<inter> lks_held (co_locks c) = {}" using assms(3) by (auto simp: already_held_def)
  have "(k, True) \<in> set rows \<longleftrightarrow> k \<in> set ?acq" for k by force
  then have s': "excl s = (\<lambda>k. excl (co_session c) k + (if k \<in> set ?acq then 1 else 0))"
    by (simp add: s(3))
  have "distinct (map fst rows)" using s(1) assms(2) by simp
  then have dist: "distinct ?acq" by (rule distinct_map_filter)
  have "once_in (excl s) (lks_held (co_locks c) \<union> set ?acq)"
    unfolding s' using c acq new by (intro once_union) auto
  then show "recorded excl shar (release_batch_exclusive srv ?acq (c\<lparr>co_session := s\<rparr>))"
    using c dist s(2) by (intro recorded_release_batch) auto
  have "lks_held (co_locks c) - set ?acq = lks_held (co_locks c)"
    using acq new by blast
  then show "co_locks (release_batch_exclusive srv ?acq (c\<lparr>co_session := s\<rparr>)) = co_locks c"
    by (simp add: release_batch_locks)
  assume all: "\<forall>(k, acq) \<in> set rows. acq"
  then have "filter snd rows = rows" by (auto simp: filter_id_conv)
  then have "set ?acq = set keys" using keys by simp
  with s' s(2) show "set ?acq = set keys \<and>
       excl s = (\<lambda>k. excl (co_session c) k + (if k \<in> set keys then 1 else 0)) \<and> shar s = shar (co_session c)"
    by simp
qed

lemma batch_loop_outcome:
  assumes "recorded excl shar c" "distinct keys" "\<forall>k \<in> set keys. \<not> already_held k c"
    and "batch_loop fuel srv keys clock deadline i c = Some (r, c')"
  shows "recorded excl shar c' \<and> co_timeout_seconds c' = co_timeout_seconds c \<and>
    (r = Inr () \<longrightarrow> co_locks c' = (co_locks c)\<lparr>lks_held := lks_held (co_locks c) \<union> set keys\<rparr> \<and>
       (\<forall>k \<in> set keys. excl (co_session c') k = 1)) \<and>
    (r \<noteq> Inr () \<longrightarrow> co_locks c' = co_locks c \<and>
       (r = Inl LockTimeoutError \<or> (\<exists>e. r = Inl (DatabaseError e)) \<and> session_empty excl shar c'))"
  using assms
proof (induction fuel arbitrary: i c)
  case (Suc fuel)
  obtain t s where t: "sv_try srv (sort keys) (co_session c) = (t, s)" by fastforce
  show ?case
  proof (cases t)
    case (Inl e)
    then show ?thesis
      using Suc.prems t
      by (auto simp: recorded_def session_empty_def invalidate_drops coordinator_defs)
  next
    case (Inr rows)
    let ?acq = "map fst (filter snd rows)"
    let ?c2 = "release_batch_exclusive srv ?acq (c\<lparr>co_session := s\<rparr>)"
    note step = batch_loop_step [OF Suc.prems(1-3) t [unfolded Inr]]
    show ?thesis
    proof (cases "\<forall>(k, acq) \<in> set rows. acq")
      case True
      note all = step(3) [OF True]
      have c': "r = Inr ()" "c' = fold record_exclusive ?acq (c\<lparr>co_session := s\<rparr>)"
        using Suc.prems(4) t Inr True by (auto split: if_splits)
      have new: "set keys \<inter> lks_held (co_locks c) = {}" "set keys \<inter> lks_shared_held (co_locks c) = {}"
        using Suc.prems(3) by (auto simp: already_held_def)
      have "once_in (excl s) (lks_held (co_locks c) \<union> set keys)"
        using all once_union [of "excl (co_session c)" "lks_held (co_locks c)" "set keys"] Suc.prems(1) new(1)
        by (simp add: recorded_def)
      moreover have "excl s k = 1" if "k \<in> set keys" for k
        using all that new(1) Suc.prems(1) once_outside [of "excl (co_session c)" "lks_held (co_locks c)" k]
        by (auto simp: recorded_def)
      ultimately show ?thesis
        using Suc.prems(1) all new by (auto simp: c' fold_record_exclusive recorded_def all_keys_def)
    next
      case False
      have held: "\<forall>k \<in> set keys. \<not> already_held k ?c2"
        using Suc.prems(3) step(2) by (simp add: already_held_def)
      have cfg: "co_timeout_seconds ?c2 = co_timeout_seconds c"
        by (auto simp: release_batch_exclusive_def coordinator_defs Let_def split: prod.splits)
      show ?thesis
      proof (cases "deadline \<le> clock (Suc i)")
        case True
        then have "r = Inl LockTimeoutError" "c' = ?c2"
          using Suc.prems(4) t Inr False by (auto simp: Let_def split: if_splits)
        then show ?thesis using step(1,2) cfg by simp
      next
        case late: False
        then have "batch_loop fuel srv keys clock deadline (Suc i) ?c2 = Some (r, c')"
          using Suc.prems(4) t Inr False by (auto simp: Let_def split: if_splits)
        from Suc.IH [OF step(1) Suc.prems(2) held this] show ?thesis
          unfolding step(2) cfg .
      qed
    qed
  qed
qed simp

lemma recorded_release_all:
  assumes "recorded excl shar c"
  shows "recorded excl shar (release_all srv c) \<and> all_keys (co_locks (release_all srv c)) = {}"
proof -
  have fin: "finite (lks_held (co_locks c))" "finite (lks_shared_held (co_locks c))"
    using assms by (auto simp: recorded_def all_keys_def)
  let ?ex = "rev (sorted_list_of_set (lks_held (co_locks c)))"
  let ?c1 = "if ?ex \<noteq> [] then release_batch_exclusive srv ?ex c else c"
  have "recorded excl shar (release_batch_exclusive srv ?ex c)"
    using assms fin by (intro recorded_release_batch) (auto simp: recorded_def)
  then have c1: "recorded excl shar ?c1" using assms by simp
  have k1: "lks_held (co_locks ?c1) = {}" "lks_shared_held (co_locks ?c1) = lks_shared_held (co_locks c)"
    using fin by (auto simp: release_batch_locks)
  have loop: "recorded excl shar (fold (release srv False) ks d) \<and>
      lks_held (co_locks (fold (release srv False) ks d)) = {} \<and>
      lks_shared_held (co_locks (fold (release srv False) ks d)) = lks_shared_held (co_locks d) - set ks"
    if "recorded excl shar d" "lks_held (co_locks d) = {}" for ks d
    using that
  proof (induction ks arbitrary: d)
    case (Cons k ks)
    have "lks_held (co_locks (release srv False k d)) = {}"
      "lks_shared_held (co_locks (release srv False k d)) = lks_shared_held (co_locks d) - {k}"
      using Cons.prems(2) by (auto simp: release_def coordinator_defs Let_def split: prod.splits)
    with Cons.IH [OF recorded_release [OF Cons.prems(1)]] show ?case by (auto simp: Diff_insert2 [symmetric] Diff_Diff_Int)
  qed simp
  from loop [OF c1 k1(1), of "rev (sorted_list_of_set (lks_shared_held (co_locks c)))"] show ?thesis
    using fin k1(2) by (simp add: release_all_def Let_def all_keys_def)
qed

lemma recorded_op:
  assumes "recorded excl shar c" "run_op fuel srv h resolve clock op c = Some (r, c')"
  shows "recorded excl shar c'"
proof -
  have acq: "recorded excl shar c'" if "with_key k c (\<lambda>k. acquire srv x k c) = Some (r, c')" for k x
    using that assms(1) recorded_acquire by (auto simp: with_key_def split: sum.splits)
  have rel: "recorded excl shar c'" if "with_key k c (\<lambda>k. (Inr (), release srv x k c)) = Some (r, c')" for k x
    using that assms(1) recorded_release by (auto simp: with_key_def split: sum.splits)
  have regions: "recorded excl shar c'"
    if "region_keys h resolve c ids = Inr ks" "acquire_batch_exclusive fuel srv clock ks c = Some (r, c')" for ids ks
  proof -
    have "distinct ks" using that(1) by (auto simp: region_keys_def bindE_eq_Inr)
    with that(2) assms(1) batch_loop_outcome show ?thesis
      by (auto simp: acquire_batch_exclusive_def split: if_splits)
  qed
  have drop: "recorded excl shar (release_region_locks srv ks c)" if "region_keys h resolve c ids = Inr ks" for ids ks
  proof -
    have "distinct ks" using that(1) by (auto simp: region_keys_def bindE_eq_Inr)
    with assms(1) show ?thesis
      unfolding release_region_locks_def
      by (intro recorded_release_batch) (auto simp: recorded_def intro: once_mono)
  qed
  show ?thesis
    using assms acq rel regions drop recorded_release_all
    by (cases op) (auto simp: run_op_def split: sum.splits)
qed

end

subsection \<open>Sequences of operations\<close>

text \<open>A run of operations in which the caller goes on after an exception\<close>

fun run_ops ::
    "nat \<Rightarrow> 's server \<Rightarrow> (string \<Rightarrow> 64 word) \<Rightarrow> (string \<Rightarrow> string) \<Rightarrow> (nat \<Rightarrow> real) \<Rightarrow> lock_op list
     \<Rightarrow> 's coordinator \<Rightarrow> 's coordinator option" where
  "run_ops fuel srv h resolve clock [] c = Some c"
| "run_ops fuel srv h resolve clock (op # ops) c =
     (case run_op fuel srv h resolve clock op c of
        None \<Rightarrow> None
      | Some (r, c') \<Rightarrow> run_ops fuel srv h resolve clock ops c')"

context lock_server
begin

lemma recorded_run:
  "recorded excl shar c \<Longrightarrow> run_ops fuel srv h resolve clock ops c = Some c' \<Longrightarrow> recorded excl shar c'"
  by (induction ops arbitrary: c) (auto dest: recorded_op split: option.splits)

lemma recorded_start:
  "(\<And>k. excl s k = 0 \<and> shar s k = 0) \<Longrightarrow> recorded excl shar (StoreLockCoordinator s path endpoint secure t)"
  by (simp add: recorded_def StoreLockCoordinator_def all_keys_def)

lemma close_empties:
  assumes "recorded excl shar c"
  shows "session_empty excl shar (close_connection srv c)"
proof -
  from recorded_release_all [OF assms] have r: "recorded excl shar (release_all srv c)"
    "all_keys (co_locks (release_all srv c)) = {}" by blast+
  then have "excl (co_session (release_all srv c)) k = 0" "shar (co_session (release_all srv c)) k = 0" for k
    using once_outside [of "excl (co_session (release_all srv c))" "{}" k]
      once_outside [of "shar (co_session (release_all srv c))" "{}" k]
    by (auto simp: recorded_def all_keys_def)
  with r(2) show ?thesis by (simp add: close_connection_def session_empty_def)
qed

end

text \<open>C16: No advisory lock escapes the coordinator: on a session with the documented behaviour,
  whatever sequence of operations is run and whichever of them time out, fail or cannot confirm an
  unlock, every lock the session holds is in the coordinator's records, is held once, and no key is
  recorded both as exclusive and as shared.\<close>

theorem lock_ledger_complete:
  assumes "lock_server srv excl shar" and "\<And>k. excl s k = 0 \<and> shar s k = 0"
    and "run_ops fuel srv h resolve clock ops (StoreLockCoordinator s path endpoint secure t) = Some c"
  shows "{k. 0 < excl (co_session c) k} \<subseteq> lks_held (co_locks c) \<and>
    {k. 0 < shar (co_session c) k} \<subseteq> lks_shared_held (co_locks c) \<and>
    (\<forall>k. excl (co_session c) k \<le> 1 \<and> shar (co_session c) k \<le> 1) \<and>
    lks_held (co_locks c) \<inter> lks_shared_held (co_locks c) = {}"
proof -
  have "recorded excl shar c"
    using lock_server.recorded_run [OF assms(1) lock_server.recorded_start [OF assms(1,2)] assms(3)] .
  then have r: "once_in (excl (co_session c)) (lks_held (co_locks c))"
    "once_in (shar (co_session c)) (lks_shared_held (co_locks c))"
    "lks_held (co_locks c) \<inter> lks_shared_held (co_locks c) = {}" by (auto simp: recorded_def)
  then show ?thesis using once_outside [OF r(1)] once_outside [OF r(2)]
    by (auto simp: once_inside [simplified])
qed

text \<open>Closing the coordinator returns a clean session: after any sequence of operations and any
  failures, including failures of the final unlocks, the session holds no advisory lock.\<close>

theorem close_leaves_no_lock:
  assumes "lock_server srv excl shar" and "\<And>k. excl s k = 0 \<and> shar s k = 0"
    and "run_ops fuel srv h resolve clock ops (StoreLockCoordinator s path endpoint secure t) = Some c"
  shows "session_empty excl shar (close_connection srv c)"
  using lock_server.close_empties [OF assms(1)
      lock_server.recorded_run [OF assms(1) lock_server.recorded_start [OF assms(1,2)] assms(3)]] .

text \<open>The batched acquisition is all or nothing: on success every requested key is recorded and
  held once by the session; on a timeout or an error the records are unchanged, and after an error
  of the database the session holds nothing at all.\<close>

theorem batch_acquire_all_or_nothing:
  assumes "lock_server srv excl shar" and "\<And>k. excl s k = 0 \<and> shar s k = 0"
    and "run_ops fuel srv h resolve clock ops (StoreLockCoordinator s path endpoint secure t) = Some c"
    and "distinct keys"
    and "acquire_batch_exclusive fuel' srv clock' keys c = Some (r, c')"
  shows "(r = Inr () \<longrightarrow> set keys \<subseteq> lks_held (co_locks c') \<and> (\<forall>k \<in> set keys. excl (co_session c') k = 1)) \<and>
    (r \<noteq> Inr () \<longrightarrow> co_locks c' = co_locks c) \<and>
    (\<forall>e. r = Inl (DatabaseError e) \<longrightarrow> session_empty excl shar c')"
proof -
  have rec: "recorded excl shar c"
    using lock_server.recorded_run [OF assms(1) lock_server.recorded_start [OF assms(1,2)] assms(3)] .
  show ?thesis
  proof (cases "keys = [] \<or> (\<exists>k \<in> set keys. already_held k c)")
    case True
    then consider "r = Inr ()" "keys = []" "c' = c" | "r = Inl AlreadyHeldError" "c' = c"
      using assms(5) by (cases "keys = []") (auto simp: acquire_batch_exclusive_def)
    then show ?thesis by cases (auto simp: AlreadyHeldError_def DatabaseError_def)
  next
    case False
    then have "batch_loop fuel' srv keys clock' (clock' 0 + co_timeout_seconds c) 0 c = Some (r, c')"
      using assms(5) by (auto simp: acquire_batch_exclusive_def)
    from lock_server.batch_loop_outcome [OF assms(1) rec assms(4) _ this] False show ?thesis
      by (auto simp: LockTimeoutError_def DatabaseError_def)
  qed
qed

text \<open>The batched acquisition ends: if the clock reaches the deadline after attempt \<open>n\<close>, a result
  is there within \<open>n + 1\<close> attempts, whatever the session answers.\<close>

theorem batch_acquire_terminates:
  assumes "clock 0 + co_timeout_seconds c \<le> clock (Suc n)" and "n < fuel"
  shows "acquire_batch_exclusive fuel srv clock keys c \<noteq> None"
proof -
  have "batch_loop fuel srv keys clock d i c' \<noteq> None" if "d \<le> clock (Suc (i + m))" "m < fuel" for d i m c'
    using that
  proof (induction fuel arbitrary: i m c')
    case (Suc fuel)
    show ?case
    proof (cases "d \<le> clock (Suc i)")
      case False
      then obtain m' where m: "m = Suc m'" using Suc.prems(1) by (cases m) auto
      then have "batch_loop fuel srv keys clock d (Suc i) c'' \<noteq> None" for c''
        using Suc.IH [of "Suc i" m'] Suc.prems by simp
      then show ?thesis by (auto simp: Let_def split: prod.splits sum.splits)
    qed (auto simp: Let_def split: prod.splits sum.splits)
  qed simp
  from this [of "clock 0 + co_timeout_seconds c" 0 n] assms show ?thesis
    by (simp add: acquire_batch_exclusive_def)
qed

subsection \<open>A concrete session\<close>

text \<open>
  A session of a lock table: its own counts, the keys other sessions hold before each attempt of a
  batch, and a script that says which of the next unlock statements fail with a connection error.
\<close>

record lock_table =
  lt_excl :: "lock_key \<Rightarrow> nat"
  lt_shar :: "lock_key \<Rightarrow> nat"
  lt_others :: "lock_key set list"
  lt_fail :: "bool list"

definition connection_error :: db_exception where
  "connection_error = \<lparr>ex_orig = None, ex_text = ''server closed the connection''\<rparr>"

definition timeout_error :: db_exception where
  "timeout_error = \<lparr>ex_orig = Some (Some ''55P03'', None), ex_text = ''lock timeout''\<rparr>"

definition others_now :: "lock_table \<Rightarrow> lock_key set" where
  "others_now s = (case lt_others s of [] \<Rightarrow> {} | o' # os \<Rightarrow> o')"

definition unlock_fails :: "lock_table \<Rightarrow> bool" where
  "unlock_fails s = (case lt_fail s of [] \<Rightarrow> False | f # fs \<Rightarrow> f)"

definition table_server :: "lock_table server" where
  "table_server = \<lparr>
     sv_lock = (\<lambda>x k ms s. if k \<in> others_now s then (Some timeout_error, s)
        else (None, if x then s\<lparr>lt_excl := (lt_excl s)(k := Suc (lt_excl s k))\<rparr>
                    else s\<lparr>lt_shar := (lt_shar s)(k := Suc (lt_shar s k))\<rparr>)),
     sv_try = (\<lambda>ks s. (Inr (map (\<lambda>k. (k, k \<notin> others_now s)) ks),
        s\<lparr>lt_excl := (\<lambda>k. lt_excl s k + (if k \<in> set ks \<and> k \<notin> others_now s then 1 else 0)),
          lt_others := drop 1 (lt_others s)\<rparr>)),
     sv_unlock = (\<lambda>x k s. if unlock_fails s then (Inl connection_error, s\<lparr>lt_fail := drop 1 (lt_fail s)\<rparr>)
        else if x then (Inr (0 < lt_excl s k),
           s\<lparr>lt_excl := (lt_excl s)(k := lt_excl s k - 1), lt_fail := drop 1 (lt_fail s)\<rparr>)
        else (Inr (0 < lt_shar s k),
           s\<lparr>lt_shar := (lt_shar s)(k := lt_shar s k - 1), lt_fail := drop 1 (lt_fail s)\<rparr>)),
     sv_unlock_batch = (\<lambda>ks s. if unlock_fails s then (Inl connection_error, s\<lparr>lt_fail := drop 1 (lt_fail s)\<rparr>)
        else (Inr (map (\<lambda>k. (k, 0 < lt_excl s k)) ks),
           s\<lparr>lt_excl := (\<lambda>k. lt_excl s k - (if k \<in> set ks then 1 else 0)),
             lt_fail := drop 1 (lt_fail s)\<rparr>)),
     sv_invalidate = (\<lambda>s. s\<lparr>lt_excl := (\<lambda>k. 0), lt_shar := (\<lambda>k. 0)\<rparr>)\<rparr>"

interpretation lock_table: lock_server table_server lt_excl lt_shar
proof
  show "sv_try table_server ks s = (Inr rows, s') \<Longrightarrow> distinct ks \<Longrightarrow>
      map fst rows = ks \<and> lt_shar s' = lt_shar s \<and>
      lt_excl s' = (\<lambda>k. lt_excl s k + (if (k, True) \<in> set rows then 1 else 0))" for ks s rows s'
    by (auto simp: table_server_def o_def fun_eq_iff image_iff)
  show "sv_unlock_batch table_server ks s = (Inr rows, s') \<Longrightarrow> distinct ks \<Longrightarrow>
      map fst rows = ks \<and> lt_shar s' = lt_shar s \<and>
      lt_excl s' = (\<lambda>k. lt_excl s k - (if (k, True) \<in> set rows then 1 else 0))" for ks s rows s'
    by (auto simp: table_server_def o_def fun_eq_iff image_iff split: if_splits)
qed (auto simp: table_server_def split: if_splits)

definition free_session :: "lock_key set list \<Rightarrow> bool list \<Rightarrow> lock_table" where
  "free_session others fail = \<lparr>lt_excl = (\<lambda>k. 0), lt_shar = (\<lambda>k. 0), lt_others = others, lt_fail = fail\<rparr>"

text \<open>A hash that tells the identities of the example apart by their length\<close>

definition toy_hash :: "string \<Rightarrow> 64 word" where "toy_hash identity = of_nat (length identity)"

definition example_coordinator :: "lock_key set list \<Rightarrow> bool list \<Rightarrow> lock_table coordinator" where
  "example_coordinator others fail =
     StoreLockCoordinator (free_session others fail) ''s3://b/k'' None False 30"

abbreviation example_run :: "lock_key set list \<Rightarrow> bool list \<Rightarrow> lock_op list \<Rightarrow> lock_table coordinator option" where
  "example_run others fail ops \<equiv> run_ops 5 table_server toy_hash id (\<lambda>i. of_nat i) ops (example_coordinator others fail)"

text \<open>C17: (deviation) The records can promise a lock the session has lost: when an attempt of the
  batched acquisition gets some keys only, the unlock of those fails and the next attempt gets them
  all, the call returns normally and every shared key recorded before it, the store gate included, is
  still recorded, while the session, whose connection was invalidated in between, holds none of
  them.\<close>

theorem failed_unlock_loses_shared_gate:
  assumes "lock_server srv excl shar" and "distinct keys" and "\<And>k. k \<in> set keys \<Longrightarrow> \<not> already_held k c"
    and "sv_try srv (sort keys) (co_session c) = (Inr rows, s1)" and "(k1, True) \<in> set rows" "(k2, False) \<in> set rows"
    and "sv_unlock_batch srv (rev (sort (map fst (filter snd rows)))) s1 = (Inl e, s2)"
    and "sv_try srv (sort keys) (sv_invalidate srv s2) = (Inr rows', s3)" and "\<And>k b. (k, b) \<in> set rows' \<Longrightarrow> b"
    and "clock 1 < clock 0 + co_timeout_seconds c"
  shows "\<exists>c'. acquire_batch_exclusive (Suc (Suc fuel)) srv clock keys c = Some (Inr (), c') \<and>
    lks_shared_held (co_locks c') = lks_shared_held (co_locks c) \<and> (\<forall>k. shar (co_session c') k = 0)"
proof -
  let ?acq = "map fst (filter snd rows)" and ?deadline = "clock 0 + co_timeout_seconds c"
  let ?c2 = "release_batch_exclusive srv ?acq (c\<lparr>co_session := s1\<rparr>)"
  let ?c' = "fold record_exclusive (map fst (filter snd rows')) (?c2\<lparr>co_session := s3\<rparr>)"
  have acq: "?acq \<noteq> []" using assms(5) by (force simp: filter_empty_conv)
  have keys: "keys \<noteq> []"
    using lock_server.try_ok [OF assms(1,4)] assms(2,5) by auto
  have c2: "co_session ?c2 = sv_invalidate srv s2"
    "lks_shared_held (co_locks ?c2) = lks_shared_held (co_locks c)"
    using acq assms(7) by (simp_all add: release_batch_exclusive_def coordinator_defs)
  have "batch_loop (Suc (Suc fuel)) srv keys clock ?deadline 0 c
      = batch_loop (Suc fuel) srv keys clock ?deadline 1 ?c2"
    using assms(4,6,10) by (auto simp: Let_def)
  also have "\<dots> = Some (Inr (), ?c')" using assms(8,9) by (auto simp: c2(1) Let_def)
  finally have "acquire_batch_exclusive (Suc (Suc fuel)) srv clock keys c = Some (Inr (), ?c')"
    using keys assms(3) by (simp add: acquire_batch_exclusive_def)
  moreover have "shar (co_session ?c') k = 0" for k
    using lock_server.try_ok [OF assms(1,8)] assms(2) lock_server.invalidate_drops(2) [OF assms(1)]
    by (simp add: fold_record_exclusive)
  ultimately show ?thesis using c2(2) by (auto simp: fold_record_exclusive)
qed

subsection \<open>Witnesses\<close>

text \<open>The gate is key 16 and the two regions are 0x12 and 0x13 in the namespace of regions.\<close>

abbreviation example_ops :: "lock_op list" where
  "example_ops \<equiv> [AcquireSharedGate, AcquireRegions [''x'', ''yy'']]"

abbreviation contended_run :: "lock_table coordinator option" where
  "contended_run \<equiv> example_run [{0x1000000000000012}, {}] [True] example_ops"

theorem lock_ledger_complete_witness:
  "\<exists>c. contended_run = Some c \<and> {k. 0 < lt_excl (co_session c) k} \<subseteq> lks_held (co_locks c) \<and>
     lt_excl (co_session c) 0x1000000000000013 = 1"
proof -
  have "map_option (\<lambda>c. lt_excl (co_session c) 0x1000000000000013) contended_run = Some 1" by code_simp
  then obtain c where c: "contended_run = Some c" "lt_excl (co_session c) 0x1000000000000013 = 1" by auto
  have "lt_excl (free_session o' f) k = 0 \<and> lt_shar (free_session o' f) k = 0" for o' f k
    by (simp add: free_session_def)
  with lock_ledger_complete [OF lock_table.lock_server_axioms _ c(1) [unfolded example_coordinator_def]] c
  show ?thesis by blast
qed

theorem close_leaves_no_lock_witness:
  "\<exists>c. example_run [] [True] example_ops = Some c \<and> lt_shar (co_session c) 16 = 1 \<and>
     session_empty lt_excl lt_shar (close_connection table_server c)"
proof -
  have "map_option (\<lambda>c. lt_shar (co_session c) 16) (example_run [] [True] example_ops) = Some 1" by code_simp
  then obtain c where c: "example_run [] [True] example_ops = Some c" "lt_shar (co_session c) 16 = 1" by auto
  have "lt_excl (free_session o' f) k = 0 \<and> lt_shar (free_session o' f) k = 0" for o' f k
    by (simp add: free_session_def)
  with close_leaves_no_lock [OF lock_table.lock_server_axioms _ c(1) [unfolded example_coordinator_def]] c
  show ?thesis by blast
qed

theorem batch_acquire_all_or_nothing_witness:
  "\<exists>c c'. example_run [] [] [AcquireSharedGate] = Some c \<and>
     acquire_batch_exclusive 5 table_server (\<lambda>i. of_nat i) [5, 6] c = Some (Inr (), c') \<and>
     {5, 6} \<subseteq> lks_held (co_locks c')"
proof -
  let ?batch = "acquire_batch_exclusive 5 table_server (\<lambda>i. of_nat i) [5, 6]"
  have "map_option (\<lambda>c. map_option fst (?batch c)) (example_run [] [] [AcquireSharedGate]) = Some (Some (Inr ()))"
    by code_simp
  then obtain c c' where c: "example_run [] [] [AcquireSharedGate] = Some c" "?batch c = Some (Inr (), c')" by auto
  have "lt_excl (free_session o' f) k = 0 \<and> lt_shar (free_session o' f) k = 0" for o' f k
    by (simp add: free_session_def)
  with batch_acquire_all_or_nothing [OF lock_table.lock_server_axioms _ c(1) [unfolded example_coordinator_def] _ c(2)] c
  show ?thesis by auto
qed

theorem batch_acquire_terminates_witness:
  "acquire_batch_exclusive 40 table_server (\<lambda>i. of_nat i) [5, 6] (example_coordinator [{5}] []) \<noteq> None"
  by (rule batch_acquire_terminates [of _ _ 29])
     (simp_all add: example_coordinator_def StoreLockCoordinator_def)

theorem failed_unlock_loses_shared_gate_witness:
  "\<exists>c c'. example_run [{6}, {}] [True] [AcquireSharedGate] = Some c \<and>
     acquire_batch_exclusive 5 table_server (\<lambda>i. of_nat i) [5, 6] c = Some (Inr (), c') \<and>
     16 \<in> lks_shared_held (co_locks c') \<and> lt_shar (co_session c') 16 = 0"
proof -
  define rows where "rows = [(5 :: 64 word, True), (6, False)]"
  have "map_option (\<lambda>c. 16 \<in> lks_shared_held (co_locks c) \<and> lks_held (co_locks c) = {} \<and>
      lks_shared_held (co_locks c) = {16} \<and> co_timeout_seconds c = 30 \<and>
      lt_others (co_session c) = [{6}, {}] \<and> lt_fail (co_session c) = [True])
    (example_run [{6}, {}] [True] [AcquireSharedGate]) = Some True" by code_simp
  then obtain c where c: "example_run [{6}, {}] [True] [AcquireSharedGate] = Some c"
    "lks_held (co_locks c) = {}" "lks_shared_held (co_locks c) = {16}" "co_timeout_seconds c = 30"
    "lt_others (co_session c) = [{6}, {}]" "lt_fail (co_session c) = [True]" by auto
  have first: "\<exists>s. sv_try table_server (sort [5, 6]) (co_session c) = (Inr rows, s) \<and>
      lt_others s = [{}] \<and> lt_fail s = [True]"
    by (simp add: table_server_def rows_def others_now_def c)
  then obtain s1 where s1: "sv_try table_server (sort [5, 6]) (co_session c) = (Inr rows, s1)"
    "lt_others s1 = [{}]" "lt_fail s1 = [True]" by blast
  have "\<exists>s. sv_unlock_batch table_server (rev (sort (map fst (filter snd rows)))) s1 = (Inl connection_error, s) \<and>
      lt_others s = [{}]" by (simp add: table_server_def unlock_fails_def s1)
  then obtain s2 where s2: "sv_unlock_batch table_server (rev (sort (map fst (filter snd rows)))) s1 = (Inl connection_error, s2)"
    "lt_others s2 = [{}]" by blast
  have "\<exists>s. sv_try table_server (sort [5, 6]) (sv_invalidate table_server s2) = (Inr [(5, True), (6, True)], s)"
    by (simp add: table_server_def others_now_def s2)
  then obtain s3 where s3: "sv_try table_server (sort [5, 6]) (sv_invalidate table_server s2) = (Inr [(5, True), (6, True)], s3)"
    by blast
  have "\<exists>c'. acquire_batch_exclusive (Suc (Suc 3)) table_server (\<lambda>i. of_nat i) [5, 6] c = Some (Inr (), c') \<and>
    lks_shared_held (co_locks c') = lks_shared_held (co_locks c) \<and> (\<forall>k. lt_shar (co_session c') k = 0)"
    by (rule failed_unlock_loses_shared_gate [OF lock_table.lock_server_axioms _ _ s1(1) _ _ s2(1) s3, where ?k1.0 = 5 and ?k2.0 = 6])
       (auto simp: already_held_def c rows_def)
  moreover have "Suc (Suc 3) = 5" by simp
  ultimately obtain c' where "acquire_batch_exclusive 5 table_server (\<lambda>i. of_nat i) [5, 6] c = Some (Inr (), c')"
    "lks_shared_held (co_locks c') = {16}" "lt_shar (co_session c') 16 = 0" using c(3) by metis
  with c(1) show ?thesis by blast
qed

end
