(* ===== verification/ShardContainer.thy ===== *)
theory ShardContainer
  imports Prelude "HOL-Library.Word"
begin

text \<open>
  The shard container of \<open>ingestion/core/zarr_writer.py\<close> (packing and index parsing) and the
  structural check of \<open>ingestion/core/inventory.py\<close>. A file is a list of bytes; the fields of the
  index and of the trailer are little-endian machine integers, and packing a number that does not
  fit raises \<open>struct.error\<close>. Missing or unreadable objects are \<open>None\<close>.
\<close>

subsection \<open>Little-endian integers\<close>

type_synonym bytes = "8 word list"

primrec le_bytes :: "nat \<Rightarrow> nat \<Rightarrow> bytes" where
  "le_bytes 0 v = []"
| "le_bytes (Suc n) v = word_of_nat v # le_bytes n (v div 256)"

primrec le_nat :: "bytes \<Rightarrow> nat" where
  "le_nat [] = 0"
| "le_nat (b # bs) = unat b + 256 * le_nat bs"

definition struct_error :: "string \<Rightarrow> py_error" where
  "struct_error msg = DomainError ''struct.error'' msg"

text \<open>\<open>struct.pack\<close> of one unsigned field of \<open>n\<close> bytes\<close>

definition pack_field :: "nat \<Rightarrow> nat \<Rightarrow> bytes result" where
  "pack_field n v = (if v < 256 ^ n then Inr (le_bytes n v)
     else Inl (struct_error ''argument out of range''))"

text \<open>\<open>xs[-n:]\<close> and \<open>xs[-(m + n):-n]\<close> of a byte string, for a positive \<open>n\<close>\<close>

definition tail_slice :: "nat \<Rightarrow> 'a list \<Rightarrow> 'a list" where
  "tail_slice n xs = drop (length xs - n) xs"

definition inner_slice :: "nat \<Rightarrow> nat \<Rightarrow> 'a list \<Rightarrow> 'a list" where
  "inner_slice m n xs = (let stop = length xs - n in drop (length xs - (m + n)) (take stop xs))"

definition byte_range :: "nat \<Rightarrow> nat \<Rightarrow> 'a list \<Rightarrow> 'a list" where
  "byte_range off len xs = take len (drop off xs)"

subsection \<open>Packing\<close>

definition SHARD_MAGIC :: nat where "SHARD_MAGIC = 0x53484152"
definition INDEX_ENTRY_SIZE :: nat where "INDEX_ENTRY_SIZE = 16"
definition TRAILER_SIZE :: nat where "TRAILER_SIZE = 12"

text \<open>The loop over the chunks: the buffer, the index entries and the current offset\<close>

type_synonym pack_state = "bytes \<times> (nat \<times> nat) list \<times> nat"

fun add_chunk :: "bytes \<Rightarrow> pack_state \<Rightarrow> pack_state" where
  "add_chunk c (buf, index_entries, current_offset) =
     (let c_len = length c in
      if 0 < c_len then (buf @ c, index_entries @ [(current_offset, c_len)], current_offset + c_len)
      else (buf, index_entries @ [(0, 0)], current_offset))"

definition pack_entry :: "nat \<times> nat \<Rightarrow> bytes result" where
  "pack_entry e = bindE (pack_field 8 (fst e)) (\<lambda>a. bindE (pack_field 8 (snd e)) (\<lambda>b. Inr (a @ b)))"

definition pack_trailer :: "nat \<Rightarrow> nat \<Rightarrow> bytes result" where
  "pack_trailer num_chunks index_size =
     bindE (pack_field 4 num_chunks) (\<lambda>a. bindE (pack_field 4 index_size)
       (\<lambda>b. bindE (pack_field 4 SHARD_MAGIC) (\<lambda>c. Inr (a @ b @ c))))"

definition build_sharded_v1_container :: "bytes list \<Rightarrow> bytes result" where
  "build_sharded_v1_container chunks = (case fold add_chunk chunks ([], [], 0) of
     (buf, index_entries, current_offset) \<Rightarrow>
       bindE (mapE pack_entry index_entries) (\<lambda>index_table.
         bindE (pack_trailer (length chunks) (length index_entries * INDEX_ENTRY_SIZE))
           (\<lambda>trailer. Inr (buf @ concat index_table @ trailer))))"

subsection \<open>Parsing\<close>

definition unpack_entry :: "bytes \<Rightarrow> nat \<Rightarrow> (nat \<times> nat) result" where
  "unpack_entry buf i = (let pos = i * INDEX_ENTRY_SIZE in
     if length buf < pos + INDEX_ENTRY_SIZE then Inl (struct_error ''unpack_from requires a larger buffer'')
     else Inr (le_nat (byte_range pos 8 buf), le_nat (byte_range (pos + 8) 8 buf)))"

definition parse_sharded_v1_index :: "bytes \<Rightarrow> nat \<Rightarrow> (nat \<times> nat) list result" where
  "parse_sharded_v1_index index_bytes num_chunks = mapE (unpack_entry index_bytes) [0..<num_chunks]"

record shard_trailer =
  tr_num_chunks :: nat
  tr_index_size :: nat
  tr_magic :: nat

text \<open>\<open>struct.unpack("<III", data[-12:])\<close>, for data of at least twelve bytes\<close>

definition unpack_trailer :: "bytes \<Rightarrow> shard_trailer" where
  "unpack_trailer data = (let t = tail_slice TRAILER_SIZE data in
     \<lparr>tr_num_chunks = le_nat (byte_range 0 4 t), tr_index_size = le_nat (byte_range 4 4 t),
      tr_magic = le_nat (byte_range 8 4 t)\<rparr>)"

text \<open>The entries of a whole container, as \<open>read_slice\<close> finds them; \<open>None\<close> when it is no container\<close>

definition container_entries :: "bytes \<Rightarrow> (nat \<times> nat) list result option" where
  "container_entries shard = (if length shard < TRAILER_SIZE then None
     else let t = unpack_trailer shard in
       if tr_magic t \<noteq> SHARD_MAGIC then None
       else Some (parse_sharded_v1_index (inner_slice (tr_index_size t) TRAILER_SIZE shard) (tr_num_chunks t)))"

subsection \<open>The structural check\<close>

definition entry_in_bounds :: "nat \<Rightarrow> nat \<times> nat \<Rightarrow> bool" where
  "entry_in_bounds payload_bound e = (fst e + snd e \<le> payload_bound)"

definition verify_shard_integrity :: "bytes option \<Rightarrow> nat \<Rightarrow> bool" where
  "verify_shard_integrity object expected_num_chunks = (case object of None \<Rightarrow> False | Some data \<Rightarrow>
     let trailer_and_index_len = expected_num_chunks * INDEX_ENTRY_SIZE + TRAILER_SIZE in
     if length data < trailer_and_index_len then False
     else let tail = tail_slice trailer_and_index_len data; t = unpack_trailer tail in
       if tr_magic t \<noteq> SHARD_MAGIC then False
       else if tr_num_chunks t \<noteq> expected_num_chunks then False
       else if tr_index_size t \<noteq> expected_num_chunks * INDEX_ENTRY_SIZE then False
       else (case parse_sharded_v1_index (take (expected_num_chunks * INDEX_ENTRY_SIZE) tail) expected_num_chunks of
           Inl e \<Rightarrow> False
         | Inr entries \<Rightarrow> list_all (entry_in_bounds (length data - trailer_and_index_len)) entries))"

subsection \<open>Lemmas on bytes\<close>

lemma length_le_bytes [simp]: "length (le_bytes n v) = n"
  by (induction n arbitrary: v) auto

lemma le_nat_le_bytes: "v < 256 ^ n \<Longrightarrow> le_nat (le_bytes n v) = v"
proof (induction n arbitrary: v)
  case (Suc n)
  have "v div 256 < 256 ^ n" using Suc.prems by (simp add: less_mult_imp_div_less mult.commute)
  moreover have "unat (word_of_nat v :: 8 word) = v mod 256" by (simp add: unat_of_nat)
  ultimately show ?case using Suc.IH by simp
qed simp

lemma le_nat_bound: "le_nat bs < 256 ^ length bs"
proof (induction bs)
  case (Cons b bs)
  have "unat b < 256" using unsigned_less [of b] by simp
  with Cons.IH have "unat b + 256 * le_nat bs < 256 + 256 * (256 ^ length bs - 1)" by (intro add_less_le_mono) auto
  then show ?case by (simp add: algebra_simps)
qed simp

lemma pack_field_Inr [simp]: "pack_field n v = Inr bs \<longleftrightarrow> v < 256 ^ n \<and> bs = le_bytes n v"
  by (auto simp: pack_field_def)

lemma byte_range_append:
  "byte_range (length xs) (length ys) (xs @ ys @ zs) = ys"
  "byte_range off len (xs @ ys) = byte_range off len xs" if "off + len \<le> length xs"
  using that by (simp_all add: byte_range_def)

lemma tail_slice_append: "length ys = n \<Longrightarrow> tail_slice n (xs @ ys) = ys"
  by (simp add: tail_slice_def)

lemma inner_slice_append:
  assumes "length ys = m" "length zs = n" shows "inner_slice m n (xs @ ys @ zs) = ys"
  using assms by (simp add: inner_slice_def)

subsection \<open>The index of a packed container\<close>

text \<open>The reference: the non-empty chunks one after the other, and where each of them lies\<close>

fun chunk_layout :: "nat \<Rightarrow> bytes list \<Rightarrow> (nat \<times> nat) list" where
  "chunk_layout off [] = []"
| "chunk_layout off (c # cs) = (if c = [] then (0, 0) else (off, length c)) # chunk_layout (off + length c) cs"

lemma length_chunk_layout [simp]: "length (chunk_layout off cs) = length cs"
  by (induction cs arbitrary: off) auto

lemma fold_add_chunk:
  "fold add_chunk cs (buf, es, off) = (buf @ concat cs, es @ chunk_layout off cs, off + length (concat cs))"
  by (induction cs arbitrary: buf es off) (auto simp: Let_def)

lemma chunk_layout_bounds:
  "e \<in> set (chunk_layout off cs) \<Longrightarrow> fst e + snd e \<le> off + length (concat cs)"
  by (induction cs arbitrary: off) (auto split: if_splits, fastforce)

lemma chunk_layout_nth:
  assumes "i < length cs"
  shows "snd (chunk_layout off cs ! i) = length (cs ! i)"
    and "cs ! i \<noteq> [] \<Longrightarrow> fst (chunk_layout off cs ! i) = off + length (concat (take i cs))"
  using assms by (induction cs arbitrary: off i) (auto simp: nth_Cons split: nat.splits)

lemma concat_slice: "i < length cs \<Longrightarrow> take (length (cs ! i)) (drop (length (concat (take i cs))) (concat cs)) = cs ! i"
  by (induction cs arbitrary: i) (auto simp: nth_Cons split: nat.splits)

definition entry_bytes :: "nat \<times> nat \<Rightarrow> bytes" where
  "entry_bytes e = le_bytes 8 (fst e) @ le_bytes 8 (snd e)"

lemma length_entry_bytes [simp]: "length (entry_bytes e) = 16"
  by (simp add: entry_bytes_def)

lemma pack_entry_Inr: "pack_entry e = Inr bs \<longleftrightarrow> fst e < 2 ^ 64 \<and> snd e < 2 ^ 64 \<and> bs = entry_bytes e"
  by (auto simp: pack_entry_def bindE_eq_Inr entry_bytes_def)

lemma mapE_pack_entry:
  "mapE pack_entry es = Inr bss \<longleftrightarrow> (\<forall>e \<in> set es. fst e < 2 ^ 64 \<and> snd e < 2 ^ 64) \<and> bss = map entry_bytes es"
  by (induction es arbitrary: bss) (auto simp: bindE_eq_Inr pack_entry_Inr)

definition trailer_bytes :: "nat \<Rightarrow> bytes" where
  "trailer_bytes n = le_bytes 4 n @ le_bytes 4 (n * INDEX_ENTRY_SIZE) @ le_bytes 4 SHARD_MAGIC"

lemma length_trailer_bytes [simp]: "length (trailer_bytes n) = 12"
  by (simp add: trailer_bytes_def)

lemma pack_trailer_Inr:
  "pack_trailer n (n * INDEX_ENTRY_SIZE) = Inr bs \<longleftrightarrow> n * 16 < 2 ^ 32 \<and> bs = trailer_bytes n"
  by (auto simp: pack_trailer_def bindE_eq_Inr trailer_bytes_def INDEX_ENTRY_SIZE_def SHARD_MAGIC_def)

lemma build_container_Inr:
  "build_sharded_v1_container cs = Inr shard \<longleftrightarrow>
     (\<forall>e \<in> set (chunk_layout 0 cs). fst e < 2 ^ 64 \<and> snd e < 2 ^ 64) \<and> length cs * 16 < 2 ^ 32 \<and>
     shard = concat cs @ concat (map entry_bytes (chunk_layout 0 cs)) @ trailer_bytes (length cs)"
  by (auto simp: build_sharded_v1_container_def fold_add_chunk bindE_eq_Inr mapE_pack_entry pack_trailer_Inr)

lemma length_concat_entries [simp]: "length (concat (map entry_bytes es)) = 16 * length es"
  by (induction es) auto

lemma drop_entries: "drop (i * 16) (concat (map entry_bytes es)) = concat (map entry_bytes (drop i es))"
proof (induction i arbitrary: es)
  case (Suc i)
  show ?case
  proof (cases es)
    case (Cons e es')
    have "drop (Suc i * 16) (entry_bytes e @ concat (map entry_bytes es')) = drop (i * 16) (concat (map entry_bytes es'))"
      by simp
    with Suc Cons show ?thesis by simp
  qed simp
qed simp

lemma unpack_entry_nth:
  assumes "\<And>e. e \<in> set es \<Longrightarrow> fst e < 2 ^ 64 \<and> snd e < 2 ^ 64" "i < length es"
  shows "unpack_entry (concat (map entry_bytes es)) i = Inr (es ! i)"
proof -
  have d: "drop (i * 16) (concat (map entry_bytes es)) = entry_bytes (es ! i) @ concat (map entry_bytes (drop (Suc i) es))"
    using assms(2) by (simp add: drop_entries Cons_nth_drop_Suc [symmetric])
  have d8: "drop (i * 16 + 8) (concat (map entry_bytes es)) = drop 8 (drop (i * 16) (concat (map entry_bytes es)))"
    by (simp add: add.commute)
  have "fst (es ! i) < 256 ^ 8 \<and> snd (es ! i) < 256 ^ 8" using assms(1) [of "es ! i"] assms(2) by simp
  then show ?thesis
    using assms(2) by (simp add: unpack_entry_def Let_def INDEX_ENTRY_SIZE_def byte_range_def d d8 entry_bytes_def le_nat_le_bytes)
qed

lemma parse_index_entries:
  assumes "\<And>e. e \<in> set es \<Longrightarrow> fst e < 2 ^ 64 \<and> snd e < 2 ^ 64"
  shows "parse_sharded_v1_index (concat (map entry_bytes es)) (length es) = Inr es"
  unfolding parse_sharded_v1_index_def mapE_Inr_iff
  using unpack_entry_nth [OF assms] by (simp add: list_all2_conv_all_nth)

lemma unpack_trailer_bytes:
  assumes "n * 16 < 2 ^ 32"
  shows "unpack_trailer (xs @ trailer_bytes n) = \<lparr>tr_num_chunks = n, tr_index_size = n * INDEX_ENTRY_SIZE, tr_magic = SHARD_MAGIC\<rparr>"
proof -
  have "n < 256 ^ 4" "n * INDEX_ENTRY_SIZE < 256 ^ 4" "SHARD_MAGIC < 256 ^ 4"
    using assms by (simp_all add: INDEX_ENTRY_SIZE_def SHARD_MAGIC_def)
  then show ?thesis
    by (simp add: unpack_trailer_def TRAILER_SIZE_def tail_slice_append trailer_bytes_def byte_range_def le_nat_le_bytes)
qed

lemma tail_of_container:
  assumes "length es = n"
  shows "tail_slice (n * 16 + 12) (payload @ concat (map entry_bytes es) @ trailer_bytes n) = concat (map entry_bytes es) @ trailer_bytes n"
  using assms by (intro tail_slice_append) simp

lemma container_ranges:
  assumes "build_sharded_v1_container chunks = Inr shard" "i < length chunks"
  shows "byte_range (fst (chunk_layout 0 chunks ! i)) (snd (chunk_layout 0 chunks ! i)) shard = chunks ! i"
proof (cases "chunks ! i = []")
  case True
  then show ?thesis using chunk_layout_nth(1) [OF assms(2), of 0] by (simp add: byte_range_def)
next
  case False
  let ?es = "chunk_layout 0 chunks"
  have shard: "shard = (concat chunks @ concat (map entry_bytes ?es)) @ trailer_bytes (length chunks)"
    using assms(1) by (simp add: build_container_Inr)
  have "?es ! i \<in> set ?es" using assms(2) by (simp add: nth_mem)
  then have "length (chunks ! i) \<le> length (concat chunks) - length (concat (take i chunks))"
    using chunk_layout_bounds [of "?es ! i" 0 chunks] chunk_layout_nth [OF assms(2), of 0] False by simp
  then have "take (length (chunks ! i)) (drop (length (concat (take i chunks))) shard) =
      take (length (chunks ! i)) (drop (length (concat (take i chunks))) (concat chunks))"
    unfolding shard append_assoc drop_append take_append length_drop by simp
  also have "\<dots> = chunks ! i" by (rule concat_slice [OF assms(2)])
  finally show ?thesis using chunk_layout_nth [OF assms(2), of 0] False by (simp add: byte_range_def)
qed

lemma container_entries_built:
  assumes "build_sharded_v1_container chunks = Inr shard"
  shows "container_entries shard = Some (Inr (chunk_layout 0 chunks))"
proof -
  let ?es = "chunk_layout 0 chunks"
  have b: "\<And>e. e \<in> set ?es \<Longrightarrow> fst e < 2 ^ 64 \<and> snd e < 2 ^ 64" "length chunks * 16 < 2 ^ 32"
    and shard: "shard = (concat chunks @ concat (map entry_bytes ?es)) @ trailer_bytes (length chunks)"
    using assms by (simp_all add: build_container_Inr)
  have "container_entries shard = Some (parse_sharded_v1_index (concat (map entry_bytes ?es)) (length ?es))"
    unfolding container_entries_def shard unpack_trailer_bytes [OF b(2)]
    using inner_slice_append [of "concat (map entry_bytes ?es)" "length chunks * 16" "trailer_bytes (length chunks)" 12 "concat chunks"]
    by (simp add: TRAILER_SIZE_def INDEX_ENTRY_SIZE_def)
  then show ?thesis using parse_index_entries [of ?es] b(1) by simp
qed

subsection \<open>Properties\<close>

text \<open>Round trip of the container: whatever list of compressed chunks is packed, the index read
  back from the container has one entry per chunk, and the bytes each entry points at are the chunk,
  empty chunks included.\<close>

theorem shard_container_round_trip:
  assumes "build_sharded_v1_container chunks = Inr shard"
  shows "\<exists>entries. container_entries shard = Some (Inr entries) \<and> length entries = length chunks \<and>
    (\<forall>i < length chunks. byte_range (fst (entries ! i)) (snd (entries ! i)) shard = chunks ! i)"
proof (intro exI conjI allI impI)
  show "container_entries shard = Some (Inr (chunk_layout 0 chunks))" by (rule container_entries_built [OF assms])
  show "byte_range (fst (chunk_layout 0 chunks ! i)) (snd (chunk_layout 0 chunks ! i)) shard = chunks ! i"
    if "i < length chunks" for i using that by (rule container_ranges [OF assms])
qed simp

theorem shard_container_round_trip_witness:
  "\<exists>shard entries. build_sharded_v1_container [[1, 2], [], [3]] = Inr shard \<and> container_entries shard = Some (Inr entries) \<and>
     byte_range (fst (entries ! 2)) (snd (entries ! 2)) shard = [3]"
proof -
  have "build_sharded_v1_container [[1, 2], [], [3]] = Inr
      (concat [[1, 2], [], [3]] @ concat (map entry_bytes (chunk_layout 0 [[1, 2], [], [3]])) @ trailer_bytes (length [[1, 2], [], [3 :: 8 word]]))"
    unfolding build_container_Inr by simp
  from shard_container_round_trip [OF this] this show ?thesis by fastforce
qed

text \<open>C23: What the packer writes passes the structural check, and the check is sound: in an accepted
  object every index entry points into the payload, before the index and the trailer.\<close>

theorem integrity_check_sound_and_complete:
  "(build_sharded_v1_container chunks = Inr shard \<longrightarrow> verify_shard_integrity (Some shard) (length chunks)) \<and>
   (verify_shard_integrity object n \<longrightarrow> (\<exists>data entries. object = Some data \<and> container_entries data = Some (Inr entries) \<and>
      length entries = n \<and> n * 16 + 12 \<le> length data \<and>
      (\<forall>e \<in> set entries. fst e + snd e \<le> length data - (n * 16 + 12))))"
proof (intro conjI impI)
  assume "build_sharded_v1_container chunks = Inr shard"
  then have b: "\<And>e. e \<in> set (chunk_layout 0 chunks) \<Longrightarrow> fst e < 2 ^ 64 \<and> snd e < 2 ^ 64" "length chunks * 16 < 2 ^ 32"
    and shard: "shard = concat chunks @ concat (map entry_bytes (chunk_layout 0 chunks)) @ trailer_bytes (length chunks)"
    by (simp_all add: build_container_Inr)
  have "tail_slice (length chunks * 16 + 12) shard = concat (map entry_bytes (chunk_layout 0 chunks)) @ trailer_bytes (length chunks)"
    unfolding shard by (rule tail_of_container) simp
  moreover have "parse_sharded_v1_index (concat (map entry_bytes (chunk_layout 0 chunks))) (length chunks) = Inr (chunk_layout 0 chunks)"
    using parse_index_entries [of "chunk_layout 0 chunks"] b(1) by simp
  ultimately show "verify_shard_integrity (Some shard) (length chunks)"
    using unpack_trailer_bytes [OF b(2)] chunk_layout_bounds [of _ 0 chunks]
    by (auto simp: verify_shard_integrity_def Let_def INDEX_ENTRY_SIZE_def TRAILER_SIZE_def shard list_all_iff entry_in_bounds_def)
next
  assume v: "verify_shard_integrity object n"
  then obtain data where data: "object = Some data" "n * 16 + 12 \<le> length data"
    by (auto simp: verify_shard_integrity_def Let_def INDEX_ENTRY_SIZE_def TRAILER_SIZE_def split: option.splits if_splits)
  let ?t = "tail_slice (n * 16 + 12) data"
  have tt: "tail_slice 12 ?t = tail_slice 12 data" "length ?t = n * 16 + 12"
    using data(2) by (simp_all add: tail_slice_def)
  have split: "take (n * 16) ?t = inner_slice (n * 16) 12 data"
    using data(2) by (simp add: inner_slice_def tail_slice_def take_drop add.commute)
  have tr: "unpack_trailer data = unpack_trailer ?t" by (simp add: unpack_trailer_def TRAILER_SIZE_def tt(1))
  from v obtain entries where e: "parse_sharded_v1_index (take (n * 16) ?t) n = Inr entries"
    "tr_magic (unpack_trailer ?t) = SHARD_MAGIC" "tr_num_chunks (unpack_trailer ?t) = n" "tr_index_size (unpack_trailer ?t) = n * 16"
    "list_all (entry_in_bounds (length data - (n * 16 + 12))) entries"
    by (auto simp: data verify_shard_integrity_def Let_def INDEX_ENTRY_SIZE_def TRAILER_SIZE_def split: if_splits sum.splits)
  have "length entries = n" using e(1) list_all2_lengthD by (fastforce simp: parse_sharded_v1_index_def mapE_Inr_iff)
  moreover have "container_entries data = Some (Inr entries)"
    using data(2) e(1-4) by (simp add: container_entries_def tr Let_def TRAILER_SIZE_def split)
  ultimately show "\<exists>data entries. object = Some data \<and> container_entries data = Some (Inr entries) \<and> length entries = n \<and>
      n * 16 + 12 \<le> length data \<and> (\<forall>e \<in> set entries. fst e + snd e \<le> length data - (n * 16 + 12))"
    using data e(5) by (auto simp: list_all_iff entry_in_bounds_def)
qed

theorem integrity_check_sound_and_complete_witness:
  "\<exists>shard. build_sharded_v1_container [[1, 2], [], [3]] = Inr shard \<and> verify_shard_integrity (Some shard) 3 \<and>
     (\<exists>entries. container_entries shard = Some (Inr entries) \<and> length entries = 3)"
proof -
  have "build_sharded_v1_container [[1, 2], [], [3]] = Inr
      (concat [[1, 2], [], [3]] @ concat (map entry_bytes (chunk_layout 0 [[1, 2], [], [3]])) @ trailer_bytes (length [[1, 2], [], [3 :: 8 word]]))"
    unfolding build_container_Inr by simp
  then obtain shard where s: "build_sharded_v1_container [[1, 2], [], [3]] = Inr shard" by blast
  have v: "verify_shard_integrity (Some shard) 3"
    using integrity_check_sound_and_complete [THEN conjunct1, rule_format, OF s] by (simp add: eval_nat_numeral)
  from integrity_check_sound_and_complete [THEN conjunct2, rule_format, OF v] s v show ?thesis by auto
qed

end
