(* ===== verification/ShardEncode.thy ===== *)
theory ShardEncode
  imports ShardContainer StorageDtype PyFloat
begin

text \<open>
  The shard writer of \<open>ingestion/core/zarr_writer.py\<close>: a two-dimensional field is cut into chunks of
  at most 100 by 100 cells, every chunk is padded, converted to the payload dtype and compressed, and
  the chunks of a variable are packed into one container. \<open>sharded_v2\<close> resolves a dtype per variable
  and guards the values before the conversion. The compressor (\<open>enc\<close>, \<open>dec\<close>) and the conversion of a
  float to the bit pattern of a dtype (\<open>cast\<close>) are parameters. An array is its shape and its cells.
\<close>

subsection \<open>Arrays\<close>

record 'a array2 =
  a_rows :: nat
  a_cols :: nat
  a_cell :: "nat \<Rightarrow> nat \<Rightarrow> 'a"

text \<open>A data variable of a dataset; \<open>None\<close> when it is not two-dimensional after squeezing\<close>

record data_var =
  dv_name :: string
  dv_array :: "pyfloat array2 option"

type_synonym dataset = "data_var list"

definition find_var :: "dataset \<Rightarrow> string \<Rightarrow> data_var option" where
  "find_var ds name = find (\<lambda>v. dv_name v = name) ds"

fun itemsize :: "storage_dtype \<Rightarrow> nat" where
  "itemsize Float16LE = 2"
| "itemsize Float32LE = 4"
| "itemsize UInt8 = 1"

type_synonym cast = "storage_dtype \<Rightarrow> pyfloat \<Rightarrow> nat"

text \<open>\<open>np.nan if dtype.kind == "f" else 0\<close>\<close>

definition fill_value :: "storage_dtype \<Rightarrow> pyfloat" where
  "fill_value d = (if d = UInt8 then Fin 0 else NaN)"

text \<open>\<open>tobytes(order="C")\<close> and its inverse \<open>frombuffer(...).reshape(rows, cols)\<close>\<close>

definition tobytes :: "nat \<Rightarrow> nat array2 \<Rightarrow> bytes" where
  "tobytes isz a = concat (map (\<lambda>i. concat (map (\<lambda>j. le_bytes isz (a_cell a i j)) [0..<a_cols a])) [0..<a_rows a])"

definition frombuffer :: "nat \<Rightarrow> nat \<Rightarrow> nat \<Rightarrow> bytes \<Rightarrow> nat array2 result" where
  "frombuffer isz rows cols raw =
     (if length raw \<noteq> rows * cols * isz then Inl (ValueError ''cannot reshape array'')
      else Inr \<lparr>a_rows = rows, a_cols = cols, a_cell = (\<lambda>i j. le_nat (byte_range ((i * cols + j) * isz) isz raw))\<rparr>)"

subsection \<open>Tiles\<close>

text \<open>One iteration of the two loops over the chunks: where the tile starts and how far it reaches\<close>

record tile =
  tl_row :: nat
  tl_rows :: nat
  tl_col :: nat
  tl_cols :: nat

definition chunk_extent :: "nat \<Rightarrow> nat" where
  "chunk_extent n = (if 0 < n then min 100 n else 100)"

definition chunk_count :: "nat \<Rightarrow> nat" where
  "chunk_count n = (n + chunk_extent n - 1) div chunk_extent n"

definition tile_at :: "nat \<Rightarrow> nat \<Rightarrow> nat \<Rightarrow> nat \<Rightarrow> tile" where
  "tile_at lat_size lon_size r_i c_i =
     (let lat_chunk = chunk_extent lat_size; lon_chunk = chunk_extent lon_size;
          lat_start = r_i * lat_chunk; lat_end = min ((r_i + 1) * lat_chunk) lat_size;
          lon_start = c_i * lon_chunk; lon_end = min ((c_i + 1) * lon_chunk) lon_size
      in \<lparr>tl_row = lat_start, tl_rows = lat_end - lat_start, tl_col = lon_start, tl_cols = lon_end - lon_start\<rparr>)"

definition tiles :: "nat \<Rightarrow> nat \<Rightarrow> tile list" where
  "tiles lat_size lon_size = concat (map (\<lambda>r_i. map (tile_at lat_size lon_size r_i) [0..<chunk_count lon_size])
     [0..<chunk_count lat_size])"

text \<open>\<open>arr_2d[lat_start:lat_end, lon_start:lon_end]\<close>, its values in C order, and the padded buffer\<close>

definition block_values :: "pyfloat array2 \<Rightarrow> tile \<Rightarrow> pyfloat list" where
  "block_values arr t = concat (map (\<lambda>i. map (\<lambda>j. a_cell arr (tl_row t + i) (tl_col t + j)) [0..<tl_cols t]) [0..<tl_rows t])"

definition chunk_buf :: "cast \<Rightarrow> storage_dtype \<Rightarrow> pyfloat array2 \<Rightarrow> tile \<Rightarrow> nat array2" where
  "chunk_buf cast d arr t =
     \<lparr>a_rows = chunk_extent (a_rows arr), a_cols = chunk_extent (a_cols arr),
      a_cell = (\<lambda>i j. cast d (if i < tl_rows t \<and> j < tl_cols t then a_cell arr (tl_row t + i) (tl_col t + j)
                              else fill_value d))\<rparr>"

definition encode_chunk :: "(bytes \<Rightarrow> bytes) \<Rightarrow> cast \<Rightarrow> storage_dtype \<Rightarrow> pyfloat array2 \<Rightarrow> tile \<Rightarrow> bytes" where
  "encode_chunk enc cast d arr t = enc (tobytes (itemsize d) (chunk_buf cast d arr t))"

subsection \<open>Keys\<close>

definition shard_key :: "string \<Rightarrow> int option \<Rightarrow> int \<Rightarrow> bool \<Rightarrow> string" where
  "shard_key var_name member lead_time_hours is_mean =
     (if is_mean then var_name @ ''/shard.mean_L'' @ fmt0 4 lead_time_hours @ ''.shard''
      else case member of
        Some m \<Rightarrow> var_name @ ''/shard.mem'' @ fmt0 3 m @ ''_L'' @ fmt0 4 lead_time_hours @ ''.shard''
      | None \<Rightarrow> var_name @ ''/shard.det_L'' @ fmt0 4 lead_time_hours @ ''.shard'')"

definition product_role :: "int option \<Rightarrow> bool \<Rightarrow> string" where
  "product_role member is_mean =
     (if is_mean then TARGET_KIND_MEAN else if member \<noteq> None then TARGET_KIND_MEM else TARGET_KIND_DET)"

subsection \<open>The encoder of \<open>sharded_v1\<close>\<close>

text \<open>The loop over the variables: a variable that is skipped yields nothing.\<close>

definition encode_vars ::
    "(data_var \<Rightarrow> (string \<times> bytes) option result) \<Rightarrow> dataset \<Rightarrow> string list option \<Rightarrow> (string \<times> bytes) list result" where
  "encode_vars f ds data_vars =
     bindE (mapE (\<lambda>name. case find_var ds name of None \<Rightarrow> Inr None | Some v \<Rightarrow> f v)
              (case data_vars of Some names \<Rightarrow> names | None \<Rightarrow> map dv_name ds)) (\<lambda>out. Inr (somes out))"

definition encode_var_v1 ::
    "(bytes \<Rightarrow> bytes) \<Rightarrow> cast \<Rightarrow> int option \<Rightarrow> int \<Rightarrow> bool \<Rightarrow> data_var \<Rightarrow> (string \<times> bytes) option result" where
  "encode_var_v1 enc cast member lead_time_hours is_mean v = (case dv_array v of None \<Rightarrow> Inr None | Some arr \<Rightarrow>
     bindE (build_sharded_v1_container (map (encode_chunk enc cast Float32LE arr) (tiles (a_rows arr) (a_cols arr))))
       (\<lambda>shard. Inr (Some (shard_key (dv_name v) member lead_time_hours is_mean, shard))))"

definition encode_region_sharded_v1 ::
    "(bytes \<Rightarrow> bytes) \<Rightarrow> cast \<Rightarrow> dataset \<Rightarrow> int option \<Rightarrow> int \<Rightarrow> string list option \<Rightarrow> bool \<Rightarrow> (string \<times> bytes) list result" where
  "encode_region_sharded_v1 enc cast ds member lead_time_hours data_vars is_mean =
     encode_vars (encode_var_v1 enc cast member lead_time_hours is_mean) ds data_vars"

subsection \<open>The encoder of \<open>sharded_v2\<close>\<close>

definition FLOAT16_MAX_FINITE :: real where "FLOAT16_MAX_FINITE = 65504"

definition F16RangeViolationError :: py_error where
  "F16RangeViolationError = DomainError ''F16RangeViolationError'' ''float16 payload guard rejected values''"

definition CategoricalDomainViolationError :: py_error where
  "CategoricalDomainViolationError = DomainError ''CategoricalDomainViolationError'' ''categorical domain''"

definition f16_castable :: "pyfloat \<Rightarrow> bool" where
  "f16_castable x = (case x of Fin r \<Rightarrow> \<bar>r\<bar> \<le> FLOAT16_MAX_FINITE | NaN \<Rightarrow> True | _ \<Rightarrow> False)"

definition validate_f16_block :: "pyfloat list \<Rightarrow> unit result" where
  "validate_f16_block block = (if list_all f16_castable block then Inr () else Inl F16RangeViolationError)"

definition in_unit_interval :: "pyfloat \<Rightarrow> bool" where
  "in_unit_interval x = (case x of Fin r \<Rightarrow> 0 \<le> r \<and> r \<le> 1 | _ \<Rightarrow> True)"

definition validate_categorical_block :: "storage_dtype \<Rightarrow> pyfloat list \<Rightarrow> unit result" where
  "validate_categorical_block d block =
     (if d = UInt8 then (if list_all (\<lambda>x. x \<in> {Fin 0, Fin 1}) block then Inr () else Inl CategoricalDomainViolationError)
      else if list_all in_unit_interval block then Inr () else Inl CategoricalDomainViolationError)"

definition guard_block :: "string \<Rightarrow> storage_dtype \<Rightarrow> pyfloat list \<Rightarrow> unit result" where
  "guard_block var_name d block =
     bindE (if d = Float16LE then validate_f16_block block else Inr ())
       (\<lambda>_. if d = UInt8 \<or> d = Float32LE \<and> var_name \<in> FLAG_VARIABLES then validate_categorical_block d block else Inr ())"

definition encode_var_v2 ::
    "(bytes \<Rightarrow> bytes) \<Rightarrow> cast \<Rightarrow> int option \<Rightarrow> int \<Rightarrow> bool \<Rightarrow> data_var \<Rightarrow> (string \<times> bytes) option result" where
  "encode_var_v2 enc cast member lead_time_hours is_mean v =
     bindE (resolve_storage_dtype SHARDED_V2_FORMAT_VERSION (dv_name v) (product_role member is_mean)) (\<lambda>d.
       case dv_array v of None \<Rightarrow> Inr None | Some arr \<Rightarrow>
         bindE (mapE (\<lambda>t. bindE (guard_block (dv_name v) d (block_values arr t)) (\<lambda>_. Inr (encode_chunk enc cast d arr t)))
                  (tiles (a_rows arr) (a_cols arr)))
           (\<lambda>chunks. bindE (build_sharded_v1_container chunks)
             (\<lambda>shard. Inr (Some (shard_key (dv_name v) member lead_time_hours is_mean, shard)))))"

definition encode_region_sharded_v2 ::
    "(bytes \<Rightarrow> bytes) \<Rightarrow> cast \<Rightarrow> dataset \<Rightarrow> int option \<Rightarrow> int \<Rightarrow> string list option \<Rightarrow> bool \<Rightarrow> (string \<times> bytes) list result" where
  "encode_region_sharded_v2 enc cast ds member lead_time_hours data_vars is_mean =
     encode_vars (encode_var_v2 enc cast member lead_time_hours is_mean) ds data_vars"

definition encode_region_sharded ::
    "(bytes \<Rightarrow> bytes) \<Rightarrow> cast \<Rightarrow> dataset \<Rightarrow> int option \<Rightarrow> int \<Rightarrow> bool \<Rightarrow> string \<Rightarrow> (string \<times> bytes) list result" where
  "encode_region_sharded enc cast ds member lead_time_hours is_mean format_version =
     (if format_version = SHARDED_V1_FORMAT_VERSION then encode_region_sharded_v1 enc cast ds member lead_time_hours None is_mean
      else if format_version = SHARDED_V2_FORMAT_VERSION then encode_region_sharded_v2 enc cast ds member lead_time_hours None is_mean
      else Inl (ValueError ''Unknown storage format version''))"

end
