(* ===== verification/ShardReader.thy ===== *)
theory ShardReader
  imports ShardEncode
begin

text \<open>
  The readers of shard containers: \<open>ShardedV1Reader\<close> of \<open>api/core/zarr.py\<close> and \<open>ShardedV2Reader\<close> of
  \<open>api/core/zarr_v2.py\<close>, which read one chunk by byte ranges behind two bounded caches, and
  \<open>read_slice\<close> of \<open>ingestion/core/zarr_writer.py\<close>, which reads a whole container. The objects of a
  store are a map from relative keys; the decompressor and the conversions between bit patterns are
  parameters of the reader. The caches are guarded by a lock; one request is modelled at a time.
\<close>

subsection \<open>Bounded caches\<close>

text \<open>An \<open>OrderedDict\<close>, oldest entry first: \<open>move_to_end\<close>, and insertion with eviction\<close>

type_synonym 'v lru = "(string \<times> 'v) list"

definition move_to_end :: "'k \<Rightarrow> ('k \<times> 'v) list \<Rightarrow> ('k \<times> 'v) list" where
  "move_to_end k d = (case map_of d k of None \<Rightarrow> d | Some v \<Rightarrow> filter (\<lambda>p. fst p \<noteq> k) d @ [(k, v)])"

definition cache_put :: "nat \<Rightarrow> 'k \<Rightarrow> 'v \<Rightarrow> ('k \<times> 'v) list \<Rightarrow> ('k \<times> 'v) list" where
  "cache_put max_entries k v d = (let d' = AList.update k v d in if max_entries < length d' then tl d' else d')"

subsection \<open>The reader\<close>

type_synonym objects = "string \<Rightarrow> bytes option"

type_synonym index_entries = "(64 word \<times> 64 word) list"

record reader =
  sr_store_path :: string
  sr_max_cached_indices :: nat
  sr_max_cached_chunks :: nat
  sr_decode :: "bytes \<Rightarrow> bytes result"
  sr_cast :: cast
  sr_widen :: "storage_dtype \<Rightarrow> nat \<Rightarrow> nat"

record reader_state =
  rs_index_cache :: "index_entries lru"
  rs_chunk_cache :: "nat array2 lru"

text \<open>\<open>generation or 'live'\<close>\<close>

definition generation_tag :: "string option \<Rightarrow> string" where
  "generation_tag generation = (case generation of Some g \<Rightarrow> if g = [] then ''live'' else g | None \<Rightarrow> ''live'')"

definition index_cache_key :: "reader \<Rightarrow> string \<Rightarrow> string \<Rightarrow> string" where
  "index_cache_key rd tag key = sr_store_path rd @ ''::'' @ tag @ ''::'' @ key"

definition chunk_cache_key :: "reader \<Rightarrow> string \<Rightarrow> string \<Rightarrow> int \<Rightarrow> string" where
  "chunk_cache_key rd tag key chunk_idx = sr_store_path rd @ ''::'' @ tag @ ''::'' @ key @ ''::'' @ int_str chunk_idx"

definition EXPECTED_NUM_CHUNKS :: nat where "EXPECTED_NUM_CHUNKS = 120"

text \<open>The tail of the object, reinterpreted as pairs of unsigned 64-bit integers\<close>

definition fetch_index :: "objects \<Rightarrow> string \<Rightarrow> index_entries" where
  "fetch_index objs key =
     (let trailer_and_index_len = EXPECTED_NUM_CHUNKS * INDEX_ENTRY_SIZE + TRAILER_SIZE in
      case objs key of None \<Rightarrow> []
      | Some data \<Rightarrow>
          if length data < trailer_and_index_len then []
          else let tail = tail_slice trailer_and_index_len data in
            map (\<lambda>i. (word_of_nat (le_nat (byte_range (i * INDEX_ENTRY_SIZE) 8 tail)),
                      word_of_nat (le_nat (byte_range (i * INDEX_ENTRY_SIZE + 8) 8 tail)))) [0..<EXPECTED_NUM_CHUNKS])"

definition get_shard_index ::
    "reader \<Rightarrow> objects \<Rightarrow> string \<Rightarrow> string option \<Rightarrow> reader_state \<Rightarrow> index_entries \<times> reader_state" where
  "get_shard_index rd objs key generation st =
     (let k = index_cache_key rd (generation_tag generation) key in
      case map_of (rs_index_cache st) k of
        Some entries \<Rightarrow> (entries, st\<lparr>rs_index_cache := move_to_end k (rs_index_cache st)\<rparr>)
      | None \<Rightarrow>
          let entries = fetch_index objs key in
          if entries = [] then ([], st)
          else (entries, st\<lparr>rs_index_cache := cache_put (sr_max_cached_indices rd) k entries (rs_index_cache st)\<rparr>))"

definition empty_chunk :: "reader \<Rightarrow> storage_dtype \<Rightarrow> nat array2" where
  "empty_chunk rd d = \<lparr>a_rows = 100, a_cols = 100, a_cell = (\<lambda>i j. sr_cast rd d (fill_value d))\<rparr>"

text \<open>The byte range of an object, decoded into cells; a range past the end yields what is left.\<close>

definition decode_range :: "reader \<Rightarrow> storage_dtype result \<Rightarrow> objects \<Rightarrow> string \<Rightarrow> nat \<Rightarrow> nat \<Rightarrow> nat array2 result" where
  "decode_range rd dtype objs key off len = (case objs key of
     None \<Rightarrow> Inl (DomainError ''FileNotFoundError'' key)
   | Some data \<Rightarrow> bindE (sr_decode rd (byte_range off len data))
       (\<lambda>raw. bindE dtype (\<lambda>d. frombuffer (itemsize d) 100 100 raw)))"

text \<open>The chunk read both readers share; they differ in the payload dtype.\<close>

definition read_chunk_with ::
    "reader \<Rightarrow> storage_dtype result \<Rightarrow> objects \<Rightarrow> string \<Rightarrow> string option \<Rightarrow> int \<Rightarrow> int \<Rightarrow> reader_state
     \<Rightarrow> nat array2 result \<times> reader_state" where
  "read_chunk_with rd dtype objs key generation chunk_row chunk_col st =
     (if chunk_row < 0 \<or> 8 \<le> chunk_row \<or> chunk_col < 0 \<or> 15 \<le> chunk_col
      then (bindE dtype (\<lambda>d. Inr (empty_chunk rd d)), st)
      else let chunk_idx = chunk_row * 15 + chunk_col;
               k = chunk_cache_key rd (generation_tag generation) key chunk_idx in
        case map_of (rs_chunk_cache st) k of
          Some arr \<Rightarrow> (Inr arr, st\<lparr>rs_chunk_cache := move_to_end k (rs_chunk_cache st)\<rparr>)
        | None \<Rightarrow> (case get_shard_index rd objs key generation st of (entries, st1) \<Rightarrow>
            if entries = [] \<or> int (length entries) \<le> chunk_idx then (bindE dtype (\<lambda>d. Inr (empty_chunk rd d)), st1)
            else let off = unat (fst (entries ! nat chunk_idx)); len = unat (snd (entries ! nat chunk_idx)) in
              (case (if len = 0 then bindE dtype (\<lambda>d. Inr (empty_chunk rd d)) else decode_range rd dtype objs key off len) of
                 Inl e \<Rightarrow> (Inl e, st1)
               | Inr arr \<Rightarrow> (Inr arr, st1\<lparr>rs_chunk_cache := cache_put (sr_max_cached_chunks rd) k arr (rs_chunk_cache st1)\<rparr>))))"

datatype reader_class = ShardedV1Reader | ShardedV2Reader

definition payload_dtype :: "reader_class \<Rightarrow> string \<Rightarrow> int option \<Rightarrow> bool \<Rightarrow> storage_dtype result" where
  "payload_dtype cls variable member is_mean = (case cls of
     ShardedV1Reader \<Rightarrow> Inr Float32LE
   | ShardedV2Reader \<Rightarrow> resolve_storage_dtype SHARDED_V2_FORMAT_VERSION variable (product_role member is_mean))"

text \<open>What a request names\<close>

record slice_id =
  sl_variable :: string
  sl_member :: "int option"
  sl_lead :: int
  sl_is_mean :: bool
  sl_generation :: "string option"

definition slice_key :: "slice_id \<Rightarrow> string" where
  "slice_key s = shard_key (sl_variable s) (sl_member s) (sl_lead s) (sl_is_mean s)"

definition slice_dtype :: "reader_class \<Rightarrow> slice_id \<Rightarrow> storage_dtype result" where
  "slice_dtype cls s = payload_dtype cls (sl_variable s) (sl_member s) (sl_is_mean s)"

definition read_chunk ::
    "reader_class \<Rightarrow> reader \<Rightarrow> objects \<Rightarrow> slice_id \<Rightarrow> int \<Rightarrow> int \<Rightarrow> reader_state \<Rightarrow> nat array2 result \<times> reader_state" where
  "read_chunk cls rd objs s = read_chunk_with rd (slice_dtype cls s) objs (slice_key s) (sl_generation s)"

definition has_mean_shard :: "reader \<Rightarrow> objects \<Rightarrow> slice_id \<Rightarrow> reader_state \<Rightarrow> bool \<times> reader_state" where
  "has_mean_shard rd objs s st =
     (case get_shard_index rd objs (shard_key (sl_variable s) None (sl_lead s) True) (sl_generation s) st of
        (entries, st1) \<Rightarrow> (entries \<noteq> [], st1))"

definition read_point_value ::
    "reader_class \<Rightarrow> reader \<Rightarrow> objects \<Rightarrow> slice_id \<Rightarrow> int \<Rightarrow> int \<Rightarrow> reader_state \<Rightarrow> nat result \<times> reader_state" where
  "read_point_value cls rd objs s lat_idx lon_idx st =
     (case read_chunk cls rd objs s (lat_idx div 100) (lon_idx div 100) st of
        (res, st1) \<Rightarrow> (bindE res (\<lambda>arr. Inr (a_cell arr (nat (lat_idx mod 100)) (nat (lon_idx mod 100)))), st1))"

subsection \<open>Windows\<close>

record chunk_placement =
  cp_chunk_row :: int
  cp_chunk_col :: int
  cp_src_row :: int
  cp_src_col :: int
  cp_dst_row :: int
  cp_dst_col :: int
  cp_rows :: int
  cp_cols :: int

text \<open>One axis of the loop: the start of the source slice, of the destination slice, and their length\<close>

definition axis_overlap :: "int \<Rightarrow> int \<Rightarrow> int \<Rightarrow> int \<Rightarrow> int \<times> int \<times> int" where
  "axis_overlap cap lo hi chunk =
     (let chunk_start = chunk * 100; chunk_end = min ((chunk + 1) * 100) cap;
          sub_start = max 0 (lo - chunk_start); sub_end = min (chunk_end - chunk_start) (hi - chunk_start + 1);
          win_start = max 0 (chunk_start - lo)
      in (sub_start, win_start, sub_end - sub_start))"

definition chunk_placements :: "int \<Rightarrow> int \<Rightarrow> int \<Rightarrow> int \<Rightarrow> chunk_placement list" where
  "chunk_placements lat_min lat_max lon_min lon_max =
     concat (map (\<lambda>r_chunk. case axis_overlap 721 lat_min lat_max r_chunk of (src_row, dst_row, rows) \<Rightarrow>
       concat (map (\<lambda>c_chunk. case axis_overlap 1440 lon_min lon_max c_chunk of (src_col, dst_col, cols) \<Rightarrow>
         if 0 < rows \<and> 0 < cols
         then [\<lparr>cp_chunk_row = r_chunk, cp_chunk_col = c_chunk, cp_src_row = src_row, cp_src_col = src_col,
                cp_dst_row = dst_row, cp_dst_col = dst_col, cp_rows = rows, cp_cols = cols\<rparr>] else [])
         (py_range (lon_min div 100) (lon_max div 100 + 1) 1)))
       (py_range (lat_min div 100) (lat_max div 100 + 1) 1))"

text \<open>\<open>window[dst_rows, dst_cols] = arr[src_rows, src_cols]\<close>\<close>

definition place :: "(nat \<Rightarrow> nat) \<Rightarrow> chunk_placement \<Rightarrow> nat array2 \<Rightarrow> nat array2 \<Rightarrow> nat array2" where
  "place widen p arr w = w\<lparr>a_cell := (\<lambda>i j.
     if cp_dst_row p \<le> int i \<and> int i < cp_dst_row p + cp_rows p \<and> cp_dst_col p \<le> int j \<and> int j < cp_dst_col p + cp_cols p
     then widen (a_cell arr (nat (cp_src_row p + (int i - cp_dst_row p))) (nat (cp_src_col p + (int j - cp_dst_col p))))
     else a_cell w i j)\<rparr>"

fun fetch_placements ::
    "reader_class \<Rightarrow> reader \<Rightarrow> objects \<Rightarrow> slice_id \<Rightarrow> chunk_placement list \<Rightarrow> nat array2 \<Rightarrow> reader_state
     \<Rightarrow> nat array2 result \<times> reader_state" where
  "fetch_placements cls rd objs s [] w st = (Inr w, st)"
| "fetch_placements cls rd objs s (p # ps) w st =
     (case read_chunk cls rd objs s (cp_chunk_row p) (cp_chunk_col p) st of
        (Inl e, st1) \<Rightarrow> (Inl e, st1)
      | (Inr arr, st1) \<Rightarrow> (case slice_dtype cls s of
            Inl e \<Rightarrow> (Inl e, st1)
          | Inr d \<Rightarrow> fetch_placements cls rd objs s ps (place (sr_widen rd d) p arr w) st1))"

definition read_window ::
    "reader_class \<Rightarrow> reader \<Rightarrow> objects \<Rightarrow> slice_id \<Rightarrow> int \<Rightarrow> int \<Rightarrow> int \<Rightarrow> int \<Rightarrow> reader_state
     \<Rightarrow> nat array2 result \<times> reader_state" where
  "read_window cls rd objs s lat_min lat_max lon_min lon_max st =
     fetch_placements cls rd objs s (chunk_placements lat_min lat_max lon_min lon_max)
       \<lparr>a_rows = nat (lat_max - lat_min + 1), a_cols = nat (lon_max - lon_min + 1),
        a_cell = (\<lambda>i j. sr_cast rd Float32LE NaN)\<rparr> st"

subsection \<open>The reader of the writer\<close>

text \<open>\<open>read_slice\<close> on a store with shards: the loop over the tiles of the global grid\<close>

definition place_tile :: "tile \<Rightarrow> nat array2 \<Rightarrow> nat array2 \<Rightarrow> nat array2" where
  "place_tile t arr w = w\<lparr>a_cell := (\<lambda>i j.
     if tl_row t \<le> i \<and> i < tl_row t + tl_rows t \<and> tl_col t \<le> j \<and> j < tl_col t + tl_cols t
     then a_cell arr (i - tl_row t) (j - tl_col t) else a_cell w i j)\<rparr>"

fun assemble ::
    "(bytes \<Rightarrow> bytes result) \<Rightarrow> storage_dtype \<Rightarrow> nat array2 \<Rightarrow> bytes \<Rightarrow> (tile \<times> nat \<times> nat) list \<Rightarrow> nat array2 option
     \<Rightarrow> nat array2 option result" where
  "assemble dec d blank shard [] acc = Inr acc"
| "assemble dec d blank shard ((t, off, len) # es) acc =
     (if 0 < len then
        bindE (dec (byte_range off len shard)) (\<lambda>raw.
          bindE (frombuffer (itemsize d) 100 100 raw) (\<lambda>arr.
            assemble dec d blank shard es (Some (place_tile t arr (case acc of Some w \<Rightarrow> w | None \<Rightarrow> blank)))))
      else assemble dec d blank shard es acc)"

definition read_slice_sharded ::
    "(bytes \<Rightarrow> bytes result) \<Rightarrow> cast \<Rightarrow> storage_dtype \<Rightarrow> bytes \<Rightarrow> nat array2 option result option" where
  "read_slice_sharded dec cast d shard = (case container_entries shard of
     None \<Rightarrow> None
   | Some entries \<Rightarrow> Some (bindE entries (\<lambda>es.
       assemble dec d \<lparr>a_rows = 721, a_cols = 1440, a_cell = (\<lambda>i j. cast d (fill_value d))\<rparr> shard
         (zip (tiles 721 1440) es) None)))"

end
