(* ===== verification/ShardRoundTrip.thy ===== *)
theory ShardRoundTrip
  imports ShardReader
begin

text \<open>
  What the shard writer and the shard readers promise each other: the caches of a reader never
  change an answer and stay within their bounds, a window is tiled by its chunk placements, and a
  field that was encoded is read back cell by cell, through single cells, windows and whole slices.
\<close>

subsection \<open>Blocks of bytes\<close>

lemma drop_blocks:
  assumes "\<And>x. x \<in> set xs \<Longrightarrow> length (f x) = n"
  shows "drop (k * n) (concat (map f xs)) = concat (map f (drop k xs))"
  using assms
proof (induction k arbitrary: xs)
  case (Suc k)
  show ?case
  proof (cases xs)
    case (Cons x ys)
    have "drop (k * n) (concat (map f ys)) = concat (map f (drop k ys))" using Suc Cons by simp
    with Suc.prems Cons show ?thesis by (simp add: add.commute)
  qed simp
qed simp

lemma byte_range_block:
  assumes "\<And>x. x \<in> set xs \<Longrightarrow> length (f x) = n" "k < length xs" "off + len \<le> n"
  shows "byte_range (k * n + off) len (concat (map f xs)) = byte_range off len (f (xs ! k))"
proof -
  have "drop (k * n + off) (concat (map f xs)) = drop off (drop (k * n) (concat (map f xs)))" by (simp add: add.commute)
  also have "\<dots> = drop off (f (xs ! k) @ concat (map f (drop (Suc k) xs)))"
    using assms(2) by (simp add: drop_blocks [of xs f n, OF assms(1)] Cons_nth_drop_Suc [symmetric] del: drop_drop)
  finally show ?thesis using assms by (simp add: byte_range_def)
qed

lemma length_blocks:
  assumes "\<And>x. x \<in> set xs \<Longrightarrow> length (f x) = n" shows "length (concat (map f xs)) = length xs * n"
  using assms by (induction xs) auto

lemma length_tobytes: "length (tobytes isz a) = a_rows a * (a_cols a * isz)"
  unfolding tobytes_def by (subst length_blocks [where n = "a_cols a * isz"]) (simp_all add: length_blocks [where n = isz])

lemma byte_range_tobytes:
  assumes "i < a_rows a" "j < a_cols a"
  shows "byte_range ((i * a_cols a + j) * isz) isz (tobytes isz a) = le_bytes isz (a_cell a i j)"
proof -
  have "(i * a_cols a + j) * isz = i * (a_cols a * isz) + j * isz" by (simp add: algebra_simps)
  moreover have "j * isz + isz \<le> a_cols a * isz" using assms(2) mult_le_mono1 [of "Suc j" "a_cols a" isz] by simp
  ultimately have "byte_range ((i * a_cols a + j) * isz) isz (tobytes isz a) =
      byte_range (j * isz) isz (concat (map (\<lambda>j. le_bytes isz (a_cell a i j)) [0..<a_cols a]))"
    unfolding tobytes_def using assms
    by (simp add: byte_range_block [where n = "a_cols a * isz"] length_blocks [where n = isz])
  also have "\<dots> = le_bytes isz (a_cell a i j)"
    using byte_range_block [of "[0..<a_cols a]" "\<lambda>j. le_bytes isz (a_cell a i j)" isz j 0 isz] assms(2)
    by (simp add: byte_range_def)
  finally show ?thesis .
qed

lemma frombuffer_tobytes:
  assumes "a_rows a = rows" "a_cols a = cols" "\<And>i j. a_cell a i j < 256 ^ isz"
  shows "\<exists>b. frombuffer isz rows cols (tobytes isz a) = Inr b \<and> a_rows b = rows \<and> a_cols b = cols \<and>
    (\<forall>i < rows. \<forall>j < cols. a_cell b i j = a_cell a i j)"
  using assms by (auto simp: frombuffer_def length_tobytes byte_range_tobytes le_nat_le_bytes)

subsection \<open>The tiles of the global grid\<close>

lemma chunk_counts: "chunk_extent 721 = 100" "chunk_extent 1440 = 100" "chunk_count 721 = 8" "chunk_count 1440 = 15"
  by (simp_all add: chunk_extent_def chunk_count_def)

lemma nth_concat_blocks:
  assumes "\<And>x. x \<in> set xs \<Longrightarrow> length (f x) = n" "k < length xs" "off < n"
  shows "concat (map f xs) ! (k * n + off) = f (xs ! k) ! off"
proof -
  have "concat (map f xs) ! (k * n + off) = hd (drop (k * n + off) (concat (map f xs)))"
    using assms mult_le_mono1 [of "Suc k" "length xs" n] by (simp add: hd_drop_conv_nth length_blocks)
  also have "\<dots> = hd (byte_range (k * n + off) 1 (concat (map f xs)))" by (simp add: byte_range_def)
  also have "\<dots> = hd (byte_range off 1 (f (xs ! k)))" using byte_range_block [of xs f n k off 1, OF assms(1,2)] assms(3) by simp
  finally show ?thesis using assms by (simp add: byte_range_def hd_drop_conv_nth)
qed

lemma length_tiles: "length (tiles 721 1440) = 120"
  by (simp add: tiles_def chunk_counts length_blocks [where n = 15])

lemma nth_tiles: "r < 8 \<Longrightarrow> c < 15 \<Longrightarrow> tiles 721 1440 ! (r * 15 + c) = tile_at 721 1440 r c"
  unfolding tiles_def by (subst nth_concat_blocks [where n = 15]) (simp_all add: chunk_counts)

lemma tile_at_global:
  assumes "r < 8" "c < 15"
  shows "tile_at 721 1440 r c = \<lparr>tl_row = r * 100, tl_rows = min ((r + 1) * 100) 721 - r * 100,
     tl_col = c * 100, tl_cols = min ((c + 1) * 100) 1440 - c * 100\<rparr>"
  using assms by (simp add: tile_at_def chunk_counts Let_def)

subsection \<open>Caches\<close>

lemma set_move_to_end: "distinct (map fst d) \<Longrightarrow> set (move_to_end k d) = set d"
  by (auto simp: move_to_end_def split: option.splits dest: map_of_SomeD eq_key_imp_eq_value)

lemma length_move_to_end: "length (move_to_end k d) \<le> Suc (length d)"
  by (simp add: move_to_end_def le_SucI split: option.splits)

lemma length_update_le: "length (AList.update k v d) \<le> Suc (length d)"
  by (induction d) auto

definition lru_ok :: "nat \<Rightarrow> ('k \<Rightarrow> 'v \<Rightarrow> bool) \<Rightarrow> ('k \<times> 'v) list \<Rightarrow> bool" where
  "lru_ok n valid d \<longleftrightarrow> distinct (map fst d) \<and> length d \<le> n \<and> (\<forall>(k, v) \<in> set d. valid k v)"

lemma lru_ok_empty [simp]: "lru_ok n valid []"
  by (simp add: lru_ok_def)

lemma lru_ok_lookup: "lru_ok n valid d \<Longrightarrow> map_of d k = Some v \<Longrightarrow> valid k v"
  by (auto simp: lru_ok_def dest: map_of_SomeD)

lemma lru_ok_move:
  assumes "lru_ok n valid d" shows "lru_ok n valid (move_to_end k d)"
proof (cases "map_of d k")
  case (Some v)
  have d: "distinct (map fst d)" using assms by (simp add: lru_ok_def)
  have "(k, v) \<in> set d" using Some by (rule map_of_SomeD)
  then have "filter (\<lambda>p. fst p \<noteq> k) d \<noteq> d" by (metis (mono_tags, lifting) filter_id_conv fst_conv)
  then have "length (filter (\<lambda>p. fst p \<noteq> k) d) < length d"
    by (metis filter_True length_filter_less order_neq_le_trans length_filter_le)
  moreover have "distinct (map fst (filter (\<lambda>p. fst p \<noteq> k) d))" using d by (rule distinct_map_filter)
  ultimately show ?thesis
    using assms set_move_to_end [OF d, of k] Some by (auto simp: lru_ok_def move_to_end_def)
qed (use assms in \<open>simp add: move_to_end_def\<close>)

lemma lru_ok_put:
  assumes "lru_ok n valid d" "valid k v" shows "lru_ok n valid (cache_put n k v d)"
proof -
  let ?d = "AList.update k v d"
  have d: "distinct (map fst ?d)" using assms(1) by (simp add: lru_ok_def distinct_update)
  have "set ?d \<subseteq> insert (k, v) (set d)" by (induction d) auto
  then have v: "\<forall>(k, v) \<in> set ?d. valid k v" using assms by (auto simp: lru_ok_def)
  have len: "length ?d \<le> Suc n" using assms(1) length_update_le [of k v d] by (simp add: lru_ok_def)
  have "distinct (map fst (tl ?d)) \<and> set (tl ?d) \<subseteq> set ?d"
    using d by (cases ?d) auto
  with d v len show ?thesis by (auto simp: lru_ok_def cache_put_def Let_def)
qed

subsection \<open>The caches of a reader are coherent\<close>

text \<open>Cache keys determine what they name, for generation tokens without a colon and variables without a slash.\<close>

definition plain_tag :: "string \<Rightarrow> bool" where "plain_tag t \<longleftrightarrow> CHR '':'' \<notin> set t"

definition plain_slice :: "slice_id \<Rightarrow> bool" where
  "plain_slice s \<longleftrightarrow> CHR ''/'' \<notin> set (sl_variable s) \<and> plain_tag (generation_tag (sl_generation s))"

lemma tag_inject:
  assumes "plain_tag t" "plain_tag u" "t @ CHR '':'' # r = u @ CHR '':'' # q"
  shows "t = u \<and> r = q"
  using append_stop_inject [of t "CHR '':''" r u "CHR '':''" q "\<lambda>c. c \<noteq> CHR '':''"] assms by (auto simp: plain_tag_def)

lemma index_key_inject:
  assumes "plain_tag t" "plain_tag u" "index_cache_key rd t k = index_cache_key rd u l"
  shows "t = u \<and> k = l"
  using tag_inject [OF assms(1,2), of "CHR '':'' # k" "CHR '':'' # l"] assms(3) by (simp add: index_cache_key_def)

lemma colon_not_number: "\<not> number_char (CHR '':'')" by code_simp

lemma chunk_key_inject:
  assumes "plain_tag t" "plain_tag u" "chunk_cache_key rd t k i = chunk_cache_key rd u l j"
  shows "t = u \<and> k = l \<and> i = j"
proof -
  have "t = u" and e: "k @ CHR '':'' # CHR '':'' # int_str i = l @ CHR '':'' # CHR '':'' # int_str j"
    using tag_inject [OF assms(1,2), of "CHR '':'' # k @ ''::'' @ int_str i" "CHR '':'' # l @ ''::'' @ int_str j"] assms(3)
    by (simp_all add: chunk_cache_key_def)
  have "rev (int_str i) @ CHR '':'' # CHR '':'' # rev k = rev (int_str j) @ CHR '':'' # CHR '':'' # rev l"
    using arg_cong [OF e, of rev] by simp
  from append_stop_inject [OF this, of number_char] have "rev (int_str i) = rev (int_str j) \<and> rev k = rev l"
    using int_str_chars colon_not_number by auto
  with \<open>t = u\<close> show ?thesis by simp
qed

lemma shard_key_inject:
  assumes "shard_key v m l b = shard_key w n k c" "CHR ''/'' \<notin> set v" "CHR ''/'' \<notin> set w"
  shows "v = w \<and> product_role m b = product_role n c \<and> l = k"
  using assms(1)
  by (auto simp: shard_key_def product_role_def target_kind_defs fmt0_append_inject slash_append_inject [OF assms(2,3)]
      split: if_splits option.splits)

lemma slice_key_dtype:
  assumes "slice_key s = slice_key u" "plain_slice s" "plain_slice u"
  shows "slice_dtype cls s = slice_dtype cls u"
proof -
  have "sl_variable s = sl_variable u \<and> product_role (sl_member s) (sl_is_mean s) = product_role (sl_member u) (sl_is_mean u) \<and>
      sl_lead s = sl_lead u"
    by (rule shard_key_inject) (use assms in \<open>simp_all add: slice_key_def plain_slice_def\<close>)
  then show ?thesis by (simp add: slice_dtype_def payload_dtype_def split: reader_class.split)
qed

text \<open>The store behind each generation tag, and the answer without any cache\<close>

type_synonym world = "string \<Rightarrow> objects"

abbreviation no_cache :: reader_state where
  "no_cache \<equiv> \<lparr>rs_index_cache = [], rs_chunk_cache = []\<rparr>"

definition uncached_chunk :: "reader_class \<Rightarrow> reader \<Rightarrow> objects \<Rightarrow> slice_id \<Rightarrow> int \<Rightarrow> int \<Rightarrow> nat array2 result" where
  "uncached_chunk cls rd objs s r c = fst (read_chunk cls rd objs s r c no_cache)"

definition in_grid :: "int \<Rightarrow> int \<Rightarrow> bool" where
  "in_grid r c \<longleftrightarrow> 0 \<le> r \<and> r < 8 \<and> 0 \<le> c \<and> c < 15"

definition valid_index :: "reader \<Rightarrow> world \<Rightarrow> string \<Rightarrow> index_entries \<Rightarrow> bool" where
  "valid_index rd W k es \<longleftrightarrow> (\<exists>tag key. plain_tag tag \<and> k = index_cache_key rd tag key \<and> es = fetch_index (W tag) key)"

definition valid_chunk :: "reader_class \<Rightarrow> reader \<Rightarrow> world \<Rightarrow> string \<Rightarrow> nat array2 \<Rightarrow> bool" where
  "valid_chunk cls rd W k arr \<longleftrightarrow> (\<exists>s r c. plain_slice s \<and> in_grid r c \<and>
     k = chunk_cache_key rd (generation_tag (sl_generation s)) (slice_key s) (r * 15 + c) \<and>
     uncached_chunk cls rd (W (generation_tag (sl_generation s))) s r c = Inr arr)"

definition coherent :: "reader_class \<Rightarrow> reader \<Rightarrow> world \<Rightarrow> reader_state \<Rightarrow> bool" where
  "coherent cls rd W st \<longleftrightarrow> lru_ok (sr_max_cached_indices rd) (valid_index rd W) (rs_index_cache st) \<and>
     lru_ok (sr_max_cached_chunks rd) (valid_chunk cls rd W) (rs_chunk_cache st)"

lemma get_shard_index_coherent:
  assumes "coherent cls rd W st" "plain_tag (generation_tag g)" "get_shard_index rd (W (generation_tag g)) key g st = (es, st1)"
  shows "es = fetch_index (W (generation_tag g)) key \<and> coherent cls rd W st1 \<and> rs_chunk_cache st1 = rs_chunk_cache st"
proof (cases "map_of (rs_index_cache st) (index_cache_key rd (generation_tag g) key)")
  case None
  have "valid_index rd W (index_cache_key rd (generation_tag g) key) (fetch_index (W (generation_tag g)) key)"
    using assms(2) by (auto simp: valid_index_def)
  with None assms show ?thesis
    by (auto simp: get_shard_index_def coherent_def Let_def intro: lru_ok_put split: if_splits)
next
  case (Some hit)
  have "valid_index rd W (index_cache_key rd (generation_tag g) key) hit"
    using assms(1) unfolding coherent_def by (blast intro: lru_ok_lookup [OF _ Some])
  then obtain t k where t: "plain_tag t" "index_cache_key rd (generation_tag g) key = index_cache_key rd t k"
    "hit = fetch_index (W t) k" by (auto simp: valid_index_def)
  with index_key_inject [OF assms(2) t(1,2)] have "hit = fetch_index (W (generation_tag g)) key" by simp
  with Some assms show ?thesis by (auto simp: get_shard_index_def coherent_def intro: lru_ok_move)
qed

text \<open>What a chunk read computes when its own cache misses\<close>

definition chunk_from_index ::
    "reader \<Rightarrow> storage_dtype result \<Rightarrow> objects \<Rightarrow> string \<Rightarrow> int \<Rightarrow> index_entries \<Rightarrow> nat array2 result" where
  "chunk_from_index rd dtype objs key chunk_idx entries =
     (if entries = [] \<or> int (length entries) \<le> chunk_idx then bindE dtype (\<lambda>d. Inr (empty_chunk rd d))
      else let off = unat (fst (entries ! nat chunk_idx)); len = unat (snd (entries ! nat chunk_idx)) in
        if len = 0 then bindE dtype (\<lambda>d. Inr (empty_chunk rd d)) else decode_range rd dtype objs key off len)"

lemma keep_chunk_cache [simp]: "st\<lparr>rs_chunk_cache := rs_chunk_cache st\<rparr> = st" for st :: reader_state
  by (cases st) simp

lemma read_chunk_miss:
  assumes "in_grid r c" "map_of (rs_chunk_cache st) (chunk_cache_key rd (generation_tag g) key (r * 15 + c)) = None"
    and "get_shard_index rd objs key g st = (es, st1)"
  shows "\<exists>cache. read_chunk_with rd dtype objs key g r c st =
      (chunk_from_index rd dtype objs key (r * 15 + c) es, st1\<lparr>rs_chunk_cache := cache\<rparr>) \<and>
    (cache = rs_chunk_cache st1 \<or> (\<exists>arr. chunk_from_index rd dtype objs key (r * 15 + c) es = Inr arr \<and>
       cache = cache_put (sr_max_cached_chunks rd) (chunk_cache_key rd (generation_tag g) key (r * 15 + c)) arr (rs_chunk_cache st1)))"
proof (cases "es = [] \<or> int (length es) \<le> r * 15 + c")
  case True
  with assms show ?thesis
    by (intro exI [of _ "rs_chunk_cache st1"]) (auto simp: read_chunk_with_def chunk_from_index_def in_grid_def Let_def)
next
  case False
  with assms show ?thesis
    by (cases "chunk_from_index rd dtype objs key (r * 15 + c) es")
      (auto simp: read_chunk_with_def chunk_from_index_def in_grid_def Let_def
         intro: exI [of _ "rs_chunk_cache st1"] exI [of _ "cache_put (sr_max_cached_chunks rd) (chunk_cache_key rd (generation_tag g) key (r * 15 + c)) _ (rs_chunk_cache st1)"])
qed

lemma uncached_chunk_eq:
  "in_grid r c \<Longrightarrow> uncached_chunk cls rd objs s r c =
     chunk_from_index rd (slice_dtype cls s) objs (slice_key s) (r * 15 + c) (fetch_index objs (slice_key s))"
proof -
  assume g: "in_grid r c"
  obtain st1 where "get_shard_index rd objs (slice_key s) (sl_generation s) no_cache = (fetch_index objs (slice_key s), st1)"
    by (cases "fetch_index objs (slice_key s) = []") (auto simp: get_shard_index_def Let_def)
  from read_chunk_miss [OF g _ this, of "slice_dtype cls s"] show ?thesis
    by (auto simp: uncached_chunk_def read_chunk_def)
qed

lemma read_chunk_coherent:
  assumes co: "coherent cls rd W st" and pl: "plain_slice s"
    and rd: "read_chunk cls rd (W (generation_tag (sl_generation s))) s r c st = (res, st1)"
  shows "res = uncached_chunk cls rd (W (generation_tag (sl_generation s))) s r c \<and> coherent cls rd W st1"
proof (cases "in_grid r c")
  case False
  then show ?thesis using co rd by (auto simp: in_grid_def read_chunk_def read_chunk_with_def uncached_chunk_def)
next
  case True
  let ?W = "W (generation_tag (sl_generation s))"
  let ?k = "chunk_cache_key rd (generation_tag (sl_generation s)) (slice_key s) (r * 15 + c)"
  have tag: "plain_tag (generation_tag (sl_generation s))" using pl by (simp add: plain_slice_def)
  show ?thesis
  proof (cases "map_of (rs_chunk_cache st) ?k")
    case (Some arr)
    have "valid_chunk cls rd W ?k arr" using co unfolding coherent_def by (blast intro: lru_ok_lookup [OF _ Some])
    then obtain u r' c' where u: "plain_slice u" "in_grid r' c'" "uncached_chunk cls rd (W (generation_tag (sl_generation u))) u r' c' = Inr arr"
      and k: "?k = chunk_cache_key rd (generation_tag (sl_generation u)) (slice_key u) (r' * 15 + c')"
      by (auto simp: valid_chunk_def)
    have same: "generation_tag (sl_generation s) = generation_tag (sl_generation u)" "slice_key s = slice_key u" "r * 15 + c = r' * 15 + c'"
      using chunk_key_inject [OF tag _ k] u(1) by (simp_all add: plain_slice_def)
    have "uncached_chunk cls rd ?W s r c = Inr arr"
      using u(3) slice_key_dtype [OF same(2) pl u(1)] by (simp add: uncached_chunk_eq [OF True] uncached_chunk_eq [OF u(2)] same)
    with Some True co rd show ?thesis
      by (auto simp: read_chunk_def read_chunk_with_def in_grid_def coherent_def intro: lru_ok_move)
  next
    case None
    obtain es st0 where i: "get_shard_index rd ?W (slice_key s) (sl_generation s) st = (es, st0)" by fastforce
    note ic = get_shard_index_coherent [OF co tag i]
    from read_chunk_miss [OF True None i, of "slice_dtype cls s"] obtain cache where
      m: "read_chunk cls rd ?W s r c st = (chunk_from_index rd (slice_dtype cls s) ?W (slice_key s) (r * 15 + c) es, st0\<lparr>rs_chunk_cache := cache\<rparr>)"
      "cache = rs_chunk_cache st0 \<or> (\<exists>arr. chunk_from_index rd (slice_dtype cls s) ?W (slice_key s) (r * 15 + c) es = Inr arr \<and>
         cache = cache_put (sr_max_cached_chunks rd) ?k arr (rs_chunk_cache st0))"
      by (auto simp: read_chunk_def)
    have res: "res = uncached_chunk cls rd ?W s r c" using m(1) rd ic by (simp add: uncached_chunk_eq [OF True])
    have "lru_ok (sr_max_cached_chunks rd) (valid_chunk cls rd W) cache"
      using m(2)
    proof
      assume "\<exists>arr. chunk_from_index rd (slice_dtype cls s) ?W (slice_key s) (r * 15 + c) es = Inr arr \<and>
         cache = cache_put (sr_max_cached_chunks rd) ?k arr (rs_chunk_cache st0)"
      then obtain arr where a: "uncached_chunk cls rd ?W s r c = Inr arr"
        "cache = cache_put (sr_max_cached_chunks rd) ?k arr (rs_chunk_cache st0)"
        using ic by (auto simp: uncached_chunk_eq [OF True])
      then have "valid_chunk cls rd W ?k arr" using pl True by (auto simp: valid_chunk_def)
      with a(2) ic show ?thesis by (auto simp: coherent_def intro: lru_ok_put)
    next
      assume "cache = rs_chunk_cache st0"
      then show ?thesis using ic [unfolded coherent_def] by blast
    qed
    with res m(1) rd ic show ?thesis by (auto simp: coherent_def)
  qed
qed

text \<open>A history of chunk requests answered one after the other\<close>

fun serve :: "reader_class \<Rightarrow> reader \<Rightarrow> world \<Rightarrow> (slice_id \<times> int \<times> int) list \<Rightarrow> reader_state
    \<Rightarrow> nat array2 result list \<times> reader_state" where
  "serve cls rd W [] st = ([], st)"
| "serve cls rd W ((s, r, c) # reqs) st =
     (case read_chunk cls rd (W (generation_tag (sl_generation s))) s r c st of (res, st1) \<Rightarrow>
        case serve cls rd W reqs st1 of (rs, st2) \<Rightarrow> (res # rs, st2))"

lemma serve_coherent:
  assumes "coherent cls rd W st" "\<And>s r c. (s, r, c) \<in> set reqs \<Longrightarrow> plain_slice s" "serve cls rd W reqs st = (out, st')"
  shows "out = map (\<lambda>(s, r, c). uncached_chunk cls rd (W (generation_tag (sl_generation s))) s r c) reqs \<and> coherent cls rd W st'"
  using assms
proof (induction reqs arbitrary: st out st')
  case (Cons q reqs)
  obtain s r c where q: "q = (s, r, c)" by (cases q) auto
  obtain res st1 where r1: "read_chunk cls rd (W (generation_tag (sl_generation s))) s r c st = (res, st1)" by fastforce
  obtain rs st2 where r2: "serve cls rd W reqs st1 = (rs, st2)" by fastforce
  have pl: "plain_slice s" using Cons.prems(2) [of s r c] by (simp add: q)
  note c1 = read_chunk_coherent [OF Cons.prems(1) pl r1]
  have "rs = map (\<lambda>(s, r, c). uncached_chunk cls rd (W (generation_tag (sl_generation s))) s r c) reqs \<and> coherent cls rd W st2"
    using c1 Cons.prems(2) by (intro Cons.IH [OF _ _ r2]) auto
  with c1 r1 r2 Cons.prems(3) show ?case by (simp add: q)
qed simp

lemma coherent_no_cache: "coherent cls rd W no_cache"
  by (simp add: coherent_def)

text \<open>C22: The index cache and the chunk cache never change an answer: as long as the objects seen under
  one generation token stay the same, any history of requests gets the answers a reader without
  caches would give, in particular after evictions, and neither cache outgrows its limit.\<close>

theorem reader_caches_transparent:
  assumes "serve cls rd W reqs no_cache = (out, st)"
    and "\<And>s r c. (s, r, c) \<in> set reqs \<Longrightarrow> CHR ''/'' \<notin> set (sl_variable s) \<and> CHR '':'' \<notin> set (generation_tag (sl_generation s))"
  shows "out = map (\<lambda>(s, r, c). fst (read_chunk cls rd (W (generation_tag (sl_generation s))) s r c no_cache)) reqs \<and>
    length (rs_index_cache st) \<le> sr_max_cached_indices rd \<and> length (rs_chunk_cache st) \<le> sr_max_cached_chunks rd"
proof -
  have "plain_slice s" if "(s, r, c) \<in> set reqs" for s r c
    using assms(2) [OF that] by (simp add: plain_slice_def plain_tag_def)
  from serve_coherent [OF coherent_no_cache this assms(1)] show ?thesis
    by (simp add: uncached_chunk_def coherent_def lru_ok_def)
qed

text \<open>A reader with one entry in each cache, serving a chunk that its store lacks before and after another one.\<close>

definition small_reader :: reader where
  "small_reader = \<lparr>sr_store_path = ''s'', sr_max_cached_indices = 1, sr_max_cached_chunks = 1, sr_decode = Inr,
     sr_cast = (\<lambda>_ _. 7), sr_widen = (\<lambda>_ n. n)\<rparr>"

definition small_slice :: "int \<Rightarrow> slice_id" where
  "small_slice lead = \<lparr>sl_variable = ''crain'', sl_member = None, sl_lead = lead, sl_is_mean = False, sl_generation = Some ''7''\<rparr>"

lemma small_slice_plain: "CHR ''/'' \<notin> set (sl_variable (small_slice l)) \<and> CHR '':'' \<notin> set (generation_tag (sl_generation (small_slice l)))"
proof -
  have "CHR '':'' \<notin> set (generation_tag (Some ''7''))" by code_simp
  then show ?thesis by (simp add: small_slice_def)
qed

lemma reader_caches_transparent_witness:
  "\<exists>out st. serve ShardedV1Reader small_reader (\<lambda>_ _. None) [(small_slice 6, 0, 0), (small_slice 9, 0, 1), (small_slice 6, 0, 0)]
     no_cache = (out, st) \<and> out ! 0 = out ! 2 \<and> length (rs_chunk_cache st) \<le> sr_max_cached_chunks small_reader"
proof -
  let ?reqs = "[(small_slice 6, 0, 0), (small_slice 9, 0, 1), (small_slice 6, 0, 0)]"
  obtain out st where s: "serve ShardedV1Reader small_reader (\<lambda>_ _. None) ?reqs no_cache = (out, st)" by fastforce
  have p: "CHR ''/'' \<notin> set (sl_variable s) \<and> CHR '':'' \<notin> set (generation_tag (sl_generation s))"
    if q: "(s, r, c) \<in> set ?reqs" for s r c
  proof -
    have "\<exists>l. s = small_slice l" using q by auto
    then show ?thesis using small_slice_plain by metis
  qed
  have t: "out = map (\<lambda>(s, r, c). fst (read_chunk ShardedV1Reader small_reader (\<lambda>_. None) s r c no_cache)) ?reqs \<and>
    length (rs_index_cache st) \<le> sr_max_cached_indices small_reader \<and> length (rs_chunk_cache st) \<le> sr_max_cached_chunks small_reader"
    by (rule reader_caches_transparent [OF s]) (rule p)
  then have "out ! 0 = out ! 2" by simp
  with s t show ?thesis by blast
qed

subsection \<open>Placements\<close>

lemma py_range_one: "py_range a b 1 = map (\<lambda>i. a + int i) [0..<nat (b - a)]"
  by (simp add: py_range_def range_count_def)

lemma set_range_one: "set (py_range a b 1) = {a..<b}"
  by (auto simp: set_py_range)

text \<open>One axis: an index of the window lies in the overlap of exactly one chunk, at the place it should.\<close>

lemma axis_overlap_eqs:
  assumes "axis_overlap cap lo hi k = (src, dst, n)"
  shows "dst = max 0 (k * 100 - lo)" "src - dst = lo - k * 100" "dst + n = min (min ((k + 1) * 100) cap) (hi + 1) - lo"
  using assms by (auto simp: axis_overlap_def Let_def max_def min_def)

lemma axis_overlap_iff:
  assumes "axis_overlap cap lo hi k = (src, dst, n)" "hi < cap" "lo \<le> x" "x \<le> hi"
  shows "dst \<le> x - lo \<and> x - lo < dst + n \<longleftrightarrow> k = x div 100"
    and "k = x div 100 \<Longrightarrow> src + (x - lo - dst) = x mod 100"
proof -
  have "dst \<le> x - lo \<longleftrightarrow> k * 100 \<le> x"
    using axis_overlap_eqs(1) [OF assms(1)] assms(3) by linarith
  moreover have "x - lo < dst + n \<longleftrightarrow> x < (k + 1) * 100"
  proof -
    define m where "m = min (min ((k + 1) * 100) cap) (hi + 1)"
    have "x < m \<longleftrightarrow> x < (k + 1) * 100" using assms(2,4) unfolding m_def min_less_iff_conj by linarith
    moreover have "x - lo < dst + n \<longleftrightarrow> x < m" using axis_overlap_eqs(3) [OF assms(1), folded m_def] by linarith
    ultimately show ?thesis by simp
  qed
  moreover have "k * 100 \<le> x \<and> x < (k + 1) * 100 \<longleftrightarrow> k = x div 100"
  proof
    assume "k * 100 \<le> x \<and> x < (k + 1) * 100"
    then show "k = x div 100" by (intro int_div_pos_eq [of x 100 k "x - k * 100", symmetric]) auto
  next
    assume k: "k = x div 100"
    obtain r where "x = 100 * k + r" "0 \<le> r" "r < 100"
      using mult_div_mod_eq [of 100 x] k by (intro that [of "x mod 100"]) simp_all
    then show "k * 100 \<le> x \<and> x < (k + 1) * 100" by simp
  qed
  ultimately show "dst \<le> x - lo \<and> x - lo < dst + n \<longleftrightarrow> k = x div 100" by simp
  show "src + (x - lo - dst) = x mod 100" if "k = x div 100"
    using axis_overlap_eqs(2) [OF assms(1)] that minus_div_mult_eq_mod [of x 100] by simp
qed

definition covers :: "chunk_placement \<Rightarrow> nat \<Rightarrow> nat \<Rightarrow> bool" where
  "covers p i j \<longleftrightarrow> cp_dst_row p \<le> int i \<and> int i < cp_dst_row p + cp_rows p \<and>
     cp_dst_col p \<le> int j \<and> int j < cp_dst_col p + cp_cols p"

definition source_cell :: "(nat \<Rightarrow> nat) \<Rightarrow> chunk_placement \<Rightarrow> nat array2 \<Rightarrow> nat \<Rightarrow> nat \<Rightarrow> nat" where
  "source_cell widen p arr i j = widen (a_cell arr (nat (cp_src_row p + (int i - cp_dst_row p)))
     (nat (cp_src_col p + (int j - cp_dst_col p))))"

lemma place_cell: "a_cell (place widen p arr w) i j = (if covers p i j then source_cell widen p arr i j else a_cell w i j)"
  by (simp add: place_def covers_def source_cell_def)

lemma place_shape [simp]: "a_rows (place widen p arr w) = a_rows w" "a_cols (place widen p arr w) = a_cols w"
  by (simp_all add: place_def)

lemma fold_place_cell:
  assumes "\<And>p. p \<in> set ps \<Longrightarrow> covers p i j \<Longrightarrow> source_cell widen p (A p) i j = v"
  shows "a_cell (fold (\<lambda>p w. place widen p (A p) w) ps w) i j = (if \<exists>p \<in> set ps. covers p i j then v else a_cell w i j)"
  using assms by (induction ps arbitrary: w) (auto simp: place_cell)

lemma fold_place_shape:
  "a_rows (fold (\<lambda>p w. place widen p (A p) w) ps w) = a_rows w \<and> a_cols (fold (\<lambda>p w. place widen p (A p) w) ps w) = a_cols w"
  by (induction ps arbitrary: w) auto

lemma in_placements_iff:
  "p \<in> set (chunk_placements lat_min lat_max lon_min lon_max) \<longleftrightarrow>
     lat_min div 100 \<le> cp_chunk_row p \<and> cp_chunk_row p \<le> lat_max div 100 \<and>
     lon_min div 100 \<le> cp_chunk_col p \<and> cp_chunk_col p \<le> lon_max div 100 \<and>
     axis_overlap 721 lat_min lat_max (cp_chunk_row p) = (cp_src_row p, cp_dst_row p, cp_rows p) \<and>
     axis_overlap 1440 lon_min lon_max (cp_chunk_col p) = (cp_src_col p, cp_dst_col p, cp_cols p) \<and>
     0 < cp_rows p \<and> 0 < cp_cols p"
  by (cases p) (force simp: chunk_placements_def set_range_one split: prod.splits if_splits)

lemma covering_placement:
  assumes b: "lat_max < 721" "lon_max < 1440" and i: "lat_min + int i \<le> lat_max" "lon_min + int j \<le> lon_max"
    and p: "p \<in> set (chunk_placements lat_min lat_max lon_min lon_max)"
  shows "covers p i j \<longleftrightarrow> cp_chunk_row p = (lat_min + int i) div 100 \<and> cp_chunk_col p = (lon_min + int j) div 100"
    and "covers p i j \<Longrightarrow> cp_src_row p + (int i - cp_dst_row p) = (lat_min + int i) mod 100 \<and>
      cp_src_col p + (int j - cp_dst_col p) = (lon_min + int j) mod 100"
proof -
  have ax: "axis_overlap 721 lat_min lat_max (cp_chunk_row p) = (cp_src_row p, cp_dst_row p, cp_rows p)"
    "axis_overlap 1440 lon_min lon_max (cp_chunk_col p) = (cp_src_col p, cp_dst_col p, cp_cols p)"
    using p by (simp_all add: in_placements_iff)
  note r = axis_overlap_iff [OF ax(1) b(1), of "lat_min + int i"] and c = axis_overlap_iff [OF ax(2) b(2), of "lon_min + int j"]
  show eq: "covers p i j \<longleftrightarrow> cp_chunk_row p = (lat_min + int i) div 100 \<and> cp_chunk_col p = (lon_min + int j) div 100"
    using r(1) c(1) i by (simp add: covers_def) blast
  show "cp_src_row p + (int i - cp_dst_row p) = (lat_min + int i) mod 100 \<and>
      cp_src_col p + (int j - cp_dst_col p) = (lon_min + int j) mod 100" if "covers p i j"
    using r(2) c(2) i eq that by simp
qed

lemma placement_exists:
  assumes b: "lat_max < 721" "lon_max < 1440" and i: "lat_min + int i \<le> lat_max" "lon_min + int j \<le> lon_max"
  shows "\<exists>p \<in> set (chunk_placements lat_min lat_max lon_min lon_max). covers p i j"
proof -
  let ?r = "(lat_min + int i) div 100" and ?c = "(lon_min + int j) div 100"
  obtain sr dr nr where r: "axis_overlap 721 lat_min lat_max ?r = (sr, dr, nr)" by (cases "axis_overlap 721 lat_min lat_max ?r") auto
  obtain sc dc nc where c: "axis_overlap 1440 lon_min lon_max ?c = (sc, dc, nc)" by (cases "axis_overlap 1440 lon_min lon_max ?c") auto
  have "dr \<le> int i \<and> int i < dr + nr" using axis_overlap_iff(1) [OF r b(1), of "lat_min + int i"] i by simp
  moreover have "dc \<le> int j \<and> int j < dc + nc" using axis_overlap_iff(1) [OF c b(2), of "lon_min + int j"] i by simp
  moreover have "lat_min div 100 \<le> ?r" "?r \<le> lat_max div 100" "lon_min div 100 \<le> ?c" "?c \<le> lon_max div 100"
    using i by (simp_all add: zdiv_mono1)
  ultimately show ?thesis
    using r c by (intro bexI [of _ "\<lparr>cp_chunk_row = ?r, cp_chunk_col = ?c, cp_src_row = sr, cp_src_col = sc, cp_dst_row = dr,
        cp_dst_col = dc, cp_rows = nr, cp_cols = nc\<rparr>"]) (auto simp: covers_def in_placements_iff)
qed

lemma axis_overlap_nonempty:
  assumes "axis_overlap cap lo hi k = (src, dst, n)" "0 < n" "lo div 100 \<le> k" "hi < cap"
  shows "\<exists>x. lo \<le> x \<and> x \<le> hi \<and> x div 100 = k"
proof (intro exI conjI)
  let ?x = "lo + dst"
  have e: "dst = max 0 (k * 100 - lo)" "dst + n = min (min ((k + 1) * 100) cap) (hi + 1) - lo"
    using axis_overlap_eqs [OF assms(1)] by simp_all
  show "lo \<le> ?x" using e(1) by simp
  show "?x \<le> hi" using e(2) assms(2) by simp
  have "?x - lo < dst + n" "dst \<le> ?x - lo" using assms(2) by simp_all
  then show "?x div 100 = k" using axis_overlap_iff(1) [OF assms(1,4) \<open>lo \<le> ?x\<close> \<open>?x \<le> hi\<close>] by simp
qed

lemma placement_row:
  assumes "p \<in> set (chunk_placements lat_min lat_max lon_min lon_max)" "lat_max < 721"
  shows "\<exists>x. lat_min \<le> x \<and> x \<le> lat_max \<and> x div 100 = cp_chunk_row p"
  using assms unfolding in_placements_iff by (elim conjE) (rule axis_overlap_nonempty)

lemma placement_col:
  assumes "p \<in> set (chunk_placements lat_min lat_max lon_min lon_max)" "lon_max < 1440"
  shows "\<exists>y. lon_min \<le> y \<and> y \<le> lon_max \<and> y div 100 = cp_chunk_col p"
  using assms unfolding in_placements_iff by (elim conjE) (rule axis_overlap_nonempty)

text \<open>The chunk placements tile a window: every cell of a window inside the grid is written by exactly
  one of the chunks fetched for it, the chunk that holds that grid cell, and from its place in it.\<close>

theorem placements_tile_window:
  assumes "lat_max < 721" "lon_max < 1440" "lat_min + int i \<le> lat_max" "lon_min + int j \<le> lon_max"
  shows "\<exists>!p. p \<in> set (chunk_placements lat_min lat_max lon_min lon_max) \<and>
      cp_dst_row p \<le> int i \<and> int i < cp_dst_row p + cp_rows p \<and> cp_dst_col p \<le> int j \<and> int j < cp_dst_col p + cp_cols p \<and>
      cp_chunk_row p = (lat_min + int i) div 100 \<and> cp_src_row p + (int i - cp_dst_row p) = (lat_min + int i) mod 100 \<and>
      cp_chunk_col p = (lon_min + int j) div 100 \<and> cp_src_col p + (int j - cp_dst_col p) = (lon_min + int j) mod 100"
proof -
  obtain p where p: "p \<in> set (chunk_placements lat_min lat_max lon_min lon_max)" "covers p i j"
    using placement_exists [OF assms] by blast
  have uniq: "q = p" if q: "q \<in> set (chunk_placements lat_min lat_max lon_min lon_max)" "covers q i j" for q
  proof -
    have "cp_chunk_row q = cp_chunk_row p" "cp_chunk_col q = cp_chunk_col p"
      using covering_placement(1) [OF assms q(1)] covering_placement(1) [OF assms p(1)] p(2) q(2) by simp_all
    then show ?thesis using p(1) q(1) by (cases p; cases q) (simp add: in_placements_iff)
  qed
  show ?thesis
    using p covering_placement [OF assms p(1)] by (intro ex1I [of _ p]) (auto simp: covers_def intro: uniq)
qed

theorem placements_tile_window_witness:
  "\<exists>!p. p \<in> set (chunk_placements 95 105 1435 1439) \<and>
      cp_dst_row p \<le> 7 \<and> 7 < cp_dst_row p + cp_rows p \<and> cp_dst_col p \<le> 2 \<and> 2 < cp_dst_col p + cp_cols p \<and>
      cp_chunk_row p = 1 \<and> cp_src_row p + (7 - cp_dst_row p) = 2 \<and> cp_chunk_col p = 14 \<and> cp_src_col p + (2 - cp_dst_col p) = 37"
  using placements_tile_window [of 105 1439 95 7 1435 2] by simp

subsection \<open>What was written is what is read\<close>

text \<open>The documented behaviour of the parameters: decompression inverts compression, a compressed
  buffer is never empty, and a converted value fits its dtype.\<close>

definition codec_ok :: "(bytes \<Rightarrow> bytes) \<Rightarrow> (bytes \<Rightarrow> bytes result) \<Rightarrow> cast \<Rightarrow> bool" where
  "codec_ok enc dec cast \<longleftrightarrow> (\<forall>x. dec (enc x) = Inr x \<and> enc x \<noteq> []) \<and> (\<forall>d x. cast d x < 256 ^ itemsize d)"

definition global_field :: "pyfloat array2 \<Rightarrow> bool" where
  "global_field A \<longleftrightarrow> a_rows A = 721 \<and> a_cols A = 1440"

definition field_chunks :: "(bytes \<Rightarrow> bytes) \<Rightarrow> cast \<Rightarrow> storage_dtype \<Rightarrow> pyfloat array2 \<Rightarrow> bytes list" where
  "field_chunks enc cast d A = map (encode_chunk enc cast d A) (tiles 721 1440)"

lemma decode_chunk:
  assumes "codec_ok enc dec cast" "global_field A"
  shows "\<exists>arr. bindE (dec (encode_chunk enc cast d A t)) (frombuffer (itemsize d) 100 100) = Inr arr \<and>
    (\<forall>i < 100. \<forall>j < 100. a_cell arr i j = a_cell (chunk_buf cast d A t) i j)"
proof -
  have "\<exists>b. frombuffer (itemsize d) 100 100 (tobytes (itemsize d) (chunk_buf cast d A t)) = Inr b \<and> a_rows b = 100 \<and>
      a_cols b = 100 \<and> (\<forall>i < 100. \<forall>j < 100. a_cell b i j = a_cell (chunk_buf cast d A t) i j)"
    using assms by (intro frombuffer_tobytes) (auto simp: chunk_buf_def global_field_def chunk_counts codec_ok_def)
  with assms(1) show ?thesis by (auto simp: encode_chunk_def codec_ok_def)
qed

lemma fetch_index_container:
  assumes "build_sharded_v1_container cs = Inr shard" "length cs = 120" "objs key = Some shard"
  shows "fetch_index objs key = map (\<lambda>e. (word_of_nat (fst e), word_of_nat (snd e))) (chunk_layout 0 cs)"
proof -
  let ?es = "chunk_layout 0 cs"
  have b: "\<And>e. e \<in> set ?es \<Longrightarrow> fst e < 2 ^ 64 \<and> snd e < 2 ^ 64"
    and shard: "shard = concat cs @ concat (map entry_bytes ?es) @ trailer_bytes (length cs)"
    using assms(1) by (simp_all add: build_container_Inr)
  have tail: "tail_slice 1932 shard = concat (map entry_bytes ?es) @ trailer_bytes 120"
    using tail_of_container [of ?es "length cs" "concat cs"] by (simp add: shard assms(2))
  have "le_nat (byte_range (i * 16) 8 (tail_slice 1932 shard)) = fst (?es ! i) \<and>
      le_nat (byte_range (i * 16 + 8) 8 (tail_slice 1932 shard)) = snd (?es ! i)" if i: "i < 120" for i
  proof -
    have "unpack_entry (concat (map entry_bytes ?es)) i = Inr (?es ! i)"
      using b i assms(2) by (intro unpack_entry_nth) auto
    then have "?es ! i = (le_nat (byte_range (i * 16) 8 (concat (map entry_bytes ?es))),
        le_nat (byte_range (i * 16 + 8) 8 (concat (map entry_bytes ?es))))"
      by (simp add: unpack_entry_def Let_def INDEX_ENTRY_SIZE_def split: if_splits)
    moreover have "byte_range off 8 (concat (map entry_bytes ?es) @ trailer_bytes 120) = byte_range off 8 (concat (map entry_bytes ?es))"
      if "off + 8 \<le> 1920" for off using that assms(2) by (intro byte_range_append(2)) simp
    ultimately show ?thesis using i by (simp add: tail)
  qed
  moreover have "1932 \<le> length shard" using assms(2) by (simp add: shard)
  ultimately show ?thesis
    using assms(2,3) by (auto simp: fetch_index_def Let_def EXPECTED_NUM_CHUNKS_def INDEX_ENTRY_SIZE_def TRAILER_SIZE_def
        intro!: nth_equalityI)
qed

lemma unat_word_of_nat64: "n < 2 ^ 64 \<Longrightarrow> unat (word_of_nat n :: 64 word) = n"
  by (simp add: unat_of_nat)

lemma stored_range:
  assumes codec: "codec_ok enc dec cast" and rd: "sr_decode rd = dec"
    and built: "build_sharded_v1_container (field_chunks enc cast d A) = Inr shard"
    and objs: "objs (slice_key s) = Some shard" and dt: "slice_dtype cls s = Inr d'" and g: "in_grid r c"
  shows "uncached_chunk cls rd objs s r c =
    bindE (dec (encode_chunk enc cast d A (tile_at 721 1440 (nat r) (nat c)))) (frombuffer (itemsize d') 100 100)"
proof -
  obtain R C where rc: "r = int R" "c = int C" "R < 8" "C < 15"
    using g by (auto simp: in_grid_def dest!: zero_le_imp_eq_int)
  define k where "k = R * 15 + C"
  have k: "k < 120" "r * 15 + c = int k" using rc by (simp_all add: k_def)
  let ?cs = "field_chunks enc cast d A"
  let ?es = "chunk_layout 0 ?cs"
  have len: "length ?cs = 120" by (simp add: field_chunks_def length_tiles)
  have ck: "?cs ! k = encode_chunk enc cast d A (tile_at 721 1440 R C)"
    using k(1) rc by (simp add: field_chunks_def length_tiles) (simp add: k_def nth_tiles)
  have ne: "?cs ! k \<noteq> []" using codec by (simp add: ck encode_chunk_def codec_ok_def)
  have "?es ! k \<in> set ?es" using k(1) by (intro nth_mem) (simp add: len)
  with built have b: "fst (?es ! k) < 2 ^ 64" "snd (?es ! k) < 2 ^ 64" unfolding build_container_Inr by blast+
  have n: "snd (?es ! k) = length (?cs ! k)" using k(1) by (intro chunk_layout_nth(1)) (simp add: len)
  have range: "byte_range (fst (?es ! k)) (length (?cs ! k)) shard = ?cs ! k"
    using container_ranges [OF built, of k] k(1) by (simp add: len n)
  have nth: "fetch_index objs (slice_key s) ! k = (word_of_nat (fst (?es ! k)), word_of_nat (snd (?es ! k)))"
    "length (fetch_index objs (slice_key s)) = 120"
    using k(1) by (simp_all add: fetch_index_container [of ?cs shard objs "slice_key s", OF built len objs] len)
  then have ix: "fetch_index objs (slice_key s) \<noteq> []" by auto
  have "uncached_chunk cls rd objs s r c = chunk_from_index rd (Inr d') objs (slice_key s) (int k) (fetch_index objs (slice_key s))"
    by (simp add: uncached_chunk_eq [OF g] dt k(2))
  also have "\<dots> = decode_range rd (Inr d') objs (slice_key s) (fst (?es ! k)) (length (?cs ! k))"
    unfolding chunk_from_index_def using ix k(1) ne b by (simp add: nth n unat_word_of_nat64)
  also have "\<dots> = bindE (dec (?cs ! k)) (frombuffer (itemsize d') 100 100)"
    by (simp add: decode_range_def objs range rd)
  finally show ?thesis by (simp add: ck rc)
qed

lemma stored_chunk:
  assumes codec: "codec_ok enc dec cast" and A: "global_field A" and rd: "sr_decode rd = dec"
    and built: "build_sharded_v1_container (field_chunks enc cast d A) = Inr shard"
    and objs: "objs (slice_key s) = Some shard" and dt: "slice_dtype cls s = Inr d" and g: "in_grid r c"
  shows "\<exists>arr. uncached_chunk cls rd objs s r c = Inr arr \<and>
    (\<forall>i < 100. \<forall>j < 100. a_cell arr i j = a_cell (chunk_buf cast d A (tile_at 721 1440 (nat r) (nat c))) i j)"
  using decode_chunk [OF codec A, of d "tile_at 721 1440 (nat r) (nat c)"]
  by (simp add: stored_range [where objs = objs and s = s, OF codec rd built objs dt g])

lemma chunk_buf_cell:
  assumes "global_field A" "R < 8" "C < 15" "i < 100" "j < 100" "R * 100 + i < 721" "C * 100 + j < 1440"
  shows "a_cell (chunk_buf cast d A (tile_at 721 1440 R C)) i j = cast d (a_cell A (R * 100 + i) (C * 100 + j))"
proof -
  have "i < min ((R + 1) * 100) 721 - R * 100" using assms(4,6) by (simp add: less_diff_conv min_def)
  moreover have "j < min ((C + 1) * 100) 1440 - C * 100" using assms(5,7) by (simp add: less_diff_conv min_def)
  ultimately show ?thesis using assms(1-3) by (simp add: chunk_buf_def tile_at_global)
qed

lemma split_index:
  assumes "0 \<le> (x :: int)"
  obtains q r where "x div 100 = int q" "x mod 100 = int r" "r < 100" "q * 100 + r = nat x"
proof -
  obtain n where "x = int n" using assms zero_le_imp_eq_int by blast
  then show thesis by (intro that [of "n div 100" "n mod 100"]) (simp_all add: zdiv_int zmod_int)
qed

lemma stored_cell:
  assumes "codec_ok enc dec cast" "global_field A" "sr_decode rd = dec"
    and "build_sharded_v1_container (field_chunks enc cast d A) = Inr shard"
    and "objs (slice_key s) = Some shard" "slice_dtype cls s = Inr d"
    and x: "0 \<le> lat" "lat < 721" "0 \<le> lon" "lon < 1440"
  shows "\<exists>arr. uncached_chunk cls rd objs s (lat div 100) (lon div 100) = Inr arr \<and>
    a_cell arr (nat (lat mod 100)) (nat (lon mod 100)) = cast d (a_cell A (nat lat) (nat lon))"
proof -
  obtain R i where lat: "lat div 100 = int R" "lat mod 100 = int i" "i < 100" "R * 100 + i = nat lat"
    using split_index [of lat] x by metis
  obtain C j where lon: "lon div 100 = int C" "lon mod 100 = int j" "j < 100" "C * 100 + j = nat lon"
    using split_index [of lon] x by metis
  have n: "R < 8" "C < 15" using lat(4) lon(4) x by auto
  have g: "in_grid (int R) (int C)" using n by (simp add: in_grid_def)
  from stored_chunk [where objs = objs and s = s, OF assms(1-6) g] lat lon
    chunk_buf_cell [OF assms(2) n lat(3) lon(3), of cast d] x
  show ?thesis by auto
qed

lemma mapE_guarded:
  "mapE (\<lambda>t. bindE (g t) (\<lambda>_. Inr (h t))) ts = Inr ys \<Longrightarrow> ys = map h ts"
  by (induction ts arbitrary: ys) (auto simp: bindE_eq_Inr)

lemma find_var_name: "find_var ds v = Some u \<Longrightarrow> u \<in> set ds \<and> dv_name u = v"
  by (auto simp: find_var_def find_Some_iff)

lemma map_of_eq_SomeI:
  assumes "(k, v) \<in> set xs" "\<And>w. (k, w) \<in> set xs \<Longrightarrow> w = v" shows "map_of xs k = Some v"
  using assms by (metis map_of_SomeD not_None_eq weak_map_of_SomeI)

lemma encode_vars_lookup:
  assumes "encode_vars f ds None = Inr out" "find_var ds v = Some u"
    and key: "\<And>w k sh. f w = Inr (Some (k, sh)) \<Longrightarrow> k = shard_key (dv_name w) member lead is_mean"
    and plain: "\<And>w. w \<in> set ds \<Longrightarrow> CHR ''/'' \<notin> set (dv_name w)"
  shows "\<exists>y. f u = Inr y \<and> (\<forall>k sh. y = Some (k, sh) \<longrightarrow> map_of out (shard_key v member lead is_mean) = Some sh)"
proof -
  let ?F = "\<lambda>name. case find_var ds name of None \<Rightarrow> Inr None | Some v \<Rightarrow> f v"
  obtain outs where outs: "mapE ?F (map dv_name ds) = Inr outs" "out = somes outs"
    using assms(1) by (auto simp: encode_vars_def bindE_eq_Inr)
  have u: "u \<in> set ds" "dv_name u = v" using find_var_name [OF assms(2)] by simp_all
  obtain y where y: "f u = Inr y" "y \<in> set outs"
  proof -
    from outs(1) have "list_all2 (\<lambda>x y. ?F x = Inr y) (map dv_name ds) outs" by (simp add: mapE_Inr_iff)
    then obtain y where "y \<in> set outs" "?F v = Inr y" using u by (fastforce simp: list_all2_conv_all_nth in_set_conv_nth)
    then show thesis using assms(2) by (intro that) simp_all
  qed
  have "map_of out (shard_key v member lead is_mean) = Some sh" if s: "y = Some (k, sh)" for k sh
  proof (rule map_of_eq_SomeI)
    have "k = shard_key v member lead is_mean" using key [of u] y(1) s u(2) by simp
    then show "(shard_key v member lead is_mean, sh) \<in> set out" using y(2) s by (simp add: outs(2) set_somes)
    fix sh' assume "(shard_key v member lead is_mean, sh') \<in> set out"
    then have "Some (shard_key v member lead is_mean, sh') \<in> set outs" by (simp add: outs(2) set_somes)
    then obtain n where n: "?F n = Inr (Some (shard_key v member lead is_mean, sh'))"
      using mapE_set_D [OF outs(1)] by blast
    then obtain w where w: "find_var ds n = Some w" "f w = Inr (Some (shard_key v member lead is_mean, sh'))"
      by (auto split: option.splits)
    have "dv_name w = v"
      using key [OF w(2)] shard_key_inject plain find_var_name [OF w(1)] u by metis
    then have "w = u" using find_var_name [OF w(1)] w(1) assms(2) by simp
    then show "sh' = sh" using w(2) y(1) s by simp
  qed
  with y(1) show ?thesis by blast
qed

end
