(* ===== verification/ShardEndToEnd.thy ===== *)
theory ShardEndToEnd
  imports ShardRoundTrip
begin

text \<open>
  The end-to-end properties of the shard store: what \<open>encode_region_sharded\<close> writes under either
  format is what the readers of the service and of the ingestion return, and the keys that the
  collector deletes are the keys the writer writes.
\<close>

definition reader_for :: "string \<Rightarrow> reader_class" where
  "reader_for format_version = (if format_version = SHARDED_V2_FORMAT_VERSION then ShardedV2Reader else ShardedV1Reader)"

lemma encode_var_key:
  "encode_var_v1 enc cast member lead is_mean w = Inr (Some (k, sh)) \<Longrightarrow> k = shard_key (dv_name w) member lead is_mean"
  "encode_var_v2 enc cast member lead is_mean w = Inr (Some (k, sh)) \<Longrightarrow> k = shard_key (dv_name w) member lead is_mean"
  by (auto simp: encode_var_v1_def encode_var_v2_def bindE_eq_Inr split: option.splits)

lemma encoded_shard:
  assumes e: "encode_region_sharded enc cast ds member lead is_mean fmt = Inr out"
    and u: "find_var ds v = Some u" "dv_array u = Some A" "global_field A"
    and plain: "\<And>w. w \<in> set ds \<Longrightarrow> CHR ''/'' \<notin> set (dv_name w)"
  shows "\<exists>d shard. payload_dtype (reader_for fmt) v member is_mean = Inr d \<and>
    build_sharded_v1_container (field_chunks enc cast d A) = Inr shard \<and>
    map_of out (shard_key v member lead is_mean) = Some shard"
proof (cases "fmt = SHARDED_V2_FORMAT_VERSION")
  case True
  have n: "dv_name u = v" using find_var_name [OF u(1)] by simp
  have "encode_vars (encode_var_v2 enc cast member lead is_mean) ds None = Inr out"
    using e True by (simp add: encode_region_sharded_def encode_region_sharded_v2_def SHARDED_V1_FORMAT_VERSION_def
        SHARDED_V2_FORMAT_VERSION_def)
  then have "\<exists>y. encode_var_v2 enc cast member lead is_mean u = Inr y \<and>
      (\<forall>k sh. y = Some (k, sh) \<longrightarrow> map_of out (shard_key v member lead is_mean) = Some sh)"
    by (rule encode_vars_lookup [OF _ u(1)]) (use encode_var_key(2) plain in blast)+
  then obtain y where y: "encode_var_v2 enc cast member lead is_mean u = Inr y"
    and look: "\<And>k sh. y = Some (k, sh) \<Longrightarrow> map_of out (shard_key v member lead is_mean) = Some sh" by blast
  from y obtain d chunks shard where d: "resolve_storage_dtype SHARDED_V2_FORMAT_VERSION v (product_role member is_mean) = Inr d"
    "mapE (\<lambda>t. bindE (guard_block v d (block_values A t)) (\<lambda>_. Inr (encode_chunk enc cast d A t))) (tiles 721 1440) = Inr chunks"
    "build_sharded_v1_container chunks = Inr shard" "y = Some (shard_key v member lead is_mean, shard)"
    using u by (auto simp: encode_var_v2_def bindE_eq_Inr n global_field_def)
  from mapE_guarded [OF d(2)] d(3) have "build_sharded_v1_container (field_chunks enc cast d A) = Inr shard"
    by (simp add: field_chunks_def)
  moreover have "map_of out (shard_key v member lead is_mean) = Some shard" using look [OF d(4)] .
  ultimately show ?thesis using d(1) True by (auto simp: reader_for_def payload_dtype_def)
next
  case False
  have n: "dv_name u = v" using find_var_name [OF u(1)] by simp
  have "encode_vars (encode_var_v1 enc cast member lead is_mean) ds None = Inr out"
    using e False by (simp add: encode_region_sharded_def encode_region_sharded_v1_def split: if_splits)
  then have "\<exists>y. encode_var_v1 enc cast member lead is_mean u = Inr y \<and>
      (\<forall>k sh. y = Some (k, sh) \<longrightarrow> map_of out (shard_key v member lead is_mean) = Some sh)"
    by (rule encode_vars_lookup [OF _ u(1)]) (use encode_var_key(1) plain in blast)+
  then obtain y where y: "encode_var_v1 enc cast member lead is_mean u = Inr y"
    and look: "\<And>k sh. y = Some (k, sh) \<Longrightarrow> map_of out (shard_key v member lead is_mean) = Some sh" by blast
  from y obtain shard where d: "build_sharded_v1_container (field_chunks enc cast Float32LE A) = Inr shard"
    "y = Some (shard_key v member lead is_mean, shard)"
    using u by (auto simp: encode_var_v1_def bindE_eq_Inr n global_field_def field_chunks_def)
  moreover have "map_of out (shard_key v member lead is_mean) = Some shard" using look [OF d(2)] .
  ultimately show ?thesis using False by (auto simp: reader_for_def payload_dtype_def)
qed

subsection \<open>Windows\<close>

lemma fetch_placements_eq:
  assumes "coherent cls rd (\<lambda>_. objs) st" "plain_slice s" "slice_dtype cls s = Inr d"
    and "\<And>p. p \<in> set ps \<Longrightarrow> uncached_chunk cls rd objs s (cp_chunk_row p) (cp_chunk_col p) = Inr (A p)"
  shows "fst (fetch_placements cls rd objs s ps w st) = Inr (fold (\<lambda>p w. place (sr_widen rd d) p (A p) w) ps w)"
  using assms(1,4)
proof (induction ps arbitrary: w st)
  case (Cons p ps)
  obtain res st1 where r: "read_chunk cls rd objs s (cp_chunk_row p) (cp_chunk_col p) st = (res, st1)" by fastforce
  from read_chunk_coherent [OF Cons.prems(1) assms(2) r] Cons.prems(2) [of p]
  have "res = Inr (A p)" "coherent cls rd (\<lambda>_. objs) st1" by simp_all
  with Cons.IH [of st1] Cons.prems(2) r assms(3) show ?case by simp
qed simp

lemma window_cells:
  assumes chunks: "\<And>lat lon. 0 \<le> lat \<Longrightarrow> lat < 721 \<Longrightarrow> 0 \<le> lon \<Longrightarrow> lon < 1440 \<Longrightarrow>
      \<exists>arr. uncached_chunk cls rd objs s (lat div 100) (lon div 100) = Inr arr \<and>
        a_cell arr (nat (lat mod 100)) (nat (lon mod 100)) = F lat lon"
    and s: "plain_slice s" "slice_dtype cls s = Inr d"
    and b: "0 \<le> lat_min" "lat_max < 721" "0 \<le> lon_min" "lon_max < 1440"
  shows "\<exists>w. fst (read_window cls rd objs s lat_min lat_max lon_min lon_max no_cache) = Inr w \<and>
    a_rows w = nat (lat_max - lat_min + 1) \<and> a_cols w = nat (lon_max - lon_min + 1) \<and>
    (\<forall>i j. lat_min + int i \<le> lat_max \<longrightarrow> lon_min + int j \<le> lon_max \<longrightarrow>
       a_cell w i j = sr_widen rd d (F (lat_min + int i) (lon_min + int j)))"
proof -
  let ?ps = "chunk_placements lat_min lat_max lon_min lon_max"
  have "\<exists>arr. uncached_chunk cls rd objs s (cp_chunk_row p) (cp_chunk_col p) = Inr arr" if p: "p \<in> set ?ps" for p
  proof -
    obtain x y where xy: "lat_min \<le> x" "x \<le> lat_max" "x div 100 = cp_chunk_row p"
      "lon_min \<le> y" "y \<le> lon_max" "y div 100 = cp_chunk_col p"
      using placement_row [OF p b(2)] placement_col [OF p b(4)] by blast
    then show ?thesis using chunks [of x y] b by auto
  qed
  then obtain A where A: "uncached_chunk cls rd objs s (cp_chunk_row p) (cp_chunk_col p) = Inr (A p)" if "p \<in> set ?ps" for p
    by metis
  let ?w = "\<lparr>a_rows = nat (lat_max - lat_min + 1), a_cols = nat (lon_max - lon_min + 1), a_cell = (\<lambda>i j. sr_cast rd Float32LE NaN)\<rparr>"
  have res: "fst (read_window cls rd objs s lat_min lat_max lon_min lon_max no_cache) =
      Inr (fold (\<lambda>p w. place (sr_widen rd d) p (A p) w) ?ps ?w)"
    unfolding read_window_def using coherent_no_cache s A by (intro fetch_placements_eq) auto
  have "a_cell (fold (\<lambda>p w. place (sr_widen rd d) p (A p) w) ?ps ?w) i j = sr_widen rd d (F (lat_min + int i) (lon_min + int j))"
    if i: "lat_min + int i \<le> lat_max" "lon_min + int j \<le> lon_max" for i j
  proof -
    have "source_cell (sr_widen rd d) p (A p) i j = sr_widen rd d (F (lat_min + int i) (lon_min + int j))"
      if p: "p \<in> set ?ps" "covers p i j" for p
      using covering_placement [OF b(2,4) i p(1)] p A [OF p(1)] chunks [of "lat_min + int i" "lon_min + int j"] b i
      by (simp add: source_cell_def)
    then show ?thesis using placement_exists [OF b(2,4) i] by (subst fold_place_cell) auto
  qed
  with res show ?thesis by (auto simp: fold_place_shape)
qed

subsection \<open>Whole slices\<close>

definition tile_covers :: "tile \<Rightarrow> nat \<Rightarrow> nat \<Rightarrow> bool" where
  "tile_covers t i j \<longleftrightarrow> tl_row t \<le> i \<and> i < tl_row t + tl_rows t \<and> tl_col t \<le> j \<and> j < tl_col t + tl_cols t"

lemma place_tile_cell:
  "a_cell (place_tile t arr w) i j = (if tile_covers t i j then a_cell arr (i - tl_row t) (j - tl_col t) else a_cell w i j)"
  by (simp add: place_tile_def tile_covers_def)

lemma tile_in_tiles: "R < 8 \<Longrightarrow> C < 15 \<Longrightarrow> tile_at 721 1440 R C \<in> set (tiles 721 1440)"
  using nth_tiles [of R C] nth_mem [of "R * 15 + C" "tiles 721 1440"] by (simp add: length_tiles)

lemma tiles_shape: "t \<in> set (tiles 721 1440) \<Longrightarrow> \<exists>R < 8. \<exists>C < 15. t = tile_at 721 1440 R C"
proof -
  assume "t \<in> set (tiles 721 1440)"
  then obtain R C where "R < 8" "C < 15" "t = tile_at 721 1440 R C" unfolding tiles_def chunk_counts by auto
  then show ?thesis by metis
qed

lemma tile_values:
  assumes "global_field A" "t \<in> set (tiles 721 1440)" "tile_covers t i j"
  shows "i - tl_row t < 100 \<and> j - tl_col t < 100 \<and> a_cell (chunk_buf cast d A t) (i - tl_row t) (j - tl_col t) = cast d (a_cell A i j)"
proof -
  obtain R C where t: "R < 8" "C < 15" "t = tile_at 721 1440 R C" using tiles_shape [OF assms(2)] by blast
  have "tl_rows t \<le> 100" "tl_cols t \<le> 100" using t by (simp_all add: tile_at_global)
  then have "i - tl_row t < tl_rows t" "j - tl_col t < tl_cols t" "i - tl_row t < 100" "j - tl_col t < 100"
    using assms(3) by (auto simp: tile_covers_def)
  then show ?thesis using assms(3) by (simp add: chunk_buf_def tile_covers_def)
qed

lemma block_bound: "i < (i :: nat) div 100 * 100 + 100" "(i :: nat) div 100 * 100 \<le> i"
proof -
  have "i = i div 100 * 100 + i mod 100" "i mod 100 < 100" by simp_all
  then show "i < i div 100 * 100 + 100" by linarith
qed simp

lemma tile_exists:
  assumes "i < 721" "j < 1440" shows "\<exists>t \<in> set (tiles 721 1440). tile_covers t i j"
proof -
  have n: "i div 100 < 8" "j div 100 < 15" using assms by auto
  have "tile_covers (tile_at 721 1440 (i div 100) (j div 100)) i j"
    unfolding tile_at_global [OF n] tile_covers_def using assms block_bound [of i] block_bound [of j] by simp
  then show ?thesis using tile_in_tiles [OF n] by blast
qed

lemma assemble_cells:
  assumes codec: "codec_ok enc dec cast" and A: "global_field A"
    and es: "\<And>t off len. (t, off, len) \<in> set es \<Longrightarrow>
      t \<in> set (tiles 721 1440) \<and> 0 < len \<and> byte_range off len shard = encode_chunk enc cast d A t"
  shows "\<exists>w. assemble dec d blank shard es (Some base) = Inr (Some w) \<and>
    (\<forall>i j. a_cell w i j = (if \<exists>t \<in> fst ` set es. tile_covers t i j then cast d (a_cell A i j) else a_cell base i j))"
  using es
proof (induction es arbitrary: base)
  case (Cons e es)
  obtain t off len where e: "e = (t, off, len)" by (cases e) auto
  have t: "t \<in> set (tiles 721 1440)" "0 < len" "byte_range off len shard = encode_chunk enc cast d A t"
    using Cons.prems [of t off len] by (simp_all add: e)
  obtain raw arr where raw: "dec (encode_chunk enc cast d A t) = Inr raw" "frombuffer (itemsize d) 100 100 raw = Inr arr"
    "\<And>i j. i < 100 \<Longrightarrow> j < 100 \<Longrightarrow> a_cell arr i j = a_cell (chunk_buf cast d A t) i j"
    using decode_chunk [OF codec A, of d t] by (auto simp: bindE_eq_Inr)
  obtain w where w: "assemble dec d blank shard es (Some (place_tile t arr base)) = Inr (Some w)"
    "\<And>i j. a_cell w i j = (if \<exists>t \<in> fst ` set es. tile_covers t i j then cast d (a_cell A i j)
       else a_cell (place_tile t arr base) i j)"
    using Cons.IH [of "place_tile t arr base"] Cons.prems by auto
  have "a_cell (place_tile t arr base) i j = (if tile_covers t i j then cast d (a_cell A i j) else a_cell base i j)" for i j
    using tile_values [OF A t(1), of i j cast d] raw(3) by (auto simp: place_tile_cell)
  with w raw t show ?case by (auto simp: e)
qed simp

lemma read_slice_cells:
  assumes codec: "codec_ok enc dec cast" and A: "global_field A"
    and built: "build_sharded_v1_container (field_chunks enc cast d A) = Inr shard"
  shows "\<exists>full. read_slice_sharded dec cast d shard = Some (Inr (Some full)) \<and>
    (\<forall>i < 721. \<forall>j < 1440. a_cell full i j = cast d (a_cell A i j))"
proof -
  let ?cs = "field_chunks enc cast d A" and ?blank = "\<lparr>a_rows = 721, a_cols = 1440, a_cell = (\<lambda>i j. cast d (fill_value d))\<rparr>"
  let ?es = "zip (tiles 721 1440) (chunk_layout 0 ?cs)"
  have len: "length ?cs = 120" by (simp add: field_chunks_def length_tiles)
  have es: "t \<in> set (tiles 721 1440) \<and> 0 < n \<and> byte_range off n shard = encode_chunk enc cast d A t"
    if "(t, off, n) \<in> set ?es" for t off n
  proof -
    obtain k where "k < length ?es" "?es ! k = (t, off, n)" using \<open>(t, off, n) \<in> set ?es\<close> by (metis in_set_conv_nth)
    then have k: "k < 120" "t = tiles 721 1440 ! k" "(off, n) = chunk_layout 0 ?cs ! k"
      using len length_tiles by simp_all
    have ck: "?cs ! k = encode_chunk enc cast d A t" using k by (simp add: field_chunks_def length_tiles)
    have "?cs ! k \<noteq> []" using codec by (simp add: ck encode_chunk_def codec_ok_def)
    moreover have fs: "fst (chunk_layout 0 ?cs ! k) = off" "snd (chunk_layout 0 ?cs ! k) = n" using k(3) by (metis fst_conv, metis snd_conv)
    moreover have "snd (chunk_layout 0 ?cs ! k) = length (?cs ! k)" using k(1) len by (intro chunk_layout_nth(1)) simp
    moreover have "byte_range off n shard = ?cs ! k" using container_ranges [OF built, of k] k(1) len unfolding fs by simp
    ultimately have "0 < n" "byte_range off n shard = encode_chunk enc cast d A t" using ck by auto
    moreover have "t \<in> set (tiles 721 1440)" using k(1,2) by (simp add: length_tiles)
    ultimately show ?thesis by blast
  qed
  have "container_entries shard = Some (Inr (chunk_layout 0 ?cs))" by (rule container_entries_built [OF built])
  moreover have "assemble dec d ?blank shard ?es None = assemble dec d ?blank shard ?es (Some ?blank)"
  proof -
    obtain t off n rest where r: "?es = (t, off, n) # rest"
      using len length_tiles by (cases ?es) (auto simp: zip_eq_Nil_iff dest: arg_cong [of _ _ length])
    then have "0 < n" using es [of t off n] by simp
    then show ?thesis unfolding r by simp
  qed
  moreover have "\<exists>w. assemble dec d ?blank shard ?es (Some ?blank) = Inr (Some w) \<and>
    (\<forall>i j. a_cell w i j = (if \<exists>t \<in> fst ` set ?es. tile_covers t i j then cast d (a_cell A i j) else a_cell ?blank i j))"
    by (rule assemble_cells [OF codec A es])
  then obtain w where w: "assemble dec d ?blank shard ?es (Some ?blank) = Inr (Some w)"
    "\<And>i j. a_cell w i j = (if \<exists>t \<in> fst ` set ?es. tile_covers t i j then cast d (a_cell A i j) else a_cell ?blank i j)"
    by blast
  have "fst ` set ?es = set (tiles 721 1440)"
    using len length_tiles by (metis length_chunk_layout list.set_map map_fst_zip)
  with w(2) tile_exists have "\<forall>i < 721. \<forall>j < 1440. a_cell w i j = cast d (a_cell A i j)" by metis
  ultimately show ?thesis using w(1) by (simp add: read_slice_sharded_def)
qed

subsection \<open>The encoder succeeds\<close>

lemma length_concat_le: "(\<And>c. c \<in> set cs \<Longrightarrow> length c \<le> n) \<Longrightarrow> length (concat cs) \<le> length cs * n"
  by (induction cs) (auto simp: add_mono)

lemma container_builds:
  assumes "length (concat cs) < 2 ^ 64" "16 * length cs < 2 ^ 32"
  shows "\<exists>shard. build_sharded_v1_container cs = Inr shard"
  using assms chunk_layout_bounds [of _ 0 cs] by (fastforce simp: build_container_Inr)

lemma field_builds:
  assumes "global_field A" "\<And>x. length (enc x) \<le> length x + 1"
  shows "\<exists>shard. build_sharded_v1_container (field_chunks enc cast d A) = Inr shard"
proof -
  have "length c \<le> 40001" if "c \<in> set (field_chunks enc cast d A)" for c
  proof -
    from that have "c \<in> encode_chunk enc cast d A ` set (tiles 721 1440)" by (simp add: field_chunks_def)
    then obtain t where "c = encode_chunk enc cast d A t" by blast
    then have c: "c = enc (tobytes (itemsize d) (chunk_buf cast d A t))" by (simp add: encode_chunk_def)
    have "length (tobytes (itemsize d) (chunk_buf cast d A t)) = 10000 * itemsize d"
      using assms(1) by (simp add: length_tobytes chunk_buf_def global_field_def chunk_counts)
    with assms(2) [of "tobytes (itemsize d) (chunk_buf cast d A t)"] show ?thesis by (cases d) (simp_all add: c)
  qed
  then have "length (concat (field_chunks enc cast d A)) \<le> length (field_chunks enc cast d A) * 40001" by (rule length_concat_le)
  then show ?thesis by (intro container_builds) (simp_all add: field_chunks_def length_tiles)
qed

definition copy_codec :: "bytes \<Rightarrow> bytes result" where
  "copy_codec x = (case x of [] \<Rightarrow> Inl (ValueError ''empty frame'') | _ # y \<Rightarrow> Inr y)"

lemma copy_codec_ok: "codec_ok (Cons 1) copy_codec (\<lambda>_ _. 0)"
  by (simp add: codec_ok_def copy_codec_def)

text \<open>Concrete writes for the witnesses: a constant field of one variable, stored under either format with a codec
  that prefixes a frame byte, and read by a reader without cache room.\<close>

definition unit_field :: "pyfloat array2" where
  "unit_field = \<lparr>a_rows = 721, a_cols = 1440, a_cell = (\<lambda>_ _. Fin 1)\<rparr>"

definition unit_dataset :: dataset where
  "unit_dataset = [\<lparr>dv_name = ''temperature_2m'', dv_array = Some unit_field\<rparr>]"

definition plain_reader :: reader where
  "plain_reader = \<lparr>sr_store_path = ''s'', sr_max_cached_indices = 0, sr_max_cached_chunks = 0, sr_decode = copy_codec,
     sr_cast = (\<lambda>_ _. 0), sr_widen = (\<lambda>_ n. n)\<rparr>"

lemma unit_dataset_facts:
  "find_var unit_dataset ''temperature_2m'' = Some (hd unit_dataset)" "dv_array (hd unit_dataset) = Some unit_field" "global_field unit_field"
  "w \<in> set unit_dataset \<Longrightarrow> CHR ''/'' \<notin> set (dv_name w)" "sr_decode plain_reader = copy_codec"
  by (simp_all add: unit_dataset_def find_var_def global_field_def unit_field_def plain_reader_def)

lemma unit_block: "x \<in> set (block_values unit_field t) \<Longrightarrow> x = Fin 1"
  by (auto simp: block_values_def unit_field_def split: if_splits)

lemma unit_guard: "guard_block v d (block_values unit_field t) = Inr ()"
proof -
  have "list_all P (block_values unit_field t)" if "P (Fin 1)" for P
    using that unit_block [of _ t] unfolding list_all_iff by metis
  then show ?thesis
    by (simp add: guard_block_def validate_f16_block_def validate_categorical_block_def f16_castable_def
        in_unit_interval_def FLOAT16_MAX_FINITE_def)
qed

lemma unit_chunks: "map (encode_chunk enc cast d unit_field) (tiles 721 1440) = field_chunks enc cast d unit_field"
  by (simp add: field_chunks_def)

lemma unit_write_v1: "\<exists>out. encode_region_sharded (Cons 1) (\<lambda>_ _. 0) unit_dataset (Some 3) 6 False SHARDED_V1_FORMAT_VERSION = Inr out"
proof -
  obtain sh where "build_sharded_v1_container (field_chunks (Cons 1) (\<lambda>_ _. 0) Float32LE unit_field) = Inr sh"
    using field_builds [OF unit_dataset_facts(3), of "Cons 1"] by auto
  then show ?thesis
    by (simp add: encode_region_sharded_def encode_region_sharded_v1_def encode_vars_def unit_dataset_def find_var_def
        encode_var_v1_def unit_chunks [unfolded unit_field_def] unit_field_def)
qed

lemma unit_write_v2: "\<exists>out. encode_region_sharded (Cons 1) (\<lambda>_ _. 0) unit_dataset None 6 False SHARDED_V2_FORMAT_VERSION = Inr out"
proof -
  have d: "resolve_storage_dtype SHARDED_V2_FORMAT_VERSION ''temperature_2m'' (product_role None False) = Inr Float16LE"
    by code_simp
  obtain sh where "build_sharded_v1_container (field_chunks (Cons 1) (\<lambda>_ _. 0) Float16LE unit_field) = Inr sh"
    using field_builds [OF unit_dataset_facts(3), of "Cons 1"] by auto
  moreover have "mapE (\<lambda>t. bindE (guard_block ''temperature_2m'' Float16LE (block_values unit_field t))
      (\<lambda>_. Inr (encode_chunk (Cons 1) (\<lambda>_ _. 0) Float16LE unit_field t))) (tiles 721 1440) =
      Inr (field_chunks (Cons 1) (\<lambda>_ _. 0) Float16LE unit_field)"
    by (simp add: unit_guard field_chunks_def mapE_total)
  ultimately show ?thesis using d
    by (simp add: encode_region_sharded_def encode_region_sharded_v2_def encode_vars_def unit_dataset_def find_var_def
        encode_var_v2_def unit_field_def SHARDED_V1_FORMAT_VERSION_def SHARDED_V2_FORMAT_VERSION_def)
qed

text \<open>C21: what the writer stores, the API reads back: every window that the point and tile services read from
  the shards that \<open>encode_region_sharded\<close> built for a dataset, under either storage format, has the requested shape, and its
  cells are the casts of the dataset's cells at the window's latitudes and longitudes, chunk borders included.\<close>

theorem written_field_read_in_window:
  assumes "codec_ok enc dec cast" "sr_decode rd = dec"
    and e: "encode_region_sharded enc cast ds member lead is_mean fmt = Inr out"
    and u: "find_var ds v = Some u" "dv_array u = Some A" "global_field A"
    and plain: "\<And>w. w \<in> set ds \<Longrightarrow> CHR ''/'' \<notin> set (dv_name w)" "CHR '':'' \<notin> set (generation_tag gen)"
    and b: "0 \<le> lat_min" "lat_max < 721" "0 \<le> lon_min" "lon_max < 1440"
  shows "\<exists>d w. payload_dtype (reader_for fmt) v member is_mean = Inr d \<and>
    fst (read_window (reader_for fmt) rd (map_of out)
      \<lparr>sl_variable = v, sl_member = member, sl_lead = lead, sl_is_mean = is_mean, sl_generation = gen\<rparr>
      lat_min lat_max lon_min lon_max no_cache) = Inr w \<and>
    a_rows w = nat (lat_max - lat_min + 1) \<and> a_cols w = nat (lon_max - lon_min + 1) \<and>
    (\<forall>i j. lat_min + int i \<le> lat_max \<longrightarrow> lon_min + int j \<le> lon_max \<longrightarrow>
      a_cell w i j = sr_widen rd d (cast d (a_cell A (nat (lat_min + int i)) (nat (lon_min + int j)))))"
proof -
  let ?s = "\<lparr>sl_variable = v, sl_member = member, sl_lead = lead, sl_is_mean = is_mean, sl_generation = gen\<rparr>"
  obtain d shard where d: "payload_dtype (reader_for fmt) v member is_mean = Inr d"
    "build_sharded_v1_container (field_chunks enc cast d A) = Inr shard" "map_of out (slice_key ?s) = Some shard"
    using encoded_shard [OF e u plain(1)] by (auto simp: slice_key_def)
  have s: "plain_slice ?s" "slice_dtype (reader_for fmt) ?s = Inr d"
    using find_var_name [OF u(1)] plain d(1) by (auto simp: plain_slice_def plain_tag_def slice_dtype_def)
  have cells: "\<exists>arr. uncached_chunk (reader_for fmt) rd (map_of out) ?s (lat div 100) (lon div 100) = Inr arr \<and>
      a_cell arr (nat (lat mod 100)) (nat (lon mod 100)) = cast d (a_cell A (nat lat) (nat lon))"
    if "0 \<le> lat" "lat < 721" "0 \<le> lon" "lon < 1440" for lat lon
    using d(3) by (rule stored_cell [where objs = "map_of out", OF assms(1) u(3) assms(2) d(2) _ s(2) that])
  show ?thesis using window_cells [OF cells s b] d(1) by auto
qed

lemma written_field_read_in_window_witness:
  "\<exists>out d w. encode_region_sharded (Cons 1) (\<lambda>_ _. 0) unit_dataset None 6 False SHARDED_V2_FORMAT_VERSION = Inr out \<and>
    fst (read_window ShardedV2Reader plain_reader (map_of out)
      \<lparr>sl_variable = ''temperature_2m'', sl_member = None, sl_lead = 6, sl_is_mean = False, sl_generation = Some ''7''\<rparr>
      99 100 1438 1439 no_cache) = Inr w \<and> a_rows w = 2 \<and> a_cols w = 2 \<and> a_cell w 1 1 = sr_widen plain_reader d 0"
proof -
  obtain out where out: "encode_region_sharded (Cons 1) (\<lambda>_ _. 0) unit_dataset None 6 False SHARDED_V2_FORMAT_VERSION = Inr out"
    using unit_write_v2 by blast
  have g: "CHR '':'' \<notin> set (generation_tag (Some ''7''))" by code_simp
  from written_field_read_in_window [OF copy_codec_ok unit_dataset_facts(5) out unit_dataset_facts(1-4) g,
      of 99 100 1438 1439] obtain d w where
    w: "fst (read_window ShardedV2Reader plain_reader (map_of out)
      \<lparr>sl_variable = ''temperature_2m'', sl_member = None, sl_lead = 6, sl_is_mean = False, sl_generation = Some ''7''\<rparr>
      99 100 1438 1439 no_cache) = Inr w" "a_rows w = 2" "a_cols w = 2" "a_cell w 1 1 = sr_widen plain_reader d 0"
    by (auto simp: reader_for_def)
  with out show ?thesis by blast
qed

text \<open>the API's point reader and the ingestion's whole-slice reader agree: on the shards that
  \<open>encode_region_sharded\<close> built, both return, at every grid cell, the cast of the dataset's value.\<close>

theorem slice_readers_agree:
  assumes "codec_ok enc dec cast" "sr_decode rd = dec"
    and e: "encode_region_sharded enc cast ds member lead is_mean fmt = Inr out"
    and u: "find_var ds v = Some u" "dv_array u = Some A" "global_field A"
    and plain: "\<And>w. w \<in> set ds \<Longrightarrow> CHR ''/'' \<notin> set (dv_name w)" "CHR '':'' \<notin> set (generation_tag gen)"
    and b: "0 \<le> lat" "lat < 721" "0 \<le> lon" "lon < 1440"
  shows "\<exists>d shard full. payload_dtype (reader_for fmt) v member is_mean = Inr d \<and>
    map_of out (shard_key v member lead is_mean) = Some shard \<and>
    read_slice_sharded dec cast d shard = Some (Inr (Some full)) \<and>
    fst (read_point_value (reader_for fmt) rd (map_of out)
      \<lparr>sl_variable = v, sl_member = member, sl_lead = lead, sl_is_mean = is_mean, sl_generation = gen\<rparr>
      lat lon no_cache) = Inr (a_cell full (nat lat) (nat lon)) \<and>
    a_cell full (nat lat) (nat lon) = cast d (a_cell A (nat lat) (nat lon))"
proof -
  let ?s = "\<lparr>sl_variable = v, sl_member = member, sl_lead = lead, sl_is_mean = is_mean, sl_generation = gen\<rparr>"
  obtain d shard where d: "payload_dtype (reader_for fmt) v member is_mean = Inr d"
    "build_sharded_v1_container (field_chunks enc cast d A) = Inr shard" "map_of out (slice_key ?s) = Some shard"
    using encoded_shard [OF e u plain(1)] by (auto simp: slice_key_def)
  have s: "plain_slice ?s" "slice_dtype (reader_for fmt) ?s = Inr d"
    using find_var_name [OF u(1)] plain d(1) by (auto simp: plain_slice_def plain_tag_def slice_dtype_def)
  obtain full where f: "read_slice_sharded dec cast d shard = Some (Inr (Some full))"
    "a_cell full (nat lat) (nat lon) = cast d (a_cell A (nat lat) (nat lon))"
    using read_slice_cells [OF assms(1) u(3) d(2)] b by auto
  obtain arr where arr: "uncached_chunk (reader_for fmt) rd (map_of out) ?s (lat div 100) (lon div 100) = Inr arr"
      "a_cell arr (nat (lat mod 100)) (nat (lon mod 100)) = cast d (a_cell A (nat lat) (nat lon))"
    using stored_cell [where objs = "map_of out" and s = ?s, OF assms(1) u(3) assms(2) d(2) d(3) s(2) b] by blast
  obtain res st where r: "read_chunk (reader_for fmt) rd (map_of out) ?s (lat div 100) (lon div 100) no_cache = (res, st)" by fastforce
  have "res = Inr arr" using arr(1) r by (simp add: uncached_chunk_def)
  with r f arr(2) d show ?thesis by (auto simp: read_point_value_def slice_key_def)
qed

lemma slice_readers_agree_witness:
  "\<exists>out. encode_region_sharded (Cons 1) (\<lambda>_ _. 0) unit_dataset (Some 3) 6 False SHARDED_V1_FORMAT_VERSION = Inr out \<and>
    fst (read_point_value ShardedV1Reader plain_reader (map_of out)
      \<lparr>sl_variable = ''temperature_2m'', sl_member = Some 3, sl_lead = 6, sl_is_mean = False, sl_generation = None\<rparr>
      720 1439 no_cache) = Inr 0"
proof -
  obtain out where out: "encode_region_sharded (Cons 1) (\<lambda>_ _. 0) unit_dataset (Some 3) 6 False SHARDED_V1_FORMAT_VERSION = Inr out"
    using unit_write_v1 by blast
  have g: "CHR '':'' \<notin> set (generation_tag None)" by code_simp
  have "reader_for SHARDED_V1_FORMAT_VERSION = ShardedV1Reader" by code_simp
  with slice_readers_agree [OF copy_codec_ok unit_dataset_facts(5) out unit_dataset_facts(1-4) g, of 720 1439] out
  show ?thesis by auto
qed

text \<open>every object that \<open>encode_region_sharded\<close> puts has a key that the collector can name: it is the relative key that
  \<open>make_shard_relative_key\<close> computes for one of the dataset's variables with the product role, lead and member of the write.\<close>

theorem written_keys_are_reclaimable:
  assumes "encode_region_sharded enc cast ds member lead is_mean fmt = Inr out"
  shows "\<exists>names. set names \<subseteq> set (map dv_name ds) \<and>
    map (\<lambda>v. make_shard_relative_key v (product_role member is_mean) lead (case member of Some m \<Rightarrow> m | None \<Rightarrow> 0)) names =
    map (\<lambda>(k, sh). Inr k) out"
proof -
  have k: "make_shard_relative_key v (product_role member is_mean) lead (case member of Some m \<Rightarrow> m | None \<Rightarrow> 0) =
      Inr (shard_key v member lead is_mean)" for v
    by (cases member) (simp_all add: make_shard_relative_key_def product_role_def shard_key_def normalize_member_index_def
        target_kind_defs Let_def)
  obtain f where f: "encode_vars f ds None = Inr out"
    and fk: "\<And>w k sh. f w = Inr (Some (k, sh)) \<Longrightarrow> k = shard_key (dv_name w) member lead is_mean"
    using assms encode_var_key
    by (auto simp: encode_region_sharded_def encode_region_sharded_v1_def encode_region_sharded_v2_def split: if_splits)
  have "\<exists>v \<in> set (map dv_name ds). k = shard_key v member lead is_mean" if "(k, sh) \<in> set out" for k sh
    using f fk that by (fastforce simp: encode_vars_def bindE_eq_Inr set_somes dest!: mapE_set_D split: option.splits
        dest: find_var_name)
  then have "\<forall>e \<in> set out. \<exists>v. v \<in> set (map dv_name ds) \<and> fst e = shard_key v member lead is_mean" by auto
  then obtain g where g: "\<And>e. e \<in> set out \<Longrightarrow> g e \<in> set (map dv_name ds) \<and> fst e = shard_key (g e) member lead is_mean"
    by metis
  show ?thesis by (rule exI [of _ "map g out"]) (use g k in \<open>auto simp: o_def\<close>)
qed

lemma written_keys_are_reclaimable_witness:
  "\<exists>out names. encode_region_sharded (Cons 1) (\<lambda>_ _. 0) unit_dataset (Some 3) 6 False SHARDED_V1_FORMAT_VERSION = Inr out \<and>
    set names \<subseteq> {''temperature_2m''} \<and> map (\<lambda>v. make_shard_relative_key v ''mem'' 6 3) names = map (\<lambda>(k, sh). Inr k) out"
proof -
  obtain out where out: "encode_region_sharded (Cons 1) (\<lambda>_ _. 0) unit_dataset (Some 3) 6 False SHARDED_V1_FORMAT_VERSION = Inr out"
    using unit_write_v1 by blast
  from written_keys_are_reclaimable [OF out] out show ?thesis
    by (auto simp: unit_dataset_def product_role_def target_kind_defs)
qed

end
