(* ===== verification/ReaderPool.thy ===== *)
theory ReaderPool
  imports ShardEndToEnd
begin

text \<open>
  How the service chooses a reader: the micro-cache of committed manifests of
  \<open>api/core/manifest_reader.py\<close> and the process-wide reader cache of \<open>api/core/zarr.py\<close>. What the
  storage answers when a manifest is read is an argument, as are the instants that the monotonic
  clock shows; the caches are association lists in insertion order. One call is modelled at a time, so
  the per-store flight lock has no state.
\<close>

subsection \<open>Manifests\<close>

text \<open>A value of the JSON object. A number, a list or an object is known by its truth value and its text.\<close>

datatype json_value = JNull | JStr string | JOther bool string

type_synonym manifest_payload = "(string \<times> json_value) list"

text \<open>An entry holds its expiry instant. Only positive payloads are stored.\<close>

type_synonym manifest_cache = "(string \<times> real \<times> manifest_payload) list"

definition MANIFEST_CACHE_TTL :: real where "MANIFEST_CACHE_TTL = 30"
definition MANIFEST_CACHE_MAX_SIZE :: nat where "MANIFEST_CACHE_MAX_SIZE = 1024"

definition ManifestReadError :: "string \<Rightarrow> py_error" where
  "ManifestReadError msg = DomainError ''ManifestReadError'' msg"

definition cached_payload :: "manifest_cache \<Rightarrow> string \<Rightarrow> real \<Rightarrow> manifest_payload option" where
  "cached_payload cache store_path now = (case map_of cache store_path of
     Some (expiry, payload) \<Rightarrow> if now < expiry then Some payload else None
   | None \<Rightarrow> None)"

text \<open>Room for one more entry: the expired entries go first, then the oldest one.\<close>

definition evict_manifests :: "real \<Rightarrow> manifest_cache \<Rightarrow> manifest_cache" where
  "evict_manifests now cache =
     (if MANIFEST_CACHE_MAX_SIZE \<le> length cache
      then let live = filter (\<lambda>(k, expiry, p). now < expiry) cache in
        if MANIFEST_CACHE_MAX_SIZE \<le> length live then tl live else live
      else cache)"

text \<open>One call: the instants of the first look, of the look under the flight lock and of the insertion,
  and what \<open>_read_manifest_uncached\<close> answers if it is asked.\<close>

record manifest_call =
  mc_path :: string
  mc_look :: real
  mc_relook :: real
  mc_stored :: real
  mc_outcome :: "manifest_payload option result"

definition read_manifest :: "manifest_call \<Rightarrow> manifest_cache \<Rightarrow> manifest_payload option result \<times> manifest_cache" where
  "read_manifest c cache =
     (case cached_payload cache (mc_path c) (mc_look c) of Some p \<Rightarrow> (Inr (Some p), cache)
      | None \<Rightarrow> (case cached_payload cache (mc_path c) (mc_relook c) of Some p \<Rightarrow> (Inr (Some p), cache)
      | None \<Rightarrow> (case mc_outcome c of
          Inl e \<Rightarrow> (Inl e, cache)
        | Inr None \<Rightarrow> (Inr None, cache)
        | Inr (Some p) \<Rightarrow> (Inr (Some p),
            AList.update (mc_path c) (mc_stored c + MANIFEST_CACHE_TTL, p) (evict_manifests (mc_stored c) cache)))))"

definition manifest_generation :: "manifest_call \<Rightarrow> manifest_cache \<Rightarrow> string option result \<times> manifest_cache" where
  "manifest_generation c cache = (case read_manifest c cache of (res, cache1) \<Rightarrow>
     (bindE res (\<lambda>payload. case payload of None \<Rightarrow> Inr None
        | Some p \<Rightarrow> (case map_of p ''generation'' of
              Some (JStr g) \<Rightarrow> if g = [] then Inl (ManifestReadError ''no valid generation'') else Inr (Some g)
            | _ \<Rightarrow> Inl (ManifestReadError ''no valid generation''))), cache1))"

text \<open>\<open>str(payload.get(key) or default)\<close>\<close>

definition json_text :: "json_value option \<Rightarrow> string \<Rightarrow> string" where
  "json_text v dflt = (case v of
     Some (JStr s) \<Rightarrow> if s = [] then dflt else s
   | Some (JOther truthy text) \<Rightarrow> if truthy then text else dflt
   | _ \<Rightarrow> dflt)"

definition manifest_storage_format :: "manifest_call \<Rightarrow> manifest_cache \<Rightarrow> string \<times> manifest_cache" where
  "manifest_storage_format c cache = (case read_manifest c cache of (res, cache1) \<Rightarrow>
     (case res of
        Inr (Some p) \<Rightarrow> json_text (map_of p ''storage_format_version'') ''v2_unsharded''
      | _ \<Rightarrow> ''v2_unsharded'', cache1))"

fun run_manifest_calls :: "manifest_call list \<Rightarrow> manifest_cache \<Rightarrow> manifest_payload option result list \<times> manifest_cache" where
  "run_manifest_calls [] cache = ([], cache)"
| "run_manifest_calls (c # cs) cache = (case read_manifest c cache of (r, cache1) \<Rightarrow>
     (case run_manifest_calls cs cache1 of (rs, cache2) \<Rightarrow> (r # rs, cache2)))"

subsection \<open>The reader cache\<close>

definition MAX_READERS :: nat where "MAX_READERS = 8"

type_synonym reader_pool = "reader_class lru"

definition pool_put :: "string \<Rightarrow> reader_class \<Rightarrow> reader_pool \<Rightarrow> reader_pool" where
  "pool_put path cls pool = (let d = AList.update path cls pool in drop (length d - MAX_READERS) d)"

definition store_wants_v2_reader :: "manifest_call \<Rightarrow> manifest_cache \<Rightarrow> bool \<times> manifest_cache" where
  "store_wants_v2_reader c cache = (case manifest_storage_format c cache of (fmt, cache1) \<Rightarrow>
     (fmt = SHARDED_V2_FORMAT_VERSION, cache1))"

definition get_sharded_reader ::
    "manifest_call \<Rightarrow> reader_pool \<times> manifest_cache \<Rightarrow> reader_class \<times> reader_pool \<times> manifest_cache" where
  "get_sharded_reader c = (\<lambda>(pool, cache). case map_of pool (mc_path c) of
     Some cls \<Rightarrow> (cls, move_to_end (mc_path c) pool, cache)
   | None \<Rightarrow> (case store_wants_v2_reader c cache of (v2, cache1) \<Rightarrow>
       let cls = if v2 then ShardedV2Reader else ShardedV1Reader in
       (cls, pool_put (mc_path c) cls pool, cache1)))"

fun serve_readers :: "manifest_call list \<Rightarrow> reader_pool \<times> manifest_cache \<Rightarrow> reader_class list \<times> reader_pool \<times> manifest_cache" where
  "serve_readers [] st = ([], st)"
| "serve_readers (c # cs) st = (case get_sharded_reader c st of (cls, st1) \<Rightarrow>
     (case serve_readers cs st1 of (out, st2) \<Rightarrow> (cls # out, st2)))"

subsection \<open>What the manifest cache answers\<close>

text \<open>Every entry was stored by an earlier call for the same store, from a positive outcome.\<close>

definition from_calls :: "manifest_call list \<Rightarrow> manifest_cache \<Rightarrow> bool" where
  "from_calls cs cache \<longleftrightarrow> (\<forall>(k, expiry, p) \<in> set cache. \<exists>c \<in> set cs.
     mc_path c = k \<and> mc_outcome c = Inr (Some p) \<and> expiry = mc_stored c + MANIFEST_CACHE_TTL)"

lemma set_update_subset: "set (AList.update k v d) \<subseteq> insert (k, v) (set d)"
  by (induction d) auto

lemma length_update: "length (AList.update k v d) = (if k \<in> fst ` set d then length d else Suc (length d))"
  by (induction d) auto

lemma set_tl_subset: "set (tl xs) \<subseteq> set xs"
  by (cases xs) auto

lemma evict_manifests_subset: "set (evict_manifests now cache) \<subseteq> set cache"
  using set_tl_subset [of "filter (\<lambda>(k, expiry, p). now < expiry) cache"] by (auto simp: evict_manifests_def Let_def)

lemma length_evict:
  assumes "length cache \<le> MANIFEST_CACHE_MAX_SIZE" shows "length (evict_manifests now cache) < MANIFEST_CACHE_MAX_SIZE"
proof -
  have "length (filter (\<lambda>(k, expiry, p). now < expiry) cache) \<le> MANIFEST_CACHE_MAX_SIZE" using assms length_filter_le le_trans by blast
  then show ?thesis by (auto simp: evict_manifests_def Let_def MANIFEST_CACHE_MAX_SIZE_def not_le)
qed

lemma run_manifest_snoc:
  "run_manifest_calls (cs @ [c]) cache = (case run_manifest_calls cs cache of (rs, cache1) \<Rightarrow>
     (case read_manifest c cache1 of (r, cache2) \<Rightarrow> (rs @ [r], cache2)))"
  by (induction cs arbitrary: cache) (auto split: prod.splits)

lemma cached_payload_Some: "cached_payload cache k now = Some p \<Longrightarrow> \<exists>expiry. (k, expiry, p) \<in> set cache \<and> now < expiry"
  by (auto simp: cached_payload_def split: option.splits if_splits prod.splits dest: map_of_SomeD)

lemma read_manifest_cases:
  assumes "read_manifest c cache = (r, cache')" "mc_look c \<le> mc_relook c"
  obtains (hit) p expiry where "r = Inr (Some p)" "cache' = cache" "(mc_path c, expiry, p) \<in> set cache" "mc_look c < expiry"
  | (fresh) "r = mc_outcome c" "cache' = cache \<or> (\<exists>p. mc_outcome c = Inr (Some p) \<and>
       cache' = AList.update (mc_path c) (mc_stored c + MANIFEST_CACHE_TTL, p) (evict_manifests (mc_stored c) cache))"
  using assms cached_payload_Some [of cache "mc_path c"]
  by (auto simp: read_manifest_def split: option.splits sum.splits) (meson dual_order.strict_trans2 less_le_trans)+

lemma read_manifest_from_calls:
  assumes "read_manifest c cache = (r, cache')" "mc_look c \<le> mc_relook c" "from_calls cs cache"
    "length cache \<le> MANIFEST_CACHE_MAX_SIZE"
  shows "from_calls (cs @ [c]) cache' \<and> length cache' \<le> MANIFEST_CACHE_MAX_SIZE"
proof -
  let ?e = "evict_manifests (mc_stored c) cache"
  have old: "from_calls (cs @ [c]) cache" using assms(3) by (fastforce simp: from_calls_def)
  have "from_calls (cs @ [c]) (AList.update (mc_path c) (mc_stored c + MANIFEST_CACHE_TTL, p) ?e) \<and>
      length (AList.update (mc_path c) (mc_stored c + MANIFEST_CACHE_TTL, p) ?e) \<le> MANIFEST_CACHE_MAX_SIZE"
    if "mc_outcome c = Inr (Some p)" for p
  proof
    have "x = (mc_path c, mc_stored c + MANIFEST_CACHE_TTL, p) \<or> x \<in> set cache"
      if "x \<in> set (AList.update (mc_path c) (mc_stored c + MANIFEST_CACHE_TTL, p) ?e)" for x
      using that set_update_subset [of "mc_path c" "(mc_stored c + MANIFEST_CACHE_TTL, p)" ?e] evict_manifests_subset
      by blast
    then show "from_calls (cs @ [c]) (AList.update (mc_path c) (mc_stored c + MANIFEST_CACHE_TTL, p) ?e)"
      using old that unfolding from_calls_def by fastforce
    show "length (AList.update (mc_path c) (mc_stored c + MANIFEST_CACHE_TTL, p) ?e) \<le> MANIFEST_CACHE_MAX_SIZE"
      using length_evict [OF assms(4), of "mc_stored c"] by (simp add: length_update)
  qed
  with assms(1,2) old assms(4) show ?thesis by (elim read_manifest_cases) auto
qed

lemma run_manifest_from_calls:
  assumes "run_manifest_calls cs [] = (out, cache)" "\<And>c. c \<in> set cs \<Longrightarrow> mc_look c \<le> mc_relook c"
  shows "from_calls cs cache \<and> length cache \<le> MANIFEST_CACHE_MAX_SIZE \<and> length out = length cs"
  using assms
proof (induction cs arbitrary: out cache rule: rev_induct)
  case (snoc c cs)
  obtain rs cache1 where r: "run_manifest_calls cs [] = (rs, cache1)" by fastforce
  obtain x cache2 where x: "read_manifest c cache1 = (x, cache2)" by fastforce
  have "from_calls cs cache1 \<and> length cache1 \<le> MANIFEST_CACHE_MAX_SIZE \<and> length rs = length cs"
    using snoc.IH [OF r] snoc.prems(2) by simp
  with read_manifest_from_calls [OF x] snoc.prems r x show ?case by (auto simp: run_manifest_snoc)
qed (auto simp: from_calls_def)

text \<open>a manifest answer is never staler than the cache's lifetime: it is what the storage says at this very call, or the
  payload that an earlier call for the same store read less than 30 seconds before; an absent or unreadable manifest is
  reported only when the storage says so now, and the cache never exceeds its bound.\<close>

theorem manifest_answers_fresh:
  assumes "run_manifest_calls cs [] = (out, cache)" "\<And>c. c \<in> set cs \<Longrightarrow> mc_look c \<le> mc_relook c" "i < length cs"
  shows "(out ! i = mc_outcome (cs ! i) \<or>
      (\<exists>q \<in> set (take i cs). mc_path q = mc_path (cs ! i) \<and> out ! i = mc_outcome q \<and> (\<exists>p. mc_outcome q = Inr (Some p)) \<and>
         mc_look (cs ! i) < mc_stored q + 30)) \<and> length cache \<le> 1024"
  using assms
proof (induction cs arbitrary: out cache rule: rev_induct)
  case (snoc c cs)
  obtain rs cache1 where r: "run_manifest_calls cs [] = (rs, cache1)" by fastforce
  obtain x cache2 where x: "read_manifest c cache1 = (x, cache2)" by fastforce
  have out: "out = rs @ [x]" "cache = cache2" using snoc.prems(1) r x by (simp_all add: run_manifest_snoc)
  note inv = run_manifest_from_calls [OF r] run_manifest_from_calls [OF snoc.prems(1,2)]
  have bound: "length cache \<le> 1024" using inv(2) by (simp add: MANIFEST_CACHE_MAX_SIZE_def)
  have rs: "length rs = length cs" "from_calls cs cache1" using inv(1) snoc.prems(2) by simp_all
  show ?case
  proof (cases "i < length cs")
    case True
    then show ?thesis using snoc.IH [OF r _ True] snoc.prems(2) bound unfolding out by (simp add: nth_append rs(1))
  next
    case False
    then have i: "i = length cs" using snoc.prems(3) by simp
    have "x = mc_outcome c \<or> (\<exists>q \<in> set cs. mc_path q = mc_path c \<and> x = mc_outcome q \<and>
        (\<exists>p. mc_outcome q = Inr (Some p)) \<and> mc_look c < mc_stored q + 30)"
      using x
    proof (rule read_manifest_cases)
      show "mc_look c \<le> mc_relook c" using snoc.prems(2) by simp
      fix p expiry assume h: "x = Inr (Some p)" "(mc_path c, expiry, p) \<in> set cache1" "mc_look c < expiry"
      then obtain q where "q \<in> set cs" "mc_path q = mc_path c" "mc_outcome q = Inr (Some p)"
        "expiry = mc_stored q + MANIFEST_CACHE_TTL" using rs(2) unfolding from_calls_def by blast
      then show ?thesis using h by (intro disjI2 bexI [of _ q]) (auto simp: MANIFEST_CACHE_TTL_def)
    qed blast
    with bound show ?thesis unfolding out i by (simp add: nth_append rs(1))
  qed
qed simp

lemma manifest_answers_fresh_witness:
  "\<exists>out cache. run_manifest_calls
     [\<lparr>mc_path = ''s'', mc_look = 0, mc_relook = 0, mc_stored = 1, mc_outcome = Inr (Some [])\<rparr>,
      \<lparr>mc_path = ''s'', mc_look = 30, mc_relook = 30, mc_stored = 30, mc_outcome = Inr None\<rparr>] [] = (out, cache) \<and>
     out ! 1 = Inr (Some []) \<and> length cache \<le> 1024"
proof -
  let ?cs = "[\<lparr>mc_path = ''s'', mc_look = 0, mc_relook = 0, mc_stored = 1, mc_outcome = Inr (Some [])\<rparr>,
      \<lparr>mc_path = ''s'', mc_look = 30, mc_relook = 30, mc_stored = 30, mc_outcome = Inr None\<rparr>] :: manifest_call list"
  obtain out cache where r: "run_manifest_calls ?cs [] = (out, cache)" by fastforce
  have "mc_look c \<le> mc_relook c" if "c \<in> set ?cs" for c using that by auto
  then have "length cache \<le> 1024" using manifest_answers_fresh [OF r, of 1] by auto
  moreover have "out = [Inr (Some []), Inr (Some [])]"
    using r by (simp add: read_manifest_def cached_payload_def evict_manifests_def MANIFEST_CACHE_MAX_SIZE_def MANIFEST_CACHE_TTL_def)
  ultimately show ?thesis using r by simp
qed

subsection \<open>Which reader a store gets\<close>

lemma map_of_move_to_end: "map_of (move_to_end k d) = map_of d"
proof (cases "map_of d k")
  case (Some v)
  have "map_of (filter (\<lambda>p. fst p \<noteq> k) d @ [(k, v)]) j = map_of d j" for j
  proof -
    have "map_of (filter (\<lambda>p. fst p \<noteq> k) d) = (map_of d)(k := None)" by (induction d) auto
    with Some show ?thesis by (cases "j = k") (auto simp: map_add_def split: option.splits)
  qed
  with Some show ?thesis by (auto simp: move_to_end_def)
qed (simp add: move_to_end_def)

lemma keys_move_to_end: "fst ` set (move_to_end k d) = fst ` set d"
  using map_of_move_to_end [of k d] by (metis dom_map_of_conv_image_fst)

lemma distinct_move_to_end: "distinct (map fst d) \<Longrightarrow> distinct (map fst (move_to_end k d))"
  by (auto simp: move_to_end_def distinct_map inj_on_def split: option.splits)

text \<open>While the requested stores fit into the pool nothing is evicted: every answer stays in the pool.\<close>

definition pool_serves :: "manifest_call list \<Rightarrow> reader_class list \<Rightarrow> reader_pool \<Rightarrow> bool" where
  "pool_serves cs out pool \<longleftrightarrow> distinct (map fst pool) \<and> fst ` set pool = mc_path ` set cs \<and>
     list_all2 (\<lambda>c cls. map_of pool (mc_path c) = Some cls) cs out"

lemma serve_readers_snoc:
  "serve_readers (cs @ [c]) st = (case serve_readers cs st of (out, st1) \<Rightarrow>
     (case get_sharded_reader c st1 of (cls, st2) \<Rightarrow> (out @ [cls], st2)))"
  by (induction cs arbitrary: st) (auto split: prod.splits)

lemma get_sharded_reader_serves:
  assumes "pool_serves cs out pool" "get_sharded_reader c (pool, cache) = (cls, pool', cache')"
    and "card (mc_path ` set (cs @ [c])) \<le> MAX_READERS"
  shows "pool_serves (cs @ [c]) (out @ [cls]) pool'"
proof (cases "map_of pool (mc_path c)")
  case (Some cls0)
  then have "mc_path c \<in> mc_path ` set cs" using assms(1) unfolding pool_serves_def by (metis domI dom_map_of_conv_image_fst)
  then have "mc_path ` set (cs @ [c]) = mc_path ` set cs" by auto
  moreover have "pool' = move_to_end (mc_path c) pool" "cls = cls0" using Some assms(2) by (auto simp: get_sharded_reader_def)
  ultimately show ?thesis using Some assms(1)
    by (simp add: pool_serves_def keys_move_to_end map_of_move_to_end distinct_move_to_end list_all2_appendI
        del: map_of_eq_Some_iff)
next
  case None
  let ?d = "AList.update (mc_path c) cls pool"
  have keys: "fst ` set ?d = mc_path ` set (cs @ [c])" "distinct (map fst ?d)"
    using assms(1) dom_update [of "mc_path c" cls pool]
    by (simp_all add: pool_serves_def distinct_update dom_map_of_conv_image_fst del: map_of_eq_Some_iff)
  then have "length ?d \<le> MAX_READERS" using assms(3) by (metis distinct_card length_map list.set_map)
  moreover have "pool' = pool_put (mc_path c) cls pool"
    using assms(2) None by (auto simp: get_sharded_reader_def Let_def split: prod.splits)
  ultimately have "pool' = ?d" by (simp add: pool_put_def Let_def)
  moreover have "list_all2 (\<lambda>c' cls'. map_of ?d (mc_path c') = Some cls') cs out"
    using assms(1) None unfolding pool_serves_def by (auto simp: update_conv' elim!: list_all2_mono)
  ultimately show ?thesis using keys by (simp add: pool_serves_def list_all2_appendI update_conv')
qed

lemma serve_readers_serves:
  assumes "serve_readers cs ([], cache) = (out, pool, cache')" "card (mc_path ` set cs) \<le> MAX_READERS"
  shows "pool_serves cs out pool"
  using assms
proof (induction cs arbitrary: out pool cache' rule: rev_induct)
  case (snoc c cs)
  obtain out1 pool1 cache1 where r: "serve_readers cs ([], cache) = (out1, pool1, cache1)" by (metis prod_cases3)
  obtain cls pool2 cache2 where x: "get_sharded_reader c (pool1, cache1) = (cls, pool2, cache2)" by (metis prod_cases3)
  have "card (mc_path ` set cs) \<le> card (mc_path ` set (cs @ [c]))" by (intro card_mono) auto
  then have "pool_serves cs out1 pool1" using snoc.IH [OF r] snoc.prems(2) by simp
  from get_sharded_reader_serves [OF this x snoc.prems(2)] snoc.prems(1) r x show ?case by (auto simp: serve_readers_snoc)
qed (simp add: pool_serves_def)

text \<open>while the process serves no more stores than the pool holds, the reader class that the first request for a store
  chose is the one every later request gets, whatever the manifest says by then.\<close>

theorem first_reader_is_kept:
  assumes "serve_readers cs ([], cache) = (out, st)" "card (mc_path ` set cs) \<le> MAX_READERS"
    and "i < length cs" "j < length cs" "mc_path (cs ! i) = mc_path (cs ! j)"
  shows "out ! i = out ! j"
proof -
  obtain pool cache' where "st = (pool, cache')" by fastforce
  then have "serve_readers cs ([], cache) = (out, pool, cache')" using assms(1) by simp
  then have "pool_serves cs out pool" using assms(2) by (rule serve_readers_serves)
  then have "list_all2 (\<lambda>c cls. map_of pool (mc_path c) = Some cls) cs out" unfolding pool_serves_def by blast
  with assms(3,4) have "map_of pool (mc_path (cs ! i)) = Some (out ! i)" "map_of pool (mc_path (cs ! j)) = Some (out ! j)"
    using list_all2_nthD [of "\<lambda>c cls. map_of pool (mc_path c) = Some cls" cs out] by blast+
  then show ?thesis using assms(5) by simp
qed

lemma first_reader_is_kept_witness:
  "\<exists>out st. serve_readers
     [\<lparr>mc_path = ''s'', mc_look = 0, mc_relook = 0, mc_stored = 1, mc_outcome = Inr None\<rparr>,
      \<lparr>mc_path = ''s'', mc_look = 3, mc_relook = 3, mc_stored = 3,
       mc_outcome = Inr (Some [(''storage_format_version'', JStr ''sharded_v2'')])\<rparr>] ([], []) = (out, st) \<and>
     out ! 0 = out ! 1 \<and> out ! 0 = ShardedV1Reader"
proof -
  let ?cs = "[\<lparr>mc_path = ''s'', mc_look = 0, mc_relook = 0, mc_stored = 1, mc_outcome = Inr None\<rparr>,
      \<lparr>mc_path = ''s'', mc_look = 3, mc_relook = 3, mc_stored = 3,
       mc_outcome = Inr (Some [(''storage_format_version'', JStr ''sharded_v2'')])\<rparr>] :: manifest_call list"
  obtain out st where r: "serve_readers ?cs ([], []) = (out, st)" by (metis surj_pair)
  have "out ! 0 = out ! 1" by (rule first_reader_is_kept [OF r]) (simp_all add: MAX_READERS_def)
  moreover have "out ! 0 = ShardedV1Reader"
    using r by (auto simp: get_sharded_reader_def store_wants_v2_reader_def manifest_storage_format_def read_manifest_def
        cached_payload_def Let_def SHARDED_V2_FORMAT_VERSION_def split: prod.splits)
  ultimately show ?thesis using r by blast
qed

text \<open>C24: a storage error while the manifest of a \<open>sharded_v2\<close> store is first read pins the reader of the other format:
  every later request gets it, and reading any cell of a float16 variable through it fails, although the object is intact.\<close>

theorem failed_manifest_read_pins_wrong_reader:
  assumes "mc_outcome c1 = Inl err" "mc_path c2 = mc_path c1"
    and "codec_ok enc dec cast" "sr_decode rd = dec"
    and e: "encode_region_sharded enc cast ds member lead is_mean SHARDED_V2_FORMAT_VERSION = Inr out"
    and u: "find_var ds v = Some u" "dv_array u = Some A" "global_field A"
    and d16: "payload_dtype ShardedV2Reader v member is_mean = Inr Float16LE"
    and plain: "\<And>w. w \<in> set ds \<Longrightarrow> CHR ''/'' \<notin> set (dv_name w)"
    and b: "0 \<le> lat" "lat < 721" "0 \<le> lon" "lon < 1440"
  shows "fst (get_sharded_reader c2 (snd (get_sharded_reader c1 ([], [])))) = ShardedV1Reader \<and>
    (\<exists>e. fst (read_point_value ShardedV1Reader rd (map_of out)
      \<lparr>sl_variable = v, sl_member = member, sl_lead = lead, sl_is_mean = is_mean, sl_generation = gen\<rparr>
      lat lon no_cache) = Inl e)"
proof
  show "fst (get_sharded_reader c2 (snd (get_sharded_reader c1 ([], [])))) = ShardedV1Reader"
    using assms(1,2) by (simp add: get_sharded_reader_def store_wants_v2_reader_def manifest_storage_format_def
        read_manifest_def cached_payload_def Let_def SHARDED_V2_FORMAT_VERSION_def pool_put_def MAX_READERS_def)
next
  let ?s = "\<lparr>sl_variable = v, sl_member = member, sl_lead = lead, sl_is_mean = is_mean, sl_generation = gen\<rparr>"
  obtain d shard where d: "payload_dtype (reader_for SHARDED_V2_FORMAT_VERSION) v member is_mean = Inr d"
    "build_sharded_v1_container (field_chunks enc cast d A) = Inr shard" "map_of out (slice_key ?s) = Some shard"
    using encoded_shard [OF e u plain] by (auto simp: slice_key_def)
  have d': "d = Float16LE" using d(1) d16 by (simp add: reader_for_def)
  have s: "slice_dtype ShardedV1Reader ?s = Inr Float32LE" by (simp add: slice_dtype_def payload_dtype_def)
  have g: "in_grid (lat div 100) (lon div 100)" using b by (auto simp: in_grid_def)
  let ?t = "tile_at 721 1440 (nat (lat div 100)) (nat (lon div 100))"
  have "uncached_chunk ShardedV1Reader rd (map_of out) ?s (lat div 100) (lon div 100) =
      bindE (dec (encode_chunk enc cast d A ?t)) (frombuffer (itemsize Float32LE) 100 100)"
    by (rule stored_range [where objs = "map_of out" and s = ?s, OF assms(3,4) d(2,3) s g])
  moreover have "dec (encode_chunk enc cast d A ?t) = Inr (tobytes 2 (chunk_buf cast d A ?t))"
    using assms(3) by (simp add: encode_chunk_def codec_ok_def d')
  moreover have "length (tobytes 2 (chunk_buf cast d A ?t)) = 20000"
    using u(3) by (simp add: length_tobytes chunk_buf_def global_field_def chunk_counts)
  ultimately have "fst (read_chunk ShardedV1Reader rd (map_of out) ?s (lat div 100) (lon div 100) no_cache) =
      Inl (ValueError ''cannot reshape array'')"
    by (simp add: uncached_chunk_def frombuffer_def)
  then show "\<exists>e. fst (read_point_value ShardedV1Reader rd (map_of out) ?s lat lon no_cache) = Inl e"
    by (auto simp: read_point_value_def split: prod.splits)
qed

lemma failed_manifest_read_pins_wrong_reader_witness:
  "\<exists>out e. encode_region_sharded (Cons 1) (\<lambda>_ _. 0) unit_dataset None 6 False SHARDED_V2_FORMAT_VERSION = Inr out \<and>
    fst (read_point_value ShardedV1Reader plain_reader (map_of out)
      \<lparr>sl_variable = ''temperature_2m'', sl_member = None, sl_lead = 6, sl_is_mean = False, sl_generation = None\<rparr>
      360 720 no_cache) = Inl e"
proof -
  obtain out where out: "encode_region_sharded (Cons 1) (\<lambda>_ _. 0) unit_dataset None 6 False SHARDED_V2_FORMAT_VERSION = Inr out"
    using unit_write_v2 by blast
  let ?c = "\<lparr>mc_path = ''s'', mc_look = 0, mc_relook = 0, mc_stored = 1, mc_outcome = Inl (ManifestReadError [])\<rparr>"
  have "payload_dtype ShardedV2Reader ''temperature_2m'' None False = Inr Float16LE" by code_simp
  from failed_manifest_read_pins_wrong_reader [where ?c1.0 = ?c and ?c2.0 = ?c and lat = 360 and lon = 720 and gen = None, OF _ _ copy_codec_ok unit_dataset_facts(5) out
      unit_dataset_facts(1-3) this unit_dataset_facts(4)] out
  show ?thesis by auto
qed

end
