(* ===== verification/GcFinalizer.thy ===== *)
theory GcFinalizer
  imports GcWorker Lifecycle
begin

text \<open>
  Lifecycle bookkeeping, \<open>gc/finalizer.py\<close>: which cycles are candidates, the claim that fences a cycle whose horizon is
  past, the test that all its units are reclaimed, and the tombstone, which also closes the queue rows of the cycle. The
  state is the catalog of \<open>GcPlanner\<close>. A session that ends without a commit leaves the catalog as it was; the column
  \<open>updated_at\<close> of a lifecycle row is not part of the model.
\<close>

subsection \<open>Queries\<close>

text \<open>The join of runs and versions that every step of the pass uses: the rows of one cycle of one model\<close>

definition cycle_rows :: "catalog \<Rightarrow> string \<Rightarrow> instant \<Rightarrow> (model_run_row \<times> model_version_row) list" where
  "cycle_rows db m_id c_utc = concat (map (\<lambda>r. map (\<lambda>v. (r, v))
     (filter (\<lambda>v. mr_model_version_id r = mv_id v \<and> mv_model_id v = m_id \<and> ensure_utc (mr_cycle_time r) = c_utc)
       (db_versions db))) (db_runs db))"

definition cycle_run_ids :: "catalog \<Rightarrow> string \<Rightarrow> instant \<Rightarrow> string list" where
  "cycle_run_ids db m_id c_utc = map (\<lambda>(r, v). mr_id r) (cycle_rows db m_id c_utc)"

definition cycle_versions :: "catalog \<Rightarrow> string \<Rightarrow> instant \<Rightarrow> string list" where
  "cycle_versions db m_id c_utc = remdups (map (\<lambda>(r, v). mv_version_string v) (cycle_rows db m_id c_utc))"

definition NON_TERMINAL_QUEUE_STATUSES :: "string list" where
  "NON_TERMINAL_QUEUE_STATUSES = [RECLAMATION_STATUS_QUEUED, RECLAMATION_STATUS_DELETING, RECLAMATION_STATUS_FAILED]"

subsection \<open>Candidates\<close>

record finalizer_candidate =
  fc_model_id :: string
  fc_cycle_time :: instant
  fc_is_recovery :: bool

definition is_unfenced :: "catalog \<Rightarrow> string \<times> instant \<Rightarrow> bool" where
  "is_unfenced db = (\<lambda>(m, c). case find_lifecycle db m c of None \<Rightarrow> True
     | Some l \<Rightarrow> fl_deleted_at l = None \<and> fl_deletion_started_at l = None)"

definition recovery_candidates :: "catalog \<Rightarrow> string list \<Rightarrow> nat \<Rightarrow> finalizer_candidate list" where
  "recovery_candidates db target_models batch_size =
     map (\<lambda>l. \<lparr>fc_model_id = fl_model_id l, fc_cycle_time = ensure_utc (fl_cycle_time l), fc_is_recovery = True\<rparr>)
       (take batch_size (sort_key (\<lambda>l. ensure_utc (fl_cycle_time l))
          (filter (\<lambda>l. fl_model_id l \<in> set target_models \<and> fl_deletion_started_at l \<noteq> None \<and> fl_deleted_at l = None)
             (db_lifecycle db))))"

text \<open>The distinct cycles of the catalog's runs\<close>

definition run_cycles :: "catalog \<Rightarrow> (string \<times> instant) list" where
  "run_cycles db = remdups (concat (map (\<lambda>r. map (\<lambda>v. (mv_model_id v, ensure_utc (mr_cycle_time r)))
     (filter (\<lambda>v. mr_model_version_id r = mv_id v) (db_versions db))) (db_runs db)))"

definition fresh_candidates :: "catalog \<Rightarrow> string list \<Rightarrow> nat \<Rightarrow> (string \<times> instant) set \<Rightarrow> finalizer_candidate list" where
  "fresh_candidates db target_models batch_size recovery_keys =
     map (\<lambda>(m, c). \<lparr>fc_model_id = m, fc_cycle_time = c, fc_is_recovery = False\<rparr>)
       (filter (\<lambda>k. k \<notin> recovery_keys)
         (take batch_size (sort_key snd (filter (\<lambda>k. fst k \<in> set target_models \<and> is_unfenced db k) (run_cycles db)))))"

definition discover_finalizer_candidates ::
    "catalog \<Rightarrow> string list \<Rightarrow> nat \<Rightarrow> finalizer_candidate list \<times> finalizer_candidate list" where
  "discover_finalizer_candidates db models batch_size =
     (let target_models = map norm_key models;
          recovery = recovery_candidates db target_models batch_size;
          recovery_keys = set (map (\<lambda>c. (fc_model_id c, fc_cycle_time c)) recovery)
      in (recovery, fresh_candidates db target_models batch_size recovery_keys))"

subsection \<open>The claim\<close>

definition ensure_lifecycle_row :: "catalog \<Rightarrow> string \<Rightarrow> instant \<Rightarrow> catalog" where
  "ensure_lifecycle_row db m_id c_utc = (case find_lifecycle db m_id c_utc of
     Some row \<Rightarrow> db
   | None \<Rightarrow> db\<lparr>db_lifecycle := db_lifecycle db @
       [\<lparr>fl_model_id = m_id, fl_cycle_time = utc_datetime c_utc, fl_deletion_started_at = None, fl_deleted_at = None\<rparr>]\<rparr>)"

text \<open>An update of the row that holds the primary key\<close>

definition update_lifecycle :: "string \<Rightarrow> instant \<Rightarrow> (lifecycle_row \<Rightarrow> lifecycle_row) \<Rightarrow> catalog \<Rightarrow> catalog" where
  "update_lifecycle m_id c_utc f db = db\<lparr>db_lifecycle := map (\<lambda>l.
     if fl_model_id l = m_id \<and> ensure_utc (fl_cycle_time l) = c_utc then f l else l) (db_lifecycle db)\<rparr>"

definition claim_fresh_candidate ::
    "horizon_registry \<Rightarrow> catalog \<Rightarrow> string \<Rightarrow> instant \<Rightarrow> instant \<Rightarrow> instant \<Rightarrow> bool result \<times> catalog" where
  "claim_fresh_candidate reg db model_id c_utc serving_start claim_time =
     (let m_id = norm_key model_id; db1 = ensure_lifecycle_row db m_id c_utc in
      case find_lifecycle db1 m_id c_utc of
        None \<Rightarrow> (Inl (DomainError ''NoResultFound'' ''scalar_one''), db)
      | Some lc \<Rightarrow>
          if fl_deletion_started_at lc \<noteq> None \<or> fl_deleted_at lc \<noteq> None then (Inr False, db)
          else let versions = cycle_versions db1 m_id c_utc in
            if versions = [] then (Inr False, db)
            else (case mapE (\<lambda>v. model_max_lead_hours reg m_id (Some v) None) versions of
                Inl (ValueError msg) \<Rightarrow> (Inr False, db)
              | Inl e \<Rightarrow> (Inl e, db)
              | Inr leads \<Rightarrow>
                  if \<not> is_cycle_horizon_expired (utc_datetime c_utc) (Max (set leads)) (utc_datetime serving_start)
                  then (Inr False, db)
                  else (Inr True, update_lifecycle m_id c_utc
                          (\<lambda>l. l\<lparr>fl_deletion_started_at := Some (utc_datetime claim_time)\<rparr>) db1)))"

definition enumerate_cycle_store_paths :: "catalog \<Rightarrow> string \<Rightarrow> instant \<Rightarrow> string \<Rightarrow> string set" where
  "enumerate_cycle_store_paths db model_id c_utc base_bucket =
     (let m_id = norm_key model_id in
      {p \<in> insert (canonical_cycle_store_path m_id (utc_datetime c_utc) base_bucket)
         (set (somes (map (\<lambda>(r, v). mr_zarr_store_path r) (cycle_rows db m_id c_utc)))). p \<noteq> []})"

subsection \<open>Terminal cycles\<close>

text \<open>A dictionary comprehension over the queue rows of the runs: a later row overwrites an earlier one.\<close>

definition status_by_unit :: "catalog \<Rightarrow> string list \<Rightarrow> unit_tuple \<rightharpoonup> string" where
  "status_by_unit db run_ids = map_of (rev (map (\<lambda>q. (target_tuple (rq_target q), rq_status q))
     (filter (\<lambda>q. pst_run_id (rq_target q) \<in> set run_ids) (db_queue db))))"

definition cycle_reclamation_units_terminal ::
    "coverage_state \<Rightarrow> catalog \<Rightarrow> string \<Rightarrow> instant \<Rightarrow> bool result" where
  "cycle_reclamation_units_terminal cov db model_id c_utc =
     (let m_id = norm_key model_id; run_ids = cycle_run_ids db m_id c_utc in
      if run_ids = [] then Inr True
      else let st = status_by_unit db run_ids;
               rows = map (\<lambda>q. target_tuple (rq_target q)) (filter (\<lambda>q. pst_run_id (rq_target q) \<in> set run_ids) (db_queue db)) in
        if list_ex (\<lambda>u. the (st u) \<in> set NON_TERMINAL_QUEUE_STATUSES) rows then Inr False
        else bindE (get_expected_members cov m_id (Some 1)) (\<lambda>n.
          Inr (\<forall>u \<in> enumerate_committed_unit_tuples db run_ids (1 < n). st u = Some RECLAMATION_STATUS_DELETED)))"

subsection \<open>The tombstone\<close>

definition in_cycle :: "string \<Rightarrow> instant \<Rightarrow> queue_row \<Rightarrow> bool" where
  "in_cycle m_id c_utc q \<longleftrightarrow> pst_model_id (rq_target q) = m_id \<and> pst_cycle_time (rq_target q) = c_utc"

definition close_row :: "instant \<Rightarrow> queue_row \<Rightarrow> queue_row" where
  "close_row now_utc q = q\<lparr>rq_status := RECLAMATION_STATUS_DELETED, rq_updated_at := now_utc,
     rq_reclaimed_at := Some (case rq_reclaimed_at q of Some t \<Rightarrow> t | None \<Rightarrow> now_utc)\<rparr>"

definition finalize_cycle_physical_and_queue :: "catalog \<Rightarrow> string \<Rightarrow> instant \<Rightarrow> instant \<Rightarrow> catalog" where
  "finalize_cycle_physical_and_queue db model_id c_utc now_utc =
     (let m_id = norm_key model_id;
          db1 = update_lifecycle m_id c_utc (\<lambda>l. l\<lparr>fl_deleted_at := Some (utc_datetime now_utc)\<rparr>)
                  (ensure_lifecycle_row db m_id c_utc)
      in db1\<lparr>db_queue := map (\<lambda>q. if in_cycle m_id c_utc q then close_row now_utc q else q) (db_queue db1)\<rparr>)"

definition finalize_cycle_bookkeeping ::
    "horizon_registry \<Rightarrow> coverage_state \<Rightarrow> catalog \<Rightarrow> string \<Rightarrow> instant \<Rightarrow> bool \<Rightarrow> instant \<Rightarrow> instant
     \<Rightarrow> bool result \<times> catalog" where
  "finalize_cycle_bookkeeping reg cov db model_id c_utc is_recovery serving_start now_utc =
     (case (if is_recovery then (Inr True, db)
            else claim_fresh_candidate reg db (norm_key model_id) c_utc serving_start now_utc) of
        (Inl e, db1) \<Rightarrow> (Inl e, db1)
      | (Inr False, db1) \<Rightarrow> (Inr False, db1)
      | (Inr True, db1) \<Rightarrow>
          (case cycle_reclamation_units_terminal cov db1 (norm_key model_id) c_utc of
             Inl e \<Rightarrow> (Inl e, db1)
           | Inr False \<Rightarrow> (Inr False, db1)
           | Inr True \<Rightarrow> (Inr True, finalize_cycle_physical_and_queue db1 (norm_key model_id) c_utc now_utc)))"

subsection \<open>The pass\<close>

record finalizer_pass_result =
  fr_dry_run :: bool
  fr_evaluated_at :: instant
  fr_recovery_candidates :: "finalizer_candidate list"
  fr_fresh_candidates :: "finalizer_candidate list"
  fr_claimed_cycles :: "(string \<times> instant) list"
  fr_finalized_cycles :: "(string \<times> instant) list"
  fr_blocked_cycles :: "(string \<times> instant) list"
  fr_failed_cycles :: "(string \<times> instant) list"

text \<open>One candidate, with the exception handler of the loop\<close>

definition bookkeep_candidate ::
    "horizon_registry \<Rightarrow> coverage_state \<Rightarrow> instant \<Rightarrow> finalizer_candidate
     \<Rightarrow> finalizer_pass_result \<times> catalog \<Rightarrow> finalizer_pass_result \<times> catalog" where
  "bookkeep_candidate reg cov now_utc cand = (\<lambda>(res, db).
     let key = (fc_model_id cand, fc_cycle_time cand) in
     case model_serving_start_valid_time reg (fc_model_id cand) (utc_datetime now_utc) of
       Inl e \<Rightarrow> (res\<lparr>fr_failed_cycles := fr_failed_cycles res @ [key]\<rparr>, db)
     | Inr serving_start \<Rightarrow>
         (case finalize_cycle_bookkeeping reg cov db (fc_model_id cand) (fc_cycle_time cand) (fc_is_recovery cand)
                 serving_start now_utc of
            (Inl e, db1) \<Rightarrow> (res\<lparr>fr_failed_cycles := fr_failed_cycles res @ [key]\<rparr>, db1)
          | (Inr False, db1) \<Rightarrow> (res\<lparr>fr_blocked_cycles := fr_blocked_cycles res @ [key]\<rparr>, db1)
          | (Inr True, db1) \<Rightarrow>
              (res\<lparr>fr_claimed_cycles := fr_claimed_cycles res @ (if fc_is_recovery cand then [] else [key]),
                   fr_finalized_cycles := fr_finalized_cycles res @ [key]\<rparr>, db1)))"

definition run_lifecycle_bookkeeping_pass ::
    "horizon_registry \<Rightarrow> coverage_state \<Rightarrow> string list \<Rightarrow> bool \<Rightarrow> nat \<Rightarrow> instant \<Rightarrow> catalog
     \<Rightarrow> finalizer_pass_result \<times> catalog" where
  "run_lifecycle_bookkeeping_pass reg cov models dry_run batch_size now_utc db =
     (case discover_finalizer_candidates db models batch_size of (recovery, fresh) \<Rightarrow>
        let res = \<lparr>fr_dry_run = dry_run, fr_evaluated_at = now_utc, fr_recovery_candidates = recovery,
                   fr_fresh_candidates = fresh, fr_claimed_cycles = [], fr_finalized_cycles = [],
                   fr_blocked_cycles = [], fr_failed_cycles = []\<rparr>
        in if dry_run then (res, db)
           else fold (bookkeep_candidate reg cov now_utc) (recovery @ fresh) (res, db))"

subsection \<open>The tables a pass leaves alone\<close>

text \<open>What the terminal test and the versions of a cycle read, besides the queue\<close>

definition same_runs :: "catalog \<Rightarrow> catalog \<Rightarrow> bool" where
  "same_runs db db' \<longleftrightarrow> db_versions db' = db_versions db \<and> db_runs db' = db_runs db \<and> db_products db' = db_products db \<and>
     db_member_products db' = db_member_products db"

lemma same_runs_refl [simp]: "same_runs db db"
  by (simp add: same_runs_def)

lemma same_runs_cycle:
  assumes "same_runs db db'"
  shows "cycle_rows db' m c = cycle_rows db m c" "cycle_run_ids db' m c = cycle_run_ids db m c"
    "cycle_versions db' m c = cycle_versions db m c" "run_cycles db' = run_cycles db"
  using assms by (simp_all add: same_runs_def cycle_rows_def cycle_run_ids_def cycle_versions_def run_cycles_def)

lemma same_runs_units:
  assumes "same_runs db db'"
  shows "enumerate_committed_unit_tuples db' rs e = enumerate_committed_unit_tuples db rs e"
proof -
  have "product_units db' rs e = product_units db rs e"
    using assms by (simp add: same_runs_def product_units_def members_of_def fun_eq_iff Let_def)
  with assms show ?thesis by (simp add: enumerate_committed_unit_tuples_def product_rows_def same_runs_def)
qed

lemma ensure_lifecycle_row_simps [simp]:
  "db_queue (ensure_lifecycle_row db m c) = db_queue db" "same_runs db (ensure_lifecycle_row db m c)"
  by (auto simp: ensure_lifecycle_row_def same_runs_def split: option.splits)

lemma update_lifecycle_simps [simp]:
  "db_queue (update_lifecycle m c f db) = db_queue db" "same_runs db (update_lifecycle m c f db)"
  by (simp_all add: update_lifecycle_def same_runs_def)

lemma same_runs_trans [trans]: "same_runs db db' \<Longrightarrow> same_runs db' db'' \<Longrightarrow> same_runs db db''"
  by (simp add: same_runs_def)

lemma find_ensure_lifecycle:
  "find_lifecycle (ensure_lifecycle_row db m c) m' c' =
     (if m' = m \<and> c' = c \<and> find_lifecycle db m c = None
      then Some \<lparr>fl_model_id = m, fl_cycle_time = utc_datetime c, fl_deletion_started_at = None, fl_deleted_at = None\<rparr>
      else find_lifecycle db m' c')"
proof (cases "find_lifecycle db m c")
  case None
  have "find P (xs @ [x]) = (case find P xs of None \<Rightarrow> if P x then Some x else None | Some y \<Rightarrow> Some y)" for P x and xs :: "lifecycle_row list"
    by (induction xs) auto
  with None show ?thesis
    by (auto simp: find_lifecycle_def ensure_lifecycle_row_def split: option.splits)
qed (auto simp: ensure_lifecycle_row_def)

lemma find_update_lifecycle:
  assumes "\<And>l. fl_model_id (f l) = fl_model_id l \<and> fl_cycle_time (f l) = fl_cycle_time l"
  shows "find_lifecycle (update_lifecycle m c f db) m' c' =
    (if m' = m \<and> c' = c then map_option f (find_lifecycle db m c) else find_lifecycle db m' c')"
proof -
  let ?g = "\<lambda>l. if fl_model_id l = m \<and> ensure_utc (fl_cycle_time l) = c then f l else l"
  let ?P = "\<lambda>l. fl_model_id l = m' \<and> ensure_utc (fl_cycle_time l) = c'"
  have "find ?P (map ?g xs) = (if m' = m \<and> c' = c then map_option f (find ?P xs) else find ?P xs)" for xs
    using assms by (induction xs) auto
  then show ?thesis by (simp add: find_lifecycle_def update_lifecycle_def)
qed

text \<open>A claim that succeeds stamps one row and touches nothing else; any other outcome leaves the catalog.\<close>

lemma claim_cases:
  assumes "claim_fresh_candidate reg db m c start now = (r, db')"
  obtains (refused) "r \<noteq> Inr True" "db' = db"
  | (claimed) leads where "r = Inr True" "same_runs db db'" "db_queue db' = db_queue db"
      "mapE (\<lambda>v. model_max_lead_hours reg (norm_key m) (Some v) None) (cycle_versions db (norm_key m) c) = Inr leads"
      "leads \<noteq> []" "c + hours (Max (set leads)) < start"
      "\<And>m' c'. find_lifecycle db' m' c' = (if m' = norm_key m \<and> c' = c
         then Some \<lparr>fl_model_id = norm_key m, fl_cycle_time = fl_cycle_time (the (find_lifecycle (ensure_lifecycle_row db (norm_key m) c) (norm_key m) c)),
                fl_deletion_started_at = Some (utc_datetime now), fl_deleted_at = None\<rparr>
         else find_lifecycle db m' c')"
proof -
  let ?m = "norm_key m" and ?db1 = "ensure_lifecycle_row db (norm_key m) c"
  show thesis
  proof (cases "r = Inr True")
    case False
    then have "db' = db" using assms
      by (auto simp: claim_fresh_candidate_def Let_def split: option.splits if_splits sum.splits py_error.splits)
    with False show thesis by (rule refused)
  next
    case True
    obtain lc leads where lc: "find_lifecycle ?db1 ?m c = Some lc" "fl_deletion_started_at lc = None" "fl_deleted_at lc = None"
      "cycle_versions ?db1 ?m c \<noteq> []"
      "mapE (\<lambda>v. model_max_lead_hours reg ?m (Some v) None) (cycle_versions ?db1 ?m c) = Inr leads"
      "is_cycle_horizon_expired (utc_datetime c) (Max (set leads)) (utc_datetime start)"
      "db' = update_lifecycle ?m c (\<lambda>l. l\<lparr>fl_deletion_started_at := Some (utc_datetime now)\<rparr>) ?db1"
      using assms True
      by (auto simp: claim_fresh_candidate_def Let_def split: option.splits if_splits sum.splits py_error.splits)
    have v: "cycle_versions ?db1 ?m c = cycle_versions db ?m c" by (rule same_runs_cycle) simp
    have "fl_model_id lc = ?m" using lc(1) by (auto simp: find_lifecycle_def find_Some_iff)
    then have "find_lifecycle db' m' c' = (if m' = ?m \<and> c' = c
         then Some \<lparr>fl_model_id = ?m, fl_cycle_time = fl_cycle_time (the (find_lifecycle ?db1 ?m c)),
                fl_deletion_started_at = Some (utc_datetime now), fl_deleted_at = None\<rparr>
         else find_lifecycle db m' c')" for m' c'
      using lc(1-3) unfolding lc(7) by (subst find_update_lifecycle) (auto simp: find_ensure_lifecycle)
    moreover have "leads \<noteq> []" using lc(4,5) by (auto simp: mapE_Inr_iff)
    moreover have "same_runs db db'" "db_queue db' = db_queue db"
      unfolding lc(7) using same_runs_trans [of db ?db1] by simp_all
    ultimately show thesis using claimed True lc(5,6) by (simp add: v is_cycle_horizon_expired_def)
  qed
qed

subsection \<open>One candidate\<close>

definition expired_cycle :: "horizon_registry \<Rightarrow> instant \<Rightarrow> catalog \<Rightarrow> string \<Rightarrow> instant \<Rightarrow> bool" where
  "expired_cycle reg now db m c \<longleftrightarrow> (\<exists>start leads. model_serving_start_valid_time reg m (utc_datetime now) = Inr start \<and>
     mapE (\<lambda>v. model_max_lead_hours reg m (Some v) None) (cycle_versions db m c) = Inr leads \<and> leads \<noteq> [] \<and>
     c + hours (Max (set leads)) < start)"

text \<open>How one step may change the lifecycle row of its cycle: a claim only past the horizon, a tombstone only when the step
  finalised the cycle, and neither is ever taken back.\<close>

definition row_step :: "bool \<Rightarrow> bool \<Rightarrow> lifecycle_row option \<Rightarrow> lifecycle_row option \<Rightarrow> bool" where
  "row_step expired finalized old new \<longleftrightarrow>
     (\<forall>l'. new = Some l' \<and> fl_deletion_started_at l' \<noteq> None \<longrightarrow>
        expired \<or> (\<exists>l. old = Some l \<and> fl_deletion_started_at l = fl_deletion_started_at l')) \<and>
     (\<forall>l'. new = Some l' \<and> fl_deleted_at l' \<noteq> None \<longrightarrow>
        finalized \<or> (\<exists>l. old = Some l \<and> fl_deleted_at l = fl_deleted_at l')) \<and>
     (\<forall>l. old = Some l \<longrightarrow> (\<exists>l'. new = Some l' \<and>
        (fl_deletion_started_at l \<noteq> None \<longrightarrow> fl_deletion_started_at l' = fl_deletion_started_at l) \<and>
        (fl_deleted_at l \<noteq> None \<longrightarrow> fl_deleted_at l' \<noteq> None)))"

lemma row_step_refl [simp]: "row_step e f x x"
  by (simp add: row_step_def)

lemma row_step_trans:
  assumes xy: "row_step e f x y" and yz: "row_step e' f' y z"
  shows "row_step (e \<or> e') (f \<or> f') x z"
  unfolding row_step_def
proof (intro conjI allI impI)
  fix l' assume z: "z = Some l' \<and> fl_deletion_started_at l' \<noteq> None"
  then consider e' | l where "y = Some l" "fl_deletion_started_at l = fl_deletion_started_at l'"
    using yz unfolding row_step_def by blast
  then show "(e \<or> e') \<or> (\<exists>l. x = Some l \<and> fl_deletion_started_at l = fl_deletion_started_at l')"
    using xy z unfolding row_step_def by cases auto
next
  fix l' assume z: "z = Some l' \<and> fl_deleted_at l' \<noteq> None"
  then consider f' | l where "y = Some l" "fl_deleted_at l = fl_deleted_at l'"
    using yz unfolding row_step_def by blast
  then show "(f \<or> f') \<or> (\<exists>l. x = Some l \<and> fl_deleted_at l = fl_deleted_at l')"
    using xy z unfolding row_step_def by cases auto
next
  fix l assume "x = Some l"
  then obtain l1 where l1: "y = Some l1"
    "fl_deletion_started_at l \<noteq> None \<longrightarrow> fl_deletion_started_at l1 = fl_deletion_started_at l"
    "fl_deleted_at l \<noteq> None \<longrightarrow> fl_deleted_at l1 \<noteq> None"
    using xy unfolding row_step_def by blast
  then obtain l2 where "z = Some l2"
    "fl_deletion_started_at l1 \<noteq> None \<longrightarrow> fl_deletion_started_at l2 = fl_deletion_started_at l1"
    "fl_deleted_at l1 \<noteq> None \<longrightarrow> fl_deleted_at l2 \<noteq> None"
    using yz unfolding row_step_def by blast
  with l1 show "\<exists>l'. z = Some l' \<and>
      (fl_deletion_started_at l \<noteq> None \<longrightarrow> fl_deletion_started_at l' = fl_deletion_started_at l) \<and>
      (fl_deleted_at l \<noteq> None \<longrightarrow> fl_deleted_at l' \<noteq> None)"
    by (intro exI [of _ l2]) simp
qed

lemma finalize_effect:
  assumes "norm_key m = m" "db' = finalize_cycle_physical_and_queue db m c now"
  shows "same_runs db db'" "db_queue db' = map (\<lambda>q. if in_cycle m c q then close_row now q else q) (db_queue db)"
    "find_lifecycle db' m' c' = (if m' = m \<and> c' = c
       then map_option (\<lambda>l. l\<lparr>fl_deleted_at := Some (utc_datetime now)\<rparr>) (find_lifecycle (ensure_lifecycle_row db m c) m c)
       else find_lifecycle db m' c')"
proof -
  let ?db1 = "update_lifecycle m c (\<lambda>l. l\<lparr>fl_deleted_at := Some (utc_datetime now)\<rparr>) (ensure_lifecycle_row db m c)"
  have d: "db' = ?db1\<lparr>db_queue := map (\<lambda>q. if in_cycle m c q then close_row now q else q) (db_queue ?db1)\<rparr>"
    by (simp add: assms finalize_cycle_physical_and_queue_def Let_def)
  have "same_runs db ?db1" using same_runs_trans [of db "ensure_lifecycle_row db m c"] by simp
  then show "same_runs db db'" "db_queue db' = map (\<lambda>q. if in_cycle m c q then close_row now q else q) (db_queue db)"
    by (simp_all add: d same_runs_def)
  have "find_lifecycle db' m' c' = find_lifecycle ?db1 m' c'" by (simp add: d find_lifecycle_def)
  also have "\<dots> = (if m' = m \<and> c' = c
       then map_option (\<lambda>l. l\<lparr>fl_deleted_at := Some (utc_datetime now)\<rparr>) (find_lifecycle (ensure_lifecycle_row db m c) m c)
       else find_lifecycle (ensure_lifecycle_row db m c) m' c')" by (rule find_update_lifecycle) simp
  finally show "find_lifecycle db' m' c' = (if m' = m \<and> c' = c
       then map_option (\<lambda>l. l\<lparr>fl_deleted_at := Some (utc_datetime now)\<rparr>) (find_lifecycle (ensure_lifecycle_row db m c) m c)
       else find_lifecycle db m' c')"
    by (auto simp: find_ensure_lifecycle)
qed

lemma terminal_cong:
  assumes "same_runs db db'" "filter (\<lambda>q. pst_run_id (rq_target q) \<in> set (cycle_run_ids db (norm_key m) c)) (db_queue db') =
    filter (\<lambda>q. pst_run_id (rq_target q) \<in> set (cycle_run_ids db (norm_key m) c)) (db_queue db)"
  shows "cycle_reclamation_units_terminal cov db' m c = cycle_reclamation_units_terminal cov db m c"
  unfolding cycle_reclamation_units_terminal_def Let_def same_runs_cycle [OF assms(1)] same_runs_units [OF assms(1)]
    status_by_unit_def assms(2) ..

text \<open>The three phases of \<open>finalize_cycle_bookkeeping\<close> in terms of the catalog before the step\<close>

lemma finalize_bookkeeping_step:
  assumes "finalize_cycle_bookkeeping reg cov db m c rec start now = (r, db')" "norm_key m = m"
    and "model_serving_start_valid_time reg m (utc_datetime now) = Inr start"
  shows "same_runs db db' \<and>
    db_queue db' = (if r = Inr True then map (\<lambda>q. if in_cycle m c q then close_row now q else q) (db_queue db) else db_queue db) \<and>
    (r = Inr True \<longrightarrow> cycle_reclamation_units_terminal cov db m c = Inr True) \<and>
    (\<forall>m' c'. (m', c') \<noteq> (m, c) \<longrightarrow> find_lifecycle db' m' c' = find_lifecycle db m' c') \<and>
    row_step (\<not> rec \<and> expired_cycle reg now db m c) (r = Inr True) (find_lifecycle db m c) (find_lifecycle db' m c)"
proof -
  obtain claim db1 where cl: "(if rec then (Inr True, db) else claim_fresh_candidate reg db m c start now) = (claim, db1)" by fastforce
  have base: "same_runs db db1 \<and> db_queue db1 = db_queue db \<and>
      (\<forall>m' c'. (m', c') \<noteq> (m, c) \<longrightarrow> find_lifecycle db1 m' c' = find_lifecycle db m' c') \<and>
      row_step (\<not> rec \<and> expired_cycle reg now db m c) False (find_lifecycle db m c) (find_lifecycle db1 m c)"
  proof (cases rec)
    case False
    with cl have "claim_fresh_candidate reg db m c start now = (claim, db1)" by simp
    then show ?thesis
    proof (cases rule: claim_cases)
      case (claimed leads)
      have e: "expired_cycle reg now db m c" using claimed(4-6) assms(2,3) by (auto simp: expired_cycle_def)
      have "find_lifecycle db m c = None \<or> (\<exists>l. find_lifecycle db m c = Some l \<and> fl_deletion_started_at l = None \<and> fl_deleted_at l = None)"
        using \<open>claim_fresh_candidate reg db m c start now = (claim, db1)\<close> claimed(1) assms(2)
        by (auto simp: claim_fresh_candidate_def Let_def find_ensure_lifecycle split: option.splits if_splits)
      then have "row_step True False (find_lifecycle db m c) (find_lifecycle db1 m c)"
        using claimed(7) assms(2) by (auto simp: row_step_def)
      with claimed assms(2) e False show ?thesis by auto
    qed simp
  qed (use cl in simp)
  have queue_eq: "cycle_reclamation_units_terminal cov db1 m c = cycle_reclamation_units_terminal cov db m c"
    using base by (intro terminal_cong) simp_all
  show ?thesis
  proof (cases "r = Inr True")
    case False
    then have "db' = db1" using assms(1,2) cl by (auto simp: finalize_cycle_bookkeeping_def split: sum.splits bool.splits if_splits)
    with False base show ?thesis by simp
  next
    case True
    then have t: "cycle_reclamation_units_terminal cov db m c = Inr True" "db' = finalize_cycle_physical_and_queue db1 m c now"
      using assms(1,2) cl queue_eq by (auto simp: finalize_cycle_bookkeeping_def split: sum.splits bool.splits if_splits)
    note f = finalize_effect [OF assms(2) t(2)]
    have "row_step False True (find_lifecycle db1 m c) (find_lifecycle db' m c)"
      by (auto simp: f(3) find_ensure_lifecycle row_step_def)
    with base have "row_step (\<not> rec \<and> expired_cycle reg now db m c) True (find_lifecycle db m c) (find_lifecycle db' m c)"
      using row_step_trans [of _ False _ _ False True] by fastforce
    moreover have "same_runs db db'" using base f(1) same_runs_trans by blast
    ultimately show ?thesis using True t(1) base f(2,3) by auto
  qed
qed

lemma bookkeep_step:
  assumes "bookkeep_candidate reg cov now cand (res, db) = (res', db')" "norm_key (fc_model_id cand) = fc_model_id cand"
  defines "m \<equiv> fc_model_id cand" and "c \<equiv> fc_cycle_time cand"
  shows "same_runs db db' \<and>
    (\<exists>done. fr_finalized_cycles res' = fr_finalized_cycles res @ (if done then [(m, c)] else []) \<and>
    db_queue db' = (if done then map (\<lambda>q. if in_cycle m c q then close_row now q else q) (db_queue db) else db_queue db) \<and>
    (done \<longrightarrow> cycle_reclamation_units_terminal cov db m c = Inr True) \<and>
    (\<forall>m' c'. (m', c') \<noteq> (m, c) \<longrightarrow> find_lifecycle db' m' c' = find_lifecycle db m' c') \<and>
    row_step (expired_cycle reg now db m c) done (find_lifecycle db m c) (find_lifecycle db' m c))"
proof (cases "model_serving_start_valid_time reg m (utc_datetime now)")
  case (Inl e)
  then show ?thesis using assms(1) by (intro conjI exI [of _ False]) (auto simp: bookkeep_candidate_def m_def Let_def)
next
  case (Inr start)
  obtain r db1 where r: "finalize_cycle_bookkeeping reg cov db m c (fc_is_recovery cand) start now = (r, db1)" by fastforce
  have "db' = db1 \<and> fr_finalized_cycles res' = fr_finalized_cycles res @ (if r = Inr True then [(m, c)] else [])"
    using assms(1) r Inr by (auto simp: bookkeep_candidate_def m_def c_def Let_def split: sum.splits bool.splits)
  moreover note finalize_bookkeeping_step [OF r _ Inr]
  moreover have "norm_key m = m" using assms(2) by (simp add: m_def)
  moreover have "row_step (\<not> rec \<and> e) f x y \<Longrightarrow> row_step e f x y" for rec e f x y by (auto simp: row_step_def)
  ultimately show ?thesis by (intro conjI exI [of _ "r = Inr True"]) blast+
qed

subsection \<open>The pass\<close>

definition close_in :: "(string \<times> instant) set \<Rightarrow> instant \<Rightarrow> queue_row \<Rightarrow> queue_row" where
  "close_in ks now q = (if (pst_model_id (rq_target q), pst_cycle_time (rq_target q)) \<in> ks then close_row now q else q)"

lemma close_in_simps [simp]:
  "rq_target (close_in ks now q) = rq_target q" "rq_id (close_in ks now q) = rq_id q"
  "close_in {} now q = q" "rq_target (close_row now q) = rq_target q"
  "close_row now (close_row now q) = close_row now q" "rq_status (close_row now q) = RECLAMATION_STATUS_DELETED"
  by (simp_all add: close_in_def close_row_def)

lemma close_in_insert: "(if in_cycle m c (close_in ks now q) then close_row now (close_in ks now q) else close_in ks now q) =
    close_in (insert (m, c) ks) now q"
  by (auto simp: close_in_def in_cycle_def)

lemma expired_cycle_cong: "same_runs db db' \<Longrightarrow> expired_cycle reg now db' m c = expired_cycle reg now db m c"
  by (simp add: expired_cycle_def same_runs_cycle(3) [of db db'])

lemma bookkeep_fold:
  assumes "fold (bookkeep_candidate reg cov now) cs (res, db) = (res', db')"
    and "\<And>c. c \<in> set cs \<Longrightarrow> norm_key (fc_model_id c) = fc_model_id c"
  shows "same_runs db db' \<and> (\<exists>ks. fr_finalized_cycles res' = fr_finalized_cycles res @ ks \<and>
    db_queue db' = map (close_in (set ks) now) (db_queue db) \<and>
    (\<forall>m c. row_step (expired_cycle reg now db m c) ((m, c) \<in> set ks) (find_lifecycle db m c) (find_lifecycle db' m c)))"
  using assms
proof (induction cs arbitrary: res' db' rule: rev_induct)
  case Nil
  then show ?case by (intro conjI exI [of _ "[]"]) (simp_all add: map_idI)
next
  case (snoc cand cs)
  obtain res1 db1 where f: "fold (bookkeep_candidate reg cov now) cs (res, db) = (res1, db1)" by fastforce
  from snoc.IH [OF f] snoc.prems(2) obtain ks where ih: "same_runs db db1" "fr_finalized_cycles res1 = fr_finalized_cycles res @ ks"
    "db_queue db1 = map (close_in (set ks) now) (db_queue db)"
    "\<And>m c. row_step (expired_cycle reg now db m c) ((m, c) \<in> set ks) (find_lifecycle db m c) (find_lifecycle db1 m c)"
    by auto
  let ?m = "fc_model_id cand" and ?c = "fc_cycle_time cand"
  have step: "bookkeep_candidate reg cov now cand (res1, db1) = (res', db')" using snoc.prems(1) f by simp
  have "norm_key ?m = ?m" using snoc.prems(2) by simp
  from bookkeep_step [OF step this] obtain d where d: "same_runs db1 db'"
    "fr_finalized_cycles res' = fr_finalized_cycles res1 @ (if d then [(?m, ?c)] else [])"
    "db_queue db' = (if d then map (\<lambda>q. if in_cycle ?m ?c q then close_row now q else q) (db_queue db1) else db_queue db1)"
    "\<And>m' c'. (m', c') \<noteq> (?m, ?c) \<Longrightarrow> find_lifecycle db' m' c' = find_lifecycle db1 m' c'"
    "row_step (expired_cycle reg now db1 ?m ?c) d (find_lifecycle db1 ?m ?c) (find_lifecycle db' ?m ?c)"
    by blast
  let ?ks = "ks @ (if d then [(?m, ?c)] else [])"
  have "row_step (expired_cycle reg now db m c) ((m, c) \<in> set ?ks) (find_lifecycle db m c) (find_lifecycle db' m c)" for m c
  proof (cases "(m, c) = (?m, ?c)")
    case True
    then show ?thesis using row_step_trans [OF ih(4) d(5)] by (simp add: expired_cycle_cong [OF ih(1)])
  next
    case False
    then show ?thesis using ih(4) [of m c] d(4) [OF False] by auto
  qed
  moreover have "db_queue db' = map (close_in (set ?ks) now) (db_queue db)"
    by (simp add: d(3) ih(3) o_def close_in_insert)
  moreover have "same_runs db db'" using ih(1) d(1) by (rule same_runs_trans)
  ultimately show ?case using d(2) ih(2) by (intro conjI exI [of _ ?ks]) simp_all
qed

lemma candidates_normal:
  "discover_finalizer_candidates db models b = (rec, fresh) \<Longrightarrow> cand \<in> set (rec @ fresh) \<Longrightarrow> norm_key (fc_model_id cand) = fc_model_id cand"
  by (auto simp: discover_finalizer_candidates_def Let_def recovery_candidates_def fresh_candidates_def dest!: in_set_takeD)

lemma pass_effect:
  assumes "run_lifecycle_bookkeeping_pass reg cov models dry b now db = (res, db')"
  shows "same_runs db db'" "db_queue db' = map (close_in (set (fr_finalized_cycles res)) now) (db_queue db)"
    "row_step (expired_cycle reg now db m c) ((m, c) \<in> set (fr_finalized_cycles res)) (find_lifecycle db m c) (find_lifecycle db' m c)"
proof -
  obtain rec fresh where cands: "discover_finalizer_candidates db models b = (rec, fresh)" by fastforce
  let ?res = "\<lparr>fr_dry_run = dry, fr_evaluated_at = now, fr_recovery_candidates = rec, fr_fresh_candidates = fresh, fr_claimed_cycles = [],
    fr_finalized_cycles = [], fr_blocked_cycles = [], fr_failed_cycles = []\<rparr>"
  have "same_runs db db' \<and> db_queue db' = map (close_in (set (fr_finalized_cycles res)) now) (db_queue db) \<and>
    (\<forall>m c. row_step (expired_cycle reg now db m c) ((m, c) \<in> set (fr_finalized_cycles res)) (find_lifecycle db m c) (find_lifecycle db' m c))"
  proof (cases dry)
    case True
    then show ?thesis using assms cands by (auto simp: run_lifecycle_bookkeeping_pass_def Let_def map_idI)
  next
    case False
    then have "fold (bookkeep_candidate reg cov now) (rec @ fresh) (?res, db) = (res, db')"
      using assms cands by (simp add: run_lifecycle_bookkeeping_pass_def Let_def)
    from bookkeep_fold [OF this candidates_normal [OF cands]] show ?thesis by auto
  qed
  then show "same_runs db db'" "db_queue db' = map (close_in (set (fr_finalized_cycles res)) now) (db_queue db)"
    "row_step (expired_cycle reg now db m c) ((m, c) \<in> set (fr_finalized_cycles res)) (find_lifecycle db m c) (find_lifecycle db' m c)"
    by blast+
qed

lemma expired_cycle_leads:
  assumes "expired_cycle reg now db m c" "horizon_wf reg" "v \<in> set (cycle_versions db m c)"
    and "canonical_lead_time_hours reg m (Some v) None = Inr leads" "lead \<in> set leads"
  shows "\<exists>start. model_serving_start_valid_time reg m (utc_datetime now) = Inr start \<and> c + hours lead < start"
proof -
  obtain start ms where e: "model_serving_start_valid_time reg m (utc_datetime now) = Inr start"
    "mapE (\<lambda>v. model_max_lead_hours reg m (Some v) None) (cycle_versions db m c) = Inr ms"
    "c + hours (Max (set ms)) < start" using assms(1) by (auto simp: expired_cycle_def)
  from e(2) obtain x where x: "x \<in> set ms" "model_max_lead_hours reg m (Some v) None = Inr x"
    using assms(3) by (fastforce simp: mapE_Inr_iff list_all2_conv_all_nth in_set_conv_nth)
  have "x = last leads" using x(2) assms(4) by (auto simp: model_max_lead_eq)
  moreover have "lead \<le> last leads"
    using assms(5) valid_horizon_last canonical_lead_valid [OF assms(2,4)] by blast
  moreover have "x \<le> Max (set ms)" using x(1) by (intro Max_ge) simp_all
  ultimately have "lead \<le> Max (set ms)" by linarith
  then have "hours lead \<le> hours (Max (set ms))" by (intro mult_right_mono) (simp_all add: less_imp_le)
  then have "c + hours lead < start" using e(3) by linarith
  with e(1) show ?thesis by blast
qed

text \<open>C11: A bookkeeping pass claims a cycle only when it is over: whatever row says after the pass that a cycle is claimed, either
  said so before, at the same instant, or every lead of every version of the cycle's runs is valid before the serving
  window. And the pass drops no lifecycle row and takes nothing back: every row is still there, a claim with the instant it had,
  a tombstone as one.\<close>

theorem bookkeeping_claims_past_cycles:
  assumes "run_lifecycle_bookkeeping_pass reg cov models dry b now db = (res, db')" "horizon_wf reg"
  shows "(\<forall>l'. find_lifecycle db' m c = Some l' \<and> fl_deletion_started_at l' \<noteq> None \<longrightarrow>
      (\<exists>l. find_lifecycle db m c = Some l \<and> fl_deletion_started_at l = fl_deletion_started_at l') \<or>
      (cycle_versions db m c \<noteq> [] \<and>
       (\<forall>v \<in> set (cycle_versions db m c). \<forall>leads lead. canonical_lead_time_hours reg m (Some v) None = Inr leads \<and> lead \<in> set leads \<longrightarrow>
         (\<exists>start. model_serving_start_valid_time reg m (utc_datetime now) = Inr start \<and> c + hours lead < start)))) \<and>
    (\<forall>l. find_lifecycle db m c = Some l \<longrightarrow> (\<exists>l'. find_lifecycle db' m c = Some l' \<and>
      (fl_deletion_started_at l \<noteq> None \<longrightarrow> fl_deletion_started_at l' = fl_deletion_started_at l) \<and>
      (fl_deleted_at l \<noteq> None \<longrightarrow> fl_deleted_at l' \<noteq> None)))"
proof (intro conjI allI impI)
  note step = pass_effect(3) [OF assms(1), of m c, unfolded row_step_def]
  have over: "cycle_versions db m c \<noteq> []" if "expired_cycle reg now db m c"
    using that by (auto simp: expired_cycle_def)
  fix l' assume "find_lifecycle db' m c = Some l' \<and> fl_deletion_started_at l' \<noteq> None"
  with step have "expired_cycle reg now db m c \<or> (\<exists>l. find_lifecycle db m c = Some l \<and> fl_deletion_started_at l = fl_deletion_started_at l')"
    by blast
  then show "(\<exists>l. find_lifecycle db m c = Some l \<and> fl_deletion_started_at l = fl_deletion_started_at l') \<or>
    (cycle_versions db m c \<noteq> [] \<and>
     (\<forall>v \<in> set (cycle_versions db m c). \<forall>leads lead. canonical_lead_time_hours reg m (Some v) None = Inr leads \<and> lead \<in> set leads \<longrightarrow>
       (\<exists>start. model_serving_start_valid_time reg m (utc_datetime now) = Inr start \<and> c + hours lead < start)))"
    using expired_cycle_leads [OF _ assms(2)] over by blast
next
  note step = pass_effect(3) [OF assms(1), of m c, unfolded row_step_def]
  fix l assume "find_lifecycle db m c = Some l"
  with step show "\<exists>l'. find_lifecycle db' m c = Some l' \<and>
      (fl_deletion_started_at l \<noteq> None \<longrightarrow> fl_deletion_started_at l' = fl_deletion_started_at l) \<and>
      (fl_deleted_at l \<noteq> None \<longrightarrow> fl_deleted_at l' \<noteq> None)"
    by blast
qed

text \<open>A bookkeeping pass changes the lifecycle table and closes queue rows, nothing else: the detailed metadata stays, and a
  queue row is closed exactly when the cycle time it records is that of a cycle the pass finalised.\<close>

theorem bookkeeping_keeps_metadata:
  assumes "run_lifecycle_bookkeeping_pass reg cov models dry b now db = (res, db')"
  shows "db_versions db' = db_versions db \<and> db_runs db' = db_runs db \<and> db_products db' = db_products db \<and>
    db_member_products db' = db_member_products db \<and>
    db_queue db' = map (\<lambda>q. if (pst_model_id (rq_target q), pst_cycle_time (rq_target q)) \<in> set (fr_finalized_cycles res)
      then close_row now q else q) (db_queue db)"
  using pass_effect(1,2) [OF assms] by (simp add: same_runs_def close_in_def [abs_def])

subsection \<open>Tombstones\<close>

lemma in_cycle_run_ids:
  "r \<in> set (cycle_run_ids db m c) \<longleftrightarrow> (\<exists>x \<in> set (db_runs db). \<exists>v \<in> set (db_versions db). mr_id x = r \<and>
     mr_model_version_id x = mv_id v \<and> mv_model_id v = m \<and> ensure_utc (mr_cycle_time x) = c)"
  by (fastforce simp: cycle_run_ids_def cycle_rows_def image_iff)

lemma run_cycle_unique:
  assumes "distinct (map mr_id (db_runs db))" "distinct (map mv_id (db_versions db))"
    and "r \<in> set (cycle_run_ids db m c)" "r \<in> set (cycle_run_ids db m' c')"
  shows "m = m' \<and> c = c'"
proof -
  obtain x v x' v' where xv: "x \<in> set (db_runs db)" "v \<in> set (db_versions db)" "mr_id x = r" "mr_model_version_id x = mv_id v"
      "mv_model_id v = m" "ensure_utc (mr_cycle_time x) = c"
    "x' \<in> set (db_runs db)" "v' \<in> set (db_versions db)" "mr_id x' = r" "mr_model_version_id x' = mv_id v'"
      "mv_model_id v' = m'" "ensure_utc (mr_cycle_time x') = c'"
    using assms(3,4) unfolding in_cycle_run_ids by blast
  then have "x = x'" using inj_onD [OF distinct_map [THEN iffD1, THEN conjunct2, OF assms(1)]] by simp
  with xv have "v = v'" using inj_onD [OF distinct_map [THEN iffD1, THEN conjunct2, OF assms(2)]] by simp
  with xv \<open>x = x'\<close> show ?thesis by simp
qed

text \<open>When a pass first finalises a cycle, the terminal test held on the rows as the cycles it finalised before had left them.\<close>

lemma finalized_terminal:
  assumes "fold (bookkeep_candidate reg cov now) cs (res, db) = (res', db')"
    and "\<And>c. c \<in> set cs \<Longrightarrow> norm_key (fc_model_id c) = fc_model_id c" "fr_finalized_cycles res = []"
    and "(m, c) \<in> set (fr_finalized_cycles res')"
  shows "\<exists>db1 ks. same_runs db db1 \<and> db_queue db1 = map (close_in ks now) (db_queue db) \<and>
    ks \<subseteq> set (fr_finalized_cycles res') - {(m, c)} \<and> cycle_reclamation_units_terminal cov db1 m c = Inr True"
  using assms
proof (induction cs arbitrary: res' db' rule: rev_induct)
  case (snoc cand cs)
  obtain res1 db1 where f: "fold (bookkeep_candidate reg cov now) cs (res, db) = (res1, db1)" by fastforce
  from bookkeep_fold [OF f] snoc.prems(2,3) obtain ks where ks: "same_runs db db1"
    "fr_finalized_cycles res1 = ks" "db_queue db1 = map (close_in (set ks) now) (db_queue db)" by auto
  let ?m = "fc_model_id cand" and ?c = "fc_cycle_time cand"
  have step: "bookkeep_candidate reg cov now cand (res1, db1) = (res', db')" using snoc.prems(1) f by simp
  have n: "norm_key ?m = ?m" using snoc.prems(2) by simp
  from bookkeep_step [OF step n] obtain d where d: "fr_finalized_cycles res' = fr_finalized_cycles res1 @ (if d then [(?m, ?c)] else [])"
    "d \<longrightarrow> cycle_reclamation_units_terminal cov db1 ?m ?c = Inr True" by blast
  show ?case
  proof (cases "(m, c) \<in> set (fr_finalized_cycles res1)")
    case True
    from snoc.IH [OF f _ snoc.prems(3) True] snoc.prems(2) obtain db2 ks2 where
      "same_runs db db2" "db_queue db2 = map (close_in ks2 now) (db_queue db)" "ks2 \<subseteq> set (fr_finalized_cycles res1) - {(m, c)}"
      "cycle_reclamation_units_terminal cov db2 m c = Inr True" by auto
    moreover have "set (fr_finalized_cycles res1) \<subseteq> set (fr_finalized_cycles res')" by (simp add: d(1))
    ultimately show ?thesis by blast
  next
    case False
    then have "d" "m = ?m" "c = ?c" using d(1) snoc.prems(4) by (auto split: if_splits)
    with ks d False show ?thesis by (intro exI [of _ db1] exI [of _ "set ks"]) auto
  qed
qed simp

lemma finalized_model:
  assumes "fold (bookkeep_candidate reg cov now) cs (res, db) = (res', db')"
    and "\<And>c. c \<in> set cs \<Longrightarrow> norm_key (fc_model_id c) = fc_model_id c" "(m, c) \<in> set (fr_finalized_cycles res')"
  shows "(m, c) \<in> set (fr_finalized_cycles res) \<or> norm_key m = m"
  using assms
proof (induction cs arbitrary: res' db' rule: rev_induct)
  case (snoc cand cs)
  obtain res1 db1 where f: "fold (bookkeep_candidate reg cov now) cs (res, db) = (res1, db1)" by fastforce
  have step: "bookkeep_candidate reg cov now cand (res1, db1) = (res', db')" using snoc.prems(1) f by simp
  have n: "norm_key (fc_model_id cand) = fc_model_id cand" using snoc.prems(2) by simp
  from bookkeep_step [OF step n] obtain d where
    "fr_finalized_cycles res' = fr_finalized_cycles res1 @ (if d then [(fc_model_id cand, fc_cycle_time cand)] else [])" by blast
  then have "(m, c) \<in> set (fr_finalized_cycles res1) \<or> norm_key m = m" using snoc.prems(3) n by (auto split: if_splits)
  with snoc.IH [OF f] snoc.prems(2) show ?case by auto
qed simp

lemma terminal_units:
  assumes "cycle_reclamation_units_terminal cov db m c = Inr True" "norm_key m = m" "get_expected_members cov m (Some 1) = Inr n"
  shows "u \<in> enumerate_committed_unit_tuples db (cycle_run_ids db m c) (1 < n) \<Longrightarrow>
      \<exists>q \<in> set (db_queue db). target_tuple (rq_target q) = u \<and> rq_status q = RECLAMATION_STATUS_DELETED"
    and "distinct (map (target_tuple \<circ> rq_target) (db_queue db)) \<Longrightarrow> q \<in> set (db_queue db) \<Longrightarrow>
      pst_run_id (rq_target q) \<in> set (cycle_run_ids db m c) \<Longrightarrow> rq_status q \<notin> set NON_TERMINAL_QUEUE_STATUSES"
proof -
  let ?rs = "cycle_run_ids db m c"
  let ?rows = "filter (\<lambda>q. pst_run_id (rq_target q) \<in> set ?rs) (db_queue db)"
  have t: "?rs = [] \<or> (\<not> list_ex (\<lambda>u. the (status_by_unit db ?rs u) \<in> set NON_TERMINAL_QUEUE_STATUSES) (map (\<lambda>q. target_tuple (rq_target q)) ?rows) \<and>
      (\<forall>u \<in> enumerate_committed_unit_tuples db ?rs (1 < n). status_by_unit db ?rs u = Some RECLAMATION_STATUS_DELETED))"
    using assms by (auto simp: cycle_reclamation_units_terminal_def Let_def split: if_splits)
  show "\<exists>q \<in> set (db_queue db). target_tuple (rq_target q) = u \<and> rq_status q = RECLAMATION_STATUS_DELETED"
    if "u \<in> enumerate_committed_unit_tuples db ?rs (1 < n)"
  proof -
    have "?rs \<noteq> []" using that by (auto simp: enumerate_committed_unit_tuples_def)
    with t that have "status_by_unit db ?rs u = Some RECLAMATION_STATUS_DELETED" by blast
    then show ?thesis unfolding status_by_unit_def by (fastforce dest!: map_of_SomeD)
  qed
  show "rq_status q \<notin> set NON_TERMINAL_QUEUE_STATUSES"
    if "distinct (map (target_tuple \<circ> rq_target) (db_queue db))" "q \<in> set (db_queue db)" "pst_run_id (rq_target q) \<in> set ?rs"
  proof -
    let ?f = "\<lambda>q. (target_tuple (rq_target q), rq_status q)"
    have "distinct (map (target_tuple \<circ> rq_target) ?rows)" using that(1) by (rule distinct_map_filter)
    then have "distinct (map fst (rev (map ?f ?rows)))" by (simp add: o_def rev_map [symmetric] distinct_map)
    moreover have "?f q \<in> set (rev (map ?f ?rows))" using that(2,3) by auto
    ultimately have "status_by_unit db ?rs (target_tuple (rq_target q)) = Some (rq_status q)"
      unfolding status_by_unit_def by (intro map_of_is_SomeI) auto
    moreover have "?rs \<noteq> []" using that(3) by auto
    ultimately show ?thesis using t that(2,3) by (auto simp: list_ex_iff)
  qed
qed

text \<open>C10: A pass finalises only cycles that are reclaimed: each committed unit of a finalised cycle has a queue row that was in
  status deleted before the pass, and none of the rows of the cycle's runs was still pending. The one way around it is a row that
  records another cycle than that of its run: it counts as deleted once the same pass has finalised the cycle it records. (The
  queue holds one row of a unit, a unique constraint of its table.)\<close>

theorem tombstone_follows_reclamation:
  assumes "run_lifecycle_bookkeeping_pass reg cov models dry b now db = (res, db')"
    and "distinct (map (target_tuple \<circ> rq_target) (db_queue db))"
    and "(m, c) \<in> set (fr_finalized_cycles res)" "get_expected_members cov m (Some 1) = Inr n"
  shows "(\<forall>u \<in> enumerate_committed_unit_tuples db (cycle_run_ids db m c) (1 < n).
      \<exists>q \<in> set (db_queue db). target_tuple (rq_target q) = u \<and> (rq_status q = RECLAMATION_STATUS_DELETED \<or>
        (pst_model_id (rq_target q), pst_cycle_time (rq_target q)) \<in> set (fr_finalized_cycles res) - {(m, c)})) \<and>
    (\<forall>q \<in> set (db_queue db). pst_run_id (rq_target q) \<in> set (cycle_run_ids db m c) \<longrightarrow>
      rq_status q \<notin> {RECLAMATION_STATUS_QUEUED, RECLAMATION_STATUS_DELETING, RECLAMATION_STATUS_FAILED} \<or>
      (pst_model_id (rq_target q), pst_cycle_time (rq_target q)) \<in> set (fr_finalized_cycles res) - {(m, c)})"
proof -
  obtain rec fresh where cands: "discover_finalizer_candidates db models b = (rec, fresh)" by fastforce
  let ?res = "\<lparr>fr_dry_run = dry, fr_evaluated_at = now, fr_recovery_candidates = rec, fr_fresh_candidates = fresh, fr_claimed_cycles = [],
    fr_finalized_cycles = [], fr_blocked_cycles = [], fr_failed_cycles = []\<rparr>"
  have "\<not> dry" using assms(1,3) cands by (auto simp: run_lifecycle_bookkeeping_pass_def Let_def)
  then have f: "fold (bookkeep_candidate reg cov now) (rec @ fresh) (?res, db) = (res, db')"
    using assms(1) cands by (simp add: run_lifecycle_bookkeeping_pass_def Let_def)
  obtain db1 ks where t: "same_runs db db1" "db_queue db1 = map (close_in ks now) (db_queue db)"
    "ks \<subseteq> set (fr_finalized_cycles res) - {(m, c)}" "cycle_reclamation_units_terminal cov db1 m c = Inr True"
    using finalized_terminal [OF f candidates_normal [OF cands] _ assms(3)] by auto
  have n: "norm_key m = m" using finalized_model [OF f candidates_normal [OF cands] assms(3)] by simp
  have d: "distinct (map (target_tuple \<circ> rq_target) (db_queue db1))" using assms(2) by (simp add: t(2) o_def)
  note units = terminal_units [OF t(4) n assms(4), unfolded same_runs_cycle [OF t(1)] same_runs_units [OF t(1)] t(2) set_map]
  have closed: "close_in ks now q = q" if "(pst_model_id (rq_target q), pst_cycle_time (rq_target q)) \<notin> set (fr_finalized_cycles res) - {(m, c)}" for q
    using that t(3) by (auto simp: close_in_def)
  show ?thesis
  proof (intro conjI ballI impI)
    fix u assume "u \<in> enumerate_committed_unit_tuples db (cycle_run_ids db m c) (1 < n)"
    from units(1) [OF this] obtain q where "q \<in> set (db_queue db)" "target_tuple (rq_target q) = u"
      "rq_status (close_in ks now q) = RECLAMATION_STATUS_DELETED" by auto
    with closed [of q] show "\<exists>q \<in> set (db_queue db). target_tuple (rq_target q) = u \<and> (rq_status q = RECLAMATION_STATUS_DELETED \<or>
        (pst_model_id (rq_target q), pst_cycle_time (rq_target q)) \<in> set (fr_finalized_cycles res) - {(m, c)})" by metis
  next
    fix q assume "q \<in> set (db_queue db)" "pst_run_id (rq_target q) \<in> set (cycle_run_ids db m c)"
    then have "rq_status (close_in ks now q) \<notin> set NON_TERMINAL_QUEUE_STATUSES"
      using units(2) [OF d [unfolded t(2)], of "close_in ks now q"] by simp
    then show "rq_status q \<notin> {RECLAMATION_STATUS_QUEUED, RECLAMATION_STATUS_DELETING, RECLAMATION_STATUS_FAILED} \<or>
      (pst_model_id (rq_target q), pst_cycle_time (rq_target q)) \<in> set (fr_finalized_cycles res) - {(m, c)}"
      using closed [of q] by (auto simp: NON_TERMINAL_QUEUE_STATUSES_def)
  qed
qed

end
