(* ===== verification/GcSweeper.thy ===== *)
theory GcSweeper
  imports GcFinalizer GcPass
begin

text \<open>
  The retention sweeper, \<open>gc/sweeper.py\<close>, which removes the detailed metadata of cycles tombstoned long enough ago, and the
  orphan inventory, \<open>gc/inventory.py\<close>, which compares the stores on disk with the catalog and deletes those it calls orphans.
  The state is the catalog with the table of ensemble members; what the storage lists, removes and locks is a parameter.
\<close>

subsection \<open>The sweeper\<close>

record ensemble_member_row =
  er_run_id :: string
  er_member_index :: int

record retention_db =
  rd_catalog :: catalog
  rd_members :: "ensemble_member_row list"

definition DEFAULT_SWEEPER_BATCH_SIZE :: int where "DEFAULT_SWEEPER_BATCH_SIZE = 50"

definition normalize_batch_size :: "int option \<Rightarrow> int result" where
  "normalize_batch_size batch_size = (case batch_size of None \<Rightarrow> Inr DEFAULT_SWEEPER_BATCH_SIZE
     | Some b \<Rightarrow> if b \<le> 0 then Inl (ValueError ''batch_size must be a positive integer'') else Inr b)"

record sweeper_candidate =
  sc_model_id :: string
  sc_cycle_time :: instant
  sc_deleted_at :: instant

text \<open>The lifecycle rows that qualify, with the existence test on the runs of the cycle\<close>

definition sweepable :: "catalog \<Rightarrow> instant \<Rightarrow> string list option \<Rightarrow> lifecycle_row \<Rightarrow> bool" where
  "sweepable db cutoff models l \<longleftrightarrow>
     (case fl_deleted_at l of None \<Rightarrow> False | Some d \<Rightarrow> ensure_utc d \<le> cutoff) \<and>
     cycle_rows db (fl_model_id l) (ensure_utc (fl_cycle_time l)) \<noteq> [] \<and>
     (case models of None \<Rightarrow> True | Some ms \<Rightarrow> fl_model_id l \<in> set (map norm_key ms))"

definition discover_sweeper_candidates ::
    "catalog \<Rightarrow> instant \<Rightarrow> string list option \<Rightarrow> nat \<Rightarrow> sweeper_candidate list" where
  "discover_sweeper_candidates db cutoff models batch_size =
     map (\<lambda>l. \<lparr>sc_model_id = fl_model_id l, sc_cycle_time = ensure_utc (fl_cycle_time l),
               sc_deleted_at = ensure_utc (the (fl_deleted_at l))\<rparr>)
       (take batch_size (sort_key (\<lambda>l. (ensure_utc (the (fl_deleted_at l)), fl_model_id l, ensure_utc (fl_cycle_time l)))
          (filter (sweepable db cutoff models) (db_lifecycle db))))"

record cycle_purge_result =
  cp_success :: bool
  cp_model_runs_deleted :: nat
  cp_forecast_products_deleted :: nat
  cp_ensemble_members_deleted :: nat
  cp_ensemble_member_products_deleted :: nat
  cp_reclamation_queue_deleted :: nat

text \<open>The transaction, child tables first. The parameter tells for which cycles the database fails; the session rolls back then.\<close>

definition purge_cycle_metadata ::
    "(string \<times> instant \<Rightarrow> bool) \<Rightarrow> string \<Rightarrow> instant \<Rightarrow> retention_db \<Rightarrow> cycle_purge_result \<times> retention_db" where
  "purge_cycle_metadata db_fails model_id c_utc rd =
     (let m_id = norm_key model_id; db = rd_catalog rd; run_ids = cycle_run_ids db m_id c_utc;
          queue_gone = (\<lambda>q. pst_run_id (rq_target q) \<in> set run_ids \<or> in_cycle m_id c_utc q);
          emp_gone = (\<lambda>e. em_run_id e \<in> set run_ids);
          em_gone = (\<lambda>e. er_run_id e \<in> set run_ids);
          prod_gone = (\<lambda>p. pr_run_id p \<in> set run_ids);
          run_gone = (\<lambda>r. mr_id r \<in> set run_ids)
      in if db_fails (m_id, c_utc)
         then (\<lparr>cp_success = False, cp_model_runs_deleted = 0, cp_forecast_products_deleted = 0, cp_ensemble_members_deleted = 0,
                cp_ensemble_member_products_deleted = 0, cp_reclamation_queue_deleted = 0\<rparr>, rd)
         else (\<lparr>cp_success = True, cp_model_runs_deleted = length (filter run_gone (db_runs db)),
                cp_forecast_products_deleted = length (filter prod_gone (db_products db)),
                cp_ensemble_members_deleted = length (filter em_gone (rd_members rd)),
                cp_ensemble_member_products_deleted = length (filter emp_gone (db_member_products db)),
                cp_reclamation_queue_deleted = length (filter queue_gone (db_queue db))\<rparr>,
               \<lparr>rd_catalog = db\<lparr>db_queue := filter (Not \<circ> queue_gone) (db_queue db),
                   db_member_products := filter (Not \<circ> emp_gone) (db_member_products db),
                   db_products := filter (Not \<circ> prod_gone) (db_products db),
                   db_runs := filter (Not \<circ> run_gone) (db_runs db)\<rparr>,
                rd_members = filter (Not \<circ> em_gone) (rd_members rd)\<rparr>))"

record sweeper_pass_result =
  sp_dry_run :: bool
  sp_evaluated_at :: instant
  sp_cutoff :: instant
  sp_candidates :: "sweeper_candidate list"
  sp_swept_cycles :: "(string \<times> instant) list"
  sp_failed_cycles :: "(string \<times> instant) list"
  sp_total_model_runs_deleted :: nat

definition sweep_candidate ::
    "(string \<times> instant \<Rightarrow> bool) \<Rightarrow> sweeper_candidate \<Rightarrow> sweeper_pass_result \<times> retention_db
     \<Rightarrow> sweeper_pass_result \<times> retention_db" where
  "sweep_candidate db_fails cand = (\<lambda>(res, rd).
     let key = (sc_model_id cand, sc_cycle_time cand) in
     case purge_cycle_metadata db_fails (sc_model_id cand) (sc_cycle_time cand) rd of (p, rd1) \<Rightarrow>
       if cp_success p
       then (res\<lparr>sp_swept_cycles := sp_swept_cycles res @ [key],
                 sp_total_model_runs_deleted := sp_total_model_runs_deleted res + cp_model_runs_deleted p\<rparr>, rd1)
       else (res\<lparr>sp_failed_cycles := sp_failed_cycles res @ [key]\<rparr>, rd1))"

definition run_metadata_sweeper_pass ::
    "(string \<times> instant \<Rightarrow> bool) \<Rightarrow> string list option \<Rightarrow> bool \<Rightarrow> int option \<Rightarrow> instant \<Rightarrow> instant option \<Rightarrow> int option
     \<Rightarrow> retention_db \<Rightarrow> (sweeper_pass_result \<times> retention_db) result" where
  "run_metadata_sweeper_pass db_fails models dry_run batch_size now_utc cutoff retention_days rd =
     (let effective_days = (case retention_days of Some d \<Rightarrow> d | None \<Rightarrow> METADATA_RETENTION_DAYS);
          effective_cutoff = (case cutoff of Some c \<Rightarrow> c | None \<Rightarrow> now_utc - days effective_days)
      in bindE (normalize_batch_size batch_size) (\<lambda>b.
        let candidates = discover_sweeper_candidates (rd_catalog rd) effective_cutoff models (nat b);
            res = \<lparr>sp_dry_run = dry_run, sp_evaluated_at = now_utc, sp_cutoff = effective_cutoff, sp_candidates = candidates,
                   sp_swept_cycles = [], sp_failed_cycles = [], sp_total_model_runs_deleted = 0\<rparr>
        in Inr (if dry_run then (res, rd) else fold (sweep_candidate db_fails) candidates (res, rd))))"

subsection \<open>The stores on disk\<close>

text \<open>The inverse of \<open>civil_of_days\<close>: days since 1970-01-01\<close>

definition days_of_civil :: "int \<Rightarrow> int \<Rightarrow> int \<Rightarrow> int" where
  "days_of_civil y0 m d =
     (let y = (if m \<le> 2 then y0 - 1 else y0); era = y div 400; yoe = y - era * 400;
          doy = (153 * (if m > 2 then m - 3 else m + 9) + 2) div 5 + d - 1;
          doe = yoe * 365 + yoe div 4 - yoe div 100 + doy
      in era * 146097 + doe - 719468)"

definition all_digits :: "nat \<Rightarrow> string \<Rightarrow> bool" where
  "all_digits n s \<longleftrightarrow> length s = n \<and> set s \<subseteq> set digit_chars"

text \<open>\<open>datetime.fromisoformat(f"{date}T{hour}:00:00+00:00")\<close> on strings of the shape the pattern admits\<close>

definition cycle_time_of :: "string \<Rightarrow> string \<Rightarrow> instant option" where
  "cycle_time_of date hour = (case (map parse_int (py_split (CHR ''-'') date), parse_int hour) of
     ([Some y, Some m, Some d], Some h) \<Rightarrow>
       let t = days_of_civil y m d * us_per_day in
       if 1 \<le> y \<and> 1 \<le> m \<and> m \<le> 12 \<and> date_str t = date \<and> h < 24 then Some (t + hours h) else None
   | _ \<Rightarrow> None)"

definition date_shape :: "string \<Rightarrow> bool" where
  "date_shape date \<longleftrightarrow> (case py_split (CHR ''-'') date of
     [y, m, d] \<Rightarrow> all_digits 4 y \<and> all_digits 2 m \<and> all_digits 2 d | _ \<Rightarrow> False)"

text \<open>\<open>_CYCLE_STORE_RE\<close>, on a path without line breaks: the last four components\<close>

definition match_cycle_store :: "string \<Rightarrow> (string \<times> string \<times> string) option" where
  "match_cycle_store path = (case rev (py_split (CHR ''/'') path) of
     name # hour # date # model # r # rest \<Rightarrow>
       if name = ''cycle.zarr'' \<and> all_digits 2 hour \<and> date_shape date \<and> model \<noteq> [] then Some (model, date, hour) else None
   | _ \<Rightarrow> None)"

text \<open>The loop over the paths that the storage lists under the root\<close>

definition physical_cycle_store :: "string \<Rightarrow> string \<Rightarrow> (string \<times> instant \<times> string) option" where
  "physical_cycle_store store_root raw =
     (let path = map (\<lambda>c. if c = CHR 0x5C then CHR ''/'' else c) raw in
      case match_cycle_store path of None \<Rightarrow> None
      | Some (model, date, hour) \<Rightarrow> (case cycle_time_of date hour of None \<Rightarrow> None
        | Some t \<Rightarrow> Some (norm_key model, t,
            if startswith store_root ''s3://'' \<and> \<not> startswith path ''s3://'' then ''s3://'' @ path else path)))"

definition list_physical_cycle_stores :: "(string \<Rightarrow> string list) \<Rightarrow> string \<Rightarrow> (string \<times> instant \<times> string) list" where
  "list_physical_cycle_stores listing store_root = somes (map (physical_cycle_store store_root) (listing store_root))"

subsection \<open>Orphans\<close>

record orphan_store =
  os_model_id :: string
  os_cycle_time :: instant
  os_store_path :: string
  os_beyond_frontier :: bool

definition cataloged_cycles :: "catalog \<Rightarrow> (string \<times> instant) list" where
  "cataloged_cycles db = remdups (map (\<lambda>(m, c). (norm_key m, c)) (run_cycles db))"

definition classify_store :: "horizon_registry \<Rightarrow> instant \<Rightarrow> instant \<Rightarrow> string \<times> instant \<times> string \<Rightarrow> orphan_store result" where
  "classify_store reg now_utc serving_start = (\<lambda>(model, cycle_time, store_path).
     bindE (case model_max_lead_hours reg model None None of Inl (ValueError msg) \<Rightarrow> Inr 240 | r \<Rightarrow> r) (\<lambda>max_lead.
     bindE (case model_serving_start_valid_time reg model (utc_datetime now_utc) of
              Inl (ValueError msg) \<Rightarrow> Inr serving_start | r \<Rightarrow> r) (\<lambda>start.
       Inr \<lparr>os_model_id = model, os_cycle_time = cycle_time, os_store_path = store_path,
            os_beyond_frontier = is_cycle_horizon_expired (utc_datetime cycle_time) max_lead (utc_datetime start)\<rparr>)))"

definition discover_orphan_cycles ::
    "horizon_registry \<Rightarrow> catalog \<Rightarrow> (string \<times> instant \<times> string) list \<Rightarrow> instant \<Rightarrow> (orphan_store list \<times> nat) result" where
  "discover_orphan_cycles reg db store_cycles now_utc =
     bindE (serving_start_valid_time (utc_datetime now_utc) CANONICAL_LEAD_CADENCE_HOURS) (\<lambda>serving_start.
     bindE (mapE (classify_store reg now_utc serving_start)
              (filter (\<lambda>(m, c, p). (m, c) \<notin> set (cataloged_cycles db)) (rev (remdups (rev store_cycles)))))
       (\<lambda>orphans. Inr (orphans, length (cataloged_cycles db))))"

text \<open>What the reaper meets: the outcome of the store gate, what an attempted removal leaves, and whether the database is PostgreSQL\<close>

record reap_env =
  re_gate :: "string \<Rightarrow> unit result"
  re_remove :: "(object_id \<Rightarrow> bool) \<Rightarrow> object_id set \<Rightarrow> object_id set"
  re_postgresql :: bool

definition under_prefix :: "string \<Rightarrow> string \<Rightarrow> bool" where
  "under_prefix base p \<longleftrightarrow> p = base \<or> startswith p (base @ ''/'')"

definition in_store :: "string \<Rightarrow> object_id \<Rightarrow> bool" where
  "in_store store_path x = (case x of
     S3Object k \<Rightarrow> startswith store_path ''s3://'' \<and> under_prefix (py_rstrip_char (CHR ''/'') (drop 5 store_path)) k
   | LocalFile p \<Rightarrow> \<not> startswith store_path ''s3://'' \<and> under_prefix store_path p)"

definition reap_orphan_store ::
    "reap_env \<Rightarrow> catalog \<Rightarrow> orphan_store \<Rightarrow> object_id set \<Rightarrow> bool result \<times> object_id set" where
  "reap_orphan_store env db orphan objs =
     (if find_lifecycle db (os_model_id orphan) (os_cycle_time orphan) \<noteq> None then (Inr False, objs)
      else if cycle_rows db (os_model_id orphan) (os_cycle_time orphan) \<noteq> [] then (Inr False, objs)
      else let removed = re_remove env (in_store (os_store_path orphan)) objs in
        if \<not> re_postgresql env then (Inr True, removed)
        else (case re_gate env (os_store_path orphan) of
            Inl e \<Rightarrow> if e = DomainError ''LockTimeoutError'' ''timed out'' then (Inr False, objs) else (Inl e, objs)
          | Inr u \<Rightarrow> (Inr True, removed)))"

record inventory_result =
  ir_evaluated_at :: instant
  ir_cataloged_cycles :: nat
  ir_discovered_stores :: nat
  ir_orphan_stores :: "orphan_store list"
  ir_reaped_stores :: "string list"
  ir_reap_blocked :: "string list"

fun reap_all ::
    "reap_env \<Rightarrow> catalog \<Rightarrow> orphan_store list \<Rightarrow> object_id set \<Rightarrow> string list \<times> string list \<times> object_id set" where
  "reap_all env db [] objs = ([], [], objs)"
| "reap_all env db (o1 # os) objs =
     (if \<not> os_beyond_frontier o1 then reap_all env db os objs
      else (case reap_orphan_store env db o1 objs of (res, objs1) \<Rightarrow>
        (case reap_all env db os objs1 of (reaped, blocked, objs2) \<Rightarrow>
           if res = Inr True then (os_store_path o1 # reaped, blocked, objs2)
           else (reaped, os_store_path o1 # blocked, objs2))))"

definition run_orphan_inventory ::
    "reap_env \<Rightarrow> horizon_registry \<Rightarrow> (string \<Rightarrow> string list) \<Rightarrow> string \<Rightarrow> bool \<Rightarrow> instant \<Rightarrow> catalog \<Rightarrow> object_id set
     \<Rightarrow> (inventory_result \<times> object_id set) result" where
  "run_orphan_inventory env reg listing store_root reap now_utc db objs =
     (let store_cycles = list_physical_cycle_stores listing store_root in
      bindE (discover_orphan_cycles reg db store_cycles now_utc) (\<lambda>(orphans, cataloged).
        case (if reap then reap_all env db orphans objs else ([], [], objs)) of (reaped, blocked, objs') \<Rightarrow>
          Inr (\<lparr>ir_evaluated_at = now_utc, ir_cataloged_cycles = cataloged,
                ir_discovered_stores = card (set (map (\<lambda>(m, c, p). (m, c)) store_cycles)),
                ir_orphan_stores = orphans, ir_reaped_stores = reaped, ir_reap_blocked = blocked\<rparr>, objs')))"

subsection \<open>What one purge leaves\<close>

text \<open>Unique identifiers, as the primary keys of the tables demand, and normalised model names in the lifecycle table\<close>

definition keys_ok :: "catalog \<Rightarrow> bool" where
  "keys_ok db \<longleftrightarrow> distinct (map mr_id (db_runs db)) \<and> distinct (map mv_id (db_versions db)) \<and>
     distinct (map (\<lambda>l. (fl_model_id l, ensure_utc (fl_cycle_time l))) (db_lifecycle db)) \<and>
     (\<forall>l \<in> set (db_lifecycle db). norm_key (fl_model_id l) = fl_model_id l)"

text \<open>Every child row refers to a run that exists.\<close>

definition references_ok :: "retention_db \<Rightarrow> bool" where
  "references_ok rd \<longleftrightarrow> (let ids = mr_id ` set (db_runs (rd_catalog rd)) in
     (\<forall>q \<in> set (db_queue (rd_catalog rd)). pst_run_id (rq_target q) \<in> ids) \<and>
     (\<forall>e \<in> set (db_member_products (rd_catalog rd)). em_run_id e \<in> ids) \<and>
     (\<forall>e \<in> set (rd_members rd). er_run_id e \<in> ids) \<and>
     (\<forall>p \<in> set (db_products (rd_catalog rd)). pr_run_id p \<in> ids))"

lemma purge_effect:
  assumes "purge_cycle_metadata db_fails m c rd = (p, rd')"
  shows "db_versions (rd_catalog rd') = db_versions (rd_catalog rd) \<and> db_lifecycle (rd_catalog rd') = db_lifecycle (rd_catalog rd) \<and>
    (cp_success p \<longrightarrow> db_runs (rd_catalog rd') =
       filter (\<lambda>r. mr_id r \<notin> set (cycle_run_ids (rd_catalog rd) (norm_key m) c)) (db_runs (rd_catalog rd))) \<and>
    (\<not> cp_success p \<longrightarrow> rd' = rd) \<and> (cp_success p \<longleftrightarrow> \<not> db_fails (norm_key m, c))"
  using assms by (auto simp: purge_cycle_metadata_def Let_def o_def split: if_splits)

lemma purge_keeps_references:
  assumes "purge_cycle_metadata db_fails m c rd = (p, rd')" "references_ok rd"
  shows "references_ok rd'"
proof -
  have ids: "mr_id ` {r \<in> A. mr_id r \<notin> G} = mr_id ` A - G" for A G by auto
  show ?thesis
  proof (cases "db_fails (norm_key m, c)")
    case False
    let ?G = "set (cycle_run_ids (rd_catalog rd) (norm_key m) c)"
    have "rd' = snd (purge_cycle_metadata db_fails m c rd)" by (simp add: assms(1))
    then have "db_runs (rd_catalog rd') = filter (\<lambda>r. mr_id r \<notin> ?G) (db_runs (rd_catalog rd))"
      "set (db_queue (rd_catalog rd')) \<subseteq> {q \<in> set (db_queue (rd_catalog rd)). pst_run_id (rq_target q) \<notin> ?G}"
      "set (db_member_products (rd_catalog rd')) = {e \<in> set (db_member_products (rd_catalog rd)). em_run_id e \<notin> ?G}"
      "set (rd_members rd') = {e \<in> set (rd_members rd). er_run_id e \<notin> ?G}"
      "set (db_products (rd_catalog rd')) = {p \<in> set (db_products (rd_catalog rd)). pr_run_id p \<notin> ?G}"
      using False by (auto simp: purge_cycle_metadata_def Let_def o_def)
    with assms(2) show ?thesis unfolding references_ok_def Let_def by (simp add: ids subset_iff)
  qed (use assms in \<open>simp add: purge_cycle_metadata_def Let_def\<close>)
qed

lemma purge_keeps_keys:
  assumes "purge_cycle_metadata db_fails m c rd = (p, rd')" "keys_ok (rd_catalog rd)"
  shows "keys_ok (rd_catalog rd')"
  using purge_effect [OF assms(1)] assms(2) by (cases "cp_success p") (auto simp: keys_ok_def distinct_map_filter)

text \<open>A purge empties its cycle and leaves the runs of every other cycle.\<close>

lemma purge_cycle_rows:
  assumes "purge_cycle_metadata db_fails m c rd = (p, rd')" "keys_ok (rd_catalog rd)" "cp_success p"
  shows "cycle_rows (rd_catalog rd') m' c' = (if (m', c') = (norm_key m, c) then [] else cycle_rows (rd_catalog rd) m' c')"
proof -
  let ?db = "rd_catalog rd" and ?db' = "rd_catalog rd'"
  let ?gone = "set (cycle_run_ids ?db (norm_key m) c)"
  let ?row = "\<lambda>r. map (\<lambda>v. (r, v)) (filter (\<lambda>v. mr_model_version_id r = mv_id v \<and> mv_model_id v = m' \<and>
      ensure_utc (mr_cycle_time r) = c') (db_versions ?db))"
  have eff: "db_versions ?db' = db_versions ?db" "db_runs ?db' = filter (\<lambda>r. mr_id r \<notin> ?gone) (db_runs ?db)"
    using purge_effect [OF assms(1)] assms(3) by simp_all
  then have rows: "cycle_rows ?db' m' c' = concat (map ?row (filter (\<lambda>r. mr_id r \<notin> ?gone) (db_runs ?db)))"
    by (simp add: cycle_rows_def)
  have drop: "concat (map ?row (filter P rs)) = concat (map ?row rs)" if "\<And>r. r \<in> set rs \<Longrightarrow> \<not> P r \<Longrightarrow> ?row r = []" for P rs
    using that by (induction rs) auto
  show ?thesis
  proof (cases "(m', c') = (norm_key m, c)")
    case True
    have "?row r = []" if "r \<in> set (db_runs ?db)" "mr_id r \<notin> ?gone" for r
      using that True by (fastforce simp: in_cycle_run_ids filter_empty_conv)
    then show ?thesis using True unfolding rows by auto
  next
    case False
    have "?row r = []" if r: "r \<in> set (db_runs ?db)" "\<not> mr_id r \<notin> ?gone" for r
    proof (rule ccontr)
      assume "?row r \<noteq> []"
      then have "mr_id r \<in> set (cycle_run_ids ?db m' c')" using r(1) by (auto simp: in_cycle_run_ids filter_empty_conv)
      then have "m' = norm_key m \<and> c' = c"
        using run_cycle_unique [of ?db "mr_id r"] r(2) assms(2) by (simp add: keys_ok_def)
      with False show False by simp
    qed
    then show ?thesis using False unfolding rows by (subst drop) (auto simp: cycle_rows_def)
  qed
qed

lemma purge_sweepable:
  assumes "purge_cycle_metadata db_fails m c rd = (p, rd')" "keys_ok (rd_catalog rd)" "cp_success p" "norm_key m = m"
  shows "sweepable (rd_catalog rd') cutoff models l \<longleftrightarrow>
    sweepable (rd_catalog rd) cutoff models l \<and> (fl_model_id l, ensure_utc (fl_cycle_time l)) \<noteq> (m, c)"
  by (simp only: sweepable_def purge_cycle_rows [OF assms(1-3)] assms(4)) auto

subsection \<open>What a pass leaves\<close>

abbreviation cand_key :: "sweeper_candidate \<Rightarrow> string \<times> instant" where
  "cand_key c \<equiv> (sc_model_id c, sc_cycle_time c)"

lemma sweep_fold:
  assumes "fold (sweep_candidate db_fails) cs (res, rd) = (res', rd')" "keys_ok (rd_catalog rd)"
    and "\<And>c. c \<in> set cs \<Longrightarrow> norm_key (sc_model_id c) = sc_model_id c"
  shows "keys_ok (rd_catalog rd') \<and> (references_ok rd \<longrightarrow> references_ok rd') \<and>
    db_lifecycle (rd_catalog rd') = db_lifecycle (rd_catalog rd) \<and>
    sp_cutoff res' = sp_cutoff res \<and>
    sp_swept_cycles res' = sp_swept_cycles res @ filter (\<lambda>k. \<not> db_fails k) (map cand_key cs) \<and>
    (\<forall>m c. cycle_rows (rd_catalog rd') m c =
       (if (m, c) \<in> set (filter (\<lambda>k. \<not> db_fails k) (map cand_key cs)) then [] else cycle_rows (rd_catalog rd) m c)) \<and>
    (\<forall>r \<in> set (db_runs (rd_catalog rd)). r \<in> set (db_runs (rd_catalog rd')) \<or>
       (\<exists>(m, c) \<in> set (filter (\<lambda>k. \<not> db_fails k) (map cand_key cs)). mr_id r \<in> set (cycle_run_ids (rd_catalog rd) m c)))"
  using assms
proof (induction cs arbitrary: res' rd' rule: rev_induct)
  case (snoc cand cs)
  let ?done = "\<lambda>cs. set (filter (\<lambda>k. \<not> db_fails k) (map cand_key cs))"
  obtain res1 rd1 where f: "fold (sweep_candidate db_fails) cs (res, rd) = (res1, rd1)" by fastforce
  obtain p rd2 where p: "purge_cycle_metadata db_fails (sc_model_id cand) (sc_cycle_time cand) rd1 = (p, rd2)" by fastforce
  have n: "norm_key (sc_model_id cand) = sc_model_id cand" using snoc.prems(3) by simp
  have ih: "keys_ok (rd_catalog rd1)" "references_ok rd \<Longrightarrow> references_ok rd1" "db_lifecycle (rd_catalog rd1) = db_lifecycle (rd_catalog rd)"
    "sp_cutoff res1 = sp_cutoff res" "sp_swept_cycles res1 = sp_swept_cycles res @ filter (\<lambda>k. \<not> db_fails k) (map cand_key cs)"
    "\<And>m c. cycle_rows (rd_catalog rd1) m c = (if (m, c) \<in> ?done cs then [] else cycle_rows (rd_catalog rd) m c)"
    "\<And>r. r \<in> set (db_runs (rd_catalog rd)) \<Longrightarrow> r \<in> set (db_runs (rd_catalog rd1)) \<or>
       (\<exists>(m, c) \<in> ?done cs. mr_id r \<in> set (cycle_run_ids (rd_catalog rd) m c))"
    using snoc.IH [OF f snoc.prems(2)] snoc.prems(3) by simp_all
  have step: "sweep_candidate db_fails cand (res1, rd1) = (res', rd')" using snoc.prems(1) f by simp
  have rd': "rd' = rd2" "sp_cutoff res' = sp_cutoff res1" and res': "sp_swept_cycles res' = sp_swept_cycles res1 @ (if cp_success p then [cand_key cand] else [])"
    using step p by (auto simp: sweep_candidate_def Let_def split: if_splits)
  note eff = purge_effect [OF p]
  have ok: "cp_success p \<longleftrightarrow> \<not> db_fails (cand_key cand)" using eff n by simp
  have rows: "cycle_rows (rd_catalog rd2) m c = (if (m, c) \<in> ?done (cs @ [cand]) then [] else cycle_rows (rd_catalog rd) m c)" for m c
  proof (cases "cp_success p")
    case True
    show ?thesis unfolding purge_cycle_rows [OF p ih(1) True] n ih(6) using ok True by auto
  next
    case False
    then have "rd2 = rd1" using eff by simp
    with False ok show ?thesis by (simp add: ih(6))
  qed
  have runs: "r \<in> set (db_runs (rd_catalog rd2)) \<or> (\<exists>(m, c) \<in> ?done (cs @ [cand]). mr_id r \<in> set (cycle_run_ids (rd_catalog rd) m c))"
    if r: "r \<in> set (db_runs (rd_catalog rd))" for r
  proof (cases "cp_success p")
    case True
    have "set (cycle_run_ids (rd_catalog rd1) (sc_model_id cand) (sc_cycle_time cand)) \<subseteq>
        set (cycle_run_ids (rd_catalog rd) (sc_model_id cand) (sc_cycle_time cand))"
      unfolding cycle_run_ids_def ih(6) by auto
    then have "r \<in> set (db_runs (rd_catalog rd1)) \<Longrightarrow> r \<in> set (db_runs (rd_catalog rd2)) \<or>
        mr_id r \<in> set (cycle_run_ids (rd_catalog rd) (sc_model_id cand) (sc_cycle_time cand))"
      using eff True n by auto
    with ih(7) [OF r] ok True show ?thesis by auto
  next
    case False
    then have "rd2 = rd1" using eff by simp
    with ih(7) [OF r] show ?thesis by auto
  qed
  have "keys_ok (rd_catalog rd2)" using purge_keeps_keys [OF p ih(1)] .
  moreover have "references_ok rd \<Longrightarrow> references_ok rd2" using purge_keeps_references [OF p] ih(2) by blast
  moreover have "db_lifecycle (rd_catalog rd2) = db_lifecycle (rd_catalog rd)" using eff ih(3) by simp
  ultimately show ?case using rows runs ih(4,5) res' ok unfolding rd' by simp
qed simp

definition sweep_order :: "catalog \<Rightarrow> instant \<Rightarrow> string list option \<Rightarrow> lifecycle_row list" where
  "sweep_order db cutoff models = sort_key (\<lambda>l. (ensure_utc (the (fl_deleted_at l)), fl_model_id l, ensure_utc (fl_cycle_time l)))
     (filter (sweepable db cutoff models) (db_lifecycle db))"

lemma discover_order:
  "discover_sweeper_candidates db cutoff models b = map (\<lambda>l. \<lparr>sc_model_id = fl_model_id l, sc_cycle_time = ensure_utc (fl_cycle_time l),
     sc_deleted_at = ensure_utc (the (fl_deleted_at l))\<rparr>) (take b (sweep_order db cutoff models))"
  by (simp add: discover_sweeper_candidates_def sweep_order_def)

lemma filter_not_taken:
  assumes "distinct (map f xs)"
  shows "filter (\<lambda>x. f x \<notin> f ` set (take n xs)) xs = drop n xs"
proof -
  have d: "distinct (map f (take n xs @ drop n xs))" using assms by simp
  have "filter (\<lambda>x. f x \<notin> f ` set (take n xs)) (take n xs @ drop n xs) = drop n xs"
    unfolding filter_append using d by (auto simp: filter_empty_conv filter_id_conv simp del: append_take_drop_id)
  then show ?thesis by simp
qed

lemma sweep_order_set: "set (sweep_order db cutoff models) = {l \<in> set (db_lifecycle db). sweepable db cutoff models l}"
  by (simp add: sweep_order_def)

lemma sweep_order_keys:
  assumes "keys_ok db"
  shows "distinct (map (\<lambda>l. (fl_model_id l, ensure_utc (fl_cycle_time l))) (sweep_order db cutoff models))"
proof -
  have "distinct (map (\<lambda>l. (fl_model_id l, ensure_utc (fl_cycle_time l))) (filter (sweepable db cutoff models) (db_lifecycle db)))"
    using assms by (simp add: keys_ok_def distinct_map_filter)
  then show ?thesis unfolding sweep_order_def by (simp add: distinct_map)
qed

text \<open>What is left to sweep after a pass: the same cycles, in the same order, without those the pass has swept\<close>

lemma sweep_pass_order:
  assumes "run_metadata_sweeper_pass db_fails models False (Some b) now cutoff ret rd = Inr (res, rd')" "keys_ok (rd_catalog rd)"
  shows "keys_ok (rd_catalog rd') \<and> (references_ok rd \<longrightarrow> references_ok rd') \<and>
    db_lifecycle (rd_catalog rd') = db_lifecycle (rd_catalog rd) \<and> 0 < b \<and>
    sp_cutoff res = (case cutoff of Some c \<Rightarrow> c | None \<Rightarrow> now - days (case ret of Some d \<Rightarrow> d | None \<Rightarrow> METADATA_RETENTION_DAYS)) \<and>
    sweep_order (rd_catalog rd') (sp_cutoff res) models =
      filter (\<lambda>l. (fl_model_id l, ensure_utc (fl_cycle_time l)) \<notin> set (sp_swept_cycles res)) (sweep_order (rd_catalog rd) (sp_cutoff res) models) \<and>
    sp_swept_cycles res = filter (\<lambda>k. \<not> db_fails k) (map (\<lambda>l. (fl_model_id l, ensure_utc (fl_cycle_time l)))
      (take (nat b) (sweep_order (rd_catalog rd) (sp_cutoff res) models))) \<and>
    (\<forall>m c. (m, c) \<in> set (sp_swept_cycles res) \<longrightarrow> cycle_rows (rd_catalog rd') m c = []) \<and>
    (\<forall>r \<in> set (db_runs (rd_catalog rd)). r \<in> set (db_runs (rd_catalog rd')) \<or>
       (\<exists>(m, c) \<in> set (sp_swept_cycles res). mr_id r \<in> set (cycle_run_ids (rd_catalog rd) m c)))"
proof -
  define cut where "cut = (case cutoff of Some c \<Rightarrow> c | None \<Rightarrow> now - days (case ret of Some d \<Rightarrow> d | None \<Rightarrow> METADATA_RETENTION_DAYS))"
  let ?db = "rd_catalog rd" and ?key = "\<lambda>l. (fl_model_id l, ensure_utc (fl_cycle_time l))"
  let ?cs = "discover_sweeper_candidates ?db cut models (nat b)"
  let ?res = "\<lparr>sp_dry_run = False, sp_evaluated_at = now, sp_cutoff = cut, sp_candidates = ?cs, sp_swept_cycles = [],
    sp_failed_cycles = [], sp_total_model_runs_deleted = 0\<rparr>"
  have b: "0 < b" and f: "fold (sweep_candidate db_fails) ?cs (?res, rd) = (res, rd')"
    using assms(1) by (auto simp: run_metadata_sweeper_pass_def normalize_batch_size_def cut_def Let_def bindE_eq_Inr split: if_splits)
  have "norm_key (sc_model_id c) = sc_model_id c" if "c \<in> set ?cs" for c
    using that assms(2) sweep_order_set [of ?db cut models]
    by (auto simp: discover_order keys_ok_def dest!: in_set_takeD)
  note inv = sweep_fold [OF f assms(2) this]
  have cut: "sp_cutoff res = cut" using inv by simp
  have swept: "sp_swept_cycles res = filter (\<lambda>k. \<not> db_fails k) (map ?key (take (nat b) (sweep_order ?db cut models)))"
    using inv by (simp add: discover_order o_def)
  have rows: "cycle_rows (rd_catalog rd') m c = (if (m, c) \<in> set (sp_swept_cycles res) then [] else cycle_rows ?db m c)" for m c
    using inv by simp
  have "sweepable (rd_catalog rd') cut models l \<longleftrightarrow> sweepable ?db cut models l \<and> ?key l \<notin> set (sp_swept_cycles res)" for l
    by (simp only: sweepable_def rows) auto
  then have "filter (sweepable (rd_catalog rd') cut models) xs =
      filter (\<lambda>l. ?key l \<notin> set (sp_swept_cycles res)) (filter (sweepable ?db cut models) xs)" for xs
    by (induction xs) auto
  then have "sweep_order (rd_catalog rd') cut models = filter (\<lambda>l. ?key l \<notin> set (sp_swept_cycles res)) (sweep_order ?db cut models)"
    using inv by (simp add: sweep_order_def filter_sort)
  with b cut swept rows inv show ?thesis by (simp add: cut_def)
qed

text \<open>C13: The sweeper removes the runs of retired cycles only: a run that is gone after a pass belonged to a cycle whose
  tombstone is at least the retention period old; the lifecycle table is unchanged, and every remaining child row still
  refers to a run that exists.\<close>

theorem sweep_removes_retired_only:
  assumes "run_metadata_sweeper_pass db_fails models False (Some b) now None ret rd = Inr (res, rd')"
    and "keys_ok (rd_catalog rd)" "references_ok rd"
  shows "db_lifecycle (rd_catalog rd') = db_lifecycle (rd_catalog rd) \<and> references_ok rd' \<and>
    (\<forall>r \<in> set (db_runs (rd_catalog rd)). r \<in> set (db_runs (rd_catalog rd')) \<or>
       (\<exists>l \<in> set (db_lifecycle (rd_catalog rd)). mr_id r \<in> set (cycle_run_ids (rd_catalog rd) (fl_model_id l) (ensure_utc (fl_cycle_time l))) \<and>
          is_metadata_purge_eligible (fl_deleted_at l) (utc_datetime now) (case ret of Some d \<Rightarrow> d | None \<Rightarrow> METADATA_RETENTION_DAYS)))"
proof -
  note pass = sweep_pass_order [OF assms(1,2)]
  let ?old = "\<lambda>l. is_metadata_purge_eligible (fl_deleted_at l) (utc_datetime now) (case ret of Some d \<Rightarrow> d | None \<Rightarrow> METADATA_RETENTION_DAYS)"
  have "\<exists>l \<in> set (db_lifecycle (rd_catalog rd)). (m, c) = (fl_model_id l, ensure_utc (fl_cycle_time l)) \<and> ?old l"
    if "(m, c) \<in> set (sp_swept_cycles res)" for m c
  proof -
    from that pass obtain l where "l \<in> set (sweep_order (rd_catalog rd) (sp_cutoff res) models)"
      "(m, c) = (fl_model_id l, ensure_utc (fl_cycle_time l))" by (auto dest!: in_set_takeD)
    moreover then have "l \<in> set (db_lifecycle (rd_catalog rd))" "?old l"
      using pass by (auto simp: sweep_order_set sweepable_def is_metadata_purge_eligible_def split: option.splits)
    ultimately show ?thesis by blast
  qed
  with pass assms(3) show ?thesis by fastforce
qed

text \<open>Repeated passes with one cutoff, when no transaction fails\<close>

fun sweep_passes :: "nat \<Rightarrow> string list option \<Rightarrow> int \<Rightarrow> instant \<Rightarrow> instant \<Rightarrow> retention_db \<Rightarrow> retention_db result" where
  "sweep_passes 0 models b now cutoff rd = Inr rd"
| "sweep_passes (Suc n) models b now cutoff rd =
     bindE (run_metadata_sweeper_pass (\<lambda>_. False) models False (Some b) now (Some cutoff) None rd)
       (\<lambda>(res, rd'). sweep_passes n models b now cutoff rd')"

lemma sweep_passes_order:
  assumes "sweep_passes n models b now cutoff rd = Inr rd'" "keys_ok (rd_catalog rd)"
  shows "sweep_order (rd_catalog rd') cutoff models = drop (n * nat b) (sweep_order (rd_catalog rd) cutoff models)"
  using assms
proof (induction n arbitrary: rd)
  case (Suc n)
  obtain res rd1 where p: "run_metadata_sweeper_pass (\<lambda>_. False) models False (Some b) now (Some cutoff) None rd = Inr (res, rd1)"
    and rest: "sweep_passes n models b now cutoff rd1 = Inr rd'" using Suc.prems(1) by (auto simp: bindE_eq_Inr)
  note pass = sweep_pass_order [OF p Suc.prems(2)]
  let ?key = "\<lambda>l. (fl_model_id l, ensure_utc (fl_cycle_time l))"
  have cut: "sp_cutoff res = cutoff" using pass by simp
  have swept: "sp_swept_cycles res = map ?key (take (nat b) (sweep_order (rd_catalog rd) cutoff models))"
    using pass unfolding cut by simp
  have "sweep_order (rd_catalog rd1) cutoff models = filter (\<lambda>l. ?key l \<notin> set (sp_swept_cycles res)) (sweep_order (rd_catalog rd) cutoff models)"
    using pass unfolding cut by blast
  then have "sweep_order (rd_catalog rd1) cutoff models = drop (nat b) (sweep_order (rd_catalog rd) cutoff models)"
    using filter_not_taken [OF sweep_order_keys [OF Suc.prems(2)], of "nat b" cutoff models] unfolding swept by simp
  with Suc.IH [OF rest] pass show ?case by (simp add: add.commute)
qed simp

text \<open>The sweeper drains its backlog: when no transaction fails, a pass sweeps the oldest candidates within its batch and the
  next pass finds exactly the remaining ones, in the same order; repeated passes find nothing after as many passes as the
  backlog has batches.\<close>

theorem sweeper_drains:
  assumes "keys_ok (rd_catalog rd)" "0 < b"
  shows "\<exists>rd'. sweep_passes n models b now cutoff rd = Inr rd' \<and>
    discover_sweeper_candidates (rd_catalog rd') cutoff models k =
      take k (drop (n * nat b) (discover_sweeper_candidates (rd_catalog rd) cutoff models (length (db_lifecycle (rd_catalog rd))))) \<and>
    (length (db_lifecycle (rd_catalog rd)) \<le> n * nat b \<longrightarrow> discover_sweeper_candidates (rd_catalog rd') cutoff models k = [])"
proof -
  have total: "\<exists>x. run_metadata_sweeper_pass (\<lambda>_. False) models False (Some b) now (Some cutoff) None rd = Inr x" for rd
    using assms(2) by (simp add: run_metadata_sweeper_pass_def normalize_batch_size_def Let_def)
  have "\<exists>rd'. sweep_passes n models b now cutoff rd = Inr rd'" for rd
  proof (induction n arbitrary: rd)
    case (Suc n)
    obtain res rd1 where "run_metadata_sweeper_pass (\<lambda>_. False) models False (Some b) now (Some cutoff) None rd = Inr (res, rd1)"
      using total [of rd] by (metis surj_pair)
    with Suc.IH [of rd1] show ?case by simp
  qed simp
  then obtain rd' where rd': "sweep_passes n models b now cutoff rd = Inr rd'" by blast
  have len: "length (sweep_order (rd_catalog rd) cutoff models) \<le> length (db_lifecycle (rd_catalog rd))" by (simp add: sweep_order_def)
  from sweep_passes_order [OF rd' assms(1)] rd' len show ?thesis
    by (intro exI [of _ rd'] conjI impI) (simp_all add: discover_order take_map drop_map)
qed

end
