(* ===== verification/GcRetention.thy ===== *)
theory GcRetention
  imports GcSweeper GcWorkerSafety
begin

text \<open>
  Lifecycle bookkeeping, the sweeper and the orphan inventory together with the planner: defects on record, and concrete
  runs of the theorems of \<open>GcFinalizer\<close> and \<open>GcSweeper\<close>.
\<close>

subsection \<open>Rows that record another cycle\<close>

text \<open>Whatever writes the queue, but for what removes its rows, the purge of old rows and the sweeper: passes of the planner, the
  worker and the bookkeeping, the recovery of stuck rows, and anything that writes other tables\<close>

inductive queue_step :: "catalog \<Rightarrow> catalog \<Rightarrow> bool" where
  gc: "gc_step db db' \<Longrightarrow> queue_step db db'"
| bookkeep: "run_lifecycle_bookkeeping_pass reg cov models dry b now db = (res, db') \<Longrightarrow> queue_step db db'"
| recover: "requeue_failed_reclamation_targets fails objs model_id run_id now db = (n, db') \<Longrightarrow> queue_step db db'"

definition settled_row :: "string \<Rightarrow> physical_shard_target \<Rightarrow> catalog \<Rightarrow> bool" where
  "settled_row i t db \<longleftrightarrow> distinct (map rq_id (db_queue db)) \<and>
     (\<exists>q \<in> set (db_queue db). rq_id q = i \<and> rq_target q = t \<and> rq_status q = RECLAMATION_STATUS_DELETED)"

lemma settled_row_map:
  assumes "settled_row i t db" "db_queue db' = map f (db_queue db)"
    and "\<And>r. r \<in> set (db_queue db) \<Longrightarrow> rq_id (f r) = rq_id r \<and> rq_target (f r) = rq_target r"
    and "\<And>r. r \<in> set (db_queue db) \<Longrightarrow> rq_status r = RECLAMATION_STATUS_DELETED \<Longrightarrow> rq_status (f r) = RECLAMATION_STATUS_DELETED"
  shows "settled_row i t db'"
proof -
  have "map rq_id (db_queue db') = map rq_id (db_queue db)" using assms(2,3) by simp
  then have "distinct (map rq_id (db_queue db'))" using assms(1) by (simp only: settled_row_def)
  moreover obtain q where q: "q \<in> set (db_queue db)" "rq_id q = i" "rq_target q = t" "rq_status q = RECLAMATION_STATUS_DELETED"
    using assms(1) by (auto simp: settled_row_def)
  then have "f q \<in> set (db_queue db')" "rq_id (f q) = i" "rq_target (f q) = t" "rq_status (f q) = RECLAMATION_STATUS_DELETED"
    using assms(3,4) [OF q(1)] by (simp_all add: assms(2))
  ultimately show ?thesis unfolding settled_row_def by blast
qed

lemma queue_step_settled:
  assumes "queue_step db db'" "settled_row i t db"
  shows "settled_row i t db'"
  using assms(1)
proof cases
  case gc
  then show ?thesis
  proof cases
    case (plan reg cov uuid gen models now batch_size p)
    obtain rows where "db_queue db' = fold insert_queue_row rows (db_queue db)"
      using pass_writes [OF plan(1,2)] by auto
    moreover obtain new where "fold insert_queue_row rows (db_queue db) = db_queue db @ new"
      using fold_insert_queue_grows by blast
    ultimately show ?thesis using assms(2) plan(3) by (auto simp: settled_row_def)
  next
    case (work env locked b lease objs res w)
    have "distinct (map rq_id (db_queue db))" using assms(2) by (simp add: settled_row_def)
    from pass_targets [OF work(2) this] obtain f where f: "db' = db\<lparr>db_queue := map f (db_queue db)\<rparr>"
      "\<And>r. r \<in> set (db_queue db) \<Longrightarrow> rq_id (f r) = rq_id r \<and> rq_target (f r) = rq_target r"
      "\<And>r. r \<in> set (db_queue db) \<Longrightarrow> rq_status r = RECLAMATION_STATUS_DELETED \<Longrightarrow> f r = r" unfolding work(1) by blast
    show ?thesis by (rule settled_row_map [OF assms(2) _ f(2), of db']) (simp_all add: f)
  next
    case other
    then show ?thesis using assms(2) by (simp add: settled_row_def)
  qed
next
  case (bookkeep reg cov models dry b now res)
  show ?thesis
    by (rule settled_row_map [OF assms(2) pass_effect(2) [OF bookkeep]]) (simp_all add: close_in_def close_row_def)
next
  case (recover fails objs model_id run_id now n)
  let ?f = "\<lambda>r. if recoverable now model_id run_id r then recover_row fails now objs r else r"
  have "db_queue db' = map ?f (db_queue db)" using recover by (auto simp: requeue_failed_reclamation_targets_def Let_def)
  then show ?thesis by (rule settled_row_map [OF assms(2)]) (auto simp: recover_row_def recoverable_def status_defs)
qed

lemma queue_steps_settled:
  assumes "queue_step\<^sup>*\<^sup>* db db'" "settled_row i t db"
  shows "settled_row i t db'"
  using assms by (induction rule: rtranclp_induct) (auto intro: queue_step_settled)

lemma queued_not_planned:
  assumes "q \<in> set (db_queue db)" "plan_model reg cov db now model = Inr p" "t \<in> set (mp_targets p)"
  shows "target_tuple t \<noteq> target_tuple (rq_target q)"
proof -
  obtain n where "get_expected_members cov (norm_key model) (Some 1) = Inr n"
    using assms(2,3) by (auto simp: plan_model_def Let_def bindE_eq_Inr empty_plan_def split: if_splits)
  from plan_target_new [OF assms(2,3) this] assms(1) show ?thesis by auto
qed

text \<open>C12: The tombstone of a cycle closes every queue row that records its cycle time, also one whose run belongs to another
  cycle and whose object is still stored. From then on, whatever passes of the planner, the worker, the recovery and the bookkeeping
  follow, as long as the row is neither purged nor swept it reads deleted, no worker may claim it at any time, and no plan
  proposes its unit.\<close>

theorem tombstone_abandons_foreign_row:
  assumes "run_lifecycle_bookkeeping_pass reg cov models dry b now db = (res, db')"
    and "q \<in> set (db_queue db)" "in_cycle m c q" "(m, c) \<in> set (fr_finalized_cycles res)"
    and "pst_run_id (rq_target q) \<notin> set (cycle_run_ids db m c)"
    and "distinct (map rq_id (db_queue db))" "queue_step\<^sup>*\<^sup>* db' db''"
  shows "(\<exists>q' \<in> set (db_queue db''). rq_id q' = rq_id q \<and> rq_target q' = rq_target q \<and> rq_status q' = RECLAMATION_STATUS_DELETED \<and>
      (\<forall>t. \<not> claimable t q')) \<and>
    (\<forall>reg cov now model p. plan_model reg cov db'' now model = Inr p \<longrightarrow>
      target_tuple (rq_target q) \<notin> target_tuple ` set (mp_targets p))"
proof -
  have "close_row now q = close_in (set (fr_finalized_cycles res)) now q" using assms(3,4) by (simp add: close_in_def in_cycle_def)
  then have "close_row now q \<in> set (db_queue db')" using pass_effect(2) [OF assms(1)] assms(2) by auto
  moreover have "distinct (map rq_id (db_queue db'))" using pass_effect(2) [OF assms(1)] assms(6) by (simp add: o_def)
  moreover have "rq_id (close_row now q) = rq_id q" by (simp add: close_row_def)
  ultimately have "settled_row (rq_id q) (rq_target q) db'" by (auto simp: settled_row_def intro!: bexI [of _ "close_row now q"])
  from queue_steps_settled [OF assms(7) this] obtain q' where q': "q' \<in> set (db_queue db'')" "rq_id q' = rq_id q"
    "rq_target q' = rq_target q" "rq_status q' = RECLAMATION_STATUS_DELETED" by (auto simp: settled_row_def)
  moreover have "\<not> claimable t q'" for t using q'(4) by (simp add: claimable_def status_defs)
  moreover have "target_tuple (rq_target q) \<notin> target_tuple ` set (mp_targets p)" if "plan_model reg cov db'' now model = Inr p" for reg cov now model p
    using queued_not_planned [OF q'(1) that] q'(3) by (metis image_iff)
  ultimately show ?thesis by blast
qed

subsection \<open>Stores without a catalog\<close>

lemma find_lifecycle_None:
  "find_lifecycle db m c = None \<longleftrightarrow> (\<forall>l \<in> set (db_lifecycle db). (fl_model_id l, ensure_utc (fl_cycle_time l)) \<noteq> (m, c))"
  by (auto simp: find_lifecycle_def find_None_iff)

lemma run_cycles_rows: "(m, c) \<in> set (run_cycles db) \<longleftrightarrow> cycle_rows db m c \<noteq> []"
  by (auto simp: run_cycles_def cycle_rows_def filter_empty_conv image_iff)

lemma mapE_image: "mapE f xs = Inr ys \<Longrightarrow> x \<in> set xs \<Longrightarrow> \<exists>y \<in> set ys. f x = Inr y"
  by (fastforce simp: mapE_Inr_iff list_all2_conv_all_nth in_set_conv_nth)

lemma classified: "classify_store reg now start x = Inr y \<Longrightarrow> os_model_id y = fst x \<and> os_cycle_time y = fst (snd x) \<and> os_store_path y = snd (snd x)"
  by (auto simp: classify_store_def bindE_eq_Inr split: prod.splits)

text \<open>C14: What is left in the store of a swept cycle stays forever: the orphan inventory reports the store as an orphan, beyond
  the frontier or not, but the reaper refuses it because the tombstone of the cycle is still on record.\<close>

theorem swept_store_never_reaped:
  assumes "run_metadata_sweeper_pass db_fails models False (Some b) now cutoff ret rd = Inr (res, rd')" "keys_ok (rd_catalog rd)"
    and "\<And>v. v \<in> set (db_versions (rd_catalog rd')) \<Longrightarrow> norm_key (mv_model_id v) = mv_model_id v"
    and "(m, c) \<in> set (sp_swept_cycles res)" "(m, c, p) \<in> set stores"
    and "discover_orphan_cycles reg (rd_catalog rd') stores now' = Inr (orphans, n)"
  shows "\<exists>x \<in> set orphans. os_model_id x = m \<and> os_cycle_time x = c \<and> os_store_path x = p \<and>
    (\<forall>env objs. reap_orphan_store env (rd_catalog rd') x objs = (Inr False, objs))"
proof -
  let ?db = "rd_catalog rd'"
  note pass = sweep_pass_order [OF assms(1,2)]
  have rows: "cycle_rows ?db m c = []" using pass assms(4) by blast
  have "(m, c) \<in> (\<lambda>l. (fl_model_id l, ensure_utc (fl_cycle_time l))) ` set (db_lifecycle (rd_catalog rd))"
    using pass assms(4) by (auto simp: sweep_order_set dest!: in_set_takeD)
  then have lc: "find_lifecycle ?db m c \<noteq> None" using pass by (auto simp: find_lifecycle_None)
  have "norm_key k = k" if "(k, d) \<in> set (run_cycles ?db)" for k d
    using that assms(3) by (auto simp: run_cycles_def)
  then have "(m, c) \<notin> set (cataloged_cycles ?db)" using rows run_cycles_rows [of m c ?db] by (auto simp: cataloged_cycles_def)
  then have "(m, c, p) \<in> set (filter (\<lambda>(m, c, p). (m, c) \<notin> set (cataloged_cycles ?db)) (rev (remdups (rev stores))))"
    using assms(5) by simp
  moreover obtain start where "mapE (classify_store reg now' start)
      (filter (\<lambda>(m, c, p). (m, c) \<notin> set (cataloged_cycles ?db)) (rev (remdups (rev stores)))) = Inr orphans"
    using assms(6) by (auto simp: discover_orphan_cycles_def bindE_eq_Inr)
  ultimately obtain x where x: "x \<in> set orphans" "classify_store reg now' start (m, c, p) = Inr x"
    using mapE_image by metis
  with classified [OF x(2)] lc show ?thesis by (intro bexI [of _ x]) (simp_all add: reap_orphan_store_def)
qed

text \<open>A removal that the storage refuses counts as done: when the deletion of an orphan's objects fails with an error, the
  inventory reports the store as reaped although every object is still there.\<close>

theorem failed_removal_reported_reaped:
  assumes "run_orphan_inventory env reg listing store_root True now db objs = Inr (r, objs')"
    and "\<And>X objs. re_remove env X objs = objs" "\<And>p. re_gate env p = Inr ()"
    and "x \<in> set (ir_orphan_stores r)" "os_beyond_frontier x" "find_lifecycle db (os_model_id x) (os_cycle_time x) = None"
  shows "os_store_path x \<in> set (ir_reaped_stores r) \<and> objs' = objs"
proof -
  let ?stores = "list_physical_cycle_stores listing store_root"
  obtain orphans n where o: "discover_orphan_cycles reg db ?stores now = Inr (orphans, n)"
    using assms(1) by (auto simp: run_orphan_inventory_def bindE_eq_Inr Let_def)
  obtain reaped blocked objs2 where t: "reap_all env db orphans objs = (reaped, blocked, objs2)" by (metis prod_cases3)
  have "reap_all env db orphans objs = (ir_reaped_stores r, ir_reap_blocked r, objs')" "ir_orphan_stores r = orphans"
    using assms(1) o t by (auto simp: run_orphan_inventory_def Let_def)
  note r = this
  obtain start where d: "mapE (classify_store reg now start)
      (filter (\<lambda>(m, c, p). (m, c) \<notin> set (cataloged_cycles db)) (rev (remdups (rev ?stores)))) = Inr orphans"
    using o by (auto simp: discover_orphan_cycles_def bindE_eq_Inr)
  obtain m c p where mcp: "(m, c, p) \<in> set ?stores" "(m, c) \<notin> set (cataloged_cycles db)" "classify_store reg now start (m, c, p) = Inr x"
    using mapE_set_D [OF d] assms(4) r(2) by fastforce
  have "norm_key m = m"
    using mcp(1) by (auto simp: list_physical_cycle_stores_def set_somes physical_cycle_store_def Let_def split: option.splits)
  then have "(m, c) \<notin> set (run_cycles db)" using mcp(2) by (force simp: cataloged_cycles_def)
  then have "cycle_rows db (os_model_id x) (os_cycle_time x) = []" using classified [OF mcp(3)] by (simp add: run_cycles_rows)
  then have ok: "reap_orphan_store env db x objs = (Inr True, objs)" for objs
    using assms(2,3,6) by (simp add: reap_orphan_store_def Let_def)
  have keep: "snd (reap_orphan_store env db y objs) = objs" for y objs
    using assms(2,3) by (simp add: reap_orphan_store_def Let_def)
  have "snd (snd (reap_all env db os objs)) = objs \<and>
      (x \<in> set os \<longrightarrow> os_store_path x \<in> set (fst (reap_all env db os objs)))" for os objs
  proof (induction os arbitrary: objs)
    case (Cons y os)
    obtain res objs1 where y: "reap_orphan_store env db y objs = (res, objs1)" by fastforce
    then have "objs1 = objs" using keep [of y objs] by simp
    with y Cons.IH [of objs] ok [of objs] assms(5) show ?case by (cases "reap_all env db os objs") auto
  qed simp
  from this [of orphans objs] r assms(4) show ?thesis by simp
qed

subsection \<open>A concrete history\<close>

text \<open>
  Two runs of the deterministic model: run \<open>c\<close> of hour 6, claimed for deletion, and run \<open>b\<close> of hour 18. The planner's pass at
  hour 24 enqueues one unit of each, and records hour 18 for both; the worker then deletes the unit of \<open>b\<close>.
\<close>

definition aged_catalog :: catalog where
  "aged_catalog = \<lparr>
     db_versions = [\<lparr>mv_id = ''m1'', mv_model_id = ''gfs'', mv_version_string = ''v1.0''\<rparr>],
     db_runs = map (\<lambda>(r, h). \<lparr>mr_id = r, mr_model_version_id = ''m1'', mr_cycle_time = utc_datetime (hours h),
         mr_status = ''ready'', mr_zarr_store_path = Some (''s3://b/'' @ r)\<rparr>) [(''b'', 18), (''c'', 6)],
     db_products = map (\<lambda>(r, l). \<lparr>pr_run_id = r, pr_lead_time_hours = l, pr_variable_id = ''temperature_2m'',
         pr_product_type = ''deterministic''\<rparr>) [(''b'', 3), (''c'', 0)],
     db_member_products = [],
     db_lifecycle = [\<lparr>fl_model_id = ''gfs'', fl_cycle_time = utc_datetime (hours 6),
        fl_deletion_started_at = Some (utc_datetime (hours 20)), fl_deleted_at = None\<rparr>],
     db_queue = []\<rparr>"

definition worked_off :: "string \<Rightarrow> catalog \<Rightarrow> catalog" where
  "worked_off r db = db\<lparr>db_queue := map (\<lambda>q. if pst_run_id (rq_target q) = r then close_row (hours 25) q else q) (db_queue db)\<rparr>"

abbreviation aged_plan :: "(reclamation_plan_result \<times> catalog) result" where
  "aged_plan \<equiv> plan_reclamation_pass default_horizons default_coverage nat_str (\<lambda>s. None) aged_catalog [''gfs''] False sample_now 1000"

definition planned_catalog :: catalog where
  "planned_catalog = (case aged_plan of Inl e \<Rightarrow> aged_catalog | Inr (r, db) \<Rightarrow> worked_off ''b'' db)"

abbreviation late_pass :: "catalog \<Rightarrow> finalizer_pass_result \<times> catalog" where
  "late_pass \<equiv> run_lifecycle_bookkeeping_pass default_horizons default_coverage [''gfs''] False 50 (hours 1000)"

lemma planned_life:
  "let db = planned_catalog; r = late_pass db in
     map (\<lambda>q. (pst_run_id (rq_target q), pst_model_id (rq_target q), pst_cycle_time (rq_target q), rq_status q)) (db_queue db) =
       [(''b'', ''gfs'', hours 18, ''deleted''), (''c'', ''gfs'', hours 18, ''queued'')] \<and>
     fr_finalized_cycles (fst r) = [(''gfs'', hours 18)] \<and> fr_claimed_cycles (fst r) = [(''gfs'', hours 18)] \<and>
     in_cycle ''gfs'' (hours 18) (db_queue db ! 1) \<and>
     pst_run_id (rq_target (db_queue db ! 1)) \<notin> set (cycle_run_ids db ''gfs'' (hours 18)) \<and> length (db_queue db) = 2 \<and>
     map_option (\<lambda>l. map_option ensure_utc (fl_deletion_started_at l)) (find_lifecycle (snd r) ''gfs'' (hours 18)) = Some (Some (hours 1000)) \<and>
     cycle_versions db ''gfs'' (hours 18) = [''v1.0''] \<and> find_lifecycle db ''gfs'' (hours 18) = None"
  by code_simp

lemmas planned_facts = planned_life [unfolded Let_def]

lemma planned_rows:
  "map (\<lambda>q. (pst_run_id (rq_target q), pst_model_id (rq_target q), pst_cycle_time (rq_target q), rq_status q)) (db_queue planned_catalog) =
     [(''b'', ''gfs'', hours 18, ''deleted''), (''c'', ''gfs'', hours 18, ''queued'')]"
  by (rule conjunct1 [OF planned_facts])

lemma planned_finalized:
  "fr_finalized_cycles (fst (late_pass planned_catalog)) = [(''gfs'', hours 18)]"
  by (rule planned_facts [THEN conjunct2, THEN conjunct1])

lemma planned_foreign:
  "in_cycle ''gfs'' (hours 18) (db_queue planned_catalog ! 1) \<and>
   pst_run_id (rq_target (db_queue planned_catalog ! 1)) \<notin> set (cycle_run_ids planned_catalog ''gfs'' (hours 18)) \<and>
   length (db_queue planned_catalog) = 2"
  using planned_facts by blast

lemma planned_ids: "distinct (map rq_id (db_queue planned_catalog))"
  by code_simp

text \<open>A recovery of the stuck rows follows the pass: it leaves the row of run \<open>c\<close> closed.\<close>

lemma tombstone_abandons_foreign_row_witness:
  "\<exists>q n db''. q \<in> set (db_queue planned_catalog) \<and> rq_status q = ''queued'' \<and> claimable (hours 1000) q \<and>
     requeue_failed_reclamation_targets (\<lambda>_. False) {S3Object ''b/c/0''} None None (hours 1001) (snd (late_pass planned_catalog)) = (n, db'') \<and>
     (\<exists>q' \<in> set (db_queue db''). rq_target q' = rq_target q \<and> rq_status q' = ''deleted'' \<and> \<not> claimable (hours 1001) q')"
proof -
  let ?q = "db_queue planned_catalog ! 1"
  have q: "?q \<in> set (db_queue planned_catalog)" using planned_foreign by simp
  have st: "rq_status ?q = ''queued''" using arg_cong [OF planned_rows, of "\<lambda>xs. snd (snd (snd (xs ! 1)))"] planned_foreign by simp
  have cl: "claimable (hours 1000) ?q" by code_simp
  obtain res db' where p: "late_pass planned_catalog = (res, db')" by fastforce
  obtain n db'' where r: "requeue_failed_reclamation_targets (\<lambda>_. False) {S3Object ''b/c/0''} None None (hours 1001) db' = (n, db'')" by fastforce
  have "queue_step\<^sup>*\<^sup>* db' db''" using queue_step.recover [OF r] by (rule r_into_rtranclp)
  moreover have "(''gfs'', hours 18) \<in> set (fr_finalized_cycles res)" using planned_finalized p by simp
  ultimately have "\<exists>q' \<in> set (db_queue db''). rq_target q' = rq_target ?q \<and> rq_status q' = ''deleted'' \<and> \<not> claimable (hours 1001) q'"
    using tombstone_abandons_foreign_row [OF p q _ _ _ planned_ids] planned_foreign by (fastforce simp: status_defs)
  with p r st cl q show ?thesis by auto
qed

lemma late_claim:
  "map_option (\<lambda>l. map_option ensure_utc (fl_deletion_started_at l)) (find_lifecycle (snd (late_pass planned_catalog)) ''gfs'' (hours 18)) =
     Some (Some (hours 1000)) \<and>
   cycle_versions planned_catalog ''gfs'' (hours 18) = [''v1.0''] \<and> find_lifecycle planned_catalog ''gfs'' (hours 18) = None"
  using planned_facts by blast

lemma bookkeeping_claims_past_cycles_witness:
  "fr_claimed_cycles (fst (late_pass planned_catalog)) = [(''gfs'', hours 18)] \<and>
   (\<exists>start. model_serving_start_valid_time default_horizons ''gfs'' (utc_datetime (hours 1000)) = Inr start \<and> hours 18 + hours 240 < start)"
proof
  show "fr_claimed_cycles (fst (late_pass planned_catalog)) = [(''gfs'', hours 18)]" using planned_facts by blast
  obtain res db' where p: "late_pass planned_catalog = (res, db')" by fastforce
  obtain l where l: "find_lifecycle db' ''gfs'' (hours 18) = Some l" "fl_deletion_started_at l \<noteq> None"
    using late_claim p by auto
  have lead: "case canonical_lead_time_hours default_horizons ''gfs'' (Some ''v1.0'') None of Inl e \<Rightarrow> False | Inr leads \<Rightarrow> 240 \<in> set leads"
    by code_simp
  obtain leads where leads: "canonical_lead_time_hours default_horizons ''gfs'' (Some ''v1.0'') None = Inr leads" "240 \<in> set leads"
    using lead by (auto split: sum.splits)
  have v: "''v1.0'' \<in> set (cycle_versions planned_catalog ''gfs'' (hours 18))" "find_lifecycle planned_catalog ''gfs'' (hours 18) = None"
    using late_claim by simp_all
  have "\<forall>leads lead. canonical_lead_time_hours default_horizons ''gfs'' (Some ''v1.0'') None = Inr leads \<and> lead \<in> set leads \<longrightarrow>
      (\<exists>start. model_serving_start_valid_time default_horizons ''gfs'' (utc_datetime (hours 1000)) = Inr start \<and> hours 18 + hours lead < start)"
    using bookkeeping_claims_past_cycles [OF p horizon_wf_default, of "''gfs''" "hours 18"] l v by (metis option.distinct(1))
  from this [rule_format, of leads 240] leads
  show "\<exists>start. model_serving_start_valid_time default_horizons ''gfs'' (utc_datetime (hours 1000)) = Inr start \<and> hours 18 + hours 240 < start"
    by simp
qed

lemma bookkeeping_keeps_metadata_witness:
  "db_runs (snd (late_pass planned_catalog)) = db_runs planned_catalog \<and> db_products (snd (late_pass planned_catalog)) = db_products planned_catalog"
proof -
  obtain res db' where p: "late_pass planned_catalog = (res, db')" by fastforce
  from bookkeeping_keeps_metadata [OF p] p show ?thesis by simp
qed

text \<open>A single run whose unit is deleted, in a row that records its own cycle\<close>

definition settled_catalog :: catalog where
  "settled_catalog = aged_catalog\<lparr>db_runs := take 1 (db_runs aged_catalog), db_products := take 1 (db_products aged_catalog),
     db_lifecycle := [],
     db_queue := [\<lparr>rq_id = ''q'', rq_target = \<lparr>pst_run_id = ''b'', pst_model_id = ''gfs'', pst_cycle_time = hours 18,
         pst_lead_time_hours = 3, pst_variable_code = ''temperature_2m'', pst_target_kind = ''det'', pst_member_index = 0,
         pst_valid_time = hours 21, pst_store_path = ''s3://b/b'', pst_physical_key = ''k''\<rparr>, rq_store_generation = None,
       rq_status = ''deleted'', rq_attempt_count = 1, rq_lease_expires_at = None, rq_next_retry_at = None, rq_last_error = None,
       rq_reclaimed_at = Some (hours 25), rq_created_at = hours 24, rq_updated_at = hours 25\<rparr>]\<rparr>"

lemma settled_facts:
  "distinct (map (target_tuple \<circ> rq_target) (db_queue settled_catalog))"
  "fr_finalized_cycles (fst (late_pass settled_catalog)) = [(''gfs'', hours 18)]"
  "(''b'', 3, ''temperature_2m'', ''det'', 0) \<in> enumerate_committed_unit_tuples settled_catalog (cycle_run_ids settled_catalog ''gfs'' (hours 18)) False"
  by code_simp+

lemma tombstone_follows_reclamation_witness:
  "\<exists>q. q \<in> set (db_queue settled_catalog) \<and> target_tuple (rq_target q) = (''b'', 3, ''temperature_2m'', ''det'', 0) \<and> rq_status q = ''deleted''"
proof -
  obtain res db' where p: "late_pass settled_catalog = (res, db')" by fastforce
  have n: "get_expected_members default_coverage ''gfs'' (Some 1) = Inr 1" by code_simp
  have k: "(''gfs'', hours 18) \<in> set (fr_finalized_cycles res)" using settled_facts(2) p by simp
  have f: "set (fr_finalized_cycles res) = {(''gfs'', hours 18)}" using settled_facts(2) p by simp
  from tombstone_follows_reclamation [OF p settled_facts(1) k n] settled_facts(3) show ?thesis
    unfolding f by (auto simp: status_defs)
qed

subsection \<open>Sweeping the history\<close>

definition aged_retention :: retention_db where
  "aged_retention = \<lparr>rd_catalog = settled_catalog\<lparr>db_lifecycle := [\<lparr>fl_model_id = ''gfs'', fl_cycle_time = utc_datetime (hours 18),
     fl_deletion_started_at = Some (utc_datetime (hours 1000)), fl_deleted_at = Some (utc_datetime (hours 1000))\<rparr>]\<rparr>, rd_members = []\<rparr>"

abbreviation sample_sweep :: "(sweeper_pass_result \<times> retention_db) result" where
  "sample_sweep \<equiv> run_metadata_sweeper_pass (\<lambda>_. False) None False (Some 50) (hours 1024) None None aged_retention"

lemma aged_facts:
  "keys_ok (rd_catalog aged_retention)" "references_ok aged_retention" "length (db_runs (rd_catalog aged_retention)) = 1"
  "length (discover_sweeper_candidates (rd_catalog aged_retention) (hours 1000) None 50) = 1"
  "map_sum id (\<lambda>(res, rd'). (sp_swept_cycles res, length (db_runs (rd_catalog rd')), map mv_model_id (db_versions (rd_catalog rd')))) sample_sweep =
     Inr ([(''gfs'', hours 18)], 0, [''gfs''])"
  by code_simp+

lemma sample_sweepE:
  obtains res rd' where "sample_sweep = Inr (res, rd')" "sp_swept_cycles res = [(''gfs'', hours 18)]" "db_runs (rd_catalog rd') = []"
    "map mv_model_id (db_versions (rd_catalog rd')) = [''gfs'']"
  using aged_facts(5) by (cases sample_sweep) auto

lemma sweep_removes_retired_only_witness:
  "\<exists>res rd' l. sample_sweep = Inr (res, rd') \<and> db_runs (rd_catalog rd') = [] \<and> references_ok rd' \<and>
     l \<in> set (db_lifecycle (rd_catalog rd')) \<and> is_metadata_purge_eligible (fl_deleted_at l) (utc_datetime (hours 1024)) METADATA_RETENTION_DAYS"
proof -
  obtain res rd' where p: "sample_sweep = Inr (res, rd')" "db_runs (rd_catalog rd') = []" by (rule sample_sweepE)
  obtain r where "r \<in> set (db_runs (rd_catalog aged_retention))" using aged_facts(3) by (cases "db_runs (rd_catalog aged_retention)") auto
  with sweep_removes_retired_only [OF p(1) aged_facts(1,2)] p show ?thesis by auto
qed

lemma sweeper_drains_witness:
  "\<exists>rd'. sweep_passes 1 None 50 (hours 1024) (hours 1000) aged_retention = Inr rd' \<and>
     discover_sweeper_candidates (rd_catalog rd') (hours 1000) None 50 = []"
proof -
  have "length (db_lifecycle (rd_catalog aged_retention)) \<le> 1 * nat 50" by (simp add: aged_retention_def)
  then show ?thesis using sweeper_drains [OF aged_facts(1), of 50 1 None "hours 1024" "hours 1000" 50] by auto
qed

lemma swept_store_never_reaped_witness:
  "\<exists>res rd' orphans n. sample_sweep = Inr (res, rd') \<and>
     discover_orphan_cycles default_horizons (rd_catalog rd') [(''gfs'', hours 18, ''s3://b/b'')] (hours 2000) = Inr (orphans, n) \<and>
     (\<exists>x. x \<in> set orphans \<and> os_store_path x = ''s3://b/b'' \<and> (\<forall>env objs. reap_orphan_store env (rd_catalog rd') x objs = (Inr False, objs)))"
proof -
  obtain res rd' where p: "sample_sweep = Inr (res, rd')" "sp_swept_cycles res = [(''gfs'', hours 18)]" "db_runs (rd_catalog rd') = []"
    "map mv_model_id (db_versions (rd_catalog rd')) = [''gfs'']" by (rule sample_sweepE)
  have v: "norm_key (mv_model_id v) = mv_model_id v" if "v \<in> set (db_versions (rd_catalog rd'))" for v
  proof -
    have "mv_model_id v \<in> set (map mv_model_id (db_versions (rd_catalog rd')))" using that by simp
    then show ?thesis unfolding p(4) by simp
  qed
  have "case serving_start_valid_time (utc_datetime (hours 2000)) CANONICAL_LEAD_CADENCE_HOURS of Inl e \<Rightarrow> False
      | Inr s \<Rightarrow> (case classify_store default_horizons (hours 2000) s (''gfs'', hours 18, ''s3://b/b'') of Inl e \<Rightarrow> False | Inr x \<Rightarrow> True)"
    by code_simp
  then obtain s x where c: "serving_start_valid_time (utc_datetime (hours 2000)) CANONICAL_LEAD_CADENCE_HOURS = Inr s"
    "classify_store default_horizons (hours 2000) s (''gfs'', hours 18, ''s3://b/b'') = Inr x" by (auto split: sum.splits)
  have "cataloged_cycles (rd_catalog rd') = []" by (simp add: cataloged_cycles_def run_cycles_def p(3))
  with c obtain orphans n where o: "discover_orphan_cycles default_horizons (rd_catalog rd') [(''gfs'', hours 18, ''s3://b/b'')] (hours 2000) = Inr (orphans, n)"
    by (simp add: discover_orphan_cycles_def)
  have "(''gfs'', hours 18) \<in> set (sp_swept_cycles res)" using p(2) by simp
  from swept_store_never_reaped [OF p(1) aged_facts(1) v this _ o, of "''s3://b/b''"] p(1) o show ?thesis by auto
qed

text \<open>A store on the local disk that no catalog knows, and a storage that removes nothing\<close>

definition stuck_env :: reap_env where
  "stuck_env = \<lparr>re_gate = (\<lambda>_. Inr ()), re_remove = (\<lambda>P objs. objs), re_postgresql = True\<rparr>"

abbreviation stuck_inventory :: "(inventory_result \<times> object_id set) result" where
  "stuck_inventory \<equiv> run_orphan_inventory stuck_env default_horizons (\<lambda>_. [''/d/gfs/1970-01-02/06/cycle.zarr'']) ''/d'' True (hours 2000)
     aged_catalog {LocalFile ''/d/gfs/1970-01-02/06/cycle.zarr/x''}"

lemma stuck_facts:
  "map_sum id (\<lambda>(r, objs). map (\<lambda>x. (os_model_id x, os_cycle_time x, os_store_path x, os_beyond_frontier x)) (ir_orphan_stores r)) stuck_inventory =
     Inr [(''gfs'', hours 30, ''/d/gfs/1970-01-02/06/cycle.zarr'', True)]"
  by code_simp

lemma failed_removal_reported_reaped_witness:
  "\<exists>r objs'. stuck_inventory = Inr (r, objs') \<and> ''/d/gfs/1970-01-02/06/cycle.zarr'' \<in> set (ir_reaped_stores r) \<and>
     objs' = {LocalFile ''/d/gfs/1970-01-02/06/cycle.zarr/x''}"
proof -
  obtain r objs' where i: "stuck_inventory = Inr (r, objs')"
    and o: "map (\<lambda>x. (os_model_id x, os_cycle_time x, os_store_path x, os_beyond_frontier x)) (ir_orphan_stores r) =
      [(''gfs'', hours 30, ''/d/gfs/1970-01-02/06/cycle.zarr'', True)]"
    using stuck_facts by (cases stuck_inventory) auto
  then obtain x where x: "x \<in> set (ir_orphan_stores r)" "os_beyond_frontier x" "os_model_id x = ''gfs''" "os_cycle_time x = hours 30"
    "os_store_path x = ''/d/gfs/1970-01-02/06/cycle.zarr''" by (auto simp: map_eq_Cons_conv)
  have "find_lifecycle aged_catalog ''gfs'' (hours 30) = None" by code_simp
  with failed_removal_reported_reaped [OF i _ _ x(1,2)] x i show ?thesis by (simp add: stuck_env_def)
qed

end
