(* ===== verification/ReaderSession.thy ===== *)
theory ReaderSession
  imports LockCoordinator
begin

text \<open>
  The session of one gated read, \<open>_ReaderGateSession\<close> of \<open>api/core/reader_gate.py\<close>: a connection of the reader pool on which
  the shared advisory locks of a store are taken. The database session is the parameter \<open>server\<close> of \<open>LockCoordinator\<close>, with
  the laws of the locale \<open>lock_server\<close>; what the pool hands out and what the catalog answers are arguments. Connections that
  leave the session go to the list of returned ones, as the pool keeps them.
\<close>

definition ReaderGateTimeout :: py_error where "ReaderGateTimeout = DomainError ''ReaderGateTimeout'' ''timed out''"
definition AssertionError :: py_error where "AssertionError = DomainError ''AssertionError'' ''''"

record 's session =
  ss_store_path :: string
  ss_conn :: "'s option"
  ss_gate_held :: bool
  ss_gate_key :: lock_key
  ss_admission_key :: lock_key

definition ReaderGateSession :: "(string \<Rightarrow> 64 word) \<Rightarrow> (string \<Rightarrow> string) \<Rightarrow> string \<Rightarrow> 's session result" where
  "ReaderGateSession h resolve store_path =
     bindE (store_gate_key h resolve store_path None False) (\<lambda>gate.
     bindE (admission_key h resolve store_path None False) (\<lambda>admission.
       Inr \<lparr>ss_store_path = store_path, ss_conn = None, ss_gate_held = False, ss_gate_key = gate, ss_admission_key = admission\<rparr>))"

text \<open>A session with the connections it gave back\<close>

type_synonym 's owned = "'s session \<times> 's list"

text \<open>An invalidated connection goes back to the pool too, without its database session.\<close>

definition invalidate_conn :: "'s server \<Rightarrow> 's owned \<Rightarrow> 's owned" where
  "invalidate_conn srv = (\<lambda>(ss, returned). case ss_conn ss of None \<Rightarrow> (ss, returned)
     | Some s \<Rightarrow> (ss\<lparr>ss_conn := None\<rparr>, returned @ [sv_invalidate srv s]))"

definition close_conn :: "'s owned \<Rightarrow> 's owned" where
  "close_conn = (\<lambda>(ss, returned). case ss_conn ss of None \<Rightarrow> (ss, returned)
     | Some s \<Rightarrow> (ss\<lparr>ss_conn := None\<rparr>, returned @ [s]))"

definition acquire_shared :: "'s server \<Rightarrow> lock_key \<Rightarrow> real \<Rightarrow> 's owned \<Rightarrow> unit result \<times> 's owned" where
  "acquire_shared srv key timeout_seconds = (\<lambda>(ss, returned). case ss_conn ss of None \<Rightarrow> (Inl AssertionError, (ss, returned))
     | Some s \<Rightarrow> (case sv_lock srv False key \<lfloor>max 1 (timeout_seconds * 1000)\<rfloor> s of
         (None, s1) \<Rightarrow> (Inr (), (ss\<lparr>ss_conn := Some s1\<rparr>, returned))
       | (Some e, s1) \<Rightarrow>
           if is_lock_timeout_error e then (Inl ReaderGateTimeout, (ss\<lparr>ss_conn := Some s1\<rparr>, returned))
           else (Inl (DatabaseError e), invalidate_conn srv (ss\<lparr>ss_conn := Some s1\<rparr>, returned))))"

definition release_shared :: "'s server \<Rightarrow> lock_key \<Rightarrow> 's owned \<Rightarrow> 's owned" where
  "release_shared srv key = (\<lambda>(ss, returned). case ss_conn ss of None \<Rightarrow> (ss, returned)
     | Some s \<Rightarrow> (case sv_unlock srv False key s of (r, s1) \<Rightarrow>
         if r = Inr True then (ss\<lparr>ss_conn := Some s1\<rparr>, returned)
         else invalidate_conn srv (ss\<lparr>ss_conn := Some s1\<rparr>, returned)))"

definition hold_gate :: "bool \<Rightarrow> 's owned \<Rightarrow> 's owned" where
  "hold_gate b = (\<lambda>(ss, returned). (ss\<lparr>ss_gate_held := b\<rparr>, returned))"

text \<open>\<open>acquire\<close>: \<open>clock i\<close> is the \<open>i\<close>-th reading of the monotonic clock, \<open>checkout\<close> what the pool gives\<close>

definition acquire_session ::
    "'s server \<Rightarrow> (py_error + 's) \<Rightarrow> (nat \<Rightarrow> real) \<Rightarrow> real \<Rightarrow> 's owned \<Rightarrow> unit result \<times> 's owned" where
  "acquire_session srv checkout clock timeout_seconds = (\<lambda>(ss, returned).
     let deadline = clock 0 + timeout_seconds in
     if deadline \<le> clock 1 then (Inl ReaderGateTimeout, (ss, returned))
     else (case checkout of Inl e \<Rightarrow> (Inl e, (ss, returned))
       | Inr s \<Rightarrow>
           (case acquire_shared srv (ss_admission_key ss) (max 0.001 (deadline - clock 2)) (ss\<lparr>ss_conn := Some s\<rparr>, returned) of
              (Inl e, o1) \<Rightarrow> (Inl e, close_conn o1)
            | (Inr _, o1) \<Rightarrow>
                (case acquire_shared srv (ss_gate_key ss) (max 0.001 (deadline - clock 3)) o1 of
                   (Inl e, o2) \<Rightarrow> (Inl e, close_conn (release_shared srv (ss_admission_key ss) o2))
                 | (Inr _, o2) \<Rightarrow> (Inr (), release_shared srv (ss_admission_key ss) (hold_gate True o2))))))"

text \<open>\<open>revalidate\<close>: \<open>row\<close> is the status and the path that the catalog gives for the store path, if any\<close>

definition revalidate :: "(py_error + (string \<times> string) option) \<Rightarrow> 's session \<Rightarrow> (bool \<times> string option) result" where
  "revalidate row ss = (if ss_conn ss = None then Inl AssertionError
     else bindE row (\<lambda>r. case r of None \<Rightarrow> Inr (False, None)
       | Some (status, path) \<Rightarrow>
           Inr (status \<in> {''ready'', ''processing'', ''partial''} \<and> path = ss_store_path ss, Some path)))"

definition release_session :: "'s server \<Rightarrow> 's owned \<Rightarrow> 's owned" where
  "release_session srv = (\<lambda>(ss, returned).
     close_conn (if ss_gate_held ss then hold_gate False (release_shared srv (ss_gate_key ss) (ss, returned)) else (ss, returned)))"

subsection \<open>What a session holds\<close>

text \<open>A database session without advisory locks, and one with a single shared lock\<close>

definition unlocked :: "('s \<Rightarrow> lock_key \<Rightarrow> nat) \<Rightarrow> ('s \<Rightarrow> lock_key \<Rightarrow> nat) \<Rightarrow> 's \<Rightarrow> bool" where
  "unlocked excl shar s \<longleftrightarrow> excl s = (\<lambda>k. 0) \<and> shar s = (\<lambda>k. 0)"

definition only_shared :: "('s \<Rightarrow> lock_key \<Rightarrow> nat) \<Rightarrow> ('s \<Rightarrow> lock_key \<Rightarrow> nat) \<Rightarrow> lock_key \<Rightarrow> 's \<Rightarrow> bool" where
  "only_shared excl shar k s \<longleftrightarrow> excl s = (\<lambda>k. 0) \<and> shar s = (\<lambda>k. 0)(k := 1)"

text \<open>A session that has no connection, and one that holds the gate unless it lost its connection\<close>

definition closed_session :: "'s session \<Rightarrow> bool" where
  "closed_session ss \<longleftrightarrow> ss_conn ss = None"

definition gate_session :: "('s \<Rightarrow> lock_key \<Rightarrow> nat) \<Rightarrow> ('s \<Rightarrow> lock_key \<Rightarrow> nat) \<Rightarrow> 's session \<Rightarrow> bool" where
  "gate_session excl shar ss \<longleftrightarrow> ss_gate_held ss \<and> (\<forall>s. ss_conn ss = Some s \<longrightarrow> only_shared excl shar (ss_gate_key ss) s)"

definition same_store :: "'s session \<Rightarrow> 's session \<Rightarrow> bool" where
  "same_store ss ss' \<longleftrightarrow> ss_store_path ss' = ss_store_path ss \<and> ss_gate_key ss' = ss_gate_key ss \<and>
     ss_admission_key ss' = ss_admission_key ss"

lemma gate_keys_differ:
  assumes "store_gate_key h resolve p e x = Inr gate" "admission_key h resolve p' e' x' = Inr admission"
  shows "gate \<noteq> admission"
proof -
  obtain a b where "gate = namespaced_key h NS_STORE_GATE a" "admission = namespaced_key h NS_ADMISSION b"
    using assms by (auto simp: store_gate_key_def admission_key_def bindE_eq_Inr)
  then show ?thesis using namespaced_key_distinct [of NS_STORE_GATE NS_ADMISSION h a b] namespaces_members
    by (simp add: namespace_defs)
qed

context lock_server
begin

abbreviation "free \<equiv> unlocked excl shar"

lemma free_invalidate [simp]: "free (sv_invalidate srv s)"
  by (auto simp: unlocked_def fun_eq_iff invalidate_drops)

lemma invalidate_owned:
  "invalidate_conn srv (ss, returned) = (ss\<lparr>ss_conn := None\<rparr>, returned @ (case ss_conn ss of None \<Rightarrow> [] | Some s \<Rightarrow> [sv_invalidate srv s]))"
  by (cases "ss_conn ss") (simp_all add: invalidate_conn_def)

text \<open>Unlocking the last shared lock leaves a free session or none.\<close>

lemma release_last:
  assumes "release_shared srv k (ss, returned) = (ss', returned')"
    and "ss_conn ss = Some s" "excl s = (\<lambda>j. 0)" "shar s = f(k := 1)" "f k = 0"
  shows "\<exists>c extra. ss' = ss\<lparr>ss_conn := c\<rparr> \<and> returned' = returned @ extra \<and> (\<forall>s \<in> set extra. free s) \<and>
    (\<forall>s. c = Some s \<longrightarrow> excl s = (\<lambda>j. 0) \<and> shar s = f)"
proof -
  obtain r s1 where u: "sv_unlock srv False k s = (r, s1)" by fastforce
  show ?thesis
  proof (cases "r = Inr True")
    case True
    with u have "excl s1 = excl s" "shar s1 = (shar s)(k := shar s k - 1)" using unlock_true [of False k s s1] by simp_all
    then have "excl s1 = (\<lambda>j. 0)" "shar s1 = f" using assms(3,4,5) by (auto simp: fun_eq_iff)
    moreover have "ss' = ss\<lparr>ss_conn := Some s1\<rparr>" "returned' = returned"
      using assms(1,2) u True by (simp_all add: release_shared_def)
    ultimately show ?thesis by (intro exI [of _ "Some s1"] exI [of _ "[]"]) simp
  next
    case False
    then have "ss' = ss\<lparr>ss_conn := None\<rparr>" "returned' = returned @ [sv_invalidate srv s1]"
      using assms(1,2) u by (simp_all add: release_shared_def invalidate_owned)
    then show ?thesis by (intro exI [of _ None] exI [of _ "[sv_invalidate srv s1]"]) simp
  qed
qed

lemma acquire_shared_cases:
  assumes "acquire_shared srv k t (ss, returned) = (r, (ss', returned'))" "ss_conn ss = Some s"
  obtains (granted) s1 where "r = Inr ()" "ss' = ss\<lparr>ss_conn := Some s1\<rparr>" "returned' = returned"
      "excl s1 = excl s" "shar s1 = (shar s)(k := Suc (shar s k))"
  | (timeout) s1 where "r = Inl ReaderGateTimeout" "ss' = ss\<lparr>ss_conn := Some s1\<rparr>" "returned' = returned"
      "excl s1 = excl s" "shar s1 = shar s"
  | (lost) e s1 where "r = Inl e" "ss' = ss\<lparr>ss_conn := None\<rparr>" "returned' = returned @ [sv_invalidate srv s1]"
proof -
  let ?ms = "\<lfloor>max 1 (t * 1000)\<rfloor>"
  obtain x s1 where l: "sv_lock srv False k ?ms s = (x, s1)" by fastforce
  show ?thesis
  proof (cases x)
    case None
    show ?thesis by (rule granted [of s1]) (use assms l None lock_ok [of False k ?ms s s1] in \<open>simp_all add: acquire_shared_def\<close>)
  next
    case (Some e)
    show ?thesis
    proof (cases "is_lock_timeout_error e")
      case True
      show ?thesis by (rule timeout [of s1])
        (use assms l Some True lock_timeout [of False k ?ms s e s1] in \<open>simp_all add: acquire_shared_def\<close>)
    next
      case False
      show ?thesis by (rule lost [of "DatabaseError e" s1])
        (use assms l Some False in \<open>simp_all add: acquire_shared_def invalidate_owned\<close>)
    qed
  qed
qed

lemma invalidated_extra: "\<forall>s \<in> set [sv_invalidate srv s1]. free s" by simp

text \<open>What \<open>acquire\<close> leaves behind: the gate, or nothing; a failed unlock of the admission key loses the connection only.\<close>

lemma acquire_session_outcome:
  assumes "acquire_session srv checkout clock t (ss, returned) = (r, (ss', returned'))" "closed_session ss" "\<not> ss_gate_held ss"
    and "\<And>s. checkout = Inr s \<Longrightarrow> free s" "ss_gate_key ss \<noteq> ss_admission_key ss"
  shows "same_store ss ss' \<and> (\<exists>extra. returned' = returned @ extra \<and> (\<forall>s \<in> set extra. free s)) \<and>
    (case r of Inl e \<Rightarrow> closed_session ss' \<and> \<not> ss_gate_held ss' | Inr _ \<Rightarrow> gate_session excl shar ss')"
proof (cases "clock 0 + t \<le> clock 1 \<or> (\<exists>e. checkout = Inl e)")
  case True
  then have "ss' = ss" "returned' = returned" "\<exists>e. r = Inl e"
    using assms(1) by (auto simp: acquire_session_def Let_def split: if_splits)
  then show ?thesis using assms(2,3) by (auto simp: same_store_def)
next
  case False
  then obtain s where s: "checkout = Inr s" "\<not> clock 0 + t \<le> clock 1" by (cases checkout) auto
  have zero: "excl s = (\<lambda>k. 0)" "shar s = (\<lambda>k. 0)" using assms(4) [OF s(1)] by (simp_all add: unlocked_def)
  let ?adm = "ss_admission_key ss" and ?gate = "ss_gate_key ss" and ?ss = "ss\<lparr>ss_conn := Some s\<rparr>"
  let ?ta = "max 0.001 (clock 0 + t - clock 2)" and ?tg = "max 0.001 (clock 0 + t - clock 3)"
  obtain ra ss1 ret1 where a: "acquire_shared srv ?adm ?ta (?ss, returned) = (ra, (ss1, ret1))" by (metis prod_cases3)
  have "ss_conn ?ss = Some s" by simp
  from a this show ?thesis
  proof (cases rule: acquire_shared_cases)
    case (granted s1)
    obtain rg ss2 ret2 where g: "acquire_shared srv ?gate ?tg (ss1, ret1) = (rg, (ss2, ret2))" by (metis prod_cases3)
    have c1: "ss_conn ss1 = Some s1" using granted by simp
    have sh1: "excl s1 = (\<lambda>k. 0)" "shar s1 = (\<lambda>k. 0)(?adm := 1)" using granted zero by simp_all
    from g c1 show ?thesis
    proof (cases rule: acquire_shared_cases)
      case (granted s2)
      let ?held = "ss2\<lparr>ss_gate_held := True\<rparr>"
      obtain ss3 ret3 where rel: "release_shared srv ?adm (?held, ret2) = (ss3, ret3)" by fastforce
      have out: "r = Inr ()" "ss' = ss3" "returned' = ret3"
        using assms(1) s a g \<open>ra = Inr ()\<close> granted(1) rel by (auto simp: acquire_session_def hold_gate_def Let_def)
      have "shar s2 = ((\<lambda>k. 0)(?gate := 1))(?adm := 1)" using granted sh1 assms(5) by auto
      then obtain c extra where c: "ss3 = ?held\<lparr>ss_conn := c\<rparr>" "ret3 = ret2 @ extra" "\<forall>s \<in> set extra. free s"
        "\<forall>s. c = Some s \<longrightarrow> excl s = (\<lambda>j. 0) \<and> shar s = (\<lambda>k. 0)(?gate := 1)"
        using release_last [OF rel, of s2 "(\<lambda>k. 0)(?gate := 1)"] granted sh1 assms(5) by auto
      have "same_store ss ss'" "gate_session excl shar ss'"
        using c(1,4) out granted(2) \<open>ss1 = _\<close> by (simp_all add: same_store_def gate_session_def only_shared_def)
      then show ?thesis using c(2,3) out granted(3) \<open>ret1 = returned\<close> by auto
    next
      case (timeout s2)
      obtain ss3 ret3 where rel: "release_shared srv ?adm (ss2, ret2) = (ss3, ret3)" by fastforce
      have out: "r = Inl ReaderGateTimeout" "(ss', returned') = close_conn (ss3, ret3)"
        using assms(1) s a g \<open>ra = Inr ()\<close> timeout(1) rel by (auto simp: acquire_session_def Let_def)
      have "shar s2 = (\<lambda>k. 0)(?adm := 1)" "excl s2 = (\<lambda>k. 0)" "ss_conn ss2 = Some s2" using timeout sh1 by simp_all
      then obtain c extra where c: "ss3 = ss2\<lparr>ss_conn := c\<rparr>" "ret3 = ret2 @ extra" "\<forall>s \<in> set extra. free s"
        "\<forall>s. c = Some s \<longrightarrow> excl s = (\<lambda>j. 0) \<and> shar s = (\<lambda>k. 0)"
        using release_last [OF rel, of s2 "\<lambda>k. 0"] by auto
      have "ss' = ss3\<lparr>ss_conn := None\<rparr>" "\<exists>extra. returned' = ret3 @ extra \<and> (\<forall>s \<in> set extra. free s)"
        using out(2) c(1,4) by (cases c; simp add: close_conn_def unlocked_def)+
      then show ?thesis using c(1,2,3) out(1) timeout(2,3) \<open>ss1 = _\<close> \<open>ret1 = returned\<close> assms(3)
        by (auto simp: same_store_def closed_session_def)
    next
      case (lost e s2)
      have out: "r = Inl e" "ss' = ss2" "returned' = ret2"
        using assms(1) s a g \<open>ra = Inr ()\<close> lost by (simp_all add: acquire_session_def Let_def release_shared_def close_conn_def)
      then show ?thesis using lost \<open>ss1 = _\<close> \<open>ret1 = returned\<close> assms(3)
        by (auto simp: same_store_def closed_session_def)
    qed
  next
    case (timeout s1)
    have "r = Inl ReaderGateTimeout" "ss' = ss1\<lparr>ss_conn := None\<rparr>" "returned' = returned @ [s1]"
      using assms(1) s a timeout by (simp_all add: acquire_session_def Let_def close_conn_def)
    moreover have "free s1" using timeout zero by (simp add: unlocked_def)
    ultimately show ?thesis using timeout(2) assms(3) by (auto simp: same_store_def closed_session_def)
  next
    case (lost e s1)
    have "r = Inl e" "ss' = ss1" "returned' = ret1"
      using assms(1) s a lost by (simp_all add: acquire_session_def Let_def close_conn_def)
    then show ?thesis using lost assms(3) by (auto simp: same_store_def closed_session_def)
  qed
qed

text \<open>\<open>release\<close> closes the session; every connection it gives back is free of locks.\<close>

lemma release_session_outcome:
  assumes "release_session srv (ss, returned) = (ss', returned')"
    and "gate_session excl shar ss \<or> closed_session ss \<and> \<not> ss_gate_held ss"
  shows "same_store ss ss' \<and> closed_session ss' \<and> \<not> ss_gate_held ss' \<and>
    (\<exists>extra. returned' = returned @ extra \<and> (\<forall>s \<in> set extra. free s))"
proof (cases "ss_conn ss")
  case None
  then show ?thesis using assms by (auto simp: release_session_def close_conn_def release_shared_def hold_gate_def
      same_store_def closed_session_def split: if_splits)
next
  case (Some s)
  then have held: "ss_gate_held ss" "excl s = (\<lambda>k. 0)" "shar s = (\<lambda>k. 0)(ss_gate_key ss := 1)"
    using assms(2) by (auto simp: gate_session_def closed_session_def only_shared_def)
  obtain ss1 ret1 where rel: "release_shared srv (ss_gate_key ss) (ss, returned) = (ss1, ret1)" by fastforce
  obtain c extra where c: "ss1 = ss\<lparr>ss_conn := c\<rparr>" "ret1 = returned @ extra" "\<forall>s \<in> set extra. free s"
    "\<forall>s. c = Some s \<longrightarrow> excl s = (\<lambda>j. 0) \<and> shar s = (\<lambda>k. 0)"
    using release_last [OF rel Some held(2,3)] by auto
  have out: "(ss', returned') = close_conn (ss1\<lparr>ss_gate_held := False\<rparr>, ret1)"
    using assms(1) held(1) rel by (simp add: release_session_def hold_gate_def)
  have "ss' = ss1\<lparr>ss_gate_held := False, ss_conn := None\<rparr>" "\<exists>extra. returned' = ret1 @ extra \<and> (\<forall>s \<in> set extra. free s)"
    using out c(1,4) by (cases c; simp add: close_conn_def unlocked_def)+
  then show ?thesis using c(1,2,3) by (auto simp: same_store_def closed_session_def)
qed

text \<open>A revalidated session still has its connection, hence holds the gate.\<close>

lemma revalidated_holds:
  assumes "revalidate row ss = Inr x" "gate_session excl shar ss"
  obtains s where "ss_conn ss = Some s" "only_shared excl shar (ss_gate_key ss) s"
  using assms by (auto simp: revalidate_def gate_session_def split: if_splits)

end

end
