(* ===== verification/ReaderGate.thy ===== *)
theory ReaderGate
  imports ReaderSession
begin

text \<open>
  Gated reads, \<open>gated_read\<close> of \<open>api/core/reader_gate.py\<close>: many threads share one admission semaphore, one shutdown lifecycle
  and one table of leases, each lease being a session that holds the shared gate of a store. A thread is its position in the
  code; a step runs one critical section, or one action outside any lock, of one thread. The pool and the catalog URL are
  those of the process, so a store path stands for the key of the lease table. The reset of the table in tests is not
  modelled.
\<close>

definition ReaderGateClosing :: py_error where "ReaderGateClosing = DomainError ''ReaderGateClosing'' ''server is shutting down''"
definition FileNotFoundError :: py_error where "FileNotFoundError = DomainError ''FileNotFoundError'' ''run is not a ready, readable run''"

definition MAX_READER_GATE_LEASE_LIFETIME_SECONDS :: real where "MAX_READER_GATE_LEASE_LIFETIME_SECONDS = 5"

datatype lease_state = INITIALIZING | ACTIVE | FAILED | DRAINING | CLOSED

record 's lease =
  le_session :: "'s session"
  le_created_at :: real
  le_ref_count :: int
  le_state :: lease_state
  le_error :: "py_error option"

text \<open>The positions in \<open>gated_read\<close>; a number is a lease, the outcome is that of the read. The clock is read before the lock of the
  lease table is taken, so a thread comes to the table with a reading that may be old.\<close>

datatype 'a position =
    AtSemaphore | AtEnter | AtClock | AtJoin real
  | AtAcquire nat | AtRevalidate nat | AtActivate nat
  | AtFail nat py_error | AtUnlist nat py_error | AtDispose nat py_error | AtDrop nat py_error
  | AtWait nat | AtRead nat | AtExit nat "'a result" | AtUncache nat "'a result" | AtRelease nat "'a result"
  | AtLeave "'a result" | AtPost "'a result" | Finished "'a result"

record 'a thread =
  rt_store_path :: string
  rt_deadline :: real
  rt_position :: "'a position"

record ('s, 'a) gate =
  gs_now :: real
  gs_permits :: nat
  gs_closing :: bool
  gs_active :: int
  gs_leases :: "string \<rightharpoonup> nat"
  gs_heap :: "'s lease list"
  gs_threads :: "'a thread list"
  gs_returned :: "'s list"

text \<open>What a step may learn from outside: the pool, the clock readings inside \<open>acquire\<close>, the catalog and the reader's function\<close>

record ('s, 'a) answers =
  an_checkout :: "py_error + 's"
  an_clock :: "nat \<Rightarrow> real"
  an_row :: "py_error + (string \<times> string) option"
  an_value :: "'a result"

definition start_gate :: "int \<Rightarrow> ('s, 'a) gate" where
  "start_gate max_concurrent_gated_reads = \<lparr>gs_now = 0, gs_permits = nat (max 1 max_concurrent_gated_reads), gs_closing = False,
     gs_active = 0, gs_leases = Map.empty, gs_heap = [], gs_threads = [], gs_returned = []\<rparr>"

definition goto :: "nat \<Rightarrow> 'a position \<Rightarrow> ('s, 'a) gate \<Rightarrow> ('s, 'a) gate" where
  "goto t p g = g\<lparr>gs_threads := (gs_threads g)[t := (gs_threads g ! t)\<lparr>rt_position := p\<rparr>]\<rparr>"

definition set_lease :: "nat \<Rightarrow> ('s lease \<Rightarrow> 's lease) \<Rightarrow> ('s, 'a) gate \<Rightarrow> ('s, 'a) gate" where
  "set_lease lid f g = g\<lparr>gs_heap := (gs_heap g)[lid := f (gs_heap g ! lid)]\<rparr>"

definition joinable :: "real \<Rightarrow> 's lease \<Rightarrow> bool" where
  "joinable now le \<longleftrightarrow> le_state le \<in> {INITIALIZING, ACTIVE} \<and> now - le_created_at le < MAX_READER_GATE_LEASE_LIFETIME_SECONDS"

definition acquire_or_join_lease ::
    "(string \<Rightarrow> 64 word) \<Rightarrow> (string \<Rightarrow> string) \<Rightarrow> nat \<Rightarrow> string \<Rightarrow> real \<Rightarrow> ('s, 'a) gate \<Rightarrow> ('s, 'a) gate" where
  "acquire_or_join_lease h resolve t store_path now g =
     (let create = (case ReaderGateSession h resolve store_path of
          Inl e \<Rightarrow> goto t (AtLeave (Inl e)) g
        | Inr ss \<Rightarrow>
            let lid = length (gs_heap g);
                lease = \<lparr>le_session = ss, le_created_at = now, le_ref_count = 1, le_state = INITIALIZING, le_error = None\<rparr>
            in goto t (AtAcquire lid) (g\<lparr>gs_heap := gs_heap g @ [lease], gs_leases := (gs_leases g)(store_path \<mapsto> lid)\<rparr>))
      in case gs_leases g store_path of None \<Rightarrow> create
         | Some lid \<Rightarrow>
             if joinable now (gs_heap g ! lid)
             then goto t (AtWait lid) (set_lease lid (\<lambda>le. le\<lparr>le_ref_count := le_ref_count le + 1\<rparr>) g)
             else create)"

definition drop_ref :: "nat \<Rightarrow> ('s, 'a) gate \<Rightarrow> ('s, 'a) gate" where
  "drop_ref lid = set_lease lid (\<lambda>le. le\<lparr>le_ref_count := le_ref_count le - 1\<rparr>)"

definition uncache :: "string \<Rightarrow> nat \<Rightarrow> ('s, 'a) gate \<Rightarrow> ('s, 'a) gate" where
  "uncache store_path lid g =
     (if gs_leases g store_path = Some lid then g\<lparr>gs_leases := (gs_leases g)(store_path := None)\<rparr> else g)"

definition close_lease :: "'s server \<Rightarrow> nat \<Rightarrow> ('s, 'a) gate \<Rightarrow> ('s, 'a) gate" where
  "close_lease srv lid g = (case release_session srv (le_session (gs_heap g ! lid), gs_returned g) of (ss, returned) \<Rightarrow>
     set_lease lid (\<lambda>le. le\<lparr>le_session := ss\<rparr>) (g\<lparr>gs_returned := returned\<rparr>))"

text \<open>What a reader that waited on a failed lease raises\<close>

definition joined_error :: "py_error option \<Rightarrow> py_error" where
  "joined_error err = (case err of Some (DomainError cls msg) \<Rightarrow>
       if cls \<in> {''FileNotFoundError'', ''ReaderGateTimeout''} then DomainError cls msg
       else DomainError ''RuntimeError'' ''reader gate lease failed during initialization''
     | _ \<Rightarrow> DomainError ''RuntimeError'' ''reader gate lease failed during initialization'')"

text \<open>One step of a thread; no step means that the thread waits or has finished.\<close>

definition thread_step ::
    "'s server \<Rightarrow> (string \<Rightarrow> 64 word) \<Rightarrow> (string \<Rightarrow> string) \<Rightarrow> ('s, 'a) answers \<Rightarrow> nat \<Rightarrow> ('s, 'a) gate \<Rightarrow> ('s, 'a) gate option" where
  "thread_step srv h resolve ans t g =
     (let th = gs_threads g ! t; path = rt_store_path th; late = rt_deadline th - gs_now g in
      case rt_position th of
        AtSemaphore \<Rightarrow>
          if 0 < gs_permits g then Some (goto t AtEnter (g\<lparr>gs_permits := gs_permits g - 1\<rparr>))
          else if late \<le> 0 then Some (goto t (Finished (Inl ReaderGateTimeout)) g) else None
      | AtEnter \<Rightarrow>
          Some (if gs_closing g then goto t (AtPost (Inl ReaderGateClosing)) g
                else goto t AtClock (g\<lparr>gs_active := gs_active g + 1\<rparr>))
      | AtClock \<Rightarrow> Some (goto t (AtJoin (gs_now g)) g)
      | AtJoin now \<Rightarrow> Some (acquire_or_join_lease h resolve t path now g)
      | AtAcquire lid \<Rightarrow>
          (case acquire_session srv (an_checkout ans) (an_clock ans) (max 0.001 late) (le_session (gs_heap g ! lid), gs_returned g) of
             (r, (ss, returned)) \<Rightarrow>
               let g1 = set_lease lid (\<lambda>le. le\<lparr>le_session := ss\<rparr>) (g\<lparr>gs_returned := returned\<rparr>)
               in Some (goto t (case r of Inl e \<Rightarrow> AtFail lid e | Inr _ \<Rightarrow> AtRevalidate lid) g1))
      | AtRevalidate lid \<Rightarrow>
          Some (goto t (case revalidate (an_row ans) (le_session (gs_heap g ! lid)) of
              Inl e \<Rightarrow> AtFail lid e
            | Inr (ok, _) \<Rightarrow> if ok then AtActivate lid else AtFail lid FileNotFoundError) g)
      | AtActivate lid \<Rightarrow> Some (goto t (AtRead lid) (set_lease lid (\<lambda>le. le\<lparr>le_state := ACTIVE\<rparr>) g))
      | AtFail lid e \<Rightarrow> Some (goto t (AtUnlist lid e) (set_lease lid (\<lambda>le. le\<lparr>le_state := FAILED, le_error := Some e\<rparr>) g))
      | AtUnlist lid e \<Rightarrow> Some (goto t (AtDispose lid e) (uncache path lid g))
      | AtDispose lid e \<Rightarrow> Some (goto t (AtDrop lid e) (close_lease srv lid g))
      | AtDrop lid e \<Rightarrow> Some (goto t (AtLeave (Inl e)) (drop_ref lid g))
      | AtWait lid \<Rightarrow>
          (let le = gs_heap g ! lid in case le_state le of
             INITIALIZING \<Rightarrow> if late \<le> 0.001 then Some (goto t (AtLeave (Inl ReaderGateTimeout)) (drop_ref lid g)) else None
           | FAILED \<Rightarrow> Some (goto t (AtLeave (Inl (joined_error (le_error le)))) (drop_ref lid g))
           | _ \<Rightarrow> Some (goto t (AtRead lid) g))
      | AtRead lid \<Rightarrow> Some (goto t (AtExit lid (an_value ans)) g)
      | AtExit lid v \<Rightarrow>
          (let g1 = drop_ref lid g in
           Some (if le_ref_count (gs_heap g1 ! lid) \<le> 0
                 then goto t (AtUncache lid v) (set_lease lid (\<lambda>le. le\<lparr>le_state := CLOSED\<rparr>) g1)
                 else goto t (AtLeave v) g1))
      | AtUncache lid v \<Rightarrow> Some (goto t (AtRelease lid v) (uncache path lid g))
      | AtRelease lid v \<Rightarrow> Some (goto t (AtLeave v) (close_lease srv lid g))
      | AtLeave v \<Rightarrow> Some (goto t (AtPost v) (g\<lparr>gs_active := gs_active g - 1\<rparr>))
      | AtPost v \<Rightarrow> Some (goto t (Finished v) (g\<lparr>gs_permits := gs_permits g + 1\<rparr>))
      | Finished v \<Rightarrow> None)"

text \<open>The steps of the process: a thread's, a new request, the clock, the start of the shutdown. The pool hands out connections
  without locks.\<close>

inductive gate_step ::
    "'s server \<Rightarrow> ('s \<Rightarrow> bool) \<Rightarrow> (string \<Rightarrow> 64 word) \<Rightarrow> (string \<Rightarrow> string) \<Rightarrow> ('s, 'a) gate \<Rightarrow> ('s, 'a) gate \<Rightarrow> bool"
  for srv clean h resolve where
  run: "t < length (gs_threads g) \<Longrightarrow> (\<And>s. an_checkout ans = Inr s \<Longrightarrow> clean s) \<Longrightarrow>
      thread_step srv h resolve ans t g = Some g' \<Longrightarrow> gate_step srv clean h resolve g g'"
| request: "gate_step srv clean h resolve g
      (g\<lparr>gs_threads := gs_threads g @ [\<lparr>rt_store_path = path, rt_deadline = deadline, rt_position = AtSemaphore\<rparr>]\<rparr>)"
| tick: "gs_now g \<le> now \<Longrightarrow> gate_step srv clean h resolve g (g\<lparr>gs_now := now\<rparr>)"
| begin_shutdown: "gate_step srv clean h resolve g (g\<lparr>gs_closing := True\<rparr>)"

end
