(* ===== verification/ReaderGateSafety.thy ===== *)
theory ReaderGateSafety
  imports ReaderGate
begin

text \<open>
  What holds in every reachable state of \<open>ReaderGate\<close>: the counters count what they should, each lease is in the phase its
  threads are in, and a thread that reads holds the shared gate.
\<close>

subsection \<open>Counting threads\<close>

fun lease_of :: "'a position \<Rightarrow> nat option" where
  "lease_of (AtAcquire l) = Some l" | "lease_of (AtRevalidate l) = Some l" | "lease_of (AtActivate l) = Some l"
| "lease_of (AtFail l e) = Some l" | "lease_of (AtUnlist l e) = Some l" | "lease_of (AtDispose l e) = Some l"
| "lease_of (AtDrop l e) = Some l" | "lease_of (AtWait l) = Some l" | "lease_of (AtRead l) = Some l"
| "lease_of (AtExit l v) = Some l" | "lease_of (AtUncache l v) = Some l" | "lease_of (AtRelease l v) = Some l"
| "lease_of p = None"

text \<open>The positions that count as a reference, those that own the session, those about to take the lease off the table\<close>

fun refers :: "'a position \<Rightarrow> bool" where
  "refers (AtUncache l v) = False" | "refers (AtRelease l v) = False" | "refers p = (lease_of p \<noteq> None)"

fun owns :: "'a position \<Rightarrow> bool" where
  "owns (AtDrop l e) = False" | "owns (AtWait l) = False" | "owns (AtRead l) = False" | "owns (AtExit l v) = False"
| "owns p = (lease_of p \<noteq> None)"

fun unlists :: "'a position \<Rightarrow> bool" where
  "unlists (AtUnlist l e) = True" | "unlists (AtUncache l v) = True" | "unlists p = False"

fun inside :: "'a position \<Rightarrow> bool" where
  "inside AtSemaphore = False" | "inside (Finished v) = False" | "inside p = True"

fun entered :: "'a position \<Rightarrow> bool" where
  "entered AtSemaphore = False" | "entered AtEnter = False" | "entered (AtPost v) = False" | "entered (Finished v) = False"
| "entered p = True"

definition count_pos :: "('a position \<Rightarrow> bool) \<Rightarrow> 'a thread list \<Rightarrow> int" where
  "count_pos P ths = (\<Sum>th \<leftarrow> ths. of_bool (P (rt_position th)))"

definition on_lease :: "nat \<Rightarrow> ('a position \<Rightarrow> bool) \<Rightarrow> 'a position \<Rightarrow> bool" where
  "on_lease lid P p \<longleftrightarrow> lease_of p = Some lid \<and> P p"

lemma count_pos_simps [simp]:
  "count_pos P [] = 0" "count_pos P (th # ths) = of_bool (P (rt_position th)) + count_pos P ths"
  "count_pos P (ths @ ths') = count_pos P ths + count_pos P ths'"
  by (simp_all add: count_pos_def)

lemma count_update:
  "t < length ths \<Longrightarrow> count_pos P (ths[t := th]) = count_pos P ths + of_bool (P (rt_position th)) - of_bool (P (rt_position (ths ! t)))"
proof (induction ths arbitrary: t)
  case (Cons a ths)
  then show ?case by (cases t) simp_all
qed simp

lemma count_nonneg [simp]: "0 \<le> count_pos P ths"
  by (induction ths) simp_all

lemma count_zero: "count_pos P ths = 0 \<longleftrightarrow> (\<forall>th \<in> set ths. \<not> P (rt_position th))"
proof (induction ths)
  case (Cons a ths)
  have "0 \<le> count_pos P ths" by simp
  with Cons show ?case by (cases "P (rt_position a)") (auto simp del: count_nonneg)
qed simp

lemma count_witness: "0 < count_pos P ths \<Longrightarrow> \<exists>t < length ths. P (rt_position (ths ! t))"
  using count_zero [of P ths] by (metis in_set_conv_nth less_irrefl)

lemma count_member: "t < length ths \<Longrightarrow> P (rt_position (ths ! t)) \<Longrightarrow> 1 \<le> count_pos P ths"
proof -
  assume "t < length ths" "P (rt_position (ths ! t))"
  then have "count_pos P ths \<noteq> 0" unfolding count_zero by (meson nth_mem)
  with count_nonneg [of P ths] show ?thesis by linarith
qed

lemma count_mono: "(\<And>p. P p \<Longrightarrow> Q p) \<Longrightarrow> count_pos P ths \<le> count_pos Q ths"
  by (induction ths) (auto simp: of_bool_def)

lemma count_other:
  assumes "t < length ths" "u < length ths" "u \<noteq> t" "P (rt_position (ths ! u))"
  shows "1 \<le> count_pos P ths - of_bool (P (rt_position (ths ! t)))"
  using assms
proof (induction ths arbitrary: t u)
  case (Cons a ths)
  show ?case
  proof (cases t)
    case 0
    with Cons.prems obtain u' where "u = Suc u'" "u' < length ths" by (cases u) auto
    with Cons.prems 0 show ?thesis using count_member [of u' ths P] by simp
  next
    case t: (Suc t')
    show ?thesis
    proof (cases u)
      case 0
      have "of_bool (P (rt_position (ths ! t'))) \<le> count_pos P ths"
        using Cons.prems t count_member [of t' ths P] by (cases "P (rt_position (ths ! t'))") simp_all
      with Cons.prems 0 t show ?thesis by simp
    next
      case (Suc u')
      with Cons.prems t Cons.IH [of t' u'] show ?thesis by (cases "P (rt_position a)") simp_all
    qed
  qed
qed simp

subsection \<open>The invariant\<close>

context lock_server
begin

definition good_session :: "'s session \<Rightarrow> bool" where
  "good_session ss \<longleftrightarrow> gate_session excl shar ss \<and> ss_conn ss \<noteq> None"

definition loose_session :: "'s session \<Rightarrow> bool" where
  "loose_session ss \<longleftrightarrow> gate_session excl shar ss \<or> closed_session ss \<and> \<not> ss_gate_held ss"

text \<open>What a position says about its lease\<close>

fun pos_ok :: "'s lease \<Rightarrow> 'b position \<Rightarrow> bool" where
  "pos_ok le (AtAcquire l) = (le_state le = INITIALIZING \<and> closed_session (le_session le) \<and> \<not> ss_gate_held (le_session le))"
| "pos_ok le (AtRevalidate l) = (le_state le = INITIALIZING \<and> gate_session excl shar (le_session le))"
| "pos_ok le (AtActivate l) = (le_state le = INITIALIZING \<and> good_session (le_session le))"
| "pos_ok le (AtFail l e) = (le_state le = INITIALIZING \<and> loose_session (le_session le))"
| "pos_ok le (AtUnlist l e) = (le_state le = FAILED \<and> loose_session (le_session le))"
| "pos_ok le (AtDispose l e) = (le_state le = FAILED \<and> loose_session (le_session le))"
| "pos_ok le (AtDrop l e) = (le_state le = FAILED)"
| "pos_ok le (AtWait l) = (le_state le \<in> {INITIALIZING, ACTIVE, FAILED})"
| "pos_ok le (AtRead l) = (le_state le = ACTIVE)"
| "pos_ok le (AtExit l v) = (le_state le = ACTIVE)"
| "pos_ok le (AtUncache l v) = (le_state le = CLOSED \<and> good_session (le_session le))"
| "pos_ok le (AtRelease l v) = (le_state le = CLOSED \<and> good_session (le_session le))"
| "pos_ok le p = True"

text \<open>What a lease says about its keys, and about its threads: how many refer to it and how many own its session\<close>

definition session_keys :: "(string \<Rightarrow> 64 word) \<Rightarrow> (string \<Rightarrow> string) \<Rightarrow> 's session \<Rightarrow> bool" where
  "session_keys h resolve ss \<longleftrightarrow> store_gate_key h resolve (ss_store_path ss) None False = Inr (ss_gate_key ss) \<and>
     admission_key h resolve (ss_store_path ss) None False = Inr (ss_admission_key ss)"

definition lease_ok :: "(string \<Rightarrow> 64 word) \<Rightarrow> (string \<Rightarrow> string) \<Rightarrow> 's lease \<Rightarrow> int \<Rightarrow> int \<Rightarrow> bool" where
  "lease_ok h resolve le refs owners \<longleftrightarrow> le_ref_count le = refs \<and> session_keys h resolve (le_session le) \<and>
     (case le_state le of
        INITIALIZING \<Rightarrow> owners = 1
      | ACTIVE \<Rightarrow> owners = 0 \<and> 0 < refs \<and> good_session (le_session le)
      | FAILED \<Rightarrow> owners \<le> 1 \<and> (owners = 0 \<longrightarrow> closed_session (le_session le))
      | CLOSED \<Rightarrow> refs = 0 \<and> owners \<le> 1 \<and> (owners = 0 \<longrightarrow> closed_session (le_session le))
      | DRAINING \<Rightarrow> False)"

definition gate_inv :: "(string \<Rightarrow> 64 word) \<Rightarrow> (string \<Rightarrow> string) \<Rightarrow> int \<Rightarrow> ('s, 'b) gate \<Rightarrow> bool" where
  "gate_inv h resolve cap g \<longleftrightarrow>
     int (gs_permits g) + count_pos inside (gs_threads g) = cap \<and>
     gs_active g = count_pos entered (gs_threads g) \<and>
     (\<forall>s \<in> set (gs_returned g). free s) \<and>
     (\<forall>l < length (gs_heap g). lease_ok h resolve (gs_heap g ! l) (count_pos (on_lease l refers) (gs_threads g))
        (count_pos (on_lease l owns) (gs_threads g))) \<and>
     (\<forall>t < length (gs_threads g). \<forall>l. lease_of (rt_position (gs_threads g ! t)) = Some l \<longrightarrow>
        l < length (gs_heap g) \<and> ss_store_path (le_session (gs_heap g ! l)) = rt_store_path (gs_threads g ! t) \<and>
        pos_ok (gs_heap g ! l) (rt_position (gs_threads g ! t))) \<and>
     (\<forall>p l. gs_leases g p = Some l \<longrightarrow> l < length (gs_heap g) \<and> ss_store_path (le_session (gs_heap g ! l)) = p \<and>
        (le_state (gs_heap g ! l) \<in> {INITIALIZING, ACTIVE} \<or> 0 < count_pos (on_lease l unlists) (gs_threads g)))"

lemma gate_invD:
  assumes "gate_inv h resolve cap g"
  shows "int (gs_permits g) + count_pos inside (gs_threads g) = cap" "gs_active g = count_pos entered (gs_threads g)"
    and "s \<in> set (gs_returned g) \<Longrightarrow> free s"
    and "l < length (gs_heap g) \<Longrightarrow> lease_ok h resolve (gs_heap g ! l) (count_pos (on_lease l refers) (gs_threads g)) (count_pos (on_lease l owns) (gs_threads g))"
    and "t < length (gs_threads g) \<Longrightarrow> lease_of (rt_position (gs_threads g ! t)) = Some l \<Longrightarrow>
        l < length (gs_heap g) \<and> ss_store_path (le_session (gs_heap g ! l)) = rt_store_path (gs_threads g ! t) \<and>
        pos_ok (gs_heap g ! l) (rt_position (gs_threads g ! t))"
    and "gs_leases g p = Some l \<Longrightarrow> l < length (gs_heap g) \<and> ss_store_path (le_session (gs_heap g ! l)) = p \<and>
        (le_state (gs_heap g ! l) \<in> {INITIALIZING, ACTIVE} \<or> 0 < count_pos (on_lease l unlists) (gs_threads g))"
  using assms by (auto simp: gate_inv_def)

text \<open>A thread moves and at most the lease \<open>lid\<close> changes, which may be a new one.\<close>

lemma inv_move:
  fixes g :: "('s, 'b) gate"
  assumes inv: "gate_inv h resolve cap g" and t: "t < length (gs_threads g)" "rt_position (gs_threads g ! t) = p0"
    and g': "g' = goto t p g1" "gs_threads g1 = gs_threads g"
    and own: "lease_of p0 \<in> {None, Some lid}" "lease_of p \<in> {None, Some lid}"
    and permits: "int (gs_permits g1) + of_bool (inside p) - of_bool (inside p0) = int (gs_permits g)"
    and active: "gs_active g1 = gs_active g + of_bool (entered p) - of_bool (entered p0)"
    and returned: "\<And>s. s \<in> set (gs_returned g1) \<Longrightarrow> s \<in> set (gs_returned g) \<or> free s"
    and heap: "length (gs_heap g) \<le> length (gs_heap g1)" "\<And>l. l < length (gs_heap g1) \<Longrightarrow> l \<noteq> lid \<Longrightarrow> l < length (gs_heap g) \<and> gs_heap g1 ! l = gs_heap g ! l"
      "lid < length (gs_heap g) \<Longrightarrow> lid < length (gs_heap g1) \<and> ss_store_path (le_session (gs_heap g1 ! lid)) = ss_store_path (le_session (gs_heap g ! lid))"
    and lease: "lid < length (gs_heap g1) \<Longrightarrow> lease_ok h resolve (gs_heap g1 ! lid)
        (count_pos (on_lease lid refers) (gs_threads g) + of_bool (refers p) - of_bool (refers p0))
        (count_pos (on_lease lid owns) (gs_threads g) + of_bool (owns p) - of_bool (owns p0))"
    and new: "lease_of p = Some lid \<Longrightarrow> lid < length (gs_heap g1) \<and> ss_store_path (le_session (gs_heap g1 ! lid)) = rt_store_path (gs_threads g ! t) \<and>
        pos_ok (gs_heap g1 ! lid) p"
    and others: "\<And>q :: 'b position. lid < length (gs_heap g) \<Longrightarrow> lease_of q = Some lid \<Longrightarrow> pos_ok (gs_heap g ! lid) q \<Longrightarrow>
        (owns q \<Longrightarrow> 1 \<le> count_pos (on_lease lid owns) (gs_threads g) - of_bool (owns p0)) \<Longrightarrow>
        (refers q \<Longrightarrow> 1 \<le> count_pos (on_lease lid refers) (gs_threads g) - of_bool (refers p0)) \<Longrightarrow> pos_ok (gs_heap g1 ! lid) q"
    and leases: "\<And>path l. gs_leases g1 path = Some l \<Longrightarrow> l \<noteq> lid \<Longrightarrow> gs_leases g path = Some l"
      "\<And>path. gs_leases g1 path = Some lid \<Longrightarrow> lid < length (gs_heap g1) \<and> ss_store_path (le_session (gs_heap g1 ! lid)) = path \<and>
        (le_state (gs_heap g1 ! lid) \<in> {INITIALIZING, ACTIVE} \<or>
         0 < count_pos (on_lease lid unlists) (gs_threads g) + of_bool (unlists p) - of_bool (unlists p0))"
  shows "gate_inv h resolve cap g'"
proof -
  have refers_lease: "refers q \<Longrightarrow> lease_of q \<noteq> None" "owns q \<Longrightarrow> lease_of q \<noteq> None" "unlists q \<Longrightarrow> lease_of q \<noteq> None" for q :: "'b position"
    by (cases q; simp)+
  have on: "of_bool (on_lease l P q) = (if l = lid then of_bool (P q) else (0 :: int))"
    if "lease_of q \<in> {None, Some lid}" "\<And>q :: 'b position. P q \<Longrightarrow> lease_of q \<noteq> None" for l P and q :: "'b position"
    using that(1) that(2) [of q] by (cases "P q") (auto simp: on_lease_def)
  let ?ths = "gs_threads g'"
  have ths: "?ths = (gs_threads g)[t := (gs_threads g ! t)\<lparr>rt_position := p\<rparr>]" using g' by (simp add: goto_def)
  have cnt: "count_pos P ?ths = count_pos P (gs_threads g) + of_bool (P p) - of_bool (P p0)" for P
    unfolding ths using count_update [OF t(1)] t(2) by simp
  have cntl: "count_pos (on_lease l P) ?ths = count_pos (on_lease l P) (gs_threads g) + (if l = lid then of_bool (P p) - of_bool (P p0) else 0)"
    if "\<And>q :: 'b position. P q \<Longrightarrow> lease_of q \<noteq> None" for l P
    using cnt [of "on_lease l P"] on [OF own(1), of P l] on [OF own(2), of P l] that by simp
  have same: "gs_permits g' = gs_permits g1" "gs_active g' = gs_active g1" "gs_returned g' = gs_returned g1" "gs_heap g' = gs_heap g1"
    "gs_leases g' = gs_leases g1" using g' by (simp_all add: goto_def)
  note old = gate_invD [OF inv]
  show ?thesis
    unfolding gate_inv_def same
  proof (intro conjI allI ballI impI)
    show "int (gs_permits g1) + count_pos inside ?ths = cap" using permits old(1) cnt by simp
    show "gs_active g1 = count_pos entered ?ths" using active old(2) cnt by simp
    show "free s" if "s \<in> set (gs_returned g1)" for s using returned [OF that] old(3) by blast
    show "lease_ok h resolve (gs_heap g1 ! l) (count_pos (on_lease l refers) ?ths) (count_pos (on_lease l owns) ?ths)" if "l < length (gs_heap g1)" for l
    proof (cases "l = lid")
      case True
      have "count_pos (on_lease lid refers) ?ths = count_pos (on_lease lid refers) (gs_threads g) + of_bool (refers p) - of_bool (refers p0)"
        "count_pos (on_lease lid owns) ?ths = count_pos (on_lease lid owns) (gs_threads g) + of_bool (owns p) - of_bool (owns p0)"
        using cntl [of refers lid, OF refers_lease(1)] cntl [of owns lid, OF refers_lease(2)] by simp_all
      then show ?thesis using lease that True by (simp only:)
    next
      case False
      with heap(2) [OF that] old(4) show ?thesis using cntl [of refers l, OF refers_lease(1)] cntl [of owns l, OF refers_lease(2)] by simp
    qed
  next
    fix u l assume u: "u < length ?ths" "lease_of (rt_position (?ths ! u)) = Some l"
    have "l < length (gs_heap g1) \<and> ss_store_path (le_session (gs_heap g1 ! l)) = rt_store_path (?ths ! u) \<and> pos_ok (gs_heap g1 ! l) (rt_position (?ths ! u))"
    proof (cases "u = t")
      case True
      then have "l = lid" "lease_of p = Some lid" using u own(2) t(1) ths by auto
      with new True t(1) ths show ?thesis by simp
    next
      case False
      then have eq: "?ths ! u = gs_threads g ! u" using ths by simp
      let ?q = "rt_position (gs_threads g ! u)"
      have u': "u < length (gs_threads g)" "lease_of ?q = Some l" using u eq ths by simp_all
      note o = old(5) [OF u']
      show ?thesis
      proof (cases "l = lid")
        case True
        have "1 \<le> count_pos (on_lease lid P) (gs_threads g) - of_bool (P p0)"
          if "P ?q" "\<And>q :: 'b position. P q \<Longrightarrow> lease_of q \<noteq> None" for P
          using count_other [OF t(1) u'(1) False, of "on_lease lid P"] on [OF own(1), of P lid] that t(2) u'(2) True by (simp add: on_lease_def)
        then have "pos_ok (gs_heap g1 ! lid) ?q" using others [of ?q] o u'(2) True refers_lease by blast
        with o heap(3) True eq show ?thesis by simp
      next
        case l: False
        then have "l < length (gs_heap g1)" using o heap(1) by simp
        with heap(2) [OF this l] o eq show ?thesis by simp
      qed
    qed
    then show "l < length (gs_heap g1)" "ss_store_path (le_session (gs_heap g1 ! l)) = rt_store_path (?ths ! u)"
      "pos_ok (gs_heap g1 ! l) (rt_position (?ths ! u))" by blast+
  next
    fix path l assume l: "gs_leases g1 path = Some l"
    have "l < length (gs_heap g1) \<and> ss_store_path (le_session (gs_heap g1 ! l)) = path \<and>
      (le_state (gs_heap g1 ! l) \<in> {INITIALIZING, ACTIVE} \<or> 0 < count_pos (on_lease l unlists) ?ths)"
    proof (cases "l = lid")
      case True
      have "count_pos (on_lease lid unlists) ?ths = count_pos (on_lease lid unlists) (gs_threads g) + of_bool (unlists p) - of_bool (unlists p0)"
        using cntl [of unlists lid, OF refers_lease(3)] by simp
      then show ?thesis using leases(2) [of path] l True by (simp only:)
    next
      case False
      note o = old(6) [OF leases(1) [OF l False]]
      then have "l < length (gs_heap g1)" using heap(1) by simp
      with heap(2) [OF this False] o show ?thesis using cntl [of unlists l, OF refers_lease(3)] False by simp
    qed
    then show "l < length (gs_heap g1)" "ss_store_path (le_session (gs_heap g1 ! l)) = path"
      "le_state (gs_heap g1 ! l) \<in> {INITIALIZING, ACTIVE} \<or> 0 < count_pos (on_lease l unlists) ?ths" by blast+
  qed
qed

text \<open>A move that touches no lease\<close>

lemma inv_plain:
  fixes g :: "('s, 'b) gate"
  assumes "gate_inv h resolve cap g" "t < length (gs_threads g)" "rt_position (gs_threads g ! t) = p0"
    and "g' = goto t p (g\<lparr>gs_permits := n, gs_active := a\<rparr>)" "lease_of p0 = None" "lease_of p = None"
    and "int n + of_bool (inside p) - of_bool (inside p0) = int (gs_permits g)"
    and "a = gs_active g + of_bool (entered p) - of_bool (entered p0)"
  shows "gate_inv h resolve cap g'"
proof -
  have none: "\<not> refers q" "\<not> owns q" "\<not> unlists q" if "lease_of q = None" for q :: "'b position"
    using that by (cases q; simp)+
  have new: "l = length (gs_heap g) \<Longrightarrow> \<not> l < length (gs_heap g)" for l by simp
  show ?thesis
    by (rule inv_move [OF assms(1,2,3,4), where lid = "length (gs_heap g)"])
      (use assms(5-8) gate_invD(6) [OF assms(1)] none [OF assms(5)] none [OF assms(6)] in \<open>auto dest: gate_invD(6) [OF assms(1)]\<close>)
qed

text \<open>A move that touches one existing lease\<close>

lemma inv_lease:
  fixes g :: "('s, 'b) gate"
  assumes inv: "gate_inv h resolve cap g" and t: "t < length (gs_threads g)" "rt_position (gs_threads g ! t) = p0"
    and own: "lease_of p0 = Some lid" "lease_of p \<in> {None, Some lid}"
    and g': "g' = goto t p (set_lease lid f (g\<lparr>gs_returned := returned, gs_leases := leases\<rparr>))"
    and plain: "inside p" "entered p" "inside p0" "entered p0"
    and returned: "\<And>s. s \<in> set returned \<Longrightarrow> s \<in> set (gs_returned g) \<or> free s"
    and table: "leases = gs_leases g \<or> unlists p0 \<and> leases = gs_leases (uncache (rt_store_path (gs_threads g ! t)) lid g)"
    and unlists: "unlists p0 \<Longrightarrow> leases = gs_leases (uncache (rt_store_path (gs_threads g ! t)) lid g)"
    and store: "ss_store_path (le_session (f (gs_heap g ! lid))) = ss_store_path (le_session (gs_heap g ! lid))"
    and lease: "\<And>refs owners. lease_ok h resolve (gs_heap g ! lid) refs owners \<Longrightarrow> pos_ok (gs_heap g ! lid) p0 \<Longrightarrow> of_bool (refers p0) \<le> refs \<Longrightarrow>
        of_bool (owns p0) \<le> owners \<Longrightarrow>
        lease_ok h resolve (f (gs_heap g ! lid)) (refs + of_bool (refers p) - of_bool (refers p0)) (owners + of_bool (owns p) - of_bool (owns p0))"
    and new: "\<And>refs owners. lease_of p = Some lid \<Longrightarrow> lease_ok h resolve (gs_heap g ! lid) refs owners \<Longrightarrow> pos_ok (gs_heap g ! lid) p0 \<Longrightarrow>
        pos_ok (f (gs_heap g ! lid)) p"
    and others: "\<And>refs owners (q :: 'b position). lease_ok h resolve (gs_heap g ! lid) refs owners \<Longrightarrow> pos_ok (gs_heap g ! lid) p0 \<Longrightarrow>
        lease_of q = Some lid \<Longrightarrow> pos_ok (gs_heap g ! lid) q \<Longrightarrow>
        (owns q \<Longrightarrow> 1 \<le> owners - of_bool (owns p0)) \<Longrightarrow> (refers q \<Longrightarrow> 1 \<le> refs - of_bool (refers p0)) \<Longrightarrow> pos_ok (f (gs_heap g ! lid)) q"
    and stay: "pos_ok (gs_heap g ! lid) p0 \<Longrightarrow> le_state (f (gs_heap g ! lid)) \<in> {INITIALIZING, ACTIVE} \<or> unlists p \<or>
        unlists p0 \<or> le_state (gs_heap g ! lid) \<notin> {INITIALIZING, ACTIVE}"
  shows "gate_inv h resolve cap g'"
proof -
  note old = gate_invD [OF inv]
  have o: "lid < length (gs_heap g)" "ss_store_path (le_session (gs_heap g ! lid)) = rt_store_path (gs_threads g ! t)"
    "pos_ok (gs_heap g ! lid) p0" using old(5) [OF t(1), of lid] t(2) own(1) by simp_all
  let ?n = "\<lambda>P. count_pos (on_lease lid P) (gs_threads g)"
  have ge: "of_bool (P p0) \<le> ?n P" for P
    using count_member [OF t(1), of "on_lease lid P"] t(2) own(1) by (cases "P p0") (simp_all add: on_lease_def)
  have ok: "lease_ok h resolve (gs_heap g ! lid) (?n refers) (?n owns)" using old(4) [OF o(1)] .
  have unl: "gs_leases (uncache path lid g) q = (if q = path \<and> gs_leases g path = Some lid then None else gs_leases g q)" for path q
    by (simp add: uncache_def)
  show ?thesis
  proof (rule inv_move [OF inv t g', where lid = lid])
    show "lease_ok h resolve (gs_heap (set_lease lid f (g\<lparr>gs_returned := returned, gs_leases := leases\<rparr>)) ! lid)
        (?n refers + of_bool (refers p) - of_bool (refers p0)) (?n owns + of_bool (owns p) - of_bool (owns p0))"
      using lease [OF ok o(3) ge ge] o(1) by (simp add: set_lease_def)
    show "pos_ok (gs_heap (set_lease lid f (g\<lparr>gs_returned := returned, gs_leases := leases\<rparr>)) ! lid) q"
      if "lease_of q = Some lid" "pos_ok (gs_heap g ! lid) q" "owns q \<Longrightarrow> 1 \<le> ?n owns - of_bool (owns p0)"
        "refers q \<Longrightarrow> 1 \<le> ?n refers - of_bool (refers p0)" for q :: "'b position"
      using others [OF ok o(3) that] o(1) by (simp add: set_lease_def)
    show "gs_leases (set_lease lid f (g\<lparr>gs_returned := returned, gs_leases := leases\<rparr>)) path = Some l \<Longrightarrow> l \<noteq> lid \<Longrightarrow> gs_leases g path = Some l"
      for path l using table by (auto simp: set_lease_def unl split: if_splits)
    show "lid < length (gs_heap (set_lease lid f (g\<lparr>gs_returned := returned, gs_leases := leases\<rparr>))) \<and>
        ss_store_path (le_session (gs_heap (set_lease lid f (g\<lparr>gs_returned := returned, gs_leases := leases\<rparr>)) ! lid)) = path \<and>
        (le_state (gs_heap (set_lease lid f (g\<lparr>gs_returned := returned, gs_leases := leases\<rparr>)) ! lid) \<in> {INITIALIZING, ACTIVE} \<or>
         0 < ?n unlists + of_bool (unlists p) - of_bool (unlists p0))"
      if "gs_leases (set_lease lid f (g\<lparr>gs_returned := returned, gs_leases := leases\<rparr>)) path = Some lid" for path
    proof -
      have l: "leases path = Some lid" using that by (simp add: set_lease_def)
      then have g: "gs_leases g path = Some lid" using table by (auto simp: unl split: if_splits)
      note d = old(6) [OF g]
      have "\<not> unlists p0"
      proof
        assume "unlists p0"
        then have "leases path \<noteq> Some lid" using unlists o(2) d by (simp add: unl)
        with l show False by simp
      qed
      with stay [OF o(3)] d store o(1) show ?thesis by (auto simp: set_lease_def)
    qed
  qed (use plain own o new [OF _ ok] returned in \<open>auto simp: set_lease_def store\<close>)
qed

lemma set_lease_form:
  "set_lease lid f g = set_lease lid f (g\<lparr>gs_returned := gs_returned g, gs_leases := gs_leases g\<rparr>)"
  "uncache path lid g = set_lease lid (\<lambda>le. le) (g\<lparr>gs_returned := gs_returned g, gs_leases := gs_leases (uncache path lid g)\<rparr>)"
  "set_lease lid f (g\<lparr>gs_returned := r\<rparr>) = set_lease lid f (g\<lparr>gs_returned := r, gs_leases := gs_leases g\<rparr>)"
  by (simp_all add: set_lease_def uncache_def)

lemma uncache_form: "set_lease lid (\<lambda>le. le) (g\<lparr>gs_leases := gs_leases (uncache path lid g)\<rparr>) = uncache path lid g"
  by (simp add: set_lease_def uncache_def)

lemmas session_defs = good_session_def loose_session_def gate_session_def closed_session_def

lemma good_loose: "good_session ss \<Longrightarrow> loose_session ss" by (simp add: session_defs)

lemma join_inv:
  fixes g :: "('s, 'b) gate"
  assumes inv: "gate_inv h resolve cap g" and t: "t < length (gs_threads g)" "rt_position (gs_threads g ! t) = AtJoin now"
    and g': "g' = acquire_or_join_lease h resolve t (rt_store_path (gs_threads g ! t)) now g"
  shows "gate_inv h resolve cap g'"
proof -
  let ?path = "rt_store_path (gs_threads g ! t)"
  note old = gate_invD [OF inv]
  have create: "gate_inv h resolve cap (case ReaderGateSession h resolve ?path of Inl e \<Rightarrow> goto t (AtLeave (Inl e)) g
      | Inr ss \<Rightarrow> goto t (AtAcquire (length (gs_heap g))) (g\<lparr>gs_heap := gs_heap g @
          [\<lparr>le_session = ss, le_created_at = now, le_ref_count = 1, le_state = INITIALIZING, le_error = None\<rparr>],
          gs_leases := (gs_leases g)(?path \<mapsto> length (gs_heap g))\<rparr>))"
  proof (cases "ReaderGateSession h resolve ?path :: 's session result")
    case (Inl e)
    show ?thesis
      by (rule inv_plain [OF inv t, where n = "gs_permits g" and a = "gs_active g" and p = "AtLeave (Inl e)"]) (use Inl in simp_all)
  next
    case (Inr ss)
    then have ss: "ss_store_path ss = ?path" "ss_conn ss = None" "\<not> ss_gate_held ss" "session_keys h resolve ss"
      by (auto simp: ReaderGateSession_def bindE_eq_Inr session_keys_def)
    let ?lid = "length (gs_heap g)"
    have none: "count_pos (on_lease ?lid P) (gs_threads g) = 0" for P
      unfolding count_zero
    proof
      fix th assume "th \<in> set (gs_threads g)"
      then obtain i where "i < length (gs_threads g)" "gs_threads g ! i = th" by (auto simp: in_set_conv_nth)
      then show "\<not> on_lease ?lid P (rt_position th)" using old(5) [of i ?lid] by (auto simp: on_lease_def)
    qed
    show ?thesis
      by (rule inv_move [OF inv t, where lid = ?lid and p = "AtAcquire ?lid" and ?g1.0 =
            "g\<lparr>gs_heap := gs_heap g @ [\<lparr>le_session = ss, le_created_at = now, le_ref_count = 1, le_state = INITIALIZING, le_error = None\<rparr>],
              gs_leases := (gs_leases g)(?path \<mapsto> ?lid)\<rparr>"])
        (use Inr ss none in \<open>auto simp: nth_append lease_ok_def session_defs split: if_splits dest: old(6)\<close>)
  qed
  show ?thesis
  proof (cases "\<exists>lid. gs_leases g ?path = Some lid \<and> joinable now (gs_heap g ! lid)")
    case True
    then obtain lid where l: "gs_leases g ?path = Some lid" "joinable now (gs_heap g ! lid)" by blast
    note o = old(6) [OF l(1)]
    let ?f = "\<lambda>le. le\<lparr>le_ref_count := le_ref_count le + 1\<rparr>"
    have ok: "lease_ok h resolve (gs_heap g ! lid) (count_pos (on_lease lid refers) (gs_threads g)) (count_pos (on_lease lid owns) (gs_threads g))"
      using old(4) o by blast
    have st: "le_state (gs_heap g ! lid) \<in> {INITIALIZING, ACTIVE}" using l(2) by (auto simp: joinable_def)
    have keep: "pos_ok (?f le) q = pos_ok le q" for le and q :: "'b position" by (cases q) simp_all
    have ok': "lease_ok h resolve (?f (gs_heap g ! lid)) (count_pos (on_lease lid refers) (gs_threads g) + 1) (count_pos (on_lease lid owns) (gs_threads g))"
      using ok st by (auto simp: lease_ok_def)
    show ?thesis
      by (rule inv_move [OF inv t, where lid = lid and p = "AtWait lid" and ?g1.0 = "set_lease lid ?f g"])
        (use g' l o ok' st keep in \<open>auto simp: acquire_or_join_lease_def set_lease_def dest: old(6)\<close>)
  next
    case False
    then have "g' = (case ReaderGateSession h resolve ?path of Inl e \<Rightarrow> goto t (AtLeave (Inl e)) g
      | Inr ss \<Rightarrow> goto t (AtAcquire (length (gs_heap g))) (g\<lparr>gs_heap := gs_heap g @
          [\<lparr>le_session = ss, le_created_at = now, le_ref_count = 1, le_state = INITIALIZING, le_error = None\<rparr>],
          gs_leases := (gs_leases g)(?path \<mapsto> length (gs_heap g))\<rparr>))"
      using g' by (cases "gs_leases g ?path"; cases "ReaderGateSession h resolve ?path :: 's session result")
        (simp_all add: acquire_or_join_lease_def Let_def)
    with create show ?thesis by simp
  qed
qed

lemma pos_ok_session: "\<not> owns q \<Longrightarrow> pos_ok (le\<lparr>le_session := ss\<rparr>) q = pos_ok le q"
  by (cases q) simp_all

lemma thread_step_inv:
  fixes g :: "('s, 'b) gate"
  assumes inv: "gate_inv h resolve cap g" and t: "t < length (gs_threads g)"
    and clean: "\<And>s. an_checkout ans = Inr s \<Longrightarrow> free s" and step: "thread_step srv h resolve ans t g = Some g'"
  shows "gate_inv h resolve cap g'"
proof (cases "rt_position (gs_threads g ! t)")
  case AtSemaphore
  note p = this
  show ?thesis
  proof (cases "0 < gs_permits g")
    case True
    then show ?thesis
      by (intro inv_plain [OF inv t p, where n = "gs_permits g - 1" and a = "gs_active g" and p = AtEnter])
        (use step p in \<open>auto simp: thread_step_def\<close>)
  next
    case False
    then have "g' = goto t (Finished (Inl ReaderGateTimeout)) g" using step p by (auto simp: thread_step_def Let_def split: if_splits)
    then show ?thesis
      by (intro inv_plain [OF inv t p, where n = "gs_permits g" and a = "gs_active g" and p = "Finished (Inl ReaderGateTimeout)"]) simp_all
  qed
next
  case AtEnter
  note p = this
  show ?thesis
  proof (cases "gs_closing g")
    case True
    then show ?thesis
      by (intro inv_plain [OF inv t p, where n = "gs_permits g" and a = "gs_active g" and p = "AtPost (Inl ReaderGateClosing)"])
        (use step p in \<open>auto simp: thread_step_def\<close>)
  next
    case False
    then show ?thesis
      by (intro inv_plain [OF inv t p, where n = "gs_permits g" and a = "gs_active g + 1" and p = AtClock])
        (use step p in \<open>auto simp: thread_step_def\<close>)
  qed
next
  case AtClock
  note p = this
  show ?thesis
    by (rule inv_plain [OF inv t p, where n = "gs_permits g" and a = "gs_active g" and p = "AtJoin (gs_now g)"])
      (use step p in \<open>auto simp: thread_step_def\<close>)
next
  case (AtJoin now)
  with step have "g' = acquire_or_join_lease h resolve t (rt_store_path (gs_threads g ! t)) now g" by (simp add: thread_step_def)
  then show ?thesis by (rule join_inv [OF inv t AtJoin])
next
  case (AtAcquire lid)
  note p = this
  let ?le = "gs_heap g ! lid" and ?late = "max 0.001 (rt_deadline (gs_threads g ! t) - gs_now g)"
  obtain r ss ret where a: "acquire_session srv (an_checkout ans) (an_clock ans) ?late (le_session ?le, gs_returned g) = (r, (ss, ret))"
    by (metis prod_cases3)
  have o: "lid < length (gs_heap g)" "pos_ok ?le (AtAcquire lid)" using gate_invD(5) [OF inv t, of lid] p by simp_all
  have "lease_ok h resolve ?le (count_pos (on_lease lid refers) (gs_threads g)) (count_pos (on_lease lid owns) (gs_threads g))"
    using gate_invD(4) [OF inv o(1)] .
  then have "ss_gate_key (le_session ?le) \<noteq> ss_admission_key (le_session ?le)"
    using gate_keys_differ unfolding lease_ok_def session_keys_def by blast
  with o(2) have out: "same_store (le_session ?le) ss \<and> (\<exists>extra. ret = gs_returned g @ extra \<and> (\<forall>s \<in> set extra. free s)) \<and>
      (case r of Inl e \<Rightarrow> closed_session ss \<and> \<not> ss_gate_held ss | Inr _ \<Rightarrow> gate_session excl shar ss)"
    using acquire_session_outcome [OF a _ _ clean] by simp
  let ?p = "(case r of Inl e \<Rightarrow> AtFail lid e | Inr _ \<Rightarrow> AtRevalidate lid) :: 'b position"
  have pos: "lease_of ?p = Some lid" "inside ?p" "entered ?p" "refers ?p" "owns ?p" "\<not> unlists ?p" by (cases r; simp)+
  have g': "g' = goto t ?p (set_lease lid (\<lambda>le. le\<lparr>le_session := ss\<rparr>) (g\<lparr>gs_returned := ret, gs_leases := gs_leases g\<rparr>))"
    using step p a by (simp add: thread_step_def set_lease_form(3) [symmetric])
  have new: "pos_ok (?le\<lparr>le_session := ss\<rparr>) ?p" using o(2) out by (cases r) (simp_all add: loose_session_def)
  have owners: "owners = 1" if "lease_ok h resolve ?le refs owners" for refs owners using that o(2) by (simp add: lease_ok_def)
  show ?thesis
  proof (rule inv_lease [OF inv t p _ _ g'])
    show "pos_ok (?le\<lparr>le_session := ss\<rparr>) q" if "lease_ok h resolve ?le refs owners" "pos_ok ?le q"
      "owns q \<Longrightarrow> 1 \<le> owners - of_bool (owns (AtAcquire lid))" for refs owners and q :: "'b position"
    proof (cases "owns q")
      case True
      with that(3) owners [OF that(1)] show ?thesis by simp
    next
      case False
      with that(2) show ?thesis by (simp add: pos_ok_session)
    qed
    show "lease_ok h resolve (?le\<lparr>le_session := ss\<rparr>) (refs + of_bool (refers ?p) - of_bool (refers (AtAcquire lid)))
        (owners + of_bool (owns ?p) - of_bool (owns (AtAcquire lid)))" if "lease_ok h resolve ?le refs owners" for refs owners
      using that pos out o(2) by (simp add: lease_ok_def same_store_def session_keys_def)
    show "s \<in> set (gs_returned g) \<or> free s" if "s \<in> set ret" for s using that out by auto
    show "ss_store_path (le_session (?le\<lparr>le_session := ss\<rparr>)) = ss_store_path (le_session ?le)" using out by (simp add: same_store_def session_keys_def)
    show "le_state (?le\<lparr>le_session := ss\<rparr>) \<in> {INITIALIZING, ACTIVE} \<or> unlists ?p \<or> unlists (AtAcquire lid) \<or>
        le_state ?le \<notin> {INITIALIZING, ACTIVE}" if "pos_ok ?le (AtAcquire lid)" using o(2) by simp
  qed (use pos new in simp_all)
next
  case (AtRevalidate lid)
  note p = this
  let ?ss = "le_session (gs_heap g ! lid)"
  let ?p = "(case revalidate (an_row ans) ?ss of Inl e \<Rightarrow> AtFail lid e
      | Inr (ok, _) \<Rightarrow> if ok then AtActivate lid else AtFail lid FileNotFoundError) :: 'b position"
  have pos: "lease_of ?p = Some lid" "inside ?p" "entered ?p" "refers ?p" "owns ?p" "\<not> unlists ?p" by (simp_all split: sum.splits prod.splits)
  have new: "pos_ok (gs_heap g ! lid) ?p" if "pos_ok (gs_heap g ! lid) (AtRevalidate lid)"
  proof (cases "revalidate (an_row ans) ?ss")
    case (Inr x)
    then have "ss_conn ?ss \<noteq> None" using revalidated_holds [OF Inr] that by auto
    with Inr that show ?thesis by (auto simp: session_defs split: prod.splits)
  qed (use that in \<open>auto simp: session_defs\<close>)
  show ?thesis
    by (rule inv_lease [OF inv t p, where lid = lid and p = ?p and f = "\<lambda>le. le" and returned = "gs_returned g" and leases = "gs_leases g"])
      (use step p pos new in \<open>auto simp: thread_step_def set_lease_def\<close>)
next
  case (AtActivate lid)
  note p = this
  show ?thesis
    by (rule inv_lease [OF inv t p, where lid = lid and p = "AtRead lid" and f = "\<lambda>le. le\<lparr>le_state := ACTIVE\<rparr>"
          and returned = "gs_returned g" and leases = "gs_leases g"])
      (use step p in \<open>auto simp: thread_step_def set_lease_form(1) [symmetric] lease_ok_def elim!: pos_ok.elims split: lease_state.splits\<close>)
next
  case (AtFail lid e)
  note p = this
  show ?thesis
    by (rule inv_lease [OF inv t p, where lid = lid and p = "AtUnlist lid e" and f = "\<lambda>le. le\<lparr>le_state := FAILED, le_error := Some e\<rparr>"
          and returned = "gs_returned g" and leases = "gs_leases g"])
      (use step p in \<open>auto simp: thread_step_def set_lease_form(1) [symmetric] lease_ok_def elim!: pos_ok.elims split: lease_state.splits\<close>)
next
  case (AtUnlist lid e)
  note p = this
  show ?thesis
    by (rule inv_lease [OF inv t p, where lid = lid and p = "AtDispose lid e" and f = "\<lambda>le. le" and returned = "gs_returned g"
          and leases = "gs_leases (uncache (rt_store_path (gs_threads g ! t)) lid g)"])
      (use step p in \<open>auto simp: thread_step_def Let_def uncache_form\<close>)
next
  case (AtWait lid)
  note p = this
  let ?le = "gs_heap g ! lid"
  have drop: "gate_inv h resolve cap (goto t (AtLeave v) (drop_ref lid g))" if "le_state ?le \<in> {INITIALIZING, FAILED}" for v
    by (rule inv_lease [OF inv t p, where lid = lid and p = "AtLeave v" and f = "\<lambda>le. le\<lparr>le_ref_count := le_ref_count le - 1\<rparr>"
          and returned = "gs_returned g" and leases = "gs_leases g"])
      (use that in \<open>auto simp: drop_ref_def set_lease_form(1) [symmetric] lease_ok_def elim!: pos_ok.elims split: lease_state.splits\<close>)
  have read: "gate_inv h resolve cap (goto t (AtRead lid) g)" if "le_state ?le = ACTIVE"
    by (rule inv_lease [OF inv t p, where lid = lid and p = "AtRead lid" and f = "\<lambda>le. le" and returned = "gs_returned g" and leases = "gs_leases g"])
      (use that in \<open>auto simp: set_lease_def\<close>)
  have "le_state ?le \<in> {INITIALIZING, ACTIVE, FAILED}" using gate_invD(5) [OF inv t, of lid] p by simp
  with drop read step p show ?thesis by (auto simp: thread_step_def Let_def split: if_splits)
next
  case (AtRead lid)
  note p = this
  show ?thesis
    by (rule inv_lease [OF inv t p, where lid = lid and p = "AtExit lid (an_value ans)" and f = "\<lambda>le. le" and returned = "gs_returned g" and leases = "gs_leases g"])
      (use step p in \<open>auto simp: thread_step_def set_lease_def\<close>)
next
  case (AtLeave v)
  note p = this
  show ?thesis
    by (rule inv_plain [OF inv t p, where n = "gs_permits g" and a = "gs_active g - 1" and p = "AtPost v"])
      (use step p in \<open>auto simp: thread_step_def\<close>)
next
  case (AtPost v)
  note p = this
  show ?thesis
    by (rule inv_plain [OF inv t p, where n = "gs_permits g + 1" and a = "gs_active g" and p = "Finished v"])
      (use step p in \<open>auto simp: thread_step_def\<close>)
next
  case (Finished v)
  with step show ?thesis by (simp add: thread_step_def)
next
  case (AtDispose lid e)
  note p = this
  let ?le = "gs_heap g ! lid"
  obtain ss ret where a: "release_session srv (le_session ?le, gs_returned g) = (ss, ret)" by fastforce
  have "pos_ok ?le (AtDispose lid e :: 'b position)" using gate_invD(5) [OF inv t, of lid] p by simp
  with a have "same_store (le_session ?le) ss \<and> closed_session ss \<and> (\<exists>extra. ret = gs_returned g @ extra \<and> (\<forall>s \<in> set extra. free s))"
    using release_session_outcome [OF a] by (simp add: loose_session_def)
  then show ?thesis
    by (intro inv_lease [OF inv t p, where lid = lid and p = "AtDrop lid e" and f = "\<lambda>le. le\<lparr>le_session := ss\<rparr>" and returned = ret
          and leases = "gs_leases g"])
      (use step p a in \<open>auto simp: thread_step_def close_lease_def set_lease_form(3) [symmetric] same_store_def session_keys_def lease_ok_def elim!: pos_ok.elims\<close>)
next
  case (AtDrop lid e)
  note p = this
  show ?thesis
    by (rule inv_lease [OF inv t p, where lid = lid and p = "AtLeave (Inl e)" and f = "\<lambda>le. le\<lparr>le_ref_count := le_ref_count le - 1\<rparr>"
          and returned = "gs_returned g" and leases = "gs_leases g"])
      (use step p in \<open>auto simp: thread_step_def drop_ref_def set_lease_form(1) [symmetric] lease_ok_def elim!: pos_ok.elims\<close>)
next
  case (AtExit lid v)
  note p = this
  let ?le = "gs_heap g ! lid"
  have o: "lid < length (gs_heap g)" using gate_invD(5) [OF inv t, of lid] p by simp
  show ?thesis
  proof (cases "le_ref_count ?le - 1 \<le> 0")
    case True
    let ?f = "\<lambda>le. le\<lparr>le_ref_count := le_ref_count le - 1, le_state := CLOSED\<rparr>"
    have "g' = goto t (AtUncache lid v) (set_lease lid ?f g)"
      using step p o True by (simp add: thread_step_def drop_ref_def set_lease_def Let_def)
    with True show ?thesis
      by (intro inv_lease [OF inv t p, where lid = lid and p = "AtUncache lid v" and f = ?f and returned = "gs_returned g" and leases = "gs_leases g"])
        (auto simp: set_lease_form(1) [symmetric] lease_ok_def elim!: pos_ok.elims)
  next
    case False
    let ?f = "\<lambda>le. le\<lparr>le_ref_count := le_ref_count le - 1\<rparr>"
    have "g' = goto t (AtLeave v) (set_lease lid ?f g)"
      using step p o False by (simp add: thread_step_def drop_ref_def set_lease_def Let_def)
    with False show ?thesis
      by (intro inv_lease [OF inv t p, where lid = lid and p = "AtLeave v" and f = ?f and returned = "gs_returned g" and leases = "gs_leases g"])
        (auto simp: set_lease_form(1) [symmetric] lease_ok_def elim!: pos_ok.elims)
  qed
next
  case (AtUncache lid v)
  note p = this
  show ?thesis
    by (rule inv_lease [OF inv t p, where lid = lid and p = "AtRelease lid v" and f = "\<lambda>le. le" and returned = "gs_returned g"
          and leases = "gs_leases (uncache (rt_store_path (gs_threads g ! t)) lid g)"])
      (use step p in \<open>auto simp: thread_step_def Let_def uncache_form\<close>)
next
  case (AtRelease lid v)
  note p = this
  let ?le = "gs_heap g ! lid"
  obtain ss ret where a: "release_session srv (le_session ?le, gs_returned g) = (ss, ret)" by fastforce
  have "pos_ok ?le (AtRelease lid v)" using gate_invD(5) [OF inv t, of lid] p by simp
  with a have "same_store (le_session ?le) ss \<and> closed_session ss \<and> (\<exists>extra. ret = gs_returned g @ extra \<and> (\<forall>s \<in> set extra. free s))"
    using release_session_outcome [OF a] by (simp add: good_session_def)
  then show ?thesis
    by (intro inv_lease [OF inv t p, where lid = lid and p = "AtLeave v" and f = "\<lambda>le. le\<lparr>le_session := ss\<rparr>" and returned = ret
          and leases = "gs_leases g"])
      (use step p a in \<open>auto simp: thread_step_def close_lease_def set_lease_form(3) [symmetric] same_store_def session_keys_def lease_ok_def elim!: pos_ok.elims\<close>)
qed

lemma gate_step_inv:
  assumes "gate_step srv free h resolve g g'" "gate_inv h resolve cap g"
  shows "gate_inv h resolve cap g'"
  using assms
proof (cases rule: gate_step.cases)
  case (run t ans)
  with thread_step_inv [OF assms(2) run(1)] show ?thesis by blast
next
  case (request path deadline)
  with assms(2) show ?thesis by (auto simp: gate_inv_def nth_append less_Suc_eq on_lease_def)
qed (use assms(2) in \<open>simp_all add: gate_inv_def\<close>)

lemma reachable_inv:
  assumes "(gate_step srv free h resolve)\<^sup>*\<^sup>* (start_gate c) g"
  shows "gate_inv h resolve (max 1 c) g"
  using assms
proof (induction rule: rtranclp_induct)
  case base
  show ?case by (simp add: start_gate_def gate_inv_def)
next
  case (step g1 g2)
  then show ?case using gate_step_inv by blast
qed

text \<open>A lease with a connection has a thread on it that is past the semaphore.\<close>

lemma open_lease_thread:
  assumes "gate_inv h resolve cap g" "l < length (gs_heap g)" "ss_conn (le_session (gs_heap g ! l)) \<noteq> None"
  obtains t where "t < length (gs_threads g)" "lease_of (rt_position (gs_threads g ! t)) = Some l"
proof -
  have "0 < count_pos (on_lease l refers) (gs_threads g) \<or> 0 < count_pos (on_lease l owns) (gs_threads g)"
  proof -
    have "count_pos (on_lease l owns) (gs_threads g) = 0 \<or> 0 < count_pos (on_lease l owns) (gs_threads g)"
      using count_nonneg [of "on_lease l owns" "gs_threads g"] by linarith
    with gate_invD(4) [OF assms(1,2)] assms(3) show ?thesis
      by (auto simp: lease_ok_def closed_session_def split: lease_state.splits)
  qed
  then obtain t where "t < length (gs_threads g)" "on_lease l (\<lambda>p. True) (rt_position (gs_threads g ! t))"
    using count_witness [of "on_lease l refers" "gs_threads g"] count_witness [of "on_lease l owns" "gs_threads g"]
    by (auto simp: on_lease_def)
  then show ?thesis using that by (simp add: on_lease_def)
qed

lemma lease_of_inside: "lease_of p = Some l \<Longrightarrow> inside p \<and> entered p"
  by (cases p) simp_all

lemma count_card: "count_pos P ths = int (card {t. t < length ths \<and> P (rt_position (ths ! t))})"
proof (induction ths rule: rev_induct)
  case (snoc a ths)
  let ?A = "\<lambda>ths. {t. t < length ths \<and> P (rt_position (ths ! t))}"
  have "?A (ths @ [a]) = ?A ths \<union> (if P (rt_position a) then {length ths} else {})"
    by (auto simp: nth_append less_Suc_eq)
  then show ?case using snoc by (simp add: card_Un_disjoint)
qed simp

lemma open_leases_bounded:
  assumes "gate_inv h resolve cap g"
  shows "int (card {l. l < length (gs_heap g) \<and> ss_conn (le_session (gs_heap g ! l)) \<noteq> None}) \<le> count_pos inside (gs_threads g)"
proof -
  let ?open = "{l. l < length (gs_heap g) \<and> ss_conn (le_session (gs_heap g ! l)) \<noteq> None}"
    and ?in = "{t. t < length (gs_threads g) \<and> inside (rt_position (gs_threads g ! t))}"
  have "?open \<subseteq> (\<lambda>t. the (lease_of (rt_position (gs_threads g ! t)))) ` ?in"
  proof
    fix l assume "l \<in> ?open"
    then obtain t where "t < length (gs_threads g)" "lease_of (rt_position (gs_threads g ! t)) = Some l"
      using open_lease_thread [OF assms, of l] by blast
    then show "l \<in> (\<lambda>t. the (lease_of (rt_position (gs_threads g ! t)))) ` ?in"
      by (intro image_eqI [of _ _ t]) (simp_all add: lease_of_inside)
  qed
  then have "card ?open \<le> card ?in" by (intro surj_card_le) simp_all
  then show ?thesis by (simp add: count_card)
qed

end

subsection \<open>Progress\<close>

lemma gate_projections [simp]:
  "gs_threads (goto t p g) = (gs_threads g)[t := (gs_threads g ! t)\<lparr>rt_position := p\<rparr>]"
  "gs_threads (set_lease lid f g) = gs_threads g" "gs_threads (drop_ref lid g) = gs_threads g"
  "gs_threads (uncache path lid g) = gs_threads g" "gs_threads (close_lease srv lid g) = gs_threads g"
  "gs_closing (goto t p g) = gs_closing g" "gs_closing (set_lease lid f g) = gs_closing g" "gs_closing (drop_ref lid g) = gs_closing g"
  "gs_closing (uncache path lid g) = gs_closing g" "gs_closing (close_lease srv lid g) = gs_closing g"
  by (simp_all add: goto_def set_lease_def drop_ref_def uncache_def close_lease_def split: prod.split)

text \<open>How many steps a thread has left at most\<close>

fun rank :: "'a position \<Rightarrow> nat" where
  "rank AtSemaphore = 14" | "rank AtEnter = 13" | "rank AtClock = 12" | "rank (AtJoin now) = 11" | "rank (AtAcquire l) = 10" | "rank (AtRevalidate l) = 9"
| "rank (AtActivate l) = 8" | "rank (AtFail l e) = 7" | "rank (AtUnlist l e) = 6" | "rank (AtDispose l e) = 5" | "rank (AtDrop l e) = 4"
| "rank (AtWait l) = 8" | "rank (AtRead l) = 7" | "rank (AtExit l v) = 6" | "rank (AtUncache l v) = 5" | "rank (AtRelease l v) = 4"
| "rank (AtLeave v) = 3" | "rank (AtPost v) = 2" | "rank (Finished v) = 0"

definition steps_left :: "('s, 'a) gate \<Rightarrow> nat" where
  "steps_left g = sum_list (map (rank \<circ> rt_position) (gs_threads g))"

lemma thread_step_moves:
  assumes "thread_step srv h resolve ans t g = Some g'"
  shows "\<exists>p. gs_threads g' = (gs_threads g)[t := (gs_threads g ! t)\<lparr>rt_position := p\<rparr>] \<and> rank p < rank (rt_position (gs_threads g ! t)) \<and>
    gs_closing g' = gs_closing g \<and> (entered p \<longrightarrow> entered (rt_position (gs_threads g ! t)) \<or> \<not> gs_closing g)"
  using assms
  by (cases "rt_position (gs_threads g ! t)")
    (auto simp: thread_step_def acquire_or_join_lease_def Let_def split: if_splits prod.splits sum.splits option.splits lease_state.splits)

end
