(* ===== verification/GatedReads.thy ===== *)
theory GatedReads
  imports ReaderGateSafety
begin

text \<open>The properties of gated reads (\<open>ReaderGate\<close>) for every interleaving of any number of threads, and concrete runs.\<close>

text \<open>The states of a process whose limit on concurrent gated reads is \<open>c\<close>; the pool hands out sessions without locks\<close>

abbreviation reachable ::
    "'s server \<Rightarrow> ('s \<Rightarrow> bool) \<Rightarrow> (string \<Rightarrow> 64 word) \<Rightarrow> (string \<Rightarrow> string) \<Rightarrow> int \<Rightarrow> ('s, 'a) gate \<Rightarrow> bool" where
  "reachable srv clean h resolve c g \<equiv> (gate_step srv clean h resolve)\<^sup>*\<^sup>* (start_gate c) g"

subsection \<open>Safety\<close>

text \<open>C25: A thread that reads a store holds its shared gate: in every reachable state the lease the thread reads under is
  active, and its connection is alive and holds the shared advisory lock on the gate key of exactly the store path that was
  asked for, once, and no other lock. A session that lost its connection while it gave the admission lock back never gets
  that far.\<close>

theorem reader_holds_gate:
  assumes "lock_server srv excl shar" "reachable srv (unlocked excl shar) h resolve c g"
    and "t < length (gs_threads g)" "rt_position (gs_threads g ! t) = AtRead l"
  shows "le_state (gs_heap g ! l) = ACTIVE \<and>
    (\<exists>s key. ss_conn (le_session (gs_heap g ! l)) = Some s \<and>
      store_gate_key h resolve (rt_store_path (gs_threads g ! t)) None False = Inr key \<and> shar s = (\<lambda>k. 0)(key := 1) \<and> excl s = (\<lambda>k. 0))"
proof -
  note inv = lock_server.gate_invD [OF assms(1) lock_server.reachable_inv [OF assms(1,2)]]
  note t = inv(5) [OF assms(3), of l]
  then have act: "le_state (gs_heap g ! l) = ACTIVE" using assms(1,4) by (simp add: lock_server.pos_ok.simps)
  with inv(4) [of l] t assms(1,4) show ?thesis
    by (auto simp: lock_server.lease_ok_def lock_server.session_keys_def lock_server.good_session_def gate_session_def only_shared_def)
qed

text \<open>C26: The limit on concurrent reads bounds the reader connections: in every reachable state the leases with a connection
  are no more than the threads past the admission semaphore, and those no more than the limit; and every connection given
  back to the pool is free of advisory locks.\<close>

theorem reader_connections_bounded:
  assumes "lock_server srv excl shar" "reachable srv (unlocked excl shar) h resolve c g"
  shows "int (card {l. l < length (gs_heap g) \<and> ss_conn (le_session (gs_heap g ! l)) \<noteq> None})
      \<le> int (card {t. t < length (gs_threads g) \<and> inside (rt_position (gs_threads g ! t))}) \<and>
    int (card {t. t < length (gs_threads g) \<and> inside (rt_position (gs_threads g ! t))}) \<le> max 1 c \<and>
    (\<forall>s \<in> set (gs_returned g). unlocked excl shar s)"
proof -
  note inv = lock_server.reachable_inv [OF assms]
  show ?thesis
    using lock_server.open_leases_bounded [OF assms(1) inv] lock_server.gate_invD(1,3) [OF assms(1) inv] by (auto simp: lock_server.count_card [OF assms(1)])
qed

subsection \<open>Progress\<close>

lemma enabled:
  assumes "rt_position (gs_threads g ! t) \<noteq> AtSemaphore" "\<And>l. rt_position (gs_threads g ! t) \<noteq> AtWait l"
    "\<And>v. rt_position (gs_threads g ! t) \<noteq> Finished v"
  shows "thread_step srv h resolve ans t g \<noteq> None"
  using assms by (cases "rt_position (gs_threads g ! t)") (auto simp: thread_step_def Let_def split: prod.split)

context lock_server
begin

lemma progress:
  assumes "gate_inv h resolve cap g" "0 < cap" "t < length (gs_threads g)" "\<And>v. rt_position (gs_threads g ! t) \<noteq> Finished v"
  shows "\<exists>u < length (gs_threads g). thread_step srv h resolve ans u g \<noteq> None"
proof (cases "\<exists>u < length (gs_threads g). inside (rt_position (gs_threads g ! u))")
  case True
  then obtain u where u: "u < length (gs_threads g)" "inside (rt_position (gs_threads g ! u))" by blast
  show ?thesis
  proof (cases "\<exists>l. rt_position (gs_threads g ! u) = AtWait l \<and> le_state (gs_heap g ! l) = INITIALIZING")
    case True
    then obtain l where l: "rt_position (gs_threads g ! u) = AtWait l" "le_state (gs_heap g ! l) = INITIALIZING" by blast
    have "l < length (gs_heap g)" using gate_invD(5) [OF assms(1) u(1), of l] l by simp
    then have "0 < count_pos (on_lease l owns) (gs_threads g)" using gate_invD(4) [OF assms(1), of l] l by (simp add: lease_ok_def)
    then obtain w where w: "w < length (gs_threads g)" "on_lease l owns (rt_position (gs_threads g ! w))"
      using count_witness by blast
    have "thread_step srv h resolve ans w g \<noteq> None" by (rule enabled) (use w(2) in \<open>auto simp: on_lease_def\<close>)
    with w show ?thesis by blast
  next
    case False
    have "thread_step srv h resolve ans u g \<noteq> None"
    proof (cases "\<exists>l. rt_position (gs_threads g ! u) = AtWait l")
      case True
      with False show ?thesis by (auto simp: thread_step_def Let_def split: lease_state.split)
    next
      case False
      show ?thesis by (rule enabled) (use u False in auto)
    qed
    with u show ?thesis by blast
  qed
next
  case False
  then have "rt_position (gs_threads g ! t) = AtSemaphore" using assms(3,4) by (cases "rt_position (gs_threads g ! t)") auto
  moreover have "count_pos inside (gs_threads g) = 0" using False unfolding count_zero by (auto simp: in_set_conv_nth)
  ultimately show ?thesis using gate_invD(1) [OF assms(1)] assms(2,3) by (intro exI [of _ t]) (simp add: thread_step_def Let_def)
qed

lemma finished_clean:
  assumes "gate_inv h resolve cap g" "\<And>t. t < length (gs_threads g) \<Longrightarrow> \<exists>v. rt_position (gs_threads g ! t) = Finished v"
  shows "int (gs_permits g) = cap \<and> gs_active g = 0 \<and> gs_leases g = Map.empty \<and>
    (\<forall>l < length (gs_heap g). ss_conn (le_session (gs_heap g ! l)) = None)"
proof -
  have z: "count_pos P (gs_threads g) = 0" if "\<And>v. \<not> P (Finished v)" for P
    unfolding count_zero
  proof
    fix th assume "th \<in> set (gs_threads g)"
    then obtain t where "t < length (gs_threads g)" "th = gs_threads g ! t" by (auto simp: in_set_conv_nth)
    then obtain v where "rt_position th = Finished v" using assms(2) by blast
    with that show "\<not> P (rt_position th)" by simp
  qed
  have zero: "count_pos inside (gs_threads g) = 0" "count_pos entered (gs_threads g) = 0"
    "count_pos (on_lease l refers) (gs_threads g) = 0" "count_pos (on_lease l owns) (gs_threads g) = 0"
    "count_pos (on_lease l unlists) (gs_threads g) = 0" for l
    by (intro z; simp add: on_lease_def)+
  have closed: "ss_conn (le_session (gs_heap g ! l)) = None \<and> le_state (gs_heap g ! l) \<notin> {INITIALIZING, ACTIVE}"
    if "l < length (gs_heap g)" for l
    using gate_invD(4) [OF assms(1) that] by (auto simp: zero lease_ok_def closed_session_def split: lease_state.splits)
  have "gs_leases g p = None" for p
    using gate_invD(6) [OF assms(1), of p] closed by (cases "gs_leases g p") (auto simp: zero)
  then show ?thesis using gate_invD(1,2) [OF assms(1)] closed by (auto simp: zero)
qed

end

text \<open>A number of steps of threads only: no new request, and time stands still\<close>

inductive thread_run ::
    "'s server \<Rightarrow> ('s \<Rightarrow> bool) \<Rightarrow> (string \<Rightarrow> 64 word) \<Rightarrow> (string \<Rightarrow> string) \<Rightarrow> nat \<Rightarrow> ('s, 'a) gate \<Rightarrow> ('s, 'a) gate \<Rightarrow> bool"
  for srv clean h resolve where
  none: "thread_run srv clean h resolve 0 g g"
| more: "t < length (gs_threads g) \<Longrightarrow> (\<And>s. an_checkout ans = Inr s \<Longrightarrow> clean s) \<Longrightarrow> thread_step srv h resolve ans t g = Some g1 \<Longrightarrow>
    thread_run srv clean h resolve n g1 g2 \<Longrightarrow> thread_run srv clean h resolve (Suc n) g g2"

lemma thread_run_steps: "thread_run srv clean h resolve n g g' \<Longrightarrow> (gate_step srv clean h resolve)\<^sup>*\<^sup>* g g'"
proof (induction rule: thread_run.induct)
  case (more t g ans g1 n g2)
  then show ?case by (meson converse_rtranclp_into_rtranclp gate_step.run)
qed simp

lemma thread_step_left:
  assumes "thread_step srv h resolve ans t g = Some g'" "t < length (gs_threads g)" shows "steps_left g' < steps_left g"
proof -
  obtain p where p: "gs_threads g' = (gs_threads g)[t := (gs_threads g ! t)\<lparr>rt_position := p\<rparr>]" "rank p < rank (rt_position (gs_threads g ! t))"
    using thread_step_moves [OF assms(1)] by blast
  have "rank (rt_position (gs_threads g ! t)) \<le> steps_left g"
    unfolding steps_left_def using assms(2) elem_le_sum_list [of t "map (rank \<circ> rt_position) (gs_threads g)"] by simp
  then show ?thesis using p assms(2) by (simp add: steps_left_def map_update sum_list_update)
qed

text \<open>C27: Gated reads always drain, and leave nothing behind: from any reachable state the threads can make only boundedly many
  steps before new requests arrive or time passes, and where none of them can step, all have finished, the semaphore is full,
  no thread counts as active, the lease table is empty and every session is closed. In particular a waiting thread never
  waits for a lease that nobody completes.\<close>

theorem gated_reads_drain:
  assumes "lock_server srv excl shar" "reachable srv (unlocked excl shar) h resolve c g"
    and "thread_run srv (unlocked excl shar) h resolve n g g'"
  shows "n \<le> steps_left g \<and>
    ((\<exists>ans t g''. t < length (gs_threads g') \<and> (\<forall>s. an_checkout ans = Inr s \<longrightarrow> unlocked excl shar s) \<and>
        thread_step srv h resolve ans t g' = Some g'') \<or>
     (\<forall>t < length (gs_threads g'). \<exists>v. rt_position (gs_threads g' ! t) = Finished v) \<and>
     int (gs_permits g') = max 1 c \<and> gs_active g' = 0 \<and> gs_leases g' = Map.empty \<and>
     (\<forall>l < length (gs_heap g'). ss_conn (le_session (gs_heap g' ! l)) = None))"
proof -
  have n: "n + steps_left g' \<le> steps_left g" using assms(3)
  proof (induction rule: thread_run.induct)
    case (more t g ans g1 n g2)
    with thread_step_left [OF more(3,1)] show ?case by simp
  qed simp
  have "reachable srv (unlocked excl shar) h resolve c g'" using assms(2) thread_run_steps [OF assms(3)] by simp
  note inv = lock_server.reachable_inv [OF assms(1) this]
  show ?thesis
  proof (cases "\<forall>t < length (gs_threads g'). \<exists>v. rt_position (gs_threads g' ! t) = Finished v")
    case True
    with lock_server.finished_clean [OF assms(1) inv] n show ?thesis by simp
  next
    case False
    then obtain t where t: "t < length (gs_threads g')" "\<And>v. rt_position (gs_threads g' ! t) \<noteq> Finished v" by blast
    let ?ans = "\<lparr>an_checkout = Inl AssertionError, an_clock = (\<lambda>i. 0), an_row = Inr None, an_value = Inl AssertionError\<rparr>"
    have "0 < max 1 c" by simp
    from lock_server.progress [OF assms(1) inv this t, of ?ans]
    obtain u g'' where "u < length (gs_threads g')" "thread_step srv h resolve ?ans u g' = Some g''" by blast
    then have "\<exists>ans t g''. t < length (gs_threads g') \<and> (\<forall>s. an_checkout ans = Inr s \<longrightarrow> unlocked excl shar s) \<and>
        thread_step srv h resolve ans t g' = Some g''" by (intro exI [of _ ?ans] exI) auto
    with n show ?thesis by simp
  qed
qed

subsection \<open>Leases and shutdown\<close>

lemma heap_projections [simp]:
  "gs_heap (goto t p g) = gs_heap g" "gs_now (goto t p g) = gs_now g"
  "gs_heap (set_lease lid f g) = (gs_heap g)[lid := f (gs_heap g ! lid)]" "gs_now (set_lease lid f g) = gs_now g"
  "gs_heap (uncache path lid g) = gs_heap g" "gs_now (uncache path lid g) = gs_now g"
  by (simp_all add: goto_def set_lease_def uncache_def)

definition created :: "('s, 'a) gate \<Rightarrow> real list" where
  "created g = map le_created_at (gs_heap g)"

lemma created_update [simp]:
  "le_created_at x = le_created_at (h ! l) \<Longrightarrow> map le_created_at (h[l := x]) = map le_created_at h"
  by (cases "l < length h") (simp_all add: map_update list_update_beyond list_update_same_conv)

lemma created_same [simp]:
  "created (goto t p g) = created g" "created (uncache path lid g) = created g" "created (drop_ref lid g) = created g"
  "created (close_lease srv lid g) = created g" "gs_now (drop_ref lid g) = gs_now g" "gs_now (close_lease srv lid g) = gs_now g"
  "created (set_lease lid (\<lambda>le. le\<lparr>le_state := s\<rparr>) g) = created g"
  by (simp_all add: created_def drop_ref_def close_lease_def split: prod.split)

lemma thread_step_created:
  assumes "thread_step srv h resolve ans t g = Some g'"
  shows "gs_now g' = gs_now g \<and> (\<exists>new. created g' = created g @ new)"
proof (cases "rt_position (gs_threads g ! t)")
  case (AtJoin now)
  with assms show ?thesis
    by (auto simp: thread_step_def acquire_or_join_lease_def created_def Let_def split: if_splits sum.splits option.splits)
next
  case (AtExit lid v)
  with assms show ?thesis by (auto simp: thread_step_def Let_def)
qed (use assms in \<open>auto simp: thread_step_def Let_def created_def drop_ref_def close_lease_def uncache_def split: if_splits prod.splits sum.splits lease_state.splits\<close>)

text \<open>A step moves one thread; a thread that gets onto a lease of the heap comes from the table, with a reading that is young enough.\<close>

lemma thread_step_lease:
  assumes "thread_step srv h resolve ans t g = Some g'"
  obtains p where "gs_threads g' = (gs_threads g)[t := (gs_threads g ! t)\<lparr>rt_position := p\<rparr>]"
    "\<And>l. l < length (gs_heap g) \<Longrightarrow> lease_of p = Some l \<Longrightarrow> lease_of (rt_position (gs_threads g ! t)) = Some l \<or>
        (\<exists>now. rt_position (gs_threads g ! t) = AtJoin now \<and> joinable now (gs_heap g ! l))"
    "\<And>now. p = AtJoin now \<Longrightarrow> now = gs_now g"
proof -
  let ?q = "rt_position (gs_threads g ! t)"
  have "\<exists>p. gs_threads g' = (gs_threads g)[t := (gs_threads g ! t)\<lparr>rt_position := p\<rparr>] \<and> (\<forall>now. p = AtJoin now \<longrightarrow> now = gs_now g) \<and>
      (lease_of p = lease_of ?q \<or> lease_of p = None \<or> lease_of p = Some (length (gs_heap g)) \<or>
       (\<exists>l now. lease_of p = Some l \<and> ?q = AtJoin now \<and> joinable now (gs_heap g ! l)))"
    using assms
    by (cases ?q)
      (auto simp: thread_step_def acquire_or_join_lease_def Let_def split: if_splits prod.splits sum.splits option.splits lease_state.splits)
  then show thesis using that by fastforce
qed

text \<open>Who can be on a lease: the threads on it, and those that come to the table with a clock reading from before it was too old\<close>

definition may_hold :: "nat \<Rightarrow> ('s, 'a) gate \<Rightarrow> nat \<Rightarrow> bool" where
  "may_hold l g t \<longleftrightarrow> t < length (gs_threads g) \<and> (lease_of (rt_position (gs_threads g ! t)) = Some l \<or>
     (\<exists>now. rt_position (gs_threads g ! t) = AtJoin now \<and> now - le_created_at (gs_heap g ! l) < MAX_READER_GATE_LEASE_LIFETIME_SECONDS))"

lemma old_lease_holders:
  assumes "(gate_step srv clean h resolve)\<^sup>*\<^sup>* g g'" "l < length (gs_heap g)"
    and "MAX_READER_GATE_LEASE_LIFETIME_SECONDS \<le> gs_now g - le_created_at (gs_heap g ! l)"
  shows "l < length (gs_heap g') \<and> le_created_at (gs_heap g' ! l) = le_created_at (gs_heap g ! l) \<and> gs_now g \<le> gs_now g' \<and>
    (\<forall>t. may_hold l g' t \<longrightarrow> may_hold l g t)"
  using assms(1)
proof (induction rule: rtranclp_induct)
  case (step g1 g2)
  from step(2) show ?case
  proof (cases rule: gate_step.cases)
    case (run u ans)
    obtain p where p: "gs_threads g2 = (gs_threads g1)[u := (gs_threads g1 ! u)\<lparr>rt_position := p\<rparr>]"
      "l < length (gs_heap g1) \<Longrightarrow> lease_of p = Some l \<Longrightarrow> lease_of (rt_position (gs_threads g1 ! u)) = Some l \<or>
        (\<exists>now. rt_position (gs_threads g1 ! u) = AtJoin now \<and> joinable now (gs_heap g1 ! l))"
      "\<And>now. p = AtJoin now \<Longrightarrow> now = gs_now g1" using thread_step_lease [OF run(3)] by metis
    obtain new where new: "created g2 = created g1 @ new" and now: "gs_now g2 = gs_now g1" using thread_step_created [OF run(3)] by blast
    have "length (gs_heap g2) = length (gs_heap g1) + length new" using arg_cong [OF new, of length] by (simp add: created_def)
    moreover have "created g2 ! l = created g1 ! l" using step(3) by (simp add: new nth_append) (simp add: created_def)
    ultimately have heap: "l < length (gs_heap g2)" "le_created_at (gs_heap g2 ! l) = le_created_at (gs_heap g1 ! l)"
      using step(3) by (simp_all add: created_def)
    have "may_hold l g1 t" if "may_hold l g2 t" for t
      using that p run(1) step(3) assms(3) heap(2)
      by (cases "t = u") (auto simp: may_hold_def joinable_def)
    with heap step(3) now show ?thesis by simp
  next
    case (request path deadline)
    have "may_hold l g1 t" if "may_hold l g2 t" for t
      using that request by (auto simp: may_hold_def nth_append less_Suc_eq split: if_splits)
    with step(3) request show ?thesis by simp
  qed (use step(3) in \<open>simp_all add: may_hold_def\<close>)
qed (use assms(2) in simp)

text \<open>C28: Readers that keep arriving cannot hold on to an old gate: once a lease is as old as its lifetime, every thread that is ever
  on it again, in any continuation, was on it already or had read the clock before the lease got old; and its session has a
  connection, hence its shared gate, only while one of these threads is on it. Requests that arrive later get a lease of their own.\<close>

theorem old_lease_keeps_its_readers:
  assumes "lock_server srv excl shar" "reachable srv (unlocked excl shar) h resolve c g"
    and "(gate_step srv (unlocked excl shar) h resolve)\<^sup>*\<^sup>* g g'" "l < length (gs_heap g)"
    and "MAX_READER_GATE_LEASE_LIFETIME_SECONDS \<le> gs_now g - le_created_at (gs_heap g ! l)"
  shows "(\<forall>t < length (gs_threads g'). lease_of (rt_position (gs_threads g' ! t)) = Some l \<longrightarrow>
      t < length (gs_threads g) \<and> (lease_of (rt_position (gs_threads g ! t)) = Some l \<or>
        (\<exists>now. rt_position (gs_threads g ! t) = AtJoin now \<and> now - le_created_at (gs_heap g ! l) < MAX_READER_GATE_LEASE_LIFETIME_SECONDS))) \<and>
    (ss_conn (le_session (gs_heap g' ! l)) \<noteq> None \<longrightarrow>
      (\<exists>t < length (gs_threads g). lease_of (rt_position (gs_threads g' ! t)) = Some l))"
proof -
  note holders = old_lease_holders [OF assms(3-5)]
  have "reachable srv (unlocked excl shar) h resolve c g'" using assms(2,3) by simp
  note inv = lock_server.reachable_inv [OF assms(1) this]
  have on: "may_hold l g t" if "t < length (gs_threads g')" "lease_of (rt_position (gs_threads g' ! t)) = Some l" for t
    using holders that by (simp add: may_hold_def)
  have "\<exists>t < length (gs_threads g). lease_of (rt_position (gs_threads g' ! t)) = Some l"
    if "ss_conn (le_session (gs_heap g' ! l)) \<noteq> None"
    using lock_server.open_lease_thread [OF assms(1) inv _ that] holders on unfolding may_hold_def by metis
  with on show ?thesis by (auto simp: may_hold_def)
qed

text \<open>Shutdown is final: once the process is closing and no gated read is active, no thread ever gets to a lease again and
  no reader connection is open, whatever requests still arrive.\<close>

theorem shutdown_is_final:
  assumes "lock_server srv excl shar" "reachable srv (unlocked excl shar) h resolve c g" "gs_closing g" "gs_active g = 0"
    and "(gate_step srv (unlocked excl shar) h resolve)\<^sup>*\<^sup>* g g'"
  shows "gs_active g' = 0 \<and> (\<forall>t < length (gs_threads g'). lease_of (rt_position (gs_threads g' ! t)) = None) \<and>
    (\<forall>l < length (gs_heap g'). ss_conn (le_session (gs_heap g' ! l)) = None)"
proof -
  note inv0 = lock_server.gate_invD(2) [OF assms(1) lock_server.reachable_inv [OF assms(1,2)]]
  have "gs_closing g' \<and> count_pos entered (gs_threads g') = 0" using assms(5)
  proof (induction rule: rtranclp_induct)
    case (step g1 g2)
    from step(2) show ?case
    proof (cases rule: gate_step.cases)
      case (run t ans)
      obtain p where p: "gs_threads g2 = (gs_threads g1)[t := (gs_threads g1 ! t)\<lparr>rt_position := p\<rparr>]" "gs_closing g2 = gs_closing g1"
        "entered p \<longrightarrow> entered (rt_position (gs_threads g1 ! t)) \<or> \<not> gs_closing g1"
        using thread_step_moves [OF run(3)] by blast
      have old: "\<not> entered (rt_position th)" if "th \<in> set (gs_threads g1)" for th using step(3) that by (simp add: count_zero)
      then have "\<not> entered p" using p(3) step(3) run(1) by simp
      with old have "\<not> entered (rt_position th)" if "th \<in> set (gs_threads g2)" for th
        using that set_update_subset_insert [of "gs_threads g1" t] unfolding p(1) by fastforce
      with p(2) step(3) show ?thesis by (simp add: count_zero)
    qed (use step(3) in simp_all)
  qed (use assms(3,4) inv0 in simp)
  moreover have "reachable srv (unlocked excl shar) h resolve c g'" using assms(2,5) by simp
  note inv = lock_server.reachable_inv [OF assms(1) this]
  ultimately have none: "lease_of (rt_position (gs_threads g' ! t)) = None" if "t < length (gs_threads g')" for t
    using that lock_server.lease_of_inside [OF assms(1)] by (fastforce simp: count_zero in_set_conv_nth)
  moreover have "ss_conn (le_session (gs_heap g' ! l)) = None" if "l < length (gs_heap g')" for l
    using lock_server.open_lease_thread [OF assms(1) inv that] none by (metis option.simps(3))
  moreover have "gs_active g' = 0"
    using lock_server.gate_invD(2) [OF assms(1) inv] \<open>gs_closing g' \<and> count_pos entered (gs_threads g') = 0\<close> by simp
  ultimately show ?thesis by blast
qed

subsection \<open>Concrete runs\<close>

text \<open>Two requests for one store, on the session of \<open>LockCoordinator\<close>\<close>

definition ready_answers :: "(lock_table, nat) answers" where
  "ready_answers = \<lparr>an_checkout = Inr (free_session [] []), an_clock = (\<lambda>i. 0), an_row = Inr (Some (''ready'', ''s3://b/k'')), an_value = Inr 7\<rparr>"

fun run_threads :: "nat list \<Rightarrow> (lock_table, nat) gate \<Rightarrow> (lock_table, nat) gate option" where
  "run_threads [] g = Some g"
| "run_threads (t # ts) g = (case thread_step table_server toy_hash id ready_answers t g of
     None \<Rightarrow> None | Some g' \<Rightarrow> run_threads ts g')"

declare run_threads.simps [simp del]

definition two_readers :: "(lock_table, nat) gate" where
  "two_readers = (start_gate 2)\<lparr>gs_threads := replicate 2 \<lparr>rt_store_path = ''s3://b/k'', rt_deadline = 30, rt_position = AtSemaphore\<rparr>\<rparr>"

abbreviation example_reachable :: "(lock_table, nat) gate \<Rightarrow> bool" where
  "example_reachable g \<equiv> reachable table_server (unlocked lt_excl lt_shar) toy_hash id 2 g"

lemma two_readers_reachable: "example_reachable two_readers"
proof -
  let ?step = "gate_step table_server (unlocked lt_excl lt_shar) toy_hash id :: (lock_table, nat) gate \<Rightarrow> _"
  let ?th = "\<lparr>rt_store_path = ''s3://b/k'', rt_deadline = 30, rt_position = AtSemaphore\<rparr> :: nat thread"
  have one: "?step (start_gate 2) ((start_gate 2)\<lparr>gs_threads := [?th]\<rparr>)"
    using gate_step.request [of table_server _ toy_hash id "start_gate 2" "''s3://b/k''" 30] by (simp add: start_gate_def)
  have "?step ((start_gate 2)\<lparr>gs_threads := [?th]\<rparr>) two_readers"
    using gate_step.request [of table_server _ toy_hash id "(start_gate 2)\<lparr>gs_threads := [?th]\<rparr>" "''s3://b/k''" 30]
    by (simp add: two_readers_def start_gate_def numeral_2_eq_2)
  with one show ?thesis by (meson r_into_rtranclp rtranclp.rtrancl_into_rtrancl)
qed

lemma run_threads_run:
  "run_threads ts g = Some g' \<Longrightarrow> \<forall>t \<in> set ts. t < length (gs_threads g) \<Longrightarrow>
    thread_run table_server (unlocked lt_excl lt_shar) toy_hash id (length ts) g g'"
proof (induction ts arbitrary: g)
  case (Cons t ts)
  from Cons.prems obtain g1 where g1: "thread_step table_server toy_hash id ready_answers t g = Some g1" "run_threads ts g1 = Some g'"
    by (auto simp: run_threads.simps split: option.splits)
  have "length (gs_threads g1) = length (gs_threads g)" using thread_step_moves [OF g1(1)] by auto
  then have rest: "thread_run table_server (unlocked lt_excl lt_shar) toy_hash id (length ts) g1 g'"
    using Cons.IH [OF g1(2)] Cons.prems(2) by (simp add: id_def)
  have "unlocked lt_excl lt_shar s" if "an_checkout ready_answers = Inr s" for s
    using that by (auto simp: ready_answers_def unlocked_def free_session_def)
  from thread_run.more [OF _ this g1(1) rest] Cons.prems(2) show ?case by (simp add: id_def)
qed (simp add: thread_run.none run_threads.simps)

abbreviation both_reading :: "nat list" where "both_reading \<equiv> [0, 0, 0, 0, 1, 1, 1, 1, 0, 0, 0, 1]"

lemma run_reachable:
  assumes "run_threads ts two_readers = Some g" "\<forall>t \<in> set ts. t < 2" shows "example_reachable g"
  using thread_run_steps [OF run_threads_run [OF assms(1)]] assms(2) two_readers_reachable
  by (simp add: two_readers_def)

lemma both_reading_run:
  obtains g where "example_reachable g" "map rt_position (gs_threads g) = [AtRead 0, AtRead 0]"
    "length (gs_heap g) = 1" "map le_ref_count (gs_heap g) = [2]" "gs_now g = 0" "map le_created_at (gs_heap g) = [0]"
proof -
  have "map_option (\<lambda>g. (map rt_position (gs_threads g), length (gs_heap g), map le_ref_count (gs_heap g), gs_now g,
      map le_created_at (gs_heap g))) (run_threads both_reading two_readers) = Some ([AtRead 0, AtRead 0], 1, [2], 0, [0])"
    by code_simp
  then obtain g where g: "run_threads both_reading two_readers = Some g" "map rt_position (gs_threads g) = [AtRead 0, AtRead 0]"
    "length (gs_heap g) = 1" "map le_ref_count (gs_heap g) = [2]" "gs_now g = 0" "map le_created_at (gs_heap g) = [0]"
    by auto
  show ?thesis by (rule that [OF run_reachable [OF g(1)] g(2-6)]) simp
qed

theorem reader_holds_gate_witness:
  "\<exists>g. example_reachable g \<and> rt_position (gs_threads g ! 1) = AtRead 0 \<and> le_state (gs_heap g ! 0) = ACTIVE"
proof -
  obtain g where r: "example_reachable g" and g: "map rt_position (gs_threads g) = [AtRead 0, AtRead 0]"
    by (rule both_reading_run)
  from g have "1 < length (gs_threads g)" "rt_position (gs_threads g ! 1) = AtRead 0" by auto
  with reader_holds_gate [OF lock_table.lock_server_axioms r this] r show ?thesis by blast
qed

theorem reader_connections_bounded_witness:
  "\<exists>g. example_reachable g \<and> length (gs_heap g) = 1 \<and>
    card {t. t < length (gs_threads g) \<and> inside (rt_position (gs_threads g ! t))} \<le> 2"
proof -
  obtain g where r: "example_reachable g" and g: "length (gs_heap g) = 1" by (rule both_reading_run)
  with reader_connections_bounded [OF lock_table.lock_server_axioms r] g show ?thesis by (intro exI [of _ g]) auto
qed

theorem gated_reads_drain_witness:
  "\<exists>g. run_threads (both_reading @ [0, 0, 0, 0, 1, 1, 1, 1, 1, 1]) two_readers = Some g \<and>
    map rt_position (gs_threads g) = [Finished (Inr 7), Finished (Inr 7)] \<and> 22 \<le> steps_left two_readers"
proof -
  let ?ts = "both_reading @ [0, 0, 0, 0, 1, 1, 1, 1, 1, 1]"
  have "map_option (\<lambda>g. map rt_position (gs_threads g)) (run_threads ?ts two_readers) = Some [Finished (Inr 7), Finished (Inr 7)]"
    by code_simp
  then obtain g where g: "run_threads ?ts two_readers = Some g" "map rt_position (gs_threads g) = [Finished (Inr 7), Finished (Inr 7)]"
    by auto
  have "\<forall>t \<in> set ?ts. t < length (gs_threads two_readers)" by (simp add: two_readers_def)
  with gated_reads_drain [OF lock_table.lock_server_axioms two_readers_reachable run_threads_run [OF g(1)]] g
  show ?thesis by auto
qed

text \<open>One thread reads, the other has read the clock at 0 and comes to the table at 6: it joins the lease that is old by then.\<close>

lemma late_joiner:
  "case run_threads [0, 0, 0, 0, 0, 0, 0, 1, 1, 1] two_readers of None \<Rightarrow> False
   | Some g \<Rightarrow> map rt_position (gs_threads g) = [AtRead 0, AtJoin 0] \<and> map le_created_at (gs_heap g) = [0] \<and> gs_now g = 0 \<and>
       map_option (\<lambda>g'. map rt_position (gs_threads g')) (run_threads [1, 1] (g\<lparr>gs_now := 6\<rparr>)) = Some [AtRead 0, AtRead 0]"
  by code_simp

theorem old_lease_keeps_its_readers_witness:
  "\<exists>g g'. example_reachable g \<and> gs_now g = 6 \<and> map le_created_at (gs_heap g) = [0] \<and> map rt_position (gs_threads g) = [AtRead 0, AtJoin 0] \<and>
    (gate_step table_server (unlocked lt_excl lt_shar) toy_hash id)\<^sup>*\<^sup>* g g' \<and> map rt_position (gs_threads g') = [AtRead 0, AtRead 0] \<and>
    (\<forall>t < 2. lease_of (rt_position (gs_threads g' ! t)) = Some 0 \<longrightarrow>
      lease_of (rt_position (gs_threads g ! t)) = Some 0 \<or> (\<exists>now. rt_position (gs_threads g ! t) = AtJoin now \<and> now < 5))"
proof -
  obtain g0 g' where run: "run_threads [0, 0, 0, 0, 0, 0, 0, 1, 1, 1] two_readers = Some g0"
    and g0: "map rt_position (gs_threads g0) = [AtRead 0, AtJoin 0]" "map le_created_at (gs_heap g0) = [0]" "gs_now g0 = 0"
    and run': "run_threads [1, 1] (g0\<lparr>gs_now := 6\<rparr>) = Some g'" and g': "map rt_position (gs_threads g') = [AtRead 0, AtRead 0]"
    using late_joiner by (auto split: option.splits)
  let ?g = "g0\<lparr>gs_now := 6\<rparr>"
  have r: "example_reachable ?g"
    using run_reachable [OF run] gate_step.tick [of g0 6 table_server "unlocked lt_excl lt_shar" toy_hash id] g0(3)
    by (simp add: rtranclp.rtrancl_into_rtrancl)
  have n: "length (gs_threads ?g) = 2" "length (gs_heap ?g) = 1" using arg_cong [OF g0(1), of length] arg_cong [OF g0(2), of length] by simp_all
  have l: "0 < length (gs_heap ?g)" unfolding n by simp
  have created: "le_created_at (gs_heap ?g ! 0) = 0" using g0(2) by (auto simp: map_eq_Cons_conv)
  have steps: "(gate_step table_server (unlocked lt_excl lt_shar) toy_hash id)\<^sup>*\<^sup>* ?g g'"
    using thread_run_steps [OF run_threads_run [OF run']] n by simp
  have "MAX_READER_GATE_LEASE_LIFETIME_SECONDS \<le> gs_now ?g - le_created_at (gs_heap ?g ! 0)"
    unfolding created by (simp add: MAX_READER_GATE_LEASE_LIFETIME_SECONDS_def)
  from old_lease_keeps_its_readers [OF lock_table.lock_server_axioms r steps l this] n
  have "\<forall>t < length (gs_threads g'). lease_of (rt_position (gs_threads g' ! t)) = Some 0 \<longrightarrow>
      lease_of (rt_position (gs_threads ?g ! t)) = Some 0 \<or> (\<exists>now. rt_position (gs_threads ?g ! t) = AtJoin now \<and> now < 5)"
    unfolding created by (auto simp: MAX_READER_GATE_LEASE_LIFETIME_SECONDS_def)
  moreover have "length (gs_threads g') = 2" using arg_cong [OF g', of length] by simp
  ultimately show ?thesis using r steps g0 g' by (intro exI [of _ ?g] exI [of _ g']) simp
qed

theorem shutdown_is_final_witness:
  "gs_active (two_readers\<lparr>gs_closing := True\<rparr>) = 0 \<and>
    lease_of (rt_position (gs_threads (two_readers\<lparr>gs_closing := True\<rparr>) ! 1)) = None"
proof -
  let ?g = "two_readers\<lparr>gs_closing := True\<rparr>"
  have "example_reachable ?g"
    using two_readers_reachable gate_step.begin_shutdown [of table_server "unlocked lt_excl lt_shar" toy_hash id two_readers] by simp
  moreover have "gs_active ?g = 0" "length (gs_threads ?g) = 2" by (simp_all add: two_readers_def start_gate_def)
  ultimately show ?thesis using shutdown_is_final [OF lock_table.lock_server_axioms, of toy_hash id 2 ?g ?g] by simp
qed

end
