(* ===== verification/GeoGrid.thy ===== *)
theory GeoGrid
  imports PyFloat
begin

text \<open>
  Coordinates, regular grids and interpolation: \<open>geo/coordinates.py\<close>, \<open>geo/grid.py\<close>, \<open>geo/interpolation.py\<close>,
  \<open>models/point.py\<close> and the confidence interval of \<open>ensemble/interval.py\<close>. An argument is a float that may be infinite or
  NaN; what passed validation is a real. Field values may be NaN.
\<close>

subsection \<open>Coordinates\<close>

definition InvalidCoordinatesError :: py_error where "InvalidCoordinatesError = DomainError ''InvalidCoordinatesError'' ''out of range''"
definition InvalidGridError :: py_error where "InvalidGridError = DomainError ''InvalidGridError'' ''invalid grid''"
definition PointOutsideGridError :: py_error where "PointOutsideGridError = DomainError ''PointOutsideGridError'' ''outside grid bounds''"
definition InvalidThresholdError :: py_error where "InvalidThresholdError = DomainError ''InvalidThresholdError'' ''invalid threshold''"
definition InvalidEnsembleError :: py_error where "InvalidEnsembleError = DomainError ''InvalidEnsembleError'' ''invalid ensemble''"

definition LATITUDE_MIN :: real where "LATITUDE_MIN = - 90"
definition LATITUDE_MAX :: real where "LATITUDE_MAX = 90"
definition LONGITUDE_MIN :: real where "LONGITUDE_MIN = - 180"
definition LONGITUDE_MAX :: real where "LONGITUDE_MAX = 180"

definition finite_or :: "py_error \<Rightarrow> pyfloat \<Rightarrow> real result" where
  "finite_or e x = (case x of Fin r \<Rightarrow> Inr r | _ \<Rightarrow> Inl e)"

definition validate_latitude :: "pyfloat \<Rightarrow> real result" where
  "validate_latitude latitude = bindE (finite_or InvalidCoordinatesError latitude) (\<lambda>r.
     if LATITUDE_MIN \<le> r \<and> r \<le> LATITUDE_MAX then Inr r else Inl InvalidCoordinatesError)"

definition validate_longitude :: "pyfloat \<Rightarrow> real result" where
  "validate_longitude longitude = bindE (finite_or InvalidCoordinatesError longitude) (\<lambda>r.
     if LONGITUDE_MIN \<le> r \<and> r \<le> LONGITUDE_MAX then Inr r else Inl InvalidCoordinatesError)"

definition validate_coordinates :: "pyfloat \<Rightarrow> pyfloat \<Rightarrow> (real \<times> real) result" where
  "validate_coordinates latitude longitude =
     bindE (validate_latitude latitude) (\<lambda>la. bindE (validate_longitude longitude) (\<lambda>lo. Inr (la, lo)))"

text \<open>\<open>x % m\<close> of floats for a positive \<open>m\<close>\<close>

definition float_mod :: "real \<Rightarrow> real \<Rightarrow> real" where
  "float_mod x m = x - m * of_int \<lfloor>x / m\<rfloor>"

definition normalize_longitude :: "pyfloat \<Rightarrow> real result" where
  "normalize_longitude longitude = bindE (finite_or InvalidCoordinatesError longitude) (\<lambda>r.
     let normalized = float_mod (r + LONGITUDE_MAX) 360 - LONGITUDE_MAX
     in Inr (if normalized = - LONGITUDE_MAX \<and> 0 < r then LONGITUDE_MAX else normalized))"

subsection \<open>Grids\<close>

definition GRID_BOUNDS_TOLERANCE :: real where "GRID_BOUNDS_TOLERANCE = 1 / 1000000000"

record grid_point =
  gp_row :: int
  gp_col :: int

definition GridPoint :: "int \<Rightarrow> int \<Rightarrow> grid_point result" where
  "GridPoint row col = (if row < 0 \<or> col < 0 then Inl InvalidGridError else Inr \<lparr>gp_row = row, gp_col = col\<rparr>)"

record regular_grid =
  rg_lat_start :: real
  rg_lon_start :: real
  rg_lat_step :: real
  rg_lon_step :: real
  rg_rows :: int
  rg_cols :: int

definition RegularGrid :: "pyfloat \<Rightarrow> pyfloat \<Rightarrow> pyfloat \<Rightarrow> pyfloat \<Rightarrow> int \<Rightarrow> int \<Rightarrow> regular_grid result" where
  "RegularGrid lat_start lon_start lat_step lon_step rows cols =
     (case (lat_start, lon_start, lat_step, lon_step) of
        (Fin la, Fin lo, Fin las, Fin los) \<Rightarrow>
          if las \<le> 0 \<or> los \<le> 0 then Inl InvalidGridError
          else if rows < 1 \<or> cols < 1 then Inl InvalidGridError
          else bindE (validate_coordinates lat_start lon_start) (\<lambda>_.
            Inr \<lparr>rg_lat_start = la, rg_lon_start = lo, rg_lat_step = las, rg_lon_step = los, rg_rows = rows, rg_cols = cols\<rparr>)
      | _ \<Rightarrow> Inl InvalidGridError)"

definition lat_stop :: "regular_grid \<Rightarrow> real" where
  "lat_stop g = rg_lat_start g + of_int (rg_rows g - 1) * rg_lat_step g"

definition lon_stop :: "regular_grid \<Rightarrow> real" where
  "lon_stop g = rg_lon_start g + of_int (rg_cols g - 1) * rg_lon_step g"

definition validate_index :: "int \<Rightarrow> int \<Rightarrow> unit result" where
  "validate_index index n = (if index < 0 \<or> n \<le> index then Inl InvalidGridError else Inr ())"

definition row_latitude :: "regular_grid \<Rightarrow> int \<Rightarrow> real result" where
  "row_latitude g row = bindE (validate_index row (rg_rows g)) (\<lambda>_. Inr (rg_lat_start g + of_int row * rg_lat_step g))"

definition col_longitude :: "regular_grid \<Rightarrow> int \<Rightarrow> real result" where
  "col_longitude g col = bindE (validate_index col (rg_cols g)) (\<lambda>_. Inr (rg_lon_start g + of_int col * rg_lon_step g))"

definition align_longitude :: "regular_grid \<Rightarrow> pyfloat \<Rightarrow> real result" where
  "align_longitude g longitude = bindE (normalize_longitude longitude) (\<lambda>normalized.
     Inr (if 180 < lon_stop g \<and> normalized < 0 then normalized + 360 else normalized))"

definition contains :: "regular_grid \<Rightarrow> pyfloat \<Rightarrow> pyfloat \<Rightarrow> bool result" where
  "contains g latitude longitude =
     bindE (validate_coordinates latitude longitude) (\<lambda>(la, lo).
     bindE (align_longitude g longitude) (\<lambda>aligned.
       Inr (rg_lat_start g - GRID_BOUNDS_TOLERANCE \<le> la \<and> la \<le> lat_stop g + GRID_BOUNDS_TOLERANCE \<and>
            rg_lon_start g - GRID_BOUNDS_TOLERANCE \<le> aligned \<and> aligned \<le> lon_stop g + GRID_BOUNDS_TOLERANCE)))"

definition clamp_index :: "int \<Rightarrow> int \<Rightarrow> int" where
  "clamp_index i n = min (max i 0) (n - 1)"

definition nearest_grid_index :: "regular_grid \<Rightarrow> pyfloat \<Rightarrow> pyfloat \<Rightarrow> grid_point result" where
  "nearest_grid_index g latitude longitude =
     bindE (contains g latitude longitude) (\<lambda>inside.
       if \<not> inside then Inl PointOutsideGridError
       else bindE (align_longitude g longitude) (\<lambda>aligned.
            bindE (finite_or InvalidCoordinatesError latitude) (\<lambda>la.
              GridPoint (clamp_index \<lfloor>(la - rg_lat_start g) / rg_lat_step g + 1 / 2\<rfloor> (rg_rows g))
                (clamp_index \<lfloor>(aligned - rg_lon_start g) / rg_lon_step g + 1 / 2\<rfloor> (rg_cols g)))))"

definition grid_index_to_coordinate :: "regular_grid \<Rightarrow> grid_point \<Rightarrow> (real \<times> real) result" where
  "grid_index_to_coordinate g p =
     bindE (row_latitude g (gp_row p)) (\<lambda>la. bindE (col_longitude g (gp_col p)) (\<lambda>lo. Inr (la, lo)))"

definition row_col_from_coordinates :: "regular_grid \<Rightarrow> pyfloat \<Rightarrow> pyfloat \<Rightarrow> (real \<times> real) result" where
  "row_col_from_coordinates g latitude longitude =
     bindE (contains g latitude longitude) (\<lambda>inside.
       if \<not> inside then Inl PointOutsideGridError
       else bindE (align_longitude g longitude) (\<lambda>aligned.
            bindE (finite_or InvalidCoordinatesError latitude) (\<lambda>la.
              Inr (min (max ((la - rg_lat_start g) / rg_lat_step g) 0) (of_int (rg_rows g - 1)),
                   min (max ((aligned - rg_lon_start g) / rg_lon_step g) 0) (of_int (rg_cols g - 1))))))"

subsection \<open>Interpolation\<close>

definition bilinear :: "pyfloat \<Rightarrow> pyfloat \<Rightarrow> pyfloat \<Rightarrow> pyfloat \<Rightarrow> real \<Rightarrow> real \<Rightarrow> pyfloat" where
  "bilinear val_00 val_01 val_10 val_11 t_row t_col =
     (let lower = f_add val_00 (f_scale t_col (f_sub val_01 val_00));
          upper = f_add val_10 (f_scale t_col (f_sub val_11 val_10))
      in f_add lower (f_scale t_row (f_sub upper lower)))"

text \<open>The lower index of the two rows (or columns) around a position, and the weight of the upper one\<close>

definition lower_index :: "int \<Rightarrow> real \<Rightarrow> int" where
  "lower_index n pos = (let i = \<lfloor>pos\<rfloor> in if i = n - 1 then n - 2 else i)"

definition validate_values_shape :: "regular_grid \<Rightarrow> pyfloat list list \<Rightarrow> unit result" where
  "validate_values_shape g values =
     (if int (length values) \<noteq> rg_rows g then Inl InvalidGridError
      else if list_ex (\<lambda>row. int (length row) \<noteq> rg_cols g) values then Inl InvalidGridError else Inr ())"

definition cell :: "pyfloat list list \<Rightarrow> int \<Rightarrow> int \<Rightarrow> pyfloat" where
  "cell values i j = values ! nat i ! nat j"

definition bilinear_interpolate :: "regular_grid \<Rightarrow> pyfloat list list \<Rightarrow> pyfloat \<Rightarrow> pyfloat \<Rightarrow> pyfloat result" where
  "bilinear_interpolate g values latitude longitude =
     (if rg_rows g < 2 \<or> rg_cols g < 2 then Inl InvalidGridError
      else bindE (validate_values_shape g values) (\<lambda>_.
           bindE (row_col_from_coordinates g latitude longitude) (\<lambda>(row_f, col_f).
             let row_0 = lower_index (rg_rows g) row_f; col_0 = lower_index (rg_cols g) col_f;
                 row_1 = row_0 + 1; col_1 = col_0 + 1
             in Inr (bilinear (cell values row_0 col_0) (cell values row_0 col_1) (cell values row_1 col_0) (cell values row_1 col_1)
                      (row_f - of_int row_0) (col_f - of_int col_0)))))"

subsection \<open>Points and intervals\<close>

definition VALID_RESOLVED_VIA :: "string set" where
  "VALID_RESOLVED_VIA = {''coordinates'', ''city'', ''resort'', ''station'', ''address''}"

record forecast_point =
  fpt_latitude :: real
  fpt_longitude :: real
  fpt_elevation_m :: "pyfloat option"
  fpt_resolved_via :: string
  fpt_id :: "string option"
  fpt_name :: "string option"

definition ForecastPoint ::
    "pyfloat \<Rightarrow> pyfloat \<Rightarrow> pyfloat option \<Rightarrow> string \<Rightarrow> string option \<Rightarrow> string option \<Rightarrow> forecast_point result" where
  "ForecastPoint latitude longitude elevation_m resolved_via ident name =
     bindE (validate_latitude latitude) (\<lambda>la. bindE (validate_longitude longitude) (\<lambda>lo.
       if resolved_via \<notin> VALID_RESOLVED_VIA then Inl InvalidCoordinatesError
       else Inr \<lparr>fpt_latitude = la, fpt_longitude = lo, fpt_elevation_m = elevation_m, fpt_resolved_via = resolved_via,
                 fpt_id = ident, fpt_name = name\<rparr>))"

definition Z_95 :: real where "Z_95 = 1959963984540054 / 1000000000000000"

definition probability_confidence_interval :: "pyfloat \<Rightarrow> int \<Rightarrow> real \<Rightarrow> (real \<times> real) result" where
  "probability_confidence_interval probability sample_size confidence =
     bindE (finite_or InvalidThresholdError probability) (\<lambda>p.
       if \<not> (0 \<le> p \<and> p \<le> 1) then Inl InvalidThresholdError
       else if sample_size < 1 then Inl InvalidEnsembleError
       else if confidence \<noteq> 95 / 100 then Inl InvalidThresholdError
       else
         let n = of_int sample_size; z = Z_95; z_squared = z * z;
             denominator = 1 + z_squared / n;
             center = (p + z_squared / (2 * n)) / denominator;
             margin = z * sqrt (p * (1 - p) / n + z_squared / (4 * n * n)) / denominator
         in Inr (max 0 (center - margin), min 1 (center + margin)))"

subsection \<open>Longitudes\<close>

lemma float_mod_bounds: "0 < m \<Longrightarrow> 0 \<le> float_mod x m \<and> float_mod x m < m"
proof -
  assume m: "0 < m"
  show ?thesis using floor_divide_lower [OF m, of x] floor_divide_upper [OF m, of x] by (simp add: float_mod_def algebra_simps)
qed

lemma float_mod_id: "0 \<le> x \<Longrightarrow> x < m \<Longrightarrow> float_mod x m = x"
  by (simp add: float_mod_def floor_eq_iff)

lemma float_mod_shift: "0 < m \<Longrightarrow> float_mod (x + of_int k * m) m = float_mod x m"
  by (simp add: float_mod_def add_divide_distrib algebra_simps)

lemma normalize_id: "- 180 \<le> r \<Longrightarrow> r \<le> 180 \<Longrightarrow> normalize_longitude (Fin r) = Inr r"
proof (cases "r = 180")
  case True
  have "float_mod (180 + 180) 360 = 0" by (simp add: float_mod_def)
  with True show ?thesis by (simp add: normalize_longitude_def finite_or_def LONGITUDE_MAX_def Let_def)
next
  case False
  assume "- 180 \<le> r" "r \<le> 180"
  with False have "float_mod (r + 180) 360 = r + 180" by (intro float_mod_id) simp_all
  with False show ?thesis by (auto simp: normalize_longitude_def finite_or_def LONGITUDE_MAX_def Let_def)
qed

text \<open>A normalised longitude is the same place, within the range.\<close>

lemma normalize_congruent:
  assumes "normalize_longitude (Fin x) = Inr r"
  shows "- 180 \<le> r \<and> r \<le> 180 \<and> (\<exists>k. r = x + 360 * of_int k)"
proof -
  let ?n = "float_mod (x + 180) 360 - 180"
  have n: "- 180 \<le> ?n" "?n < 180" using float_mod_bounds [of 360 "x + 180"] by simp_all
  have k: "?n = x + 360 * of_int (- \<lfloor>(x + 180) / 360\<rfloor>)" by (simp add: float_mod_def)
  have "r = ?n \<or> ?n = - 180 \<and> r = 180"
    using assms by (auto simp: normalize_longitude_def finite_or_def LONGITUDE_MAX_def Let_def split: if_splits)
  then show ?thesis
  proof
    assume "r = ?n"
    with n k show ?thesis by (intro conjI exI [of _ "- \<lfloor>(x + 180) / 360\<rfloor>"]) simp_all
  next
    assume r: "?n = - 180 \<and> r = 180"
    then have "r = x + 360 * of_int (1 - \<lfloor>(x + 180) / 360\<rfloor>)" using k by simp
    then have "\<exists>k. r = x + 360 * of_int k" ..
    with r show ?thesis by simp
  qed
qed

subsection \<open>Grid lookup\<close>

text \<open>What the constructor guarantees\<close>

definition grid_ok :: "regular_grid \<Rightarrow> bool" where
  "grid_ok g \<longleftrightarrow> 0 < rg_lat_step g \<and> 0 < rg_lon_step g \<and> 1 \<le> rg_rows g \<and> 1 \<le> rg_cols g \<and>
     - 90 \<le> rg_lat_start g \<and> rg_lat_start g \<le> 90 \<and> - 180 \<le> rg_lon_start g \<and> rg_lon_start g \<le> 180"

lemma RegularGrid_ok:
  assumes "RegularGrid la lo las los rows cols = Inr g"
  shows "grid_ok g \<and> la = Fin (rg_lat_start g) \<and> lo = Fin (rg_lon_start g) \<and> las = Fin (rg_lat_step g) \<and> los = Fin (rg_lon_step g) \<and>
    rows = rg_rows g \<and> cols = rg_cols g"
  using assms
  by (auto simp: RegularGrid_def grid_ok_def validate_coordinates_def validate_latitude_def validate_longitude_def finite_or_def
      bindE_eq_Inr LATITUDE_MIN_def LATITUDE_MAX_def LONGITUDE_MIN_def LONGITUDE_MAX_def split: pyfloat.splits if_splits)

lemma contains_D:
  assumes "contains g latitude longitude = Inr b"
  obtains la lo aligned where "latitude = Fin la" "longitude = Fin lo" "- 90 \<le> la" "la \<le> 90" "- 180 \<le> lo" "lo \<le> 180"
    "align_longitude g longitude = Inr aligned" "aligned = (if 180 < lon_stop g \<and> lo < 0 then lo + 360 else lo)"
    "b \<longleftrightarrow> rg_lat_start g - GRID_BOUNDS_TOLERANCE \<le> la \<and> la \<le> lat_stop g + GRID_BOUNDS_TOLERANCE \<and>
       rg_lon_start g - GRID_BOUNDS_TOLERANCE \<le> aligned \<and> aligned \<le> lon_stop g + GRID_BOUNDS_TOLERANCE"
proof -
  from assms obtain la lo aligned where v: "validate_coordinates latitude longitude = Inr (la, lo)"
    "align_longitude g longitude = Inr aligned"
    "b \<longleftrightarrow> rg_lat_start g - GRID_BOUNDS_TOLERANCE \<le> la \<and> la \<le> lat_stop g + GRID_BOUNDS_TOLERANCE \<and>
       rg_lon_start g - GRID_BOUNDS_TOLERANCE \<le> aligned \<and> aligned \<le> lon_stop g + GRID_BOUNDS_TOLERANCE"
    by (auto simp: contains_def bindE_eq_Inr)
  then have f: "latitude = Fin la" "longitude = Fin lo" "- 90 \<le> la" "la \<le> 90" "- 180 \<le> lo" "lo \<le> 180"
    by (auto simp: validate_coordinates_def validate_latitude_def validate_longitude_def finite_or_def bindE_eq_Inr
        LATITUDE_MIN_def LATITUDE_MAX_def LONGITUDE_MIN_def LONGITUDE_MAX_def split: pyfloat.splits if_splits)
  then have "aligned = (if 180 < lon_stop g \<and> lo < 0 then lo + 360 else lo)"
    using v(2) by (simp add: align_longitude_def normalize_id)
  with f v that show ?thesis by blast
qed

text \<open>Clamped half-up rounding finds the nearest index.\<close>

lemma clamp_cases: "1 \<le> n \<Longrightarrow> f < 0 \<and> clamp_index f n = 0 \<or> n - 1 < f \<and> clamp_index f n = n - 1 \<or> clamp_index f n = f"
  by (auto simp: clamp_index_def min_def max_def)

lemma clamp_nearest:
  fixes x :: real
  assumes "0 \<le> r" "r < n"
  shows "\<bar>x - of_int (clamp_index \<lfloor>x + 1 / 2\<rfloor> n)\<bar> \<le> \<bar>x - of_int r\<bar>" "0 \<le> clamp_index \<lfloor>x + 1 / 2\<rfloor> n" "clamp_index \<lfloor>x + 1 / 2\<rfloor> n < n"
proof -
  let ?f = "\<lfloor>x + 1 / 2\<rfloor>"
  have f: "of_int ?f \<le> x + 1 / 2" "x + 1 / 2 < of_int ?f + 1" by linarith+
  show "0 \<le> clamp_index ?f n" "clamp_index ?f n < n" using assms by (auto simp: clamp_index_def)
  consider "?f < 0" "clamp_index ?f n = 0" | "n - 1 < ?f" "clamp_index ?f n = n - 1" | "clamp_index ?f n = ?f"
    using assms clamp_cases [of n ?f] by linarith
  then show "\<bar>x - of_int (clamp_index ?f n)\<bar> \<le> \<bar>x - of_int r\<bar>"
  proof cases
    case 1
    then have "x < 0" using f by linarith
    moreover have "0 \<le> (of_int r :: real)" using assms by simp
    ultimately show ?thesis using 1 by simp
  next
    case 2
    then have "n \<le> ?f" by simp
    then have "(of_int n :: real) \<le> of_int ?f" by (simp only: of_int_le_iff)
    then have "of_int n - 1 < x" using f by linarith
    moreover have "(of_int r :: real) \<le> of_int n - 1" using assms by linarith
    ultimately show ?thesis using 2 by simp
  next
    case 3
    show ?thesis
    proof (cases "r = ?f")
      case False
      then consider "r \<le> ?f - 1" | "?f + 1 \<le> r" by linarith
      then show ?thesis
      proof cases
        case 1
        then have "(of_int r :: real) \<le> of_int ?f - 1" by linarith
        with 3 f show ?thesis by linarith
      next
        case 2
        then have "(of_int ?f :: real) + 1 \<le> of_int r" by linarith
        with 3 f show ?thesis by linarith
      qed
    qed (use 3 in simp)
  qed
qed

lemma scaled_distance:
  assumes "0 < (s :: real)" shows "\<bar>y - (a + k * s)\<bar> = s * \<bar>(y - a) / s - k\<bar>"
proof -
  have "y - (a + k * s) = s * ((y - a) / s - k)" using assms by (simp add: field_simps)
  then show ?thesis using assms by (simp add: abs_mult)
qed

text \<open>The grid node that a lookup returns is on the grid and is the nearest one, in latitude and in aligned longitude, to the
  point that was asked for.\<close>

theorem nearest_index_is_nearest:
  assumes "nearest_grid_index g latitude longitude = Inr p" "grid_ok g"
  shows "\<exists>la aligned plat plon. latitude = Fin la \<and> align_longitude g longitude = Inr aligned \<and>
    grid_index_to_coordinate g p = Inr (plat, plon) \<and>
    (\<forall>q qlat qlon. grid_index_to_coordinate g q = Inr (qlat, qlon) \<longrightarrow> \<bar>la - plat\<bar> \<le> \<bar>la - qlat\<bar> \<and> \<bar>aligned - plon\<bar> \<le> \<bar>aligned - qlon\<bar>)"
proof -
  have c: "contains g latitude longitude = Inr True"
    using assms(1) by (auto simp: nearest_grid_index_def bindE_eq_Inr split: if_splits)
  then obtain la lo aligned where v: "latitude = Fin la" "align_longitude g longitude = Inr aligned"
    by (rule contains_D) blast
  let ?r = "clamp_index \<lfloor>(la - rg_lat_start g) / rg_lat_step g + 1 / 2\<rfloor> (rg_rows g)"
    and ?c = "clamp_index \<lfloor>(aligned - rg_lon_start g) / rg_lon_step g + 1 / 2\<rfloor> (rg_cols g)"
  have p: "p = \<lparr>gp_row = ?r, gp_col = ?c\<rparr>"
    using assms(1) c v by (auto simp: nearest_grid_index_def finite_or_def GridPoint_def split: if_splits)
  have s: "0 < rg_lat_step g" "0 < rg_lon_step g" "0 < rg_rows g" "0 < rg_cols g" using assms(2) by (simp_all add: grid_ok_def)
  have node: "grid_index_to_coordinate g q = Inr (qlat, qlon) \<longleftrightarrow> 0 \<le> gp_row q \<and> gp_row q < rg_rows g \<and> 0 \<le> gp_col q \<and> gp_col q < rg_cols g \<and>
      qlat = rg_lat_start g + of_int (gp_row q) * rg_lat_step g \<and> qlon = rg_lon_start g + of_int (gp_col q) * rg_lon_step g" for q qlat qlon
    by (auto simp: grid_index_to_coordinate_def row_latitude_def col_longitude_def validate_index_def bindE_eq_Inr)
  have "\<bar>la - (rg_lat_start g + of_int ?r * rg_lat_step g)\<bar> \<le> \<bar>la - (rg_lat_start g + of_int k * rg_lat_step g)\<bar>"
    if "0 \<le> k" "k < rg_rows g" for k
    using clamp_nearest(1) [OF that] s by (simp add: scaled_distance)
  moreover have "\<bar>aligned - (rg_lon_start g + of_int ?c * rg_lon_step g)\<bar> \<le> \<bar>aligned - (rg_lon_start g + of_int k * rg_lon_step g)\<bar>"
    if "0 \<le> k" "k < rg_cols g" for k
    using clamp_nearest(1) [OF that] s by (simp add: scaled_distance)
  moreover have "grid_index_to_coordinate g p = Inr (rg_lat_start g + of_int ?r * rg_lat_step g, rg_lon_start g + of_int ?c * rg_lon_step g)"
    unfolding node p using clamp_nearest(2,3) [of 0] s by simp
  ultimately have "\<forall>q qlat qlon. grid_index_to_coordinate g q = Inr (qlat, qlon) \<longrightarrow>
      \<bar>la - (rg_lat_start g + of_int ?r * rg_lat_step g)\<bar> \<le> \<bar>la - qlat\<bar> \<and> \<bar>aligned - (rg_lon_start g + of_int ?c * rg_lon_step g)\<bar> \<le> \<bar>aligned - qlon\<bar>"
    and "grid_index_to_coordinate g p = Inr (rg_lat_start g + of_int ?r * rg_lat_step g, rg_lon_start g + of_int ?c * rg_lon_step g)"
    unfolding node by blast+
  with v show ?thesis by blast
qed

subsection \<open>The confidence interval\<close>

lemma wilson_contains:
  fixes p n z :: real
  assumes "0 \<le> p" "p \<le> 1" "0 < n" "0 < z"
  defines "d \<equiv> 1 + z * z / n"
  shows "\<bar>p - (p + z * z / (2 * n)) / d\<bar> \<le> z * sqrt (p * (1 - p) / n + z * z / (4 * n * n)) / d"
proof -
  let ?w = "p * (1 - p) / n + z * z / (4 * n * n)"
  have d: "0 < d" using assms by (simp add: d_def add_pos_pos)
  have w: "0 \<le> ?w" using assms by simp
  have "p - (p + z * z / (2 * n)) / d = (p * d - (p + z * z / (2 * n))) / d" using d by (simp add: field_simps)
  also have "p * d - (p + z * z / (2 * n)) = z * z / (2 * n) * (2 * p - 1)" using assms by (simp add: d_def field_simps)
  finally have l: "\<bar>p - (p + z * z / (2 * n)) / d\<bar> = \<bar>z * z / (2 * n) * (2 * p - 1)\<bar> / d" using d assms(3) by (simp add: abs_mult)
  have "(z * z / (2 * n) * (2 * p - 1))\<^sup>2 = z\<^sup>2 * (z * z / (4 * n * n)) - z\<^sup>2 * z\<^sup>2 * (p * (1 - p)) / (n * n)"
    using assms by (simp add: power2_eq_square field_simps)
  also have "\<dots> \<le> z\<^sup>2 * (z * z / (4 * n * n)) + z\<^sup>2 * (p * (1 - p) / n)"
  proof -
    have "0 \<le> z\<^sup>2 * z\<^sup>2 * (p * (1 - p)) / (n * n)" "0 \<le> z\<^sup>2 * (p * (1 - p) / n)" using assms by simp_all
    then show ?thesis by linarith
  qed
  also have "\<dots> = (z * sqrt ?w)\<^sup>2" using w by (simp add: power_mult_distrib algebra_simps)
  finally have "\<bar>z * z / (2 * n) * (2 * p - 1)\<bar> \<le> \<bar>z * sqrt ?w\<bar>" by (rule abs_le_square_iff [THEN iffD2])
  then have "\<bar>z * z / (2 * n) * (2 * p - 1)\<bar> \<le> z * sqrt ?w" using assms(4) w by simp
  from divide_right_mono [OF this less_imp_le [OF d]] show ?thesis unfolding l .
qed

lemma confidence_interval_eq:
  assumes "0 \<le> p" "p \<le> 1" "1 \<le> n"
  shows "\<exists>lo hi. probability_confidence_interval (Fin p) n (95 / 100) = Inr (lo, hi) \<and> 0 \<le> lo \<and> lo \<le> p \<and> p \<le> hi \<and> hi \<le> 1"
proof -
  have a: "0 < real_of_int n" "0 < Z_95" using assms by (simp_all add: Z_95_def)
  let ?z = "Z_95" and ?n = "real_of_int n"
  let ?c = "(p + ?z * ?z / (2 * ?n)) / (1 + ?z * ?z / ?n)"
    and ?m = "?z * sqrt (p * (1 - p) / ?n + ?z * ?z / (4 * ?n * ?n)) / (1 + ?z * ?z / ?n)"
  have "\<bar>p - ?c\<bar> \<le> ?m" by (rule wilson_contains [OF assms(1,2) a])
  then have "?c - ?m \<le> p" "p \<le> ?c + ?m" by linarith+
  moreover have "probability_confidence_interval (Fin p) n (95 / 100) = Inr (max 0 (?c - ?m), min 1 (?c + ?m))"
    using assms by (simp add: probability_confidence_interval_def finite_or_def Let_def)
  ultimately show ?thesis
    using assms(1,2) by (intro exI [of _ "max 0 (?c - ?m)"] exI [of _ "min 1 (?c + ?m)"] conjI) simp_all
qed

text \<open>The confidence interval of a probability is a subinterval of the unit interval that contains the probability; only a
  probability outside the unit interval, an empty sample or another confidence level is refused.\<close>

theorem confidence_interval_contains:
  "(\<exists>lo hi. probability_confidence_interval (Fin p) n (95 / 100) = Inr (lo, hi) \<and> 0 \<le> lo \<and> lo \<le> p \<and> p \<le> hi \<and> hi \<le> 1) \<longleftrightarrow>
   0 \<le> p \<and> p \<le> 1 \<and> 1 \<le> n"
  using confidence_interval_eq [of p n] by (auto simp: probability_confidence_interval_def finite_or_def split: if_splits)

end
