(* ===== verification/PointInterpolation.thy ===== *)
theory PointInterpolation
  imports GeoGrid ShardRoundTrip
begin

text \<open>
  How the service reads one point of a stored field: \<open>_derive_grid\<close> and \<open>_interpolate_neighborhood\<close> of
  \<open>api/services/point_forecast.py\<close>, which recover the regular grid from the stored axes and blend the four surrounding
  cells, and \<open>interpolate_point\<close> of \<open>api/core/zarr.py\<close>, which reads those four cells from a shard behind a third
  bounded cache.
\<close>

subsection \<open>Axes\<close>

definition HTTPException_500 :: py_error where "HTTPException_500 = DomainError ''HTTPException'' ''500''"

definition ascending :: "real list \<Rightarrow> (real list \<times> bool) result" where
  "ascending values = (if values = [] then Inl (IndexError ''list index out of range'')
     else if last values < hd values then Inr (rev values, True) else Inr (values, False))"

definition normalize_grid_longitudes :: "real list \<Rightarrow> real list" where
  "normalize_grid_longitudes longitudes =
     (if longitudes \<noteq> [] \<and> list_all (\<lambda>v. 180 < v) longitudes then map (\<lambda>v. v - 360) longitudes else longitudes)"

definition np_diff :: "real list \<Rightarrow> real list" where
  "np_diff xs = map2 (\<lambda>a b. b - a) (butlast xs) (tl xs)"

definition axis_values :: "real list option \<Rightarrow> real list result" where
  "axis_values coord = (case coord of None \<Rightarrow> Inl HTTPException_500 | Some values \<Rightarrow> Inr values)"

text \<open>The tolerance test of numpy is an argument.\<close>

definition derive_grid ::
    "(real list \<Rightarrow> real \<Rightarrow> bool) \<Rightarrow> real list option \<Rightarrow> real list option \<Rightarrow> (regular_grid \<times> bool \<times> bool) result" where
  "derive_grid allclose latitude longitude =
     bindE (axis_values latitude) (\<lambda>lat_raw. bindE (axis_values longitude) (\<lambda>lon_raw.
     bindE (ascending lat_raw) (\<lambda>(latitudes, lat_descending).
     bindE (ascending lon_raw) (\<lambda>(longitudes0, lon_descending).
       let longitudes = normalize_grid_longitudes longitudes0 in
       if length latitudes < 2 \<or> length longitudes < 2 then Inl HTTPException_500
       else let lat_step = (last latitudes - hd latitudes) / real (length latitudes - 1);
                lon_step = (last longitudes - hd longitudes) / real (length longitudes - 1) in
         if lat_step \<le> 0 \<or> lon_step \<le> 0 then Inl HTTPException_500
         else if \<not> allclose (np_diff latitudes) lat_step \<or> \<not> allclose (np_diff longitudes) lon_step then Inl HTTPException_500
         else bindE (RegularGrid (Fin (hd latitudes)) (Fin (hd longitudes)) (Fin lat_step) (Fin lon_step)
                      (int (length latitudes)) (int (length longitudes)))
              (\<lambda>g. Inr (g, lat_descending, lon_descending))))))"

subsection \<open>A point of a field\<close>

text \<open>A two-dimensional field, or a stack of them along the member axis\<close>

datatype field = Plane "pyfloat list list" | Stack "pyfloat list list list"

record stored_field =
  fd_latitude_size :: int
  fd_longitude_size :: int
  fd_cells :: field

definition stored :: "int \<Rightarrow> int \<Rightarrow> bool \<Rightarrow> int" where
  "stored i n descending = (if descending then n - 1 - i else i)"

text \<open>One label of a list indexer\<close>

definition isel_index :: "int \<Rightarrow> int \<Rightarrow> nat result" where
  "isel_index n i = (if - n \<le> i \<and> i < n then Inr (nat (if i < 0 then i + n else i)) else Inl (IndexError ''out of bounds''))"

text \<open>One cell of the window, the member axis reduced by the mean of the array library\<close>

definition window_cell :: "(pyfloat list \<Rightarrow> pyfloat) \<Rightarrow> field \<Rightarrow> nat \<Rightarrow> nat \<Rightarrow> pyfloat" where
  "window_cell mean f i j = (case f of Plane m \<Rightarrow> m ! i ! j | Stack ms \<Rightarrow> mean (map (\<lambda>m. m ! i ! j) ms))"

definition interpolate_neighborhood ::
    "(pyfloat list \<Rightarrow> pyfloat) \<Rightarrow> stored_field \<Rightarrow> regular_grid \<Rightarrow> bool \<Rightarrow> bool \<Rightarrow> pyfloat \<Rightarrow> pyfloat \<Rightarrow> pyfloat result" where
  "interpolate_neighborhood mean f g lat_descending lon_descending latitude longitude =
     (if rg_rows g < 2 \<or> rg_cols g < 2 then Inl InvalidGridError
      else bindE (row_col_from_coordinates g latitude longitude) (\<lambda>(row_f, col_f).
        let row_0 = lower_index (rg_rows g) row_f; col_0 = lower_index (rg_cols g) col_f;
            row_1 = row_0 + 1; col_1 = col_0 + 1;
            lat_size = fd_latitude_size f; lon_size = fd_longitude_size f in
        bindE (isel_index lat_size (stored row_0 lat_size lat_descending)) (\<lambda>i0.
        bindE (isel_index lat_size (stored row_1 lat_size lat_descending)) (\<lambda>i1.
        bindE (isel_index lon_size (stored col_0 lon_size lon_descending)) (\<lambda>j0.
        bindE (isel_index lon_size (stored col_1 lon_size lon_descending)) (\<lambda>j1.
          let value = window_cell mean (fd_cells f) in
          Inr (bilinear (value i0 j0) (value i0 j1) (value i1 j0) (value i1 j1)
                 (row_f - of_int row_0) (col_f - of_int col_0))))))))"

subsection \<open>A point of a shard\<close>

type_synonym point_key = "string \<times> bool \<times> string \<times> int option \<times> int \<times> int \<times> int \<times> int \<times> int"

record point_state =
  ps_reader :: reader_state
  ps_point_cache :: "(point_key \<times> nat \<times> nat \<times> nat \<times> nat) list"

definition point_key_of :: "slice_id \<Rightarrow> int \<Rightarrow> int \<Rightarrow> int \<Rightarrow> int \<Rightarrow> point_key" where
  "point_key_of s lat0 lat1 lon0 lon1 =
     (generation_tag (sl_generation s), sl_is_mean s, sl_variable s, sl_member s, sl_lead s, lat0, lat1, lon0, lon1)"

text \<open>The four cells: of one chunk read once, or of up to four chunks\<close>

definition read_corners ::
    "reader_class \<Rightarrow> reader \<Rightarrow> objects \<Rightarrow> slice_id \<Rightarrow> int \<Rightarrow> int \<Rightarrow> int \<Rightarrow> int \<Rightarrow> reader_state
     \<Rightarrow> (nat \<times> nat \<times> nat \<times> nat) result \<times> reader_state" where
  "read_corners cls rd objs s lat0 lat1 lon0 lon1 st =
     (let r0 = lat0 div 100; c0 = lon0 div 100; r1 = lat1 div 100; c1 = lon1 div 100 in
      if r0 = r1 \<and> c0 = c1 then
        (case read_chunk cls rd objs s r0 c0 st of (res, st1) \<Rightarrow>
          (bindE res (\<lambda>arr. let v = (\<lambda>i j. a_cell arr (nat (i mod 100)) (nat (j mod 100)))
             in Inr (v lat0 lon0, v lat0 lon1, v lat1 lon0, v lat1 lon1)), st1))
      else
        (case read_point_value cls rd objs s lat0 lon0 st of (Inl e, st1) \<Rightarrow> (Inl e, st1) | (Inr v00, st1) \<Rightarrow>
        (case read_point_value cls rd objs s lat0 lon1 st1 of (Inl e, st2) \<Rightarrow> (Inl e, st2) | (Inr v01, st2) \<Rightarrow>
        (case read_point_value cls rd objs s lat1 lon0 st2 of (Inl e, st3) \<Rightarrow> (Inl e, st3) | (Inr v10, st3) \<Rightarrow>
        (case read_point_value cls rd objs s lat1 lon1 st3 of (Inl e, st4) \<Rightarrow> (Inl e, st4) | (Inr v11, st4) \<Rightarrow>
           (Inr (v00, v01, v10, v11), st4))))))"

definition blend :: "(nat \<Rightarrow> pyfloat) \<Rightarrow> real \<Rightarrow> real \<Rightarrow> nat \<times> nat \<times> nat \<times> nat \<Rightarrow> pyfloat" where
  "blend value t_row t_col corners = (case corners of (v00, v01, v10, v11) \<Rightarrow>
     bilinear (value v00) (value v01) (value v10) (value v11) t_row t_col)"

definition interpolate_point ::
    "(nat \<Rightarrow> pyfloat) \<Rightarrow> nat \<Rightarrow> reader_class \<Rightarrow> reader \<Rightarrow> objects \<Rightarrow> slice_id \<Rightarrow> int \<times> int \<Rightarrow> int \<times> int \<Rightarrow> real \<Rightarrow> real \<Rightarrow> point_state
     \<Rightarrow> pyfloat result \<times> point_state" where
  "interpolate_point value max_cached_points cls rd objs s lat_idx lon_idx t_row t_col st =
     (case (lat_idx, lon_idx) of ((lat0, lat1), (lon0, lon1)) \<Rightarrow>
      let k = point_key_of s lat0 lat1 lon0 lon1 in
      (case map_of (ps_point_cache st) k of
         Some corners \<Rightarrow> (Inr (blend value t_row t_col corners), st\<lparr>ps_point_cache := move_to_end k (ps_point_cache st)\<rparr>)
       | None \<Rightarrow> (case read_corners cls rd objs s lat0 lat1 lon0 lon1 (ps_reader st) of
            (Inl e, r1) \<Rightarrow> (Inl e, st\<lparr>ps_reader := r1\<rparr>)
          | (Inr corners, r1) \<Rightarrow> (Inr (blend value t_row t_col corners),
               st\<lparr>ps_reader := r1, ps_point_cache := cache_put max_cached_points k corners (ps_point_cache st)\<rparr>))))"

text \<open>The members of an ensemble: all are read, the first failure in member order is raised.\<close>

fun interpolate_members ::
    "(nat \<Rightarrow> pyfloat) \<Rightarrow> nat \<Rightarrow> reader_class \<Rightarrow> reader \<Rightarrow> objects \<Rightarrow> slice_id \<Rightarrow> int \<times> int \<Rightarrow> int \<times> int \<Rightarrow> real \<Rightarrow> real
     \<Rightarrow> int list \<Rightarrow> point_state \<Rightarrow> pyfloat list result \<times> point_state" where
  "interpolate_members value n cls rd objs s lat_idx lon_idx t_row t_col [] st = (Inr [], st)"
| "interpolate_members value n cls rd objs s lat_idx lon_idx t_row t_col (m # ms) st =
     (case interpolate_point value n cls rd objs (s\<lparr>sl_member := Some m, sl_is_mean := False\<rparr>) lat_idx lon_idx t_row t_col st of
        (res, st1) \<Rightarrow> (case interpolate_members value n cls rd objs s lat_idx lon_idx t_row t_col ms st1 of
           (rest, st2) \<Rightarrow> (bindE res (\<lambda>v. bindE rest (\<lambda>vs. Inr (v # vs))), st2)))"

subsection \<open>The point cache is coherent\<close>

definition uncached_corners ::
    "reader_class \<Rightarrow> reader \<Rightarrow> world \<Rightarrow> slice_id \<Rightarrow> int \<Rightarrow> int \<Rightarrow> int \<Rightarrow> int \<Rightarrow> (nat \<times> nat \<times> nat \<times> nat) result" where
  "uncached_corners cls rd W s lat0 lat1 lon0 lon1 =
     (let v = (\<lambda>i j. bindE (uncached_chunk cls rd (W (generation_tag (sl_generation s))) s (i div 100) (j div 100))
                (\<lambda>arr. Inr (a_cell arr (nat (i mod 100)) (nat (j mod 100)))))
      in bindE (v lat0 lon0) (\<lambda>v00. bindE (v lat0 lon1) (\<lambda>v01. bindE (v lat1 lon0) (\<lambda>v10. bindE (v lat1 lon1) (\<lambda>v11.
           Inr (v00, v01, v10, v11))))))"

definition valid_corners :: "reader_class \<Rightarrow> reader \<Rightarrow> world \<Rightarrow> point_key \<Rightarrow> nat \<times> nat \<times> nat \<times> nat \<Rightarrow> bool" where
  "valid_corners cls rd W k corners \<longleftrightarrow> (\<exists>s lat0 lat1 lon0 lon1. k = point_key_of s lat0 lat1 lon0 lon1 \<and>
     uncached_corners cls rd W s lat0 lat1 lon0 lon1 = Inr corners)"

definition point_coherent :: "nat \<Rightarrow> reader_class \<Rightarrow> reader \<Rightarrow> world \<Rightarrow> point_state \<Rightarrow> bool" where
  "point_coherent n cls rd W st \<longleftrightarrow> coherent cls rd W (ps_reader st) \<and> lru_ok n (valid_corners cls rd W) (ps_point_cache st)"

text \<open>A chunk depends on the generation token of its slice only through the objects it selects.\<close>

lemma uncached_chunk_generation:
  assumes "sl_is_mean s = sl_is_mean u" "sl_variable s = sl_variable u" "sl_member s = sl_member u" "sl_lead s = sl_lead u"
  shows "uncached_chunk cls rd objs s r c = uncached_chunk cls rd objs u r c"
proof (cases "in_grid r c")
  case True
  with assms show ?thesis by (simp add: uncached_chunk_eq slice_dtype_def slice_key_def)
next
  case False
  with assms show ?thesis
    by (auto simp: uncached_chunk_def read_chunk_def read_chunk_with_def in_grid_def slice_dtype_def)
qed

lemma corners_of_key:
  assumes "point_key_of s lat0 lat1 lon0 lon1 = point_key_of u lat0' lat1' lon0' lon1'"
  shows "uncached_corners cls rd W s lat0 lat1 lon0 lon1 = uncached_corners cls rd W u lat0' lat1' lon0' lon1'"
proof -
  have eqs: "generation_tag (sl_generation s) = generation_tag (sl_generation u)" "sl_is_mean s = sl_is_mean u"
    "sl_variable s = sl_variable u" "sl_member s = sl_member u" "sl_lead s = sl_lead u"
    "lat0 = lat0'" "lat1 = lat1'" "lon0 = lon0'" "lon1 = lon1'"
    using assms by (simp_all add: point_key_of_def)
  then show ?thesis using uncached_chunk_generation [OF eqs(2-5)] by (simp add: uncached_corners_def)
qed

lemma read_point_value_coherent:
  assumes "coherent cls rd W st" "plain_slice s"
    "read_point_value cls rd (W (generation_tag (sl_generation s))) s i j st = (res, st1)"
  shows "res = bindE (uncached_chunk cls rd (W (generation_tag (sl_generation s))) s (i div 100) (j div 100))
      (\<lambda>arr. Inr (a_cell arr (nat (i mod 100)) (nat (j mod 100)))) \<and> coherent cls rd W st1"
proof -
  obtain r1 st1' where r: "read_chunk cls rd (W (generation_tag (sl_generation s))) s (i div 100) (j div 100) st = (r1, st1')" by fastforce
  with read_chunk_coherent [OF assms(1,2) r] assms(3) show ?thesis by (simp add: read_point_value_def)
qed

lemma read_corners_coherent:
  assumes co: "coherent cls rd W st" and pl: "plain_slice s"
    and rc: "read_corners cls rd (W (generation_tag (sl_generation s))) s lat0 lat1 lon0 lon1 st = (res, st1)"
  shows "res = uncached_corners cls rd W s lat0 lat1 lon0 lon1 \<and> coherent cls rd W st1"
proof (cases "lat0 div 100 = lat1 div 100 \<and> lon0 div 100 = lon1 div 100")
  case True
  let ?W = "W (generation_tag (sl_generation s))"
  obtain r st1' where r: "read_chunk cls rd ?W s (lat1 div 100) (lon1 div 100) st = (r, st1')" by fastforce
  with read_chunk_coherent [OF co pl r] rc True show ?thesis
    by (cases "uncached_chunk cls rd ?W s (lat1 div 100) (lon1 div 100)")
      (auto simp: read_corners_def uncached_corners_def Let_def)
next
  case False
  let ?W = "W (generation_tag (sl_generation s))"
  note step = read_point_value_coherent [OF _ pl]
  obtain a st2 where a: "read_point_value cls rd ?W s lat0 lon0 st = (a, st2)" by fastforce
  obtain b st3 where b: "read_point_value cls rd ?W s lat0 lon1 st2 = (b, st3)" by fastforce
  obtain c st4 where c: "read_point_value cls rd ?W s lat1 lon0 st3 = (c, st4)" by fastforce
  obtain d st5 where d: "read_point_value cls rd ?W s lat1 lon1 st4 = (d, st5)" by fastforce
  note s1 = step [OF co a] note s2 = step [OF conjunct2 [OF s1] b]
  note s3 = step [OF conjunct2 [OF s2] c] note s4 = step [OF conjunct2 [OF s3] d]
  have res: "read_corners cls rd ?W s lat0 lat1 lon0 lon1 st =
      (case a of Inl e \<Rightarrow> (Inl e, st2) | Inr va \<Rightarrow> case b of Inl e \<Rightarrow> (Inl e, st3) | Inr vb \<Rightarrow>
       case c of Inl e \<Rightarrow> (Inl e, st4) | Inr vc \<Rightarrow> case d of Inl e \<Rightarrow> (Inl e, st5) | Inr vd \<Rightarrow> (Inr (va, vb, vc, vd), st5))"
    using False by (auto simp: read_corners_def Let_def a b c d split: sum.splits)
  have un: "uncached_corners cls rd W s lat0 lat1 lon0 lon1 =
      bindE a (\<lambda>va. bindE b (\<lambda>vb. bindE c (\<lambda>vc. bindE d (\<lambda>vd. Inr (va, vb, vc, vd)))))"
    using s1 s2 s3 s4 by (simp add: uncached_corners_def)
  show ?thesis using rc unfolding res un
    using s1 s2 s3 s4 by (auto split: sum.splits)
qed

lemma interpolate_point_coherent:
  assumes co: "point_coherent n cls rd W st" and pl: "plain_slice s"
    and ip: "interpolate_point value n cls rd (W (generation_tag (sl_generation s))) s (lat0, lat1) (lon0, lon1) t_row t_col st = (res, st1)"
  shows "res = bindE (uncached_corners cls rd W s lat0 lat1 lon0 lon1) (\<lambda>c. Inr (blend value t_row t_col c)) \<and>
    point_coherent n cls rd W st1"
proof (cases "map_of (ps_point_cache st) (point_key_of s lat0 lat1 lon0 lon1)")
  case (Some corners)
  have lru: "lru_ok n (valid_corners cls rd W) (ps_point_cache st)" using co by (simp add: point_coherent_def)
  from lru_ok_lookup [OF lru Some] have "uncached_corners cls rd W s lat0 lat1 lon0 lon1 = Inr corners"
    unfolding valid_corners_def by (metis corners_of_key)
  then show ?thesis using Some ip co by (auto simp: interpolate_point_def point_coherent_def intro: lru_ok_move)
next
  case None
  obtain r r1 where r: "read_corners cls rd (W (generation_tag (sl_generation s))) s lat0 lat1 lon0 lon1 (ps_reader st) = (r, r1)" by fastforce
  have co': "coherent cls rd W (ps_reader st)" using co by (simp add: point_coherent_def)
  note rc = read_corners_coherent [OF co' pl r]
  show ?thesis
  proof (cases r)
    case (Inl e)
    then have "uncached_corners cls rd W s lat0 lat1 lon0 lon1 = Inl e" using rc by simp
    with Inl None ip r rc co show ?thesis by (auto simp: interpolate_point_def point_coherent_def)
  next
    case (Inr corners)
    then have un: "uncached_corners cls rd W s lat0 lat1 lon0 lon1 = Inr corners" using rc by simp
    then have "valid_corners cls rd W (point_key_of s lat0 lat1 lon0 lon1) corners" unfolding valid_corners_def by blast
    with un Inr None ip r rc co show ?thesis by (auto simp: interpolate_point_def point_coherent_def intro: lru_ok_put)
  qed
qed


text \<open>A history of point requests answered one after the other\<close>

record point_request =
  pq_slice :: slice_id
  pq_lat_idx :: "int \<times> int"
  pq_lon_idx :: "int \<times> int"
  pq_t_row :: real
  pq_t_col :: real

definition answer_point ::
    "(nat \<Rightarrow> pyfloat) \<Rightarrow> nat \<Rightarrow> reader_class \<Rightarrow> reader \<Rightarrow> world \<Rightarrow> point_request \<Rightarrow> point_state \<Rightarrow> pyfloat result \<times> point_state" where
  "answer_point value n cls rd W q = interpolate_point value n cls rd (W (generation_tag (sl_generation (pq_slice q)))) (pq_slice q)
     (pq_lat_idx q) (pq_lon_idx q) (pq_t_row q) (pq_t_col q)"

fun answer_points ::
    "(nat \<Rightarrow> pyfloat) \<Rightarrow> nat \<Rightarrow> reader_class \<Rightarrow> reader \<Rightarrow> world \<Rightarrow> point_request list \<Rightarrow> point_state
     \<Rightarrow> pyfloat result list \<times> point_state" where
  "answer_points value n cls rd W [] st = ([], st)"
| "answer_points value n cls rd W (q # qs) st =
     (case answer_point value n cls rd W q st of (res, st1) \<Rightarrow>
        case answer_points value n cls rd W qs st1 of (rs, st2) \<Rightarrow> (res # rs, st2))"

definition no_point_cache :: point_state where
  "no_point_cache = \<lparr>ps_reader = no_cache, ps_point_cache = []\<rparr>"

lemma point_coherent_empty: "point_coherent n cls rd W no_point_cache"
  by (simp add: point_coherent_def no_point_cache_def coherent_no_cache)

definition fresh_answer :: "(nat \<Rightarrow> pyfloat) \<Rightarrow> reader_class \<Rightarrow> reader \<Rightarrow> world \<Rightarrow> point_request \<Rightarrow> pyfloat result" where
  "fresh_answer value cls rd W q = bindE (uncached_corners cls rd W (pq_slice q) (fst (pq_lat_idx q)) (snd (pq_lat_idx q))
     (fst (pq_lon_idx q)) (snd (pq_lon_idx q))) (\<lambda>c. Inr (blend value (pq_t_row q) (pq_t_col q) c))"

lemma answer_point_coherent:
  assumes "point_coherent n cls rd W st" "plain_slice (pq_slice q)" "answer_point value n cls rd W q st = (res, st1)"
  shows "res = fresh_answer value cls rd W q \<and> point_coherent n cls rd W st1"
  using interpolate_point_coherent [OF assms(1,2), of _ "fst (pq_lat_idx q)" "snd (pq_lat_idx q)" "fst (pq_lon_idx q)" "snd (pq_lon_idx q)"]
    assms(3) by (simp add: answer_point_def fresh_answer_def)

lemma answer_points_coherent:
  assumes "point_coherent n cls rd W st" "\<And>q. q \<in> set qs \<Longrightarrow> plain_slice (pq_slice q)"
    "answer_points value n cls rd W qs st = (out, st')"
  shows "out = map (fresh_answer value cls rd W) qs \<and> point_coherent n cls rd W st'"
  using assms
proof (induction qs arbitrary: st out st')
  case (Cons q qs)
  obtain res st1 where a: "answer_point value n cls rd W q st = (res, st1)" by fastforce
  obtain rs st2 where b: "answer_points value n cls rd W qs st1 = (rs, st2)" by fastforce
  have pl: "plain_slice (pq_slice q)" using Cons.prems(2) by simp
  note c = answer_point_coherent [OF Cons.prems(1) pl a]
  from Cons.IH [OF conjunct2 [OF c] _ b] Cons.prems(2) have "rs = map (fresh_answer value cls rd W) qs \<and> point_coherent n cls rd W st2"
    by simp
  with a b c Cons.prems(3) show ?case by simp
qed simp

text \<open>The point cache, above the index and chunk caches, never changes an answer: any history of point requests gets the
  answers a reader with empty caches would give, whatever the weights, and the cache never outgrows its limit.\<close>

theorem point_cache_transparent:
  assumes "answer_points value n cls rd W qs no_point_cache = (out, st)"
    and "\<And>q. q \<in> set qs \<Longrightarrow> CHR ''/'' \<notin> set (sl_variable (pq_slice q)) \<and> CHR '':'' \<notin> set (generation_tag (sl_generation (pq_slice q)))"
  shows "out = map (\<lambda>q. fst (answer_point value n cls rd W q no_point_cache)) qs \<and> length (ps_point_cache st) \<le> n"
proof -
  have pl: "plain_slice (pq_slice q)" if "q \<in> set qs" for q
    using assms(2) [OF that] by (simp add: plain_slice_def plain_tag_def)
  have fresh: "fst (answer_point value n cls rd W q no_point_cache) = fresh_answer value cls rd W q" if "q \<in> set qs" for q
    using answer_point_coherent [OF point_coherent_empty pl [OF that]] by (metis prod.collapse)
  from answer_points_coherent [OF point_coherent_empty pl assms(1)] fresh show ?thesis
    by (simp add: point_coherent_def lru_ok_def)
qed

definition small_point :: "real \<Rightarrow> point_request" where
  "small_point t = \<lparr>pq_slice = small_slice 6, pq_lat_idx = (99, 100), pq_lon_idx = (5, 6), pq_t_row = t, pq_t_col = 1 / 2\<rparr>"

lemma point_cache_transparent_witness:
  "\<exists>out st. answer_points (\<lambda>n. Fin (real n)) 1 ShardedV1Reader small_reader (\<lambda>_ _. None) [small_point 0, small_point 1, small_point 0]
     no_point_cache = (out, st) \<and> out ! 0 = out ! 2 \<and> length (ps_point_cache st) \<le> 1"
proof -
  let ?qs = "[small_point 0, small_point 1, small_point 0]"
  obtain out st where s: "answer_points (\<lambda>n. Fin (real n)) 1 ShardedV1Reader small_reader (\<lambda>_ _. None) ?qs no_point_cache = (out, st)" by fastforce
  have p: "CHR ''/'' \<notin> set (sl_variable (pq_slice q)) \<and> CHR '':'' \<notin> set (generation_tag (sl_generation (pq_slice q)))"
    if "q \<in> set ?qs" for q
    using that small_slice_plain [of 6] by (auto simp: small_point_def)
  have t: "out = map (\<lambda>q. fst (answer_point (\<lambda>n. Fin (real n)) 1 ShardedV1Reader small_reader (\<lambda>_ _. None) q no_point_cache)) ?qs \<and>
      length (ps_point_cache st) \<le> 1"
    by (rule point_cache_transparent [OF s]) (rule p)
  then have "out ! 0 = out ! 2" by simp
  with s t show ?thesis by blast
qed

end
