(* ===== verification/PointServing.thy ===== *)
theory PointServing
  imports PointInterpolation
begin

text \<open>
  What point interpolation guarantees: the window read equals interpolation over the whole ascending field, the grid recovered from
  stored axes is the grid they came from, an interpolated value lies between its four corners and is exact at the nodes, and which
  points a global grid serves.
\<close>

subsection \<open>Positions\<close>

lemma row_col_D:
  assumes "row_col_from_coordinates g latitude longitude = Inr (row_f, col_f)" "1 \<le> rg_rows g" "1 \<le> rg_cols g"
  obtains la aligned where "latitude = Fin la" "align_longitude g longitude = Inr aligned"
    "row_f = min (max ((la - rg_lat_start g) / rg_lat_step g) 0) (of_int (rg_rows g - 1))"
    "col_f = min (max ((aligned - rg_lon_start g) / rg_lon_step g) 0) (of_int (rg_cols g - 1))"
    "0 \<le> row_f" "row_f \<le> of_int (rg_rows g - 1)" "0 \<le> col_f" "col_f \<le> of_int (rg_cols g - 1)"
    "rg_lat_start g - GRID_BOUNDS_TOLERANCE \<le> la" "la \<le> lat_stop g + GRID_BOUNDS_TOLERANCE"
    "rg_lon_start g - GRID_BOUNDS_TOLERANCE \<le> aligned" "aligned \<le> lon_stop g + GRID_BOUNDS_TOLERANCE"
proof -
  have c: "contains g latitude longitude = Inr True"
    using assms(1) by (auto simp: row_col_from_coordinates_def bindE_eq_Inr split: if_splits)
  then obtain la aligned where v: "latitude = Fin la" "align_longitude g longitude = Inr aligned"
    "rg_lat_start g - GRID_BOUNDS_TOLERANCE \<le> la" "la \<le> lat_stop g + GRID_BOUNDS_TOLERANCE"
    "rg_lon_start g - GRID_BOUNDS_TOLERANCE \<le> aligned" "aligned \<le> lon_stop g + GRID_BOUNDS_TOLERANCE"
    by (rule contains_D) blast
  then have f: "row_f = min (max ((la - rg_lat_start g) / rg_lat_step g) 0) (of_int (rg_rows g - 1))"
    "col_f = min (max ((aligned - rg_lon_start g) / rg_lon_step g) 0) (of_int (rg_cols g - 1))"
    using assms(1) c by (simp_all add: row_col_from_coordinates_def finite_or_def)
  have "0 \<le> row_f" "row_f \<le> of_int (rg_rows g - 1)" "0 \<le> col_f" "col_f \<le> of_int (rg_cols g - 1)"
    unfolding f using assms(2,3) by simp_all
  with v f that show thesis by blast
qed

lemma lower_index_bounds:
  assumes "0 \<le> x" "x \<le> of_int (n - 1)" "2 \<le> n"
  shows "0 \<le> lower_index n x" "lower_index n x + 1 < n" "of_int (lower_index n x) \<le> x" "x \<le> of_int (lower_index n x) + 1"
proof -
  have f: "0 \<le> \<lfloor>x\<rfloor>" "\<lfloor>x\<rfloor> \<le> n - 1" using assms by linarith+
  then show "0 \<le> lower_index n x" "lower_index n x + 1 < n" using assms(3) by (auto simp: lower_index_def Let_def)
  show "of_int (lower_index n x) \<le> x" "x \<le> of_int (lower_index n x) + 1"
    using f assms by (auto simp: lower_index_def Let_def; linarith)+
qed

subsection \<open>The window equals the whole field\<close>

definition oriented :: "bool \<Rightarrow> bool \<Rightarrow> 'a list list \<Rightarrow> 'a list list" where
  "oriented lat_descending lon_descending m =
     (let rows = map (\<lambda>r. if lon_descending then rev r else r) m in if lat_descending then rev rows else rows)"

text \<open>The member mean of every cell of the field\<close>

definition member_mean :: "(pyfloat list \<Rightarrow> pyfloat) \<Rightarrow> stored_field \<Rightarrow> pyfloat list list" where
  "member_mean mean f = map (\<lambda>i. map (\<lambda>j. window_cell mean (fd_cells f) i j) [0..<nat (fd_longitude_size f)]) [0..<nat (fd_latitude_size f)]"

lemma oriented_nth:
  assumes "i < length m" "\<And>r. r \<in> set m \<Longrightarrow> length r = c" "j < c"
  shows "oriented a b m ! i ! j = m ! (if a then length m - 1 - i else i) ! (if b then c - 1 - j else j)"
proof -
  have "length (m ! i) = c" "length (m ! (length m - 1 - i)) = c" using assms(1,2) by auto
  then show ?thesis using assms(1,3) by (auto simp: oriented_def rev_nth)
qed

lemma oriented_cell:
  assumes "0 \<le> i" "i < fd_latitude_size f" "0 \<le> j" "j < fd_longitude_size f"
  shows "cell (oriented a b (member_mean mean f)) i j =
    window_cell mean (fd_cells f) (nat (stored i (fd_latitude_size f) a)) (nat (stored j (fd_longitude_size f) b))"
proof -
  let ?R = "nat (fd_latitude_size f)" and ?C = "nat (fd_longitude_size f)"
  have i: "nat i < ?R" "nat j < ?C" using assms by simp_all
  have "cell (oriented a b (member_mean mean f)) i j =
      member_mean mean f ! (if a then ?R - 1 - nat i else nat i) ! (if b then ?C - 1 - nat j else nat j)"
    unfolding cell_def using i by (subst oriented_nth [of _ _ ?C]) (auto simp: member_mean_def)
  also have "\<dots> = window_cell mean (fd_cells f) (if a then ?R - 1 - nat i else nat i) (if b then ?C - 1 - nat j else nat j)"
    using i by (simp add: member_mean_def)
  also have "(if a then ?R - 1 - nat i else nat i) = nat (stored i (fd_latitude_size f) a)"
    using assms(1,2) by (simp add: stored_def nat_diff_distrib)
  also have "(if b then ?C - 1 - nat j else nat j) = nat (stored j (fd_longitude_size f) b)"
    using assms(3,4) by (simp add: stored_def nat_diff_distrib)
  finally show ?thesis .
qed

lemma isel_stored: "0 \<le> i \<Longrightarrow> i < n \<Longrightarrow> isel_index n (stored i n d) = Inr (nat (stored i n d))"
  by (simp add: isel_index_def stored_def)

lemma member_mean_shape:
  "fd_latitude_size f = rg_rows g \<Longrightarrow> fd_longitude_size f = rg_cols g \<Longrightarrow> 2 \<le> rg_rows g \<Longrightarrow> 2 \<le> rg_cols g \<Longrightarrow>
   validate_values_shape g (oriented a b (member_mean mean f)) = Inr ()"
  by (auto simp: validate_values_shape_def oriented_def member_mean_def list_ex_iff Let_def)

text \<open>C29: Reading only the two-by-two window around a point, in the stored orientation of either axis and with the member axis
  reduced after the crop, answers exactly what interpolation over the whole ascending member-mean field answers, errors included.\<close>

theorem window_equals_whole_field:
  assumes "fd_latitude_size f = rg_rows g" "fd_longitude_size f = rg_cols g"
  shows "interpolate_neighborhood mean f g lat_descending lon_descending latitude longitude =
    bilinear_interpolate g (oriented lat_descending lon_descending (member_mean mean f)) latitude longitude"
proof (cases "rg_rows g < 2 \<or> rg_cols g < 2")
  case True
  then show ?thesis by (simp add: interpolate_neighborhood_def bilinear_interpolate_def)
next
  case False
  let ?m = "oriented lat_descending lon_descending (member_mean mean f)"
  have shape: "validate_values_shape g ?m = Inr ()" using assms False by (intro member_mean_shape) simp_all
  show ?thesis
  proof (cases "row_col_from_coordinates g latitude longitude")
    case (Inl e)
    with False shape show ?thesis by (simp add: interpolate_neighborhood_def bilinear_interpolate_def)
  next
    case (Inr rc)
    obtain row_f col_f where rc: "row_col_from_coordinates g latitude longitude = Inr (row_f, col_f)" using Inr by (cases rc) auto
    have b: "0 \<le> row_f" "row_f \<le> of_int (rg_rows g - 1)" "0 \<le> col_f" "col_f \<le> of_int (rg_cols g - 1)"
      using False by (auto intro: row_col_D [OF rc])
    let ?r = "lower_index (rg_rows g) row_f" and ?c = "lower_index (rg_cols g) col_f"
    have r: "0 \<le> ?r" "?r + 1 < rg_rows g" and c: "0 \<le> ?c" "?c + 1 < rg_cols g"
      using lower_index_bounds(1,2) [OF b(1,2)] lower_index_bounds(1,2) [OF b(3,4)] False by simp_all
    note ox = oriented_cell [where f = f and mean = mean, unfolded assms]
    show ?thesis
      using False r c by (simp add: interpolate_neighborhood_def bilinear_interpolate_def rc shape Let_def isel_stored ox assms)
  qed
qed

subsection \<open>The grid of stored axes\<close>

definition progression :: "real \<Rightarrow> real \<Rightarrow> nat \<Rightarrow> real list" where
  "progression a s n = map (\<lambda>i. a + real i * s) [0..<n]"

lemma progression_ends: "0 < n \<Longrightarrow> hd (progression a s n) = a \<and> last (progression a s n) = a + real (n - 1) * s"
  by (simp add: progression_def hd_map last_map)

lemma np_diff_progression: "np_diff (progression a s n) = replicate (n - 1) s"
proof (rule nth_equalityI)
  show "length (np_diff (progression a s n)) = length (replicate (n - 1) s)" by (simp add: np_diff_def progression_def)
next
  fix i assume "i < length (np_diff (progression a s n))"
  then have i: "Suc i < n" by (simp add: np_diff_def progression_def)
  then show "np_diff (progression a s n) ! i = replicate (n - 1) s ! i"
    by (simp add: np_diff_def progression_def nth_butlast nth_tl algebra_simps)
qed

lemma ascending_progression:
  assumes "2 \<le> n" "0 < s"
  shows "ascending (if d then rev (progression a s n) else progression a s n) = Inr (progression a s n, d)"
proof -
  have l: "progression a s n \<noteq> []" using assms by (simp add: progression_def)
  have e: "hd (progression a s n) < last (progression a s n)" using progression_ends [of n a s] assms by simp
  then show ?thesis using l by (simp add: ascending_def hd_rev last_rev)
qed

lemma normalize_progression:
  assumes "2 \<le> n" "0 < s" "a \<le> 180" "west \<Longrightarrow> - 180 < a"
  shows "normalize_grid_longitudes (progression (if west then a + 360 else a) s n) = progression a s n"
proof (cases west)
  case True
  have "0 < 180 + (a + real x * s)" for x using assms True add_pos_nonneg [of "180 + a" "real x * s"] by (simp add: algebra_simps)
  then have "list_all (\<lambda>v. 180 < v) (progression (a + 360) s n)"
    by (auto simp: progression_def list_all_iff algebra_simps)
  moreover have "progression (a + 360) s n \<noteq> []" using assms by (simp add: progression_def)
  ultimately show ?thesis using True by (simp add: normalize_grid_longitudes_def progression_def comp_def)
next
  case False
  have "\<not> 180 < hd (progression a s n)" "progression a s n \<noteq> []"
    using progression_ends [of n a s] assms by (simp_all add: progression_def)
  then show ?thesis using False by (cases "progression a s n") (auto simp: normalize_grid_longitudes_def)
qed

text \<open>Deriving the grid from the axes of a regular grid, each stored ascending or descending and the longitudes possibly in the
  0 to 360 convention west of the antimeridian, returns that grid and the two orientations.\<close>

theorem derived_grid_roundtrip:
  assumes "grid_ok g" "2 \<le> rg_rows g" "2 \<le> rg_cols g" "\<And>n s. allclose (replicate n s) s" "west \<Longrightarrow> - 180 < rg_lon_start g"
  defines "lats \<equiv> progression (rg_lat_start g) (rg_lat_step g) (nat (rg_rows g))"
    and "lons \<equiv> progression (if west then rg_lon_start g + 360 else rg_lon_start g) (rg_lon_step g) (nat (rg_cols g))"
  shows "derive_grid allclose (Some (if d1 then rev lats else lats)) (Some (if d2 then rev lons else lons)) = Inr (g, d1, d2)"
proof -
  have n: "2 \<le> nat (rg_rows g)" "2 \<le> nat (rg_cols g)" using assms(2,3) by simp_all
  have s: "0 < rg_lat_step g" "0 < rg_lon_step g" "- 90 \<le> rg_lat_start g" "rg_lat_start g \<le> 90" "- 180 \<le> rg_lon_start g" "rg_lon_start g \<le> 180"
    using assms(1) by (simp_all add: grid_ok_def)
  have a: "ascending (if d1 then rev lats else lats) = Inr (lats, d1)" "ascending (if d2 then rev lons else lons) = Inr (lons, d2)"
    unfolding lats_def lons_def by (intro ascending_progression n s)+
  have norm: "normalize_grid_longitudes lons = progression (rg_lon_start g) (rg_lon_step g) (nat (rg_cols g))"
    unfolding lons_def by (rule normalize_progression [OF n(2) s(2) s(6) assms(5)])
  have e: "hd (progression x y k) = x" "(last (progression x y k) - x) / real (k - 1) = y" "length (progression x y k) = k"
    if "2 \<le> k" for x y k
    using progression_ends [of k x y] that by (simp_all add: progression_def field_simps)
  have rg: "RegularGrid (Fin (rg_lat_start g)) (Fin (rg_lon_start g)) (Fin (rg_lat_step g)) (Fin (rg_lon_step g)) (rg_rows g) (rg_cols g) = Inr g"
    using s assms(2,3) by (simp add: RegularGrid_def validate_coordinates_def validate_latitude_def validate_longitude_def finite_or_def
        LATITUDE_MIN_def LATITUDE_MAX_def LONGITUDE_MIN_def LONGITUDE_MAX_def)
  show ?thesis
    unfolding derive_grid_def axis_values_def option.case bindE_simps a prod.case norm Let_def
    unfolding lats_def e [OF n(1)] e [OF n(2)] np_diff_progression
    using n s assms(2,3) by (simp add: assms(4) rg not_le)
qed

text \<open>An even axis of two northern rows and two columns west of the antimeridian, stored north first and as 250, 251\<close>

lemma derived_grid_roundtrip_witness:
  "derive_grid (\<lambda>xs s. list_all (\<lambda>x. x = s) xs) (Some (rev (progression 40 1 2))) (Some (progression (- 110 + 360) 1 2)) =
     Inr (\<lparr>rg_lat_start = 40, rg_lon_start = - 110, rg_lat_step = 1, rg_lon_step = 1, rg_rows = 2, rg_cols = 2\<rparr>, True, False)"
  using derived_grid_roundtrip [of "\<lparr>rg_lat_start = 40, rg_lon_start = - 110, rg_lat_step = 1, rg_lon_step = 1, rg_rows = 2, rg_cols = 2\<rparr>"
      "\<lambda>xs s. list_all (\<lambda>x. x = s) xs" True True False]
  by (simp add: grid_ok_def list_all_iff)

lemma window_equals_whole_field_witness:
  "\<exists>g f. fd_latitude_size f = rg_rows g \<and> fd_longitude_size f = rg_cols g \<and>
     interpolate_neighborhood hd f g True False (Fin 0) (Fin 0) = bilinear_interpolate g (oriented True False (member_mean hd f)) (Fin 0) (Fin 0)"
proof -
  let ?g = "\<lparr>rg_lat_start = 0, rg_lon_start = 0, rg_lat_step = 1, rg_lon_step = 1, rg_rows = 2, rg_cols = 2\<rparr>"
  let ?f = "\<lparr>fd_latitude_size = 2, fd_longitude_size = 2, fd_cells = Stack [[[Fin 1, Fin 2], [Fin 3, Fin 4]]]\<rparr>"
  have "fd_latitude_size ?f = rg_rows ?g" "fd_longitude_size ?f = rg_cols ?g" by simp_all
  from this window_equals_whole_field [OF this, of hd True False "Fin 0" "Fin 0"] show ?thesis by blast
qed

subsection \<open>Interpolated values\<close>

lemma blend_between:
  fixes x y t a b :: real
  assumes "a \<le> x" "x \<le> b" "a \<le> y" "y \<le> b" "0 \<le> t" "t \<le> 1"
  shows "a \<le> x + t * (y - x)" "x + t * (y - x) \<le> b"
proof -
  have e: "x + t * (y - x) = (1 - t) * x + t * y" by (simp add: algebra_simps)
  have "(1 - t) * a + t * a \<le> (1 - t) * x + t * y" using assms by (intro add_mono mult_left_mono) simp_all
  then show "a \<le> x + t * (y - x)" unfolding e by (simp add: algebra_simps)
  have "(1 - t) * x + t * y \<le> (1 - t) * b + t * b" using assms by (intro add_mono mult_left_mono) simp_all
  then show "x + t * (y - x) \<le> b" unfolding e by (simp add: algebra_simps)
qed

lemma bilinear_Fin:
  "bilinear (Fin a) (Fin b) (Fin c) (Fin d) tr tc =
     Fin ((a + tc * (b - a)) + tr * ((c + tc * (d - c)) - (a + tc * (b - a))))"
  by (simp add: bilinear_def f_sub_def f_scale_def Let_def)

lemma bilinear_between:
  assumes "\<And>z. z \<in> {v00, v01, v10, v11} \<Longrightarrow> \<exists>r. z = Fin r \<and> lo \<le> r \<and> r \<le> hi" "0 \<le> tr" "tr \<le> 1" "0 \<le> tc" "tc \<le> 1"
  shows "\<exists>r. bilinear v00 v01 v10 v11 tr tc = Fin r \<and> lo \<le> r \<and> r \<le> hi"
proof -
  obtain a b c d where v: "v00 = Fin a" "v01 = Fin b" "v10 = Fin c" "v11 = Fin d"
    "lo \<le> a" "a \<le> hi" "lo \<le> b" "b \<le> hi" "lo \<le> c" "c \<le> hi" "lo \<le> d" "d \<le> hi"
    using assms(1) by (metis insertCI)
  note l = blend_between [OF v(5-8) assms(4,5)] and u = blend_between [OF v(9-12) assms(4,5)]
  from blend_between [OF l u assms(2,3)] show ?thesis unfolding v(1-4) bilinear_Fin by blast
qed

text \<open>The four cells around a position\<close>

definition corners :: "pyfloat list list \<Rightarrow> int \<Rightarrow> int \<Rightarrow> pyfloat set" where
  "corners values i j = {cell values i j, cell values i (j + 1), cell values (i + 1) j, cell values (i + 1) (j + 1)}"

lemma clamped_between:
  fixes y :: real
  assumes "x = min (max ((y - a) / s) 0) k" "of_int i \<le> x" "x \<le> of_int i + 1" "0 < s" "a - t \<le> y" "y \<le> a + k * s + t" "0 \<le> t"
    "0 \<le> k"
  shows "a + of_int i * s - t \<le> y" "y \<le> a + of_int (i + 1) * s + t"
proof -
  consider "(y - a) / s < 0" "x = 0" | "k < (y - a) / s" "x = k" | "x = (y - a) / s" using assms(1,8) by linarith
  then have "a + x * s - t \<le> y \<and> y \<le> a + x * s + t"
    by cases (use assms in \<open>auto simp: field_simps\<close>)
  moreover have "of_int i * s \<le> x * s" "x * s \<le> of_int (i + 1) * s" using assms by (simp_all add: mult_right_mono)
  ultimately show "a + of_int i * s - t \<le> y" "y \<le> a + of_int (i + 1) * s + t" by linarith+
qed

text \<open>An interpolated value comes from the grid cell that holds the point, up to the bounds tolerance, and lies between any bounds
  of that cell's four corner values; in particular it is finite when they are.\<close>

theorem interpolation_between_corners:
  assumes "bilinear_interpolate g values latitude longitude = Inr v" "grid_ok g"
  shows "\<exists>la aligned i j. latitude = Fin la \<and> align_longitude g longitude = Inr aligned \<and>
    0 \<le> i \<and> i + 1 < rg_rows g \<and> 0 \<le> j \<and> j + 1 < rg_cols g \<and>
    rg_lat_start g + of_int i * rg_lat_step g - GRID_BOUNDS_TOLERANCE \<le> la \<and>
    la \<le> rg_lat_start g + of_int (i + 1) * rg_lat_step g + GRID_BOUNDS_TOLERANCE \<and>
    rg_lon_start g + of_int j * rg_lon_step g - GRID_BOUNDS_TOLERANCE \<le> aligned \<and>
    aligned \<le> rg_lon_start g + of_int (j + 1) * rg_lon_step g + GRID_BOUNDS_TOLERANCE \<and>
    (\<forall>lo hi. (\<forall>z \<in> corners values i j. \<exists>r. z = Fin r \<and> lo \<le> r \<and> r \<le> hi) \<longrightarrow> (\<exists>r. v = Fin r \<and> lo \<le> r \<and> r \<le> hi))"
proof -
  from assms(1) obtain row_f col_f where n: "2 \<le> rg_rows g" "2 \<le> rg_cols g"
    and rc: "row_col_from_coordinates g latitude longitude = Inr (row_f, col_f)"
    and v: "v = bilinear (cell values (lower_index (rg_rows g) row_f) (lower_index (rg_cols g) col_f))
      (cell values (lower_index (rg_rows g) row_f) (lower_index (rg_cols g) col_f + 1))
      (cell values (lower_index (rg_rows g) row_f + 1) (lower_index (rg_cols g) col_f))
      (cell values (lower_index (rg_rows g) row_f + 1) (lower_index (rg_cols g) col_f + 1))
      (row_f - of_int (lower_index (rg_rows g) row_f)) (col_f - of_int (lower_index (rg_cols g) col_f))"
    by (auto simp: bilinear_interpolate_def bindE_eq_Inr Let_def split: if_splits)
  from n have n1: "1 \<le> rg_rows g" "1 \<le> rg_cols g" by simp_all
  obtain la aligned where p: "latitude = Fin la" "align_longitude g longitude = Inr aligned"
    "row_f = min (max ((la - rg_lat_start g) / rg_lat_step g) 0) (of_int (rg_rows g - 1))"
    "col_f = min (max ((aligned - rg_lon_start g) / rg_lon_step g) 0) (of_int (rg_cols g - 1))"
    "0 \<le> row_f" "row_f \<le> of_int (rg_rows g - 1)" "0 \<le> col_f" "col_f \<le> of_int (rg_cols g - 1)"
    "rg_lat_start g - GRID_BOUNDS_TOLERANCE \<le> la" "la \<le> lat_stop g + GRID_BOUNDS_TOLERANCE"
    "rg_lon_start g - GRID_BOUNDS_TOLERANCE \<le> aligned" "aligned \<le> lon_stop g + GRID_BOUNDS_TOLERANCE"
    by (rule row_col_D [OF rc n1]) blast
  let ?i = "lower_index (rg_rows g) row_f" and ?j = "lower_index (rg_cols g) col_f"
  note i = lower_index_bounds [OF p(5,6) n(1)] and j = lower_index_bounds [OF p(7,8) n(2)]
  have s: "0 < rg_lat_step g" "0 < rg_lon_step g" "0 \<le> GRID_BOUNDS_TOLERANCE" using assms(2) by (simp_all add: grid_ok_def GRID_BOUNDS_TOLERANCE_def)
  have k: "(0::real) \<le> of_int (rg_rows g - 1)" "(0::real) \<le> of_int (rg_cols g - 1)" using n by simp_all
  note la = clamped_between [OF p(3) i(3,4) s(1) p(9) p(10) [unfolded lat_stop_def] s(3) k(1)]
  note lo = clamped_between [OF p(4) j(3,4) s(2) p(11) p(12) [unfolded lon_stop_def] s(3) k(2)]
  have "\<exists>r. v = Fin r \<and> lo \<le> r \<and> r \<le> hi" if "\<forall>z \<in> corners values ?i ?j. \<exists>r. z = Fin r \<and> lo \<le> r \<and> r \<le> hi" for lo hi
    unfolding v using that i j by (intro bilinear_between) (auto simp: corners_def)
  with p(1,2) i(1,2) j(1,2) la lo show ?thesis by blast
qed


text \<open>Two by two cells around the equator, all valid coordinates\<close>

definition unit_grid :: regular_grid where
  "unit_grid = \<lparr>rg_lat_start = 0, rg_lon_start = 0, rg_lat_step = 1, rg_lon_step = 1, rg_rows = 2, rg_cols = 2\<rparr>"

definition unit_field :: "pyfloat list list" where "unit_field = [[Fin 1, Fin 2], [Fin 3, Fin 4]]"

lemma unit_fields:
  "rg_lat_start unit_grid = 0" "rg_lon_start unit_grid = 0" "rg_lat_step unit_grid = 1" "rg_lon_step unit_grid = 1"
  "rg_rows unit_grid = 2" "rg_cols unit_grid = 2" "lat_stop unit_grid = 1" "lon_stop unit_grid = 1"
  by (simp_all add: unit_grid_def lat_stop_def lon_stop_def)

lemma unit_grid_ok: "grid_ok unit_grid" by (simp add: grid_ok_def unit_fields)

lemma unit_align: "- 180 \<le> x \<Longrightarrow> x \<le> 180 \<Longrightarrow> align_longitude unit_grid (Fin x) = Inr x"
  by (simp add: align_longitude_def normalize_id unit_fields)

lemma valid_coordinates:
  "- 90 \<le> la \<Longrightarrow> la \<le> 90 \<Longrightarrow> - 180 \<le> lo \<Longrightarrow> lo \<le> 180 \<Longrightarrow> validate_coordinates (Fin la) (Fin lo) = Inr (la, lo)"
  by (simp add: validate_coordinates_def validate_latitude_def validate_longitude_def finite_or_def LATITUDE_MIN_def
      LATITUDE_MAX_def LONGITUDE_MIN_def LONGITUDE_MAX_def)

lemma unit_contains:
  assumes "0 \<le> la" "la \<le> 1" "0 \<le> lo" "lo \<le> 1" shows "contains unit_grid (Fin la) (Fin lo) = Inr True"
proof -
  have "align_longitude unit_grid (Fin lo) = Inr lo" using assms by (intro unit_align) simp_all
  then show ?thesis using assms by (simp add: contains_def valid_coordinates unit_fields GRID_BOUNDS_TOLERANCE_def)
qed

lemma unit_interpolate:
  "bilinear_interpolate unit_grid unit_field (Fin (1 / 2)) (Fin (1 / 4)) = Inr (Fin (9 / 4))"
proof -
  have c: "contains unit_grid (Fin (1 / 2)) (Fin (1 / 4)) = Inr True" by (intro unit_contains) simp_all
  have a: "align_longitude unit_grid (Fin (1 / 4)) = Inr (1 / 4)" by (intro unit_align) simp_all
  have rc: "row_col_from_coordinates unit_grid (Fin (1 / 2)) (Fin (1 / 4)) = Inr (1 / 2, 1 / 4)"
    by (simp add: row_col_from_coordinates_def c a finite_or_def unit_fields)
  have "validate_values_shape unit_grid unit_field = Inr ()" by (simp add: validate_values_shape_def unit_fields unit_field_def)
  moreover have "lower_index 2 (1 / 2) = 0" "lower_index 2 (1 / 4) = 0" by (simp_all add: lower_index_def)
  ultimately show ?thesis
    by (simp add: bilinear_interpolate_def unit_fields rc Let_def cell_def unit_field_def bilinear_Fin)
qed

lemma interpolation_between_corners_witness:
  "bilinear_interpolate unit_grid unit_field (Fin (1 / 2)) (Fin (1 / 4)) = Inr (Fin (9 / 4)) \<and>
   (\<exists>i j. 0 \<le> i \<and> i + 1 < rg_rows unit_grid \<and> 0 \<le> j \<and> j + 1 < rg_cols unit_grid)"
  using interpolation_between_corners [OF unit_interpolate unit_grid_ok] unit_interpolate by blast

lemma nearest_index_is_nearest_witness:
  "\<exists>p. nearest_grid_index unit_grid (Fin (3 / 4)) (Fin (1 / 4)) = Inr p \<and> (\<exists>plat plon. grid_index_to_coordinate unit_grid p = Inr (plat, plon))"
proof -
  have c: "contains unit_grid (Fin (3 / 4)) (Fin (1 / 4)) = Inr True" by (intro unit_contains) simp_all
  have a: "align_longitude unit_grid (Fin (1 / 4)) = Inr (1 / 4)" by (intro unit_align) simp_all
  have "nearest_grid_index unit_grid (Fin (3 / 4)) (Fin (1 / 4)) = Inr \<lparr>gp_row = 1, gp_col = 0\<rparr>"
    by (simp add: nearest_grid_index_def c a finite_or_def GridPoint_def clamp_index_def unit_fields)
  from nearest_index_is_nearest [OF this unit_grid_ok] this show ?thesis by blast
qed

lemma at_node:
  fixes a s :: real
  assumes "0 \<le> i" "i < n" "0 < s" "2 \<le> n"
  defines "x \<equiv> min (max ((a + of_int i * s - a) / s) 0) (of_int (n - 1))"
  shows "x = of_int i" "lower_index n x = i \<and> x - of_int (lower_index n x) = 0 \<or> lower_index n x = i - 1 \<and> x - of_int (lower_index n x) = 1"
proof -
  have "real_of_int i \<le> of_int (n - 1)" using assms(2) by (simp only: of_int_le_iff)
  then show x: "x = of_int i" using assms(1,3) by (simp add: x_def)
  show "lower_index n x = i \<and> x - of_int (lower_index n x) = 0 \<or> lower_index n x = i - 1 \<and> x - of_int (lower_index n x) = 1"
    using assms(2) unfolding x by (auto simp: lower_index_def)
qed

text \<open>At a node of the grid interpolation returns the value stored there, for every field of finite values.\<close>

theorem interpolation_exact_at_nodes:
  assumes g: "grid_ok g" "2 \<le> rg_rows g" "2 \<le> rg_cols g" "validate_values_shape g values = Inr ()"
    and fin: "\<And>row z. row \<in> set values \<Longrightarrow> z \<in> set row \<Longrightarrow> is_finite z"
    and node: "grid_index_to_coordinate g \<lparr>gp_row = i, gp_col = j\<rparr> = Inr (la, aligned)"
    and at: "contains g (Fin la) longitude = Inr True" "align_longitude g longitude = Inr aligned"
  shows "bilinear_interpolate g values (Fin la) longitude = Inr (cell values i j)"
proof -
  have ij: "0 \<le> i" "i < rg_rows g" "0 \<le> j" "j < rg_cols g" "la = rg_lat_start g + of_int i * rg_lat_step g"
    "aligned = rg_lon_start g + of_int j * rg_lon_step g"
    using node by (auto simp: grid_index_to_coordinate_def row_latitude_def col_longitude_def validate_index_def bindE_eq_Inr split: if_splits)
  have s: "0 < rg_lat_step g" "0 < rg_lon_step g" using g(1) by (simp_all add: grid_ok_def)
  have cells: "\<exists>r. cell values a b = Fin r" if "0 \<le> a" "a < rg_rows g" "0 \<le> b" "b < rg_cols g" for a b
  proof -
    have l: "int (length values) = rg_rows g" "\<And>row. row \<in> set values \<Longrightarrow> int (length row) = rg_cols g"
      using g(4) by (auto simp: validate_values_shape_def list_ex_iff split: if_splits)
    have "nat a < length values" using that l(1) by linarith
    then have r: "values ! nat a \<in> set values" by simp
    then have "nat b < length (values ! nat a)" using that l(2) [OF r] by linarith
    then have "values ! nat a ! nat b \<in> set (values ! nat a)" by simp
    from fin [OF r this] show ?thesis by (auto simp: cell_def is_finite_def split: pyfloat.splits)
  qed
  define x where "x = min (max ((la - rg_lat_start g) / rg_lat_step g) 0) (of_int (rg_rows g - 1))"
  define y where "y = min (max ((aligned - rg_lon_start g) / rg_lon_step g) 0) (of_int (rg_cols g - 1))"
  have rc: "row_col_from_coordinates g (Fin la) longitude = Inr (x, y)"
    using at by (simp add: row_col_from_coordinates_def finite_or_def x_def y_def)
  have bx: "0 \<le> x" "x \<le> of_int (rg_rows g - 1)" "0 \<le> y" "y \<le> of_int (rg_cols g - 1)" using g by (simp_all add: x_def y_def)
  define a where "a = lower_index (rg_rows g) x"
  define b where "b = lower_index (rg_cols g) y"
  note r = lower_index_bounds(1,2) [OF bx(1,2) g(2), folded a_def] and c = lower_index_bounds(1,2) [OF bx(3,4) g(3), folded b_def]
  have ax: "a = i \<and> x - of_int a = 0 \<or> a = i - 1 \<and> x - of_int a = 1"
    using at_node(2) [OF ij(1,2) s(1) g(2), of "rg_lat_start g"] unfolding a_def x_def ij(5) .
  have ay: "b = j \<and> y - of_int b = 0 \<or> b = j - 1 \<and> y - of_int b = 1"
    using at_node(2) [OF ij(3,4) s(2) g(3), of "rg_lon_start g"] unfolding b_def y_def ij(6) .
  obtain v00 where v00: "cell values a b = Fin v00" using cells [of a b] r c by auto
  obtain v01 where v01: "cell values a (b + 1) = Fin v01" using cells [of a "b + 1"] r c by auto
  obtain v10 where v10: "cell values (a + 1) b = Fin v10" using cells [of "a + 1" b] r c by auto
  obtain v11 where v11: "cell values (a + 1) (b + 1) = Fin v11" using cells [of "a + 1" "b + 1"] r c by auto
  have v: "bilinear_interpolate g values (Fin la) longitude =
      Inr (bilinear (Fin v00) (Fin v01) (Fin v10) (Fin v11) (x - of_int a) (y - of_int b))"
    using g by (simp add: bilinear_interpolate_def rc Let_def v00 v01 v10 v11 flip: a_def b_def)
  from ax show ?thesis
  proof
    assume "a = i \<and> x - of_int a = 0"
    with ay show ?thesis using v00 v01 by (auto simp: v bilinear_Fin)
  next
    assume "a = i - 1 \<and> x - of_int a = 1"
    with ay show ?thesis using v10 v11 by (auto simp: v bilinear_Fin)
  qed
qed

lemma interpolation_exact_at_nodes_witness:
  "bilinear_interpolate unit_grid unit_field (Fin 1) (Fin 0) = Inr (Fin 3)"
proof -
  have f: "is_finite z" if "row \<in> set unit_field" "z \<in> set row" for row z
    using that by (auto simp: unit_field_def is_finite_def)
  have "grid_index_to_coordinate unit_grid \<lparr>gp_row = 1, gp_col = 0\<rparr> = Inr (1, 0)"
    by (simp add: grid_index_to_coordinate_def row_latitude_def col_longitude_def validate_index_def unit_fields)
  note e = interpolation_exact_at_nodes [OF unit_grid_ok _ _ _ f this]
  have "bilinear_interpolate unit_grid unit_field (Fin 1) (Fin 0) = Inr (cell unit_field 1 0)"
    by (rule e) (auto simp: unit_fields unit_contains unit_align validate_values_shape_def unit_field_def)
  then show ?thesis by (simp add: cell_def unit_field_def)
qed

subsection \<open>What a global grid serves\<close>

text \<open>C30: On a global grid whose longitudes run from 0 to one step short of 360 every place on earth is served except the strip between
  the last column and the prime meridian, where every point is refused as outside the grid although the place lies between two columns.\<close>

theorem global_grid_serves_all_but_seam:
  assumes "rg_lat_start g = - 90" "lat_stop g = 90" "rg_lon_start g = 0" "lon_stop g = 360 - rg_lon_step g"
    and "0 < rg_lon_step g" "rg_lon_step g < 180" "2 \<le> rg_rows g" "2 \<le> rg_cols g"
    and "fd_latitude_size f = rg_rows g" "fd_longitude_size f = rg_cols g"
    and "- 90 \<le> la" "la \<le> 90" "- 180 \<le> lo" "lo \<le> 180"
  shows "if GRID_BOUNDS_TOLERANCE - rg_lon_step g < lo \<and> lo < 0
    then interpolate_neighborhood mean f g d1 d2 (Fin la) (Fin lo) = Inl PointOutsideGridError
    else \<exists>v. interpolate_neighborhood mean f g d1 d2 (Fin la) (Fin lo) = Inr v"
proof -
  let ?aligned = "if lo < 0 then lo + 360 else lo"
  have t: "0 < GRID_BOUNDS_TOLERANCE" by (simp add: GRID_BOUNDS_TOLERANCE_def)
  have al: "align_longitude g (Fin lo) = Inr ?aligned"
    using assms by (simp add: align_longitude_def normalize_id)
  have "contains g (Fin la) (Fin lo) = Inr (\<not> (GRID_BOUNDS_TOLERANCE - rg_lon_step g < lo \<and> lo < 0))"
    using assms t by (auto simp: contains_def al validate_coordinates_def validate_latitude_def validate_longitude_def finite_or_def
        LATITUDE_MIN_def LATITUDE_MAX_def LONGITUDE_MIN_def LONGITUDE_MAX_def)
  then have c: "row_col_from_coordinates g (Fin la) (Fin lo) = (if GRID_BOUNDS_TOLERANCE - rg_lon_step g < lo \<and> lo < 0 then Inl PointOutsideGridError
      else Inr (projr (row_col_from_coordinates g (Fin la) (Fin lo))))"
    by (simp add: row_col_from_coordinates_def al finite_or_def)
  show ?thesis
  proof (cases "GRID_BOUNDS_TOLERANCE - rg_lon_step g < lo \<and> lo < 0")
    case True
    with c assms(7,8) show ?thesis by (simp add: interpolate_neighborhood_def)
  next
    case False
    obtain row_f col_f where rc: "row_col_from_coordinates g (Fin la) (Fin lo) = Inr (row_f, col_f)" using c False by (metis prod.collapse)
    have b: "0 \<le> row_f" "row_f \<le> of_int (rg_rows g - 1)" "0 \<le> col_f" "col_f \<le> of_int (rg_cols g - 1)"
      using assms(7,8) by (auto intro: row_col_D [OF rc])
    note r = lower_index_bounds(1,2) [OF b(1,2) assms(7)] and k = lower_index_bounds(1,2) [OF b(3,4) assms(8)]
    have "\<exists>v. interpolate_neighborhood mean f g d1 d2 (Fin la) (Fin lo) = Inr v"
      using assms(7,8) r k by (simp add: interpolate_neighborhood_def rc Let_def isel_stored assms(9,10))
    then show ?thesis using False by auto
  qed
qed


text \<open>The quarter degree grid of the GFS; London lies in the strip.\<close>

lemma global_grid_serves_all_but_seam_witness:
  "interpolate_neighborhood hd \<lparr>fd_latitude_size = 721, fd_longitude_size = 1440, fd_cells = Plane (replicate 721 (replicate 1440 (Fin 0)))\<rparr>
     \<lparr>rg_lat_start = - 90, rg_lon_start = 0, rg_lat_step = 1 / 4, rg_lon_step = 1 / 4, rg_rows = 721, rg_cols = 1440\<rparr> True False
     (Fin (515074 / 10000)) (Fin (- 1278 / 10000)) = Inl PointOutsideGridError"
  using global_grid_serves_all_but_seam [of "\<lparr>rg_lat_start = - 90, rg_lon_start = 0, rg_lat_step = 1 / 4, rg_lon_step = 1 / 4, rg_rows = 721, rg_cols = 1440\<rparr>"
      "\<lparr>fd_latitude_size = 721, fd_longitude_size = 1440, fd_cells = Plane (replicate 721 (replicate 1440 (Fin 0)))\<rparr>"
      "515074 / 10000" "- 1278 / 10000" hd True False]
  by (simp add: lat_stop_def lon_stop_def GRID_BOUNDS_TOLERANCE_def)

end
