(* ===== verification/Wind.thy ===== *)
theory Wind
  imports GeoGrid
begin

text \<open>
  Wind of \<open>domain/models/wind.py\<close>: speed and meteorological direction of a vector, the consensus vector of an ensemble, its wind
  rose and directional probabilities. What the array library computes (\<open>np.hypot\<close>, \<open>np.mean\<close>, \<open>np.sum\<close>) is an argument;
  \<open>numpy_ok\<close> states what it documents, without rounding.
\<close>

definition EmptyEnsembleError :: py_error where "EmptyEnsembleError = DomainError ''EmptyEnsembleError'' ''empty''"

definition CALM_WIND_THRESHOLD_MPS :: real where "CALM_WIND_THRESHOLD_MPS = 1 / 2"

definition CARDINAL_DIRECTIONS_8 :: "string list" where
  "CARDINAL_DIRECTIONS_8 = [''N'', ''NE'', ''E'', ''SE'', ''S'', ''SW'', ''W'', ''NW'']"

definition CARDINAL_DIRECTIONS_16 :: "string list" where
  "CARDINAL_DIRECTIONS_16 = [''N'', ''NNE'', ''NE'', ''ENE'', ''E'', ''ESE'', ''SE'', ''SSE'', ''S'', ''SSW'', ''SW'', ''WSW'',
     ''W'', ''WNW'', ''NW'', ''NNW'']"

text \<open>Name, lower and upper bound of each speed bin\<close>

definition WIND_ROSE_SPEED_BINS_MPS :: "(string \<times> real \<times> pyfloat) list" where
  "WIND_ROSE_SPEED_BINS_MPS = [(''light'', 1 / 2, Fin (11 / 2)), (''moderate'', 11 / 2, Fin 11), (''strong'', 11, Fin 17),
     (''gale'', 17, PInf)]"

subsection \<open>Speed and direction\<close>

text \<open>\<open>math.hypot\<close>, \<open>math.atan2\<close> and \<open>math.degrees\<close>\<close>

definition hypot :: "real \<Rightarrow> real \<Rightarrow> real" where "hypot u v = sqrt (u * u + v * v)"
definition atan2 :: "real \<Rightarrow> real \<Rightarrow> real" where "atan2 y x = Arg (Complex x y)"
definition degrees :: "real \<Rightarrow> real" where "degrees r = r * 180 / pi"

definition derive_wind_speed :: "pyfloat \<Rightarrow> pyfloat \<Rightarrow> pyfloat" where
  "derive_wind_speed u v = (case (u, v) of
     (NaN, _) \<Rightarrow> NaN | (_, NaN) \<Rightarrow> NaN | (Fin a, Fin b) \<Rightarrow> Fin (hypot a b) | _ \<Rightarrow> PInf)"

definition direction_degrees :: "real \<Rightarrow> real \<Rightarrow> real" where
  "direction_degrees u v = float_mod (degrees (atan2 (- u) (- v))) 360"

definition derive_meteorological_direction :: "pyfloat \<Rightarrow> pyfloat \<Rightarrow> real \<Rightarrow> real option" where
  "derive_meteorological_direction u v calm_threshold = (case (u, v) of
     (Fin a, Fin b) \<Rightarrow> if hypot a b < calm_threshold then None else Some (direction_degrees a b)
   | _ \<Rightarrow> None)"

text \<open>The sector of a direction, for sectors of the given width starting half a width before north\<close>

definition sector_index :: "real \<Rightarrow> real \<Rightarrow> int \<Rightarrow> nat" where
  "sector_index deg width n = nat (\<lfloor>(deg + width / 2) / width\<rfloor> mod n)"

definition get_cardinal_direction :: "pyfloat option \<Rightarrow> int \<Rightarrow> string option result" where
  "get_cardinal_direction direction_deg sectors = (case direction_deg of
     Some (Fin d) \<Rightarrow>
       let norm_deg = float_mod d 360 in
       if sectors = 8 then Inr (Some (CARDINAL_DIRECTIONS_8 ! sector_index norm_deg 45 8))
       else if sectors = 16 then Inr (Some (CARDINAL_DIRECTIONS_16 ! sector_index norm_deg (45 / 2) 16))
       else Inl (ValueError ''Unsupported sector count'')
   | _ \<Rightarrow> Inr None)"

subsection \<open>The array library\<close>

record numpy =
  np_hypot :: "real \<Rightarrow> real \<Rightarrow> real"
  np_mean :: "real list \<Rightarrow> real"
  np_sum :: "real list \<Rightarrow> real"

definition numpy_ok :: "numpy \<Rightarrow> bool" where
  "numpy_ok np \<longleftrightarrow> (\<forall>u v. np_hypot np u v = hypot u v) \<and> (\<forall>xs. np_sum np xs = sum_list xs) \<and>
     (\<forall>xs. xs \<noteq> [] \<longrightarrow> np_mean np xs = sum_list xs / real (length xs))"

text \<open>The vectorised direction works elementwise, on the arctangent and the conversion of the library.\<close>

record numpy_trig = numpy +
  np_arctan2 :: "real \<Rightarrow> real \<Rightarrow> real"
  np_degrees :: "real \<Rightarrow> real"

definition numpy_trig_ok :: "numpy_trig \<Rightarrow> bool" where
  "numpy_trig_ok np \<longleftrightarrow> (\<forall>u v. np_hypot np u v = hypot u v) \<and> (\<forall>y x. np_arctan2 np y x = atan2 y x) \<and> (\<forall>r. np_degrees np r = degrees r)"

definition derive_meteorological_direction_array :: "numpy_trig \<Rightarrow> pyfloat list \<Rightarrow> pyfloat list \<Rightarrow> real \<Rightarrow> pyfloat list" where
  "derive_meteorological_direction_array np u v calm_threshold = map2 (\<lambda>x y. case (x, y) of
     (Fin a, Fin b) \<Rightarrow> if np_hypot np a b < calm_threshold then NaN else Fin (float_mod (np_degrees np (np_arctan2 np (- a) (- b))) 360)
   | _ \<Rightarrow> NaN) u v"

subsection \<open>Ensembles\<close>

text \<open>Speeds and means of finite members along one axis\<close>

definition derive_ensemble_member_speeds :: "numpy \<Rightarrow> real list \<Rightarrow> real list \<Rightarrow> real list" where
  "derive_ensemble_member_speeds np u_members v_members = map2 (np_hypot np) u_members v_members"

definition derive_ensemble_mean_vector :: "numpy \<Rightarrow> real list \<Rightarrow> real list \<Rightarrow> real \<times> real" where
  "derive_ensemble_mean_vector np u_members v_members = (np_mean np u_members, np_mean np v_members)"

definition derive_ensemble_mean_scalar_speed :: "numpy \<Rightarrow> real list \<Rightarrow> real list \<Rightarrow> real" where
  "derive_ensemble_mean_scalar_speed np u_members v_members = np_mean np (map2 (np_hypot np) u_members v_members)"


definition finite_members :: "pyfloat list \<Rightarrow> real list result" where
  "finite_members xs = mapE (finite_or InvalidEnsembleError) xs"

definition validate_members :: "pyfloat list \<Rightarrow> pyfloat list \<Rightarrow> (real list \<times> real list) result" where
  "validate_members u_members v_members =
     (if u_members = [] \<or> v_members = [] then Inl EmptyEnsembleError
      else if length u_members \<noteq> length v_members then Inl InvalidEnsembleError
      else bindE (finite_members u_members) (\<lambda>us. bindE (finite_members v_members) (\<lambda>vs. Inr (us, vs))))"

record consensus_vector_data =
  cv_speed_mps :: real
  cv_direction_deg :: "real option"
  cv_cardinal :: string
  cv_coherence :: real

definition compute_consensus_vector ::
    "numpy \<Rightarrow> pyfloat list \<Rightarrow> pyfloat list \<Rightarrow> real \<Rightarrow> consensus_vector_data result" where
  "compute_consensus_vector np u_members v_members calm_threshold =
     bindE (validate_members u_members v_members) (\<lambda>(us, vs).
       let mean_u = np_mean np us; mean_v = np_mean np vs; speed_mps = hypot mean_u mean_v;
           direction_deg = derive_meteorological_direction (Fin mean_u) (Fin mean_v) calm_threshold in
       bindE (get_cardinal_direction (map_option Fin direction_deg) 8) (\<lambda>cardinal_val.
         let sum_speeds = np_sum np (map2 (np_hypot np) us vs);
             coherence = (if 0 < sum_speeds then speed_mps / (sum_speeds / real (length us)) else 0) in
         Inr \<lparr>cv_speed_mps = speed_mps, cv_direction_deg = direction_deg,
              cv_cardinal = (case cardinal_val of Some c \<Rightarrow> c | None \<Rightarrow> ''CALM''),
              cv_coherence = min 1 (max 0 coherence)\<rparr>))"

subsection \<open>The wind rose\<close>

record wind_rose_sector =
  ws_sector :: string
  ws_count :: nat
  ws_probability :: real
  ws_bins :: "(string \<times> real) list"
  ws_bin_counts :: "(string \<times> nat) list"

record wind_rose_data =
  wr_member_count :: nat
  wr_calm_count :: nat
  wr_calm_probability :: real
  wr_sectors :: "wind_rose_sector list"

text \<open>The counters of the loop\<close>

record rose_counts =
  rc_calm :: nat
  rc_sector :: "string \<Rightarrow> nat"
  rc_bin :: "string \<Rightarrow> string \<Rightarrow> nat"

definition in_bin :: "real \<Rightarrow> string \<times> real \<times> pyfloat \<Rightarrow> bool" where
  "in_bin spd = (\<lambda>(name, low, high). low \<le> spd \<and> f_lt (Fin spd) high)"

definition member_sector :: "real \<Rightarrow> real \<Rightarrow> string" where
  "member_sector u v = CARDINAL_DIRECTIONS_8 ! sector_index (direction_degrees u v) 45 8"

definition count_member :: "real \<Rightarrow> real \<times> real \<times> real \<Rightarrow> rose_counts \<Rightarrow> rose_counts" where
  "count_member calm_threshold = (\<lambda>(u, v, spd) st.
     if spd < calm_threshold then st\<lparr>rc_calm := rc_calm st + 1\<rparr>
     else let sector = member_sector u v;
              st1 = st\<lparr>rc_sector := (rc_sector st)(sector := rc_sector st sector + 1)\<rparr>
       in case find (in_bin spd) WIND_ROSE_SPEED_BINS_MPS of None \<Rightarrow> st1
          | Some (name, _) \<Rightarrow> st1\<lparr>rc_bin := (rc_bin st1)(sector := (rc_bin st1 sector)(name := rc_bin st1 sector name + 1))\<rparr>)"

definition no_counts :: rose_counts where
  "no_counts = \<lparr>rc_calm = 0, rc_sector = (\<lambda>_. 0), rc_bin = (\<lambda>_ _. 0)\<rparr>"

definition with_speeds :: "numpy \<Rightarrow> real list \<Rightarrow> real list \<Rightarrow> (real \<times> real \<times> real) list" where
  "with_speeds np us vs = zip us (zip vs (map2 (np_hypot np) us vs))"

definition rose_sector :: "nat \<Rightarrow> rose_counts \<Rightarrow> string \<Rightarrow> wind_rose_sector" where
  "rose_sector n st sec = \<lparr>ws_sector = sec, ws_count = rc_sector st sec, ws_probability = real (rc_sector st sec) / real n,
     ws_bins = map (\<lambda>(name, _). (name, real (rc_bin st sec name) / real n)) WIND_ROSE_SPEED_BINS_MPS,
     ws_bin_counts = map (\<lambda>(name, _). (name, rc_bin st sec name)) WIND_ROSE_SPEED_BINS_MPS\<rparr>"

definition compute_wind_rose :: "numpy \<Rightarrow> pyfloat list \<Rightarrow> pyfloat list \<Rightarrow> real \<Rightarrow> wind_rose_data result" where
  "compute_wind_rose np u_members v_members calm_threshold =
     bindE (validate_members u_members v_members) (\<lambda>(us, vs).
       let n = length us; st = fold (count_member calm_threshold) (with_speeds np us vs) no_counts in
       Inr \<lparr>wr_member_count = n, wr_calm_count = rc_calm st, wr_calm_probability = real (rc_calm st) / real n,
            wr_sectors = map (rose_sector n st) CARDINAL_DIRECTIONS_8\<rparr>)"

subsection \<open>Directional probability\<close>

text \<open>\<open>CARDINAL_DIRECTIONS_8.index\<close>\<close>

definition sector_position :: "string \<Rightarrow> nat" where
  "sector_position s = length (takeWhile (\<lambda>x. x \<noteq> s) CARDINAL_DIRECTIONS_8)"

definition speed_matches :: "string \<Rightarrow> real \<Rightarrow> pyfloat \<Rightarrow> bool result" where
  "speed_matches operator spd threshold =
     (if operator \<in> {''gte'', ''ge''} then Inr (f_le threshold (Fin spd))
      else if operator \<in> {''gt'', ''>''} then Inr (f_lt threshold (Fin spd))
      else if operator \<in> {''lte'', ''le''} then Inr (f_le (Fin spd) threshold)
      else if operator \<in> {''lt'', ''<''} then Inr (f_lt (Fin spd) threshold)
      else Inl InvalidThresholdError)"

definition match_member :: "real \<Rightarrow> nat \<Rightarrow> pyfloat option \<Rightarrow> string \<Rightarrow> real \<times> real \<times> real \<Rightarrow> nat \<Rightarrow> nat result" where
  "match_member calm_threshold target_idx speed_threshold operator = (\<lambda>(u, v, spd) matched.
     if spd < calm_threshold then Inr matched
     else if sector_index (direction_degrees u v) 45 8 \<noteq> target_idx then Inr matched
     else case speed_threshold of None \<Rightarrow> Inr (matched + 1)
       | Some t \<Rightarrow> bindE (speed_matches operator spd t) (\<lambda>b. Inr (if b then matched + 1 else matched)))"

definition compute_directional_probability ::
    "numpy \<Rightarrow> pyfloat list \<Rightarrow> pyfloat list \<Rightarrow> string \<Rightarrow> pyfloat option \<Rightarrow> string \<Rightarrow> real \<Rightarrow> (real \<times> real \<times> real) result" where
  "compute_directional_probability np u_members v_members sector speed_threshold operator calm_threshold =
     (let sec_upper = py_upper (py_strip sector) in
      if sec_upper \<notin> set CARDINAL_DIRECTIONS_8 then Inl InvalidThresholdError
      else if (case speed_threshold of Some t \<Rightarrow> is_nan t \<or> f_lt t (Fin 0) | None \<Rightarrow> False) then Inl InvalidThresholdError
      else bindE (validate_members u_members v_members) (\<lambda>(us, vs).
           bindE (foldE (match_member calm_threshold (sector_position sec_upper) speed_threshold operator) (with_speeds np us vs) 0) (\<lambda>matched.
             let prob = real matched / real (length us) in
             bindE (probability_confidence_interval (Fin prob) (int (length us)) (95 / 100)) (\<lambda>ci. Inr (prob, ci)))))"

end
