(* ===== verification/PointExtraction.thy ===== *)
theory PointExtraction
  imports PointInterpolation Wind Precipitation ReaderGate
begin

text \<open>
  The values of one store at one point, \<open>_extract_single_lead_interpolations\<close> and \<open>batch_gated_point_interpolations\<close> of
  \<open>api/services/point_forecast.py\<close>: every requested variable of a lead is interpolated, wind and precipitation are derived with
  their companions, and the precipitation of a lead is classified with that of the lead before, read again or remembered. The
  interpolation of a variable is an argument: \<open>interpolate_point\<close> for a sharded store, \<open>interpolate_neighborhood\<close> for another.
\<close>

subsection \<open>What a store offers\<close>

record point_dataset =
  pd_vars :: "string list"
  pd_ensemble :: bool
  pd_leads :: "int list option"
  pd_sharded :: bool

text \<open>The reads: a variable at a lead, of the official mean or not; whether a mean shard exists; dimensions of a field at one lead\<close>

record point_reads =
  pr_value :: "string \<Rightarrow> int \<Rightarrow> bool \<Rightarrow> pyfloat result"
  pr_has_mean :: "string \<Rightarrow> int \<Rightarrow> bool"
  pr_ndim :: "string \<Rightarrow> nat"

datatype out_value = OutFloat pyfloat | OutText string

type_synonym out = "string \<Rightarrow> out_value option"

text \<open>\<open>precip_history\<close>: the amount, the flags and the temperature of a store and lead; \<open>None\<close> when no history is kept\<close>

type_synonym flags = "(string \<times> int) list"
type_synonym history = "(string \<times> int \<Rightarrow> (pyfloat \<times> flags \<times> pyfloat option) option) option"

definition HTTPException_404 :: py_error where "HTTPException_404 = DomainError ''HTTPException'' ''404''"

definition FLAG_CODES :: "string list" where "FLAG_CODES = [''crain'', ''csnow'', ''cfrzr'', ''cicep'']"
definition PRECIP :: string where "PRECIP = ''precipitation_amount_3h''"
definition T2M :: string where "T2M = ''temperature_2m''"
definition WIND_U :: string where "WIND_U = ''wind_u_10m''"
definition WIND_V :: string where "WIND_V = ''wind_v_10m''"

definition flag_of :: "pyfloat \<Rightarrow> int" where "flag_of v = (if f_le (Fin (1 / 2)) v then 1 else 0)"

definition require :: "bool \<Rightarrow> py_error \<Rightarrow> unit result" where
  "require b e = (if b then Inr () else Inl e)"

text \<open>A dictionary of flags as the optional argument of the classification\<close>

definition flags_or_none :: "flags \<Rightarrow> phase_flags option" where
  "flags_or_none fl = (if fl = [] then None else Some (FlagMap (map_of fl)))"

text \<open>\<open>float\<close> of an entry that was put there before\<close>

definition out_float :: "out_value \<Rightarrow> pyfloat result" where
  "out_float x = (case x of OutFloat v \<Rightarrow> Inr v | OutText _ \<Rightarrow> Inl (TypeError ''not a number''))"

text \<open>A sharded ensemble is read from its mean shards.\<close>

definition reads_mean :: "point_dataset \<Rightarrow> bool" where "reads_mean ds = (pd_sharded ds \<and> pd_ensemble ds)"

definition lead_value :: "point_dataset \<Rightarrow> point_reads \<Rightarrow> int \<Rightarrow> string \<Rightarrow> pyfloat result" where
  "lead_value ds rd lead v = pr_value rd v lead (reads_mean ds)"

subsection \<open>Wind\<close>

text \<open>\<open>math.hypot\<close> of two floats\<close>

definition math_hypot :: "pyfloat \<Rightarrow> pyfloat \<Rightarrow> pyfloat" where
  "math_hypot u v = (case (u, v) of
     (Fin a, Fin b) \<Rightarrow> Fin (hypot a b)
   | _ \<Rightarrow> if u \<in> {PInf, NInf} \<or> v \<in> {PInf, NInf} then PInf else NaN)"

definition put_wind :: "pyfloat \<Rightarrow> pyfloat \<Rightarrow> out \<Rightarrow> out result" where
  "put_wind u_val v_val out =
     (let speed_kmh = f_scale (36 / 10) (math_hypot u_val v_val);
          direction_deg = derive_meteorological_direction u_val v_val CALM_WIND_THRESHOLD_MPS in
      bindE (get_cardinal_direction (map_option Fin direction_deg) 8) (\<lambda>cardinal.
        Inr (out(''wind_10m'' \<mapsto> OutFloat speed_kmh,
             ''_wind_direction_10m'' \<mapsto> OutFloat (case direction_deg of Some d \<Rightarrow> Fin d | None \<Rightarrow> NaN),
             ''_wind_cardinal_10m'' \<mapsto> OutText (case cardinal of Some c \<Rightarrow> c | None \<Rightarrow> ''CALM'')))))"

definition extract_wind :: "point_dataset \<Rightarrow> point_reads \<Rightarrow> int \<Rightarrow> out \<Rightarrow> out result" where
  "extract_wind ds rd lead out =
     bindE (require (WIND_U \<in> set (pd_vars ds) \<and> WIND_V \<in> set (pd_vars ds)) HTTPException_404) (\<lambda>_.
     bindE (if pd_sharded ds
            then require (\<not> pd_ensemble ds \<or> pr_has_mean rd WIND_U lead \<and> pr_has_mean rd WIND_V lead) FileNotFoundError
            else require (pr_ndim rd WIND_U \<in> {2, 3} \<and> pr_ndim rd WIND_V \<in> {2, 3}) HTTPException_500) (\<lambda>_.
     bindE (lead_value ds rd lead WIND_U) (\<lambda>u_val.
     bindE (lead_value ds rd lead WIND_V) (\<lambda>v_val. put_wind u_val v_val out))))"

subsection \<open>Precipitation\<close>

text \<open>The loop over the flag variables of a lead. The sharded ensemble path reuses values that are already in the answer.\<close>

fun read_flags :: "bool \<Rightarrow> (string \<Rightarrow> pyfloat result) \<Rightarrow> string list \<Rightarrow> string list \<Rightarrow> flags \<Rightarrow> out \<Rightarrow> (flags \<times> out) result" where
  "read_flags reuse value vars [] fl out = Inr (fl, out)"
| "read_flags reuse value vars (f_code # codes) fl out =
     (if f_code \<in> set vars then
        bindE (case (reuse, out f_code) of (True, Some x) \<Rightarrow> out_float x | _ \<Rightarrow> value f_code) (\<lambda>f_val.
          read_flags reuse value vars codes (fl @ [(f_code, flag_of f_val)]) (out(f_code \<mapsto> OutFloat f_val)))
      else read_flags reuse value vars codes fl out)"

text \<open>The temperature of the lead; the answer gets it on the sharded paths when it was asked for.\<close>

definition read_t2m :: "point_dataset \<Rightarrow> (string \<Rightarrow> pyfloat result) \<Rightarrow> string list \<Rightarrow> out \<Rightarrow> (pyfloat option \<times> out) result" where
  "read_t2m ds value var_codes out =
     (if T2M \<notin> set (pd_vars ds) then Inr (None, out)
      else case (reads_mean ds, out T2M) of
          (True, Some x) \<Rightarrow> bindE (out_float x) (\<lambda>t. Inr (Some t, out))
        | _ \<Rightarrow> bindE (value T2M) (\<lambda>t. Inr (Some t, if pd_sharded ds \<and> T2M \<in> set var_codes then out(T2M \<mapsto> OutFloat t) else out)))"

text \<open>The predecessor evidence read from the store\<close>

definition read_previous ::
    "point_dataset \<Rightarrow> (string \<Rightarrow> pyfloat result) \<Rightarrow> (pyfloat option \<times> phase_flags option \<times> pyfloat option) result" where
  "read_previous ds value =
     bindE (value PRECIP) (\<lambda>amt. bindE (read_flags False value (pd_vars ds) FLAG_CODES [] Map.empty) (\<lambda>(f_prev, _).
     bindE (if T2M \<in> set (pd_vars ds) then bindE (value T2M) (\<lambda>t. Inr (Some t)) else Inr None) (\<lambda>t2m_start.
       Inr (Some amt, flags_or_none f_prev, t2m_start))))"

definition leads_of :: "point_dataset \<Rightarrow> int list result" where
  "leads_of ds = (case pd_leads ds of Some ls \<Rightarrow> Inr ls
     | None \<Rightarrow> if pd_sharded ds then Inr [] else Inl (KeyError ''lead_time_hours''))"

definition previous_evidence ::
    "point_dataset \<Rightarrow> point_reads \<Rightarrow> history \<Rightarrow> string \<Rightarrow> int \<Rightarrow> (pyfloat option \<times> phase_flags option \<times> pyfloat option) result" where
  "previous_evidence ds rd hist store_path lead =
     (if \<not> (lead mod 6 = 0 \<and> 0 < lead) then Inr (None, None, None)
      else let pred_lead = lead - 3 in
        case (if reads_mean ds then (case hist of Some h \<Rightarrow> h (store_path, pred_lead) | None \<Rightarrow> None) else None) of
          Some (amt, fl, t2m) \<Rightarrow> Inr (Some amt, Some (FlagMap (map_of fl)), t2m)
        | None \<Rightarrow> bindE (leads_of ds) (\<lambda>leads.
            if pred_lead \<in> set leads then read_previous ds (lead_value ds rd pred_lead)
            else Inr (None, None, None)))"

text \<open>\<open>.value\<close> of an enum member\<close>

definition value_of :: "(string \<times> 'a) list \<Rightarrow> 'a \<Rightarrow> string" where
  "value_of members x = (case find (\<lambda>p. snd p = x) members of Some p \<Rightarrow> fst p | None \<Rightarrow> '''')"

fun evidence_value :: "evidence_state \<Rightarrow> string" where
  "evidence_value EV_EXACT = ''exact''"
| "evidence_value EV_STRONGLY_INFERRED = ''strongly_inferred''"
| "evidence_value EV_AMBIGUOUS = ''ambiguous''"

definition put_phase :: "precipitation_phase_state \<Rightarrow> out \<Rightarrow> out" where
  "put_phase st out = out(''_precipitation_type'' \<mapsto> OutText (value_of precipitation_types (interval_type st)),
     ''_precipitation_transition'' \<mapsto> OutText (value_of precipitation_transitions (transition st)),
     ''_precipitation_start_type'' \<mapsto> OutText (value_of precipitation_types (start_type st)),
     ''_precipitation_end_type'' \<mapsto> OutText (value_of precipitation_types (end_type st)),
     ''_precipitation_evidence'' \<mapsto> OutText (evidence_value (evidence st)))"

text \<open>The amount is in the answer: its flags, temperature and predecessor, the classification and what the history keeps.\<close>

definition classify_lead ::
    "point_dataset \<Rightarrow> point_reads \<Rightarrow> string list \<Rightarrow> string \<Rightarrow> int \<Rightarrow> pyfloat \<Rightarrow> out \<Rightarrow> history \<Rightarrow> (out \<times> history) result" where
  "classify_lead ds rd var_codes store_path lead amt_val out hist =
     bindE (read_flags (reads_mean ds) (lead_value ds rd lead) (pd_vars ds) FLAG_CODES [] out) (\<lambda>(flags_curr, out1).
     bindE (read_t2m ds (lead_value ds rd lead) var_codes out1) (\<lambda>(t2m_val, out2).
     bindE (previous_evidence ds rd hist store_path lead) (\<lambda>(amt_prev, flags_prev, t2m_start).
     bindE (classify_precipitation_phase (Some amt_val) (flags_or_none flags_curr) amt_prev flags_prev t2m_start t2m_val TRACE_THRESHOLD_MM) (\<lambda>st.
       Inr (put_phase st out2,
            if reads_mean ds then map_option (\<lambda>h. h((store_path, lead) \<mapsto> (amt_val, flags_curr, t2m_val))) hist else hist)))))"

definition extract_precipitation ::
    "point_dataset \<Rightarrow> point_reads \<Rightarrow> string list \<Rightarrow> string \<Rightarrow> int \<Rightarrow> out \<times> history \<Rightarrow> (out \<times> history) result" where
  "extract_precipitation ds rd var_codes store_path lead = (\<lambda>(out, hist).
     bindE (require (PRECIP \<in> set (pd_vars ds)) HTTPException_404) (\<lambda>_.
     bindE (require (\<not> reads_mean ds \<or> pr_has_mean rd PRECIP lead) FileNotFoundError) (\<lambda>_.
     bindE (lead_value ds rd lead PRECIP) (\<lambda>amt_val.
       classify_lead ds rd var_codes store_path lead amt_val (out(PRECIP \<mapsto> OutFloat amt_val)) hist))))"

subsection \<open>All variables of a lead\<close>

definition extract_plain :: "point_dataset \<Rightarrow> point_reads \<Rightarrow> int \<Rightarrow> string \<Rightarrow> out \<Rightarrow> out result" where
  "extract_plain ds rd lead var_code out =
     (if pd_sharded ds \<and> out var_code \<noteq> None then Inr out
      else bindE (require (var_code \<in> set (pd_vars ds)) HTTPException_404) (\<lambda>_.
           bindE (if pd_sharded ds then require (\<not> pd_ensemble ds \<or> pr_has_mean rd var_code lead) FileNotFoundError
                  else require (pr_ndim rd var_code \<in> {2, 3}) HTTPException_500) (\<lambda>_.
           bindE (lead_value ds rd lead var_code) (\<lambda>x. Inr (out(var_code \<mapsto> OutFloat x))))))"

definition extract_variable ::
    "point_dataset \<Rightarrow> point_reads \<Rightarrow> string list \<Rightarrow> string \<Rightarrow> int \<Rightarrow> string \<Rightarrow> out \<times> history \<Rightarrow> (out \<times> history) result" where
  "extract_variable ds rd var_codes store_path lead var_code = (\<lambda>(out, hist).
     if var_code = ''wind_10m'' then bindE (extract_wind ds rd lead out) (\<lambda>o1. Inr (o1, hist))
     else if var_code = PRECIP then extract_precipitation ds rd var_codes store_path lead (out, hist)
     else bindE (extract_plain ds rd lead var_code out) (\<lambda>o1. Inr (o1, hist)))"

definition extract_single_lead_interpolations ::
    "point_dataset \<Rightarrow> point_reads \<Rightarrow> string \<Rightarrow> int \<Rightarrow> string list \<Rightarrow> history \<Rightarrow> (out \<times> history) result" where
  "extract_single_lead_interpolations ds rd store_path lead var_codes hist =
     foldE (extract_variable ds rd var_codes store_path lead) var_codes (Map.empty, hist)"

text \<open>The loop over the leads, in ascending order, and the answer of the batch. The requests are a dictionary from leads.\<close>

fun select_and_interpolate_batch ::
    "point_dataset \<Rightarrow> point_reads \<Rightarrow> string \<Rightarrow> (int \<times> string list) list \<Rightarrow> history \<Rightarrow> ((int \<times> out) list \<times> history) result" where
  "select_and_interpolate_batch ds rd store_path [] hist = Inr ([], hist)"
| "select_and_interpolate_batch ds rd store_path ((lead, var_codes) # reqs) hist =
     (if var_codes = [] then select_and_interpolate_batch ds rd store_path reqs hist
      else bindE (extract_single_lead_interpolations ds rd store_path lead var_codes hist) (\<lambda>(out, hist1).
           bindE (select_and_interpolate_batch ds rd store_path reqs hist1) (\<lambda>(rest, hist2). Inr ((lead, out) # rest, hist2))))"

definition error_class :: "py_error \<Rightarrow> string" where
  "error_class e = (case e of DomainError cls _ \<Rightarrow> cls | _ \<Rightarrow> '''')"

text \<open>\<open>gated_read_dataset_with_selector\<close> with a reader pool: what the caller sees of a gated read\<close>

definition gated_dataset_result :: "'a result \<Rightarrow> 'a result" where
  "gated_dataset_result r = (case r of
     Inl e \<Rightarrow> if error_class e \<in> {''FileNotFoundError'', ''ReaderGateTimeout''} then Inl FileNotFoundError else Inl e
   | Inr x \<Rightarrow> Inr x)"

text \<open>The handlers of the batch: \<open>None\<close> is a store without an answer.\<close>

definition batch_answer :: "'a result \<Rightarrow> 'a option result" where
  "batch_answer r = (case r of
     Inr x \<Rightarrow> Inr (Some x)
   | Inl e \<Rightarrow> if error_class e \<in> {''HTTPException'', ''ReaderGateTimeout''} then Inl e
             else if error_class e = ''PointOutsideGridError'' then Inl HTTPException_404
             else if error_class e = ''InvalidGridError'' then Inl HTTPException_500
             else Inr None)"

definition batch_gated_point_interpolations ::
    "(point_dataset \<Rightarrow> point_reads result) \<Rightarrow> point_dataset result \<Rightarrow> string \<Rightarrow> (int \<times> string list) list \<Rightarrow> history
     \<Rightarrow> ((int \<times> out) list \<times> history) option result" where
  "batch_gated_point_interpolations reads dataset store_path requests hist =
     (if requests = [] then Inr (Some ([], hist))
      else batch_answer (gated_dataset_result (bindE dataset (\<lambda>ds. bindE (reads ds) (\<lambda>rd.
             select_and_interpolate_batch ds rd store_path (sort_key fst requests) hist)))))"


subsection \<open>The reads of a sharded store\<close>

text \<open>The window of a point: the stored rows and columns and the weights\<close>

definition point_window ::
    "regular_grid \<Rightarrow> bool \<Rightarrow> bool \<Rightarrow> int \<Rightarrow> int \<Rightarrow> pyfloat \<Rightarrow> pyfloat \<Rightarrow> ((int \<times> int) \<times> (int \<times> int) \<times> real \<times> real) result" where
  "point_window g lat_desc lon_desc lat_size lon_size latitude longitude =
     (if rg_rows g < 2 \<or> rg_cols g < 2 then Inl InvalidGridError
      else bindE (row_col_from_coordinates g latitude longitude) (\<lambda>(row_f, col_f).
        let row_0 = lower_index (rg_rows g) row_f; col_0 = lower_index (rg_cols g) col_f in
        Inr ((stored row_0 lat_size lat_desc, stored (row_0 + 1) lat_size lat_desc),
             (stored col_0 lon_size lon_desc, stored (col_0 + 1) lon_size lon_desc),
             row_f - of_int row_0, col_f - of_int col_0)))"

definition mean_slice :: "string option \<Rightarrow> string \<Rightarrow> int \<Rightarrow> bool \<Rightarrow> slice_id" where
  "mean_slice generation variable lead is_mean =
     \<lparr>sl_variable = variable, sl_member = None, sl_lead = lead, sl_is_mean = is_mean, sl_generation = generation\<rparr>"

text \<open>The answers are those of a reader with empty caches: \<open>point_cache_transparent\<close> shows that the caches do not alter them.\<close>

definition sharded_reads ::
    "(nat \<Rightarrow> pyfloat) \<Rightarrow> reader_class \<Rightarrow> reader \<Rightarrow> world \<Rightarrow> string option \<Rightarrow> (int \<times> int) \<times> (int \<times> int) \<times> real \<times> real \<Rightarrow> point_reads" where
  "sharded_reads value cls rd W generation window = (case window of (lat_idx, lon_idx, t_row, t_col) \<Rightarrow>
     \<lparr>pr_value = (\<lambda>variable lead is_mean. fst (answer_point value 0 cls rd W
          \<lparr>pq_slice = mean_slice generation variable lead is_mean, pq_lat_idx = lat_idx, pq_lon_idx = lon_idx, pq_t_row = t_row, pq_t_col = t_col\<rparr>
          no_point_cache)),
      pr_has_mean = (\<lambda>variable lead. fst (has_mean_shard rd (W (generation_tag generation)) (mean_slice generation variable lead True) no_cache)),
      pr_ndim = (\<lambda>_. 2)\<rparr>)"

end
