(* ===== verification/PointAnswers.thy ===== *)
theory PointAnswers
  imports PointExtraction PointServing
begin

text \<open>
  What the point answers guarantee: the sharded and the array path agree on the same data, remembering the precipitation of the
  lead before never changes an answer, and what a missing mean shard does depends on the order of the variables.
\<close>

subsection \<open>Two paths, one answer\<close>

definition stored_cell :: "reader_class \<Rightarrow> reader \<Rightarrow> world \<Rightarrow> slice_id \<Rightarrow> int \<Rightarrow> int \<Rightarrow> nat result" where
  "stored_cell cls rd W s i j = bindE (uncached_chunk cls rd (W (generation_tag (sl_generation s))) s (i div 100) (j div 100))
     (\<lambda>arr. Inr (a_cell arr (nat (i mod 100)) (nat (j mod 100))))"

definition shard_field :: "(nat \<Rightarrow> pyfloat) \<Rightarrow> nat \<Rightarrow> nat \<Rightarrow> (nat \<Rightarrow> nat \<Rightarrow> nat) \<Rightarrow> stored_field" where
  "shard_field value rows cols bits = \<lparr>fd_latitude_size = int rows, fd_longitude_size = int cols,
     fd_cells = Plane (map (\<lambda>i. map (\<lambda>j. value (bits i j)) [0..<cols]) [0..<rows])\<rparr>"

lemma fresh_point:
  assumes "\<And>i j. i \<in> {lat0, lat1} \<Longrightarrow> j \<in> {lon0, lon1} \<Longrightarrow> stored_cell cls rd W s i j = Inr (bits (nat i) (nat j))"
    and "plain_slice s"
  shows "fst (answer_point value 0 cls rd W \<lparr>pq_slice = s, pq_lat_idx = (lat0, lat1), pq_lon_idx = (lon0, lon1), pq_t_row = tr, pq_t_col = tc\<rparr> no_point_cache) =
    Inr (bilinear (value (bits (nat lat0) (nat lon0))) (value (bits (nat lat0) (nat lon1))) (value (bits (nat lat1) (nat lon0)))
      (value (bits (nat lat1) (nat lon1))) tr tc)"
proof -
  let ?q = "\<lparr>pq_slice = s, pq_lat_idx = (lat0, lat1), pq_lon_idx = (lon0, lon1), pq_t_row = tr, pq_t_col = tc\<rparr>"
  obtain res st where a: "answer_point value 0 cls rd W ?q no_point_cache = (res, st)" by fastforce
  have "res = fresh_answer value cls rd W ?q"
    using answer_point_coherent [OF point_coherent_empty _ a] assms(2) by simp
  moreover have "uncached_corners cls rd W s lat0 lat1 lon0 lon1 =
      Inr (bits (nat lat0) (nat lon0), bits (nat lat0) (nat lon1), bits (nat lat1) (nat lon0), bits (nat lat1) (nat lon1))"
    using assms(1) [unfolded stored_cell_def] by (simp add: uncached_corners_def Let_def)
  ultimately show ?thesis by (simp add: a fresh_answer_def blend_def)
qed

text \<open>C31: The point read of a sharded store, through its chunks, answers what the array path answers on the field made of the same
  cells: the same value where the point is on the grid and the same error elsewhere.\<close>

theorem sharded_path_is_array_path:
  assumes "rg_rows g = int rows" "rg_cols g = int cols" "CHR ''/'' \<notin> set variable" "CHR '':'' \<notin> set (generation_tag generation)"
    and "\<And>i j. i < rows \<Longrightarrow> j < cols \<Longrightarrow> stored_cell cls rd W (mean_slice generation variable lead is_mean) (int i) (int j) = Inr (bits i j)"
  shows "bindE (point_window g d1 d2 (int rows) (int cols) latitude longitude)
      (\<lambda>window. pr_value (sharded_reads value cls rd W generation window) variable lead is_mean) =
    interpolate_neighborhood mean (shard_field value rows cols bits) g d1 d2 latitude longitude"
proof (cases "point_window g d1 d2 (int rows) (int cols) latitude longitude")
  case (Inl e)
  then show ?thesis
    by (auto simp: point_window_def interpolate_neighborhood_def Let_def bindE_def split: if_splits sum.splits prod.splits)
next
  case (Inr window)
  let ?s = "mean_slice generation variable lead is_mean"
  from Inr obtain row_f col_f where n: "2 \<le> rg_rows g" "2 \<le> rg_cols g"
    and rc: "row_col_from_coordinates g latitude longitude = Inr (row_f, col_f)"
    by (auto simp: point_window_def bindE_eq_Inr split: if_splits)
  have b: "0 \<le> row_f" "row_f \<le> of_int (rg_rows g - 1)" "0 \<le> col_f" "col_f \<le> of_int (rg_cols g - 1)"
    using n by (auto intro: row_col_D [OF rc])
  define r where "r = lower_index (rg_rows g) row_f"
  define c where "c = lower_index (rg_cols g) col_f"
  have r: "0 \<le> r" "r + 1 < int rows" and c: "0 \<le> c" "c + 1 < int cols"
    using lower_index_bounds(1,2) [OF b(1,2) n(1)] lower_index_bounds(1,2) [OF b(3,4) n(2)] assms(1,2) by (simp_all add: r_def c_def)
  let ?l0 = "stored r (int rows) d1" and ?l1 = "stored (r + 1) (int rows) d1" and ?k0 = "stored c (int cols) d2" and ?k1 = "stored (c + 1) (int cols) d2"
  have in_grid: "0 \<le> ?l0" "?l0 < int rows" "0 \<le> ?l1" "?l1 < int rows" "0 \<le> ?k0" "?k0 < int cols" "0 \<le> ?k1" "?k1 < int cols"
    using r c by (auto simp: stored_def)
  have w: "window = ((?l0, ?l1), (?k0, ?k1), row_f - of_int r, col_f - of_int c)"
    using Inr n by (simp add: point_window_def rc Let_def r_def c_def)
  have pl: "plain_slice ?s" using assms(3,4) by (simp add: plain_slice_def plain_tag_def mean_slice_def)
  have cells: "stored_cell cls rd W ?s i j = Inr (bits (nat i) (nat j))" if "i \<in> {?l0, ?l1}" "j \<in> {?k0, ?k1}" for i j
  proof -
    have "nat i < rows" "nat j < cols" "int (nat i) = i" "int (nat j) = j" using that in_grid by auto
    then show ?thesis using assms(5) [of "nat i" "nat j"] by simp
  qed
  have read: "pr_value (sharded_reads value cls rd W generation window) variable lead is_mean =
      Inr (bilinear (value (bits (nat ?l0) (nat ?k0))) (value (bits (nat ?l0) (nat ?k1))) (value (bits (nat ?l1) (nat ?k0)))
        (value (bits (nat ?l1) (nat ?k1))) (row_f - of_int r) (col_f - of_int c))"
    unfolding w sharded_reads_def prod.case using fresh_point [OF cells pl] by simp
  have size: "fd_latitude_size (shard_field value rows cols bits) = int rows" "fd_longitude_size (shard_field value rows cols bits) = int cols"
    by (simp_all add: shard_field_def)
  have wc: "window_cell mean (fd_cells (shard_field value rows cols bits)) (nat i) (nat j) = value (bits (nat i) (nat j))"
    if "0 \<le> i" "i < int rows" "0 \<le> j" "j < int cols" for i j
    using that by (simp add: window_cell_def shard_field_def nat_less_iff)
  have "interpolate_neighborhood mean (shard_field value rows cols bits) g d1 d2 latitude longitude =
      Inr (bilinear (value (bits (nat ?l0) (nat ?k0))) (value (bits (nat ?l0) (nat ?k1))) (value (bits (nat ?l1) (nat ?k0)))
        (value (bits (nat ?l1) (nat ?k1))) (row_f - of_int r) (col_f - of_int c))"
    using n r c in_grid by (simp add: interpolate_neighborhood_def rc Let_def isel_stored wc size flip: r_def c_def)
  then show ?thesis using Inr read by simp
qed


text \<open>A store without objects: every chunk is empty, and every cell the cast of the fill value.\<close>

lemma sharded_path_is_array_path_witness:
  "bindE (point_window unit_grid True False 2 2 (Fin (1 / 2)) (Fin (1 / 4)))
     (\<lambda>window. pr_value (sharded_reads (\<lambda>n. Fin (real n)) ShardedV1Reader small_reader (\<lambda>_ _. None) None window) ''t'' 6 False) =
   interpolate_neighborhood hd (shard_field (\<lambda>n. Fin (real n)) 2 2 (\<lambda>_ _. 7)) unit_grid True False (Fin (1 / 2)) (Fin (1 / 4))"
proof -
  have t: "CHR '':'' \<notin> set (generation_tag None)" by code_simp
  have cell: "stored_cell ShardedV1Reader small_reader (\<lambda>_ _. None) (mean_slice None ''t'' 6 False) (int i) (int j) = Inr 7"
    if "i < 2" "j < 2" for i j
  proof -
    have d: "int i div 100 = 0" "int j div 100 = 0" "in_grid 0 0" using that by (simp_all add: in_grid_def)
    then show ?thesis
      by (simp add: stored_cell_def uncached_chunk_eq chunk_from_index_def fetch_index_def slice_dtype_def payload_dtype_def empty_chunk_def small_reader_def Let_def)
  qed
  have "bindE (point_window unit_grid True False (int 2) (int 2) (Fin (1 / 2)) (Fin (1 / 4)))
     (\<lambda>window. pr_value (sharded_reads (\<lambda>n. Fin (real n)) ShardedV1Reader small_reader (\<lambda>_ _. None) None window) ''t'' 6 False) =
   interpolate_neighborhood hd (shard_field (\<lambda>n. Fin (real n)) 2 2 (\<lambda>_ _. 7)) unit_grid True False (Fin (1 / 2)) (Fin (1 / 4))"
    by (rule sharded_path_is_array_path [OF _ _ _ t cell]) (simp_all add: unit_fields)
  then show ?thesis by simp
qed

subsection \<open>The remembered precipitation\<close>

text \<open>What the variables of a lead read as, and a history whose entries say the same\<close>

definition true_entry :: "point_dataset \<Rightarrow> point_reads \<Rightarrow> int \<Rightarrow> pyfloat \<times> flags \<times> pyfloat option \<Rightarrow> bool" where
  "true_entry ds rd lead = (\<lambda>(amt, fl, t2m). lead_value ds rd lead PRECIP = Inr amt \<and>
     (\<exists>o1. read_flags False (lead_value ds rd lead) (pd_vars ds) FLAG_CODES [] Map.empty = Inr (fl, o1)) \<and>
     (if T2M \<in> set (pd_vars ds) then \<exists>t. t2m = Some t \<and> lead_value ds rd lead T2M = Inr t else t2m = None))"

definition true_history :: "point_dataset \<Rightarrow> point_reads \<Rightarrow> string \<Rightarrow> history \<Rightarrow> bool" where
  "true_history ds rd store_path hist \<longleftrightarrow> (\<forall>h lead e. hist = Some h \<longrightarrow> h (store_path, lead) = Some e \<longrightarrow>
     (\<exists>leads. pd_leads ds = Some leads \<and> lead \<in> set leads) \<and> true_entry ds rd lead e)"

text \<open>An answer under construction holds only what was read for the flags and the temperature.\<close>

definition true_out :: "point_dataset \<Rightarrow> point_reads \<Rightarrow> int \<Rightarrow> out \<Rightarrow> bool" where
  "true_out ds rd lead out \<longleftrightarrow> (\<forall>f \<in> set (T2M # FLAG_CODES). \<forall>x. out f = Some x \<longrightarrow> (\<exists>v. x = OutFloat v \<and> lead_value ds rd lead f = Inr v))"

lemma true_out_put: "true_out ds rd lead out \<Longrightarrow> lead_value ds rd lead v = Inr x \<Longrightarrow> true_out ds rd lead (out(v \<mapsto> OutFloat x))"
  by (auto simp: true_out_def)

lemma true_out_other: "true_out ds rd lead out \<Longrightarrow> k \<notin> set (T2M # FLAG_CODES) \<Longrightarrow> true_out ds rd lead (out(k \<mapsto> x))"
  by (auto simp: true_out_def)

lemma true_out_get:
  "true_out ds rd lead out \<Longrightarrow> f \<in> set (T2M # FLAG_CODES) \<Longrightarrow> out f = Some x \<Longrightarrow> out_float x = lead_value ds rd lead f"
  by (force simp: true_out_def out_float_def)

text \<open>Reusing an entry of the answer reads the same value; the answer does not matter for the flags.\<close>

lemma read_flags_reuse:
  assumes "true_out ds rd lead out" "set codes \<subseteq> set FLAG_CODES"
  shows "read_flags reuse (lead_value ds rd lead) vars codes fl out = read_flags False (lead_value ds rd lead) vars codes fl out"
  using assms
proof (induction codes arbitrary: fl out)
  case (Cons c codes)
  have same: "(case (reuse, out c) of (True, Some x) \<Rightarrow> out_float x | _ \<Rightarrow> lead_value ds rd lead c) = lead_value ds rd lead c"
    using Cons.prems true_out_get [OF Cons.prems(1), of c] by (auto split: option.splits bool.splits)
  show ?case
  proof (cases "lead_value ds rd lead c")
    case (Inl e)
    then show ?thesis using Cons.IH [OF Cons.prems(1)] Cons.prems(2) by (simp add: same [simplified])
  next
    case (Inr x)
    then have "true_out ds rd lead (out(c \<mapsto> OutFloat x))" by (rule true_out_put [OF Cons.prems(1)])
    then have "read_flags reuse (lead_value ds rd lead) vars codes fl' (out(c \<mapsto> OutFloat x)) =
        read_flags False (lead_value ds rd lead) vars codes fl' (out(c \<mapsto> OutFloat x))" for fl'
      using Cons.prems(2) by (intro Cons.IH) (simp_all del: fun_upd_apply)
    moreover have "read_flags reuse (lead_value ds rd lead) vars codes fl out = read_flags False (lead_value ds rd lead) vars codes fl out"
      using Cons.prems by (intro Cons.IH) simp_all
    ultimately show ?thesis using Inr by (simp add: same [simplified] del: fun_upd_apply)
  qed
qed simp

lemma read_flags_out:
  "read_flags False value vars codes fl out = Inr (fl', o1) \<Longrightarrow> \<exists>o2. read_flags False value vars codes fl out' = Inr (fl', o2)"
  by (induction codes arbitrary: fl out out') (auto simp: bindE_eq_Inr split: if_splits)

lemma read_flags_true:
  "read_flags False (lead_value ds rd lead) vars codes fl out = Inr (fl', o1) \<Longrightarrow> true_out ds rd lead out \<Longrightarrow> true_out ds rd lead o1"
  by (induction codes arbitrary: fl out) (auto simp: bindE_eq_Inr true_out_put split: if_splits)

lemma read_flags_none:
  "read_flags False value vars codes fl out = Inr (fl', o1) \<Longrightarrow> fl' = [] \<longleftrightarrow> fl = [] \<and> (\<forall>c \<in> set codes. c \<notin> set vars)"
  by (induction codes arbitrary: fl out) (auto simp: bindE_eq_Inr split: if_splits)

text \<open>Without flags the classification does not look at the flags of the lead before.\<close>

lemma classify_without_flags:
  "classify_precipitation_phase a None ap fp t0 t1 thr = classify_precipitation_phase a None ap fp' t0' t1' thr"
  by (simp add: classify_precipitation_phase_def Let_def split: option.splits)

lemma classify_ignores_temperatures:
  "classify_precipitation_phase a fl ap fp t0 t1 thr = classify_precipitation_phase a fl ap fp t0' t1' thr"
  by (simp add: classify_precipitation_phase_def)


lemma previous_with_history:
  assumes "true_history ds rd store_path hist"
  shows "previous_evidence ds rd hist store_path lead = previous_evidence ds rd None store_path lead \<or>
    (\<exists>amt fl t. previous_evidence ds rd hist store_path lead = Inr (Some amt, Some (FlagMap (map_of fl)), t) \<and>
       previous_evidence ds rd None store_path lead = Inr (Some amt, flags_or_none fl, t) \<and>
       (fl = [] \<longleftrightarrow> (\<forall>c \<in> set FLAG_CODES. c \<notin> set (pd_vars ds))))"
proof (cases "lead mod 6 = 0 \<and> 0 < lead \<and> reads_mean ds \<and> (\<exists>h e. hist = Some h \<and> h (store_path, lead - 3) = Some e)")
  case False
  then show ?thesis by (intro disjI1) (auto simp: previous_evidence_def Let_def split: option.splits)
next
  case True
  then obtain h amt fl t where h: "hist = Some h" "h (store_path, lead - 3) = Some (amt, fl, t)" by (metis prod.collapse)
  then obtain leads where l: "pd_leads ds = Some leads" "lead - 3 \<in> set leads" "true_entry ds rd (lead - 3) (amt, fl, t)"
    using assms unfolding true_history_def by blast
  then obtain o1 where e: "lead_value ds rd (lead - 3) PRECIP = Inr amt"
    "read_flags False (lead_value ds rd (lead - 3)) (pd_vars ds) FLAG_CODES [] Map.empty = Inr (fl, o1)"
    "if T2M \<in> set (pd_vars ds) then \<exists>x. t = Some x \<and> lead_value ds rd (lead - 3) T2M = Inr x else t = None"
    by (auto simp: true_entry_def)
  have "read_previous ds (lead_value ds rd (lead - 3)) = Inr (Some amt, flags_or_none fl, t)"
    using e by (auto simp: read_previous_def split: if_splits)
  then have "previous_evidence ds rd None store_path lead = Inr (Some amt, flags_or_none fl, t)"
    using True l(1,2) by (simp add: previous_evidence_def leads_of_def Let_def)
  moreover have "previous_evidence ds rd hist store_path lead = Inr (Some amt, Some (FlagMap (map_of fl)), t)"
    using True h by (simp add: previous_evidence_def Let_def)
  ultimately show ?thesis using read_flags_none [OF e(2)] by blast
qed

text \<open>Two results that differ in the history only, and keep what was shown of it\<close>

definition same_answer :: "point_dataset \<Rightarrow> point_reads \<Rightarrow> string \<Rightarrow> int \<Rightarrow> (out \<times> history) result \<Rightarrow> (out \<times> history) result \<Rightarrow> bool" where
  "same_answer ds rd store_path lead r r' \<longleftrightarrow> (case (r, r') of
     (Inl e, Inl e') \<Rightarrow> e = e'
   | (Inr (o1, h1), Inr (o2, h2)) \<Rightarrow> o1 = o2 \<and> true_out ds rd lead o1 \<and> true_history ds rd store_path h1 \<and> h2 = None
   | _ \<Rightarrow> False)"

lemma read_t2m_same:
  assumes "true_out ds rd lead out" "read_t2m ds (lead_value ds rd lead) var_codes out = Inr (t, o1)"
  shows "true_out ds rd lead o1" "if T2M \<in> set (pd_vars ds) then \<exists>x. t = Some x \<and> lead_value ds rd lead T2M = Inr x else t = None"
  using assms true_out_get [OF assms(1), of T2M]
  by (auto simp: read_t2m_def bindE_eq_Inr true_out_put split: if_splits option.splits bool.splits)

lemma true_out_phase: "true_out ds rd lead out \<Longrightarrow> true_out ds rd lead (put_phase st out)"
  unfolding put_phase_def by (intro true_out_other) (simp_all add: T2M_def FLAG_CODES_def)

lemma classified_same:
  assumes o: "true_out ds rd lead out" and h: "true_history ds rd store_path hist" and l: "pd_leads ds = Some leads" "lead \<in> set leads"
    and amt: "lead_value ds rd lead PRECIP = Inr amt"
  shows "same_answer ds rd store_path lead (classify_lead ds rd var_codes store_path lead amt out hist)
    (classify_lead ds rd var_codes store_path lead amt out None)"
proof (cases "read_flags (reads_mean ds) (lead_value ds rd lead) (pd_vars ds) FLAG_CODES [] out")
  case (Inl e)
  then show ?thesis by (simp add: classify_lead_def same_answer_def)
next
  case (Inr fo)
  obtain fl o1 where fo: "read_flags (reads_mean ds) (lead_value ds rd lead) (pd_vars ds) FLAG_CODES [] out = Inr (fl, o1)"
    using Inr by (cases fo) simp
  have fo': "read_flags False (lead_value ds rd lead) (pd_vars ds) FLAG_CODES [] out = Inr (fl, o1)" 
    by (rule trans [OF read_flags_reuse [OF o subset_refl, symmetric] fo])
  have o1: "true_out ds rd lead o1" by (rule read_flags_true [OF fo' o])
  obtain o3 where fe: "read_flags False (lead_value ds rd lead) (pd_vars ds) FLAG_CODES [] Map.empty = Inr (fl, o3)"
    using read_flags_out [OF fo'] by blast
  have fl0: "fl = [] \<longleftrightarrow> (\<forall>c \<in> set FLAG_CODES. c \<notin> set (pd_vars ds))" using read_flags_none [OF fo'] by simp
  show ?thesis
  proof (cases "read_t2m ds (lead_value ds rd lead) var_codes o1")
    case (Inl e)
    with fo show ?thesis by (simp add: classify_lead_def same_answer_def)
  next
    case (Inr to)
    obtain t o2 where t: "read_t2m ds (lead_value ds rd lead) var_codes o1 = Inr (t, o2)" using Inr by (cases to) simp
    note o2 = read_t2m_same [OF o1 t]
    have entry: "true_entry ds rd lead (amt, fl, t)" using amt fe o2(2) by (auto simp: true_entry_def)
    define keep where "keep = (\<lambda>hh :: history. if reads_mean ds then map_option (\<lambda>h. h((store_path, lead) \<mapsto> (amt, fl, t))) hh else hh)"
    have hist': "true_history ds rd store_path (keep hist)" using h entry l by (auto simp: true_history_def keep_def split: if_splits)
    have keepN: "keep None = None" by (simp add: keep_def)
    define C where "C = (\<lambda>(amt_prev, flags_prev, t2m_start).
      classify_precipitation_phase (Some amt) (flags_or_none fl) amt_prev flags_prev t2m_start t TRACE_THRESHOLD_MM)"
    have E: "classify_lead ds rd var_codes store_path lead amt out hh =
      bindE (previous_evidence ds rd hh store_path lead) (\<lambda>p. bindE (C p) (\<lambda>st. Inr (put_phase st o2, keep hh)))" for hh
      unfolding classify_lead_def fo bindE_simps prod.case t C_def keep_def by (simp add: case_prod_unfold)
    have same: "bindE (previous_evidence ds rd hist store_path lead) C = bindE (previous_evidence ds rd None store_path lead) C"
      using previous_with_history [OF h, of lead] fl0
      by (auto simp: C_def flags_or_none_def intro: classify_without_flags)
    have step: "classify_lead ds rd var_codes store_path lead amt out hh =
      bindE (bindE (previous_evidence ds rd hh store_path lead) C) (\<lambda>st. Inr (put_phase st o2, keep hh))" for hh
      unfolding E by (simp add: bindE_def split: sum.splits)
    show ?thesis
      using hist' true_out_phase [OF o2(1)]
      by (cases "bindE (previous_evidence ds rd None store_path lead) C") (simp_all add: step same same_answer_def keepN)
  qed
qed

lemma precipitation_same:
  assumes o: "true_out ds rd lead out" and h: "true_history ds rd store_path hist" and l: "pd_leads ds = Some leads" "lead \<in> set leads"
  shows "same_answer ds rd store_path lead (extract_precipitation ds rd var_codes store_path lead (out, hist))
    (extract_precipitation ds rd var_codes store_path lead (out, None))"
proof (cases "PRECIP \<in> set (pd_vars ds) \<and> (\<not> reads_mean ds \<or> pr_has_mean rd PRECIP lead)")
  case False
  then show ?thesis by (auto simp: extract_precipitation_def require_def same_answer_def)
next
  case True
  show ?thesis
  proof (cases "lead_value ds rd lead PRECIP")
    case (Inl e)
    with True show ?thesis by (auto simp: extract_precipitation_def require_def same_answer_def)
  next
    case (Inr amt)
    from classified_same [OF true_out_put [OF o Inr] h l Inr] True Inr show ?thesis
      by (simp add: extract_precipitation_def require_def)
  qed
qed

lemma true_out_wind: "true_out ds rd lead out \<Longrightarrow> extract_wind ds rd lead out = Inr o1 \<Longrightarrow> true_out ds rd lead o1"
  by (auto simp: extract_wind_def put_wind_def bindE_eq_Inr Let_def T2M_def FLAG_CODES_def intro!: true_out_other)

lemma true_out_plain: "true_out ds rd lead out \<Longrightarrow> extract_plain ds rd lead c out = Inr o1 \<Longrightarrow> true_out ds rd lead o1"
  by (auto simp: extract_plain_def bindE_eq_Inr lead_value_def intro: true_out_put split: if_splits)

lemma variable_same:
  assumes "true_out ds rd lead out" "true_history ds rd store_path hist" "pd_leads ds = Some leads" "lead \<in> set leads"
  shows "same_answer ds rd store_path lead (extract_variable ds rd var_codes store_path lead c (out, hist))
    (extract_variable ds rd var_codes store_path lead c (out, None))"
proof (cases "c \<noteq> ''wind_10m'' \<and> c = PRECIP")
  case True
  with precipitation_same [OF assms, of var_codes] show ?thesis by (auto simp: extract_variable_def)
next
  case False
  with assms(2) true_out_wind [OF assms(1)] true_out_plain [OF assms(1)] show ?thesis
    by (auto simp: extract_variable_def same_answer_def bindE_def split: sum.splits)
qed

lemma fold_same:
  assumes "true_out ds rd lead out" "true_history ds rd store_path hist" "pd_leads ds = Some leads" "lead \<in> set leads"
  shows "same_answer ds rd store_path lead (foldE (extract_variable ds rd var_codes store_path lead) cs (out, hist))
    (foldE (extract_variable ds rd var_codes store_path lead) cs (out, None))"
  using assms
proof (induction cs arbitrary: out hist)
  case Nil
  then show ?case by (simp add: same_answer_def)
next
  case (Cons c cs)
  note s = variable_same [OF Cons.prems, of var_codes c]
  show ?case
  proof (cases "extract_variable ds rd var_codes store_path lead c (out, hist)")
    case (Inl e)
    then show ?thesis using s by (cases "extract_variable ds rd var_codes store_path lead c (out, None)") (auto simp: same_answer_def)
  next
    case (Inr x)
    obtain o1 h1 where r: "extract_variable ds rd var_codes store_path lead c (out, hist) = Inr (o1, h1)" using Inr by (cases x) simp
    then have r': "extract_variable ds rd var_codes store_path lead c (out, None) = Inr (o1, None)"
      and inv: "true_out ds rd lead o1" "true_history ds rd store_path h1"
      using s by (auto simp: same_answer_def split: sum.splits)
    from Cons.IH [OF inv Cons.prems(3,4)] show ?thesis by (simp add: r r')
  qed
qed

lemma true_out_empty: "true_out ds rd lead Map.empty"
  by (simp add: true_out_def)

lemma batch_same:
  assumes "true_history ds rd store_path hist" "pd_leads ds = Some leads" "fst ` set reqs \<subseteq> set leads"
  shows "bindE (select_and_interpolate_batch ds rd store_path reqs hist) (\<lambda>(r, h). Inr r) =
    mapE (\<lambda>(lead, cs). bindE (extract_single_lead_interpolations ds rd store_path lead cs None) (\<lambda>(out, h). Inr (lead, out)))
      (filter (\<lambda>(lead, cs). cs \<noteq> []) reqs)"
  using assms
proof (induction reqs arbitrary: hist)
  case (Cons q reqs)
  obtain lead cs where q: "q = (lead, cs)" by (cases q)
  show ?case
  proof (cases "cs = []")
    case True
    with Cons show ?thesis by (simp add: q)
  next
    case False
    have "lead \<in> set leads" using Cons.prems(3) by (simp add: q)
    note s = fold_same [OF true_out_empty Cons.prems(1,2) this, of cs cs, folded extract_single_lead_interpolations_def]
    show ?thesis
    proof (cases "extract_single_lead_interpolations ds rd store_path lead cs hist")
      case (Inl e)
      with s False show ?thesis
        by (cases "extract_single_lead_interpolations ds rd store_path lead cs None") (auto simp: q same_answer_def)
    next
      case (Inr x)
      obtain o1 h1 where r: "extract_single_lead_interpolations ds rd store_path lead cs hist = Inr (o1, h1)" using Inr by (cases x) simp
      then have r': "extract_single_lead_interpolations ds rd store_path lead cs None = Inr (o1, None)" and inv: "true_history ds rd store_path h1"
        using s by (auto simp: same_answer_def split: sum.splits)
      have IH: "bindE (select_and_interpolate_batch ds rd store_path reqs h1) (\<lambda>(r, h). Inr r) =
          mapE (\<lambda>(lead, cs). bindE (extract_single_lead_interpolations ds rd store_path lead cs None) (\<lambda>(out, h). Inr (lead, out)))
            (filter (\<lambda>(lead, cs). cs \<noteq> []) reqs)"
        using Cons.IH [OF inv Cons.prems(2)] Cons.prems(3) by simp
      show ?thesis using False
        by (cases "select_and_interpolate_batch ds rd store_path reqs h1") (auto simp: q r r' IH [symmetric])
    qed
  qed
qed simp

text \<open>C32: Remembering the precipitation of earlier leads never changes an answer: a batch over leads the store has, started with an
  empty history, answers every lead as that lead alone would be answered without any history, and fails exactly when the first of them fails.\<close>

theorem precipitation_history_transparent:
  assumes "pd_leads ds = Some leads" "fst ` set reqs \<subseteq> set leads"
  shows "bindE (select_and_interpolate_batch ds rd store_path reqs (Some Map.empty)) (\<lambda>(r, h). Inr r) =
    mapE (\<lambda>(lead, cs). bindE (extract_single_lead_interpolations ds rd store_path lead cs None) (\<lambda>(out, h). Inr (lead, out)))
      (filter (\<lambda>(lead, cs). cs \<noteq> []) reqs)"
  by (rule batch_same [OF _ assms]) (simp add: true_history_def)

text \<open>Two leads of a sharded ensemble, the second one classified with the first.\<close>

definition rain_store :: point_dataset where
  "rain_store = \<lparr>pd_vars = [PRECIP, ''crain''], pd_ensemble = True, pd_leads = Some [3, 6], pd_sharded = True\<rparr>"

definition rain_reads :: point_reads where
  "rain_reads = \<lparr>pr_value = (\<lambda>v lead m. Inr (if v = PRECIP then Fin (of_int lead) else Fin 1)), pr_has_mean = (\<lambda>v lead. v = PRECIP), pr_ndim = (\<lambda>v. 3)\<rparr>"

lemma precipitation_history_transparent_witness:
  "bindE (select_and_interpolate_batch rain_store rain_reads ''s'' [(3, [PRECIP]), (6, [PRECIP])] (Some Map.empty)) (\<lambda>(r, h). Inr r) =
    mapE (\<lambda>(lead, cs). bindE (extract_single_lead_interpolations rain_store rain_reads ''s'' lead cs None) (\<lambda>(out, h). Inr (lead, out)))
      [(3, [PRECIP]), (6, [PRECIP])]"
  using precipitation_history_transparent [where ds = rain_store and rd = rain_reads and store_path = "''s''" and
      leads = "[3, 6]" and reqs = "[(3, [PRECIP]), (6, [PRECIP])]"]
  by (simp add: rain_store_def)

subsection \<open>A mean shard that is missing\<close>

lemma read_flags_keeps:
  "read_flags reuse value vars codes fl out = Inr (fl', o1) \<Longrightarrow> out f \<noteq> None \<or> f \<in> set codes \<inter> set vars \<Longrightarrow> o1 f \<noteq> None"
  by (induction codes arbitrary: fl out) (auto simp: bindE_eq_Inr split: if_splits)

lemma classified_flag:
  assumes "classify_lead ds rd var_codes store_path lead amt out hist = Inr (o1, h1)" "f \<in> set FLAG_CODES" "f \<in> set (pd_vars ds)"
  shows "o1 f \<noteq> None"
proof -
  from assms(1) obtain fl o2 t o3 st where
    r: "read_flags (reads_mean ds) (lead_value ds rd lead) (pd_vars ds) FLAG_CODES [] out = Inr (fl, o2)"
    and t: "read_t2m ds (lead_value ds rd lead) var_codes o2 = Inr (t, o3)" and o1: "o1 = put_phase st o3"
    by (auto simp: classify_lead_def bindE_eq_Inr)
  have "o2 f \<noteq> None" using read_flags_keeps [OF r] assms(2,3) by blast
  then have "o3 f \<noteq> None" using t by (auto simp: read_t2m_def bindE_eq_Inr split: if_splits option.splits bool.splits)
  then show ?thesis by (simp add: o1 put_phase_def)
qed

text \<open>C33: A flag variable whose mean shard is missing fails the lead when it is asked for before the precipitation, and is answered without
  a look at the shard when it is asked for after it: the outcome is that of the precipitation alone, and whenever that has an answer, the
  answer has a value for the flag, which the classification put there.\<close>

theorem missing_flag_shard_depends_on_order:
  assumes "reads_mean ds" "f \<in> set FLAG_CODES" "f \<in> set (pd_vars ds)" "\<not> pr_has_mean rd f lead"
  shows "extract_single_lead_interpolations ds rd store_path lead [f, PRECIP] hist = Inl FileNotFoundError \<and>
    extract_single_lead_interpolations ds rd store_path lead [PRECIP, f] hist = extract_single_lead_interpolations ds rd store_path lead [PRECIP] hist \<and>
    (\<forall>out h. extract_single_lead_interpolations ds rd store_path lead [PRECIP] hist = Inr (out, h) \<longrightarrow>
      extract_single_lead_interpolations ds rd store_path lead [PRECIP, f] hist = Inr (out, h) \<and> out f \<noteq> None)"
proof (intro conjI)
  have f: "f \<noteq> ''wind_10m''" "f \<noteq> PRECIP" "f \<noteq> T2M" "PRECIP \<noteq> ''wind_10m''" "T2M \<noteq> PRECIP"
    using assms(2) by (auto simp: FLAG_CODES_def PRECIP_def T2M_def)
  have m: "pd_sharded ds" "pd_ensemble ds" using assms(1) by (simp_all add: reads_mean_def)
  show "extract_single_lead_interpolations ds rd store_path lead [f, PRECIP] hist = Inl FileNotFoundError"
    using f m assms(3,4) by (simp add: extract_single_lead_interpolations_def extract_variable_def extract_plain_def require_def)
  have mem: "(T2M \<in> set [PRECIP, f]) = (T2M \<in> set [PRECIP])" using f by auto
  have t2m: "read_t2m ds v [PRECIP, f] out1 = read_t2m ds v [PRECIP] out1" for v out1 unfolding read_t2m_def mem by (rule refl)
  have codes: "extract_precipitation ds rd [PRECIP, f] store_path lead x = extract_precipitation ds rd [PRECIP] store_path lead x" for x
    unfolding extract_precipitation_def classify_lead_def t2m by (rule refl)
  have has: "o1 f \<noteq> None" if e: "extract_precipitation ds rd [PRECIP] store_path lead x = Inr (o1, h1)" for x o1 h1
  proof -
    obtain amt out0 hist0 where c: "classify_lead ds rd [PRECIP] store_path lead amt out0 hist0 = Inr (o1, h1)"
      using e by (cases x) (auto simp: extract_precipitation_def bindE_eq_Inr)
    show ?thesis by (rule classified_flag [OF c assms(2,3)])
  qed
  have after: "extract_variable ds rd [PRECIP, f] store_path lead f (o1, h1) = Inr (o1, h1)"
    if "extract_precipitation ds rd [PRECIP] store_path lead x = Inr (o1, h1)" for x o1 h1
    using has [OF that] f m by (simp add: extract_variable_def extract_plain_def)
  have fold: "extract_single_lead_interpolations ds rd store_path lead [PRECIP] hist = extract_precipitation ds rd [PRECIP] store_path lead (Map.empty, hist)"
    using f by (cases "extract_precipitation ds rd [PRECIP] store_path lead (Map.empty, hist)")
      (auto simp: extract_single_lead_interpolations_def extract_variable_def)
  have fold2: "extract_single_lead_interpolations ds rd store_path lead [PRECIP, f] hist =
      bindE (extract_precipitation ds rd [PRECIP] store_path lead (Map.empty, hist)) (\<lambda>y. extract_variable ds rd [PRECIP, f] store_path lead f y)"
    using f codes by (cases "extract_precipitation ds rd [PRECIP] store_path lead (Map.empty, hist)")
      (auto simp: extract_single_lead_interpolations_def extract_variable_def [of _ _ _ _ _ PRECIP] bindE_def split: sum.splits)
  show same: "extract_single_lead_interpolations ds rd store_path lead [PRECIP, f] hist = extract_single_lead_interpolations ds rd store_path lead [PRECIP] hist"
    unfolding fold fold2
    by (cases "extract_precipitation ds rd [PRECIP] store_path lead (Map.empty, hist)") (auto simp: after)
  show "\<forall>out h. extract_single_lead_interpolations ds rd store_path lead [PRECIP] hist = Inr (out, h) \<longrightarrow>
      extract_single_lead_interpolations ds rd store_path lead [PRECIP, f] hist = Inr (out, h) \<and> out f \<noteq> None"
    unfolding same fold using has by blast
qed

lemma rain_answer:
  "\<exists>out h. extract_single_lead_interpolations rain_store rain_reads ''s'' 3 [PRECIP] None = Inr (out, h) \<and> out PRECIP \<noteq> None"
proof -
  let ?o = "[PRECIP \<mapsto> OutFloat (Fin 3), ''crain'' \<mapsto> OutFloat (Fin 1)]"
  obtain st where st: "classify_precipitation_phase (Some (Fin 3)) (flags_or_none [(''crain'', 1)]) None None None None TRACE_THRESHOLD_MM = Inr st"
    using classified_state by blast
  have v: "lead_value rain_store rain_reads 3 PRECIP = Inr (Fin 3)" "lead_value rain_store rain_reads 3 ''crain'' = Inr (Fin 1)"
    "reads_mean rain_store" "pr_has_mean rain_reads PRECIP 3" "PRECIP \<in> set (pd_vars rain_store)"
    by (simp_all add: rain_store_def rain_reads_def reads_mean_def lead_value_def PRECIP_def)
  then have f: "read_flags True (lead_value rain_store rain_reads 3) (pd_vars rain_store) FLAG_CODES [] [PRECIP \<mapsto> OutFloat (Fin 3)] = Inr ([(''crain'', 1)], ?o)"
    by (simp add: rain_store_def FLAG_CODES_def PRECIP_def flag_of_def)
  have t: "read_t2m rain_store g [PRECIP] o1 = Inr (None, o1)" for g o1 by (simp add: read_t2m_def rain_store_def PRECIP_def T2M_def)
  have p: "previous_evidence rain_store rain_reads None ''s'' 3 = Inr (None, None, None)" by (simp add: previous_evidence_def)
  have "classify_lead rain_store rain_reads [PRECIP] ''s'' 3 (Fin 3) [PRECIP \<mapsto> OutFloat (Fin 3)] None = Inr (put_phase st ?o, None)"
    by (simp add: classify_lead_def f v t p st)
  then have "extract_single_lead_interpolations rain_store rain_reads ''s'' 3 [PRECIP] None = Inr (put_phase st ?o, None)"
    by (simp add: extract_single_lead_interpolations_def extract_variable_def extract_precipitation_def require_def v) (simp add: PRECIP_def)
  moreover have "put_phase st ?o PRECIP \<noteq> None" by (simp add: put_phase_def PRECIP_def)
  ultimately show ?thesis by blast
qed

lemma missing_flag_shard_depends_on_order_witness:
  "extract_single_lead_interpolations rain_store rain_reads ''s'' 3 [''crain'', PRECIP] None = Inl FileNotFoundError \<and>
   (\<exists>out h. extract_single_lead_interpolations rain_store rain_reads ''s'' 3 [PRECIP, ''crain''] None = Inr (out, h) \<and>
     out PRECIP \<noteq> None \<and> out ''crain'' \<noteq> None)"
proof -
  obtain out h where o: "extract_single_lead_interpolations rain_store rain_reads ''s'' 3 [PRECIP] None = Inr (out, h)" "out PRECIP \<noteq> None"
    using rain_answer by blast
  have "reads_mean rain_store" "''crain'' \<in> set FLAG_CODES" "''crain'' \<in> set (pd_vars rain_store)" "\<not> pr_has_mean rain_reads ''crain'' 3"
    by (simp_all add: rain_store_def rain_reads_def reads_mean_def FLAG_CODES_def PRECIP_def)
  from missing_flag_shard_depends_on_order [OF this, of "''s''" None] o show ?thesis by blast
qed

subsection \<open>A gate that times out\<close>

text \<open>The gated read reports a timeout of the gate as a missing file, so the handler of the batch that would raise it never sees one:
  the store has no answer, where the same error raised to the batch itself would be raised on.\<close>

lemma gate_timeout_reads_as_missing:
  "batch_answer (gated_dataset_result (Inl ReaderGateTimeout)) = Inr None" "batch_answer (Inl ReaderGateTimeout) = Inl ReaderGateTimeout"
  by (simp_all add: batch_answer_def gated_dataset_result_def error_class_def ReaderGateTimeout_def FileNotFoundError_def)

end
