(* ===== verification/WindEnsemble.thy ===== *)
theory WindEnsemble
  imports Wind
begin

text \<open>
  What the wind derivations guarantee: a direction and a speed are the vector, labels name the nearest sector, the coherence is the
  ratio of the consensus speed to the mean speed, the wind rose partitions the ensemble and the directional probabilities are its
  shares.
\<close>

subsection \<open>Direction\<close>

lemma radians_degrees: "degrees r * pi / 180 = r"
  by (simp add: degrees_def)

lemma sin_cos_shift: "sin (x - of_int k * (2 * pi)) = sin x" "cos (x - of_int k * (2 * pi)) = cos x"
  using sin_int_2pin [of k] cos_int_2pin [of k] by (simp_all add: sin_diff cos_diff mult.commute mult.left_commute)

lemma direction_degrees_polar:
  "u = - hypot u v * sin (direction_degrees u v * pi / 180)" "v = - hypot u v * cos (direction_degrees u v * pi / 180)"
proof -
  let ?z = "Complex (- v) (- u)" and ?k = "\<lfloor>degrees (Arg (Complex (- v) (- u))) / 360\<rfloor>"
  have d: "direction_degrees u v * pi / 180 = Arg ?z - of_int ?k * (2 * pi)"
    using radians_degrees [of "Arg ?z"] by (simp add: direction_degrees_def float_mod_def atan2_def diff_divide_distrib left_diff_distrib)
  have n: "cmod ?z = hypot u v" by (simp add: cmod_def hypot_def power2_eq_square add.commute)
  have "rcis (cmod ?z) (Arg ?z) = ?z" by (rule rcis_cmod_Arg)
  then have "hypot u v * cos (Arg ?z) = - v" "hypot u v * sin (Arg ?z) = - u"
    unfolding n by (simp_all add: complex_eq_iff)
  then show "u = - hypot u v * sin (direction_degrees u v * pi / 180)" "v = - hypot u v * cos (direction_degrees u v * pi / 180)"
    unfolding d sin_cos_shift by simp_all
qed

lemma direction_degrees_range: "0 \<le> direction_degrees u v" "direction_degrees u v < 360"
  using float_mod_bounds [of 360] by (simp_all add: direction_degrees_def)

text \<open>The meteorological direction lies in [0, 360) and, with the speed, gives the wind back: the wind blows from that azimuth,
  counted clockwise from north. No direction is given exactly below the calm threshold and for values that are not finite.\<close>

theorem direction_determines_vector:
  "case derive_meteorological_direction u v thr of
     Some d \<Rightarrow> \<exists>a b. u = Fin a \<and> v = Fin b \<and> thr \<le> hypot a b \<and> 0 \<le> d \<and> d < 360 \<and>
        a = - hypot a b * sin (d * pi / 180) \<and> b = - hypot a b * cos (d * pi / 180)
   | None \<Rightarrow> \<not> (\<exists>a b. u = Fin a \<and> v = Fin b \<and> thr \<le> hypot a b)"
proof (cases "\<exists>a b. u = Fin a \<and> v = Fin b \<and> thr \<le> hypot a b")
  case True
  then obtain a b where v: "u = Fin a" "v = Fin b" "thr \<le> hypot a b" by blast
  with direction_degrees_polar(1) [of a b] direction_degrees_polar(2) [where u = a and v = b] direction_degrees_range [of a b] show ?thesis
    by (simp add: derive_meteorological_direction_def not_less)
next
  case False
  then show ?thesis by (auto simp: derive_meteorological_direction_def not_le split: pyfloat.splits)
qed

lemma nearest_sector:
  fixes d w :: real
  assumes "0 < w" "0 < n" "w * real n = 360"
  shows "sector_index d w (int n) < n" "\<exists>m::int. \<bar>d - w * real (sector_index d w (int n)) - 360 * of_int m\<bar> \<le> w / 2"
proof -
  let ?f = "\<lfloor>(d + w / 2) / w\<rfloor>"
  have i: "int (sector_index d w (int n)) = ?f mod int n" using assms by (simp add: sector_index_def)
  then show "sector_index d w (int n) < n" using assms(2) by (metis of_nat_0_less_iff of_nat_less_iff pos_mod_bound)
  have f: "w * of_int ?f \<le> d + w / 2" "d + w / 2 < w * (of_int ?f + 1)"
    using floor_divide_lower [OF assms(1), of "d + w / 2"] floor_divide_upper [OF assms(1), of "d + w / 2"]
    by (simp_all add: mult.commute)
  have "real (sector_index d w (int n)) = of_int ?f - real n * of_int (?f div int n)"
    using i by (metis minus_mult_div_eq_mod of_int_diff of_int_mult of_int_of_nat_eq)
  then have "w * real (sector_index d w (int n)) + 360 * of_int (?f div int n) = w * of_int ?f"
    by (simp only: assms(3) [symmetric]) (simp add: algebra_simps)
  with f have "\<bar>d - w * real (sector_index d w (int n)) - 360 * of_int (?f div int n)\<bar> \<le> w / 2"
    by (simp only: abs_le_iff distrib_left mult_1_right) linarith
  then show "\<exists>m::int. \<bar>d - w * real (sector_index d w (int n)) - 360 * of_int m\<bar> \<le> w / 2" ..
qed

text \<open>A compass label names the nearest of the 8 or 16 sectors: the direction lies within half a sector of the middle of the
  labelled one, around the circle.\<close>

theorem cardinal_label_is_nearest:
  assumes "get_cardinal_direction (Some (Fin d)) sectors = Inr label"
  shows "\<exists>k names. label = Some (names ! k) \<and> (sectors = 8 \<and> names = CARDINAL_DIRECTIONS_8 \<or> sectors = 16 \<and> names = CARDINAL_DIRECTIONS_16) \<and>
    k < length names \<and> (\<exists>m::int. \<bar>d - 360 / of_int sectors * real k - 360 * of_int m\<bar> \<le> 180 / of_int sectors)"
proof -
  let ?d = "float_mod d 360"
  have shift: "\<exists>m::int. \<bar>d - x - 360 * of_int m\<bar> \<le> h" if "\<exists>m::int. \<bar>?d - x - 360 * of_int m\<bar> \<le> h" for x h
  proof -
    from that obtain m :: int where "\<bar>?d - x - 360 * of_int m\<bar> \<le> h" by blast
    then have "\<bar>d - x - 360 * of_int (m + \<lfloor>d / 360\<rfloor>)\<bar> \<le> h" by (simp add: float_mod_def algebra_simps)
    then show ?thesis ..
  qed
  from assms consider (eight) "sectors = 8" "label = Some (CARDINAL_DIRECTIONS_8 ! sector_index ?d 45 8)"
    | (sixteen) "sectors = 16" "label = Some (CARDINAL_DIRECTIONS_16 ! sector_index ?d (45 / 2) 16)"
    by (auto simp: get_cardinal_direction_def Let_def split: if_splits)
  then show ?thesis
  proof cases
    case eight
    with nearest_sector [of 45 8 ?d] shift [of "45 * real (sector_index ?d 45 8)" "45 / 2"] show ?thesis
      by (intro exI [of _ "sector_index ?d 45 8"] exI [of _ CARDINAL_DIRECTIONS_8]) (simp add: CARDINAL_DIRECTIONS_8_def)
  next
    case sixteen
    with nearest_sector [of "45 / 2" 16 ?d] shift [of "45 / 2 * real (sector_index ?d (45 / 2) 16)" "45 / 4"] show ?thesis
      by (intro exI [of _ "sector_index ?d (45 / 2) 16"] exI [of _ CARDINAL_DIRECTIONS_16]) (simp add: CARDINAL_DIRECTIONS_16_def)
  qed
qed

lemma cardinal_label_is_nearest_witness:
  "get_cardinal_direction (Some (Fin 350)) 8 = Inr (Some ''N'') \<and> (\<exists>k names. ''N'' = names ! k \<and> k < length (names :: string list))"
proof -
  have "get_cardinal_direction (Some (Fin 350)) 8 = Inr (Some ''N'')"
    by (simp add: get_cardinal_direction_def float_mod_def sector_index_def CARDINAL_DIRECTIONS_8_def)
  with cardinal_label_is_nearest [OF this] show ?thesis by blast
qed

subsection \<open>Coherence\<close>

lemma hypot_norm: "hypot u v = cmod (Complex u v)"
  by (simp add: hypot_def cmod_def power2_eq_square)

lemma hypot_nonneg [simp]: "0 \<le> hypot u v" by (simp add: hypot_def add_nonneg_nonneg)

lemma hypot_sum_le:
  "length us = length vs \<Longrightarrow> hypot (sum_list us) (sum_list vs) \<le> sum_list (map2 hypot us vs)"
proof (induction us vs rule: list_induct2)
  case Nil
  then show ?case by (simp add: hypot_def)
next
  case (Cons u us v vs)
  have "hypot (u + sum_list us) (v + sum_list vs) \<le> hypot u v + hypot (sum_list us) (sum_list vs)"
    unfolding hypot_norm by (metis complex_add norm_triangle_ineq)
  with Cons.IH show ?case by simp
qed

lemma hypot_scale: "0 < c \<Longrightarrow> hypot (x / c) (y / c) = hypot x y / c"
proof -
  assume c: "0 < c"
  have "x / c * (x / c) + y / c * (y / c) = (x * x + y * y) / (c * c)" by (simp add: add_divide_distrib)
  then have "hypot (x / c) (y / c) = sqrt (x * x + y * y) / sqrt (c * c)" by (simp add: hypot_def real_sqrt_divide)
  then show ?thesis using c by (simp add: hypot_def)
qed

lemma finite_members_Inr: "finite_members xs = Inr rs \<longleftrightarrow> xs = map Fin rs"
proof (induction xs arbitrary: rs)
  case (Cons x xs)
  then show ?case
    by (cases x) (auto simp: finite_members_def finite_or_def bindE_eq_Inr)
qed (auto simp: finite_members_def)

lemma validate_members_Inr:
  "validate_members u v = Inr (us, vs) \<longleftrightarrow> us \<noteq> [] \<and> length us = length vs \<and> u = map Fin us \<and> v = map Fin vs"
  by (auto simp: validate_members_def finite_members_Inr bindE_eq_Inr split: if_splits)

text \<open>The coherence of an ensemble lies in the unit interval and is the ratio of the consensus speed to the mean member speed;
  clamping never alters it.\<close>

theorem coherence_is_speed_ratio:
  assumes "compute_consensus_vector np (map Fin us) (map Fin vs) thr = Inr cv" "numpy_ok np"
  shows "0 \<le> cv_coherence cv \<and> cv_coherence cv \<le> 1 \<and>
    cv_speed_mps cv = cv_coherence cv * (sum_list (map2 hypot us vs) / real (length us)) \<and>
    cv_speed_mps cv = hypot (sum_list us / real (length us)) (sum_list vs / real (length vs))"
proof -
  from assms(1) obtain us' vs' where v: "validate_members (map Fin us) (map Fin vs) = Inr (us', vs')"
    by (auto simp: compute_consensus_vector_def bindE_eq_Inr)
  have "inj Fin" by (simp add: inj_def)
  with v have us: "us \<noteq> []" "length us = length vs" "us' = us" "vs' = vs" using inj_map_eq_map [OF \<open>inj Fin\<close>] by (simp_all add: validate_members_Inr)
  let ?n = "real (length us)" and ?s = "sum_list (map2 hypot us vs)"
  have n: "0 < ?n" using us(1) by simp
  have "vs \<noteq> []" using us(1,2) by (cases vs) simp_all
  with us have np: "np_mean np us = sum_list us / ?n" "np_mean np vs = sum_list vs / ?n" "np_hypot np = hypot" "\<And>xs. np_sum np xs = sum_list xs"
    using assms(2) us by (auto simp: numpy_ok_def fun_eq_iff)
  define sp where "sp = hypot (sum_list us / ?n) (sum_list vs / ?n)"
  have cv: "cv_speed_mps cv = sp" "cv_coherence cv = min 1 (max 0 (if 0 < ?s then sp / (?s / ?n) else 0))"
    using assms(1) v us by (auto simp: compute_consensus_vector_def np sp_def bindE_eq_Inr Let_def)
  have le: "sp * ?n \<le> ?s" "0 \<le> sp" using hypot_sum_le [OF us(2)] n by (simp_all add: sp_def hypot_scale)
  show ?thesis
  proof (cases "0 < ?s")
    case True
    with le n have "sp / (?s / ?n) \<le> 1" "0 \<le> sp / (?s / ?n)" by (simp_all add: field_simps)
    with True have "cv_coherence cv = sp / (?s / ?n)" by (simp add: cv)
    with True n \<open>sp / (?s / ?n) \<le> 1\<close> \<open>0 \<le> sp / (?s / ?n)\<close> cv(1) us(2) show ?thesis by (simp add: sp_def)
  next
    case False
    have "0 \<le> ?s" by (rule sum_list_nonneg) (auto simp: set_zip)
    with False have "?s = 0" by simp
    moreover have "sp = 0" using le n \<open>?s = 0\<close> by (simp add: mult_le_0_iff)
    ultimately show ?thesis using cv us(2) by (simp add: sp_def)
  qed
qed


definition ideal_numpy :: numpy where
  "ideal_numpy = \<lparr>np_hypot = hypot, np_mean = (\<lambda>xs. sum_list xs / real (length xs)), np_sum = sum_list\<rparr>"

lemma ideal_numpy_ok: "numpy_ok ideal_numpy"
  by (simp add: numpy_ok_def ideal_numpy_def)

text \<open>Two opposite winds: fully incoherent\<close>

lemma coherence_is_speed_ratio_witness:
  "\<exists>cv. compute_consensus_vector ideal_numpy (map Fin [3, - 3]) (map Fin [4, - 4]) CALM_WIND_THRESHOLD_MPS = Inr cv \<and>
     cv_coherence cv = 0 \<and> cv_speed_mps cv = cv_coherence cv * 5"
proof -
  have "sqrt 25 = 5" by (rule real_sqrt_unique) simp_all
  then have h: "hypot 3 4 = 5" "hypot (- 3) (- 4) = 5" "hypot 0 0 = 0" by (simp_all add: hypot_def)
  have v: "validate_members (map Fin [3, - 3]) (map Fin [4, - 4]) = Inr ([3, - 3], [4, - 4])" by (simp only: validate_members_Inr) simp
  obtain cv where cv: "compute_consensus_vector ideal_numpy (map Fin [3, - 3]) (map Fin [4, - 4]) CALM_WIND_THRESHOLD_MPS = Inr cv"
    "cv_coherence cv = 0"
    using v by (simp add: compute_consensus_vector_def ideal_numpy_def derive_meteorological_direction_def h CALM_WIND_THRESHOLD_MPS_def
        get_cardinal_direction_def Let_def)
  from coherence_is_speed_ratio [OF cv(1) ideal_numpy_ok] cv h show ?thesis by simp
qed

text \<open>The mean member speed is at least the speed of the mean vector.\<close>

theorem mean_speed_at_least_vector_speed:
  assumes "numpy_ok np" "us \<noteq> []" "length us = length vs"
  shows "(case derive_ensemble_mean_vector np us vs of (mean_u, mean_v) \<Rightarrow> hypot mean_u mean_v) \<le> derive_ensemble_mean_scalar_speed np us vs"
proof -
  have n: "0 < real (length us)" "vs \<noteq> []" "map2 hypot us vs \<noteq> []" using assms(2,3) by (auto simp: zip_eq_Nil_iff)
  have np: "np_mean np xs = sum_list xs / real (length xs)" if "xs \<noteq> []" for xs using assms(1) that by (simp add: numpy_ok_def)
  have "np_hypot np = hypot" using assms(1) by (simp add: numpy_ok_def fun_eq_iff)
  then show ?thesis using hypot_sum_le [OF assms(3)] n assms(2,3)
    by (simp add: derive_ensemble_mean_vector_def derive_ensemble_mean_scalar_speed_def np hypot_scale divide_right_mono)
qed

lemma mean_speed_at_least_vector_speed_witness:
  "(case derive_ensemble_mean_vector ideal_numpy [3, - 3] [4, - 4] of (mean_u, mean_v) \<Rightarrow> hypot mean_u mean_v) \<le>
    derive_ensemble_mean_scalar_speed ideal_numpy [3, - 3] [4, - 4]"
  by (rule mean_speed_at_least_vector_speed [OF ideal_numpy_ok]) simp_all

text \<open>The vectorised direction is the scalar one, element by element, with NaN where the scalar one answers \<open>None\<close>.\<close>

lemma array_direction_is_scalar_direction:
  assumes "numpy_trig_ok np"
  shows "derive_meteorological_direction_array np us vs thr = map2 (\<lambda>u v. case derive_meteorological_direction u v thr of Some d \<Rightarrow> Fin d | None \<Rightarrow> NaN) us vs"
  using assms by (auto simp: derive_meteorological_direction_array_def derive_meteorological_direction_def numpy_trig_ok_def direction_degrees_def
      split: pyfloat.splits)

subsection \<open>The wind rose\<close>

lemma sector_index_lt: "sector_index (direction_degrees u v) 45 8 < 8"
  using nearest_sector(1) [of 45 8] by simp

lemma member_sector_mem: "member_sector u v \<in> set CARDINAL_DIRECTIONS_8"
  unfolding member_sector_def by (rule nth_mem) (use sector_index_lt [of u v] in \<open>simp add: CARDINAL_DIRECTIONS_8_def\<close>)

lemma distinct_cardinals: "distinct CARDINAL_DIRECTIONS_8" "length CARDINAL_DIRECTIONS_8 = 8"
  by (simp_all add: CARDINAL_DIRECTIONS_8_def)

text \<open>The members of a sector\<close>

definition from_sector :: "real \<Rightarrow> string \<Rightarrow> real \<times> real \<times> real \<Rightarrow> bool" where
  "from_sector thr s = (\<lambda>(u, v, spd). thr \<le> spd \<and> member_sector u v = s)"

lemma count_length_filter: "length (filter P (x # xs)) = (if P x then Suc (length (filter P xs)) else length (filter P xs))"
  by simp

lemma rose_fold:
  "rc_calm (fold (count_member thr) ms st) = rc_calm st + length (filter (\<lambda>(u, v, spd). spd < thr) ms)"
  "rc_sector (fold (count_member thr) ms st) s = rc_sector st s + length (filter (from_sector thr s) ms)"
  "rc_bin (fold (count_member thr) ms st) s b = rc_bin st s b +
     length (filter (\<lambda>m. from_sector thr s m \<and> map_option fst (find (in_bin (snd (snd m))) WIND_ROSE_SPEED_BINS_MPS) = Some b) ms)"
  by (induction ms arbitrary: st)
    (auto simp: count_member_def from_sector_def Let_def split: option.splits prod.splits)

lemma speed_bins_cover:
  assumes "1 / 2 \<le> spd" shows "\<exists>b \<in> set WIND_ROSE_SPEED_BINS_MPS. find (in_bin spd) WIND_ROSE_SPEED_BINS_MPS = Some b"
  using assms by (auto simp: WIND_ROSE_SPEED_BINS_MPS_def in_bin_def f_lt_def)

lemma one_class: "distinct cs \<Longrightarrow> sum_list (map (\<lambda>c. if y = c then 1 else 0) cs) = (if y \<in> set cs then 1 else (0::nat))"
  by (induction cs) auto

lemma length_filter_classes:
  assumes "distinct cs" "\<And>x. x \<in> set xs \<Longrightarrow> P x \<Longrightarrow> f x \<in> set cs"
  shows "sum_list (map (\<lambda>c. length (filter (\<lambda>x. P x \<and> f x = c) xs)) cs) = length (filter P xs)"
  using assms(2)
proof (induction xs)
  case (Cons x xs)
  have "sum_list (map (\<lambda>c. length (filter (\<lambda>y. P y \<and> f y = c) (x # xs))) cs) =
      sum_list (map (\<lambda>c. (if P x \<and> f x = c then 1 else 0) + length (filter (\<lambda>y. P y \<and> f y = c) xs)) cs)"
    by (intro arg_cong [of _ _ sum_list] map_cong) auto
  also have "\<dots> = sum_list (map (\<lambda>c. if P x \<and> f x = c then 1 else 0) cs) + length (filter P xs)"
    using Cons by (simp add: sum_list_addf)
  also have "sum_list (map (\<lambda>c. if P x \<and> f x = c then 1 else 0) cs) = (if P x then 1 else (0::nat))"
    using Cons.prems [of x] one_class [OF assms(1), of "f x"] by (cases "P x") simp_all
  finally show ?case by simp
qed simp

lemma with_speeds_ideal:
  assumes "numpy_ok np" "length us = length vs"
  shows "with_speeds np us vs = map (\<lambda>(u, v). (u, v, hypot u v)) (zip us vs)"
proof -
  have "np_hypot np = hypot" using assms(1) by (simp add: numpy_ok_def fun_eq_iff)
  with assms(2) show ?thesis
    by (intro nth_equalityI) (simp_all add: with_speeds_def)
qed

text \<open>The wind rose partitions the ensemble: calm members and the eight sectors add up to all members and their probabilities to
  one, each sector counts the members that blow from it at or above the calm threshold, and for a threshold of at least the lowest
  bin the speed bins of a sector add up to it.\<close>

theorem wind_rose_partitions:
  assumes "compute_wind_rose np (map Fin us) (map Fin vs) thr = Inr wr" "numpy_ok np"
  shows "wr_calm_count wr + sum_list (map ws_count (wr_sectors wr)) = wr_member_count wr \<and> wr_member_count wr = length us \<and>
    wr_calm_probability wr + sum_list (map ws_probability (wr_sectors wr)) = 1 \<and>
    map ws_sector (wr_sectors wr) = CARDINAL_DIRECTIONS_8 \<and>
    (\<forall>sec \<in> set (wr_sectors wr). ws_count sec = length (filter (\<lambda>(u, v). thr \<le> hypot u v \<and> member_sector u v = ws_sector sec) (zip us vs)) \<and>
       (1 / 2 \<le> thr \<longrightarrow> sum_list (map snd (ws_bin_counts sec)) = ws_count sec))"
proof -
  from assms(1) obtain us' vs' where v: "validate_members (map Fin us) (map Fin vs) = Inr (us', vs')"
    by (auto simp: compute_wind_rose_def bindE_eq_Inr)
  have inj: "inj Fin" by (simp add: inj_def)
  with v have us: "us \<noteq> []" "length us = length vs" "us' = us" "vs' = vs"
    using inj_map_eq_map [OF inj] by (simp_all add: validate_members_Inr)
  define ms where "ms = map (\<lambda>(u, v). (u, v, hypot u v)) (zip us vs)"
  have ms: "with_speeds np us vs = ms"
    unfolding ms_def by (rule with_speeds_ideal [OF assms(2) us(2)])
  define st where "st = fold (count_member thr) ms no_counts"
  let ?n = "length us"
  have wr: "wr = \<lparr>wr_member_count = ?n, wr_calm_count = rc_calm st, wr_calm_probability = real (rc_calm st) / real ?n,
      wr_sectors = map (rose_sector ?n st) CARDINAL_DIRECTIONS_8\<rparr>"
    using assms(1) v us by (simp add: compute_wind_rose_def ms st_def Let_def)
  have n: "length ms = ?n" "0 < ?n" by (simp add: ms_def us(2)) (simp add: us(1))
  have calm: "rc_calm st = length (filter (\<lambda>m. \<not> thr \<le> snd (snd m)) ms)"
    unfolding st_def rose_fold by (simp add: no_counts_def case_prod_unfold not_le)
  have sec: "rc_sector st s = length (filter (from_sector thr s) ms)" for s
    unfolding st_def rose_fold by (simp add: no_counts_def)
  have "sum_list (map (rc_sector st) CARDINAL_DIRECTIONS_8) =
      sum_list (map (\<lambda>s. length (filter (\<lambda>m. thr \<le> snd (snd m) \<and> member_sector (fst m) (fst (snd m)) = s) ms)) CARDINAL_DIRECTIONS_8)"
    by (intro arg_cong [of _ _ sum_list] map_cong) (simp_all add: sec from_sector_def case_prod_unfold)
  also have "\<dots> = length (filter (\<lambda>m. thr \<le> snd (snd m)) ms)"
    by (rule length_filter_classes) (simp_all add: distinct_cardinals member_sector_mem)
  finally have total: "rc_calm st + sum_list (map (rc_sector st) CARDINAL_DIRECTIONS_8) = ?n"
    using sum_length_filter_compl [of "\<lambda>m. thr \<le> snd (snd m)" ms] by (simp add: calm n(1))
  have prob: "real (rc_calm st) / real ?n + sum_list (map (\<lambda>s. real (rc_sector st s) / real ?n) CARDINAL_DIRECTIONS_8) = 1"
  proof -
    have "sum_list (map (\<lambda>s. real (rc_sector st s) / real ?n) CARDINAL_DIRECTIONS_8) =
        real (sum_list (map (rc_sector st) CARDINAL_DIRECTIONS_8)) / real ?n"
      by (simp add: CARDINAL_DIRECTIONS_8_def add_divide_distrib)
    then have "real (rc_calm st) / real ?n + sum_list (map (\<lambda>s. real (rc_sector st s) / real ?n) CARDINAL_DIRECTIONS_8) =
        real (rc_calm st + sum_list (map (rc_sector st) CARDINAL_DIRECTIONS_8)) / real ?n" by (simp add: add_divide_distrib)
    then show ?thesis using n(2) unfolding total by simp
  qed
  have cnt: "rc_sector st s = length (filter (\<lambda>(u, v). thr \<le> hypot u v \<and> member_sector u v = s) (zip us vs))" for s
    unfolding sec ms_def by (simp add: filter_map comp_def from_sector_def case_prod_unfold)
  have bins: "sum_list (map snd (map (\<lambda>(name, _). (name, rc_bin st s name)) WIND_ROSE_SPEED_BINS_MPS)) = rc_sector st s" if "1 / 2 \<le> thr" for s
  proof -
    let ?f = "\<lambda>m. map_option fst (find (in_bin (snd (snd m))) WIND_ROSE_SPEED_BINS_MPS)"
    have "sum_list (map snd (map (\<lambda>(name, _). (name, rc_bin st s name)) WIND_ROSE_SPEED_BINS_MPS)) =
        sum_list (map (\<lambda>b. length (filter (\<lambda>m. from_sector thr s m \<and> ?f m = b) ms)) (map (Some \<circ> fst) WIND_ROSE_SPEED_BINS_MPS))"
      unfolding st_def rose_fold by (simp add: no_counts_def WIND_ROSE_SPEED_BINS_MPS_def)
    also have "\<dots> = length (filter (from_sector thr s) ms)"
    proof (rule length_filter_classes)
      show "distinct (map (Some \<circ> fst) WIND_ROSE_SPEED_BINS_MPS)" by (simp add: WIND_ROSE_SPEED_BINS_MPS_def)
    next
      fix m assume "from_sector thr s m"
      then have "1 / 2 \<le> snd (snd m)" using that by (auto simp: from_sector_def)
      from speed_bins_cover [OF this] show "?f m \<in> set (map (Some \<circ> fst) WIND_ROSE_SPEED_BINS_MPS)" by force
    qed
    finally show ?thesis by (simp add: sec)
  qed
  have "sum_list (map ws_count (wr_sectors wr)) = sum_list (map (rc_sector st) CARDINAL_DIRECTIONS_8)"
    "sum_list (map ws_probability (wr_sectors wr)) = sum_list (map (\<lambda>s. real (rc_sector st s) / real ?n) CARDINAL_DIRECTIONS_8)"
    "map ws_sector (wr_sectors wr) = CARDINAL_DIRECTIONS_8"
    by (simp_all add: wr rose_sector_def comp_def)
  moreover have "\<forall>sec \<in> set (wr_sectors wr). ws_count sec = length (filter (\<lambda>(u, v). thr \<le> hypot u v \<and> member_sector u v = ws_sector sec) (zip us vs)) \<and>
       (1 / 2 \<le> thr \<longrightarrow> sum_list (map snd (ws_bin_counts sec)) = ws_count sec)"
    using cnt bins by (auto simp: wr rose_sector_def)
  ultimately show ?thesis using total prob by (simp add: wr)
qed


lemma wind_rose_partitions_witness:
  "\<exists>wr. compute_wind_rose ideal_numpy (map Fin [3, 0]) (map Fin [4, 0]) CALM_WIND_THRESHOLD_MPS = Inr wr \<and>
     wr_calm_count wr + sum_list (map ws_count (wr_sectors wr)) = 2"
proof -
  have v: "validate_members (map Fin [3, 0]) (map Fin [4, 0]) = Inr ([3, 0], [4, 0])" by (simp only: validate_members_Inr) simp
  then obtain wr where wr: "compute_wind_rose ideal_numpy (map Fin [3, 0]) (map Fin [4, 0]) CALM_WIND_THRESHOLD_MPS = Inr wr"
    by (simp add: compute_wind_rose_def Let_def)
  from wind_rose_partitions [OF wr ideal_numpy_ok] wr show ?thesis by auto
qed

subsection \<open>Directional probabilities\<close>

lemma sector_position_iff:
  assumes "s \<in> set CARDINAL_DIRECTIONS_8"
  shows "sector_index (direction_degrees u v) 45 8 = sector_position s \<longleftrightarrow> member_sector u v = s"
proof -
  have l: "sector_position s < length CARDINAL_DIRECTIONS_8"
  proof (rule ccontr)
    assume "\<not> sector_position s < length CARDINAL_DIRECTIONS_8"
    then have "takeWhile (\<lambda>x. x \<noteq> s) CARDINAL_DIRECTIONS_8 = CARDINAL_DIRECTIONS_8"
      unfolding sector_position_def by (metis length_takeWhile_le le_antisym not_less takeWhile_eq_take take_all)
    then show False using assms by (auto simp: takeWhile_eq_all_conv)
  qed
  then have "CARDINAL_DIRECTIONS_8 ! sector_position s = s"
    unfolding sector_position_def using nth_length_takeWhile [of "\<lambda>x. x \<noteq> s" CARDINAL_DIRECTIONS_8] by simp
  then show ?thesis
    using nth_eq_iff_index_eq [OF distinct_cardinals(1) _ l] sector_index_lt [of u v] distinct_cardinals(2) by (auto simp: member_sector_def)
qed

lemma fold_match:
  assumes "s \<in> set CARDINAL_DIRECTIONS_8"
    and "\<And>m. m \<in> set ms \<Longrightarrow> from_sector thr s m \<Longrightarrow>
      (case t of None \<Rightarrow> Inr True | Some t' \<Rightarrow> speed_matches op (snd (snd m)) t') = Inr (P (snd (snd m)))"
  shows "foldE (match_member thr (sector_position s) t op) ms a =
    Inr (a + length (filter (\<lambda>m. from_sector thr s m \<and> P (snd (snd m))) ms))"
  using assms(2)
proof (induction ms arbitrary: a)
  case (Cons m ms)
  obtain u v spd where m: "m = (u, v, spd)" by (cases m) auto
  have "match_member thr (sector_position s) t op m a = Inr (if from_sector thr s m \<and> P spd then a + 1 else a)"
    using Cons.prems [of m] sector_position_iff [OF assms(1), of u v]
    by (cases t) (auto simp: m match_member_def from_sector_def not_less not_le)
  with Cons show ?case by (simp add: m)
qed simp

lemma directional_D:
  assumes "compute_directional_probability np u v sector t op thr = Inr (p, ci)"
  obtains us vs matched where "py_upper (py_strip sector) \<in> set CARDINAL_DIRECTIONS_8" "validate_members u v = Inr (us, vs)"
    "foldE (match_member thr (sector_position (py_upper (py_strip sector))) t op) (with_speeds np us vs) 0 = Inr matched"
    "p = real matched / real (length us)" "probability_confidence_interval (Fin p) (int (length us)) (95 / 100) = Inr ci"
  using assms by (auto simp: compute_directional_probability_def bindE_eq_Inr Let_def split: if_splits prod.splits)

text \<open>C34: Without a speed threshold a directional probability is the share of its sector in the wind rose of the same ensemble, and
  its confidence interval contains it.\<close>

theorem directional_probability_is_rose_share:
  assumes "compute_directional_probability np u v sector None op thr = Inr (p, lo, hi)"
  shows "\<exists>wr sec. compute_wind_rose np u v thr = Inr wr \<and> sec \<in> set (wr_sectors wr) \<and> ws_sector sec = py_upper (py_strip sector) \<and>
    p = ws_probability sec \<and> 0 \<le> lo \<and> lo \<le> p \<and> p \<le> hi \<and> hi \<le> 1"
proof -
  let ?s = "py_upper (py_strip sector)"
  obtain us vs matched where d: "?s \<in> set CARDINAL_DIRECTIONS_8" "validate_members u v = Inr (us, vs)"
    "foldE (match_member thr (sector_position ?s) None op) (with_speeds np us vs) 0 = Inr matched"
    "p = real matched / real (length us)" "probability_confidence_interval (Fin p) (int (length us)) (95 / 100) = Inr (lo, hi)"
    by (rule directional_D [OF assms]) blast
  let ?ms = "with_speeds np us vs"
  have m: "matched = length (filter (from_sector thr ?s) ?ms)"
    using d(3) fold_match [OF d(1), where ms = ?ms and thr = thr and t = None and P = "\<lambda>_. True" and a = 0 and op = op] by simp
  let ?st = "fold (count_member thr) ?ms no_counts"
  have c: "rc_sector ?st ?s = matched" unfolding rose_fold m by (simp add: no_counts_def)
  have us: "us \<noteq> []" "length us = length vs" using d(2) by (simp_all add: validate_members_Inr)
  have "matched \<le> length ?ms" unfolding m by (rule length_filter_le)
  then have p: "0 \<le> p" "p \<le> 1" "1 \<le> int (length us)" using us by (auto simp: d(4) with_speeds_def divide_le_eq Suc_le_eq)
  have ci: "0 \<le> lo \<and> lo \<le> p \<and> p \<le> hi \<and> hi \<le> 1" using confidence_interval_eq [OF p] d(5) by auto
  let ?wr = "\<lparr>wr_member_count = length us, wr_calm_count = rc_calm ?st, wr_calm_probability = real (rc_calm ?st) / real (length us),
      wr_sectors = map (rose_sector (length us) ?st) CARDINAL_DIRECTIONS_8\<rparr>"
  have "compute_wind_rose np u v thr = Inr ?wr" by (simp add: compute_wind_rose_def d(2) Let_def)
  moreover have "rose_sector (length us) ?st ?s \<in> set (wr_sectors ?wr)" using d(1) by simp
  moreover have "ws_sector (rose_sector (length us) ?st ?s) = ?s" "ws_probability (rose_sector (length us) ?st ?s) = p"
    by (simp_all add: rose_sector_def c d(4))
  ultimately show ?thesis using ci by (intro exI [of _ ?wr] exI [of _ "rose_sector (length us) ?st ?s"]) simp
qed

lemma directional_probability_is_rose_share_witness:
  "\<exists>p lo hi wr. compute_directional_probability ideal_numpy [Fin 3] [Fin 4] '' sw '' None ''gte'' CALM_WIND_THRESHOLD_MPS = Inr (p, lo, hi) \<and>
     compute_wind_rose ideal_numpy [Fin 3] [Fin 4] CALM_WIND_THRESHOLD_MPS = Inr wr \<and> lo \<le> p \<and> p \<le> hi"
proof -
  have s: "py_upper (py_strip '' sw '') = ''SW''" by code_simp
  have v: "validate_members [Fin 3] [Fin 4] = Inr ([3], [4])" using validate_members_Inr [of "[Fin 3]" "[Fin 4]" "[3]" "[4]"] by simp
  have sw: "''SW'' \<in> set CARDINAL_DIRECTIONS_8" by (simp add: CARDINAL_DIRECTIONS_8_def)
  let ?ms = "with_speeds ideal_numpy [3] [4]" and ?k = "\<lambda>ms. length (filter (from_sector CALM_WIND_THRESHOLD_MPS ''SW'') ms)"
  have f: "foldE (match_member CALM_WIND_THRESHOLD_MPS (sector_position ''SW'') None ''gte'') ?ms 0 = Inr (?k ?ms)"
    using fold_match [OF sw, where ms = ?ms and thr = CALM_WIND_THRESHOLD_MPS and t = None and P = "\<lambda>_. True" and a = 0 and op = "''gte''"] by simp
  have "?k ?ms \<le> length ?ms" by (rule length_filter_le)
  then have "real (?k ?ms) \<le> 1" by (simp add: with_speeds_def)
  then obtain lo hi where "probability_confidence_interval (Fin (real (?k ?ms))) 1 (95 / 100) = Inr (lo, hi)"
    using confidence_interval_eq [of "real (?k ?ms)" 1] by auto
  then have c: "compute_directional_probability ideal_numpy [Fin 3] [Fin 4] '' sw '' None ''gte'' CALM_WIND_THRESHOLD_MPS = Inr (real (?k ?ms), lo, hi)"
    by (simp add: compute_directional_probability_def s sw v f)
  from directional_probability_is_rose_share [OF c] c show ?thesis by blast
qed


text \<open>The probabilities of reaching and of staying below the same speed in a sector add up to the probability of the sector.\<close>

theorem joint_probabilities_split_sector:
  assumes "compute_directional_probability np u v sector (Some (Fin t)) ''gte'' thr = Inr (p1, c1)"
    and "compute_directional_probability np u v sector (Some (Fin t)) ''lt'' thr = Inr (p2, c2)"
    and "compute_directional_probability np u v sector None op thr = Inr (p, c)"
  shows "p = p1 + p2"
proof -
  let ?s = "py_upper (py_strip sector)"
  obtain us vs m1 where a: "?s \<in> set CARDINAL_DIRECTIONS_8" "validate_members u v = Inr (us, vs)"
    "foldE (match_member thr (sector_position ?s) (Some (Fin t)) ''gte'') (with_speeds np us vs) 0 = Inr m1" "p1 = real m1 / real (length us)"
    by (rule directional_D [OF assms(1)]) blast
  obtain m2 where b: "foldE (match_member thr (sector_position ?s) (Some (Fin t)) ''lt'') (with_speeds np us vs) 0 = Inr m2"
    "p2 = real m2 / real (length us)"
    by (rule directional_D [OF assms(2)]) (use a(2) in auto)
  obtain m where c: "foldE (match_member thr (sector_position ?s) None op) (with_speeds np us vs) 0 = Inr m" "p = real m / real (length us)"
    by (rule directional_D [OF assms(3)]) (use a(2) in auto)
  let ?ms = "filter (from_sector thr ?s) (with_speeds np us vs)"
  have "m1 = length (filter (\<lambda>x. t \<le> snd (snd x)) ?ms)"
    using a(3) fold_match [OF a(1), where ms = "with_speeds np us vs" and thr = thr and t = "Some (Fin t)" and P = "\<lambda>x. t \<le> x" and a = 0 and op = "''gte''"]
    by (simp add: speed_matches_def)
  moreover have "m2 = length (filter (\<lambda>x. \<not> t \<le> snd (snd x)) ?ms)"
    using b(1) fold_match [OF a(1), where ms = "with_speeds np us vs" and thr = thr and t = "Some (Fin t)" and P = "\<lambda>x. x < t" and a = 0 and op = "''lt''"]
    by (simp add: speed_matches_def not_le)
  moreover have "m = length ?ms"
    using c(1) fold_match [OF a(1), where ms = "with_speeds np us vs" and thr = thr and t = None and P = "\<lambda>_. True" and a = 0 and op = op] by simp
  ultimately have "m = m1 + m2" using sum_length_filter_compl [of "\<lambda>x. t \<le> snd (snd x)" ?ms] by simp
  then show ?thesis by (simp add: a(4) b(2) c(2) add_divide_distrib)
qed

text \<open>A comparison operator that is not supported is refused only when some member blows from the sector; for any other ensemble
  the same call answers with a probability.\<close>

theorem unsupported_operator_needs_a_member:
  assumes "op \<notin> {''gte'', ''ge'', ''gt'', ''>'', ''lte'', ''le'', ''lt'', ''<''}" "py_upper (py_strip sector) \<in> set CARDINAL_DIRECTIONS_8"
    and "0 \<le> t" "us \<noteq> []" "length us = length vs" "numpy_ok np"
  shows "if \<exists>(u, v) \<in> set (zip us vs). thr \<le> hypot u v \<and> member_sector u v = py_upper (py_strip sector)
    then compute_directional_probability np (map Fin us) (map Fin vs) sector (Some (Fin t)) op thr = Inl InvalidThresholdError
    else \<exists>ci. compute_directional_probability np (map Fin us) (map Fin vs) sector (Some (Fin t)) op thr = Inr (0, ci)"
proof -
  let ?s = "py_upper (py_strip sector)"
  let ?m = "match_member thr (sector_position ?s) (Some (Fin t)) op"
  have ms: "with_speeds np us vs = map (\<lambda>(u, v). (u, v, hypot u v)) (zip us vs)" by (rule with_speeds_ideal [OF assms(6,5)])
  have step: "?m (u, v, hypot u v) a = (if thr \<le> hypot u v \<and> member_sector u v = ?s then Inl InvalidThresholdError else Inr a)" for u v a
    using assms(1) sector_position_iff [OF assms(2), of u v] by (auto simp: match_member_def speed_matches_def)
  have fold: "foldE ?m (map (\<lambda>(u, v). (u, v, hypot u v)) xs) a =
      (if \<exists>(u, v) \<in> set xs. thr \<le> hypot u v \<and> member_sector u v = ?s then Inl InvalidThresholdError else Inr a)" for xs a
    by (induction xs arbitrary: a) (auto simp: step split: if_splits)
  have v: "validate_members (map Fin us) (map Fin vs) = Inr (us, vs)" using assms(4,5) by (simp add: validate_members_Inr)
  have "1 \<le> int (length us)" using assms(4) by (cases us) simp_all
  then obtain lo hi where ci: "probability_confidence_interval (Fin 0) (int (length us)) (19 / 20) = Inr (lo, hi)"
    using confidence_interval_eq [of 0 "int (length us)"] by auto
  show ?thesis using assms(2,3)
    by (auto simp: compute_directional_probability_def v ms fold ci is_nan_def)
qed

lemma small_directional:
  assumes "t = None \<or> (\<exists>r. t = Some (Fin r) \<and> 0 \<le> r)" "op \<in> {''gte'', ''lt''}"
  shows "\<exists>p ci. compute_directional_probability ideal_numpy [Fin 3] [Fin 4] ''SW'' t op thr = Inr (p, ci)"
proof -
  have s: "py_upper (py_strip ''SW'') = ''SW''" by code_simp
  have v: "validate_members [Fin 3] [Fin 4] = Inr ([3], [4])" using validate_members_Inr [of "[Fin 3]" "[Fin 4]" "[3]" "[4]"] by simp
  have sw: "''SW'' \<in> set CARDINAL_DIRECTIONS_8" by (simp add: CARDINAL_DIRECTIONS_8_def)
  let ?ms = "with_speeds ideal_numpy [3] [4]"
  define P where "P = (\<lambda>spd. case t of None \<Rightarrow> True | Some t' \<Rightarrow> projr (speed_matches op spd t'))"
  define k where "k = length (filter (\<lambda>m. from_sector thr ''SW'' m \<and> P (snd (snd m))) ?ms)"
  have f: "foldE (match_member thr (sector_position ''SW'') t op) ?ms 0 = Inr k"
    using fold_match [OF sw, where ms = ?ms and thr = thr and t = t and op = op and P = P and a = 0] assms by (auto simp: P_def k_def speed_matches_def split: option.splits)
  have "k \<le> length ?ms" unfolding k_def by (rule length_filter_le)
  then have "real k \<le> 1" by (simp add: with_speeds_def)
  then obtain lo hi where "probability_confidence_interval (Fin (real k)) 1 (95 / 100) = Inr (lo, hi)"
    using confidence_interval_eq [of "real k" 1] by auto
  then show ?thesis using assms by (auto simp: compute_directional_probability_def s sw v f is_nan_def)
qed

lemma joint_probabilities_split_sector_witness:
  "\<exists>p p1 p2 c c1 c2. compute_directional_probability ideal_numpy [Fin 3] [Fin 4] ''SW'' None ''gte'' 1 = Inr (p, c) \<and>
     compute_directional_probability ideal_numpy [Fin 3] [Fin 4] ''SW'' (Some (Fin 5)) ''gte'' 1 = Inr (p1, c1) \<and>
     compute_directional_probability ideal_numpy [Fin 3] [Fin 4] ''SW'' (Some (Fin 5)) ''lt'' 1 = Inr (p2, c2) \<and> p = p1 + p2"
proof -
  obtain p c p1 c1 p2 c2 where d: "compute_directional_probability ideal_numpy [Fin 3] [Fin 4] ''SW'' None ''gte'' 1 = Inr (p, c)"
    "compute_directional_probability ideal_numpy [Fin 3] [Fin 4] ''SW'' (Some (Fin 5)) ''gte'' 1 = Inr (p1, c1)"
    "compute_directional_probability ideal_numpy [Fin 3] [Fin 4] ''SW'' (Some (Fin 5)) ''lt'' 1 = Inr (p2, c2)"
    using small_directional [of None "''gte''" 1] small_directional [of "Some (Fin 5)" "''gte''" 1] small_directional [of "Some (Fin 5)" "''lt''" 1]
    by auto
  from joint_probabilities_split_sector [OF d(2,3,1)] d show ?thesis by blast
qed

lemma unsupported_operator_needs_a_member_witness:
  "\<exists>ci. compute_directional_probability ideal_numpy (map Fin [0]) (map Fin [0]) ''SW'' (Some (Fin 5)) ''eq'' 1 = Inr (0, ci)"
proof -
  have s: "py_upper (py_strip ''SW'') \<in> set CARDINAL_DIRECTIONS_8" by code_simp
  have h: "\<not> 1 \<le> hypot 0 0" by (simp add: hypot_def)
  have "''eq'' \<notin> {''gte'', ''ge'', ''gt'', ''>'', ''lte'', ''le'', ''lt'', ''<''}" by simp
  from unsupported_operator_needs_a_member [OF this s _ _ _ ideal_numpy_ok, of 5 "[0]" "[0]" 1] h show ?thesis by simp
qed

end
