(* ===== verification/WindField.thy ===== *)
theory WindField
  imports GeoGrid ShardRoundTrip
begin

text \<open>
  Wind fields of \<open>domain/models/wind.py\<close>: the quantised binary form of a vector field, the advection of a particle and the
  periodic sampling of a field. The single precision floats of the header are arguments: \<open>p32\<close> packs one and \<open>u32\<close> reads one
  back. The cast of the components to single precision keeps its overflow (a finite value beyond the range becomes an infinity,
  which the encoder refuses); the rounding of the values inside the range is not modelled.
\<close>

definition VECTOR_FIELD_MAGIC :: bytes where "VECTOR_FIELD_MAGIC = [0x57, 0x4E, 0x44, 0x51]"
definition VECTOR_FIELD_VERSION :: nat where "VECTOR_FIELD_VERSION = 1"
definition VECTOR_FIELD_FLAG_INT16 :: nat where "VECTOR_FIELD_FLAG_INT16 = 1"
definition VECTOR_FIELD_HEADER_SIZE :: nat where "VECTOR_FIELD_HEADER_SIZE = 36"
definition EARTH_RADIUS_METERS :: real where "EARTH_RADIUS_METERS = 6371000"

record vector_grid_metadata =
  vg_lat_start :: real
  vg_lat_step :: pyfloat
  vg_lat_count :: nat
  vg_lon_start :: real
  vg_lon_step :: pyfloat
  vg_lon_count :: nat
  vg_scale :: real

definition VectorGridMetadata ::
    "pyfloat \<Rightarrow> pyfloat \<Rightarrow> nat \<Rightarrow> pyfloat \<Rightarrow> pyfloat \<Rightarrow> nat \<Rightarrow> pyfloat \<Rightarrow> vector_grid_metadata result" where
  "VectorGridMetadata lat_start lat_step lat_count lon_start lon_step lon_count scale =
     (if lat_count < 2 \<or> lon_count < 2 then Inl InvalidGridError
      else if lat_step = Fin 0 \<or> lon_step = Fin 0 then Inl InvalidGridError
      else if f_le scale (Fin 0) \<or> \<not> is_finite scale then Inl InvalidThresholdError
      else bindE (finite_or InvalidGridError lat_start) (\<lambda>la. bindE (finite_or InvalidGridError lon_start) (\<lambda>lo.
           bindE (finite_or InvalidThresholdError scale) (\<lambda>s.
             Inr \<lparr>vg_lat_start = la, vg_lat_step = lat_step, vg_lat_count = lat_count, vg_lon_start = lo, vg_lon_step = lon_step,
                  vg_lon_count = lon_count, vg_scale = s\<rparr>))))"

subsection \<open>The binary form\<close>

definition all_cells :: "(pyfloat \<Rightarrow> bool) \<Rightarrow> pyfloat array2 \<Rightarrow> bool" where
  "all_cells P a = list_all (\<lambda>i. list_all (\<lambda>j. P (a_cell a i j)) [0..<a_cols a]) [0..<a_rows a]"

text \<open>The values that \<open>np.asarray(x, dtype=np.float32)\<close> leaves finite: from half a unit above the largest single precision
  float on, rounding to the nearest gives an infinity.\<close>

definition finite32 :: "pyfloat \<Rightarrow> bool" where
  "finite32 x = (case x of Fin r \<Rightarrow> \<bar>r\<bar> < 2 ^ 128 - 2 ^ 103 | _ \<Rightarrow> False)"

lemma all_cells_finite32: "all_cells finite32 a \<Longrightarrow> all_cells is_finite a"
  by (auto simp: all_cells_def finite32_def is_finite_def list_all_iff split: pyfloat.splits)

definition int16_clip :: "int \<Rightarrow> int" where "int16_clip k = min (max k (- 32768)) 32767"

text \<open>\<open>np.clip(np.round(x / scale), -32768, 32767).astype("<i2")\<close>, as the bits of the integer\<close>

definition quantise :: "real \<Rightarrow> pyfloat \<Rightarrow> 16 word" where
  "quantise scale x = (case x of Fin r \<Rightarrow> word_of_int (int16_clip (py_round (r / scale))) | _ \<Rightarrow> 0)"

definition quantised :: "real \<Rightarrow> pyfloat array2 \<Rightarrow> nat array2" where
  "quantised scale a = \<lparr>a_rows = a_rows a, a_cols = a_cols a, a_cell = (\<lambda>i j. unat (quantise scale (a_cell a i j)))\<rparr>"

definition pack_header :: "(pyfloat \<Rightarrow> nat result) \<Rightarrow> vector_grid_metadata \<Rightarrow> bytes result" where
  "pack_header p32 m =
     bindE (p32 (Fin (vg_scale m))) (\<lambda>s. bindE (p32 (Fin (vg_lat_start m))) (\<lambda>la. bindE (p32 (vg_lat_step m)) (\<lambda>las.
     bindE (pack_field 4 (vg_lat_count m)) (\<lambda>rows. bindE (p32 (Fin (vg_lon_start m))) (\<lambda>lo. bindE (p32 (vg_lon_step m)) (\<lambda>los.
     bindE (pack_field 4 (vg_lon_count m)) (\<lambda>cols.
       Inr (VECTOR_FIELD_MAGIC @ le_bytes 1 VECTOR_FIELD_VERSION @ le_bytes 1 VECTOR_FIELD_FLAG_INT16 @ le_bytes 2 0 @ le_bytes 4 s @
            le_bytes 4 la @ le_bytes 4 las @ rows @ le_bytes 4 lo @ le_bytes 4 los @ cols))))))))"

definition encode_vector_field_int16 ::
    "(pyfloat \<Rightarrow> nat result) \<Rightarrow> pyfloat array2 \<Rightarrow> pyfloat array2 \<Rightarrow> pyfloat \<Rightarrow> pyfloat \<Rightarrow> pyfloat \<Rightarrow> pyfloat \<Rightarrow> pyfloat \<Rightarrow> bytes result" where
  "encode_vector_field_int16 p32 u v lat_start lat_step lon_start lon_step scale =
     (if a_rows u \<noteq> a_rows v \<or> a_cols u \<noteq> a_cols v then Inl InvalidGridError
      else if \<not> all_cells finite32 u \<or> \<not> all_cells finite32 v then Inl InvalidGridError
      else bindE (VectorGridMetadata lat_start lat_step (a_rows u) lon_start lon_step (a_cols u) scale) (\<lambda>m.
           bindE (pack_header p32 m) (\<lambda>header.
             Inr (header @ tobytes 2 (quantised (vg_scale m) u) @ tobytes 2 (quantised (vg_scale m) v)))))"

text \<open>An integer field of the header, at an offset\<close>

definition header_field :: "nat \<Rightarrow> nat \<Rightarrow> bytes \<Rightarrow> nat" where
  "header_field off len raw = le_nat (byte_range off len raw)"

definition dequantised :: "real \<Rightarrow> nat array2 \<Rightarrow> real array2" where
  "dequantised scale a = \<lparr>a_rows = a_rows a, a_cols = a_cols a, a_cell = (\<lambda>i j. real_of_int (sint (word_of_nat (a_cell a i j) :: 16 word)) * scale)\<rparr>"

definition decode_vector_field_int16 ::
    "(nat \<Rightarrow> pyfloat) \<Rightarrow> bytes \<Rightarrow> (real array2 \<times> real array2 \<times> vector_grid_metadata) result" where
  "decode_vector_field_int16 u32 raw =
     (if length raw < VECTOR_FIELD_HEADER_SIZE then Inl (ValueError ''Payload too short'')
      else if byte_range 0 4 raw \<noteq> VECTOR_FIELD_MAGIC then Inl (ValueError ''Invalid magic header'')
      else if header_field 4 1 raw \<noteq> VECTOR_FIELD_VERSION then Inl (ValueError ''Unsupported version'')
      else if header_field 5 1 raw \<noteq> VECTOR_FIELD_FLAG_INT16 then Inl (ValueError ''Unsupported flags'')
      else bindE (VectorGridMetadata (u32 (header_field 12 4 raw)) (u32 (header_field 16 4 raw)) (header_field 20 4 raw)
                    (u32 (header_field 24 4 raw)) (u32 (header_field 28 4 raw)) (header_field 32 4 raw) (u32 (header_field 8 4 raw))) (\<lambda>m.
           let num_points = vg_lat_count m * vg_lon_count m in
           if length raw \<noteq> VECTOR_FIELD_HEADER_SIZE + num_points * 2 * 2 then Inl (ValueError ''Payload size mismatch'')
           else bindE (frombuffer 2 (vg_lat_count m) (vg_lon_count m) (byte_range VECTOR_FIELD_HEADER_SIZE (num_points * 2) raw)) (\<lambda>u_i16.
                bindE (frombuffer 2 (vg_lat_count m) (vg_lon_count m)
                         (byte_range (VECTOR_FIELD_HEADER_SIZE + num_points * 2) (num_points * 2) raw)) (\<lambda>v_i16.
                  Inr (dequantised (vg_scale m) u_i16, dequantised (vg_scale m) v_i16, m)))))"

subsection \<open>Advection and sampling\<close>

definition radians :: "real \<Rightarrow> real" where "radians d = d * pi / 180"

text \<open>A float argument is finite or NaN (\<open>None\<close>); so is the pair of results.\<close>

definition advect_particle ::
    "real option \<Rightarrow> real option \<Rightarrow> real option \<Rightarrow> real option \<Rightarrow> real \<Rightarrow> real \<Rightarrow> real \<Rightarrow> (real \<times> real) option result" where
  "advect_particle lat lon u v dt_seconds lat_clamp earth_radius_m = (case (lat, lon, u, v) of
     (Some la, Some lo, Some uu, Some vv) \<Rightarrow>
       let clamped_lat = max (- lat_clamp) (min lat_clamp la);
           cos_lat = max (cos (radians clamped_lat)) (cos (radians lat_clamp)) in
       if earth_radius_m = 0 \<or> earth_radius_m * cos_lat = 0 then Inl ZeroDivisionError
       else let dlat_deg = vv * dt_seconds / earth_radius_m * (180 / pi);
                dlon_deg = uu * dt_seconds / (earth_radius_m * cos_lat) * (180 / pi);
                new_lat = max (- lat_clamp) (min lat_clamp (la + dlat_deg));
                new_lon = lo + dlon_deg;
                norm_lon = float_mod (new_lon + 180) 360 - 180
            in Inr (Some (new_lat, if norm_lon = - 180 \<and> 0 < new_lon then 180 else norm_lon))
   | _ \<Rightarrow> Inr None)"

definition grid_at :: "real array2 \<Rightarrow> nat \<Rightarrow> nat \<Rightarrow> real result" where
  "grid_at a i j = (if i < a_rows a \<and> j < a_cols a then Inr (a_cell a i j) else Inl (IndexError ''out of bounds''))"

text \<open>The lower row and column, the upper ones and the two weights\<close>

definition sample_row :: "vector_grid_metadata \<Rightarrow> real \<Rightarrow> real \<Rightarrow> nat \<times> nat \<times> real" where
  "sample_row m lat_step lat =
     (let row_f = max 0 (min (real (vg_lat_count m) - 1) ((lat - vg_lat_start m) / lat_step)); r0 = nat \<lfloor>row_f\<rfloor>
      in (r0, min (vg_lat_count m - 1) (r0 + 1), row_f - real r0))"

definition sample_col :: "vector_grid_metadata \<Rightarrow> real \<Rightarrow> real \<Rightarrow> nat \<times> nat \<times> real" where
  "sample_col m lon_step lon =
     (let aligned_lon = (if 0 \<le> vg_lon_start m then float_mod lon 360 else float_mod (lon + 180) 360 - 180);
          col_f = float_mod ((aligned_lon - vg_lon_start m) / lon_step) (real (vg_lon_count m)); c0 = nat \<lfloor>col_f\<rfloor>
      in (c0, (c0 + 1) mod vg_lon_count m, col_f - real c0))"

definition sample_component :: "real array2 \<Rightarrow> nat \<times> nat \<times> real \<Rightarrow> nat \<times> nat \<times> real \<Rightarrow> real result" where
  "sample_component a row col = (case (row, col) of ((r0, r1, dr), (c0, c1, dc)) \<Rightarrow>
     bindE (grid_at a r0 c0) (\<lambda>v00. bindE (grid_at a r0 c1) (\<lambda>v01. bindE (grid_at a r1 c0) (\<lambda>v10. bindE (grid_at a r1 c1) (\<lambda>v11.
       Inr ((1 - dr) * (1 - dc) * v00 + (1 - dr) * dc * v01 + dr * (1 - dc) * v10 + dr * dc * v11))))))"

text \<open>Only metadata with finite steps is sampled here; \<open>None\<close> is the pair of NaNs.\<close>

definition sample_vector_bilinear ::
    "real array2 \<Rightarrow> real array2 \<Rightarrow> vector_grid_metadata \<Rightarrow> real \<Rightarrow> real \<Rightarrow> real option \<Rightarrow> real option \<Rightarrow> (real \<times> real) option result" where
  "sample_vector_bilinear u_grid v_grid m lat_step lon_step lat lon = (case (lat, lon) of
     (Some la, Some lo) \<Rightarrow>
       let row = sample_row m lat_step la; col = sample_col m lon_step lo in
       bindE (sample_component u_grid row col) (\<lambda>u. bindE (sample_component v_grid row col) (\<lambda>v. Inr (Some (u, v))))
   | _ \<Rightarrow> Inr None)"

subsection \<open>The round trip\<close>

lemma py_round_error: "\<bar>x - of_int (py_round x)\<bar> \<le> 1 / 2"
  using py_round_bounds [of x] by linarith

lemma sint_int16_clip: "sint (word_of_int (int16_clip k) :: 16 word) = int16_clip k"
proof -
  have "- (2 ^ 15) \<le> int16_clip k" "int16_clip k < 2 ^ 15" by (simp_all add: int16_clip_def)
  then show ?thesis by (simp add: sint_sbintrunc' signed_take_bit_int_eq_self)
qed

lemma dequantised_cell:
  "a_cell (dequantised s (quantised scale a)) i j =
     (case a_cell a i j of Fin r \<Rightarrow> real_of_int (int16_clip (py_round (r / scale))) * s | _ \<Rightarrow> 0)"
  by (simp add: dequantised_def quantised_def quantise_def sint_int16_clip del: of_int_sint split: pyfloat.splits)

lemma quantised_fits: "a_cell (quantised scale a) i j < 256 ^ 2"
  using unsigned_less [of "quantise scale (a_cell a i j)"] by (simp add: quantised_def)


text \<open>The header\<close>

lemma header_fields:
  assumes "pack_header p32 m = Inr h" "\<And>x n. p32 x = Inr n \<Longrightarrow> n < 256 ^ 4"
  obtains s la las lo los where "p32 (Fin (vg_scale m)) = Inr s" "p32 (Fin (vg_lat_start m)) = Inr la" "p32 (vg_lat_step m) = Inr las"
    "p32 (Fin (vg_lon_start m)) = Inr lo" "p32 (vg_lon_step m) = Inr los" "length h = 36"
    "byte_range 0 4 (h @ rest) = VECTOR_FIELD_MAGIC" "header_field 4 1 (h @ rest) = 1" "header_field 5 1 (h @ rest) = 1"
    "header_field 8 4 (h @ rest) = s" "header_field 12 4 (h @ rest) = la" "header_field 16 4 (h @ rest) = las"
    "header_field 20 4 (h @ rest) = vg_lat_count m" "header_field 24 4 (h @ rest) = lo" "header_field 28 4 (h @ rest) = los"
    "header_field 32 4 (h @ rest) = vg_lon_count m"
proof -
  from assms(1) obtain s la las lo los where f: "p32 (Fin (vg_scale m)) = Inr s" "p32 (Fin (vg_lat_start m)) = Inr la"
    "p32 (vg_lat_step m) = Inr las" "p32 (Fin (vg_lon_start m)) = Inr lo" "p32 (vg_lon_step m) = Inr los"
    and n: "vg_lat_count m < 256 ^ 4" "vg_lon_count m < 256 ^ 4"
    and h: "h = VECTOR_FIELD_MAGIC @ le_bytes 1 VECTOR_FIELD_VERSION @ le_bytes 1 VECTOR_FIELD_FLAG_INT16 @ le_bytes 2 0 @ le_bytes 4 s @
        le_bytes 4 la @ le_bytes 4 las @ le_bytes 4 (vg_lat_count m) @ le_bytes 4 lo @ le_bytes 4 los @ le_bytes 4 (vg_lon_count m)"
    by (auto simp: pack_header_def bindE_eq_Inr)
  note b = assms(2) [OF f(1)] assms(2) [OF f(2)] assms(2) [OF f(3)] assms(2) [OF f(4)] assms(2) [OF f(5)]
  have v: "VECTOR_FIELD_VERSION < 256 ^ 1" "VECTOR_FIELD_FLAG_INT16 < 256 ^ 1"
    by (simp_all add: VECTOR_FIELD_VERSION_def VECTOR_FIELD_FLAG_INT16_def)
  have l: "length VECTOR_FIELD_MAGIC = 4" by (simp add: VECTOR_FIELD_MAGIC_def)
  note le = le_nat_le_bytes [OF b(1)] le_nat_le_bytes [OF b(2)] le_nat_le_bytes [OF b(3)] le_nat_le_bytes [OF b(4)] le_nat_le_bytes [OF b(5)]
    le_nat_le_bytes [OF n(1)] le_nat_le_bytes [OF n(2)] le_nat_le_bytes [OF v(1)] le_nat_le_bytes [OF v(2)]
  show thesis
    by (rule that [OF f])
      (simp_all only: h header_field_def byte_range_def l le append_assoc drop_append take_append length_append length_le_bytes
         VECTOR_FIELD_VERSION_def [symmetric],
       simp_all add: l le VECTOR_FIELD_VERSION_def VECTOR_FIELD_FLAG_INT16_def)
qed


definition single :: "(pyfloat \<Rightarrow> nat result) \<Rightarrow> (nat \<Rightarrow> pyfloat) \<Rightarrow> pyfloat \<Rightarrow> pyfloat" where
  "single p32 u32 x = (case p32 x of Inr n \<Rightarrow> u32 n | Inl _ \<Rightarrow> NaN)"

text \<open>\<open>b\<close> is \<open>a\<close> quantised in steps of \<open>s\<close> and read back with the step \<open>t\<close>: saturated, and elsewhere within half a step, up to the
  ratio of the two steps.\<close>

definition quantised_copy :: "real \<Rightarrow> real \<Rightarrow> pyfloat array2 \<Rightarrow> real array2 \<Rightarrow> bool" where
  "quantised_copy s t a b \<longleftrightarrow> a_rows b = a_rows a \<and> a_cols b = a_cols a \<and> (\<forall>i < a_rows a. \<forall>j < a_cols a. \<exists>x. a_cell a i j = Fin x \<and>
     a_cell b i j = of_int (int16_clip (py_round (x / s))) * t \<and> (\<bar>x\<bar> \<le> 32767 * s \<longrightarrow> \<bar>a_cell b i j * s / t - x\<bar> \<le> s / 2))"

lemma clip_id: "\<bar>x\<bar> \<le> 32767 * s \<Longrightarrow> 0 < s \<Longrightarrow> int16_clip (py_round (x / s)) = py_round (x / s)"
proof -
  assume "\<bar>x\<bar> \<le> 32767 * s" "0 < s"
  then have "of_int (- 32767) \<le> x / s" "x / s \<le> of_int 32767" by (simp_all add: field_simps abs_le_iff)
  from py_round_ge_int [OF this(1)] py_round_le_int [OF this(2)] have "- 32767 \<le> py_round (x / s)" "py_round (x / s) \<le> 32767" .
  then show ?thesis by (simp add: int16_clip_def)
qed

lemma quantised_copy_read:
  assumes "all_cells is_finite a" "0 < s" "0 < t" "frombuffer 2 (a_rows a) (a_cols a) (tobytes 2 (quantised s a)) = Inr b"
  shows "quantised_copy s t a (dequantised t b)"
proof -
  let ?q = "quantised s a"
  obtain b' where "frombuffer 2 (a_rows a) (a_cols a) (tobytes 2 ?q) = Inr b'" "a_rows b' = a_rows a" "a_cols b' = a_cols a"
    "\<forall>i < a_rows a. \<forall>j < a_cols a. a_cell b' i j = a_cell ?q i j"
    using frombuffer_tobytes [of ?q "a_rows a" "a_cols a" 2] quantised_fits by (auto simp: quantised_def)
  with assms(4) have b: "a_rows b = a_rows a" "a_cols b = a_cols a" "\<And>i j. i < a_rows a \<Longrightarrow> j < a_cols a \<Longrightarrow> a_cell b i j = a_cell ?q i j"
    by auto
  have "\<exists>x. a_cell a i j = Fin x \<and> a_cell (dequantised t b) i j = of_int (int16_clip (py_round (x / s))) * t \<and>
      (\<bar>x\<bar> \<le> 32767 * s \<longrightarrow> \<bar>a_cell (dequantised t b) i j * s / t - x\<bar> \<le> s / 2)" if ij: "i < a_rows a" "j < a_cols a" for i j
  proof -
    have "is_finite (a_cell a i j)" using assms(1) ij by (simp add: all_cells_def list_all_iff)
    then obtain x where x: "a_cell a i j = Fin x" by (auto simp: is_finite_def split: pyfloat.splits)
    have "a_cell (dequantised t b) i j = a_cell (dequantised t ?q) i j" by (simp add: dequantised_def b(3) [OF ij])
    then have c: "a_cell (dequantised t b) i j = of_int (int16_clip (py_round (x / s))) * t" by (simp add: dequantised_cell x)
    have "\<bar>of_int (py_round (x / s)) * s - x\<bar> = s * \<bar>x / s - of_int (py_round (x / s))\<bar>"
      using assms(2) by (simp add: abs_mult [symmetric] abs_minus_commute field_simps flip: abs_of_pos)
    also have "\<dots> \<le> s / 2" using mult_left_mono [OF py_round_error [of "x / s"], of s] assms(2) by simp
    finally show ?thesis using x c clip_id [of x s] assms(2,3) by simp
  qed
  with b(1,2) show ?thesis by (simp add: quantised_copy_def dequantised_def)
qed

text \<open>C35: Decoding an encoded vector field returns both components with the shape they had, each value saturated to the 16-bit range
  and otherwise within half a quantum up to the rounding of the header's scale, and the metadata rounded to single precision; the
  length and every header check of the decoder pass.\<close>

theorem vector_field_roundtrip:
  assumes "encode_vector_field_int16 p32 u v lat_start lat_step lon_start lon_step (Fin s) = Inr raw"
    and "\<And>x n. p32 x = Inr n \<Longrightarrow> n < 256 ^ 4"
    and "VectorGridMetadata (single p32 u32 lat_start) (single p32 u32 lat_step) (a_rows u) (single p32 u32 lon_start)
      (single p32 u32 lon_step) (a_cols u) (single p32 u32 (Fin s)) = Inr m"
  shows "\<exists>u' v'. decode_vector_field_int16 u32 raw = Inr (u', v', m) \<and> quantised_copy s (vg_scale m) u u' \<and> quantised_copy s (vg_scale m) v v'"
proof -
  from assms(1) obtain m0 h where sh: "a_rows v = a_rows u" "a_cols v = a_cols u" "all_cells is_finite u" "all_cells is_finite v"
    and m0: "VectorGridMetadata lat_start lat_step (a_rows u) lon_start lon_step (a_cols u) (Fin s) = Inr m0" and h: "pack_header p32 m0 = Inr h"
    and raw: "raw = h @ tobytes 2 (quantised (vg_scale m0) u) @ tobytes 2 (quantised (vg_scale m0) v)"
    by (auto simp: encode_vector_field_int16_def bindE_eq_Inr all_cells_finite32 split: if_splits)
  from m0 have f: "lat_start = Fin (vg_lat_start m0)" "lat_step = vg_lat_step m0" "vg_lat_count m0 = a_rows u" "lon_start = Fin (vg_lon_start m0)"
    "lon_step = vg_lon_step m0" "vg_lon_count m0 = a_cols u" "vg_scale m0 = s" "0 < s"
    by (auto simp: VectorGridMetadata_def bindE_eq_Inr finite_or_def split: pyfloat.splits if_splits)
  have m: "vg_lat_count m = a_rows u" "vg_lon_count m = a_cols u" "0 < vg_scale m"
    using assms(3) by (auto simp: VectorGridMetadata_def bindE_eq_Inr finite_or_def split: pyfloat.splits if_splits)
  let ?qu = "tobytes 2 (quantised s u)" and ?qv = "tobytes 2 (quantised s v)"
  obtain sc la las lo los where p: "p32 (Fin (vg_scale m0)) = Inr sc" "p32 (Fin (vg_lat_start m0)) = Inr la" "p32 (vg_lat_step m0) = Inr las"
    "p32 (Fin (vg_lon_start m0)) = Inr lo" "p32 (vg_lon_step m0) = Inr los" and lh: "length h = 36"
    and hd: "byte_range 0 4 (h @ ?qu @ ?qv) = VECTOR_FIELD_MAGIC" "header_field 4 1 (h @ ?qu @ ?qv) = 1" "header_field 5 1 (h @ ?qu @ ?qv) = 1"
    "header_field 8 4 (h @ ?qu @ ?qv) = sc" "header_field 12 4 (h @ ?qu @ ?qv) = la" "header_field 16 4 (h @ ?qu @ ?qv) = las"
    "header_field 20 4 (h @ ?qu @ ?qv) = vg_lat_count m0" "header_field 24 4 (h @ ?qu @ ?qv) = lo" "header_field 28 4 (h @ ?qu @ ?qv) = los"
    "header_field 32 4 (h @ ?qu @ ?qv) = vg_lon_count m0"
    by (rule header_fields [OF h assms(2), where rest = "?qu @ ?qv"])
  have meta: "VectorGridMetadata (u32 la) (u32 las) (a_rows u) (u32 lo) (u32 los) (a_cols u) (u32 sc) = Inr m"
    using assms(3) p by (simp add: single_def f)
  let ?n = "a_rows u * a_cols u"
  have l: "length ?qu = ?n * 2" "length ?qv = ?n * 2" using sh by (simp_all add: length_tobytes quantised_def)
  have br: "byte_range 36 (?n * 2) (h @ ?qu @ ?qv) = ?qu" "byte_range (36 + ?n * 2) (?n * 2) (h @ ?qu @ ?qv) = ?qv"
    using l lh by (simp_all add: byte_range_def)
  obtain bu bv where fb: "frombuffer 2 (a_rows u) (a_cols u) ?qu = Inr bu" "frombuffer 2 (a_rows v) (a_cols v) ?qv = Inr bv"
    using frombuffer_tobytes [of "quantised s u" "a_rows u" "a_cols u" 2] frombuffer_tobytes [of "quantised s v" "a_rows v" "a_cols v" 2] quantised_fits
    by (auto simp: quantised_def)
  have "decode_vector_field_int16 u32 raw = Inr (dequantised (vg_scale m) bu, dequantised (vg_scale m) bv, m)"
    using fb l lh unfolding raw f(7)
    by (simp add: decode_vector_field_int16_def VECTOR_FIELD_HEADER_SIZE_def VECTOR_FIELD_VERSION_def VECTOR_FIELD_FLAG_INT16_def hd hd(2,3) [simplified] f meta m br sh Let_def)
  with quantised_copy_read [OF sh(3) f(8) m(3) fb(1)] quantised_copy_read [OF sh(4) f(8) m(3) fb(2)] show ?thesis by blast
qed


text \<open>A field of two by two cells, with a toy single precision that keeps the integers from 0 to 9\<close>

definition digit_p32 :: "pyfloat \<Rightarrow> nat result" where
  "digit_p32 x = (case x of Fin r \<Rightarrow> Inr (if r \<in> {0..9} then nat \<lfloor>r\<rfloor> else 9) | _ \<Rightarrow> Inr 9)"

definition digit_u32 :: "nat \<Rightarrow> pyfloat" where "digit_u32 n = Fin (real n)"

definition two_by_two :: "pyfloat \<Rightarrow> pyfloat array2" where
  "two_by_two x = \<lparr>a_rows = 2, a_cols = 2, a_cell = (\<lambda>i j. x)\<rparr>"

lemma vector_field_roundtrip_witness:
  "\<exists>raw u' v' m. encode_vector_field_int16 digit_p32 (two_by_two (Fin 7)) (two_by_two (Fin (- 4))) (Fin 0) (Fin 1) (Fin 0) (Fin 1) (Fin 2) = Inr raw \<and>
     decode_vector_field_int16 digit_u32 raw = Inr (u', v', m) \<and> quantised_copy 2 2 (two_by_two (Fin (- 4))) v'"
proof -
  let ?m = "\<lparr>vg_lat_start = 0, vg_lat_step = Fin 1, vg_lat_count = 2, vg_lon_start = 0, vg_lon_step = Fin 1, vg_lon_count = 2, vg_scale = 2\<rparr>"
  have fin: "all_cells finite32 (two_by_two (Fin 7))" "all_cells finite32 (two_by_two (Fin (- 4)))"
    by (simp_all add: all_cells_def two_by_two_def finite32_def list_all_iff)
  have d: "digit_p32 (Fin 0) = Inr 0" "digit_p32 (Fin 1) = Inr 1" "digit_p32 (Fin 2) = Inr 2" by (simp_all add: digit_p32_def)
  have "VectorGridMetadata (Fin 0) (Fin 1) 2 (Fin 0) (Fin 1) 2 (Fin 2) = Inr ?m" by (simp add: VectorGridMetadata_def is_finite_def finite_or_def)
  moreover have "\<exists>h. pack_header digit_p32 ?m = Inr h" by (simp add: pack_header_def d pack_field_def)
  ultimately obtain raw where raw: "encode_vector_field_int16 digit_p32 (two_by_two (Fin 7)) (two_by_two (Fin (- 4))) (Fin 0) (Fin 1) (Fin 0) (Fin 1) (Fin 2) = Inr raw"
    using fin by (auto simp: encode_vector_field_int16_def two_by_two_def)
  have law: "digit_p32 x = Inr n \<Longrightarrow> n < 256 ^ 4" for x n
  proof -
    assume "digit_p32 x = Inr n"
    moreover have "nat \<lfloor>r\<rfloor> \<le> 9" if "r \<le> 9" for r :: real using that by (simp add: nat_le_iff floor_le_iff)
    ultimately have "n \<le> 9" by (auto simp: digit_p32_def split: pyfloat.splits if_splits)
    then show ?thesis by simp
  qed
  have r: "single digit_p32 digit_u32 (Fin 0) = Fin 0" "single digit_p32 digit_u32 (Fin 1) = Fin 1" "single digit_p32 digit_u32 (Fin 2) = Fin 2"
    by (simp_all add: single_def d digit_u32_def)
  have "VectorGridMetadata (single digit_p32 digit_u32 (Fin 0)) (single digit_p32 digit_u32 (Fin 1)) (a_rows (two_by_two (Fin 7)))
      (single digit_p32 digit_u32 (Fin 0)) (single digit_p32 digit_u32 (Fin 1)) (a_cols (two_by_two (Fin 7))) (single digit_p32 digit_u32 (Fin 2)) = Inr ?m"
    unfolding r by (simp add: VectorGridMetadata_def is_finite_def finite_or_def two_by_two_def)
  note m = this
  have "\<exists>u' v'. decode_vector_field_int16 digit_u32 raw = Inr (u', v', ?m) \<and> quantised_copy 2 (vg_scale ?m) (two_by_two (Fin 7)) u' \<and>
      quantised_copy 2 (vg_scale ?m) (two_by_two (Fin (- 4))) v'"
    by (rule vector_field_roundtrip [OF raw _ m]) (rule law)
  with raw show ?thesis by auto
qed

subsection \<open>Advection\<close>

text \<open>An advected particle stays between the clamp latitudes and gets a longitude in [-180, 180] that names the place its zonal
  displacement leads to; nothing is divided by zero for a clamp strictly between the poles.\<close>

theorem advected_particle_on_sphere:
  assumes "0 \<le> lat_clamp" "lat_clamp < 90" "0 < earth_radius"
  shows "\<exists>la' lo' c k. advect_particle (Some la) (Some lo) (Some u) (Some v) dt lat_clamp earth_radius = Inr (Some (la', lo')) \<and>
    - lat_clamp \<le> la' \<and> la' \<le> lat_clamp \<and> - 180 \<le> lo' \<and> lo' \<le> 180 \<and> 0 < c \<and> c \<le> 1 \<and>
    lo' = lo + u * dt / (earth_radius * c) * (180 / pi) + 360 * of_int k"
proof -
  define c where "c = max (cos (radians (max (- lat_clamp) (min lat_clamp la)))) (cos (radians lat_clamp))"
  have "radians lat_clamp < pi / 2" using assms(2) by (simp add: radians_def)
  moreover have "0 \<le> radians lat_clamp" using assms(1) by (simp add: radians_def)
  then have "- (pi / 2) < radians lat_clamp" using pi_half_gt_zero by linarith
  ultimately have "0 < cos (radians lat_clamp)" by (intro cos_gt_zero_pi) simp_all
  then have c: "0 < c" "c \<le> 1" by (auto simp: c_def less_max_iff_disj)
  define new_lon where "new_lon = lo + u * dt / (earth_radius * c) * (180 / pi)"
  let ?norm = "float_mod (new_lon + 180) 360 - 180"
  define la' where "la' = max (- lat_clamp) (min lat_clamp (la + v * dt / earth_radius * (180 / pi)))"
  define lo' where "lo' = (if ?norm = - 180 \<and> 0 < new_lon then 180 else ?norm)"
  have "advect_particle (Some la) (Some lo) (Some u) (Some v) dt lat_clamp earth_radius = Inr (Some (la', lo'))"
    using c assms(3) by (simp add: advect_particle_def Let_def la'_def lo'_def new_lon_def flip: c_def)
  moreover have "- lat_clamp \<le> la'" "la' \<le> lat_clamp" using assms(1) by (auto simp: la'_def)
  moreover have "\<exists>k. lo' = new_lon + 360 * of_int k"
  proof (cases "?norm = - 180 \<and> 0 < new_lon")
    case True
    then have "lo' = new_lon + 360 * of_int (1 - \<lfloor>(new_lon + 180) / 360\<rfloor>)" by (simp add: lo'_def float_mod_def algebra_simps)
    then show ?thesis ..
  next
    case False
    then have "lo' = new_lon + 360 * of_int (- \<lfloor>(new_lon + 180) / 360\<rfloor>)" by (auto simp: lo'_def float_mod_def algebra_simps)
    then show ?thesis ..
  qed
  moreover have "- 180 \<le> lo'" "lo' \<le> 180" using float_mod_bounds [of 360 "new_lon + 180"] by (simp_all add: lo'_def)
  ultimately show ?thesis using c by (auto simp: new_lon_def)
qed

lemma advected_particle_on_sphere_witness:
  "\<exists>la' lo'. advect_particle (Some 84) (Some 179) (Some 500) (Some 9000) 60 85 EARTH_RADIUS_METERS = Inr (Some (la', lo')) \<and> la' \<le> 85 \<and> lo' \<le> 180"
  using advected_particle_on_sphere [of 85 EARTH_RADIUS_METERS 84 179 500 9000 60] by (auto simp: EARTH_RADIUS_METERS_def)

subsection \<open>Sampling\<close>

lemma sample_row_ok:
  assumes "sample_row m ls la = (r0, r1, dr)" "2 \<le> vg_lat_count m"
  shows "r0 < vg_lat_count m" "r1 < vg_lat_count m" "0 \<le> dr" "dr \<le> 1"
proof -
  define row_f where "row_f = max 0 (min (real (vg_lat_count m) - 1) ((la - vg_lat_start m) / ls))"
  have b: "0 \<le> row_f" "row_f \<le> real (vg_lat_count m) - 1" using assms(2) by (auto simp: row_f_def)
  have r: "r0 = nat \<lfloor>row_f\<rfloor>" "r1 = min (vg_lat_count m - 1) (r0 + 1)" "dr = row_f - real r0"
    using assms(1) by (auto simp: sample_row_def Let_def row_f_def)
  have f: "real r0 = of_int \<lfloor>row_f\<rfloor>" using b(1) r(1) by simp
  have "real r0 < real (vg_lat_count m)" using b f by linarith
  then show "r0 < vg_lat_count m" "r1 < vg_lat_count m" using assms(2) r(2) by simp_all
  show "0 \<le> dr" "dr \<le> 1" unfolding r(3) f by linarith+
qed

lemma sample_col_ok:
  assumes "sample_col m os lo = (c0, c1, dc)" "2 \<le> vg_lon_count m"
  shows "c0 < vg_lon_count m" "c1 = (c0 + 1) mod vg_lon_count m" "c1 < vg_lon_count m" "0 \<le> dc" "dc \<le> 1"
proof -
  obtain x where x: "c0 = nat \<lfloor>float_mod x (real (vg_lon_count m))\<rfloor>" "c1 = (c0 + 1) mod vg_lon_count m" "dc = float_mod x (real (vg_lon_count m)) - real c0"
    using assms(1) by (auto simp: sample_col_def Let_def)
  have b: "0 \<le> float_mod x (real (vg_lon_count m))" "float_mod x (real (vg_lon_count m)) < real (vg_lon_count m)"
    using float_mod_bounds [of "real (vg_lon_count m)" x] assms(2) by simp_all
  have f: "real c0 = of_int \<lfloor>float_mod x (real (vg_lon_count m))\<rfloor>" using b(1) x(1) by simp
  then have "real c0 < real (vg_lon_count m)" using b by linarith
  then show "c0 < vg_lon_count m" "c1 = (c0 + 1) mod vg_lon_count m" "c1 < vg_lon_count m" using assms(2) x(2) by simp_all
  show "0 \<le> dc" "dc \<le> 1" unfolding x(3) f by linarith+
qed

lemma weights_between:
  fixes lo hi dr dc :: real
  assumes "0 \<le> dr" "dr \<le> 1" "0 \<le> dc" "dc \<le> 1" "\<forall>z \<in> {a, b, c, d}. lo \<le> z \<and> z \<le> hi"
  defines "x \<equiv> (1 - dr) * (1 - dc) * a + (1 - dr) * dc * b + dr * (1 - dc) * c + dr * dc * d"
  shows "lo \<le> x \<and> x \<le> hi"
proof -
  have w: "0 \<le> (1 - dr) * (1 - dc)" "0 \<le> (1 - dr) * dc" "0 \<le> dr * (1 - dc)" "0 \<le> dr * dc" using assms(1-4) by simp_all
  have s: "(1 - dr) * (1 - dc) * y + (1 - dr) * dc * y + dr * (1 - dc) * y + dr * dc * y = y" for y by (simp add: algebra_simps)
  have "(1 - dr) * (1 - dc) * lo + (1 - dr) * dc * lo + dr * (1 - dc) * lo + dr * dc * lo \<le> x"
    unfolding x_def using w assms(5) by (intro add_mono mult_left_mono) simp_all
  moreover have "x \<le> (1 - dr) * (1 - dc) * hi + (1 - dr) * dc * hi + dr * (1 - dc) * hi + dr * dc * hi"
    unfolding x_def using w assms(5) by (intro add_mono mult_left_mono) simp_all
  ultimately show ?thesis unfolding s by simp
qed

lemma sample_component_between:
  assumes "sample_row m ls la = (r0, r1, dr)" "sample_col m os lo = (c0, c1, dc)" "2 \<le> vg_lat_count m" "2 \<le> vg_lon_count m"
    and "a_rows a = vg_lat_count m" "a_cols a = vg_lon_count m"
  shows "\<exists>x. sample_component a (sample_row m ls la) (sample_col m os lo) = Inr x \<and>
    (\<forall>low high. (\<forall>z \<in> {a_cell a r0 c0, a_cell a r0 c1, a_cell a r1 c0, a_cell a r1 c1}. low \<le> z \<and> z \<le> high) \<longrightarrow> low \<le> x \<and> x \<le> high)"
proof -
  note r = sample_row_ok [OF assms(1,3)] and c = sample_col_ok [OF assms(2,4)]
  let ?x = "(1 - dr) * (1 - dc) * a_cell a r0 c0 + (1 - dr) * dc * a_cell a r0 c1 + dr * (1 - dc) * a_cell a r1 c0 + dr * dc * a_cell a r1 c1"
  have "sample_component a (sample_row m ls la) (sample_col m os lo) = Inr ?x"
    using r(1,2) c(1,3) assms(5,6) by (simp add: sample_component_def assms(1,2) grid_at_def)
  moreover have "low \<le> ?x \<and> ?x \<le> high"
    if "\<forall>z \<in> {a_cell a r0 c0, a_cell a r0 c1, a_cell a r1 c0, a_cell a r1 c1}. low \<le> z \<and> z \<le> high" for low high
    by (rule weights_between [OF r(3,4) c(4,5) that])
  ultimately show ?thesis by blast
qed

lemma float_mod_turn: "float_mod (x + 360) 360 = float_mod x 360"
  using float_mod_shift [of 360 x 1] by simp

text \<open>Sampling a vector field never leaves the arrays, answers for every place on earth, wraps from the last column to the first,
  stays between the four cells it blends, and does not change when the longitude is a full turn away.\<close>

theorem sampling_total_and_periodic:
  assumes "2 \<le> vg_lat_count m" "2 \<le> vg_lon_count m" "a_rows u = vg_lat_count m" "a_cols u = vg_lon_count m" "a_rows v = vg_lat_count m"
    "a_cols v = vg_lon_count m"
  shows "\<exists>r0 r1 c0 x y. r0 < vg_lat_count m \<and> r1 < vg_lat_count m \<and> c0 < vg_lon_count m \<and>
      sample_vector_bilinear u v m ls os (Some la) (Some lo) = Inr (Some (x, y)) \<and>
      (\<forall>low high. (\<forall>i \<in> {r0, r1}. \<forall>j \<in> {c0, (c0 + 1) mod vg_lon_count m}. low \<le> a_cell u i j \<and> a_cell u i j \<le> high) \<longrightarrow> low \<le> x \<and> x \<le> high) \<and>
      sample_vector_bilinear u v m ls os (Some la) (Some (lo + 360)) = Inr (Some (x, y))"
proof -
  obtain r0 r1 dr where r: "sample_row m ls la = (r0, r1, dr)" by (cases "sample_row m ls la") auto
  obtain c0 c1 dc where c: "sample_col m os lo = (c0, c1, dc)" by (cases "sample_col m os lo") auto
  note ro = sample_row_ok [OF r assms(1)] and co = sample_col_ok [OF c assms(2)]
  obtain x where x: "sample_component u (sample_row m ls la) (sample_col m os lo) = Inr x"
    "\<forall>low high. (\<forall>z \<in> {a_cell u r0 c0, a_cell u r0 c1, a_cell u r1 c0, a_cell u r1 c1}. low \<le> z \<and> z \<le> high) \<longrightarrow> low \<le> x \<and> x \<le> high"
    using sample_component_between [OF r c assms(1-4)] by blast
  obtain y where y: "sample_component v (sample_row m ls la) (sample_col m os lo) = Inr y"
    using sample_component_between [OF r c assms(1,2,5,6)] by blast
  have turn: "sample_col m os (lo + 360) = sample_col m os lo"
    using float_mod_turn [of lo] float_mod_turn [of "lo + 180"] by (simp add: sample_col_def algebra_simps)
  have s: "sample_vector_bilinear u v m ls os (Some la) (Some lo) = Inr (Some (x, y))"
    "sample_vector_bilinear u v m ls os (Some la) (Some (lo + 360)) = Inr (Some (x, y))"
    by (simp_all add: sample_vector_bilinear_def turn x(1) y Let_def)
  have "low \<le> x \<and> x \<le> high"
    if "\<forall>i \<in> {r0, r1}. \<forall>j \<in> {c0, (c0 + 1) mod vg_lon_count m}. low \<le> a_cell u i j \<and> a_cell u i j \<le> high" for low high
    using x(2) that co(2) by auto
  with s ro(1,2) co(1) show ?thesis by blast
qed

lemma sampling_total_and_periodic_witness:
  "\<exists>x y. sample_vector_bilinear \<lparr>a_rows = 2, a_cols = 2, a_cell = (\<lambda>i j. real (i + j))\<rparr> \<lparr>a_rows = 2, a_cols = 2, a_cell = (\<lambda>i j. 0)\<rparr>
     \<lparr>vg_lat_start = 0, vg_lat_step = Fin 1, vg_lat_count = 2, vg_lon_start = 0, vg_lon_step = Fin 180, vg_lon_count = 2, vg_scale = 1\<rparr>
     1 180 (Some 0) (Some (- 1)) = Inr (Some (x, y)) \<and>
   sample_vector_bilinear \<lparr>a_rows = 2, a_cols = 2, a_cell = (\<lambda>i j. real (i + j))\<rparr> \<lparr>a_rows = 2, a_cols = 2, a_cell = (\<lambda>i j. 0)\<rparr>
     \<lparr>vg_lat_start = 0, vg_lat_step = Fin 1, vg_lat_count = 2, vg_lon_start = 0, vg_lon_step = Fin 180, vg_lon_count = 2, vg_scale = 1\<rparr>
     1 180 (Some 0) (Some (- 1 + 360)) = Inr (Some (x, y))"
  using sampling_total_and_periodic [of "\<lparr>vg_lat_start = 0, vg_lat_step = Fin 1, vg_lat_count = 2, vg_lon_start = 0, vg_lon_step = Fin 180, vg_lon_count = 2, vg_scale = 1\<rparr>"
      "\<lparr>a_rows = 2, a_cols = 2, a_cell = (\<lambda>i j. real (i + j))\<rparr>" "\<lparr>a_rows = 2, a_cols = 2, a_cell = (\<lambda>i j. 0)\<rparr>" 1 180 0 "- 1"] by auto

end
