(* ===== verification/RealtimeCommitted.thy ===== *)
theory RealtimeCommitted
  imports GcPlanner WavePlanner Lifecycle
begin

text \<open>
  \<open>ingestion/realtime/committed.py\<close>: what the catalog says about a cycle. The committed state of both models, which the planner
  works on, the test whether a cycle is complete, and the incomplete historical cycles that are worth a recovery. The tables are
  those of \<open>GcPlanner\<close>. \<open>CycleIdentity\<close> comes from \<open>ingestion/realtime/scheduler.py\<close>.
\<close>

subsection \<open>Cycles\<close>

record cycle_identity =
  ci_date :: int
  ci_hour :: int

definition cycle_instant :: "cycle_identity \<Rightarrow> instant" where
  "cycle_instant c = days (ci_date c) + hours (ci_hour c)"

definition cycle_label :: "cycle_identity \<Rightarrow> string" where
  "cycle_label c = date_str (days (ci_date c)) @ ''T'' @ fmt0 2 (ci_hour c) @ ''Z''"

text \<open>\<open>CycleIdentity(cycle_date=t.date(), cycle_hour=t.hour)\<close>\<close>

definition cycle_of :: "instant \<Rightarrow> cycle_identity" where
  "cycle_of t = \<lparr>ci_date = t div us_per_day, ci_hour = hour_of t\<rparr>"

subsection \<open>Committed state\<close>

definition MultipleResultsFound :: py_error where "MultipleResultsFound = DomainError ''MultipleResultsFound'' ''''"

definition scalar_one_or_none :: "'a list \<Rightarrow> 'a option result" where
  "scalar_one_or_none xs = (case xs of [] \<Rightarrow> Inr None | [x] \<Rightarrow> Inr (Some x) | _ \<Rightarrow> Inl MultipleResultsFound)"

definition nothing_committed :: model_committed_state where
  "nothing_committed = \<lparr>mcs_leads = {}, mcs_pairs = {}\<rparr>"

definition read_model_committed_state :: "catalog \<Rightarrow> string \<Rightarrow> instant \<Rightarrow> string \<Rightarrow> model_committed_state result" where
  "read_model_committed_state db model_id cycle_time version_string =
     bindE (scalar_one_or_none (map mv_id (filter (\<lambda>v. mv_model_id v = model_id \<and> mv_version_string v = version_string) (db_versions db))))
       (\<lambda>version_id. case version_id of None \<Rightarrow> Inr nothing_committed
        | Some vid \<Rightarrow>
            bindE (scalar_one_or_none (map mr_id (filter (\<lambda>r. mr_model_version_id r = vid \<and> ensure_utc (mr_cycle_time r) = cycle_time) (db_runs db))))
              (\<lambda>run_id. case run_id of None \<Rightarrow> Inr nothing_committed
               | Some rid \<Rightarrow> Inr \<lparr>mcs_leads = set (map pr_lead_time_hours (filter (\<lambda>p. pr_run_id p = rid) (db_products db))),
                   mcs_pairs = set (map (\<lambda>e. (em_member_index e, em_lead_time_hours e)) (filter (\<lambda>e. em_run_id e = rid) (db_member_products db)))\<rparr>))"

definition read_cycle_committed_state ::
    "catalog \<Rightarrow> instant \<Rightarrow> string \<Rightarrow> (model_committed_state \<times> model_committed_state) result" where
  "read_cycle_committed_state db cycle_time version_string =
     bindE (read_model_committed_state db ''gfs'' cycle_time version_string) (\<lambda>gfs.
     bindE (read_model_committed_state db ''gefs'' cycle_time version_string) (\<lambda>gefs. Inr (gfs, gefs)))"

subsection \<open>Complete cycles\<close>

definition target_models :: "string list" where "target_models = [''gfs'', ''gefs'']"

text \<open>The join of the runs and their versions: cycle, model and status of each row\<close>

definition run_rows :: "catalog \<Rightarrow> string \<Rightarrow> (instant \<times> string \<times> string) list" where
  "run_rows db version_string = concat (map (\<lambda>r. map (\<lambda>v. (ensure_utc (mr_cycle_time r), mv_model_id v, mr_status r))
     (filter (\<lambda>v. mv_id v = mr_model_version_id r \<and> mv_version_string v = version_string \<and> mv_model_id v \<in> set target_models) (db_versions db)))
     (db_runs db))"

text \<open>The dictionary from models to statuses that a loop over the rows of a cycle fills\<close>

definition statuses_of :: "instant \<Rightarrow> (instant \<times> string \<times> string) list \<Rightarrow> string \<rightharpoonup> string" where
  "statuses_of c rows = map_of (rev (map snd (filter (\<lambda>row. fst row = c) rows)))"

definition both_ready :: "(string \<rightharpoonup> string) \<Rightarrow> bool" where
  "both_ready statuses = (statuses ''gfs'' = Some ''ready'' \<and> statuses ''gefs'' = Some ''ready'')"

definition is_cycle_durably_complete :: "catalog \<Rightarrow> instant \<Rightarrow> string \<Rightarrow> bool" where
  "is_cycle_durably_complete db cycle_time version_string = both_ready (statuses_of cycle_time (run_rows db version_string))"

subsection \<open>Historical cycles\<close>

definition is_cycle_fenced_or_deleted :: "catalog \<Rightarrow> instant \<Rightarrow> string option \<Rightarrow> bool" where
  "is_cycle_fenced_or_deleted db cycle_time model_id = (case model_id of
     Some m \<Rightarrow> (case find (\<lambda>l. fl_model_id l = norm_key m \<and> ensure_utc (fl_cycle_time l) = cycle_time) (db_lifecycle db) of
         None \<Rightarrow> False | Some l \<Rightarrow> fl_deletion_started_at l \<noteq> None \<or> fl_deleted_at l \<noteq> None)
   | None \<Rightarrow> list_ex (\<lambda>l. fl_deletion_started_at l \<noteq> None \<or> fl_deleted_at l \<noteq> None)
       (filter (\<lambda>l. ensure_utc (fl_cycle_time l) = cycle_time) (db_lifecycle db)))"

text \<open>One candidate of the loop\<close>

definition recoverable ::
    "horizon_registry \<Rightarrow> catalog \<Rightarrow> instant \<Rightarrow> string \<Rightarrow> (instant \<times> string \<times> string) list \<Rightarrow> instant \<Rightarrow> bool result" where
  "recoverable reg db serving_start version_string rows c_utc =
     (let statuses = statuses_of c_utc rows in
      if both_ready statuses then Inr False
      else if is_cycle_fenced_or_deleted db c_utc None then Inr False
      else let incomplete_models = filter (\<lambda>m. statuses m \<noteq> Some ''ready'') target_models in
        bindE (max_model_lead_hours reg (if incomplete_models = [] then target_models else incomplete_models) (Some version_string) None)
          (\<lambda>candidate_max_lead. Inr (\<not> is_cycle_horizon_expired (utc_datetime c_utc) candidate_max_lead (utc_datetime serving_start))))"

definition discover_incomplete_historical_cycles ::
    "horizon_registry \<Rightarrow> catalog \<Rightarrow> instant \<Rightarrow> instant \<Rightarrow> string \<Rightarrow> cycle_identity list result" where
  "discover_incomplete_historical_cycles reg db active_cycle_time now_utc version_string =
     bindE (serving_start_valid_time (utc_datetime now_utc) CANONICAL_LEAD_CADENCE_HOURS) (\<lambda>serving_start.
     bindE (max_model_lead_hours reg target_models (Some version_string) None) (\<lambda>scan_max_lead.
       let min_cycle_time = serving_start - hours scan_max_lead;
           rows = filter (\<lambda>row. fst row < active_cycle_time \<and> min_cycle_time \<le> fst row) (run_rows db version_string)
       in bindE (filterE (recoverable reg db serving_start version_string rows) (rev (sort (remdups (map fst rows)))))
            (\<lambda>cycles. Inr (map cycle_of cycles))))"

end
