(* ===== verification/PyState.thy ===== *)
theory PyState
  imports Prelude
begin

text \<open>
  Code that changes a state and may raise: a computation takes the state and returns a result together with the state it left,
  so that what was assigned before an exception stays assigned.
\<close>

type_synonym ('s, 'a) py = "'s \<Rightarrow> 'a result \<times> 's"

definition ret :: "'a \<Rightarrow> ('s, 'a) py" where "ret x s = (Inr x, s)"

definition raise_error :: "py_error \<Rightarrow> ('s, 'a) py" where "raise_error e s = (Inl e, s)"

definition bindP :: "('s, 'a) py \<Rightarrow> ('a \<Rightarrow> ('s, 'b) py) \<Rightarrow> ('s, 'b) py" where
  "bindP m f s = (case m s of (Inl e, s1) \<Rightarrow> (Inl e, s1) | (Inr x, s1) \<Rightarrow> f x s1)"

definition liftE :: "'a result \<Rightarrow> ('s, 'a) py" where "liftE r s = (r, s)"

definition modify :: "('s \<Rightarrow> 's) \<Rightarrow> ('s, unit) py" where "modify f s = (Inr (), f s)"

definition gets :: "('s \<Rightarrow> 'a) \<Rightarrow> ('s, 'a) py" where "gets f s = (Inr (f s), s)"

text \<open>\<open>try: m except Exception: ...\<close> with the outcome of the body as a value\<close>

definition attempt :: "('s, 'a) py \<Rightarrow> ('s, 'a result) py" where
  "attempt m s = (case m s of (r, s1) \<Rightarrow> (Inr r, s1))"

lemmas py_defs = ret_def raise_error_def liftE_def modify_def gets_def attempt_def

lemma py_run_iff [simp]:
  "ret x s = (r, s1) \<longleftrightarrow> r = Inr x \<and> s1 = s" "raise_error e s = (r, s1) \<longleftrightarrow> r = Inl e \<and> s1 = s"
  "liftE q s = (r, s1) \<longleftrightarrow> q = r \<and> s1 = s" "modify f s = (q1, s1) \<longleftrightarrow> q1 = Inr () \<and> s1 = f s" "gets h s = (q2, s1) \<longleftrightarrow> q2 = Inr (h s) \<and> s1 = s"
  by (auto simp: py_defs)

lemma bindP_Inr: "m s = (Inr x, s1) \<Longrightarrow> bindP m f s = f x s1" by (simp add: bindP_def)
lemma bindP_Inl: "m s = (Inl e, s1) \<Longrightarrow> bindP m f s = (Inl e, s1)" by (simp add: bindP_def)
lemma bindP_attempt: "m s = (r, s1) \<Longrightarrow> bindP (attempt m) f s = f r s1" by (simp add: bindP_def attempt_def)

lemma bindP_InrE:
  assumes "bindP m f s = (Inr y, s2)"
  obtains x s1 where "m s = (Inr x, s1)" "f x s1 = (Inr y, s2)"
  using assms by (auto simp: bindP_def split: prod.splits sum.splits)

lemma attempt_iff [simp]: "attempt m s = (r, s1) \<longleftrightarrow> (\<exists>q. r = Inr q \<and> m s = (q, s1))"
  by (auto simp: attempt_def split: prod.splits)

lemma bindP_eq:
  "bindP m f s = (r, s2) \<longleftrightarrow> (\<exists>e. m s = (Inl e, s2) \<and> r = Inl e) \<or> (\<exists>x s1. m s = (Inr x, s1) \<and> f x s1 = (r, s2))"
  by (cases "m s") (auto simp: bindP_def split: sum.splits)

text \<open>What every step of a computation keeps\<close>

definition keeps :: "('s \<Rightarrow> bool) \<Rightarrow> ('s, 'a) py \<Rightarrow> bool" where
  "keeps P m \<longleftrightarrow> (\<forall>s. P s \<longrightarrow> P (snd (m s)))"

lemma keepsD: "keeps P m \<Longrightarrow> P s \<Longrightarrow> m s = (r, s1) \<Longrightarrow> P s1"
  by (metis keeps_def snd_conv)

lemma keeps_intros [intro]:
  "keeps P (ret x)" "keeps P (raise_error e)" "keeps P (liftE r)" "keeps P (gets f)" "keeps P m \<Longrightarrow> keeps P (attempt m)"
  "keeps P m \<Longrightarrow> (\<And>x. keeps P (k x)) \<Longrightarrow> keeps P (bindP m k)" "(\<And>s. P s \<Longrightarrow> P (f s)) \<Longrightarrow> keeps P (modify f)"
  by (auto simp: keeps_def py_defs bindP_def split: prod.splits sum.splits)

end
