(* ===== verification/RealtimeScheduler.thy ===== *)
theory RealtimeScheduler
  imports RealtimeCommitted Polling PyState PyFloat
begin

text \<open>
  \<open>ingestion/realtime/scheduler.py\<close>: one poll of the realtime scheduler (find the active cycle, plan, dispatch a wave, or else
  recover a historical cycle), and the loop around it. The fields of \<open>RealtimeScheduler\<close> are the record \<open>sched\<close>; what the class
  takes as injected functions (clock, leadership, stop event, discovery, catalog, waves, sleep) is the record \<open>sched_env\<close>, over a
  world that every call may change. The production functions read the catalog as \<open>RealtimeCommitted\<close> models it.
\<close>

type_synonym snapshots = "cycle_snapshot option \<times> cycle_snapshot option"

record sched_settings =
  st_wave_max_leads :: int
  st_wave_max_wait :: real
  st_first_publication_delay :: real
  st_backlog_enabled :: bool
  st_backlog_retry_backoff :: real
  st_backlog_max_backoff :: real
  st_quarantine_threshold :: nat
  st_quarantine_seconds :: real
  st_active_failure_backoff :: real
  st_active_max_backoff :: real
  st_cycle_override :: "cycle_identity option"
  st_version_string :: string
  st_horizons :: horizon_registry
  st_coverage :: coverage_state

record sched =
  sc_machine :: poll_machine
  sc_active_cycle :: "cycle_identity option"
  sc_active_last_good :: "snapshots option"
  sc_active_first_seen :: "int \<rightharpoonup> real"
  sc_active_failures :: nat
  sc_active_blocked_until :: real
  sc_selected_backlog_cycle :: "cycle_identity option"
  sc_backlog_first_seen :: "int \<rightharpoonup> real"
  sc_backlog_failures :: "string \<rightharpoonup> nat"
  sc_backlog_blocked_until :: "string \<rightharpoonup> real"
  sc_backlog_quarantined_until :: "string \<rightharpoonup> pyfloat"
  sc_backlog_rotation_offset :: nat
  sc_backlog_snapshots :: "string \<rightharpoonup> snapshots"
  sc_cached_candidates :: "cycle_identity list option"
  sc_candidates_last_refreshed_at :: real
  sc_last_poll_success_at :: "real option"
  sc_last_activity_at :: "real option"

definition start_sched :: "poll_machine \<Rightarrow> sched" where
  "start_sched machine = \<lparr>sc_machine = machine, sc_active_cycle = None, sc_active_last_good = None, sc_active_first_seen = Map.empty,
     sc_active_failures = 0, sc_active_blocked_until = 0, sc_selected_backlog_cycle = None, sc_backlog_first_seen = Map.empty,
     sc_backlog_failures = Map.empty, sc_backlog_blocked_until = Map.empty, sc_backlog_quarantined_until = Map.empty,
     sc_backlog_rotation_offset = 0, sc_backlog_snapshots = Map.empty, sc_cached_candidates = None,
     sc_candidates_last_refreshed_at = 0, sc_last_poll_success_at = None, sc_last_activity_at = None\<rparr>"

record wave_dispatch_result =
  wd_model :: string
  wd_targets :: "int list"
  wd_status :: "string option"
  wd_failures :: "string list"
  wd_error :: "string option"

definition dispatch_ok :: "wave_dispatch_result \<Rightarrow> bool" where
  "dispatch_ok d = (wd_error d = None \<and> wd_failures d = [])"

record poll_outcome =
  po_kind :: string
  po_cycle :: "cycle_identity option"
  po_plan :: "frontier_plan option"
  po_dispatches :: "wave_dispatch_result list"
  po_error :: "py_error option"
  po_activity :: bool

subsection \<open>The environment\<close>

record 'w sched_env =
  en_clock :: "'w \<Rightarrow> real \<times> 'w"
  en_leader :: "('w \<Rightarrow> bool \<times> 'w) option"
  en_acquire :: "'w \<Rightarrow> bool result \<times> 'w"
  en_release :: "'w \<Rightarrow> 'w"
  en_preflight :: "'w \<Rightarrow> unit result \<times> 'w"
  en_stopped :: "'w \<Rightarrow> bool"
  en_sleep :: "real \<Rightarrow> 'w \<Rightarrow> 'w"
  en_uniform :: "'w \<Rightarrow> (real \<Rightarrow> real \<Rightarrow> real) \<times> 'w"
  en_discover :: "cycle_identity \<Rightarrow> 'w \<Rightarrow> snapshots result \<times> 'w"
  en_read_committed :: "cycle_identity \<Rightarrow> 'w \<Rightarrow> (model_committed_state \<times> model_committed_state) result \<times> 'w"
  en_discover_candidates :: "cycle_identity \<Rightarrow> instant \<Rightarrow> 'w \<Rightarrow> cycle_identity list result \<times> 'w"
  en_is_complete :: "cycle_identity \<Rightarrow> 'w \<Rightarrow> bool result \<times> 'w"
  en_repair_status :: "cycle_identity \<Rightarrow> 'w \<Rightarrow> wave_dispatch_result list result \<times> 'w"
  en_dispatch_wave :: "string \<Rightarrow> int list \<Rightarrow> cycle_identity \<Rightarrow> 'w \<Rightarrow> wave_dispatch_result result \<times> 'w"
  en_sha256 :: "(int \<times> int \<times> bool \<times> int \<times> bool \<times> int) list \<Rightarrow> string"

text \<open>A call that may raise, one that does not, a read and an assignment of a field\<close>

definition call :: "('w \<Rightarrow> 'a result \<times> 'w) \<Rightarrow> (sched \<times> 'w, 'a) py" where
  "call f s = (case f (snd s) of (r, w) \<Rightarrow> (r, (fst s, w)))"

definition ask :: "('w \<Rightarrow> 'a \<times> 'w) \<Rightarrow> (sched \<times> 'w, 'a) py" where
  "ask f s = (case f (snd s) of (x, w) \<Rightarrow> (Inr x, (fst s, w)))"

definition field :: "(sched \<Rightarrow> 'a) \<Rightarrow> (sched \<times> 'w, 'a) py" where
  "field h s = (Inr (h (fst s)), s)"

definition assign :: "(sched \<Rightarrow> sched) \<Rightarrow> (sched \<times> 'w, unit) py" where
  "assign f s = (Inr (), (f (fst s), snd s))"

text \<open>\<open>datetime.fromtimestamp(t, tz=utc)\<close> and \<open>timedelta(seconds=t)\<close>, to the nearest microsecond\<close>

definition microseconds :: "real \<Rightarrow> int" where "microseconds t = py_round (t * 1000000)"

subsection \<open>The active cycle\<close>

definition CYCLE_HOURS :: "int list" where "CYCLE_HOURS = [0, 6, 12, 18]"

definition newest_eligible_cycle :: "instant \<Rightarrow> real \<Rightarrow> cycle_identity result" where
  "newest_eligible_cycle now_utc first_publication_delay_seconds =
     (let threshold = now_utc - microseconds first_publication_delay_seconds;
          slots = concat (map (\<lambda>day_offset. map (\<lambda>hour. \<lparr>ci_date = (now_utc + days day_offset) div us_per_day, ci_hour = hour\<rparr>)
                    (rev CYCLE_HOURS)) [0, - 1, - 2])
      in case find (\<lambda>c. cycle_instant c \<le> threshold) slots of
           Some c \<Rightarrow> Inr c | None \<Rightarrow> Inl (DomainError ''RuntimeError'' ''no eligible cycle found''))"

definition snapshots_empty :: "snapshots \<Rightarrow> bool" where
  "snapshots_empty snaps = (case snaps of (gfs, gefs) \<Rightarrow>
     (case gfs of None \<Rightarrow> True | Some s \<Rightarrow> cs_regions s = []) \<and> (case gefs of None \<Rightarrow> True | Some s \<Rightarrow> cs_regions s = []))"

definition changed :: "'w sched_env \<Rightarrow> cycle_snapshot option \<Rightarrow> cycle_snapshot option \<Rightarrow> bool" where
  "changed env prev cur = (case (prev, cur) of
     (Some p, Some c) \<Rightarrow> publication_changed (en_sha256 env) p c | _ \<Rightarrow> False)"

definition previous_cycle :: "cycle_identity option \<Rightarrow> cycle_identity \<Rightarrow> cycle_identity" where
  "previous_cycle tracked candidate =
     (if tracked \<noteq> None \<and> tracked \<noteq> Some candidate then the tracked
      else \<lparr>ci_date = ci_date candidate - (if ci_hour candidate = 0 then 1 else 0), ci_hour = (ci_hour candidate - 6) mod 24\<rparr>)"

definition resolve_cycle ::
    "sched_settings \<Rightarrow> 'w sched_env \<Rightarrow> (sched \<times> 'w, (cycle_identity \<times> snapshots \<times> bool) option) py" where
  "resolve_cycle st env =
     bindP (ask (en_clock env)) (\<lambda>now. case st_cycle_override st of
       Some c \<Rightarrow> bindP (call (en_discover env c)) (\<lambda>snaps. bindP (field sc_active_cycle) (\<lambda>tracked.
                  ret (Some (c, snaps, tracked \<noteq> Some c))))
     | None \<Rightarrow>
         bindP (liftE (newest_eligible_cycle (microseconds now) (st_first_publication_delay st))) (\<lambda>candidate.
         bindP (call (en_discover env candidate)) (\<lambda>snaps. bindP (field sc_active_cycle) (\<lambda>tracked.
           if snapshots_empty snaps then
             let previous = previous_cycle tracked candidate in
             bindP (call (en_discover env previous)) (\<lambda>snaps1.
               if snapshots_empty snaps1 then ret None else ret (Some (previous, snaps1, tracked \<noteq> Some previous)))
           else ret (Some (candidate, snaps, tracked \<noteq> Some candidate))))))"

definition leader_active :: "'w sched_env \<Rightarrow> (sched \<times> 'w, bool) py" where
  "leader_active env = (case en_leader env of None \<Rightarrow> ret True | Some check \<Rightarrow> ask check)"

subsection \<open>Failures and quarantine\<close>

text \<open>\<open>min(base * 2 ** (count - 1), maximum)\<close>: the power is an integer, and converting it to a float fails from \<open>2 ** 1024\<close> on.\<close>

definition backoff_after :: "real \<Rightarrow> real \<Rightarrow> nat \<Rightarrow> real result" where
  "backoff_after base maximum count =
     (if 1024 < count then Inl (OverflowError ''int too large to convert to float'') else Inr (min (base * 2 ^ (count - 1)) maximum))"

definition sync_quarantine :: "real \<Rightarrow> sched \<Rightarrow> sched" where
  "sync_quarantine now sc = sc
     \<lparr>sc_backlog_quarantined_until := (\<lambda>l. case sc_backlog_quarantined_until sc l of
        Some until \<Rightarrow> if f_le until (Fin now) then None else Some until | None \<Rightarrow> None),
      sc_backlog_failures := (\<lambda>l. case sc_backlog_quarantined_until sc l of
        Some until \<Rightarrow> if f_le until (Fin now) then None else sc_backlog_failures sc l | None \<Rightarrow> sc_backlog_failures sc l)\<rparr>"

definition record_backlog_failure :: "sched_settings \<Rightarrow> string \<Rightarrow> real \<Rightarrow> (sched \<times> 'w, real) py" where
  "record_backlog_failure st label now =
     bindP (field sc_backlog_failures) (\<lambda>fails. let count = (case fails label of Some n \<Rightarrow> n | None \<Rightarrow> 0) + 1 in
     bindP (assign (sc_backlog_failures_update (\<lambda>m. m(label \<mapsto> count)))) (\<lambda>_.
     bindP (liftE (backoff_after (st_backlog_retry_backoff st) (st_backlog_max_backoff st) count)) (\<lambda>backoff.
     bindP (assign (sc_backlog_blocked_until_update (\<lambda>m. m(label \<mapsto> now + backoff)))) (\<lambda>_.
       if st_quarantine_threshold st \<le> count then
         bindP (assign (sc_backlog_quarantined_until_update
           (\<lambda>m. m(label \<mapsto> if 0 < st_quarantine_seconds st then Fin (now + st_quarantine_seconds st) else PInf)))) (\<lambda>_.
         bindP (assign (sync_quarantine now)) (\<lambda>_. ret backoff))
       else ret backoff))))"

definition clear_backlog_failure :: "'w sched_env \<Rightarrow> string \<Rightarrow> (sched \<times> 'w, unit) py" where
  "clear_backlog_failure env label =
     bindP (assign (\<lambda>sc. sc\<lparr>sc_backlog_failures := (sc_backlog_failures sc)(label := None),
       sc_backlog_blocked_until := (sc_backlog_blocked_until sc)(label := None)\<rparr>)) (\<lambda>_.
     bindP (field sc_backlog_quarantined_until) (\<lambda>quarantined.
       if quarantined label \<noteq> None then
         bindP (assign (sc_backlog_quarantined_until_update (\<lambda>m. m(label := None)))) (\<lambda>_.
         bindP (ask (en_clock env)) (\<lambda>t. assign (sync_quarantine t)))
       else ret ()))"

subsection \<open>The backlog\<close>

definition invalidate_candidate_cache :: "sched \<Rightarrow> sched" where
  "invalidate_candidate_cache sc = sc\<lparr>sc_cached_candidates := None, sc_candidates_last_refreshed_at := 0\<rparr>"

definition get_candidates ::
    "'w sched_env \<Rightarrow> cycle_identity \<Rightarrow> real \<Rightarrow> instant \<Rightarrow> (sched \<times> 'w, cycle_identity list) py" where
  "get_candidates env active now now_utc =
     bindP (field sc_cached_candidates) (\<lambda>cached. bindP (field sc_candidates_last_refreshed_at) (\<lambda>last.
       let refresh_interval = (if cached = None \<or> cached = Some [] then 60 else 600) in
       if cached = None \<or> refresh_interval \<le> now - last then
         bindP (attempt (call (en_discover_candidates env active now_utc))) (\<lambda>r. case r of
           Inr cs \<Rightarrow> bindP (assign (\<lambda>sc. sc\<lparr>sc_cached_candidates := Some cs, sc_candidates_last_refreshed_at := now\<rparr>)) (\<lambda>_. ret cs)
         | Inl e \<Rightarrow> ret (case cached of Some cs \<Rightarrow> cs | None \<Rightarrow> []))
       else ret (the cached)))"

definition block_candidate :: "sched_settings \<Rightarrow> string \<Rightarrow> real \<Rightarrow> sched \<Rightarrow> sched" where
  "block_candidate st label now sc = sc\<lparr>sc_backlog_blocked_until := (sc_backlog_blocked_until sc)(label \<mapsto> now + st_backlog_retry_backoff st),
     sc_backlog_snapshots := (sc_backlog_snapshots sc)(label := None)\<rparr>"

definition held_back :: "sched \<Rightarrow> string \<Rightarrow> real \<Rightarrow> bool" where
  "held_back sc label now =
     (now < (case sc_backlog_blocked_until sc label of Some t \<Rightarrow> t | None \<Rightarrow> 0) \<or>
      f_lt (Fin now) (case sc_backlog_quarantined_until sc label of Some t \<Rightarrow> t | None \<Rightarrow> Fin 0))"

text \<open>The snapshots of a candidate, remembered between polls\<close>

definition candidate_snapshots :: "'w sched_env \<Rightarrow> cycle_identity \<Rightarrow> (sched \<times> 'w, snapshots result) py" where
  "candidate_snapshots env c =
     bindP (field (\<lambda>sc. sc_backlog_snapshots sc (cycle_label c))) (\<lambda>known. case known of
       Some snaps \<Rightarrow> ret (Inr snaps)
     | None \<Rightarrow> bindP (attempt (call (en_discover env c))) (\<lambda>r. case r of
         Inl e \<Rightarrow> ret (Inl e)
       | Inr snaps \<Rightarrow> bindP (assign (sc_backlog_snapshots_update (\<lambda>m. m(cycle_label c \<mapsto> snaps)))) (\<lambda>_. ret (Inr snaps))))"

text \<open>What the loop does with a candidate after its plan: \<open>None\<close> goes on with the next one\<close>

definition judge_plan ::
    "sched_settings \<Rightarrow> cycle_identity \<Rightarrow> real \<Rightarrow> frontier_plan \<Rightarrow> (sched \<times> 'w, (cycle_identity \<times> frontier_plan) option) py" where
  "judge_plan st c now plan =
     (if fp_wave_due plan \<and> fp_wave_candidate plan \<noteq> [] then
        bindP (assign (\<lambda>sc. sc\<lparr>sc_selected_backlog_cycle := Some c\<rparr>)) (\<lambda>_. ret (Some (c, plan)))
      else if fp_next_blocked_lead plan \<noteq> None then bindP (assign (block_candidate st (cycle_label c) now)) (\<lambda>_. ret None)
      else if fp_blocked_reason plan = Some BLOCK_HORIZON_COMPLETE then
        bindP (assign (\<lambda>sc. sc\<lparr>sc_selected_backlog_cycle := Some c\<rparr>)) (\<lambda>_. ret (Some (c, plan)))
      else ret None)"

definition examine_candidate ::
    "sched_settings \<Rightarrow> 'w sched_env \<Rightarrow> cycle_identity \<Rightarrow> real \<Rightarrow> instant \<Rightarrow> int \<Rightarrow> cycle_identity
     \<Rightarrow> (sched \<times> 'w, (cycle_identity \<times> frontier_plan) option) py" where
  "examine_candidate st env active now serving_start max_lead c =
     (if c = active \<or> is_cycle_horizon_expired (utc_datetime (cycle_instant c)) max_lead (utc_datetime serving_start) then ret None
      else bindP (field (\<lambda>sc. held_back sc (cycle_label c) now)) (\<lambda>held.
        if held then ret None
        else bindP (attempt (call (en_is_complete env c))) (\<lambda>complete.
          if complete = Inr True then ret None
          else bindP (attempt (call (en_read_committed env c))) (\<lambda>committed. case committed of
            Inl e \<Rightarrow> bindP (assign (block_candidate st (cycle_label c) now)) (\<lambda>_. ret None)
          | Inr (committed_gfs, committed_gefs) \<Rightarrow> bindP (candidate_snapshots env c) (\<lambda>r. case r of
              Inl e \<Rightarrow> bindP (assign (block_candidate st (cycle_label c) now)) (\<lambda>_. ret None)
            | Inr (gfs, gefs) \<Rightarrow>
                if snapshots_empty (gfs, gefs) then bindP (assign (block_candidate st (cycle_label c) now)) (\<lambda>_. ret None)
                else bindP (field sc_backlog_first_seen) (\<lambda>timing.
                     bindP (liftE (plan_wave (st_horizons st) (st_coverage st) (cycle_label c) gfs gefs committed_gfs committed_gefs
                       \<lparr>wp_max_leads = st_wave_max_leads st, wp_max_wait_seconds = 0\<rparr> timing now None None)) (judge_plan st c now)))))))"

fun scan_candidates ::
    "(cycle_identity \<Rightarrow> ('s, (cycle_identity \<times> frontier_plan) option) py) \<Rightarrow> cycle_identity list
     \<Rightarrow> ('s, (cycle_identity \<times> frontier_plan) option) py" where
  "scan_candidates examine [] = ret None"
| "scan_candidates examine (c # cs) = bindP (examine c) (\<lambda>r. case r of Some x \<Rightarrow> ret (Some x) | None \<Rightarrow> scan_candidates examine cs)"

definition rotated :: "nat \<Rightarrow> 'a list \<Rightarrow> 'a list" where
  "rotated offset xs = (if xs \<noteq> [] \<and> offset \<noteq> 0 then drop (offset mod length xs) xs @ take (offset mod length xs) xs else xs)"

definition select_backlog_cycle ::
    "sched_settings \<Rightarrow> 'w sched_env \<Rightarrow> cycle_identity \<Rightarrow> real \<Rightarrow> instant \<Rightarrow> (sched \<times> 'w, (cycle_identity \<times> frontier_plan) option) py" where
  "select_backlog_cycle st env active now now_utc =
     (if \<not> st_backlog_enabled st \<or> st_cycle_override st \<noteq> None then ret None
      else bindP (assign (sync_quarantine now)) (\<lambda>_.
           bindP (get_candidates env active now now_utc) (\<lambda>candidates.
           bindP (field sc_backlog_rotation_offset) (\<lambda>offset.
           bindP (liftE (serving_start_valid_time (utc_datetime now_utc) CANONICAL_LEAD_CADENCE_HOURS)) (\<lambda>serving_start.
           bindP (liftE (max_model_lead_hours (st_horizons st) [''gfs'', ''gefs''] (Some (st_version_string st)) None)) (\<lambda>max_lead.
           bindP (scan_candidates (examine_candidate st env active now serving_start max_lead) (rotated offset candidates)) (\<lambda>r. case r of
             Some x \<Rightarrow> ret (Some x)
           | None \<Rightarrow> bindP (assign (\<lambda>sc. sc\<lparr>sc_selected_backlog_cycle := None\<rparr>)) (\<lambda>_. ret None))))))))"

subsection \<open>Dispatching\<close>

text \<open>The cancel event of a wave is set with the stop event, by its listener.\<close>

fun dispatch_models :: "'w sched_env \<Rightarrow> cycle_identity \<Rightarrow> (string \<times> int list) list \<Rightarrow> (sched \<times> 'w, wave_dispatch_result list) py" where
  "dispatch_models env c [] = ret []"
| "dispatch_models env c ((model, targets) # rest) =
     (if targets = [] then dispatch_models env c rest
      else bindP (gets (\<lambda>s. en_stopped env (snd s))) (\<lambda>stopped.
        if stopped then ret []
        else bindP (call (en_dispatch_wave env model targets c)) (\<lambda>d. bindP (dispatch_models env c rest) (\<lambda>ds. ret (d # ds)))))"

definition dispatch_wave :: "'w sched_env \<Rightarrow> cycle_identity \<Rightarrow> frontier_plan \<Rightarrow> (sched \<times> 'w, wave_dispatch_result list) py" where
  "dispatch_wave env c plan = dispatch_models env c [(''gfs'', fp_wave_targets_gfs plan), (''gefs'', fp_wave_targets_gefs plan)]"

text \<open>Priority 1: the wave of the active cycle\<close>

definition dispatch_active ::
    "sched_settings \<Rightarrow> 'w sched_env \<Rightarrow> cycle_identity \<Rightarrow> frontier_plan \<Rightarrow> real \<Rightarrow> (sched \<times> 'w, wave_dispatch_result list) py" where
  "dispatch_active st env c plan now =
     bindP (dispatch_wave env c plan) (\<lambda>ds.
       if list_ex (\<lambda>d. \<not> dispatch_ok d) ds then
         bindP (assign (sc_active_failures_update Suc)) (\<lambda>_. bindP (field sc_active_failures) (\<lambda>failures.
         bindP (liftE (backoff_after (st_active_failure_backoff st) (st_active_max_backoff st) failures)) (\<lambda>backoff.
         bindP (assign (\<lambda>sc. sc\<lparr>sc_active_blocked_until := now + backoff\<rparr>)) (\<lambda>_. ret ds))))
       else bindP (assign (\<lambda>sc. sc\<lparr>sc_active_failures := 0, sc_active_blocked_until := 0\<rparr>)) (\<lambda>_. ret ds))"

text \<open>Priority 2: a wave or a repair of a historical cycle\<close>

definition settle_backlog :: "sched_settings \<Rightarrow> 'w sched_env \<Rightarrow> cycle_identity \<Rightarrow> bool \<Rightarrow> real \<Rightarrow> (sched \<times> 'w, unit) py" where
  "settle_backlog st env c repairing now =
     bindP (clear_backlog_failure env (cycle_label c)) (\<lambda>_.
     bindP (assign (sc_backlog_snapshots_update (\<lambda>m. m(cycle_label c := None)))) (\<lambda>_.
     bindP (attempt (bindP (call (en_is_complete env c)) (\<lambda>complete.
         if complete then assign invalidate_candidate_cache
         else if repairing then bindP (record_backlog_failure st (cycle_label c) now) (\<lambda>_. ret ())
         else assign (sc_backlog_rotation_offset_update Suc)))) (\<lambda>_. ret ())))"

definition catch_up ::
    "sched_settings \<Rightarrow> 'w sched_env \<Rightarrow> bool \<Rightarrow> cycle_identity \<Rightarrow> frontier_plan \<Rightarrow> real
     \<Rightarrow> (sched \<times> 'w, cycle_identity \<times> frontier_plan \<times> wave_dispatch_result list) py" where
  "catch_up st env dry_run active plan now =
     bindP (select_backlog_cycle st env active now (microseconds now)) (\<lambda>chosen. case chosen of
       None \<Rightarrow> ret (active, plan, [])
     | Some (c, backlog_plan) \<Rightarrow>
         if dry_run then ret (c, backlog_plan, [])
         else let repairing = (fp_wave_candidate backlog_plan = []) in
           bindP (if repairing then call (en_repair_status env c) else dispatch_wave env c backlog_plan) (\<lambda>ds.
           bindP (if list_ex (\<lambda>d. \<not> dispatch_ok d) ds
                  then bindP (record_backlog_failure st (cycle_label c) now) (\<lambda>_. ret ())
                  else settle_backlog st env c repairing now) (\<lambda>_. ret (c, backlog_plan, ds))))"

subsection \<open>One poll\<close>

definition failed_poll :: "string \<Rightarrow> cycle_identity option \<Rightarrow> py_error option \<Rightarrow> bool \<Rightarrow> poll_outcome" where
  "failed_poll kind c e activity =
     \<lparr>po_kind = kind, po_cycle = c, po_plan = None, po_dispatches = [], po_error = e, po_activity = activity\<rparr>"

definition switch_to :: "cycle_identity \<Rightarrow> snapshots \<Rightarrow> sched \<Rightarrow> sched" where
  "switch_to c snaps sc = (invalidate_candidate_cache sc)\<lparr>sc_active_failures := 0, sc_active_blocked_until := 0,
     sc_active_first_seen := Map.empty, sc_active_last_good := Some snaps, sc_active_cycle := Some c\<rparr>"

definition finish_poll :: "bool \<Rightarrow> snapshots \<Rightarrow> real \<Rightarrow> sched \<Rightarrow> sched" where
  "finish_poll activity snaps now sc = sc\<lparr>sc_machine := on_poll_success activity (sc_machine sc), sc_active_last_good := Some snaps,
     sc_last_poll_success_at := Some now, sc_last_activity_at := (if activity then Some now else sc_last_activity_at sc)\<rparr>"

definition plan_and_dispatch ::
    "sched_settings \<Rightarrow> 'w sched_env \<Rightarrow> bool \<Rightarrow> cycle_identity \<Rightarrow> snapshots \<Rightarrow> bool \<Rightarrow> model_committed_state \<Rightarrow> model_committed_state \<Rightarrow> real
     \<Rightarrow> (sched \<times> 'w, poll_outcome) py" where
  "plan_and_dispatch st env dry_run c snaps activity committed_gfs committed_gefs now =
     bindP (field sc_active_first_seen) (\<lambda>timing.
     bindP (liftE (plan_wave (st_horizons st) (st_coverage st) (cycle_label c) (fst snaps) (snd snaps) committed_gfs committed_gefs
       \<lparr>wp_max_leads = st_wave_max_leads st, wp_max_wait_seconds = st_wave_max_wait st\<rparr> timing now None None)) (\<lambda>plan.
     bindP (assign (\<lambda>sc. sc\<lparr>sc_active_first_seen := (\<lambda>lead. if lead \<in> set (fp_pending_complete_leads plan)
         then Some (case timing lead of Some t \<Rightarrow> t | None \<Rightarrow> now) else None)\<rparr>)) (\<lambda>_.
     bindP (field sc_active_blocked_until) (\<lambda>blocked_until.
       let ready = (fp_wave_due plan \<and> fp_wave_candidate plan \<noteq> [] \<and> \<not> now < blocked_until) in
       bindP (if ready then (if dry_run then ret (c, plan, []) else bindP (dispatch_active st env c plan now) (\<lambda>ds. ret (c, plan, ds)))
              else catch_up st env dry_run c plan now) (\<lambda>(dispatched_cycle, dispatched_plan, ds).
       bindP (assign (finish_poll (activity \<or> ds \<noteq> []) snaps now)) (\<lambda>_.
         ret \<lparr>po_kind = (if fp_pending_complete_leads dispatched_plan \<noteq> [] \<or> ds \<noteq> [] then ''planned'' else ''idle''),
              po_cycle = Some dispatched_cycle, po_plan = Some dispatched_plan, po_dispatches = ds, po_error = None,
              po_activity = (activity \<or> ds \<noteq> [])\<rparr>))))))"

definition publication_activity :: "'w sched_env \<Rightarrow> snapshots option \<Rightarrow> snapshots \<Rightarrow> bool \<Rightarrow> bool" where
  "publication_activity env last_good snaps switched = (case last_good of
     Some prev \<Rightarrow> if switched then \<not> snapshots_empty snaps
                  else changed env (fst prev) (fst snaps) \<or> changed env (snd prev) (snd snaps)
   | None \<Rightarrow> switched \<and> \<not> snapshots_empty snaps)"

text \<open>With the cycle and its snapshots: read the committed state, switch cycles, plan\<close>

definition poll_cycle ::
    "sched_settings \<Rightarrow> 'w sched_env \<Rightarrow> bool \<Rightarrow> cycle_identity \<Rightarrow> snapshots \<Rightarrow> bool \<Rightarrow> (sched \<times> 'w, poll_outcome) py" where
  "poll_cycle st env dry_run c snaps switched =
     bindP (field sc_active_last_good) (\<lambda>last_good.
     let activity = publication_activity env last_good snaps switched in
     bindP (attempt (call (en_read_committed env c))) (\<lambda>committed. case committed of
       Inl e \<Rightarrow> ret (failed_poll ''state-read-failed'' (Some c) (Some e) activity)
     | Inr (committed_gfs, committed_gefs) \<Rightarrow>
         bindP (if switched then assign (switch_to c snaps) else ret ()) (\<lambda>_.
         bindP (ask (en_clock env)) (\<lambda>now. plan_and_dispatch st env dry_run c snaps activity committed_gfs committed_gefs now))))"

definition poll_once :: "sched_settings \<Rightarrow> 'w sched_env \<Rightarrow> bool \<Rightarrow> (sched \<times> 'w, poll_outcome) py" where
  "poll_once st env dry_run =
     bindP (leader_active env) (\<lambda>leader.
       if \<not> leader then ret (failed_poll ''leadership-lost'' None (Some (DomainError ''RuntimeError'' ''scheduler does not hold leadership'')) False)
       else bindP (attempt (resolve_cycle st env)) (\<lambda>resolved. case resolved of
         Inl e \<Rightarrow> ret (failed_poll ''discovery-failed'' None (Some e) False)
       | Inr None \<Rightarrow> ret (failed_poll ''idle'' None None False)
       | Inr (Some (c, snaps, switched)) \<Rightarrow> poll_cycle st env dry_run c snaps switched))"

subsection \<open>The loop\<close>

text \<open>Leadership at the start and after a loss: \<open>Some code\<close> ends the run.\<close>

definition acquire_leadership :: "'w sched_env \<Rightarrow> (sched \<times> 'w, int option) py" where
  "acquire_leadership env = bindP (attempt (call (en_acquire env))) (\<lambda>r. ret (case r of
     Inr True \<Rightarrow> None | Inr False \<Rightarrow> Some 0 | Inl e \<Rightarrow> Some 1))"

definition keep_leadership :: "'w sched_env \<Rightarrow> (sched \<times> 'w, int option) py" where
  "keep_leadership env = bindP (leader_active env) (\<lambda>leader. if leader then ret None else acquire_leadership env)"

definition poll_interval :: "'w sched_env \<Rightarrow> poll_outcome \<Rightarrow> (sched \<times> 'w, real) py" where
  "poll_interval env outcome =
     bindP (field sc_machine) (\<lambda>machine.
       if po_kind outcome \<in> {''discovery-failed'', ''state-read-failed'', ''leadership-lost''}
       then ret (pc_discovery_failure_retry (pm_config machine))
       else bindP (ask (en_uniform env)) (\<lambda>uniform. ret (next_interval machine uniform)))"

text \<open>The loop runs until it is stopped; \<open>None\<close> is the end of the fuel.\<close>

fun poll_loop :: "nat \<Rightarrow> sched_settings \<Rightarrow> 'w sched_env \<Rightarrow> bool \<Rightarrow> bool \<Rightarrow> sched \<times> 'w \<Rightarrow> (int result \<times> (sched \<times> 'w)) option" where
  "poll_loop 0 st env once dry_run s = None"
| "poll_loop (Suc fuel) st env once dry_run s =
     (if en_stopped env (snd s) then Some (Inr 0, s)
      else case keep_leadership env s of
        (Inl e, s1) \<Rightarrow> Some (Inl e, s1)
      | (Inr (Some code), s1) \<Rightarrow> Some (Inr code, s1)
      | (Inr None, s1) \<Rightarrow> (case poll_once st env dry_run s1 of
          (Inl e, s2) \<Rightarrow> Some (Inl e, s2)
        | (Inr outcome, s2) \<Rightarrow>
            if once then Some (Inr 0, s2)
            else (case poll_interval env outcome s2 of
                (Inl e, s3) \<Rightarrow> Some (Inl e, s3)
              | (Inr interval, s3) \<Rightarrow> poll_loop fuel st env once dry_run (fst s3, en_sleep env interval (snd s3)))))"

definition release_leadership :: "'w sched_env \<Rightarrow> sched \<times> 'w \<Rightarrow> sched \<times> 'w" where
  "release_leadership env s = (if en_leader env = None then s else (fst s, en_release env (snd s)))"

definition run_scheduler ::
    "nat \<Rightarrow> sched_settings \<Rightarrow> 'w sched_env \<Rightarrow> bool \<Rightarrow> bool \<Rightarrow> sched \<times> 'w \<Rightarrow> (int result \<times> (sched \<times> 'w)) option" where
  "run_scheduler fuel st env once dry_run s =
     (case (if en_leader env = None then (Inr None, s) else acquire_leadership env s) of
        (Inl e, s1) \<Rightarrow> Some (Inl e, s1)
      | (Inr (Some code), s1) \<Rightarrow> Some (Inr code, s1)
      | (Inr None, s1) \<Rightarrow> (case (if dry_run then (Inr (), s1) else call (en_preflight env) s1) of
          (Inl e, s2) \<Rightarrow> Some (Inl e, s2)
        | (Inr _, s2) \<Rightarrow> map_option (\<lambda>(r, s3). (r, release_leadership env s3)) (poll_loop fuel st env once dry_run s2)))"

end
