(* ===== verification/RealtimeDiscovery.thy ===== *)
theory RealtimeDiscovery
  imports RealtimeCommitted
begin

text \<open>
  What the reader of the realtime scheduler returns: exactly the recoverable cycles, newest first, and the committed leads and
  members of a cycle.
\<close>

text \<open>The maximum over the models that are left is reached by one of them and no larger than the maximum over all.\<close>

lemma max_model_lead_hours_Inr:
  assumes "max_model_lead_hours reg ms v None = Inr M"
  shows "\<exists>m \<in> set ms. model_max_lead_hours reg m v None = Inr M"
    "m \<in> set ms \<Longrightarrow> \<exists>L. model_max_lead_hours reg m v None = Inr L \<and> L \<le> M"
proof -
  from assms obtain leads where l: "mapE (\<lambda>m. model_max_lead_hours reg m v None) ms = Inr leads" "leads \<noteq> []" "M = Max (set leads)"
    by (auto simp: max_model_lead_hours_def bindE_eq_Inr split: if_splits)
  have "M \<in> set leads" using l by simp
  with mapE_set_D [OF l(1)] show "\<exists>m \<in> set ms. model_max_lead_hours reg m v None = Inr M" by blast
  assume "m \<in> set ms"
  then obtain i where "i < length ms" "m = ms ! i" by (metis in_set_conv_nth)
  with l(1) have "leads ! i \<in> set leads" "model_max_lead_hours reg m v None = Inr (leads ! i)"
    by (auto simp: mapE_Inr_iff list_all2_conv_all_nth)
  then show "\<exists>L. model_max_lead_hours reg m v None = Inr L \<and> L \<le> M" using l(3) by auto
qed

text \<open>The statuses of a cycle do not depend on rows of other cycles.\<close>

lemma statuses_of_filter:
  "Q c \<Longrightarrow> statuses_of c (filter (\<lambda>row. Q (fst row)) rows) = statuses_of c rows"
proof -
  assume "Q c"
  then have "filter (\<lambda>row. fst row = c) (filter (\<lambda>row. Q (fst row)) rows) = filter (\<lambda>row. fst row = c) rows"
    by (induction rows) auto
  then show ?thesis by (simp add: statuses_of_def)
qed

text \<open>A model of a cycle that is not ready and whose horizon still reaches into the serving window\<close>

definition worth_recovering :: "horizon_registry \<Rightarrow> catalog \<Rightarrow> instant \<Rightarrow> string \<Rightarrow> instant \<Rightarrow> bool" where
  "worth_recovering reg db serving_start v t \<longleftrightarrow> (\<exists>m \<in> set target_models. \<exists>L.
     statuses_of t (run_rows db v) m \<noteq> Some ''ready'' \<and> model_max_lead_hours reg m (Some v) None = Inr L \<and> serving_start \<le> t + hours L)"

lemma recoverable_iff:
  assumes "recoverable reg db start v rows t = Inr b" "statuses_of t rows = statuses_of t (run_rows db v)"
  shows "b \<longleftrightarrow> \<not> is_cycle_durably_complete db t v \<and> \<not> is_cycle_fenced_or_deleted db t None \<and> worth_recovering reg db start v t"
proof (cases "both_ready (statuses_of t (run_rows db v)) \<or> is_cycle_fenced_or_deleted db t None")
  case True
  with assms show ?thesis by (auto simp: recoverable_def is_cycle_durably_complete_def Let_def split: if_splits)
next
  case False
  let ?inc = "filter (\<lambda>m. statuses_of t (run_rows db v) m \<noteq> Some ''ready'') target_models"
  have ne: "?inc \<noteq> []" using False by (auto simp: both_ready_def target_models_def)
  with False assms obtain M where M: "max_model_lead_hours reg ?inc (Some v) None = Inr M" and b: "b \<longleftrightarrow> start \<le> t + hours M"
    by (auto simp: recoverable_def Let_def bindE_eq_Inr is_cycle_horizon_expired_def)
  have "start \<le> t + hours M \<longleftrightarrow> worth_recovering reg db start v t"
  proof
    assume "start \<le> t + hours M"
    with max_model_lead_hours_Inr(1) [OF M] show "worth_recovering reg db start v t" by (auto simp: worth_recovering_def)
  next
    assume "worth_recovering reg db start v t"
    then obtain m L where m: "m \<in> set ?inc" "model_max_lead_hours reg m (Some v) None = Inr L" "start \<le> t + hours L"
      by (auto simp: worth_recovering_def)
    with max_model_lead_hours_Inr(2) [OF M m(1)] have "L \<le> M" by auto
    then have "hours L \<le> hours M" by (simp add: us_per_hour_def)
    with m(3) show "start \<le> t + hours M" by linarith
  qed
  with False b show ?thesis by (simp add: is_cycle_durably_complete_def)
qed

text \<open>C36: The historical candidates are exactly the cycles before the active one with a run in the catalog that are not complete, not
  fenced by the lifecycle, and still have a model that is not ready and reaches into the serving window; newest first. The bound
  of the scan hides none of them.\<close>

theorem discovered_cycles_exact:
  assumes "discover_incomplete_historical_cycles reg db active now v = Inr cycles"
    and "serving_start_valid_time (utc_datetime now) CANONICAL_LEAD_CADENCE_HOURS = Inr start"
  shows "\<exists>ts. cycles = map cycle_of ts \<and> sorted_wrt (>) ts \<and> set ts = {t \<in> fst ` set (run_rows db v). t < active \<and>
    \<not> is_cycle_durably_complete db t v \<and> \<not> is_cycle_fenced_or_deleted db t None \<and> worth_recovering reg db start v t}"
proof -
  let ?rows = "run_rows db v"
  from assms obtain M ts where M: "max_model_lead_hours reg target_models (Some v) None = Inr M"
    and f: "filterE (recoverable reg db start v (filter (\<lambda>row. fst row < active \<and> start - hours M \<le> fst row) ?rows))
      (rev (sort (remdups (map fst (filter (\<lambda>row. fst row < active \<and> start - hours M \<le> fst row) ?rows))))) = Inr ts"
    and cs: "cycles = map cycle_of ts"
    by (auto simp: discover_incomplete_historical_cycles_def bindE_eq_Inr Let_def)
  define P where "P = (\<lambda>c. c < active \<and> start - hours M \<le> c)"
  define keys where "keys = rev (sort (remdups (map fst (filter (\<lambda>row. P (fst row)) ?rows))))"
  have rows: "filter (\<lambda>row. fst row < active \<and> start - hours M \<le> fst row) ?rows = filter (\<lambda>row. P (fst row)) ?rows" by (simp add: P_def)
  note f' = filterE_Inr [OF f [unfolded rows, folded keys_def]]
  have keys: "sorted_wrt (>) keys" "set keys = {t \<in> fst ` set ?rows. P t}"
    by (auto simp: keys_def sorted_wrt_rev strict_sorted_iff)
  have rec: "recoverable reg db start v (filter (\<lambda>row. P (fst row)) ?rows) t = Inr True \<longleftrightarrow>
      \<not> is_cycle_durably_complete db t v \<and> \<not> is_cycle_fenced_or_deleted db t None \<and> worth_recovering reg db start v t" if t: "t \<in> set keys" for t
  proof -
    obtain b where b: "recoverable reg db start v (filter (\<lambda>row. P (fst row)) ?rows) t = Inr b" using f' t by blast
    have "P t" using t keys(2) by simp
    from recoverable_iff [OF b statuses_of_filter [of P, OF this]] b show ?thesis by simp
  qed
  have wide: "start - hours M \<le> t" if w: "worth_recovering reg db start v t" for t
  proof -
    from w obtain m L where m: "m \<in> set target_models" "model_max_lead_hours reg m (Some v) None = Inr L" "start \<le> t + hours L"
      by (auto simp: worth_recovering_def)
    with max_model_lead_hours_Inr(2) [OF M m(1)] have "L \<le> M" by auto
    then have "hours L \<le> hours M" by (simp add: us_per_hour_def)
    with m(3) show ?thesis by linarith
  qed
  have "set ts = {t \<in> fst ` set ?rows. t < active \<and>
    \<not> is_cycle_durably_complete db t v \<and> \<not> is_cycle_fenced_or_deleted db t None \<and> worth_recovering reg db start v t}"
    using f' rec keys(2) wide by (auto simp: P_def)
  moreover have "sorted_wrt (>) ts" using f' keys(1) by (simp add: sorted_wrt_filter)
  ultimately show ?thesis using cs by blast
qed

text \<open>One cycle whose GFS run is still being processed and whose GEFS run is missing\<close>

definition small_catalog :: catalog where
  "small_catalog = \<lparr>db_versions = [\<lparr>mv_id = ''g'', mv_model_id = ''gfs'', mv_version_string = ''v1.0''\<rparr>,
       \<lparr>mv_id = ''e'', mv_model_id = ''gefs'', mv_version_string = ''v1.0''\<rparr>],
     db_runs = [\<lparr>mr_id = ''r'', mr_model_version_id = ''g'', mr_cycle_time = utc_datetime 0, mr_status = ''processing'', mr_zarr_store_path = None\<rparr>],
     db_products = [], db_member_products = [], db_lifecycle = [], db_queue = []\<rparr>"

lemma small_discovery:
  "discover_incomplete_historical_cycles default_horizons small_catalog (hours 6) (hours 7) ''v1.0'' = Inr [\<lparr>ci_date = 0, ci_hour = 0\<rparr>]"
  "serving_start_valid_time (utc_datetime (hours 7)) CANONICAL_LEAD_CADENCE_HOURS = Inr (hours 6)"
  by code_simp+

lemma discovered_cycles_exact_witness:
  "\<exists>ts. [\<lparr>ci_date = 0, ci_hour = 0\<rparr>] = map cycle_of ts \<and> sorted_wrt (>) ts \<and> set ts = {t \<in> fst ` set (run_rows small_catalog ''v1.0''). t < hours 6 \<and>
    \<not> is_cycle_durably_complete small_catalog t ''v1.0'' \<and> \<not> is_cycle_fenced_or_deleted small_catalog t None \<and>
    worth_recovering default_horizons small_catalog (hours 6) ''v1.0'' t}"
  by (rule discovered_cycles_exact [OF small_discovery])

end
