(* ===== verification/SchedulerSafety.thy ===== *)
theory SchedulerSafety
  imports RealtimeScheduler RealtimeDiscovery
begin

text \<open>
  How a poll of the realtime scheduler runs: its cases, what its parts keep of the state, and that a poll which fails before it plans
  leaves the state alone. \<open>SchedulerQuarantine\<close> continues with the recovery of historical cycles.
\<close>

named_theorems sched_run "steps of the scheduler's computations"

lemma sched_binds [sched_run]:
  "bindP (call f) k s = (case f (snd s) of (r, w) \<Rightarrow> (case r of Inl e \<Rightarrow> (Inl e, (fst s, w)) | Inr x \<Rightarrow> k x (fst s, w)))"
  "bindP (ask g) h s = (case g (snd s) of (x, w) \<Rightarrow> h x (fst s, w))"
  "bindP (field p) q s = q (p (fst s)) s" "bindP (assign a) b s = b () (a (fst s), snd s)"
  "bindP (attempt (call f)) c s = (case f (snd s) of (r, w) \<Rightarrow> c r (fst s, w))"
  "assign a s = (Inr (), (a (fst s), snd s))" "field p s = (Inr (p (fst s)), s)" "ret x s = (Inr x, s)"
  by (auto simp: bindP_def call_def ask_def field_def assign_def attempt_def ret_def split: prod.splits sum.splits)

lemma sched_run_iff [simp]:
  "call f s = (r, s1) \<longleftrightarrow> (\<exists>w. f (snd s) = (r, w) \<and> s1 = (fst s, w))" "ask g s = (q, s1) \<longleftrightarrow> (\<exists>x w. g (snd s) = (x, w) \<and> q = Inr x \<and> s1 = (fst s, w))"
  "field h s = (p, s1) \<longleftrightarrow> p = Inr (h (fst s)) \<and> s1 = s" "assign a s = (u, s1) \<longleftrightarrow> u = Inr () \<and> s1 = (a (fst s), snd s)"
  by (auto simp: call_def ask_def field_def assign_def split: prod.splits)

subsection \<open>What computations keep\<close>

lemma keeps_sched [intro]:
  "(\<And>sc w w'. P (sc, w) \<Longrightarrow> P (sc, w')) \<Longrightarrow> keeps P (call f)" "(\<And>sc w w'. P (sc, w) \<Longrightarrow> P (sc, w')) \<Longrightarrow> keeps P (ask g)"
  "keeps P (field h)" "(\<And>sc w. P (sc, w) \<Longrightarrow> P (a sc, w)) \<Longrightarrow> keeps P (assign a)"
  by (auto simp: keeps_def call_def ask_def field_def assign_def split: prod.splits)

lemma keeps_if [intro]: "(b \<Longrightarrow> keeps P m) \<Longrightarrow> (\<not> b \<Longrightarrow> keeps P n) \<Longrightarrow> keeps P (if b then m else n)" by simp

lemma keeps_option [intro]: "keeps P m \<Longrightarrow> (\<And>x. keeps P (f x)) \<Longrightarrow> keeps P (case r of None \<Rightarrow> m | Some x \<Rightarrow> f x)" by (cases r) simp_all
lemma keeps_sum [intro]: "(\<And>e. keeps P (m e)) \<Longrightarrow> (\<And>x. keeps P (f x)) \<Longrightarrow> keeps P (case r of Inl e \<Rightarrow> m e | Inr x \<Rightarrow> f x)" by (cases r) simp_all
lemma keeps_pair [intro]: "(\<And>x y. keeps P (f x y)) \<Longrightarrow> keeps P (case r of (x, y) \<Rightarrow> f x y)" by (cases r) simp

lemma resolve_keeps: "(\<And>sc w w'. P (sc, w) \<Longrightarrow> P (sc, w')) \<Longrightarrow> keeps P (resolve_cycle st env)"
  unfolding resolve_cycle_def Let_def by (intro keeps_intros keeps_sched keeps_option keeps_if) assumption+

lemma leader_keeps: "(\<And>sc w w'. P (sc, w) \<Longrightarrow> P (sc, w')) \<Longrightarrow> keeps P (leader_active env)"
  unfolding leader_active_def by (intro keeps_intros keeps_sched keeps_option) assumption+

lemma resolve_fst: "resolve_cycle st env s = (r, s1) \<Longrightarrow> fst s1 = fst s"
  by (rule keepsD [OF resolve_keeps [where P = "\<lambda>x. fst x = fst s"]]) simp_all

lemma leader_fst: "leader_active env s = (r, s1) \<Longrightarrow> fst s1 = fst s"
  by (rule keepsD [OF leader_keeps [where P = "\<lambda>x. fst x = fst s"]]) simp_all

subsection \<open>Failing polls\<close>

lemma plan_and_dispatch_kind:
  "plan_and_dispatch st env dry c snaps act cg ce now s = (Inr po, s') \<Longrightarrow>
    po_kind po \<in> {''planned'', ''idle''} \<and> (\<exists>c' p. po_cycle po = Some c' \<and> po_plan po = Some p)"
  unfolding plan_and_dispatch_def Let_def by (elim bindP_InrE) (auto elim!: bindP_InrE split: prod.splits)

definition quiet_outcome :: "poll_outcome \<Rightarrow> bool" where
  "quiet_outcome po \<longleftrightarrow> po_dispatches po = [] \<and> po_plan po = None \<and> po_kind po \<noteq> ''planned'' \<and> (po_kind po \<noteq> ''state-read-failed'' \<longrightarrow> po_cycle po = None)"

lemma quiet_failed: "k \<noteq> ''planned'' \<Longrightarrow> k = ''state-read-failed'' \<or> c = None \<Longrightarrow> quiet_outcome (failed_poll k c e a)"
  by (auto simp: quiet_outcome_def failed_poll_def)

lemma poll_cycle_cases:
  assumes "poll_cycle st env dry c snaps switched s = (r, s')"
  obtains (unread) e a where "r = Inr (failed_poll ''state-read-failed'' (Some c) e a)" "fst s' = fst s"
  | (work) act cg ce w2 now w3 where "en_clock env w2 = (now, w3)"
      "plan_and_dispatch st env dry c snaps act cg ce now (if switched then switch_to c snaps (fst s) else fst s, w3) = (r, s')"
      "en_read_committed env c (snd s) = (Inr (cg, ce), w2)"
proof (cases "en_read_committed env c (snd s)")
  case (Pair cm w2)
  show thesis
  proof (cases cm)
    case (Inl e)
    with Pair assms show thesis by (intro unread) (auto simp: poll_cycle_def sched_run Let_def)
  next
    case (Inr p)
    obtain now w3 where clk: "en_clock env w2 = (now, w3)" by fastforce
    have "bindP (if switched then assign (switch_to c snaps) else ret ()) k t = k () (if switched then switch_to c snaps (fst t) else fst t, snd t)"
      for k :: "unit \<Rightarrow> (sched \<times> 'a, poll_outcome) py" and t by (simp add: bindP_def assign_def ret_def)
    with assms Pair Inr clk have "plan_and_dispatch st env dry c snaps (publication_activity env (sc_active_last_good (fst s)) snaps switched)
        (fst p) (snd p) now (if switched then switch_to c snaps (fst s) else fst s, w3) = (r, s')"
      by (cases switched) (simp_all add: poll_cycle_def sched_run case_prod_unfold Let_def)
    moreover have "en_read_committed env c (snd s) = (Inr (fst p, snd p), w2)" using Pair Inr by simp
    ultimately show thesis by (rule work [OF clk])
  qed
qed

lemma poll_once_cases:
  assumes "poll_once st env dry s = (r, s')"
  obtains (early) po where "r = Inr po" "fst s' = fst s" "quiet_outcome po"
  | (crash) e where "r = Inl e" "fst s' = fst s"
  | (work) s1 c snaps switched s2 act cg ce w2 now w3 where "fst s1 = fst s" "resolve_cycle st env s1 = (Inr (Some (c, snaps, switched)), s2)"
      "fst s2 = fst s" "plan_and_dispatch st env dry c snaps act cg ce now (if switched then switch_to c snaps (fst s) else fst s, w3) = (r, s')"
      "en_clock env w2 = (now, w3)" "leader_active env s = (Inr True, s1)" "en_read_committed env c (snd s2) = (Inr (cg, ce), w2)"
proof -
  obtain lr s1 where l: "leader_active env s = (lr, s1)" by (cases "leader_active env s") blast
  have s1: "fst s1 = fst s" by (rule leader_fst [OF l])
  show thesis
  proof (cases lr)
    case (Inl e)
    with l assms s1 show thesis by (intro crash) (auto simp: poll_once_def bindP_def)
  next
    case (Inr leader)
    show thesis
    proof (cases leader)
      case False
      with l Inr assms s1 show thesis by (intro early) (auto simp: poll_once_def bindP_def ret_def intro: quiet_failed)
    next
      case True
      obtain rr s2 where rc: "resolve_cycle st env s1 = (rr, s2)" by (cases "resolve_cycle st env s1") blast
      have s2: "fst s2 = fst s" using resolve_fst [OF rc] s1 by simp
      have run: "(case rr of Inl e \<Rightarrow> ret (failed_poll ''discovery-failed'' None (Some e) False) | Inr None \<Rightarrow> ret (failed_poll ''idle'' None None False)
          | Inr (Some (c, snaps, switched)) \<Rightarrow> poll_cycle st env dry c snaps switched) s2 = (r, s')"
        using assms l Inr True rc by (simp add: poll_once_def bindP_def attempt_def)
      consider e where "rr = Inl e" | "rr = Inr None" | c snaps switched where "rr = Inr (Some (c, snaps, switched))"
        by (cases rr) (auto split: option.splits, metis option.exhaust prod.exhaust)
      then show thesis
      proof cases
        case 1
        with run s2 show thesis by (intro early) (auto intro: quiet_failed)
      next
        case 2
        with run s2 show thesis by (intro early) (auto intro: quiet_failed)
      next
        case (3 c snaps switched)
        with run have "poll_cycle st env dry c snaps switched s2 = (r, s')" by simp
        then show thesis
        proof (cases rule: poll_cycle_cases)
          case (unread e a)
          then show thesis using s2 by (intro early) (auto intro: quiet_failed)
        next
          case (work act cg ce w2 now w3)
          from work(2) have "plan_and_dispatch st env dry c snaps act cg ce now (if switched then switch_to c snaps (fst s) else fst s, w3) = (r, s')"
            by (simp only: s2)
          from that(3) [OF s1 rc [unfolded 3] s2 this work(1) _ work(3)] l Inr True show thesis by simp
        qed
      qed
    qed
  qed
qed

text \<open>A poll with this outcome and final state, in whatever way waves and repairs would be run: it asks for none of them.\<close>

definition idle_poll ::
    "sched_settings \<Rightarrow> 'w sched_env \<Rightarrow> bool \<Rightarrow> sched \<times> 'w \<Rightarrow> poll_outcome \<Rightarrow> sched \<times> 'w \<Rightarrow> bool" where
  "idle_poll st env dry_run s po s' \<longleftrightarrow>
     (\<forall>wave repair. poll_once st (env\<lparr>en_dispatch_wave := wave, en_repair_status := repair\<rparr>) dry_run s = (Inr po, s'))"

lemma runs_without_dispatch [simp]:
  "leader_active (env\<lparr>en_dispatch_wave := wave, en_repair_status := repair\<rparr>) = leader_active env"
  "resolve_cycle st (env\<lparr>en_dispatch_wave := wave, en_repair_status := repair\<rparr>) = resolve_cycle st env"
  "publication_activity (env\<lparr>en_dispatch_wave := wave, en_repair_status := repair\<rparr>) = publication_activity env"
proof -
  let ?env = "env\<lparr>en_dispatch_wave := wave, en_repair_status := repair\<rparr>"
  have env: "en_leader ?env = en_leader env" "en_clock ?env = en_clock env" "en_discover ?env = en_discover env" "en_sha256 ?env = en_sha256 env"
    by simp_all
  show "leader_active ?env = leader_active env" "resolve_cycle st ?env = resolve_cycle st env"
    "publication_activity ?env = publication_activity env"
    unfolding leader_active_def resolve_cycle_def publication_activity_def changed_def env by (rule refl)+
qed

text \<open>C40: A poll that fails before it plans changes nothing in the scheduler and dispatches nothing: the timers, backoffs, the last
  good snapshot and the poll machine stay as they are, the world is that of the last call before the failure, however waves and
  repairs would be run, and the outcome names the cause. That is so when the scheduler finds that it has lost the leadership, when
  it holds it but the discovery of the cycle fails, and when the committed state of the cycle found cannot be read.\<close>

theorem failed_poll_changes_nothing:
  "(\<forall>check w1. en_leader env = Some check \<and> check w = (False, w1) \<longrightarrow>
      idle_poll st env dry_run (sc, w)
        (failed_poll ''leadership-lost'' None (Some (DomainError ''RuntimeError'' ''scheduler does not hold leadership'')) False) (sc, w1)) \<and>
   (\<forall>w1 e sc2 w2. leader_active env (sc, w) = (Inr True, (sc, w1)) \<and> resolve_cycle st env (sc, w1) = (Inl e, (sc2, w2)) \<longrightarrow>
      idle_poll st env dry_run (sc, w) (failed_poll ''discovery-failed'' None (Some e) False) (sc, w2)) \<and>
   (\<forall>w1 c snaps switched w2 e w3. leader_active env (sc, w) = (Inr True, (sc, w1)) \<and>
      resolve_cycle st env (sc, w1) = (Inr (Some (c, snaps, switched)), (sc, w2)) \<and> en_read_committed env c w2 = (Inl e, w3) \<longrightarrow>
      idle_poll st env dry_run (sc, w) (failed_poll ''state-read-failed'' (Some c) (Some e)
        (publication_activity env (sc_active_last_good sc) snaps switched)) (sc, w3))"
proof (intro conjI allI impI; elim conjE)
  fix check w1 assume "en_leader env = Some check" "check w = (False, w1)"
  then show "idle_poll st env dry_run (sc, w)
      (failed_poll ''leadership-lost'' None (Some (DomainError ''RuntimeError'' ''scheduler does not hold leadership'')) False) (sc, w1)"
    by (simp add: idle_poll_def poll_once_def leader_active_def sched_run)
next
  fix w1 e sc2 w2 assume l: "leader_active env (sc, w) = (Inr True, (sc, w1))" and r: "resolve_cycle st env (sc, w1) = (Inl e, (sc2, w2))"
  have "sc2 = sc" using resolve_fst [OF r] by simp
  with l r show "idle_poll st env dry_run (sc, w) (failed_poll ''discovery-failed'' None (Some e) False) (sc, w2)"
    by (simp add: idle_poll_def poll_once_def bindP_def attempt_def ret_def)
next
  fix w1 c snaps switched w2 e w3
  assume "leader_active env (sc, w) = (Inr True, (sc, w1))" "resolve_cycle st env (sc, w1) = (Inr (Some (c, snaps, switched)), (sc, w2))"
    "en_read_committed env c w2 = (Inl e, w3)"
  then show "idle_poll st env dry_run (sc, w) (failed_poll ''state-read-failed'' (Some c) (Some e)
      (publication_activity env (sc_active_last_good sc) snaps switched)) (sc, w3)"
    by (simp add: idle_poll_def poll_once_def poll_cycle_def bindP_def attempt_def ret_def field_def call_def Let_def)
qed

text \<open>A world that counts the calls; leadership is held and the catalog can be read in worlds before \<open>limit\<close>.\<close>

definition counting_env :: "nat \<Rightarrow> nat \<Rightarrow> nat sched_env" where
  "counting_env leader_limit limit = \<lparr>en_clock = (\<lambda>w. (real w, Suc w)), en_leader = Some (\<lambda>w. (w < leader_limit, Suc w)), en_acquire = (\<lambda>w. (Inr True, Suc w)),
     en_release = Suc, en_preflight = (\<lambda>w. (Inr (), Suc w)), en_stopped = (\<lambda>w. False), en_sleep = (\<lambda>t w. Suc w),
     en_uniform = (\<lambda>w. ((\<lambda>a b. a), Suc w)), en_discover = (\<lambda>c w. (Inr (None, None), Suc w)),
     en_read_committed = (\<lambda>c w. (if w < limit then Inr (nothing_committed, nothing_committed) else Inl ZeroDivisionError, Suc w)),
     en_discover_candidates = (\<lambda>c t w. (Inr [], Suc w)), en_is_complete = (\<lambda>c w. (Inr False, Suc w)),
     en_repair_status = (\<lambda>c w. (Inr [], Suc w)),
     en_dispatch_wave = (\<lambda>m ts c w. (Inr \<lparr>wd_model = m, wd_targets = ts, wd_status = None, wd_failures = [], wd_error = None\<rparr>, Suc w)),
     en_sha256 = (\<lambda>_. [])\<rparr>"

definition usual_settings :: "cycle_identity option \<Rightarrow> sched_settings" where
  "usual_settings c = \<lparr>st_wave_max_leads = 8, st_wave_max_wait = 1200, st_first_publication_delay = 10800, st_backlog_enabled = True,
     st_backlog_retry_backoff = 300, st_backlog_max_backoff = 3600, st_quarantine_threshold = 5, st_quarantine_seconds = 0,
     st_active_failure_backoff = 60, st_active_max_backoff = 300, st_cycle_override = c, st_version_string = ''v1.0'',
     st_horizons = default_horizons, st_coverage = default_coverage\<rparr>"

definition sample_machine :: poll_machine where
  "sample_machine = \<lparr>pm_config = \<lparr>pc_active_interval = 600, pc_publication_interval = 120, pc_backoff_initial = 1800, pc_backoff_max = 3600,
     pc_jitter_fraction = 1 / 10, pc_discovery_failure_retry = 60\<rparr>, pm_state = ACTIVE, pm_backoff_level = 1800\<rparr>"

abbreviation fresh_sched :: sched where "fresh_sched \<equiv> start_sched sample_machine"

text \<open>The three failures, at the first, the third and the fourth call\<close>

lemma failed_poll_changes_nothing_witness:
  "idle_poll (usual_settings None) (counting_env 0 0) False (fresh_sched, 0)
     (failed_poll ''leadership-lost'' None (Some (DomainError ''RuntimeError'' ''scheduler does not hold leadership'')) False) (fresh_sched, 1) \<and>
   idle_poll (usual_settings (Some \<lparr>ci_date = 0, ci_hour = 6\<rparr>)) ((counting_env 1 1)\<lparr>en_discover := (\<lambda>c w. (Inl ZeroDivisionError, Suc w))\<rparr>) False
     (fresh_sched, 0) (failed_poll ''discovery-failed'' None (Some ZeroDivisionError) False) (fresh_sched, 3) \<and>
   idle_poll (usual_settings (Some \<lparr>ci_date = 0, ci_hour = 6\<rparr>)) (counting_env 1 1) False (fresh_sched, 0)
     (failed_poll ''state-read-failed'' (Some \<lparr>ci_date = 0, ci_hour = 6\<rparr>) (Some ZeroDivisionError) False) (fresh_sched, 4)"
proof (intro conjI)
  let ?st = "usual_settings (Some \<lparr>ci_date = 0, ci_hour = 6\<rparr>)" and ?env = "(counting_env 1 1)\<lparr>en_discover := (\<lambda>c w. (Inl ZeroDivisionError, Suc w))\<rparr>"
  have "en_leader (counting_env 0 0) = Some (\<lambda>w. (w < 0, Suc w))" by (simp add: counting_env_def)
  with failed_poll_changes_nothing [of "counting_env 0 0" 0 "usual_settings None" False fresh_sched]
  show "idle_poll (usual_settings None) (counting_env 0 0) False (fresh_sched, 0)
     (failed_poll ''leadership-lost'' None (Some (DomainError ''RuntimeError'' ''scheduler does not hold leadership'')) False) (fresh_sched, 1)"
    by simp
  have l: "leader_active env (fresh_sched, 0) = (Inr True, (fresh_sched, 1))" if "en_leader env = Some (\<lambda>w. (w < 1, Suc w))" for env :: "nat sched_env"
    using that by (auto simp: leader_active_def)
  have "resolve_cycle ?st ?env (fresh_sched, 1) = (Inl ZeroDivisionError, (fresh_sched, 3))"
    by (simp add: resolve_cycle_def usual_settings_def counting_env_def sched_run)
  with l [of ?env] failed_poll_changes_nothing [of ?env 0 ?st False fresh_sched]
  show "idle_poll ?st ?env False (fresh_sched, 0) (failed_poll ''discovery-failed'' None (Some ZeroDivisionError) False) (fresh_sched, 3)"
    by (simp add: counting_env_def)
  have "resolve_cycle ?st (counting_env 1 1) (fresh_sched, 1) = (Inr (Some (\<lparr>ci_date = 0, ci_hour = 6\<rparr>, (None, None), True)), (fresh_sched, 3))"
    by (simp add: resolve_cycle_def usual_settings_def counting_env_def sched_run start_sched_def)
  moreover have "publication_activity (counting_env 1 1) (sc_active_last_good fresh_sched) (None, None) True = False"
    by (simp add: publication_activity_def start_sched_def snapshots_empty_def)
  moreover have "en_read_committed (counting_env 1 1) \<lparr>ci_date = 0, ci_hour = 6\<rparr> 3 = (Inl ZeroDivisionError, 4)" by (simp add: counting_env_def)
  moreover have "leader_active (counting_env 1 1) (fresh_sched, 0) = (Inr True, (fresh_sched, 1))" by (rule l) (simp add: counting_env_def)
  ultimately show "idle_poll ?st (counting_env 1 1) False (fresh_sched, 0)
      (failed_poll ''state-read-failed'' (Some \<lparr>ci_date = 0, ci_hour = 6\<rparr>) (Some ZeroDivisionError) False) (fresh_sched, 4)"
    using failed_poll_changes_nothing [of "counting_env 1 1" 0 ?st False fresh_sched] by metis
qed

subsection \<open>What the selection keeps\<close>

lemma scan_keeps: "(\<And>c. keeps P (examine c)) \<Longrightarrow> keeps P (scan_candidates examine cs)"
  by (induction cs) (auto intro!: keeps_intros keeps_option)

lemma judge_keeps:
  assumes "\<And>sc l. Q sc \<Longrightarrow> Q (block_candidate st l now sc)" "\<And>sc x. Q sc \<Longrightarrow> Q (sc\<lparr>sc_selected_backlog_cycle := x\<rparr>)"
  shows "keeps (\<lambda>s. Q (fst s)) (judge_plan st c now plan)"
  unfolding judge_plan_def using assms by (intro keeps_intros keeps_sched keeps_if) simp_all

lemma examine_keeps:
  assumes "\<And>sc l. Q sc \<Longrightarrow> Q (block_candidate st l now sc)" "\<And>sc x. Q sc \<Longrightarrow> Q (sc\<lparr>sc_selected_backlog_cycle := x\<rparr>)"
    and "\<And>sc f. Q sc \<Longrightarrow> Q (sc_backlog_snapshots_update f sc)"
  shows "keeps (\<lambda>s. Q (fst s)) (examine_candidate st env active now start ml c)"
proof -
  have "keeps (\<lambda>s. Q (fst s)) (candidate_snapshots env c)"
    unfolding candidate_snapshots_def using assms(3) by (intro keeps_intros keeps_sched keeps_option keeps_sum) simp_all
  then show ?thesis unfolding examine_candidate_def
    using assms by (intro keeps_intros keeps_sched keeps_option keeps_sum keeps_if keeps_pair judge_keeps) simp_all
qed

lemma select_keeps:
  assumes "\<And>sc l. Q sc \<Longrightarrow> Q (block_candidate st l now sc)" "\<And>sc x. Q sc \<Longrightarrow> Q (sc\<lparr>sc_selected_backlog_cycle := x\<rparr>)"
    and "\<And>sc f. Q sc \<Longrightarrow> Q (sc_backlog_snapshots_update f sc)" "\<And>sc. Q sc \<Longrightarrow> Q (sync_quarantine now sc)"
    and "\<And>sc x t. Q sc \<Longrightarrow> Q (sc\<lparr>sc_cached_candidates := x, sc_candidates_last_refreshed_at := t\<rparr>)"
  shows "keeps (\<lambda>s. Q (fst s)) (select_backlog_cycle st env active now now_utc)"
proof -
  have "keeps (\<lambda>s. Q (fst s)) (get_candidates env active now now_utc)"
    unfolding get_candidates_def Let_def using assms(5) by (intro keeps_intros keeps_sched keeps_sum keeps_if) simp_all
  then show ?thesis unfolding select_backlog_cycle_def
    using assms by (intro keeps_intros keeps_sched keeps_option keeps_if scan_keeps examine_keeps) simp_all
qed

end
