(* ===== verification/SchedulerQuarantine.thy ===== *)
theory SchedulerQuarantine
  imports SchedulerSafety
begin

text \<open>
  The backlog of the realtime scheduler: only a cycle that is not the active one, not expired and not held back is recovered, and only
  while the active wave waits; a quarantine lasts; a repair that does not promote its cycle never leads to one.
\<close>

subsection \<open>What the selection returns\<close>

lemma judge_plan_Some:
  assumes "judge_plan st c now plan s = (Inr (Some (c', p)), s')"
  shows "c' = c \<and> p = plan \<and> fst s' = (fst s)\<lparr>sc_selected_backlog_cycle := Some c\<rparr> \<and>
    (fp_wave_due p \<and> fp_wave_candidate p \<noteq> [] \<or> fp_next_blocked_lead p = None \<and> fp_blocked_reason p = Some BLOCK_HORIZON_COMPLETE)"
  using assms by (auto simp: judge_plan_def sched_run split: if_splits)

definition eligible_candidate :: "sched \<Rightarrow> cycle_identity \<Rightarrow> real \<Rightarrow> instant \<Rightarrow> int \<Rightarrow> cycle_identity \<Rightarrow> bool" where
  "eligible_candidate sc active now start ml c \<longleftrightarrow> c \<noteq> active \<and> start \<le> cycle_instant c + hours ml \<and> \<not> held_back sc (cycle_label c) now"

lemma examine_Some:
  assumes "examine_candidate st env active now start ml c s = (Inr (Some (c', p)), s')"
  shows "c' = c \<and> eligible_candidate (fst s) active now start ml c \<and>
    (fp_wave_due p \<and> fp_wave_candidate p \<noteq> [] \<or> fp_next_blocked_lead p = None \<and> fp_blocked_reason p = Some BLOCK_HORIZON_COMPLETE)"
proof -
  have a: "c \<noteq> active" "start \<le> cycle_instant c + hours ml" "\<not> held_back (fst s) (cycle_label c) now"
    using assms by (auto simp: examine_candidate_def is_cycle_horizon_expired_def sched_run split: if_splits)
  obtain s1 plan where "judge_plan st c now plan s1 = (Inr (Some (c', p)), s')"
    using assms a unfolding examine_candidate_def
    by (auto elim!: bindP_InrE split: if_splits sum.splits prod.splits)
  from judge_plan_Some [OF this] a show ?thesis by (auto simp: eligible_candidate_def)
qed

lemma scan_Some:
  assumes "scan_candidates (examine_candidate st env active now start ml) cs s = (Inr (Some (c, p)), s')"
    and "\<And>c. keeps (\<lambda>s. Q (fst s)) (examine_candidate st env active now start ml c)" "Q (fst s)"
  shows "c \<in> set cs \<and> (\<exists>sc. Q sc \<and> eligible_candidate sc active now start ml c) \<and>
    (fp_wave_due p \<and> fp_wave_candidate p \<noteq> [] \<or> fp_next_blocked_lead p = None \<and> fp_blocked_reason p = Some BLOCK_HORIZON_COMPLETE)"
  using assms
proof (induction cs arbitrary: s)
  case (Cons d cs)
  from Cons.prems(1) obtain x s1 where x: "examine_candidate st env active now start ml d s = (Inr x, s1)"
    and rest: "(case x of Some y \<Rightarrow> ret (Some y) | None \<Rightarrow> scan_candidates (examine_candidate st env active now start ml) cs) s1 = (Inr (Some (c, p)), s')"
    by (auto elim!: bindP_InrE)
  show ?case
  proof (cases x)
    case None
    have "Q (fst s1)" using keepsD [OF Cons.prems(2) _ x] Cons.prems(3) by simp
    from Cons.IH [OF _ Cons.prems(2) this] rest None show ?thesis by auto
  next
    case (Some y)
    with rest x have "examine_candidate st env active now start ml d s = (Inr (Some (c, p)), s1)" by simp
    from examine_Some [OF this] Cons.prems(3) show ?thesis by auto
  qed
qed simp

lemma select_Some:
  assumes "select_backlog_cycle st env active now now_utc s = (Inr (Some (c, p)), s')"
    and "\<And>sc l. Q sc \<Longrightarrow> Q (block_candidate st l now sc)" "\<And>sc x. Q sc \<Longrightarrow> Q (sc\<lparr>sc_selected_backlog_cycle := x\<rparr>)"
    and "\<And>sc f. Q sc \<Longrightarrow> Q (sc_backlog_snapshots_update f sc)"
    and "\<And>sc x t. Q sc \<Longrightarrow> Q (sc\<lparr>sc_cached_candidates := x, sc_candidates_last_refreshed_at := t\<rparr>)"
    and "Q (sync_quarantine now (fst s))"
  shows "st_backlog_enabled st \<and> st_cycle_override st = None \<and>
    (\<exists>start ml sc. serving_start_valid_time (utc_datetime now_utc) CANONICAL_LEAD_CADENCE_HOURS = Inr start \<and>
      max_model_lead_hours (st_horizons st) [''gfs'', ''gefs''] (Some (st_version_string st)) None = Inr ml \<and> Q sc \<and>
      eligible_candidate sc active now start ml c) \<and>
    (fp_wave_due p \<and> fp_wave_candidate p \<noteq> [] \<or> fp_next_blocked_lead p = None \<and> fp_blocked_reason p = Some BLOCK_HORIZON_COMPLETE)"
proof -
  have on: "st_backlog_enabled st" "st_cycle_override st = None" using assms(1) by (auto simp: select_backlog_cycle_def split: if_splits)
  have g: "keeps (\<lambda>s. Q (fst s)) (get_candidates env active now now_utc)"
    unfolding get_candidates_def Let_def using assms(5) by (intro keeps_intros keeps_sched keeps_sum keeps_if) simp_all
  have ex: "keeps (\<lambda>s. Q (fst s)) (examine_candidate st env active now start ml c)" for start ml c
    by (rule examine_keeps) (fact assms)+
  from assms(1) on obtain cs s1 offset start ml s2 r where
    c: "get_candidates env active now now_utc (sync_quarantine now (fst s), snd s) = (Inr cs, s1)"
    and st: "serving_start_valid_time (utc_datetime now_utc) CANONICAL_LEAD_CADENCE_HOURS = Inr start"
      "max_model_lead_hours (st_horizons st) [''gfs'', ''gefs''] (Some (st_version_string st)) None = Inr ml"
    and sc: "scan_candidates (examine_candidate st env active now start ml) (rotated offset cs) s1 = (Inr r, s2)"
    and r: "(case r of Some x \<Rightarrow> ret (Some x) | None \<Rightarrow> bindP (assign (\<lambda>sc. sc\<lparr>sc_selected_backlog_cycle := None\<rparr>)) (\<lambda>_. ret None)) s2 = (Inr (Some (c, p)), s')"
    unfolding select_backlog_cycle_def by (auto elim!: bindP_InrE)
  have "Q (fst s1)" using keepsD [OF g _ c] assms(6) by simp
  moreover have "r = Some (c, p)" using r by (auto elim!: bindP_InrE split: option.splits)
  ultimately show ?thesis using scan_Some [OF _ ex] sc on st by (metis (no_types, lifting))
qed

subsection \<open>What a poll keeps\<close>

lemma dispatch_models_keeps: "keeps (\<lambda>s. Q (fst s)) (dispatch_models env c ms)"
proof (induction env c ms rule: dispatch_models.induct)
  case (2 env c model targets rest)
  then show ?case unfolding dispatch_models.simps by (intro keeps_intros(1,6) keeps_sched keeps_if) (simp_all add: keeps_def gets_def)
qed (simp add: keeps_intros)

lemma dispatch_active_keeps:
  assumes "\<And>sc f. Q sc \<Longrightarrow> Q (sc_active_failures_update f sc)" "\<And>sc f. Q sc \<Longrightarrow> Q (sc_active_blocked_until_update f sc)"
  shows "keeps (\<lambda>s. Q (fst s)) (dispatch_active st env c plan now)"
  unfolding dispatch_active_def dispatch_wave_def
  using assms by (intro keeps_intros keeps_sched keeps_if dispatch_models_keeps) simp_all

lemma record_keeps:
  assumes "\<And>sc x. Q sc \<Longrightarrow> Q (sc_backlog_failures_update (\<lambda>m. m(l \<mapsto> x)) sc)" "\<And>sc x. Q sc \<Longrightarrow> Q (sc_backlog_blocked_until_update (\<lambda>m. m(l \<mapsto> x)) sc)"
    and "\<And>sc x. Q sc \<Longrightarrow> Q (sc_backlog_quarantined_until_update (\<lambda>m. m(l \<mapsto> x)) sc)" "\<And>sc. Q sc \<Longrightarrow> Q (sync_quarantine now sc)"
  shows "keeps (\<lambda>s. Q (fst s)) (record_backlog_failure st l now)"
  unfolding record_backlog_failure_def Let_def using assms by (intro keeps_intros keeps_sched keeps_if) simp_all

lemma sync_clock_keeps:
  assumes "\<And>sc w. Q sc \<Longrightarrow> Q (sync_quarantine (fst (en_clock env w)) sc)"
  shows "keeps (\<lambda>s. Q (fst s)) (bindP (ask (en_clock env)) (\<lambda>t. assign (sync_quarantine t)))"
  using assms by (auto simp: keeps_def sched_run split: prod.splits) (metis fst_conv)

lemma settle_keeps:
  assumes "\<And>sc x y. Q sc \<Longrightarrow> Q (sc\<lparr>sc_backlog_failures := x, sc_backlog_blocked_until := y\<rparr>)"
    and "\<And>sc f. Q sc \<Longrightarrow> Q (sc_backlog_snapshots_update f sc)" "\<And>sc f. Q sc \<Longrightarrow> Q (sc_backlog_rotation_offset_update f sc)"
    and "\<And>sc. Q sc \<Longrightarrow> Q (invalidate_candidate_cache sc)" "\<And>sc. Q sc \<Longrightarrow> Q (sc_backlog_quarantined_until_update (\<lambda>m. m(cycle_label c := None)) sc)"
    and "\<And>sc w. Q sc \<Longrightarrow> Q (sync_quarantine (fst (en_clock env w)) sc)"
    and "keeps (\<lambda>s :: sched \<times> 'w. Q (fst s)) (record_backlog_failure st (cycle_label c) now)"
  shows "keeps (\<lambda>s :: sched \<times> 'w. Q (fst s)) (settle_backlog st env c repairing now)"
proof -
  have "keeps (\<lambda>s. Q (fst s)) (clear_backlog_failure env (cycle_label c))"
    unfolding clear_backlog_failure_def using assms by (intro keeps_intros keeps_sched keeps_if sync_clock_keeps) simp_all
  then show ?thesis unfolding settle_backlog_def
    using assms by (intro keeps_intros keeps_sched keeps_if assms(7)) simp_all
qed

text \<open>Neither the active cycle nor its backoff is touched by the recovery of another one.\<close>

lemma catch_up_keeps_active:
  "keeps (\<lambda>s. sc_active_cycle (fst s) = a \<and> sc_active_blocked_until (fst s) = b) (catch_up st env dry c p now)"
proof -
  let ?Q = "\<lambda>sc. sc_active_cycle sc = a \<and> sc_active_blocked_until sc = b"
  have sync: "?Q (sync_quarantine t sc) = ?Q sc" for t sc by (simp add: sync_quarantine_def)
  have sel: "keeps (\<lambda>s. ?Q (fst s)) (select_backlog_cycle st env active now now_utc)" for active now_utc
    by (rule select_keeps) (simp_all add: block_candidate_def sync)
  have rec: "keeps (\<lambda>s. ?Q (fst s)) (record_backlog_failure st l now)" for l by (rule record_keeps) (simp_all add: sync)
  have set: "keeps (\<lambda>s. ?Q (fst s)) (settle_backlog st env c r now)" for c r
    by (rule settle_keeps) (simp_all add: sync rec invalidate_candidate_cache_def)
  show ?thesis unfolding catch_up_def Let_def dispatch_wave_def
    by (intro keeps_intros keeps_sched keeps_if keeps_option keeps_pair sel rec set dispatch_models_keeps) simp_all
qed

lemma active_kept:
  "keeps (\<lambda>s. sc_active_cycle (fst s) = a) (plan_and_dispatch st env dry c snaps act cg ce now)"
proof -
  have "keeps (\<lambda>s. sc_active_cycle (fst s) = a) (catch_up st env dry c p now)" for p
    using catch_up_keeps_active [of a] unfolding keeps_def by blast
  then show ?thesis unfolding plan_and_dispatch_def Let_def
    by (intro keeps_intros keeps_sched keeps_if keeps_pair dispatch_active_keeps) (simp_all add: finish_poll_def)
qed

lemma resolve_switched: "resolve_cycle st env s = (Inr (Some (c, snaps, switched)), s1) \<Longrightarrow> switched = (sc_active_cycle (fst s) \<noteq> Some c)"
  by (auto simp: resolve_cycle_def Let_def elim!: bindP_InrE split: option.splits if_splits)

text \<open>What a poll that planned did\<close>

lemma plan_and_dispatch_InrE:
  assumes "plan_and_dispatch st env dry active snaps act cg ce now s = (Inr po, s')"
  obtains plan timing s1 c p ds s2 where
    "(if fp_wave_due plan \<and> fp_wave_candidate plan \<noteq> [] \<and> \<not> now < sc_active_blocked_until (fst s)
      then if dry then ret (active, plan, []) else bindP (dispatch_active st env active plan now) (\<lambda>ds. ret (active, plan, ds))
      else catch_up st env dry active plan now) s1 = (Inr (c, p, ds), s2)"
    "plan_wave (st_horizons st) (st_coverage st) (cycle_label active) (fst snaps) (snd snaps) cg ce
       \<lparr>wp_max_leads = st_wave_max_leads st, wp_max_wait_seconds = st_wave_max_wait st\<rparr> (sc_active_first_seen (fst s)) now None None = Inr plan"
    "fst s1 = (fst s)\<lparr>sc_active_first_seen := timing\<rparr>" "fst s' = finish_poll (po_activity po) snaps now (fst s2)"
    "po_cycle po = Some c" "po_plan po = Some p" "po_dispatches po = ds"
proof -
  obtain plan ready timing s1 x s2 where
    d: "(if ready then if dry then ret (active, plan, []) else bindP (dispatch_active st env active plan now) (\<lambda>ds. ret (active, plan, ds))
       else catch_up st env dry active plan now) s1 = (Inr x, s2)"
    and p: "plan_wave (st_horizons st) (st_coverage st) (cycle_label active) (fst snaps) (snd snaps) cg ce
       \<lparr>wp_max_leads = st_wave_max_leads st, wp_max_wait_seconds = st_wave_max_wait st\<rparr> (sc_active_first_seen (fst s)) now None None = Inr plan"
    and s: "ready = (fp_wave_due plan \<and> fp_wave_candidate plan \<noteq> [] \<and> \<not> now < sc_active_blocked_until (fst s))"
      "fst s1 = (fst s)\<lparr>sc_active_first_seen := timing\<rparr>" "fst s' = finish_poll (po_activity po) snaps now (fst s2)"
      "po_cycle po = Some (fst x)" "po_plan po = Some (fst (snd x))" "po_dispatches po = snd (snd x)"
  proof -
    show thesis
      by (insert assms [unfolded plan_and_dispatch_def Let_def], elim bindP_InrE, intro that, assumption) (auto elim!: bindP_InrE split: prod.splits)
  qed
  obtain c q ds where x: "x = (c, q, ds)" by (cases x) auto
  show thesis by (rule that [OF d [unfolded s(1) x] p s(2-) [unfolded x fst_conv snd_conv]])
qed

text \<open>After a poll that planned, the resolved cycle is the active one.\<close>

lemma planned_active:
  assumes "resolve_cycle st env s1 = (Inr (Some (c, snaps, switched)), s2)" "fst s1 = sc" 
    and "plan_and_dispatch st env dry c snaps act cg ce now (if switched then switch_to c snaps sc else sc, w) = (r, s')"
  shows "sc_active_cycle (fst s') = Some c"
proof -
  have "sc_active_cycle (if switched then switch_to c snaps sc else sc) = Some c"
    using resolve_switched [OF assms(1)] assms(2) by (auto simp: switch_to_def)
  then show ?thesis using keepsD [OF active_kept _ assms(3), of "Some c"] by simp
qed

subsection \<open>Quarantine\<close>

definition quarantined :: "string \<Rightarrow> pyfloat \<Rightarrow> sched \<Rightarrow> bool" where
  "quarantined l until sc \<longleftrightarrow> sc_backlog_quarantined_until sc l = Some until"

lemma quarantined_sync: "f_lt (Fin t) until \<Longrightarrow> quarantined l until sc \<Longrightarrow> quarantined l until (sync_quarantine t sc)"
  by (cases until) (simp_all add: quarantined_def sync_quarantine_def f_lt_def)

lemma quarantined_held: "f_lt (Fin t) until \<Longrightarrow> quarantined l until sc \<Longrightarrow> held_back sc l t"
  by (simp add: quarantined_def held_back_def)

lemma catch_up_quarantined:
  assumes run: "catch_up st env dry active plan now s = (r, s')" and q: "quarantined l until (fst s)"
    and clock: "\<And>w. f_lt (Fin (fst (en_clock env w))) until" "f_lt (Fin now) until"
  shows "quarantined l until (fst s') \<and> (\<forall>c p ds. r = Inr (c, p, ds) \<longrightarrow> c = active \<or> cycle_label c \<noteq> l)"
proof -
  note sync = quarantined_sync [OF clock(1)] quarantined_sync [OF clock(2)]
  obtain x s1 where x: "select_backlog_cycle st env active now (microseconds now) s = (x, s1)"
    by (cases "select_backlog_cycle st env active now (microseconds now) s") blast
  have "keeps (\<lambda>s. quarantined l until (fst s)) (select_backlog_cycle st env active now (microseconds now))"
    by (rule select_keeps) (simp_all add: block_candidate_def sync, simp_all add: quarantined_def)
  from keepsD [OF this q x] have q1: "quarantined l until (fst s1)" .
  show ?thesis
  proof (cases "\<exists>c p. x = Inr (Some (c, p))")
    case False
    with run x q1 show ?thesis by (cases x) (auto simp: catch_up_def bindP_def split: option.splits)
  next
    case True
    then obtain c p where c: "x = Inr (Some (c, p))" by blast
    have "\<exists>sc. quarantined l until sc \<and> \<not> held_back sc (cycle_label c) now"
      using select_Some [where Q = "quarantined l until", OF x [unfolded c]] sync(2) [OF q]
      by (auto simp: eligible_candidate_def block_candidate_def quarantined_def)
    then have l: "cycle_label c \<noteq> l" using quarantined_held [OF clock(2)] by blast
    define rest where "rest = (if dry then ret (c, p, []) else
      bindP (if fp_wave_candidate p = [] then call (en_repair_status env c) else dispatch_wave env c p) (\<lambda>ds.
        bindP (if list_ex (\<lambda>d. \<not> dispatch_ok d) ds then bindP (record_backlog_failure st (cycle_label c) now) (\<lambda>_. ret ())
               else settle_backlog st env c (fp_wave_candidate p = []) now) (\<lambda>_. ret (c, p, ds))))"
    have run1: "rest s1 = (r, s')" using run unfolding catch_up_def rest_def Let_def by (simp only: bindP_Inr [where m = "select_backlog_cycle _ _ _ _ _", OF x [unfolded c]] option.case prod.case)
    have rec: "keeps (\<lambda>s. quarantined l until (fst s)) (record_backlog_failure st (cycle_label c) now)"
      by (rule record_keeps) (simp_all add: sync, simp_all add: quarantined_def l l [symmetric])
    have "keeps (\<lambda>s. quarantined l until (fst s)) (settle_backlog st env c rep now)" for rep
      by (rule settle_keeps) (simp_all add: sync rec, simp_all add: quarantined_def l l [symmetric] invalidate_candidate_cache_def)
    with rec have "keeps (\<lambda>s. quarantined l until (fst s)) rest"
      unfolding rest_def dispatch_wave_def by (intro keeps_intros keeps_sched keeps_if dispatch_models_keeps) simp_all
    from keepsD [OF this q1 run1] have "quarantined l until (fst s')" .
    moreover have "\<exists>ds. y = (c, p, ds)" if "r = Inr y" for y
      using run1 that by (auto simp: rest_def elim!: bindP_InrE split: if_splits)
    ultimately show ?thesis using l by blast
  qed
qed

lemma plan_and_dispatch_quarantined:
  assumes run: "plan_and_dispatch st env dry active snaps act cg ce now s = (r, s')" and q: "quarantined l until (fst s)"
    and clock: "\<And>w. f_lt (Fin (fst (en_clock env w))) until" "f_lt (Fin now) until"
  shows "quarantined l until (fst s') \<and> (\<forall>po c. r = Inr po \<longrightarrow> po_cycle po = Some c \<longrightarrow> po_dispatches po \<noteq> [] \<longrightarrow> c = active \<or> cycle_label c \<noteq> l)"
proof -
  let ?Q = "\<lambda>s. quarantined l until (fst s)"
  have act: "keeps ?Q (dispatch_active st env active p now)" for p by (rule dispatch_active_keeps) (simp_all add: quarantined_def)
  have "keeps ?Q (catch_up st env dry active p now)" for p
    unfolding keeps_def using catch_up_quarantined [OF _ _ clock] by (metis prod.collapse)
  with act have "keeps ?Q (plan_and_dispatch st env dry active snaps act cg ce now)" for act
    unfolding plan_and_dispatch_def Let_def
    by (intro keeps_intros keeps_sched keeps_if keeps_pair) (simp_all add: quarantined_def finish_poll_def)
  from keepsD [OF this q run] have "?Q s'" .
  moreover have "c = active \<or> cycle_label c \<noteq> l" if r: "r = Inr po" "po_cycle po = Some c" for po c
  proof -
    from plan_and_dispatch_InrE [OF run [unfolded r(1)]] obtain plan timing s1 c' p ds s2 where
      d: "(if fp_wave_due plan \<and> fp_wave_candidate plan \<noteq> [] \<and> \<not> now < sc_active_blocked_until (fst s)
        then if dry then ret (active, plan, []) else bindP (dispatch_active st env active plan now) (\<lambda>ds. ret (active, plan, ds))
        else catch_up st env dry active plan now) s1 = (Inr (c', p, ds), s2)"
      and x: "fst s1 = (fst s)\<lparr>sc_active_first_seen := timing\<rparr>" "po_cycle po = Some c'" by metis
    have "quarantined l until (fst s1)" using x(1) q by (simp add: quarantined_def)
    with d x(2) r(2) show ?thesis using catch_up_quarantined [OF _ _ clock] by (auto simp: quarantined_def elim!: bindP_InrE split: if_splits)
  qed
  ultimately show ?thesis by blast
qed

lemma poll_quarantined:
  assumes run: "poll_once st env dry s = (r, s')" and q: "quarantined l until (fst s)" and clock: "\<And>w. f_lt (Fin (fst (en_clock env w))) until"
  shows "quarantined l until (fst s') \<and> (\<forall>po c. r = Inr po \<longrightarrow> po_cycle po = Some c \<longrightarrow> po_dispatches po \<noteq> [] \<longrightarrow>
    sc_active_cycle (fst s') = Some c \<or> cycle_label c \<noteq> l)"
  using run
proof (cases rule: poll_once_cases)
  case (work s1 c snaps switched s2 act cg ce w2 now w3)
  have "quarantined l until (if switched then switch_to c snaps (fst s) else fst s)"
    using q by (simp add: quarantined_def switch_to_def invalidate_candidate_cache_def)
  moreover have "f_lt (Fin now) until" using clock [of w2] work(5) by simp
  ultimately show ?thesis
    using plan_and_dispatch_quarantined [OF work(4) _ clock] planned_active [OF work(2,1,4)] by auto
qed (use q in \<open>auto simp: quiet_outcome_def\<close>)

text \<open>The states reached by polls; between them everything outside the scheduler may change\<close>

inductive polls_to :: "sched_settings \<Rightarrow> 'w sched_env \<Rightarrow> bool \<Rightarrow> sched \<Rightarrow> sched \<Rightarrow> bool" for st env dry sc where
  here: "polls_to st env dry sc sc"
| poll: "polls_to st env dry sc sc1 \<Longrightarrow> poll_once st env dry (sc1, w) = (r, (sc2, w')) \<Longrightarrow> polls_to st env dry sc sc2"

text \<open>C38: While every reading of the clock is before its end, a quarantine holds: over any number of polls, failed ones included, and
  whatever changes outside the scheduler in between, the entry stays, and no poll dispatches a wave or a repair of a cycle with that
  label unless it has become the active cycle. With a quarantine time of zero the end is infinite, so it holds for good.\<close>

theorem quarantine_lasts:
  assumes "polls_to st env dry sc0 sc" and "sc_backlog_quarantined_until sc0 l = Some until"
    and "\<And>w. f_lt (Fin (fst (en_clock env w))) until"
  shows "sc_backlog_quarantined_until sc l = Some until \<and>
    (\<forall>w po sc' w' c. poll_once st env dry (sc, w) = (Inr po, (sc', w')) \<longrightarrow> po_cycle po = Some c \<longrightarrow> po_dispatches po \<noteq> [] \<longrightarrow>
       sc_active_cycle sc' = Some c \<or> cycle_label c \<noteq> l)"
proof -
  note step = poll_quarantined [OF _ _ assms(3)]
  have q: "quarantined l until sc" using assms(1)
  proof induction
    case here
    show ?case using assms(2) by (simp add: quarantined_def)
  next
    case (poll sc1 w r sc2 w')
    from step [OF poll(2)] poll(3) show ?case by simp
  qed
  have "sc_active_cycle sc' = Some c \<or> cycle_label c \<noteq> l"
    if "poll_once st env dry (sc, w) = (Inr po, (sc', w'))" "po_cycle po = Some c" "po_dispatches po \<noteq> []" for w po sc' w' c
    using step [OF that(1)] q that(2,3) by simp
  with q show ?thesis by (auto simp: quarantined_def)
qed

subsection \<open>Recovered cycles\<close>

lemma catch_up_chosen:
  assumes "catch_up st env dry active plan now s = (Inr (c, p, ds), s')" "c \<noteq> active"
  obtains s1 where "select_backlog_cycle st env active now (microseconds now) s = (Inr (Some (c, p)), s1)"
  using assms unfolding catch_up_def Let_def by (elim bindP_InrE) (auto elim!: bindP_InrE split: option.splits if_splits)

lemma held_kept:
  assumes "0 < st_backlog_retry_backoff st" "held_back sc l now"
  shows "held_back (block_candidate st l' now sc) l now" "held_back (sync_quarantine now sc) l now"
proof -
  show "held_back (block_candidate st l' now sc) l now" using assms by (auto simp: held_back_def block_candidate_def)
  show "held_back (sync_quarantine now sc) l now"
    using assms(2) by (auto simp: held_back_def sync_quarantine_def f_lt_def split: option.splits)
qed

text \<open>C37: A poll recovers a historical cycle only when the wave of the active cycle waits: the plan the poll makes for the active
  cycle, from the snapshots, the committed state and the time it read, is not due, or that cycle is backing off. And it recovers
  only a cycle that is enabled for recovery, can still reach into the serving window, is neither backing off nor quarantined at
  that time, and has a wave to dispatch or a complete horizon to repair.\<close>

theorem recovered_cycle_is_eligible:
  assumes "poll_once st env dry_run (sc, w) = (Inr po, (sc', w'))" and "po_cycle po = Some c" "po_plan po = Some p"
    and "sc_active_cycle sc' = Some active" "c \<noteq> active" and "0 < st_backlog_retry_backoff st"
  shows "st_backlog_enabled st \<and> st_cycle_override st = None \<and>
    (fp_wave_due p \<and> fp_wave_candidate p \<noteq> [] \<or> fp_next_blocked_lead p = None \<and> fp_blocked_reason p = Some BLOCK_HORIZON_COMPLETE) \<and>
    (\<exists>w1 gfs gefs switched w2 committed_gfs committed_gefs w3 now w4 plan start max_lead.
       leader_active env (sc, w) = (Inr True, (sc, w1)) \<and>
       resolve_cycle st env (sc, w1) = (Inr (Some (active, (gfs, gefs), switched)), (sc, w2)) \<and>
       en_read_committed env active w2 = (Inr (committed_gfs, committed_gefs), w3) \<and> en_clock env w3 = (now, w4) \<and>
       plan_wave (st_horizons st) (st_coverage st) (cycle_label active) gfs gefs committed_gfs committed_gefs
         \<lparr>wp_max_leads = st_wave_max_leads st, wp_max_wait_seconds = st_wave_max_wait st\<rparr>
         (if switched then Map.empty else sc_active_first_seen sc) now None None = Inr plan \<and>
       (fp_wave_due plan \<and> fp_wave_candidate plan \<noteq> [] \<longrightarrow> now < (if switched then 0 else sc_active_blocked_until sc)) \<and>
       \<not> held_back sc (cycle_label c) now \<and>
       serving_start_valid_time (utc_datetime (microseconds now)) CANONICAL_LEAD_CADENCE_HOURS = Inr start \<and>
       max_model_lead_hours (st_horizons st) [''gfs'', ''gefs''] (Some (st_version_string st)) None = Inr max_lead \<and>
       start \<le> cycle_instant c + hours max_lead)"
  using assms(1)
proof (cases rule: poll_once_cases)
  case (work s1 d snaps switched s2 act cg ce w2 now w3)
  let ?sw = "if switched then switch_to d snaps sc else sc"
  have d: "d = active" using planned_active [OF work(2,1,4)] assms(4) by simp
  from plan_and_dispatch_InrE [OF work(4)] obtain plan timing t1 c' q ds t2 where
    run: "(if fp_wave_due plan \<and> fp_wave_candidate plan \<noteq> [] \<and> \<not> now < sc_active_blocked_until ?sw
        then if dry_run then ret (d, plan, []) else bindP (dispatch_active st env d plan now) (\<lambda>ds. ret (d, plan, ds))
        else catch_up st env dry_run d plan now) t1 = (Inr (c', q, ds), t2)"
    and pl: "plan_wave (st_horizons st) (st_coverage st) (cycle_label d) (fst snaps) (snd snaps) cg ce
       \<lparr>wp_max_leads = st_wave_max_leads st, wp_max_wait_seconds = st_wave_max_wait st\<rparr> (sc_active_first_seen ?sw) now None None = Inr plan"
    and t: "fst t1 = ?sw\<lparr>sc_active_first_seen := timing\<rparr>" "sc' = finish_poll (po_activity po) snaps now (fst t2)"
    and po: "po_cycle po = Some c'" "po_plan po = Some q" "po_dispatches po = ds"
    by (rule plan_and_dispatch_InrE [OF work(4), unfolded fst_conv])
  have c: "c' = c" "q = p" using po assms(2,3) by simp_all
  have idle: "\<not> (fp_wave_due plan \<and> fp_wave_candidate plan \<noteq> [] \<and> \<not> now < sc_active_blocked_until ?sw)"
    and cu: "catch_up st env dry_run d plan now t1 = (Inr (c, p, ds), t2)"
    using run c d assms(5) by (auto elim!: bindP_InrE split: if_splits)
  have "sc_active_first_seen ?sw = (if switched then Map.empty else sc_active_first_seen sc)"
    "sc_active_blocked_until ?sw = (if switched then 0 else sc_active_blocked_until sc)" by (simp_all add: switch_to_def)
  note pl = pl [unfolded this(1)] and idle = idle [unfolded this(2)]
  obtain t3 where sel: "select_backlog_cycle st env d now (microseconds now) t1 = (Inr (Some (c, p)), t3)"
    using catch_up_chosen [OF cu] assms(5) d by blast
  define Q where "Q sc1 \<longleftrightarrow> (\<forall>l. held_back sc l now \<longrightarrow> held_back sc1 l now)" for sc1
  have "Q (fst t1)" unfolding Q_def t by (simp add: held_back_def switch_to_def invalidate_candidate_cache_def)
  then have "Q (sync_quarantine now (fst t1))" using held_kept(2) [OF assms(6)] by (auto simp: Q_def)
  with held_kept(1) [OF assms(6)]
  have "st_backlog_enabled st \<and> st_cycle_override st = None \<and>
    (\<exists>start ml sc. serving_start_valid_time (utc_datetime (microseconds now)) CANONICAL_LEAD_CADENCE_HOURS = Inr start \<and>
      max_model_lead_hours (st_horizons st) [''gfs'', ''gefs''] (Some (st_version_string st)) None = Inr ml \<and> Q sc \<and>
      eligible_candidate sc d now start ml c) \<and>
    (fp_wave_due p \<and> fp_wave_candidate p \<noteq> [] \<or> fp_next_blocked_lead p = None \<and> fp_blocked_reason p = Some BLOCK_HORIZON_COMPLETE)"
    by (intro select_Some [where Q = Q, OF sel]) (simp_all add: Q_def held_back_def)
  moreover have "\<not> held_back sc (cycle_label c) now \<and> start \<le> cycle_instant c + hours ml"
    if "Q sc1" "eligible_candidate sc1 d now start ml c" for sc1 start ml
    using that by (auto simp: Q_def eligible_candidate_def)
  ultimately have e: "st_backlog_enabled st \<and> st_cycle_override st = None \<and>
    (\<exists>start ml. serving_start_valid_time (utc_datetime (microseconds now)) CANONICAL_LEAD_CADENCE_HOURS = Inr start \<and>
      max_model_lead_hours (st_horizons st) [''gfs'', ''gefs''] (Some (st_version_string st)) None = Inr ml \<and>
      start \<le> cycle_instant c + hours ml \<and> \<not> held_back sc (cycle_label c) now) \<and>
    (fp_wave_due p \<and> fp_wave_candidate p \<noteq> [] \<or> fp_next_blocked_lead p = None \<and> fp_blocked_reason p = Some BLOCK_HORIZON_COMPLETE)"
    by blast
  obtain u1 u2 where u: "s1 = (sc, u1)" "s2 = (sc, u2)" using work(1,3) by (metis fst_conv prod.collapse)
  obtain gfs gefs where sn: "snaps = (gfs, gefs)" by (cases snaps)
  from idle have "fp_wave_due plan \<and> fp_wave_candidate plan \<noteq> [] \<longrightarrow> now < (if switched then 0 else sc_active_blocked_until sc)" by blast
  moreover have "leader_active env (sc, w) = (Inr True, (sc, u1))" "resolve_cycle st env (sc, u1) = (Inr (Some (active, (gfs, gefs), switched)), (sc, u2))"
    "en_read_committed env active u2 = (Inr (cg, ce), w2)" using work(2,6,7) u d sn by simp_all
  ultimately show ?thesis using e pl [unfolded d sn fst_conv snd_conv] work(5) by blast
qed (use assms(3) in \<open>auto simp: quiet_outcome_def\<close>)

text \<open>At 13:53 the cycle of 06Z waits for more leads and that of 00Z, which nobody has ingested, is recovered.\<close>

definition two_lead_settings :: sched_settings where
  "two_lead_settings = (usual_settings None)\<lparr>st_horizons := \<lparr>model_horizons = [''gfs'' \<mapsto> [0, 24], ''gefs'' \<mapsto> [0, 24]], version_horizons = Map.empty\<rparr>,
     st_coverage := default_coverage\<lparr>expected_members_map := [''gfs'' \<mapsto> 1, ''gefs'' \<mapsto> 1]\<rparr>\<rparr>"

definition quiet_env :: "model_committed_state \<times> model_committed_state \<Rightarrow> unit sched_env" where
  "quiet_env committed = \<lparr>en_clock = (\<lambda>w. (50000, w)), en_leader = None, en_acquire = (\<lambda>w. (Inr True, w)), en_release = (\<lambda>w. w),
     en_preflight = (\<lambda>w. (Inr (), w)), en_stopped = (\<lambda>w. False), en_sleep = (\<lambda>t w. w), en_uniform = (\<lambda>w. ((\<lambda>a b. a), w)),
     en_discover = (\<lambda>c w. (Inr (Some (sample_snapshot None), Some (sample_snapshot (Some 1))), w)),
     en_read_committed = (\<lambda>c w. (Inr committed, w)),
     en_discover_candidates = (\<lambda>c t w. (Inr [\<lparr>ci_date = 0, ci_hour = 0\<rparr>], w)), en_is_complete = (\<lambda>c w. (Inr False, w)),
     en_repair_status = (\<lambda>c w. (Inr [], w)),
     en_dispatch_wave = (\<lambda>m ts c w. (Inr \<lparr>wd_model = m, wd_targets = ts, wd_status = None, wd_failures = [], wd_error = None\<rparr>, w)),
     en_sha256 = (\<lambda>_. [])\<rparr>"

lemma quiet_newest: "microseconds 50000 = 50000000000" "newest_eligible_cycle 50000000000 10800 = Inr \<lparr>ci_date = 0, ci_hour = 6\<rparr>"
proof -
  show "microseconds 50000 = 50000000000" by (simp add: microseconds_def py_round_def)
  have "microseconds 10800 = 10800000000" by (simp add: microseconds_def py_round_def)
  then show "newest_eligible_cycle 50000000000 10800 = Inr \<lparr>ci_date = 0, ci_hour = 6\<rparr>"
    by (simp add: newest_eligible_cycle_def CYCLE_HOURS_def cycle_instant_def us_per_day_def us_per_hour_def)
qed

lemma quiet_plan:
  "\<exists>p. plan_wave (st_horizons two_lead_settings) (st_coverage two_lead_settings) lbl (Some (sample_snapshot None)) (Some (sample_snapshot (Some 1)))
     nothing_committed nothing_committed \<lparr>wp_max_leads = 8, wp_max_wait_seconds = t\<rparr> Map.empty 50000 None None = Inr p \<and>
     fp_pending_complete_leads p = [0] \<and> fp_wave_due p = (t \<le> 0) \<and> fp_wave_candidate p = (if t \<le> 0 then [0] else []) \<and>
     fp_wave_targets_gfs p = fp_wave_candidate p \<and> fp_wave_targets_gefs p = fp_wave_candidate p"
proof -
  have "norm_key ''gfs'' = ''gfs''" "norm_key ''gefs'' = ''gefs''" "py_range 1 2 1 = [1]" by code_simp+
  then show ?thesis
    by (simp add: plan_wave_def two_lead_settings_def usual_settings_def canonical_lead_time_hours_def get_expected_members_def
        nothing_committed_def sample_snapshot_def Let_def is_lead_committed_def is_artifact_complete_def region_def ra_is_complete_def
        predecessor_satisfied_def slice_to_def no_artifacts_def bindE_def)
qed

abbreviation morning_cycle :: cycle_identity where "morning_cycle \<equiv> \<lparr>ci_date = 0, ci_hour = 6\<rparr>"
abbreviation night_cycle :: cycle_identity where "night_cycle \<equiv> \<lparr>ci_date = 0, ci_hour = 0\<rparr>"
abbreviation quiet_snapshots :: snapshots where "quiet_snapshots \<equiv> (Some (sample_snapshot None), Some (sample_snapshot (Some 1)))"

lemma sample_regions: "cs_regions (sample_snapshot m) \<noteq> []" by (simp add: sample_snapshot_def Let_def)

lemma quiet_settings:
  "st_first_publication_delay two_lead_settings = 10800" "st_cycle_override two_lead_settings = None" "st_backlog_enabled two_lead_settings"
  "st_wave_max_leads two_lead_settings = 8" "st_wave_max_wait two_lead_settings = 1200"
  "max_model_lead_hours (st_horizons two_lead_settings) [''gfs'', ''gefs''] (Some (st_version_string two_lead_settings)) None = Inr 24"
  by (simp_all add: two_lead_settings_def usual_settings_def, code_simp)

lemma quiet_resolve:
  "resolve_cycle two_lead_settings (quiet_env committed) (sc, ()) = (Inr (Some (morning_cycle, quiet_snapshots, sc_active_cycle sc \<noteq> Some morning_cycle)), (sc, ()))"
  by (simp add: resolve_cycle_def sched_run quiet_env_def quiet_settings quiet_newest bindP_Inr [where m = "liftE _"] liftE_def
      snapshots_empty_def sample_regions)

lemmas plain_run = bindP_def call_def ask_def field_def assign_def attempt_def ret_def liftE_def gets_def

lemma quiet_select:
  assumes "sc_cached_candidates sc = None" "sc_backlog_quarantined_until sc = Map.empty" "sc_backlog_blocked_until sc = Map.empty"
    "sc_backlog_snapshots sc = Map.empty" "sc_backlog_first_seen sc = Map.empty" "sc_backlog_rotation_offset sc = 0"
    and p: "plan_wave (st_horizons two_lead_settings) (st_coverage two_lead_settings) (cycle_label night_cycle) (fst quiet_snapshots) (snd quiet_snapshots)
      (fst committed) (snd committed) \<lparr>wp_max_leads = 8, wp_max_wait_seconds = 0\<rparr> Map.empty 50000 None None = Inr p"
      "fp_wave_due p \<and> fp_wave_candidate p \<noteq> [] \<or> fp_next_blocked_lead p = None \<and> fp_blocked_reason p = Some BLOCK_HORIZON_COMPLETE"
  shows "\<exists>sc1. select_backlog_cycle two_lead_settings (quiet_env committed) morning_cycle 50000 50000000000 (sc, ()) = (Inr (Some (night_cycle, p)), (sc1, ()))"
proof -
  have start: "serving_start_valid_time (utc_datetime 50000000000) CANONICAL_LEAD_CADENCE_HOURS = Inr (hours 12)" by code_simp
  have live: "\<not> is_cycle_horizon_expired (utc_datetime (cycle_instant night_cycle)) 24 (utc_datetime (hours 12))" by code_simp
  have ex: "\<exists>sc2. examine_candidate two_lead_settings (quiet_env committed) morning_cycle 50000 (hours 12) 24 night_cycle (sc1, ()) = (Inr (Some (night_cycle, p)), (sc2, ()))"
    if "sc_backlog_quarantined_until sc1 = Map.empty" "sc_backlog_blocked_until sc1 = Map.empty" "sc_backlog_snapshots sc1 = Map.empty"
      "sc_backlog_first_seen sc1 = Map.empty" for sc1
    using that p live
    by (simp add: examine_candidate_def candidate_snapshots_def judge_plan_def held_back_def snapshots_empty_def sample_regions quiet_settings
        quiet_env_def plain_run f_lt_def case_prod_unfold) auto
  define sc1 where "sc1 = (sync_quarantine 50000 sc)\<lparr>sc_cached_candidates := Some [night_cycle], sc_candidates_last_refreshed_at := 50000\<rparr>"
  obtain sc2 where ex: "examine_candidate two_lead_settings (quiet_env committed) morning_cycle 50000 (hours 12) 24 night_cycle (sc1, ()) = (Inr (Some (night_cycle, p)), (sc2, ()))"
    using ex [of sc1] assms by (auto simp: sc1_def sync_quarantine_def)
  have d: "en_discover_candidates (quiet_env committed) c t w = (Inr [night_cycle], w)" for c t w by (simp add: quiet_env_def)
  have s: "sc_cached_candidates (sync_quarantine 50000 sc) = None" "sc_backlog_rotation_offset (sync_quarantine 50000 sc) = 0"
    using assms by (simp_all add: sync_quarantine_def)
  show ?thesis using ex
    by (simp add: select_backlog_cycle_def get_candidates_def quiet_settings start plain_run rotated_def d s flip: sc1_def)
qed

lemma quiet_poll:
  "\<exists>po sc'. poll_once two_lead_settings (quiet_env (nothing_committed, nothing_committed)) False (fresh_sched, ()) = (Inr po, (sc', ())) \<and> po_cycle po = Some night_cycle \<and>
     po_plan po \<noteq> None \<and> map wd_targets (po_dispatches po) = [[0], [0]] \<and> sc_active_cycle sc' = Some morning_cycle"
proof -
  let ?env = "quiet_env (nothing_committed, nothing_committed)"
  define sc where "sc = (switch_to morning_cycle quiet_snapshots fresh_sched)
    \<lparr>sc_active_first_seen := (\<lambda>lead. if lead = 0 then Some 50000 else None)\<rparr>"
  from quiet_plan [of "cycle_label morning_cycle" 1200] obtain pa where
    pa: "plan_wave (st_horizons two_lead_settings) (st_coverage two_lead_settings) (cycle_label morning_cycle) (Some (sample_snapshot None)) (Some (sample_snapshot (Some 1)))
     nothing_committed nothing_committed \<lparr>wp_max_leads = 8, wp_max_wait_seconds = 1200\<rparr> Map.empty 50000 None None = Inr pa"
    "fp_pending_complete_leads pa = [0]" "\<not> fp_wave_due pa" by auto
  from quiet_plan [of "cycle_label night_cycle" 0] obtain p where
    p: "plan_wave (st_horizons two_lead_settings) (st_coverage two_lead_settings) (cycle_label night_cycle) (fst quiet_snapshots) (snd quiet_snapshots)
     nothing_committed nothing_committed \<lparr>wp_max_leads = 8, wp_max_wait_seconds = 0\<rparr> Map.empty 50000 None None = Inr p"
    "fp_wave_due p" "fp_wave_candidate p = [0]" "fp_wave_targets_gfs p = [0]" "fp_wave_targets_gefs p = [0]" by auto
  obtain sc1 where sel: "select_backlog_cycle two_lead_settings (quiet_env (nothing_committed, nothing_committed)) morning_cycle 50000 50000000000 (sc, ()) = (Inr (Some (night_cycle, p)), (sc1, ()))"
    using quiet_select [of sc "(nothing_committed, nothing_committed)" p] p by (auto simp: sc_def switch_to_def invalidate_candidate_cache_def start_sched_def)
  have "\<exists>sc2 ds. catch_up two_lead_settings (quiet_env (nothing_committed, nothing_committed)) False morning_cycle pa 50000 (sc, ()) = (Inr (night_cycle, p, ds), (sc2, ())) \<and> map wd_targets ds = [[0], [0]]"
    unfolding catch_up_def quiet_newest bindP_Inr [where m = "select_backlog_cycle _ _ _ _ _", OF sel]
    by (cases "sc_backlog_quarantined_until sc1 (cycle_label night_cycle)")
      (simp_all add: p(3-) dispatch_wave_def dispatch_ok_def settle_backlog_def clear_backlog_failure_def plain_run quiet_env_def Let_def)
  then obtain sc2 ds where cu: "catch_up two_lead_settings (quiet_env (nothing_committed, nothing_committed)) False morning_cycle pa 50000 (sc, ()) = (Inr (night_cycle, p, ds), (sc2, ()))"
    "map wd_targets ds = [[0], [0]]" by (elim exE conjE that)
  have act: "sc_active_cycle sc2 = Some morning_cycle"
    using keepsD [OF catch_up_keeps_active _ cu(1), of "Some morning_cycle" "sc_active_blocked_until sc"] by (simp add: sc_def switch_to_def)
  have env: "en_leader ?env = None" "en_clock ?env w = (50000, w)" "en_read_committed ?env c w = (Inr (nothing_committed, nothing_committed), w)"
    for c w by (simp_all add: quiet_env_def)
  let ?sw = "switch_to morning_cycle quiet_snapshots fresh_sched"
  have first: "sc_active_first_seen ?sw = Map.empty" by (simp add: switch_to_def)
  have "\<exists>po sc'. plan_and_dispatch two_lead_settings (quiet_env (nothing_committed, nothing_committed)) False morning_cycle quiet_snapshots True nothing_committed nothing_committed 50000 (?sw, ()) =
      (Inr po, (sc', ())) \<and> po_cycle po = Some night_cycle \<and> po_plan po \<noteq> None \<and>
      map wd_targets (po_dispatches po) = [[0], [0]] \<and> sc_active_cycle sc' = Some morning_cycle"
    using cu by (simp add: plan_and_dispatch_def plain_run quiet_settings first pa sc_def [symmetric] Let_def act finish_poll_def cong: if_cong)
  moreover have "publication_activity ?env None quiet_snapshots True"
    by (simp add: publication_activity_def snapshots_empty_def sample_regions)
  ultimately show ?thesis
    by (simp add: poll_once_def poll_cycle_def leader_active_def plain_run quiet_resolve env start_sched_def Let_def)
qed

lemma recovered_cycle_is_eligible_witness:
  "\<exists>po sc' w. poll_once two_lead_settings (quiet_env (nothing_committed, nothing_committed)) False (fresh_sched, ()) = (Inr po, (sc', w)) \<and>
     po_cycle po = Some night_cycle \<and> \<not> held_back fresh_sched (cycle_label night_cycle) 50000 \<and>
     (\<exists>start max_lead. serving_start_valid_time (utc_datetime (microseconds 50000)) CANONICAL_LEAD_CADENCE_HOURS = Inr start \<and>
       start \<le> cycle_instant night_cycle + hours max_lead)"
proof -
  from quiet_poll obtain po sc' p where p: "poll_once two_lead_settings (quiet_env (nothing_committed, nothing_committed)) False (fresh_sched, ()) = (Inr po, (sc', ()))"
    "po_cycle po = Some night_cycle" "po_plan po = Some p" "sc_active_cycle sc' = Some morning_cycle" by auto
  have "0 < st_backlog_retry_backoff two_lead_settings" by (simp add: two_lead_settings_def usual_settings_def)
  moreover have "en_clock (quiet_env (nothing_committed, nothing_committed)) u = (50000, u)" for u by (simp add: quiet_env_def)
  ultimately show ?thesis using recovered_cycle_is_eligible [OF p _ _] p(1,2) by auto
qed

lemma quarantine_lasts_witness:
  "\<exists>r sc w'. poll_once two_lead_settings (quiet_env (nothing_committed, nothing_committed)) False (fresh_sched\<lparr>sc_backlog_quarantined_until := [cycle_label night_cycle \<mapsto> PInf]\<rparr>, ()) = (r, (sc, w')) \<and>
     sc_backlog_quarantined_until sc (cycle_label night_cycle) = Some PInf"
proof -
  let ?sc = "fresh_sched\<lparr>sc_backlog_quarantined_until := [cycle_label night_cycle \<mapsto> PInf]\<rparr>"
  obtain r sc w' where run: "poll_once two_lead_settings (quiet_env (nothing_committed, nothing_committed)) False (?sc, ()) = (r, (sc, w'))" by (metis prod.collapse)
  from quarantine_lasts [OF polls_to.poll [OF polls_to.here run], of "cycle_label night_cycle" PInf] run show ?thesis by (auto simp: f_lt_def)
qed

subsection \<open>Repairs that do not promote\<close>

lemma settle_unpromoted:
  assumes "settle_backlog st env c True now s = (Inr (), s')"
    and "\<And>w. fst (en_is_complete env c w) = Inr False" "1 < st_quarantine_threshold st"
  shows "sc_backlog_failures (fst s') (cycle_label c) = Some 1 \<and> sc_backlog_quarantined_until (fst s') (cycle_label c) = None \<and>
    sc_backlog_blocked_until (fst s') (cycle_label c) = Some (now + min (st_backlog_retry_backoff st) (st_backlog_max_backoff st))"
proof -
  let ?l = "cycle_label c"
  have "\<exists>s1. clear_backlog_failure env ?l s = (Inr (), s1) \<and> sc_backlog_failures (fst s1) ?l = None \<and> sc_backlog_quarantined_until (fst s1) ?l = None"
    by (cases "sc_backlog_quarantined_until (fst s) ?l"; cases "en_clock env (snd s)")
      (simp_all add: clear_backlog_failure_def plain_run sync_quarantine_def)
  then obtain s1 where c: "clear_backlog_failure env ?l s = (Inr (), s1)" "sc_backlog_failures (fst s1) ?l = None"
    "sc_backlog_quarantined_until (fst s1) ?l = None" by blast
  obtain w2 where w2: "en_is_complete env c (snd s1) = (Inr False, w2)" using assms(2) by (metis prod.collapse)
  show ?thesis using assms(1,3) c(2,3) unfolding settle_backlog_def bindP_Inr [where m = "clear_backlog_failure _ _", OF c(1)]
    by (auto simp: w2 record_backlog_failure_def backoff_after_def plain_run)
qed

text \<open>C39: A status repair that reports success but leaves its cycle incomplete clears the failure streak before the new failure is
  counted: whatever the streak was, it is one afterwards, the backoff is the shortest one again, and with a threshold above one the
  cycle is never quarantined, however often this happens.\<close>

theorem unpromoting_repair_never_quarantined:
  assumes "catch_up st env False active plan now (sc, w) = (Inr (c, p, ds), (sc', w'))" and "c \<noteq> active"
    and "fp_wave_candidate p = []" "\<forall>d \<in> set ds. dispatch_ok d"
    and "\<And>w. fst (en_is_complete env c w) = Inr False" and "1 < st_quarantine_threshold st"
  shows "sc_backlog_failures sc' (cycle_label c) = Some 1 \<and> sc_backlog_quarantined_until sc' (cycle_label c) = None \<and>
    sc_backlog_blocked_until sc' (cycle_label c) = Some (now + min (st_backlog_retry_backoff st) (st_backlog_max_backoff st))"
proof -
  obtain s1 where sel: "select_backlog_cycle st env active now (microseconds now) (sc, w) = (Inr (Some (c, p)), s1)"
    using catch_up_chosen [OF assms(1,2)] by blast
  have fine: "\<not> list_ex (\<lambda>d. \<not> dispatch_ok d) ds" using assms(4) by (auto simp: list_ex_iff)
  have "bindP (call (en_repair_status env c)) (\<lambda>ds. bindP (if list_ex (\<lambda>d. \<not> dispatch_ok d) ds
      then bindP (record_backlog_failure st (cycle_label c) now) (\<lambda>_. ret ()) else settle_backlog st env c (fp_wave_candidate p = []) now) (\<lambda>_. ret (c, p, ds))) s1 =
    (Inr (c, p, ds), (sc', w'))"
    using assms(1) unfolding catch_up_def bindP_Inr [where m = "select_backlog_cycle _ _ _ _ _", OF sel] Let_def by (simp add: assms(3))
  then obtain ds1 s2 where "bindP (if list_ex (\<lambda>d. \<not> dispatch_ok d) ds1 then bindP (record_backlog_failure st (cycle_label c) now) (\<lambda>_. ret ())
      else settle_backlog st env c (fp_wave_candidate p = []) now) (\<lambda>_. ret (c, p, ds1)) s2 = (Inr (c, p, ds), (sc', w'))"
    by (rule bindP_InrE)
  then obtain u s3 where "(if list_ex (\<lambda>d. \<not> dispatch_ok d) ds1 then bindP (record_backlog_failure st (cycle_label c) now) (\<lambda>_. ret ())
      else settle_backlog st env c (fp_wave_candidate p = []) now) s2 = (Inr u, s3)" "ret (c, p, ds1) s3 = (Inr (c, p, ds), (sc', w'))"
    by (rule bindP_InrE)
  with fine assms(3) have "settle_backlog st env c True now s2 = (Inr (), (sc', w'))" by (simp only: py_run_iff) simp
  from settle_unpromoted [OF this assms(5,6)] show ?thesis by simp
qed

text \<open>Every lead of 00Z is committed, its status is stale, and four repairs were in vain.\<close>

definition all_committed :: "model_committed_state \<times> model_committed_state" where
  "all_committed = (\<lparr>mcs_leads = {0, 24}, mcs_pairs = {}\<rparr>, \<lparr>mcs_leads = {}, mcs_pairs = {(1, 0), (1, 24)}\<rparr>)"

lemma repair_plan:
  "\<exists>p. plan_wave (st_horizons two_lead_settings) (st_coverage two_lead_settings) lbl (fst quiet_snapshots) (snd quiet_snapshots)
     (fst all_committed) (snd all_committed) \<lparr>wp_max_leads = 8, wp_max_wait_seconds = 0\<rparr> Map.empty 50000 None None = Inr p \<and>
     fp_wave_candidate p = [] \<and> fp_next_blocked_lead p = None \<and> fp_blocked_reason p = Some BLOCK_HORIZON_COMPLETE"
proof -
  have "norm_key ''gfs'' = ''gfs''" "norm_key ''gefs'' = ''gefs''" "py_range 1 2 1 = [1]" by code_simp+
  then show ?thesis
    by (simp add: plan_wave_def two_lead_settings_def usual_settings_def canonical_lead_time_hours_def get_expected_members_def
        all_committed_def Let_def is_lead_committed_def bindE_def)
qed

lemma unpromoting_repair_never_quarantined_witness:
  "\<exists>plan r sc' w'. catch_up two_lead_settings (quiet_env all_committed) False morning_cycle plan 50000
      (fresh_sched\<lparr>sc_backlog_failures := [cycle_label night_cycle \<mapsto> 4]\<rparr>, ()) = (r, (sc', w')) \<and>
    sc_backlog_failures sc' (cycle_label night_cycle) = Some 1 \<and> sc_backlog_quarantined_until sc' (cycle_label night_cycle) = None"
proof -
  let ?sc = "fresh_sched\<lparr>sc_backlog_failures := [cycle_label night_cycle \<mapsto> 4]\<rparr>"
  obtain p where p: "plan_wave (st_horizons two_lead_settings) (st_coverage two_lead_settings) (cycle_label night_cycle) (fst quiet_snapshots) (snd quiet_snapshots)
     (fst all_committed) (snd all_committed) \<lparr>wp_max_leads = 8, wp_max_wait_seconds = 0\<rparr> Map.empty 50000 None None = Inr p"
    "fp_wave_candidate p = []" "fp_next_blocked_lead p = None" "fp_blocked_reason p = Some BLOCK_HORIZON_COMPLETE"
    using repair_plan by blast
  obtain sc1 where sel: "select_backlog_cycle two_lead_settings (quiet_env all_committed) morning_cycle 50000 50000000000 (?sc, ()) = (Inr (Some (night_cycle, p)), (sc1, ()))"
    using quiet_select [of ?sc all_committed p] p by (auto simp: start_sched_def)
  have "\<exists>sc2. catch_up two_lead_settings (quiet_env all_committed) False morning_cycle p 50000 (?sc, ()) = (Inr (night_cycle, p, []), (sc2, ()))"
    unfolding catch_up_def quiet_newest bindP_Inr [where m = "select_backlog_cycle _ _ _ _ _", OF sel]
    by (cases "sc_backlog_quarantined_until sc1 (cycle_label night_cycle)")
      (simp_all add: p(2) settle_backlog_def clear_backlog_failure_def record_backlog_failure_def backoff_after_def plain_run quiet_env_def Let_def)
  then obtain sc2 where cu: "catch_up two_lead_settings (quiet_env all_committed) False morning_cycle p 50000 (?sc, ()) = (Inr (night_cycle, p, []), (sc2, ()))"
    by (elim exE that)
  have "1 < st_quarantine_threshold two_lead_settings" "fst (en_is_complete (quiet_env all_committed) c w) = Inr False" for c w
    by (simp_all add: two_lead_settings_def usual_settings_def quiet_env_def)
  from unpromoting_repair_never_quarantined [OF cu _ p(2) _ this(2,1)] cu show ?thesis by auto
qed

end
