(* ===== verification/Spec2Isabelle.thy ===== *)
theory Spec2Isabelle
  imports Registration ServingWindow Lifecycle Locks StorageDtype Precipitation IdxParser
    WavePlanner Polling GcPass GcRecovery LockCoordinator ReaderPool GcRetention GatedReads PointServing
    PointAnswers WindEnsemble WindField SchedulerQuarantine
begin

text \<open>
  A verification development of a weather platform (Python). The platform ingests the GFS and
  GEFS forecasts of NOAA, stores them as sharded arrays in an object store with a relational
  catalog, and serves them over an HTTP interface; a background collector reclaims what serving no
  longer needs. This development models the decision logic of the shared domain package
  (\<open>src/packages/domain/src/domain\<close>), of the ingestion service
  (\<open>src/services/ingestion/src/ingestion\<close>) and of the read path of the HTTP service
  (\<open>src/services/api/src/api\<close>).

  \<^bold>\<open>Parts of the program and where they are modelled\<close>

  \<^item> Registries of the domain. \<open>Cadence\<close> (\<open>cadence.py\<close>), \<open>Horizon\<close> (\<open>horizon.py\<close>), \<open>Coverage\<close>
    (\<open>coverage.py\<close>): module-level dictionaries become explicit state arguments, and registration
    returns the new state. All three satisfy the contract of the locale \<open>registry\<close> in \<open>Registry\<close>,
    which each of them interprets. \<open>Registration\<close> (\<open>model_registration.py\<close>) audits them.
  \<^item> The serving window. \<open>Temporal\<close> (\<open>temporal.py\<close>) computes its start and tests valid times;
    \<open>ServingWindow\<close> relates the enumerated window and the membership test; \<open>Lifecycle\<close>
    (\<open>lifecycle.py\<close>) derives cycle expiry and store paths from them.
  \<^item> Reclamation units. \<open>Reclamation\<close> (\<open>reclamation.py\<close>): target and region identities, object keys,
    the predecessor rule of accumulated variables, the registry of expected variables.
  \<^item> Source selection. \<open>Canonical\<close> (\<open>canonical.py\<close>): which run serves a variable at a valid time, in
    the single and the bulk form, and the physical fence over partially deleted data.
  \<^item> Identities. \<open>Locks\<close> (\<open>locks.py\<close>): advisory lock keys as 64-bit words, storage identities.
    \<open>StorageDtype\<close> (\<open>storage_dtype.py\<close>): the dtype of a stored variable.
  \<^item> Science. \<open>Precipitation\<close> (\<open>models/precipitation.py\<close>): phase classification and ensemble support.
  \<^item> Upstream. \<open>IdxParser\<close> (\<open>providers/noaa/idx_parser.py\<close>): parsing of the index files and selection
    of the byte ranges; \<open>Discovery\<close> (\<open>providers/noaa/discovery.py\<close>): object keys, listings with
    retries, snapshots of a publishing cycle.
  \<^item> Realtime planning. \<open>WavePlanner\<close> (\<open>realtime/planner.py\<close>) plans a bounded wave of leads from the
    snapshots of \<open>Discovery\<close> and the committed state; \<open>Polling\<close> (\<open>realtime/polling.py\<close>) is the poll
    cadence machine.
  \<^item> The realtime scheduler. \<open>RealtimeCommitted\<close> (\<open>realtime/committed.py\<close>) reads the committed state and the incomplete
    historical cycles from the catalog of \<open>GcPlanner\<close>; \<open>RealtimeScheduler\<close> (\<open>realtime/scheduler.py\<close>) is one poll, which
    plans with \<open>WavePlanner\<close> and drives the machine of \<open>Polling\<close>, and the loop around it, in the state and exception
    computations of \<open>PyState\<close>. \<open>RealtimeDiscovery\<close> shows which cycles are found, \<open>SchedulerSafety\<close> what a poll keeps,
    \<open>SchedulerQuarantine\<close> which cycles are recovered and how long a quarantine holds.
  \<^item> Reclamation planning. \<open>GcPlanner\<close> and \<open>GcPass\<close> (\<open>gc/planner.py\<close>): one pass over the catalog
    tables, holding what \<open>Canonical\<close> selects and what \<open>Reclamation\<close> calls a predecessor, and
    enqueueing the rest.
  \<^item> The reclamation worker. \<open>GcWorker\<close> (\<open>gc/worker.py\<close>) claims a batch of queue rows, asks for the
    gate of each store, compares generations, recomputes which units serving would need if the
    claimed rows were visible again, defers half claimed wind pairs, deletes the objects and then the
    region markers; it also recovers failed rows and purges terminal ones. Its state is the catalog
    of \<open>GcPlanner\<close> and the set of stored objects. \<open>GcWorkerSafety\<close> proves what a pass may delete and
    the wind invariant over planning and worker steps; \<open>GcRecovery\<close> the removal of objects, the
    recovery, the purge and concrete runs.
  \<^item> Retention. \<open>GcFinalizer\<close> (\<open>gc/finalizer.py\<close>) claims the cycles that are over and tombstones those whose
    units are all reclaimed; \<open>GcSweeper\<close> removes the metadata of tombstoned cycles (\<open>gc/sweeper.py\<close>) and
    compares the stores on disk with the catalog (\<open>gc/inventory.py\<close>). Both work on the catalog of
    \<open>GcPlanner\<close>; \<open>GcRetention\<close> holds what goes wrong between them, and concrete runs.
  \<^item> Locking. \<open>LockCoordinator\<close> (\<open>core/locks.py\<close>): the advisory locks one worker takes on its database
    session, over the keys of \<open>Locks\<close>; the session is a parameter with the laws of the locale
    \<open>lock_server\<close>.
  \<^item> The shard store. \<open>ShardContainer\<close> (\<open>core/zarr_writer.py\<close>, \<open>core/inventory.py\<close>) builds, parses and
    checks the container of one variable; \<open>ShardEncode\<close> tiles a field and encodes a region under both
    formats; \<open>ShardReader\<close> (\<open>core/zarr.py\<close>, \<open>core/zarr_v2.py\<close> of the service) reads chunks, points and
    windows behind its caches, and whole slices as the ingestion does. \<open>ShardRoundTrip\<close> proves the
    caches transparent and the chunk round trip, \<open>ShardEndToEnd\<close> the field round trip and the agreement
    of the readers and of the keys. \<open>ReaderPool\<close> (\<open>core/manifest_reader.py\<close>) caches manifests and
    readers.
  \<^item> Gated reads of the service (\<open>core/reader_gate.py\<close>). \<open>ReaderSession\<close> models the pool connection of a lease
    with its advisory locks, over \<open>lock_server\<close>; \<open>ReaderGate\<close> the threads of the process, their admission,
    shared leases and shutdown as a step relation. \<open>ReaderGateSafety\<close> proves the invariant of the reachable
    states and its consequences, \<open>GatedReads\<close> that every read can be finished.
  \<^item> Geography and points. \<open>GeoGrid\<close> (\<open>geo\<close>, \<open>models/point.py\<close>, \<open>ensemble/interval.py\<close>): coordinates, the regular
    grid, bilinear interpolation, the Wilson interval. \<open>PointInterpolation\<close> (\<open>services/point_forecast.py\<close>,
    \<open>core/zarr.py\<close>) recovers the grid from the axes of a store and reads a point from a window of the array or
    from the chunks; \<open>PointServing\<close> compares it with the whole field. \<open>PointExtraction\<close> assembles the values
    of a batch of leads, with wind and the precipitation phase of \<open>Precipitation\<close>; \<open>PointAnswers\<close> shows that
    both paths and the remembered precipitation give the same answers.
  \<^item> Wind (\<open>models/wind.py\<close>). \<open>Wind\<close>: directions, consensus vector, wind rose and directional probability, with
    their properties in \<open>WindEnsemble\<close>; \<open>WindField\<close>: the binary vector field, advection and sampling.
  \<^item> Vocabulary. \<open>Prelude\<close> holds exceptions as results, dictionaries in insertion order, Python
    strings, ranges and number rendering; \<open>PyTime\<close> datetimes; \<open>PyFloat\<close> floats.

  \<^bold>\<open>Representation\<close>

  A class or dataclass is a record whose fields carry a prefix of the class name, an \<open>Enum\<close> a
  datatype. A function that may raise returns \<open>py_error + 'a\<close>. A \<open>dict\<close> is a map, or an association
  list where the insertion order or the keys are observed. A set of variable names is a HOL set. A
  UTC instant is an integer number of microseconds. A float is \<open>pyfloat\<close>, or a real where the code
  only meets finite values; the rounding of float arithmetic is not modelled (the overflow of the cast to single precision in
  \<open>WindField\<close> is). Strings are ASCII.
  Catalog tables are lists of rows, in the order a query returns them.

  \<^bold>\<open>Parameters\<close>

  What is not under \<open>src/\<close> is an argument of the definitions that use it: the BLAKE2b and SHA-256
  functions, path resolution, the HTTP transport and the XML of a listing page, the random source
  of the poll machine, row identifiers and the store generation reads, the outcome of the store gate,
  the delete requests and the listing of the object store, the database transactions that fail, the probes that fail and the rows other sessions lock; the
  compressor, its inverse and the casts between floats and bit patterns; the pool checkout, the clock and the
  catalog row of a gated read; means, sums, \<open>hypot\<close>, the arctangent and \<open>allclose\<close> of the array library, the mean over members
  and the packing of single-precision floats; the clock, the leadership, the stop event and the calls of the realtime scheduler. A hypothesis about one of them
  states documented behaviour only: the random source returns a value between its bounds, the
  decompressor inverts the compressor, a cast yields as many bytes as its dtype has.

  \<^bold>\<open>Bounds\<close>

  Recursion is structural everywhere except the fall-back of a companion variable in
  \<open>select_variable_source\<close>, which has a termination proof, and the listing loop, which carries the
  page bound 64 of the code as fuel; \<open>listing_all_or_nothing\<close> states exactly when it succeeds. The
  purge loop of the worker carries fuel; \<open>purge_drains_expired\<close> shows that more fuel than the queue
  has rows is enough, since a batch deletes at least one row.

  \<^bold>\<open>What the lemmas show\<close>

  The planner of reclamation never proposes what canonical serving selects nor a predecessor that a
  pending lead needs, only proposes committed and unqueued units, and is idempotent. The reclamation
  worker deletes an object only under its guards, never one that serving selects, and both components
  of a wind vector or none; rows move along the allowed transitions; held rows are claimed again and
  block the rows behind them. Bookkeeping claims only cycles that are over, takes no claim back and tombstones a cycle only when it
  is reclaimed, but for rows that record the cycle of another run, which it abandons; the sweeper removes only retired metadata. What the encoders write, the readers return. The wave planner never jumps over incomplete leads, respects its bound and the predecessor rule, and makes
  progress. A poll of the scheduler recovers a historical cycle only while the wave it planned for the active one waits, and a
  poll that fails before it plans changes nothing. Selection takes the newest eligible run and its bulk form is the single one,
  in all four dictionaries it returns. Parsing
  an index partitions the file and inverts printing. A thread of the service reads a store only under its
  shared gate, connections stay within the limit, every read can finish, and a lease past its lifetime keeps only the
  readers it has and those that read the clock before. A point is answered alike from the
  array, from a window and from the chunks, with or without caches and history; the exceptions (the seam of a global
  grid, a missing mean shard of a flag) are stated as such. A wind rose partitions its ensemble and a decoded
  vector field is the encoded one up to half a quantum. Keys and identities are injective. The window
  functions agree with each other and only move forward. Each theorem labelled with a claim number
  has a concrete instance where it has hypotheses.

  \<^bold>\<open>Not modelled\<close>

  The HTTP service beyond its shard readers, its reader gate and its point interpolation, the web frontend, the unsharded array writers, GRIB decoding, the orchestration
  of threads and processes, monitoring, settings and migrations: they are input and output around
  the logic above. The SQLite fallback of the queue insertion, the environment variable of the
  coverage ratio and the manifest fingerprints (JSON and SHA-256) are left out as well.
\<close>

end
